(* ===== verification/Prelude.thy ===== *)
theory Prelude
  imports Complex_Main "HOL-Library.AList" "HOL-Library.Sublist"
    "HOL-Library.List_Lexorder" "HOL-Library.Char_ord"
begin

text \<open>
  Shared vocabulary of the development: Python numbers and strings, the truth value of an
  optional string, the association lists that stand for Redis hashes, and the named
  collections the component theories add to.

  Python integers are \<open>int\<close> (or \<open>nat\<close> for counts that only grow). Python and Lua floats
  are \<open>real\<close>: rounding errors of floating-point arithmetic, NaN and the infinities are not
  modelled, except where the code tests for them and the model carries the test.
\<close>

named_theorems store_simps \<open>lookup and update laws of the modelled Redis structures\<close>
named_theorems frame_simps \<open>fields an operation does not write\<close>

type_synonym 'v hash = "(string \<times> 'v) list"

section \<open>Python numbers\<close>

text \<open>Python's \<open>int(x)\<close> on a float truncates towards zero.\<close>

definition py_int :: "real \<Rightarrow> int" where
  "py_int x = (if 0 \<le> x then \<lfloor>x\<rfloor> else \<lceil>x\<rceil>)"

text \<open>Python's \<open>round(x)\<close> rounds to the nearest integer and a tie to the even one.\<close>

definition py_round :: "real \<Rightarrow> int" where
  "py_round x =
     (let f = \<lfloor>x\<rfloor>; d = x - of_int f
      in if d < 1 / 2 then f
         else if 1 / 2 < d then f + 1
         else if even f then f else f + 1)"

lemma py_round_bounds: "of_int (py_round x) \<le> x + 1 / 2" "x - 1 / 2 \<le> of_int (py_round x)"
proof -
  have f: "of_int \<lfloor>x\<rfloor> \<le> x" "x < of_int \<lfloor>x\<rfloor> + 1"
    by linarith+
  show "of_int (py_round x) \<le> x + 1 / 2"
    unfolding py_round_def Let_def using f by (auto split: if_split; linarith?)
  show "x - 1 / 2 \<le> of_int (py_round x)"
    unfolding py_round_def Let_def using f by (auto split: if_split; linarith?)
qed

lemma py_round_of_int [simp]: "py_round (of_int n) = n"
  by (simp add: py_round_def)

lemma py_round_numeral [simp]:
  "py_round (numeral k) = numeral k" "py_round 0 = 0" "py_round 1 = 1"
  by (simp_all add: py_round_def)

lemma py_round_nonneg: "0 \<le> x \<Longrightarrow> 0 \<le> py_round x"
  using py_round_bounds(2) [of x] by linarith

lemma py_round_le: "x \<le> of_int n \<Longrightarrow> py_round x \<le> n"
proof -
  assume "x \<le> of_int n"
  then have "\<lfloor>x\<rfloor> \<le> n" by linarith
  then show "py_round x \<le> n"
  proof (cases "\<lfloor>x\<rfloor> = n")
    case True
    with \<open>x \<le> of_int n\<close> have "x - of_int \<lfloor>x\<rfloor> \<le> 0" by simp
    with True show ?thesis by (simp add: py_round_def Let_def)
  next
    case False
    with \<open>\<lfloor>x\<rfloor> \<le> n\<close> show ?thesis by (auto simp: py_round_def Let_def)
  qed
qed

lemma py_round_floor: "\<lfloor>x\<rfloor> \<le> py_round x" "py_round x \<le> \<lfloor>x\<rfloor> + 1"
  by (auto simp: py_round_def Let_def)

lemma py_round_mono:
  assumes "x \<le> y"
  shows "py_round x \<le> py_round y"
proof (cases "\<lfloor>x\<rfloor> = \<lfloor>y\<rfloor>")
  case True
  with assms show ?thesis by (auto simp: py_round_def Let_def)
next
  case False
  with floor_mono [OF assms] have "\<lfloor>x\<rfloor> + 1 \<le> \<lfloor>y\<rfloor>" by simp
  with py_round_floor(2) [of x] py_round_floor(1) [of y] show ?thesis by linarith
qed

lemma py_int_nonneg: "0 \<le> x \<Longrightarrow> 0 \<le> py_int x"
  by (simp add: py_int_def)

lemma py_int_of_int [simp]: "py_int (of_int n) = n"
  by (simp add: py_int_def)

lemma py_int_le: "0 \<le> x \<Longrightarrow> of_int (py_int x) \<le> x"
  by (simp add: py_int_def)

section \<open>Optional values and strings\<close>

text \<open>The truth value of a Python \<open>str | None\<close>.\<close>

definition truthy :: "string option \<Rightarrow> bool" where
  "truthy p = (case p of None \<Rightarrow> False | Some s \<Rightarrow> s \<noteq> [])"

lemma truthy_simps [simp]:
  "truthy None = False" "truthy (Some s) = (s \<noteq> [])"
  by (simp_all add: truthy_def)

text \<open>Python's \<open>x or d\<close> on an optional string.\<close>

definition or_str :: "string option \<Rightarrow> string \<Rightarrow> string" where
  "or_str p d = (case p of None \<Rightarrow> d | Some s \<Rightarrow> if s = [] then d else s)"

section \<open>Association lists as Redis hashes\<close>

lemma sum_list_map_filter_le:
  fixes f :: "'a \<Rightarrow> real"
  shows "\<forall>x \<in> set xs. 0 \<le> f x \<Longrightarrow> (\<Sum>x \<leftarrow> filter P xs. f x) \<le> (\<Sum>x \<leftarrow> xs. f x)"
  by (induction xs) (auto simp: add_increasing)

lemma sum_list_map_nonneg:
  fixes f :: "'a \<Rightarrow> real"
  shows "\<forall>x \<in> set xs. 0 \<le> f x \<Longrightarrow> 0 \<le> (\<Sum>x \<leftarrow> xs. f x)"
  by (induction xs) auto

lemma map_of_filter_key:
  "map_of (filter (\<lambda>(k, v). P k) xs) = (\<lambda>k. if P k then map_of xs k else None)"
  by (induction xs) (auto simp: fun_eq_iff)

lemma distinct_keys_filter: "distinct (map fst xs) \<Longrightarrow> distinct (map fst (filter P xs))"
  by (induction xs) auto

section \<open>The best of a list\<close>

text \<open>The first element that no later one is better than, by a test that compares with the best so far.\<close>

fun top_row :: "('a \<Rightarrow> 'a \<Rightarrow> bool) \<Rightarrow> 'a list \<Rightarrow> 'a option" where
  "top_row better [] = None"
| "top_row better (x # xs) = Some (fold (\<lambda>y best. if better y best then y else best) xs x)"

lemma top_row_mem:
  assumes "top_row better rows = Some y"
  shows "y \<in> set rows"
proof -
  have "fold (\<lambda>y best. if better y best then y else best) xs x \<in> insert x (set xs)" for x xs
    by (induction xs arbitrary: x) force+
  with assms show ?thesis by (cases rows) auto
qed

lemma top_row_max:
  fixes f :: "'a \<Rightarrow> int"
  assumes "\<And>x y. better x y \<Longrightarrow> f y \<le> f x" "\<And>x y. \<not> better x y \<Longrightarrow> f x \<le> f y"
    "top_row better rows = Some y" "z \<in> set rows"
  shows "f z \<le> f y"
proof -
  have "\<forall>z \<in> insert x (set xs). f z \<le> f (fold (\<lambda>y best. if better y best then y else best) xs x)" for x xs
  proof (induction xs arbitrary: x)
    case (Cons u us)
    from Cons.IH [of "if better u x then u else x"] assms(1) [of u x] assms(2) [of u x]
    show ?case by (force split: if_splits)
  qed simp
  with assms(3,4) show ?thesis by (cases rows) auto
qed

end
