(* ===== verification/Taxonomy.thy ===== *)
theory Taxonomy
  imports Prelude
begin

text \<open>
  \<open>swebench_eval/database/state_machine.py\<close>: the error taxonomy, the run and row states and
  the three mappings from a harness or eval outcome to a category or a state.

  The \<open>Literal\<close> types are datatypes with one constructor per string. The termination reason
  stays a string, as in the code, because an unknown reason is a case the code handles.
\<close>

section \<open>Categories and states\<close>

datatype error_category =
    RESOLVED | UNRESOLVED | HARNESS_TIMEOUT | HARNESS_STUCK | HARNESS_BUDGET_EXCEEDED
  | HARNESS_MAX_TURNS_EXCEEDED | HARNESS_MAX_TOKENS_TRUNCATED | HARNESS_MODEL_REFUSED
  | HARNESS_CRASH | MODEL_API_ERROR | EMPTY_PATCH | PATCH_APPLY_FAILED | EVAL_INFRA_ERROR
  | ORCHESTRATOR_INFRA_ERROR | EVAL_GRADE_INVALID | PAUSED_BY_OPERATOR
  | HARNESS_PATCH_EXTRACT_TIMEOUT | HARNESS_MALFORMED_TOOL_CALLS | HARNESS_ZERO_MODEL_CALLS
  | HARNESS_EMPTY_RESPONSE | HARNESS_CONTEXT_EXHAUSTED | EVAL_OOM_KILLED | EVAL_TIMEOUT

definition retryable_set :: "error_category list" where
  "retryable_set =
     [HARNESS_TIMEOUT, HARNESS_STUCK, HARNESS_BUDGET_EXCEEDED, HARNESS_CRASH, MODEL_API_ERROR,
      EVAL_INFRA_ERROR, ORCHESTRATOR_INFRA_ERROR, HARNESS_ZERO_MODEL_CALLS,
      HARNESS_EMPTY_RESPONSE, EVAL_OOM_KILLED]"

definition terminal_set :: "error_category list" where
  "terminal_set =
     [RESOLVED, UNRESOLVED, EMPTY_PATCH, PATCH_APPLY_FAILED, EVAL_GRADE_INVALID, EVAL_TIMEOUT]"

definition is_retryable :: "error_category \<Rightarrow> bool" where
  "is_retryable c \<longleftrightarrow> c \<in> set retryable_set"

definition is_terminal :: "error_category \<Rightarrow> bool" where
  "is_terminal c \<longleftrightarrow> c \<in> set terminal_set"

definition already_final_run_statuses :: "string list" where
  "already_final_run_statuses = [''completed'', ''aborted'', ''aborting'', ''finalising'']"

definition is_run_closed :: "string \<Rightarrow> bool" where
  "is_run_closed status \<longleftrightarrow> status \<in> set already_final_run_statuses"

text \<open>
  \<open>State = HarnessState | EvalState\<close>. \<open>EMPTY_PATCH\<close> and the two verdicts are also names of
  categories, so the row states carry an \<open>S_\<close>.
\<close>

datatype row_state =
    S_PENDING | S_DISPATCHED | S_HARNESS_RUNNING | S_PATCH_READY | S_FAILED_HARNESS | S_STUCK
  | S_BUDGET_EXCEEDED | S_EMPTY_PATCH | S_ABORTED_IN_FLIGHT | S_NEVER_DISPATCHED | S_ABANDONED
  | S_EVAL_RUNNING | S_RESOLVED | S_UNRESOLVED | S_FAILED_EVAL | S_PATCH_APPLY_FAILED

definition harness_states :: "row_state list" where
  "harness_states =
     [S_PENDING, S_DISPATCHED, S_HARNESS_RUNNING, S_PATCH_READY, S_FAILED_HARNESS, S_STUCK,
      S_BUDGET_EXCEEDED, S_EMPTY_PATCH, S_ABORTED_IN_FLIGHT, S_NEVER_DISPATCHED, S_ABANDONED]"

definition eval_states :: "row_state list" where
  "eval_states =
     [S_EVAL_RUNNING, S_RESOLVED, S_UNRESOLVED, S_FAILED_EVAL, S_PATCH_APPLY_FAILED, S_ABANDONED]"

section \<open>Mappings\<close>

definition map_terminated_reason_to_error_category ::
    "string \<Rightarrow> string option \<Rightarrow> error_category option" where
  "map_terminated_reason_to_error_category reason patch =
     (if reason = ''completed'' then (if truthy patch then None else Some EMPTY_PATCH)
      else if reason = ''timeout'' then Some HARNESS_TIMEOUT
      else if reason = ''stuck'' then Some HARNESS_STUCK
      else if reason = ''budget_exceeded'' then Some HARNESS_BUDGET_EXCEEDED
      else if reason = ''max_turns_exceeded'' then Some HARNESS_MAX_TURNS_EXCEEDED
      else if reason = ''max_tokens_truncated'' then Some HARNESS_MAX_TOKENS_TRUNCATED
      else if reason = ''malformed_tool_calls'' then Some HARNESS_MALFORMED_TOOL_CALLS
      else if reason = ''zero_model_calls'' then Some HARNESS_ZERO_MODEL_CALLS
      else if reason = ''context_exhausted'' then Some HARNESS_CONTEXT_EXHAUSTED
      else if reason = ''empty_response'' then Some HARNESS_EMPTY_RESPONSE
      else if reason = ''refused'' then Some HARNESS_MODEL_REFUSED
      else if reason = ''crash'' then Some HARNESS_CRASH
      else if reason = ''model_api_error'' then Some MODEL_API_ERROR
      else if reason = ''patch_extract_timeout'' then Some HARNESS_PATCH_EXTRACT_TIMEOUT
      else Some HARNESS_CRASH)"

definition map_terminated_reason_to_state :: "string \<Rightarrow> string option \<Rightarrow> row_state" where
  "map_terminated_reason_to_state reason patch =
     (if reason = ''completed'' then (if truthy patch then S_PATCH_READY else S_EMPTY_PATCH)
      else if reason = ''timeout'' then S_FAILED_HARNESS
      else if reason = ''stuck'' then S_STUCK
      else if reason = ''budget_exceeded'' then S_BUDGET_EXCEEDED
      else if reason = ''max_turns_exceeded'' then S_FAILED_HARNESS
      else if reason = ''max_tokens_truncated'' then S_FAILED_HARNESS
      else if reason = ''malformed_tool_calls'' then S_FAILED_HARNESS
      else if reason = ''zero_model_calls'' then S_FAILED_HARNESS
      else if reason = ''context_exhausted'' then S_FAILED_HARNESS
      else if reason = ''empty_response'' then S_FAILED_HARNESS
      else if reason = ''refused'' then S_FAILED_HARNESS
      else if reason = ''crash'' then S_FAILED_HARNESS
      else if reason = ''model_api_error'' then S_FAILED_HARNESS
      else if reason = ''patch_extract_timeout'' then S_FAILED_HARNESS
      else S_FAILED_HARNESS)"

text \<open>The keyword arguments of the eval mapping, with the code's defaults.\<close>

record eval_flags =
  patch_apply_ok :: bool
  grade_invalid :: bool
  oom_killed :: bool
  infra_failure :: bool
  timed_out :: bool

definition default_eval_flags :: eval_flags where
  "default_eval_flags =
     \<lparr>patch_apply_ok = True, grade_invalid = False, oom_killed = False, infra_failure = False,
      timed_out = False\<rparr>"

definition map_eval_outcome_to_error_category :: "bool \<Rightarrow> eval_flags \<Rightarrow> error_category" where
  "map_eval_outcome_to_error_category resolved fl =
     (if oom_killed fl then EVAL_OOM_KILLED
      else if infra_failure fl then EVAL_INFRA_ERROR
      else if timed_out fl then EVAL_TIMEOUT
      else if grade_invalid fl then EVAL_GRADE_INVALID
      else if \<not> patch_apply_ok fl then PATCH_APPLY_FAILED
      else if resolved then RESOLVED else UNRESOLVED)"

section \<open>Correctness\<close>

lemmas taxonomy_sets = retryable_set_def terminal_set_def is_retryable_def is_terminal_def

lemma retryable_not_terminal: "is_retryable c \<Longrightarrow> \<not> is_terminal c"
  by (cases c) (simp_all add: taxonomy_sets)

lemma eval_category_final:
  "is_terminal (map_eval_outcome_to_error_category r fl) \<longleftrightarrow> \<not> oom_killed fl \<and> \<not> infra_failure fl"
  by (auto simp: map_eval_outcome_to_error_category_def taxonomy_sets)

lemma category_cases_not_completed:
  "reason \<noteq> ''completed'' \<Longrightarrow>
     \<exists>c. map_terminated_reason_to_error_category reason patch = Some c \<and> c \<noteq> EMPTY_PATCH \<and>
        c \<notin> {RESOLVED, UNRESOLVED}"
  by (simp add: map_terminated_reason_to_error_category_def)

lemma state_not_completed:
  "reason \<noteq> ''completed'' \<Longrightarrow>
     map_terminated_reason_to_state reason patch \<in> {S_FAILED_HARNESS, S_STUCK, S_BUDGET_EXCEEDED}"
  by (simp add: map_terminated_reason_to_state_def)

text \<open>
  The two harness mappings agree, for every reason string: an attempt goes on to grading
  (state \<open>PATCH_READY\<close>) exactly when it finished cleanly with a patch, and then the harness gives
  it no category; it counts as an empty patch exactly when it finished cleanly without one; and
  no harness outcome is ever a verdict.
\<close>

theorem harness_outcome_consistent:
  "(map_terminated_reason_to_state reason patch = S_PATCH_READY \<longleftrightarrow>
      reason = ''completed'' \<and> truthy patch) \<and>
   (map_terminated_reason_to_error_category reason patch = None \<longleftrightarrow>
      map_terminated_reason_to_state reason patch = S_PATCH_READY) \<and>
   (map_terminated_reason_to_error_category reason patch = Some EMPTY_PATCH \<longleftrightarrow>
      map_terminated_reason_to_state reason patch = S_EMPTY_PATCH) \<and>
   (map_terminated_reason_to_state reason patch = S_EMPTY_PATCH \<longleftrightarrow>
      reason = ''completed'' \<and> \<not> truthy patch) \<and>
   map_terminated_reason_to_error_category reason patch \<notin> {Some RESOLVED, Some UNRESOLVED} \<and>
   map_terminated_reason_to_state reason patch \<in> set harness_states"
proof (cases "reason = ''completed''")
  case True
  then show ?thesis
    by (simp add: map_terminated_reason_to_state_def map_terminated_reason_to_error_category_def
        harness_states_def)
next
  case False
  with category_cases_not_completed [OF False, of patch] state_not_completed [OF False, of patch]
  show ?thesis by (auto simp: harness_states_def)
qed

text \<open>
  What a grade is allowed to say: infrastructure voids it before the logs are read, a
  timeout and an invalid grade are never a resolve verdict, the verdict follows the tests only
  when no flag is set, and the outcome is final exactly when the infrastructure did not fail,
  retryable exactly when it did.
\<close>

theorem eval_outcome_precedence:
  "(map_eval_outcome_to_error_category r fl = RESOLVED \<longleftrightarrow> r \<and> fl = default_eval_flags) \<and>
   (oom_killed fl \<longrightarrow> map_eval_outcome_to_error_category r fl = EVAL_OOM_KILLED) \<and>
   (\<not> oom_killed fl \<and> infra_failure fl \<longrightarrow> map_eval_outcome_to_error_category r fl = EVAL_INFRA_ERROR) \<and>
   is_terminal (map_eval_outcome_to_error_category r fl) =
     (\<not> is_retryable (map_eval_outcome_to_error_category r fl)) \<and>
   is_retryable (map_eval_outcome_to_error_category r fl) = (oom_killed fl \<or> infra_failure fl)"
  by (cases fl) (auto simp: map_eval_outcome_to_error_category_def default_eval_flags_def taxonomy_sets)

text \<open>
  No category is both retried and final, and the categories of a truncated or operator-ended
  attempt are neither.
\<close>

theorem retryable_terminal_partition:
  "\<not> (is_retryable c \<and> is_terminal c) \<and>
   (\<not> is_retryable c \<and> \<not> is_terminal c \<longleftrightarrow>
      c \<in> {HARNESS_MAX_TURNS_EXCEEDED, HARNESS_MAX_TOKENS_TRUNCATED, HARNESS_MODEL_REFUSED,
           PAUSED_BY_OPERATOR, HARNESS_PATCH_EXTRACT_TIMEOUT, HARNESS_MALFORMED_TOOL_CALLS,
           HARNESS_CONTEXT_EXHAUSTED})"
  by (cases c) (simp_all add: taxonomy_sets)

theorem eval_outcome_precedence_witness:
  "map_eval_outcome_to_error_category True
     (default_eval_flags\<lparr>oom_killed := True, timed_out := True\<rparr>) = EVAL_OOM_KILLED"
  using eval_outcome_precedence [of True "default_eval_flags\<lparr>oom_killed := True, timed_out := True\<rparr>"]
  by simp

end
