(* ===== verification/Pacer_Script.thy ===== *)
theory Pacer_Script
  imports Prelude
begin

text \<open>
  The admission script of \<open>swebench_eval/gateway/pacer.py\<close> (\<open>_ADMIT_LUA\<close>): one atomic
  decision over the shared Redis keys of one model alias.

  The five mutable keys are the fields of \<open>pacer_db\<close>: the arrival and request buckets
  (hashes \<open>level\<close>, \<open>upd\<close>), the in-flight hash (call id to tokens and start time), the wait
  queue (a sorted set, member to score) and the waiters' estimates (call id to charge and
  registration time). \<open>db_ttl\<close> holds the absolute expiry times that \<open>EXPIRE\<close> sets. Redis runs
  a script without interleaving, so the script is one function from a database and the server
  time to a database and a verdict; it is composed of the reads (\<open>admit_view\<close>), the decision
  (\<open>deny_axis\<close>) and the two writes (\<open>commit_admit\<close>, \<open>commit_deny\<close>).
\<close>

section \<open>The keys of one alias\<close>

record limits =
  c_burst :: real
  r_tok :: real
  k_inflight :: real
  c_req :: real
  r_qps :: real

text \<open>The module constants \<open>DEFAULT_C_BURST\<close> ... \<open>DEFAULT_R_QPS\<close> and the in-flight TTL.\<close>

definition default_limits :: limits where
  "default_limits =
     \<lparr>c_burst = 500000, r_tok = 20000, k_inflight = 1000000, c_req = 30, r_qps = 3 / 2\<rparr>"

definition INFLIGHT_TTL_S :: real where "INFLIGHT_TTL_S = 300"
definition DEFAULT_HOLD_CAP_S :: real where "DEFAULT_HOLD_CAP_S = 240"
definition WAITER_TTL_MARGIN_S :: real where "WAITER_TTL_MARGIN_S = 10"

record bucket_hash =
  bk_level :: "real option"
  bk_upd :: "real option"

definition empty_bucket :: bucket_hash where
  "empty_bucket = \<lparr>bk_level = None, bk_upd = None\<rparr>"

datatype pacer_key = KBucket | KReq | KInflight | KWaitq | KWaitest

record pacer_db =
  db_cfg :: "string \<rightharpoonup> real"
  db_bucket :: bucket_hash
  db_req :: bucket_hash
  db_inflight :: "(real \<times> real) hash"
  db_waitq :: "real hash"
  db_waitest :: "(real \<times> real) hash"
  db_ttl :: "pacer_key \<Rightarrow> real option"

definition empty_db :: "(string \<rightharpoonup> real) \<Rightarrow> pacer_db" where
  "empty_db cfg =
     \<lparr>db_cfg = cfg, db_bucket = empty_bucket, db_req = empty_bucket, db_inflight = [],
      db_waitq = [], db_waitest = [], db_ttl = (\<lambda>_. None)\<rparr>"

text \<open>What \<open>EXPIRE\<close> means for a later access: a key whose time has passed is gone.\<close>

definition due :: "pacer_db \<Rightarrow> real \<Rightarrow> pacer_key \<Rightarrow> bool" where
  "due db now k = (case db_ttl db k of None \<Rightarrow> False | Some e \<Rightarrow> e \<le> now)"

definition expire_due :: "real \<Rightarrow> pacer_db \<Rightarrow> pacer_db" where
  "expire_due now db =
     db\<lparr>db_bucket := (if due db now KBucket then empty_bucket else db_bucket db),
        db_req := (if due db now KReq then empty_bucket else db_req db),
        db_inflight := (if due db now KInflight then [] else db_inflight db),
        db_waitq := (if due db now KWaitq then [] else db_waitq db),
        db_waitest := (if due db now KWaitest then [] else db_waitest db),
        db_ttl := (\<lambda>k. if due db now k then None else db_ttl db k)\<rparr>"

section \<open>The reads of the script\<close>

record admit_args =
  a_est :: real
  a_call_id :: string
  a_ttl :: real
  a_defaults :: limits
  a_wttl :: real
  a_charge :: real

definition read_limits :: "(string \<rightharpoonup> real) \<Rightarrow> limits \<Rightarrow> limits" where
  "read_limits cfg d =
     \<lparr>c_burst = (case cfg ''c_burst'' of Some x \<Rightarrow> x | None \<Rightarrow> c_burst d),
      r_tok = (case cfg ''r_tok'' of Some x \<Rightarrow> x | None \<Rightarrow> r_tok d),
      k_inflight = (case cfg ''k_inflight'' of Some x \<Rightarrow> x | None \<Rightarrow> k_inflight d),
      c_req = (case cfg ''c_req'' of Some x \<Rightarrow> x | None \<Rightarrow> c_req d),
      r_qps = (case cfg ''r_qps'' of Some x \<Rightarrow> x | None \<Rightarrow> r_qps d)\<rparr>"

text \<open>Stale in-flight members are dropped, the tokens of the live ones are summed.\<close>

definition prune_inflight :: "real \<Rightarrow> real \<Rightarrow> (real \<times> real) hash \<Rightarrow> (real \<times> real) hash" where
  "prune_inflight now ttl xs = filter (\<lambda>(i, tokens, started). \<not> ttl < now - started) xs"

definition inflight_total :: "(real \<times> real) hash \<Rightarrow> real" where
  "inflight_total xs = (\<Sum>(i, tokens, started) \<leftarrow> xs. tokens)"

text \<open>Stale waiters leave both the estimates and the queue.\<close>

definition stale_waiters :: "real \<Rightarrow> real \<Rightarrow> (real \<times> real) hash \<Rightarrow> string list" where
  "stale_waiters now wttl xs = map fst (filter (\<lambda>(i, charge, reg). wttl < now - reg) xs)"

definition prune_waitest :: "real \<Rightarrow> real \<Rightarrow> (real \<times> real) hash \<Rightarrow> (real \<times> real) hash" where
  "prune_waitest now wttl xs = filter (\<lambda>(i, charge, reg). \<not> wttl < now - reg) xs"

definition prune_waitq :: "string list \<Rightarrow> real hash \<Rightarrow> real hash" where
  "prune_waitq dead q = filter (\<lambda>(i, score). i \<notin> set dead) q"

text \<open>\<open>ZRANGE key 0 0\<close>: the lowest score, ties in the members' lexicographic order.\<close>

fun zhead :: "real hash \<Rightarrow> (string \<times> real) option" where
  "zhead [] = None"
| "zhead ((m, s) # q) =
     (case zhead q of
        None \<Rightarrow> Some (m, s)
      | Some (m', s') \<Rightarrow> if s < s' \<or> s = s' \<and> m \<le> m' then Some (m, s) else Some (m', s'))"

text \<open>
  The bounded search for the head: an orphan (a queue member without an estimate) is dropped
  and the next head is read, sixteen times at most. The result is the queue left, the head's
  estimate and whether the caller is the head (or has no one ahead).
\<close>

fun scan_head ::
    "nat \<Rightarrow> string \<Rightarrow> (real \<times> real) hash \<Rightarrow> real hash \<Rightarrow> real hash \<times> real \<times> bool" where
  "scan_head 0 me west q = (q, 0, True)"
| "scan_head (Suc n) me west q =
     (case zhead q of
        None \<Rightarrow> (q, 0, True)
      | Some (h, _) \<Rightarrow>
          if h = me then (q, 0, True)
          else (case map_of west h of
                  Some (est, _) \<Rightarrow> (q, est, False)
                | None \<Rightarrow> scan_head n me west (AList.delete h q)))"

text \<open>Refill from the server time; missing state is a full bucket.\<close>

definition refill :: "bucket_hash \<Rightarrow> real \<Rightarrow> real \<Rightarrow> real \<Rightarrow> real" where
  "refill b now cap rate =
     (case (bk_level b, bk_upd b) of
        (Some level, Some upd) \<Rightarrow>
          (let l = level + (now - upd) * rate in if cap < l then cap else l)
      | _ \<Rightarrow> cap)"

record admit_view =
  w_lim :: limits
  w_inflight :: "(real \<times> real) hash"
  w_sum :: real
  w_waitest :: "(real \<times> real) hash"
  w_waitq :: "real hash"
  w_head_est :: real
  w_is_head :: bool
  w_level :: real
  w_rlevel :: real

definition view :: "pacer_db \<Rightarrow> real \<Rightarrow> admit_args \<Rightarrow> admit_view" where
  "view db now a =
     (let lim = read_limits (db_cfg db) (a_defaults a);
          inflight = prune_inflight now (a_ttl a) (db_inflight db);
          dead = stale_waiters now (a_wttl a) (db_waitest db);
          west = prune_waitest now (a_wttl a) (db_waitest db);
          (q, head_est, is_head) = scan_head 16 (a_call_id a) west (prune_waitq dead (db_waitq db))
      in \<lparr>w_lim = lim, w_inflight = inflight, w_sum = inflight_total inflight,
          w_waitest = west, w_waitq = q, w_head_est = head_est, w_is_head = is_head,
          w_level = refill (db_bucket db) now (c_burst lim) (r_tok lim),
          w_rlevel = refill (db_req db) now (c_req lim) (r_qps lim)\<rparr>)"

section \<open>The decision\<close>

datatype axis = Tok | Req | Inflight

definition need_tok :: "admit_view \<Rightarrow> admit_args \<Rightarrow> real" where
  "need_tok w a = min (a_charge a + w_head_est w) (c_burst (w_lim w))"

definition need_req :: "admit_view \<Rightarrow> real" where
  "need_req w = (if w_is_head w then 1 else 2)"

definition need_inf :: "admit_view \<Rightarrow> admit_args \<Rightarrow> real" where
  "need_inf w a = w_sum w + min (a_est a + w_head_est w) (k_inflight (w_lim w))"

definition deny_axis :: "admit_view \<Rightarrow> admit_args \<Rightarrow> axis option" where
  "deny_axis w a =
     (if w_level w < need_tok w a then Some Tok
      else if w_rlevel w < need_req w then Some Req
      else if k_inflight (w_lim w) < need_inf w a then Some Inflight
      else None)"

section \<open>The writes and the reply\<close>

record verdict =
  v_admitted :: bool
  v_wait_ms :: int
  v_axis :: "axis option"
  v_level :: int
  v_rlevel_x1000 :: int
  v_inflight_sum :: int
  v_queue_len :: int
  v_head_est :: int
  v_is_head :: bool
  v_r_tok :: int
  v_k_inflight :: int

definition set_bucket :: "real \<Rightarrow> real \<Rightarrow> bucket_hash" where
  "set_bucket level now = \<lparr>bk_level = Some level, bk_upd = Some now\<rparr>"

definition commit_admit ::
    "pacer_db \<Rightarrow> real \<Rightarrow> admit_args \<Rightarrow> admit_view \<Rightarrow> pacer_db \<times> verdict" where
  "commit_admit db now a w =
     (db\<lparr>db_bucket := set_bucket (w_level w - a_charge a) now,
         db_req := set_bucket (w_rlevel w - 1) now,
         db_inflight := AList.update (a_call_id a) (a_est a, now) (w_inflight w),
         db_waitq := AList.delete (a_call_id a) (w_waitq w),
         db_waitest := AList.delete (a_call_id a) (w_waitest w),
         db_ttl := (db_ttl db)(KBucket := Some (now + 3600), KReq := Some (now + 3600),
                               KInflight := Some (now + 3600))\<rparr>,
      \<lparr>v_admitted = True, v_wait_ms = 0, v_axis = None,
       v_level = \<lfloor>w_level w - a_charge a\<rfloor>, v_rlevel_x1000 = \<lfloor>w_rlevel w * 1000\<rfloor>,
       v_inflight_sum = \<lfloor>w_sum w + a_est a\<rfloor>, v_queue_len = int (length (w_waitq w)),
       v_head_est = \<lfloor>w_head_est w\<rfloor>, v_is_head = w_is_head w,
       v_r_tok = \<lfloor>r_tok (w_lim w)\<rfloor>, v_k_inflight = \<lfloor>k_inflight (w_lim w)\<rfloor>\<rparr>)"

definition priority :: "real \<Rightarrow> admit_args \<Rightarrow> admit_view \<Rightarrow> real" where
  "priority now a w =
     (if 0 < r_tok (w_lim w) then now - a_charge a / r_tok (w_lim w) else now)"

definition wait_hint :: "admit_args \<Rightarrow> admit_view \<Rightarrow> real" where
  "wait_hint a w =
     (let lim = w_lim w;
          tok_wait = (if w_level w < need_tok w a \<and> 0 < r_tok lim
                      then max (1 / 4) ((need_tok w a - w_level w) / r_tok lim) else 1 / 4)
      in if w_rlevel w < need_req w \<and> 0 < r_qps lim
         then max tok_wait ((need_req w - w_rlevel w) / r_qps lim) else tok_wait)"

text \<open>\<open>ZADD NX\<close> keeps the score of a member that is already queued.\<close>

definition zadd_nx :: "string \<Rightarrow> real \<Rightarrow> real hash \<Rightarrow> real hash" where
  "zadd_nx m s q = (if m \<in> fst ` set q then q else (m, s) # q)"

definition commit_deny ::
    "pacer_db \<Rightarrow> real \<Rightarrow> admit_args \<Rightarrow> admit_view \<Rightarrow> axis \<Rightarrow> pacer_db \<times> verdict" where
  "commit_deny db now a w ax =
     (let fresh = (map_of (w_waitest w) (a_call_id a) = None);
          west = (if fresh then (a_call_id a, a_charge a, now) # w_waitest w else w_waitest w);
          q = (if fresh then zadd_nx (a_call_id a) (priority now a w) (w_waitq w) else w_waitq w);
          queue_len = int (length (w_waitq w)) + (if fresh then 1 else 0)
      in (db\<lparr>db_bucket := set_bucket (w_level w) now,
             db_req := set_bucket (w_rlevel w) now,
             db_inflight := w_inflight w,
             db_waitq := q,
             db_waitest := west,
             db_ttl := (db_ttl db)(KBucket := Some (now + 3600), KReq := Some (now + 3600),
                                   KWaitq := Some (now + 3600), KWaitest := Some (now + 3600))\<rparr>,
          \<lparr>v_admitted = False, v_wait_ms = \<lceil>wait_hint a w * 1000\<rceil>, v_axis = Some ax,
           v_level = \<lfloor>w_level w\<rfloor>, v_rlevel_x1000 = \<lfloor>w_rlevel w * 1000\<rfloor>,
           v_inflight_sum = \<lfloor>w_sum w\<rfloor>, v_queue_len = queue_len,
           v_head_est = \<lfloor>w_head_est w\<rfloor>, v_is_head = w_is_head w,
           v_r_tok = \<lfloor>r_tok (w_lim w)\<rfloor>, v_k_inflight = \<lfloor>k_inflight (w_lim w)\<rfloor>\<rparr>))"

definition admit_script :: "pacer_db \<Rightarrow> real \<Rightarrow> admit_args \<Rightarrow> pacer_db \<times> verdict" where
  "admit_script db0 now a =
     (let db = expire_due now db0;
          w = view db now a
      in case deny_axis w a of
           None \<Rightarrow> commit_admit db now a w
         | Some ax \<Rightarrow> commit_deny db now a w ax)"

end
