(* ===== verification/Token_Bucket.thy ===== *)
theory Token_Bucket
  imports Pacer_Script
begin

text \<open>
  The interface the two buckets of the pacer share: a level that never exceeds a cap, a draw
  at a time, and a settlement that only moves the level. The laws are what the script's refill
  and the two \<open>HSET\<close>s promise; the client side is the linear majorant argument by which a
  bucket bounds everything drawn from it.
\<close>

locale token_bucket =
  fixes level_at :: "'b \<Rightarrow> real \<Rightarrow> real"
    and draw :: "'b \<Rightarrow> real \<Rightarrow> real \<Rightarrow> 'b"
    and settle :: "'b \<Rightarrow> real \<Rightarrow> 'b"
    and cap :: real
    and rate :: real
  assumes level_le_cap: "level_at b t \<le> cap"
    and level_draw: "level_at (draw b t a) t' = min cap (level_at b t - a + (t' - t) * rate)"
    and level_settle: "level_at (settle b d) t \<le> level_at b t + max 0 (- d)"
begin

text \<open>A line of slope \<open>rate\<close> through \<open>(t0, L)\<close> that the level stays below at every time.\<close>

definition below :: "'b \<Rightarrow> real \<Rightarrow> real \<Rightarrow> bool" where
  "below b L t0 \<longleftrightarrow> (\<forall>t. level_at b t \<le> L + (t - t0) * rate)"

lemma below_level: "below b L t0 \<Longrightarrow> level_at b t \<le> L + (t - t0) * rate"
  by (simp add: below_def)

lemma below_first: "below (draw b t0 a) (cap - a) t0"
  unfolding below_def
proof
  fix t
  have "level_at (draw b t0 a) t \<le> level_at b t0 - a + (t - t0) * rate"
    by (simp add: level_draw)
  then show "level_at (draw b t0 a) t \<le> cap - a + (t - t0) * rate"
    using level_le_cap [of b t0] by linarith
qed

lemma below_draw:
  assumes "below b L t0"
  shows "below (draw b t a) (L - a) t0"
  unfolding below_def
proof
  fix t'
  have "level_at (draw b t a) t' \<le> level_at b t - a + (t' - t) * rate"
    by (simp add: level_draw)
  also have "\<dots> \<le> L + (t - t0) * rate - a + (t' - t) * rate"
    using below_level [OF assms, of t] by simp
  also have "\<dots> = L - a + (t' - t0) * rate"
    by (simp add: algebra_simps)
  finally show "level_at (draw b t a) t' \<le> L - a + (t' - t0) * rate" .
qed

lemma below_settle:
  assumes "below b L t0"
  shows "below (settle b d) (L + max 0 (- d)) t0"
  unfolding below_def
proof
  fix t
  show "level_at (settle b d) t \<le> L + max 0 (- d) + (t - t0) * rate"
    using level_settle [of b d t] below_level [OF assms, of t] by linarith
qed

lemma below_mono: "below b L t0 \<Longrightarrow> L \<le> L' \<Longrightarrow> below b L' t0"
  unfolding below_def by (meson add_right_mono order_trans)

lemma drawn_bound:
  assumes "below b (K - s) t0" and "m \<le> level_at b t"
  shows "s \<le> K - m + (t - t0) * rate"
  using below_level [OF assms(1), of t] assms(2) by linarith

end

section \<open>The script's buckets\<close>

text \<open>\<open>HINCRBYFLOAT bucket level (-d)\<close>, a missing field counting as 0.\<close>

definition incr_level :: "bucket_hash \<Rightarrow> real \<Rightarrow> bucket_hash" where
  "incr_level b d =
     b\<lparr>bk_level := Some ((case bk_level b of Some l \<Rightarrow> l | None \<Rightarrow> 0) - d)\<rparr>"

lemma refill_le_cap: "refill b now cap rate \<le> cap"
  by (simp add: refill_def Let_def split: option.split)

lemma refill_set_bucket: "refill (set_bucket l t) t' cap rate = min cap (l + (t' - t) * rate)"
  by (simp add: refill_def set_bucket_def Let_def min_def)

lemma refill_empty [simp]: "refill empty_bucket now cap rate = cap"
  by (simp add: refill_def empty_bucket_def)

lemma refill_incr_level:
  "refill (incr_level b d) now cap rate \<le> refill b now cap rate + max 0 (- d)"
  by (auto simp: refill_def incr_level_def Let_def max_def split: option.split)

interpretation hash_bucket: token_bucket
  "\<lambda>b t. refill b t cap rate" "\<lambda>b t a. set_bucket (refill b t cap rate - a) t" incr_level cap rate
  for cap rate
  by unfold_locales (auto simp: refill_le_cap refill_set_bucket refill_incr_level)

end
