(* ===== verification/Pacer_Trace.thy ===== *)
theory Pacer_Trace
  imports Token_Bucket
begin

text \<open>
  Runs of the pacer's shared state: any interleaving of admission scripts, releases (which
  settle the arrival bucket) and dequeues by any number of shims, each atomic.
\<close>

section \<open>The other writers of the shared keys\<close>

text \<open>\<open>_dequeue\<close>: the waiter leaves the queue and the estimates.\<close>

definition dequeue :: "string \<Rightarrow> pacer_db \<Rightarrow> pacer_db" where
  "dequeue i db =
     db\<lparr>db_waitq := AList.delete i (db_waitq db), db_waitest := AList.delete i (db_waitest db)\<rparr>"

text \<open>
  The Redis writes of \<open>release\<close> for an admission of the shared ledger: free the reservation
  and, when the true charge differs from the drawn one, move the bucket level by the
  difference \<open>delta\<close>.
\<close>

definition release_db :: "string \<Rightarrow> real \<Rightarrow> pacer_db \<Rightarrow> pacer_db" where
  "release_db i delta db =
     db\<lparr>db_inflight := AList.delete i (db_inflight db),
        db_bucket := (if delta = 0 then db_bucket db else incr_level (db_bucket db) delta)\<rparr>"

datatype pacer_event = Admit real admit_args | Settle real string real | Dequeue real string

fun pacer_step :: "pacer_db \<Rightarrow> pacer_event \<Rightarrow> pacer_db" where
  "pacer_step db (Admit now a) = fst (admit_script db now a)"
| "pacer_step db (Settle now i delta) = release_db i delta (expire_due now db)"
| "pacer_step db (Dequeue now i) = dequeue i (expire_due now db)"

fun pacer_run :: "pacer_db \<Rightarrow> pacer_event list \<Rightarrow> pacer_db" where
  "pacer_run db [] = db"
| "pacer_run db (e # es) = pacer_run (pacer_step db e) es"

text \<open>What one event draws from the buckets and what it gives back.\<close>

definition admitted :: "pacer_db \<Rightarrow> real \<Rightarrow> admit_args \<Rightarrow> bool" where
  "admitted db now a = v_admitted (snd (admit_script db now a))"

fun step_charge :: "pacer_db \<Rightarrow> pacer_event \<Rightarrow> real" where
  "step_charge db (Admit now a) = (if admitted db now a then a_charge a else 0)"
| "step_charge db _ = 0"

fun step_start :: "pacer_db \<Rightarrow> pacer_event \<Rightarrow> real" where
  "step_start db (Admit now a) = (if admitted db now a then 1 else 0)"
| "step_start db _ = 0"

fun step_refund :: "pacer_event \<Rightarrow> real" where
  "step_refund (Settle now i delta) = max 0 (- delta)"
| "step_refund _ = 0"

fun run_charge :: "pacer_db \<Rightarrow> pacer_event list \<Rightarrow> real" where
  "run_charge db [] = 0"
| "run_charge db (e # es) = step_charge db e + run_charge (pacer_step db e) es"

fun run_starts :: "pacer_db \<Rightarrow> pacer_event list \<Rightarrow> real" where
  "run_starts db [] = 0"
| "run_starts db (e # es) = step_start db e + run_starts (pacer_step db e) es"

fun run_refund :: "pacer_event list \<Rightarrow> real" where
  "run_refund [] = 0"
| "run_refund (e # es) = step_refund e + run_refund es"

section \<open>Invariant\<close>

text \<open>
  Each key holds a member once, every queued member has an estimate and conversely, and the
  recorded amounts are not negative.
\<close>

definition pacer_inv :: "pacer_db \<Rightarrow> bool" where
  "pacer_inv db \<longleftrightarrow>
     distinct (map fst (db_inflight db)) \<and>
     distinct (map fst (db_waitq db)) \<and>
     distinct (map fst (db_waitest db)) \<and>
     fst ` set (db_waitq db) = fst ` set (db_waitest db) \<and>
     db_ttl db KWaitq = db_ttl db KWaitest \<and>
     (\<forall>(i, tokens, s) \<in> set (db_inflight db). 0 \<le> tokens) \<and>
     (\<forall>(i, charge, r) \<in> set (db_waitest db). 0 \<le> charge)"

definition args_ok :: "admit_args \<Rightarrow> bool" where
  "args_ok a \<longleftrightarrow> 0 \<le> a_est a \<and> 0 \<le> a_charge a"

fun event_ok :: "pacer_event \<Rightarrow> bool" where
  "event_ok (Admit now a) = args_ok a"
| "event_ok _ = True"

lemma pacer_inv_empty: "pacer_inv (empty_db cfg)"
  by (simp add: pacer_inv_def empty_db_def)

lemma set_delete_fst: "fst ` set (AList.delete k xs) = fst ` set xs - {k}"
  by (induction xs) auto

lemma distinct_fst_delete: "distinct (map fst xs) \<Longrightarrow> distinct (map fst (AList.delete k xs))"
  by (rule distinct_delete)

lemma set_delete_subset: "set (AList.delete k xs) \<subseteq> set xs"
  by (induction xs) auto

lemma pacer_inv_expire: "pacer_inv db \<Longrightarrow> pacer_inv (expire_due now db)"
  by (auto simp: pacer_inv_def expire_due_def due_def)

text \<open>The head search returns a subqueue, and all of it when the keys agree.\<close>

lemma zhead_in: "zhead q = Some (m, s) \<Longrightarrow> (m, s) \<in> set q"
  by (induction q arbitrary: m s) (auto split: option.splits prod.splits if_splits)

lemma scan_head_all:
  assumes "fst ` set q \<subseteq> fst ` set west"
  shows "fst (scan_head (Suc n) me west q) = q"
proof (cases "zhead q")
  case None
  then show ?thesis by simp
next
  case (Some p)
  obtain h s where p: "p = (h, s)" by (cases p)
  with Some assms have "h \<in> fst ` set west" by (force dest: zhead_in)
  then obtain e r where "map_of west h = Some (e, r)"
    by (metis domIff dom_map_of_conv_image_fst option.exhaust surj_pair)
  with Some p show ?thesis by simp
qed

lemma scan_head_est_nonneg:
  "\<forall>(i, charge, r) \<in> set west. 0 \<le> charge \<Longrightarrow> 0 \<le> fst (snd (scan_head n me west q))"
  by (induction n me west q rule: scan_head.induct)
     (auto split: option.splits dest: map_of_SomeD)

lemma scan_head_is_head:
  "snd (snd (scan_head n me west q)) \<Longrightarrow> fst (snd (scan_head n me west q)) = 0"
  by (induction n me west q rule: scan_head.induct) (auto split: option.splits)

section \<open>What the view holds\<close>

lemma prune_keys_agree:
  assumes "distinct (map fst west)" and "fst ` set q = fst ` set west"
  shows "fst ` set (prune_waitq (stale_waiters now wttl west) q) =
         fst ` set (prune_waitest now wttl west)"
proof -
  have uniq: "(i, x) \<in> set west \<Longrightarrow> (i, y) \<in> set west \<Longrightarrow> x = y" for i x y
    using assms(1) by (meson eq_key_imp_eq_value)
  show ?thesis
    unfolding prune_waitq_def stale_waiters_def prune_waitest_def
    using assms(2) by (fastforce dest: uniq simp: image_iff)
qed

lemma view_simps:
  "w_lim (view db now a) = read_limits (db_cfg db) (a_defaults a)"
  "w_inflight (view db now a) = prune_inflight now (a_ttl a) (db_inflight db)"
  "w_sum (view db now a) = inflight_total (prune_inflight now (a_ttl a) (db_inflight db))"
  "w_waitest (view db now a) = prune_waitest now (a_wttl a) (db_waitest db)"
  "w_level (view db now a) =
     refill (db_bucket db) now (c_burst (read_limits (db_cfg db) (a_defaults a)))
       (r_tok (read_limits (db_cfg db) (a_defaults a)))"
  "w_rlevel (view db now a) =
     refill (db_req db) now (c_req (read_limits (db_cfg db) (a_defaults a)))
       (r_qps (read_limits (db_cfg db) (a_defaults a)))"
  by (simp_all add: view_def Let_def split: prod.split)

lemma view_scan:
  "(w_waitq (view db now a), w_head_est (view db now a), w_is_head (view db now a)) =
     scan_head 16 (a_call_id a) (prune_waitest now (a_wttl a) (db_waitest db))
       (prune_waitq (stale_waiters now (a_wttl a) (db_waitest db)) (db_waitq db))"
  by (simp add: view_def Let_def split: prod.split)

lemma view_waitq:
  assumes "pacer_inv db"
  shows "w_waitq (view db now a) =
    prune_waitq (stale_waiters now (a_wttl a) (db_waitest db)) (db_waitq db)"
proof -
  have "fst ` set (prune_waitq (stale_waiters now (a_wttl a) (db_waitest db)) (db_waitq db)) =
        fst ` set (prune_waitest now (a_wttl a) (db_waitest db))"
    using assms by (intro prune_keys_agree) (auto simp: pacer_inv_def)
  then have "fst (scan_head (Suc 15) (a_call_id a) (prune_waitest now (a_wttl a) (db_waitest db))
     (prune_waitq (stale_waiters now (a_wttl a) (db_waitest db)) (db_waitq db))) =
     prune_waitq (stale_waiters now (a_wttl a) (db_waitest db)) (db_waitq db)"
    by (intro scan_head_all) simp
  with view_scan [of db now a] show ?thesis by (simp add: eval_nat_numeral) (metis fst_conv)
qed

lemma view_head_est_nonneg:
  assumes "pacer_inv db"
  shows "0 \<le> w_head_est (view db now a)"
proof -
  have "\<forall>(i, charge, r) \<in> set (prune_waitest now (a_wttl a) (db_waitest db)). 0 \<le> charge"
    using assms by (auto simp: pacer_inv_def prune_waitest_def)
  from scan_head_est_nonneg [OF this] view_scan [of db now a] show ?thesis
    by (metis fst_conv snd_conv)
qed

lemma view_head_alone: "w_is_head (view db now a) \<Longrightarrow> w_head_est (view db now a) = 0"
  using scan_head_is_head view_scan [of db now a] by (metis fst_conv snd_conv)

end
