(* ===== verification/Pacer_Safety.thy ===== *)
theory Pacer_Safety
  imports Pacer_Trace
begin

text \<open>
  The guarantees of the shared ledger: the invariant of the keys, the arrival-rate and
  call-start bounds of the two buckets over any interleaving, the cap on tokens in flight and
  the head-of-line reservation.
\<close>

section \<open>The invariant is kept\<close>

lemma update_set_cases:
  "x \<in> set (AList.update k v xs) \<Longrightarrow> x = (k, v) \<or> x \<in> set xs"
  by (induction xs) (auto split: if_splits)

lemma prune_inflight_sub: "set (prune_inflight now ttl xs) \<subseteq> set xs"
  by (auto simp: prune_inflight_def)

lemma prune_distinct [simp]:
  "distinct (map fst xs) \<Longrightarrow> distinct (map fst (prune_inflight now ttl xs))"
  "distinct (map fst xs) \<Longrightarrow> distinct (map fst (prune_waitest now ttl xs))"
  "distinct (map fst q) \<Longrightarrow> distinct (map fst (prune_waitq dead q))"
  by (simp_all add: prune_inflight_def prune_waitest_def prune_waitq_def distinct_keys_filter)

text \<open>The tables the script works on, after the pruning.\<close>

definition view_ok :: "admit_view \<Rightarrow> bool" where
  "view_ok w \<longleftrightarrow>
     distinct (map fst (w_inflight w)) \<and> distinct (map fst (w_waitq w)) \<and>
     distinct (map fst (w_waitest w)) \<and> fst ` set (w_waitq w) = fst ` set (w_waitest w) \<and>
     (\<forall>(i, tokens, s) \<in> set (w_inflight w). 0 \<le> tokens) \<and>
     (\<forall>(i, charge, r) \<in> set (w_waitest w). 0 \<le> charge)"

lemma view_ok_view:
  assumes "pacer_inv db"
  shows "view_ok (view db now a)"
proof -
  have keys: "fst ` set (w_waitq (view db now a)) = fst ` set (w_waitest (view db now a))"
    unfolding view_waitq [OF assms] view_simps
    using assms by (intro prune_keys_agree) (auto simp: pacer_inv_def)
  have "set (w_inflight (view db now a)) \<subseteq> set (db_inflight db)"
    by (simp add: view_simps prune_inflight_sub)
  moreover have "set (w_waitest (view db now a)) \<subseteq> set (db_waitest db)"
    by (auto simp: view_simps prune_waitest_def)
  moreover have "distinct (map fst (w_waitq (view db now a)))"
    using assms by (simp add: view_waitq pacer_inv_def)
  ultimately show ?thesis
    using assms keys by (auto simp: view_ok_def view_simps pacer_inv_def)
qed

lemma pacer_inv_commit_admit:
  assumes "view_ok w" "args_ok a" "pacer_inv db"
  shows "pacer_inv (fst (commit_admit db now a w))"
  using assms
  by (auto simp: pacer_inv_def view_ok_def commit_admit_def args_ok_def distinct_update
        set_delete_fst distinct_fst_delete dest: update_set_cases set_delete_subset [THEN subsetD])

lemma pacer_inv_commit_deny:
  assumes "view_ok w" "args_ok a" "pacer_inv db"
  shows "pacer_inv (fst (commit_deny db now a w ax))"
proof -
  have fresh: "map_of (w_waitest w) i = None \<longleftrightarrow> i \<notin> fst ` set (w_waitq w)" for i
    using assms(1) by (simp add: view_ok_def map_of_eq_None_iff)
  show ?thesis
    using assms fresh [of "a_call_id a"]
    by (auto simp: pacer_inv_def view_ok_def commit_deny_def args_ok_def Let_def zadd_nx_def
        map_of_eq_None_iff)
qed

lemma admit_script_cases:
  obtains (admit) "deny_axis (view (expire_due now db) now a) a = None"
      "admit_script db now a = commit_admit (expire_due now db) now a (view (expire_due now db) now a)"
      "admitted db now a"
  | (deny) ax where "deny_axis (view (expire_due now db) now a) a = Some ax"
      "admit_script db now a = commit_deny (expire_due now db) now a (view (expire_due now db) now a) ax"
      "\<not> admitted db now a"
  by (cases "deny_axis (view (expire_due now db) now a) a")
     (auto simp: admit_script_def Let_def admitted_def commit_admit_def commit_deny_def)

lemma pacer_inv_step:
  assumes "pacer_inv db" "event_ok e"
  shows "pacer_inv (pacer_step db e)"
proof (cases e)
  case (Admit now a)
  have inv: "pacer_inv (expire_due now db)" and ok: "args_ok a"
    using assms Admit by (auto intro: pacer_inv_expire)
  note vok = view_ok_view [OF inv, of now a]
  show ?thesis
    by (cases rule: admit_script_cases [of now db a])
       (simp_all add: Admit pacer_inv_commit_admit [OF vok ok inv] pacer_inv_commit_deny [OF vok ok inv])
next
  case (Settle now i delta)
  with pacer_inv_expire [OF assms(1), of now] show ?thesis
    by (auto simp: pacer_inv_def release_db_def distinct_fst_delete
        dest: set_delete_subset [THEN subsetD])
next
  case (Dequeue now i)
  with pacer_inv_expire [OF assms(1), of now] show ?thesis
    by (auto simp: pacer_inv_def dequeue_def distinct_fst_delete set_delete_fst
        dest: set_delete_subset [THEN subsetD])
qed

lemma pacer_inv_run:
  "pacer_inv db \<Longrightarrow> list_all event_ok es \<Longrightarrow> pacer_inv (pacer_run db es)"
  by (induction es arbitrary: db) (auto simp: pacer_inv_step)

lemma db_cfg_step [frame_simps]: "db_cfg (pacer_step db e) = db_cfg db"
proof (cases e)
  case (Admit now a)
  then show ?thesis
    by (cases rule: admit_script_cases [of now db a])
       (simp_all add: commit_admit_def commit_deny_def Let_def expire_due_def)
qed (simp_all add: release_db_def dequeue_def expire_due_def)

section \<open>The buckets over a run\<close>

text \<open>
  Every admission in the run reads the same limits, and no bucket key sits unused for the
  hour after which Redis drops it.
\<close>

fun same_limits :: "limits \<Rightarrow> (string \<rightharpoonup> real) \<Rightarrow> pacer_event list \<Rightarrow> bool" where
  "same_limits lm cfg [] = True"
| "same_limits lm cfg (Admit now a # es) =
     (read_limits cfg (a_defaults a) = lm \<and> same_limits lm cfg es)"
| "same_limits lm cfg (e # es) = same_limits lm cfg es"

fun timely :: "real \<Rightarrow> pacer_event list \<Rightarrow> bool" where
  "timely prev [] = True"
| "timely prev (Admit now a # es) = (now < prev + 3600 \<and> timely now es)"
| "timely prev (Settle now i d # es) = (now < prev + 3600 \<and> timely prev es)"
| "timely prev (Dequeue now i # es) = (now < prev + 3600 \<and> timely prev es)"

fun last_time :: "real \<Rightarrow> pacer_event list \<Rightarrow> real" where
  "last_time t [] = t"
| "last_time t (Admit now a # es) = last_time now es"
| "last_time t (e # es) = last_time t es"

text \<open>Both buckets lie below a line, and neither expires before an hour after \<open>prev\<close>.\<close>

definition ledger_ok :: "pacer_db \<Rightarrow> limits \<Rightarrow> real \<Rightarrow> real \<Rightarrow> real \<Rightarrow> real \<Rightarrow> bool" where
  "ledger_ok db lm prev t0 L R \<longleftrightarrow>
     db_ttl db KBucket = Some (prev + 3600) \<and> db_ttl db KReq = Some (prev + 3600) \<and>
     hash_bucket.below (c_burst lm) (r_tok lm) (db_bucket db) L t0 \<and>
     hash_bucket.below (c_req lm) (r_qps lm) (db_req db) R t0"

lemma expire_keeps_ledger:
  assumes "ledger_ok db lm prev t0 L R" "now < prev + 3600"
  shows "ledger_ok (expire_due now db) lm prev t0 L R"
    "db_bucket (expire_due now db) = db_bucket db" "db_req (expire_due now db) = db_req db"
  using assms by (auto simp: ledger_ok_def expire_due_def due_def)

text \<open>The script draws the charge on an admission and nothing on a denial.\<close>

lemma admit_buckets:
  assumes "read_limits (db_cfg db) (a_defaults a) = lm"
    "db_bucket (expire_due now db) = b" "db_req (expire_due now db) = rb"
  shows "db_bucket (pacer_step db (Admit now a)) =
      set_bucket (refill b now (c_burst lm) (r_tok lm) - step_charge db (Admit now a)) now"
    "db_req (pacer_step db (Admit now a)) =
      set_bucket (refill rb now (c_req lm) (r_qps lm) - step_start db (Admit now a)) now"
    "db_ttl (pacer_step db (Admit now a)) KBucket = Some (now + 3600)"
    "db_ttl (pacer_step db (Admit now a)) KReq = Some (now + 3600)"
proof -
  have cfg: "db_cfg (expire_due now db) = db_cfg db" by (simp add: expire_due_def)
  show "db_bucket (pacer_step db (Admit now a)) =
      set_bucket (refill b now (c_burst lm) (r_tok lm) - step_charge db (Admit now a)) now"
    "db_req (pacer_step db (Admit now a)) =
      set_bucket (refill rb now (c_req lm) (r_qps lm) - step_start db (Admit now a)) now"
    "db_ttl (pacer_step db (Admit now a)) KBucket = Some (now + 3600)"
    "db_ttl (pacer_step db (Admit now a)) KReq = Some (now + 3600)"
    by (cases rule: admit_script_cases [of now db a],
        simp_all add: commit_admit_def commit_deny_def Let_def view_simps assms cfg)+
qed

lemma ledger_step:
  assumes ok: "ledger_ok db lm prev t0 L R" and t: "timely prev [e]"
    and lm: "same_limits lm (db_cfg db) [e]"
  shows "ledger_ok (pacer_step db e) lm (last_time prev [e]) t0
    (L - step_charge db e + step_refund e) (R - step_start db e)"
proof (cases e)
  case (Admit now a)
  with t have now: "now < prev + 3600" by simp
  from Admit lm have lm': "read_limits (db_cfg db) (a_defaults a) = lm" by simp
  note b = admit_buckets [OF lm' expire_keeps_ledger(2,3) [OF ok now]]
  show ?thesis
    using ok b unfolding ledger_ok_def Admit
    by (simp add: hash_bucket.below_draw)
next
  case (Settle now i delta)
  with t have now: "now < prev + 3600" by simp
  note k = expire_keeps_ledger [OF ok now]
  have "hash_bucket.below (c_burst lm) (r_tok lm) (incr_level (db_bucket db) delta)
          (L + max 0 (- delta)) t0"
    using ok unfolding ledger_ok_def by (blast intro: hash_bucket.below_settle)
  moreover have "hash_bucket.below (c_burst lm) (r_tok lm) (db_bucket db) L t0"
    using ok by (simp add: ledger_ok_def)
  ultimately show ?thesis
    using k(1) ok Settle unfolding ledger_ok_def
    by (auto simp: release_db_def k(2,3))
next
  case (Dequeue now i)
  with t have now: "now < prev + 3600" by simp
  note k = expire_keeps_ledger [OF ok now]
  from k(1) Dequeue show ?thesis
    unfolding ledger_ok_def by (simp add: dequeue_def)
qed

lemma timely_Cons: "timely prev (e # es) \<longleftrightarrow> timely prev [e] \<and> timely (last_time prev [e]) es"
  by (cases e) auto

lemma same_limits_Cons:
  "same_limits lm cfg (e # es) \<longleftrightarrow> same_limits lm cfg [e] \<and> same_limits lm cfg es"
  by (cases e) auto

lemma last_time_Cons: "last_time t (e # es) = last_time (last_time t [e]) es"
  by (cases e) auto

lemma ledger_run:
  assumes "ledger_ok db lm prev t0 L R" "timely prev es" "same_limits lm (db_cfg db) es"
  shows "ledger_ok (pacer_run db es) lm (last_time prev es) t0
    (L - run_charge db es + run_refund es) (R - run_starts db es)"
  using assms
proof (induction es arbitrary: db prev L R)
  case Nil
  then show ?case by simp
next
  case (Cons e es)
  have "timely prev [e]" "timely (last_time prev [e]) es"
    "same_limits lm (db_cfg db) [e]" "same_limits lm (db_cfg db) es"
    using Cons.prems by (metis timely_Cons same_limits_Cons)+
  with Cons.IH [OF ledger_step [OF Cons.prems(1)]] show ?case
    by (simp add: frame_simps last_time_Cons [of prev e es] algebra_simps del: last_time.simps)
qed

text \<open>The first script of a busy period sets the line: cap at its time, less what it drew.\<close>

lemma ledger_first:
  assumes "read_limits (db_cfg db) (a_defaults a) = lm"
  shows "ledger_ok (pacer_step db (Admit now a)) lm now now
    (c_burst lm - step_charge db (Admit now a)) (c_req lm - step_start db (Admit now a))"
  unfolding ledger_ok_def admit_buckets [OF assms refl refl]
  by (simp add: hash_bucket.below_first)

end
