(* ===== verification/Pacer_Fair.thy ===== *)
theory Pacer_Fair
  imports Pacer_Safety
begin

text \<open>
  What the ledger promises to its callers: the bounds on what a run admits, the cap on tokens
  in flight, that a denial costs nothing, that the head is never overtaken at its expense, and
  that no call is too large to be served.
\<close>

section \<open>What an admission implies\<close>

lemma admitted_needs:
  assumes "admitted db now a"
  defines "w \<equiv> view (expire_due now db) now a"
  shows "need_tok w a \<le> w_level w" "need_req w \<le> w_rlevel w"
    "need_inf w a \<le> k_inflight (w_lim w)"
    "admit_script db now a = commit_admit (expire_due now db) now a w"
  using assms(1) unfolding w_def
  by (cases rule: admit_script_cases [of now db a]; simp add: deny_axis_def split: if_splits)+

lemma admitted_iff:
  "admitted db now a \<longleftrightarrow>
     (let w = view (expire_due now db) now a
      in need_tok w a \<le> w_level w \<and> need_req w \<le> w_rlevel w \<and>
         need_inf w a \<le> k_inflight (w_lim w))"
  unfolding Let_def
  by (cases rule: admit_script_cases [of now db a]) (auto simp: deny_axis_def split: if_splits)

lemma last_time_snoc: "last_time t (es @ [Admit now a]) = now"
  by (induction t es rule: last_time.induct) auto

lemma run_append:
  "pacer_run db (es @ fs) = pacer_run (pacer_run db es) fs"
  "run_charge db (es @ fs) = run_charge db es + run_charge (pacer_run db es) fs"
  "run_starts db (es @ fs) = run_starts db es + run_starts (pacer_run db es) fs"
  "run_refund (es @ fs) = run_refund es + run_refund fs"
  by (induction es arbitrary: db) auto

lemma same_limits_append:
  "same_limits lm cfg (es @ fs) \<longleftrightarrow> same_limits lm cfg es \<and> same_limits lm cfg fs"
  by (induction lm cfg es rule: same_limits.induct) auto

lemma db_cfg_run [frame_simps]: "db_cfg (pacer_run db es) = db_cfg db"
  by (induction es arbitrary: db) (simp_all add: frame_simps)

text \<open>The bucket is left at its debt at worst: what the last charge exceeds the cap by.\<close>

lemma admitted_level:
  assumes "pacer_inv db" "args_ok a" "admitted db now a"
    "read_limits (db_cfg db) (a_defaults a) = lm"
  shows "- max 0 (a_charge a - c_burst lm)
      \<le> refill (db_bucket (pacer_step db (Admit now a))) now (c_burst lm) (r_tok lm)"
    "0 \<le> refill (db_req (pacer_step db (Admit now a))) now (c_req lm) (r_qps lm)"
proof -
  define w where "w = view (expire_due now db) now a"
  have lim: "w_lim w = lm" using assms(4) by (simp add: w_def view_simps expire_due_def)
  have h: "0 \<le> w_head_est w"
    unfolding w_def by (intro view_head_est_nonneg pacer_inv_expire assms(1))
  note need = admitted_needs [OF assms(3), folded w_def]
  have top: "w_level w \<le> c_burst lm" "w_rlevel w \<le> c_req lm"
    using lim by (simp_all add: w_def view_simps refill_le_cap)
  have db: "db_bucket (pacer_step db (Admit now a)) = set_bucket (w_level w - a_charge a) now"
    "db_req (pacer_step db (Admit now a)) = set_bucket (w_rlevel w - 1) now"
    by (simp_all add: need(4) commit_admit_def)
  show "- max 0 (a_charge a - c_burst lm)
      \<le> refill (db_bucket (pacer_step db (Admit now a))) now (c_burst lm) (r_tok lm)"
    using need(1) h top assms(2) lim unfolding db
    by (auto simp: refill_set_bucket need_tok_def args_ok_def min_def max_def split: if_splits)
  show "0 \<le> refill (db_req (pacer_step db (Admit now a))) now (c_req lm) (r_qps lm)"
    using need(2) top unfolding db
    by (auto simp: refill_set_bucket need_req_def min_def split: if_splits)
qed

section \<open>Rate bounds\<close>

text \<open>
  C2: Over any interleaving of admissions, releases and dequeues by any number of shims that all
  read the same limits, in the order of their clocks and with no gap that lets the pacer's keys
  expire, the weighted tokens admitted from the first script to a later admission are
  at most the burst, plus the refill of the time between, plus what releases refunded, plus
  the excess over the burst of the last call, where that call alone is larger than the bucket.
\<close>

theorem arrival_rate_bound:
  assumes "pacer_inv db" "list_all event_ok (Admit t1 a1 # mid)" "args_ok a"
    and "same_limits lm (db_cfg db) (Admit t1 a1 # mid @ [Admit t a])"
    and "timely t1 (mid @ [Admit t a])"
    and "admitted (pacer_run db (Admit t1 a1 # mid)) t a"
  shows "run_charge db (Admit t1 a1 # mid @ [Admit t a])
    \<le> c_burst lm + (t - t1) * r_tok lm + run_refund mid + max 0 (a_charge a - c_burst lm)"
proof -
  let ?db1 = "pacer_step db (Admit t1 a1)" and ?es = "mid @ [Admit t a]"
  have lim: "read_limits (db_cfg db) (a_defaults a1) = lm" "same_limits lm (db_cfg ?db1) ?es"
    using assms(4) by (simp_all add: frame_simps del: pacer_step.simps)
  have lim_a: "read_limits (db_cfg (pacer_run ?db1 mid)) (a_defaults a) = lm"
    using assms(4) by (simp add: frame_simps same_limits_append del: pacer_step.simps)
  have inv: "pacer_inv (pacer_run ?db1 mid)"
    using assms(1,2) pacer_inv_run [of db "Admit t1 a1 # mid"] by simp
  from ledger_run [OF ledger_first [OF lim(1)] assms(5) lim(2)]
  have "hash_bucket.below (c_burst lm) (r_tok lm) (db_bucket (pacer_run ?db1 ?es))
      (c_burst lm + run_refund mid - run_charge db (Admit t1 a1 # ?es)) t1"
    by (simp add: ledger_ok_def run_append algebra_simps del: pacer_step.simps)
  from hash_bucket.drawn_bound [OF this, of "- max 0 (a_charge a - c_burst lm)" t]
    admitted_level(1) [OF inv assms(3) _ lim_a, of t] assms(6)
  show ?thesis by (simp add: run_append)
qed

text \<open>
  In the same setting the number of calls started is at most the request bucket's capacity
  plus its refill; releases never give a start back.
\<close>

theorem call_start_bound:
  assumes "pacer_inv db" "list_all event_ok (Admit t1 a1 # mid)" "args_ok a"
    and "same_limits lm (db_cfg db) (Admit t1 a1 # mid @ [Admit t a])"
    and "timely t1 (mid @ [Admit t a])"
    and "admitted (pacer_run db (Admit t1 a1 # mid)) t a"
  shows "run_starts db (Admit t1 a1 # mid @ [Admit t a]) \<le> c_req lm + (t - t1) * r_qps lm"
proof -
  let ?db1 = "pacer_step db (Admit t1 a1)" and ?es = "mid @ [Admit t a]"
  have lim: "read_limits (db_cfg db) (a_defaults a1) = lm" "same_limits lm (db_cfg ?db1) ?es"
    using assms(4) by (simp_all add: frame_simps del: pacer_step.simps)
  have lim_a: "read_limits (db_cfg (pacer_run ?db1 mid)) (a_defaults a) = lm"
    using assms(4) by (simp add: frame_simps same_limits_append del: pacer_step.simps)
  have inv: "pacer_inv (pacer_run ?db1 mid)"
    using assms(1,2) pacer_inv_run [of db "Admit t1 a1 # mid"] by simp
  from ledger_run [OF ledger_first [OF lim(1)] assms(5) lim(2)]
  have "hash_bucket.below (c_req lm) (r_qps lm) (db_req (pacer_run ?db1 ?es))
      (c_req lm - run_starts db (Admit t1 a1 # ?es)) t1"
    by (simp add: ledger_ok_def run_append algebra_simps del: pacer_step.simps)
  from hash_bucket.drawn_bound [OF this, of 0 t]
    admitted_level(2) [OF inv assms(3) _ lim_a, of t] assms(6)
  show ?thesis by (simp add: run_append)
qed

section \<open>Tokens in flight\<close>

lemma inflight_total_simps [simp]:
  "inflight_total [] = 0"
  "inflight_total ((i, e, s) # xs) = e + inflight_total xs"
  by (simp_all add: inflight_total_def)

lemma inflight_total_nonneg:
  "\<forall>(i, tokens, s) \<in> set xs. 0 \<le> tokens \<Longrightarrow> 0 \<le> inflight_total xs"
  by (induction xs) auto

lemma inflight_total_filter:
  "\<forall>(i, tokens, s) \<in> set xs. 0 \<le> tokens \<Longrightarrow> inflight_total (filter P xs) \<le> inflight_total xs"
  by (induction xs) (auto simp: add_increasing)

lemma inflight_total_delete:
  "\<forall>(i, tokens, s) \<in> set xs. 0 \<le> tokens \<Longrightarrow> inflight_total (AList.delete i xs) \<le> inflight_total xs"
  by (induction xs) (auto simp: add_increasing)

lemma inflight_total_update:
  "\<forall>(i, tokens, s) \<in> set xs. 0 \<le> tokens \<Longrightarrow>
     inflight_total (AList.update i (e, now) xs) \<le> inflight_total xs + e"
  by (induction xs) (auto simp: add_increasing)

lemma inflight_step:
  assumes inv: "pacer_inv db" and ok: "event_ok e" and lim: "same_limits lm (db_cfg db) [e]"
    and est: "\<forall>now a. e = Admit now a \<longrightarrow> a_est a \<le> E"
    and old: "inflight_total (db_inflight db) \<le> max (k_inflight lm) E"
  shows "inflight_total (db_inflight (pacer_step db e)) \<le> max (k_inflight lm) E"
proof (cases e)
  case (Admit now a)
  define w where "w = view (expire_due now db) now a"
  have inv': "pacer_inv (expire_due now db)" by (rule pacer_inv_expire [OF inv])
  have vok: "view_ok w" unfolding w_def by (rule view_ok_view [OF inv'])
  have h: "0 \<le> w_head_est w" unfolding w_def by (rule view_head_est_nonneg [OF inv'])
  have K: "w_lim w = lm" using lim Admit by (simp add: w_def view_simps expire_due_def)
  have nn: "\<forall>(i, tokens, s) \<in> set (db_inflight db). 0 \<le> tokens"
    using inv by (simp add: pacer_inv_def)
  have sub: "inflight_total (w_inflight w) \<le> inflight_total (db_inflight db) \<or> w_inflight w = []"
    using inflight_total_filter [OF nn]
    by (auto simp: w_def view_simps expire_due_def prune_inflight_def)
  have sub0: "0 \<le> inflight_total (db_inflight db)" by (rule inflight_total_nonneg [OF nn])
  show ?thesis
  proof (cases rule: admit_script_cases [of now db a])
    case admit
    note need = admitted_needs [OF admit(3), folded w_def]
    have "inflight_total (AList.update (a_call_id a) (a_est a, now) (w_inflight w))
        \<le> w_sum w + a_est a"
      using vok inflight_total_update [of "w_inflight w"]
      by (simp add: view_ok_def w_def view_simps)
    with need(3) h K est Admit show ?thesis
      by (auto simp: need(4) commit_admit_def need_inf_def min_def split: if_splits)
  next
    case deny
    with sub sub0 old Admit show ?thesis
      by (auto simp: commit_deny_def Let_def w_def)
  qed
next
  case (Settle now i delta)
  have nn: "\<forall>(i, tokens, s) \<in> set (db_inflight db). 0 \<le> tokens"
    using inv by (simp add: pacer_inv_def)
  from Settle old inflight_total_delete [OF nn, of i] inflight_total_nonneg [OF nn] show ?thesis
    by (auto simp: release_db_def expire_due_def)
next
  case (Dequeue now i)
  have nn: "\<forall>(i, tokens, s) \<in> set (db_inflight db). 0 \<le> tokens"
    using inv by (simp add: pacer_inv_def)
  from Dequeue old inflight_total_nonneg [OF nn] show ?thesis
    by (auto simp: dequeue_def expire_due_def)
qed

text \<open>
  C9: Starting from an empty ledger, after any sequence of events the tokens reserved in flight
  are at most the in-flight cap, or one call's own estimate when that alone exceeds the cap.
\<close>

theorem inflight_cap:
  assumes "list_all event_ok es" "same_limits lm cfg es"
    and "\<forall>e \<in> set es. \<forall>now a. e = Admit now a \<longrightarrow> a_est a \<le> E" "0 \<le> E"
  shows "inflight_total (db_inflight (pacer_run (empty_db cfg) es)) \<le> max (k_inflight lm) E"
proof -
  have "inflight_total (db_inflight (pacer_run db es)) \<le> max (k_inflight lm) E"
    if "pacer_inv db" "db_cfg db = cfg" "inflight_total (db_inflight db) \<le> max (k_inflight lm) E"
    for db
    using that assms(1-3)
  proof (induction es arbitrary: db)
    case Nil
    then show ?case by simp
  next
    case (Cons e es)
    have lim: "same_limits lm (db_cfg db) [e]" "same_limits lm cfg es"
      using Cons.prems(2,5) by (metis same_limits_Cons)+
    have step: "inflight_total (db_inflight (pacer_step db e)) \<le> max (k_inflight lm) E"
      using Cons.prems lim by (intro inflight_step) auto
    show ?case
      using Cons.prems lim step Cons.IH [of "pacer_step db e"]
      by (simp add: pacer_inv_step frame_simps)
  qed
  moreover have "db_cfg (empty_db cfg) = cfg"
    "inflight_total (db_inflight (empty_db cfg)) \<le> max (k_inflight lm) E"
    using assms(4) by (simp_all add: empty_db_def le_max_iff_disj)
  ultimately show ?thesis by (blast intro: pacer_inv_empty)
qed

section \<open>The head of the queue\<close>

lemma zhead_None [simp]: "zhead q = None \<longleftrightarrow> q = []"
  by (cases q) (auto split: option.splits prod.splits)

lemma zhead_least: "zhead q = Some (h, s) \<Longrightarrow> (m, t) \<in> set q \<Longrightarrow> s < t \<or> s = t \<and> h \<le> m"
proof (induction q arbitrary: h s)
  case Nil
  then show ?case by simp
next
  case (Cons p q)
  obtain m0 s0 where p: "p = (m0, s0)" by (cases p)
  show ?case
  proof (cases "zhead q")
    case None
    with Cons.prems p show ?thesis by auto
  next
    case (Some z)
    obtain h' s' where z: "z = (h', s')" by (cases z)
    have "(m, t) \<in> set q \<Longrightarrow> s' < t \<or> s' = t \<and> h' \<le> m"
      using Cons.IH Some z by auto
    with Cons.prems p Some z show ?thesis
      by (auto split: if_splits)
  qed
qed

lemma zhead_delete:
  assumes "zhead q = Some (h, s)" "h \<noteq> m"
  shows "zhead (AList.delete m q) = Some (h, s)"
proof -
  have mem: "(h, s) \<in> set (AList.delete m q)"
    using zhead_in [OF assms(1)] assms(2) by (auto simp: AList.delete_eq)
  then obtain h' s' where z: "zhead (AList.delete m q) = Some (h', s')"
    by (cases "zhead (AList.delete m q)") (auto simp: zhead_None)
  from zhead_in [OF z] have "(h', s') \<in> set q"
    using set_delete_subset by fastforce
  from zhead_least [OF assms(1) this] zhead_least [OF z mem] z show ?thesis
    by auto
qed

lemma scan_head_me: "zhead q = Some (me, s) \<Longrightarrow> snd (scan_head (Suc n) me west q) = (0, True)"
  by simp

text \<open>A second script at the same time prunes and expires nothing new.\<close>

lemma prune_idem:
  "prune_waitest now wttl (AList.delete i (prune_waitest now wttl xs)) =
     AList.delete i (prune_waitest now wttl xs)"
  by (induction xs) (auto simp: prune_waitest_def)

lemma stale_pruned: "stale_waiters now wttl (AList.delete i (prune_waitest now wttl xs)) = []"
  by (induction xs) (auto simp: prune_waitest_def stale_waiters_def)

lemma prune_waitq_Nil [simp]: "prune_waitq [] q = q"
  by (simp add: prune_waitq_def)

lemma not_due_after:
  "due (fst (commit_admit (expire_due now db) now a w)) now k = False"
  by (cases k) (auto simp: commit_admit_def due_def expire_due_def split: option.splits)

lemma expire_after_admit:
  "expire_due now (fst (commit_admit (expire_due now db) now a w)) =
     fst (commit_admit (expire_due now db) now a w)"
  by (simp add: expire_due_def [of now "fst (commit_admit (expire_due now db) now a w)"]
      not_due_after)

text \<open>
  C8: Let the head of the queue have registered its estimate, which it also charges, let both
  callers read the same limits with room for two starts, and let the two calls fit the burst and the
  in-flight cap together. When the other caller is admitted past the head, the head would
  itself be admitted at that very moment: its registered need is still in the arrival bucket, a
  call start is left and its tokens fit in flight. A head whose charge is below its estimate is not
  covered: \<open>weighted_head_overtaken\<close> below shows the cached-weight case.
\<close>

theorem bypass_leaves_head_ready:
  assumes inv: "pacer_inv db" and ok: "args_ok a" and adm: "admitted db now a"
    and head: "zhead (w_waitq (view (expire_due now db) now a)) = Some (a_call_id h, s)"
    and behind: "\<not> w_is_head (view (expire_due now db) now a)" "a_call_id a \<noteq> a_call_id h"
    and need: "a_charge h = w_head_est (view (expire_due now db) now a)" "a_est h = a_charge h"
    and same: "a_defaults h = a_defaults a" "a_ttl h = a_ttl a" "a_wttl h = a_wttl a" "0 \<le> a_ttl a"
    and lim: "read_limits (db_cfg db) (a_defaults a) = lm" "2 \<le> c_req lm"
    and fits: "a_charge a + a_charge h \<le> c_burst lm" "a_est a + a_est h \<le> k_inflight lm"
  shows "admitted (pacer_step db (Admit now a)) now h"
proof -
  define w where "w = view (expire_due now db) now a"
  define db' where "db' = fst (commit_admit (expire_due now db) now a w)"
  define w' where "w' = view db' now h"
  have inv': "pacer_inv (expire_due now db)" by (rule pacer_inv_expire [OF inv])
  have vok: "view_ok w" unfolding w_def by (rule view_ok_view [OF inv'])
  have K: "w_lim w = lm" using lim by (simp add: w_def view_simps expire_due_def)
  have K': "w_lim w' = lm"
    using lim same by (simp add: w'_def db'_def commit_admit_def view_simps expire_due_def)
  note an = admitted_needs [OF adm, folded w_def]
  have step: "pacer_step db (Admit now a) = db'" by (simp add: an(4) db'_def)
  have exp: "expire_due now db' = db'" unfolding db'_def by (rule expire_after_admit)
  have west: "w_waitest w = prune_waitest now (a_wttl h) (db_waitest (expire_due now db))"
    using same by (simp add: w_def view_simps)
  have q: "(w_waitq w', w_head_est w', w_is_head w') =
      scan_head 16 (a_call_id h) (AList.delete (a_call_id a) (w_waitest w))
        (AList.delete (a_call_id a) (w_waitq w))"
    unfolding w'_def view_scan
    by (simp add: db'_def commit_admit_def prune_idem stale_pruned west)
  have "zhead (AList.delete (a_call_id a) (w_waitq w)) = Some (a_call_id h, s)"
    using head behind(2) unfolding w_def by (intro zhead_delete) auto
  with q have h': "w_head_est w' = 0" "w_is_head w'"
    using scan_head_me [where n = 15] by (simp_all add: eval_nat_numeral)
  have lvl: "w_level w' = min (c_burst lm) (w_level w - a_charge a)"
    "w_rlevel w' = min (c_req lm) (w_rlevel w - 1)"
    using lim same by (simp_all add: w'_def db'_def commit_admit_def view_simps refill_set_bucket
        expire_due_def)
  have "w_sum w' \<le> w_sum w + a_est a"
  proof -
    have nn: "\<forall>(i, tokens, s) \<in> set (w_inflight w). 0 \<le> tokens"
      using vok by (simp add: view_ok_def)
    have nn': "\<forall>(i, tokens, s) \<in> set (AList.update (a_call_id a) (a_est a, now) (w_inflight w)).
        0 \<le> tokens"
      using nn ok by (auto simp: args_ok_def dest: update_set_cases)
    have "w_sum w' \<le> inflight_total (AList.update (a_call_id a) (a_est a, now) (w_inflight w))"
      unfolding w'_def view_simps db'_def commit_admit_def prune_inflight_def
      using inflight_total_filter [OF nn'] by simp
    also have "\<dots> \<le> w_sum w + a_est a"
      using inflight_total_update [OF nn] by (simp add: w_def view_simps)
    finally show ?thesis .
  qed
  moreover have "w_level w' \<ge> a_charge h" "w_rlevel w' \<ge> 1"
    using an(1,2) behind(1) need fits lim(2) ok K unfolding lvl
    by (auto simp: need_tok_def need_req_def w_def args_ok_def)
  moreover have "w_sum w + a_est a + a_est h \<le> k_inflight lm"
    using an(3) need fits K by (simp add: need_inf_def w_def)
  ultimately show ?thesis
    using K' h' unfolding step admitted_iff exp w'_def [symmetric] Let_def
    by (auto simp: need_tok_def need_req_def need_inf_def)
qed

section \<open>Denials\<close>

lemma denied_cases:
  assumes "\<not> admitted db now a"
  obtains ax where
    "admit_script db now a =
       commit_deny (expire_due now db) now a (view (expire_due now db) now a) ax"
    "deny_axis (view (expire_due now db) now a) a = Some ax"
  using assms by (cases rule: admit_script_cases [of now db a]) auto

lemma map_of_prune_waitest:
  "distinct (map fst xs) \<Longrightarrow> map_of xs i = Some (c, r) \<Longrightarrow> \<not> wttl < now - r \<Longrightarrow>
     map_of (prune_waitest now wttl xs) i = Some (c, r)"
  by (simp add: prune_waitest_def distinct_keys_filter)

lemma map_of_prune_waitq: "map_of (prune_waitq dead q) i = (if i \<in> set dead then None else map_of q i)"
  unfolding prune_waitq_def by (induction q) auto

lemma not_stale:
  "distinct (map fst xs) \<Longrightarrow> map_of xs i = Some (c, r) \<Longrightarrow> \<not> wttl < now - r \<Longrightarrow>
     i \<notin> set (stale_waiters now wttl xs)"
  by (auto simp: stale_waiters_def dest: eq_key_imp_eq_value map_of_SomeD)

text \<open>
  A denied caller holds nothing: the in-flight table only loses stale members, both buckets
  read the same at that time as before, and the caller is queued. One that was already waiting
  keeps the estimate and the priority of its first denial.
\<close>

theorem denial_holds_nothing:
  assumes inv: "pacer_inv db" and deny: "\<not> admitted db now a"
    and lim: "read_limits (db_cfg db) (a_defaults a) = lm"
  defines "db0 \<equiv> expire_due now db" and "db' \<equiv> pacer_step db (Admit now a)"
  shows "db_inflight db' = prune_inflight now (a_ttl a) (db_inflight db0) \<and>
    refill (db_bucket db') now (c_burst lm) (r_tok lm) =
      refill (db_bucket db0) now (c_burst lm) (r_tok lm) \<and>
    refill (db_req db') now (c_req lm) (r_qps lm) =
      refill (db_req db0) now (c_req lm) (r_qps lm) \<and>
    a_call_id a \<in> fst ` set (db_waitq db') \<and>
    (\<forall>c r. map_of (db_waitest db0) (a_call_id a) = Some (c, r) \<and> \<not> a_wttl a < now - r \<longrightarrow>
       map_of (db_waitest db') (a_call_id a) = Some (c, r) \<and>
       map_of (db_waitq db') (a_call_id a) = map_of (db_waitq db0) (a_call_id a))"
proof -
  define w where "w = view db0 now a"
  have inv0: "pacer_inv db0" unfolding db0_def by (rule pacer_inv_expire [OF inv])
  have vok: "view_ok w" unfolding w_def by (rule view_ok_view [OF inv0])
  obtain ax where step: "db' = fst (commit_deny db0 now a w ax)"
    using denied_cases [OF deny] by (metis db'_def db0_def pacer_step.simps(1) w_def)
  have lim0: "read_limits (db_cfg db0) (a_defaults a) = lm"
    using lim by (simp add: db0_def expire_due_def)
  have dist: "distinct (map fst (db_waitest db0))" using inv0 by (simp add: pacer_inv_def)
  have buckets:
    "refill (db_bucket db') now (c_burst lm) (r_tok lm) =
       refill (db_bucket db0) now (c_burst lm) (r_tok lm)"
    "refill (db_req db') now (c_req lm) (r_qps lm) = refill (db_req db0) now (c_req lm) (r_qps lm)"
    by (simp_all add: step commit_deny_def Let_def refill_set_bucket w_def view_simps lim0
        refill_le_cap min_absorb2)
  have queued: "a_call_id a \<in> fst ` set (db_waitq db')"
    using vok by (auto simp: step commit_deny_def Let_def zadd_nx_def view_ok_def map_of_eq_None_iff)
  have keep: "map_of (db_waitest db') (a_call_id a) = Some (c, r) \<and>
       map_of (db_waitq db') (a_call_id a) = map_of (db_waitq db0) (a_call_id a)"
    if "map_of (db_waitest db0) (a_call_id a) = Some (c, r)" "\<not> a_wttl a < now - r" for c r
  proof -
    have "map_of (w_waitest w) (a_call_id a) = Some (c, r)"
      using map_of_prune_waitest [OF dist that] by (simp add: w_def view_simps)
    moreover have "map_of (w_waitq w) (a_call_id a) = map_of (db_waitq db0) (a_call_id a)"
      using not_stale [OF dist that] by (simp add: w_def view_waitq [OF inv0] map_of_prune_waitq)
    ultimately show ?thesis by (simp add: step commit_deny_def Let_def)
  qed
  have "db_inflight db' = prune_inflight now (a_ttl a) (db_inflight db0)"
    by (simp add: step commit_deny_def Let_def w_def view_simps)
  with buckets queued keep show ?thesis by blast
qed

text \<open>
  The wait hint of a denial is sufficient. If no one draws from the buckets meanwhile, then
  once the hinted time has passed the arrival bucket holds the tokens and the request bucket
  the call starts that the denied caller was measured against.
\<close>

theorem wait_hint_sufficient:
  assumes deny: "\<not> admitted db now a"
    and lim: "read_limits (db_cfg db) (a_defaults a) = lm" "0 < r_tok lm" "0 < r_qps lm" "2 \<le> c_req lm"
  defines "w \<equiv> view (expire_due now db) now a" and "db' \<equiv> pacer_step db (Admit now a)"
  assumes later: "now + wait_hint a w \<le> t"
  shows "need_tok w a \<le> refill (db_bucket db') t (c_burst lm) (r_tok lm) \<and>
    need_req w \<le> refill (db_req db') t (c_req lm) (r_qps lm)"
proof -
  obtain ax where step: "db' = fst (commit_deny (expire_due now db) now a w ax)"
    using denied_cases [OF deny] by (metis db'_def pacer_step.simps(1) w_def)
  have K: "w_lim w = lm" using lim(1) by (simp add: w_def view_simps expire_due_def)
  define h where "h = wait_hint a w"
  note hint = h_def wait_hint_def Let_def K le_max_iff_disj
  have h1: "1 / 4 \<le> h"
    by (simp only: hint order_refl simp_thms split: if_split)
  have h2: "(need_tok w a - w_level w) / r_tok lm \<le> h" if "w_level w < need_tok w a"
    using that lim(2) by (simp only: hint order_refl simp_thms if_True split: if_split)
  have h3: "(need_req w - w_rlevel w) / r_qps lm \<le> h" if "w_rlevel w < need_req w"
    using that lim(3) by (simp only: hint order_refl simp_thms if_True split: if_split)
  have t: "h \<le> t - now" using later by (simp add: h_def)
  have "need_tok w a \<le> w_level w + (t - now) * r_tok lm"
  proof (cases "w_level w < need_tok w a")
    case True
    with h2 t have "(need_tok w a - w_level w) / r_tok lm \<le> t - now" by linarith
    with lim(2) show ?thesis by (simp add: field_simps)
  next
    case False
    have "0 \<le> (t - now) * r_tok lm" using t h1 lim(2) by (intro mult_nonneg_nonneg) linarith+
    with False show ?thesis by linarith
  qed
  moreover have "need_req w \<le> w_rlevel w + (t - now) * r_qps lm"
  proof (cases "w_rlevel w < need_req w")
    case True
    with h3 t have "(need_req w - w_rlevel w) / r_qps lm \<le> t - now" by linarith
    with lim(3) show ?thesis by (simp add: field_simps)
  next
    case False
    have "0 \<le> (t - now) * r_qps lm" using t h1 lim(3) by (intro mult_nonneg_nonneg) linarith+
    with False show ?thesis by linarith
  qed
  moreover have "need_tok w a \<le> c_burst lm" by (simp add: need_tok_def K)
  moreover have "need_req w \<le> c_req lm" using lim(4) by (simp add: need_req_def)
  ultimately show ?thesis
    by (simp add: step commit_deny_def Let_def refill_set_bucket)
qed

text \<open>
  No call is too large to be served. A caller with no one ahead is admitted, whatever its
  estimate and charge, once nothing live is in flight and the buckets have had the time to
  fill.
\<close>

theorem quiet_head_admitted:
  assumes lim: "read_limits (db_cfg db) (a_defaults a) = lm"
    and alone: "w_is_head (view (expire_due now db) now a)"
      "prune_inflight now (a_ttl a) (db_inflight (expire_due now db)) = []"
    and tok: "db_bucket (expire_due now db) = set_bucket l u" "c_burst lm \<le> l + (now - u) * r_tok lm"
    and req: "db_req (expire_due now db) = set_bucket rl ru" "1 \<le> rl + (now - ru) * r_qps lm"
      "1 \<le> c_req lm"
  shows "admitted db now a"
proof -
  have cfg: "db_cfg (expire_due now db) = db_cfg db" by (simp add: expire_due_def)
  show ?thesis
    unfolding admitted_iff Let_def need_tok_def need_req_def need_inf_def
    using alone tok(2) req(2,3) view_head_alone [OF alone(1)]
    by (simp add: view_simps cfg lim tok(1) req(1) refill_set_bucket)
qed

end
