(* ===== verification/Pacer_Examples.thy ===== *)
theory Pacer_Examples
  imports Pacer_Fair
begin

text \<open>
  Concrete ledgers: each property of the pacer applied where its hypotheses hold, and the
  ledger on which the head's reservation falls short.
\<close>

definition call :: "string \<Rightarrow> real \<Rightarrow> real \<Rightarrow> admit_args" where
  "call i est charge =
     \<lparr>a_est = est, a_call_id = i, a_ttl = INFLIGHT_TTL_S, a_defaults = default_limits,
      a_wttl = DEFAULT_HOLD_CAP_S + WAITER_TTL_MARGIN_S, a_charge = charge\<rparr>"

lemmas call_eval = call_def INFLIGHT_TTL_S_def DEFAULT_HOLD_CAP_S_def WAITER_TTL_MARGIN_S_def
  default_limits_def

lemmas pacer_eval = admitted_iff view_def expire_due_def due_def read_limits_def prune_inflight_def
  inflight_total_def stale_waiters_def prune_waitest_def prune_waitq_def need_tok_def need_req_def
  need_inf_def refill_def empty_bucket_def empty_db_def eval_nat_numeral Let_def
  admit_script_def commit_admit_def commit_deny_def deny_axis_def release_db_def incr_level_def
  set_bucket_def zadd_nx_def priority_def wait_hint_def

theorem arrival_rate_bound_witness:
  "run_charge (empty_db Map.empty)
      (Admit 0 (call ''a'' 100 80) # [Settle 1 ''a'' (-10)] @ [Admit 2 (call ''b'' 600000 600000)])
     \<le> 1140010"
proof -
  let ?es = "[Settle 1 ''a'' (-10)]"
  have adm: "admitted (pacer_run (empty_db Map.empty) (Admit 0 (call ''a'' 100 80) # ?es)) 2
      (call ''b'' 600000 600000)"
    by (simp add: pacer_eval call_eval)
  have "run_charge (empty_db Map.empty) (Admit 0 (call ''a'' 100 80) # ?es @ [Admit 2 (call ''b'' 600000 600000)])
     \<le> c_burst default_limits + (2 - 0) * r_tok default_limits + run_refund ?es
        + max 0 (a_charge (call ''b'' 600000 600000) - c_burst default_limits)"
    by (rule arrival_rate_bound [OF pacer_inv_empty _ _ _ _ adm])
       (simp_all add: args_ok_def call_eval read_limits_def empty_db_def)
  then show ?thesis by (simp add: call_eval)
qed

theorem call_start_bound_witness:
  "run_starts (empty_db Map.empty)
      (Admit 0 (call ''a'' 100 80) # [] @ [Admit 2 (call ''b'' 600 600)]) \<le> 33"
proof -
  have adm: "admitted (pacer_run (empty_db Map.empty) (Admit 0 (call ''a'' 100 80) # [])) 2
      (call ''b'' 600 600)"
    by (simp add: pacer_eval call_eval)
  have "run_starts (empty_db Map.empty)
      (Admit 0 (call ''a'' 100 80) # [] @ [Admit 2 (call ''b'' 600 600)])
     \<le> c_req default_limits + (2 - 0) * r_qps default_limits"
    by (rule call_start_bound [OF pacer_inv_empty _ _ _ _ adm])
       (simp_all add: args_ok_def call_eval read_limits_def empty_db_def)
  then show ?thesis by (simp add: call_eval)
qed

theorem inflight_cap_witness:
  "inflight_total (db_inflight (pacer_run (empty_db Map.empty)
      [Admit 0 (call ''a'' 100 80), Admit 1 (call ''b'' 1200000 900000)])) \<le> 1200000"
proof -
  have "inflight_total (db_inflight (pacer_run (empty_db Map.empty)
      [Admit 0 (call ''a'' 100 80), Admit 1 (call ''b'' 1200000 900000)]))
     \<le> max (k_inflight default_limits) 1200000"
    by (rule inflight_cap) (auto simp: args_ok_def call_eval read_limits_def)
  then show ?thesis by (simp add: default_limits_def)
qed

text \<open>A ledger with the call \<open>h\<close> waiting at the head since time 0.\<close>

definition waiting_db :: "real \<Rightarrow> real \<Rightarrow> pacer_db" where
  "waiting_db level charge =
     (empty_db Map.empty)\<lparr>db_bucket := set_bucket level 0, db_req := set_bucket 10 0,
        db_waitq := [(''h'', 0)], db_waitest := [(''h'', charge, 0)]\<rparr>"

theorem bypass_leaves_head_ready_witness:
  "admitted (pacer_step (waiting_db 400 300) (Admit 0 (call ''a'' 100 100))) 0 (call ''h'' 300 300)"
  by (rule bypass_leaves_head_ready [where lm = default_limits and s = 0])
     (simp_all add: pacer_inv_def args_ok_def waiting_db_def pacer_eval call_eval)

theorem denial_holds_nothing_witness:
  "''h'' \<in> fst ` set (db_waitq (pacer_step (waiting_db 0 300) (Admit 0 (call ''h'' 300 300)))) \<and>
   \<not> admitted (waiting_db 0 300) 0 (call ''h'' 300 300)"
proof -
  have d: "\<not> admitted (waiting_db 0 300) 0 (call ''h'' 300 300)"
    by (simp add: waiting_db_def pacer_eval call_eval)
  have i: "pacer_inv (waiting_db 0 300)"
    by (simp add: pacer_inv_def waiting_db_def empty_db_def)
  from denial_holds_nothing [OF i d refl] d show ?thesis by (simp add: call_def)
qed

theorem wait_hint_sufficient_witness:
  "need_tok (view (expire_due 0 (waiting_db 0 300)) 0 (call ''h'' 300 300)) (call ''h'' 300 300)
     \<le> refill (db_bucket (pacer_step (waiting_db 0 300) (Admit 0 (call ''h'' 300 300)))) 1
          (c_burst default_limits) (r_tok default_limits)"
proof -
  have d: "\<not> admitted (waiting_db 0 300) 0 (call ''h'' 300 300)"
    by (simp add: waiting_db_def pacer_eval call_eval)
  show ?thesis
    by (rule wait_hint_sufficient [OF d, where lm = default_limits and t = 1, THEN conjunct1])
       (simp_all add: waiting_db_def pacer_eval call_eval)
qed

theorem quiet_head_admitted_witness:
  "admitted (waiting_db 400000 300) 10 (call ''h'' 2000000 900000)"
  by (rule quiet_head_admitted [where lm = default_limits and l = 400000 and u = 0 and rl = 10 and ru = 0])
     (simp_all add: waiting_db_def pacer_eval call_eval)

text \<open>The head waits for a call of 150000 tokens of which it is charged 90000; 500000 are in flight.\<close>

definition contended_db :: pacer_db where
  "contended_db = (waiting_db 500000 90000)\<lparr>db_inflight := [(''x'', 500000, 0)]\<rparr>"

text \<open>
  The reservation on the in-flight axis is in the head's charge, not in its estimate. With
  a cached-token weight below 1 another call is admitted past a head that was admissible, and
  the head is then denied: the code's comment promises \<open>inflight + est + head.est\<close> below the cap.
\<close>

theorem weighted_head_overtaken:
  "admitted contended_db 0 (call ''h'' 150000 90000) \<and>
   admitted contended_db 0 (call ''a'' 400000 40000) \<and>
   \<not> admitted (pacer_step contended_db (Admit 0 (call ''a'' 400000 40000))) 0
       (call ''h'' 150000 90000)"
proof (intro conjI)
  show "admitted contended_db 0 (call ''h'' 150000 90000)"
    by (simp add: contended_db_def waiting_db_def pacer_eval call_eval)
  show adm: "admitted contended_db 0 (call ''a'' 400000 40000)"
    by (simp add: contended_db_def waiting_db_def pacer_eval call_eval)
  have "pacer_step contended_db (Admit 0 (call ''a'' 400000 40000)) =
     fst (commit_admit (expire_due 0 contended_db) 0 (call ''a'' 400000 40000)
       (view (expire_due 0 contended_db) 0 (call ''a'' 400000 40000)))"
    using admitted_needs(4) [OF adm] by simp
  also have "\<not> admitted \<dots> 0 (call ''h'' 150000 90000)"
    by (simp add: contended_db_def waiting_db_def pacer_eval call_eval)
  finally show "\<not> admitted (pacer_step contended_db (Admit 0 (call ''a'' 400000 40000))) 0 (call ''h'' 150000 90000)" by simp
qed

end
