(* ===== verification/Pacer_Client.thy ===== *)
theory Pacer_Client
  imports Pacer_Fair
begin

text \<open>
  The Python side of \<open>swebench_eval/gateway/pacer.py\<close>: the weighted charge, the key names, the
  acquire loop with its hold cap, the local fallback, and what a release writes.

  The environment of the acquire loop (the replies of the script, the clock and the random
  factors) is a list of polls; logging is left out.
\<close>

section \<open>Charges and estimates\<close>

definition CACHED_WEIGHT_MIN :: real where "CACHED_WEIGHT_MIN = 5 / 100"
definition CACHED_WEIGHT_DEFAULT :: real where "CACHED_WEIGHT_DEFAULT = 1"
definition KAPPA_INITIAL :: real where "KAPPA_INITIAL = 489 / 100"
definition KAPPA_ALPHA :: real where "KAPPA_ALPHA = 5 / 100"
definition KAPPA_MIN :: real where "KAPPA_MIN = 2"
definition KAPPA_MAX :: real where "KAPPA_MAX = 8"

definition weighted_charge :: "int \<Rightarrow> int \<Rightarrow> real \<Rightarrow> int" where
  "weighted_charge est_tokens cached_est_tokens cached_weight =
     (let cached = max 0 (min cached_est_tokens est_tokens);
          w = min 1 (max CACHED_WEIGHT_MIN cached_weight)
      in max 1 (py_round (of_int (est_tokens - cached) + of_int cached * w)))"

definition estimate_tokens :: "real \<Rightarrow> int \<Rightarrow> int" where
  "estimate_tokens kappa request_chars = max 1 (py_int (of_int request_chars / kappa))"

section \<open>Key names\<close>

definition tagged :: "string \<Rightarrow> string \<Rightarrow> string" where
  "tagged kind alias = kind @ ''{'' @ alias @ ''}''"

definition pacer_cfg_key :: "string \<Rightarrow> string" where
  "pacer_cfg_key alias = tagged ''pacer:cfg:'' alias"

definition pacer_bucket_key :: "string \<Rightarrow> string" where
  "pacer_bucket_key alias = tagged ''pacer:bucket:'' alias"

definition kappa_key :: "string \<Rightarrow> string" where
  "kappa_key alias = tagged ''pacer:kappa:'' alias"

definition pacer_reqbucket_key :: "string \<Rightarrow> string" where
  "pacer_reqbucket_key alias = tagged ''pacer:reqbucket:'' alias"

definition pacer_inflight_key :: "string \<Rightarrow> string" where
  "pacer_inflight_key alias = tagged ''pacer:inflight:'' alias"

definition pacer_waitq_key :: "string \<Rightarrow> string" where
  "pacer_waitq_key alias = tagged ''pacer:waitq:'' alias"

definition pacer_waitest_key :: "string \<Rightarrow> string" where
  "pacer_waitest_key alias = tagged ''pacer:waitest:'' alias"

definition pacer_keys :: "string \<Rightarrow> string list" where
  "pacer_keys alias =
     [pacer_cfg_key alias, pacer_bucket_key alias, pacer_reqbucket_key alias,
      pacer_inflight_key alias, pacer_waitq_key alias, pacer_waitest_key alias]"

definition alias_from_bucket_key :: "string \<Rightarrow> string option" where
  "alias_from_bucket_key key =
     (if \<not> prefix ''pacer:bucket:'' key then None
      else let alias = drop (length ''pacer:bucket:'') key
           in if prefix ''{'' alias \<and> suffix ''}'' alias
              then Some (butlast (tl alias)) else Some alias)"

section \<open>The acquire loop\<close>

definition admit_once_args :: "real \<Rightarrow> string \<Rightarrow> real \<Rightarrow> real option \<Rightarrow> admit_args" where
  "admit_once_args est call_id waiter_ttl_s charge =
     \<lparr>a_est = est, a_call_id = call_id, a_ttl = INFLIGHT_TTL_S, a_defaults = default_limits,
      a_wttl = waiter_ttl_s, a_charge = (case charge of Some c \<Rightarrow> c | None \<Rightarrow> est)\<rparr>"

record admission =
  ad_call_id :: string
  ad_est_tokens :: int
  ad_paced_wait_ms :: int
  ad_fallback :: bool
  ad_was_queued :: bool
  ad_queue_len_at_admit :: int
  ad_deny_axis_last :: "axis option"
  ad_charge_tokens :: int

record acquire_args =
  q_call_id :: string
  q_est :: int
  q_charge :: int
  q_started :: real
  q_deadline :: real

text \<open>
  One poll: Redis unreachable, the task cancelled while it waits, or a reply with the clock
  after it, the random factor of the sleep and the clock read that bounds the sleep.
\<close>

datatype poll = Redis_down | Cancelled | Reply verdict real real real

datatype acquire_outcome =
  Granted admission | Local_fallback | Timed_out | Was_cancelled | Still_waiting

datatype acquire_effect = Publish_wait int int | Publish_timeout int | Leave_queue | Sleep real

definition sleep_s :: "acquire_args \<Rightarrow> verdict \<Rightarrow> real \<Rightarrow> real \<Rightarrow> real" where
  "sleep_s q v u clk =
     min (min (max (1 / 4) (of_int (v_wait_ms v) / 1000)) 5 * u)
         (max (5 / 100) (q_deadline q - clk))"

definition elapsed_ms :: "acquire_args \<Rightarrow> real \<Rightarrow> int" where
  "elapsed_ms q now = py_round ((now - q_started q) * 1000)"

definition grant :: "acquire_args \<Rightarrow> verdict option \<Rightarrow> verdict \<Rightarrow> real \<Rightarrow> admission" where
  "grant q prev v now =
     \<lparr>ad_call_id = q_call_id q, ad_est_tokens = q_est q, ad_paced_wait_ms = elapsed_ms q now,
      ad_fallback = False, ad_was_queued = (prev \<noteq> None), ad_queue_len_at_admit = v_queue_len v,
      ad_deny_axis_last = (case prev of None \<Rightarrow> None | Some d \<Rightarrow> v_axis d),
      ad_charge_tokens = q_charge q\<rparr>"

fun acquire_loop ::
    "acquire_args \<Rightarrow> verdict option \<Rightarrow> poll list \<Rightarrow> acquire_outcome \<times> acquire_effect list" where
  "acquire_loop q prev [] = (Still_waiting, [])"
| "acquire_loop q prev (Redis_down # ps) = (Local_fallback, [])"
| "acquire_loop q prev (Cancelled # ps) =
     (Was_cancelled, if prev \<noteq> None then [Leave_queue] else [])"
| "acquire_loop q prev (Reply v now u clk # ps) =
     (if v_admitted v then (Granted (grant q prev v now), [Publish_wait (elapsed_ms q now) (q_charge q)])
      else if q_deadline q \<le> now then (Timed_out, [Leave_queue, Publish_timeout (elapsed_ms q now)])
      else (let (r, es) = acquire_loop q (Some v) ps in (r, Sleep (sleep_s q v u clk) # es)))"

definition acquire ::
    "string \<Rightarrow> int \<Rightarrow> real \<Rightarrow> int option \<Rightarrow> real \<Rightarrow> poll list \<Rightarrow>
       acquire_outcome \<times> acquire_effect list" where
  "acquire call_id est_tokens hold_cap_s charge_tokens clock polls =
     acquire_loop
       \<lparr>q_call_id = call_id, q_est = est_tokens,
        q_charge = (case charge_tokens of Some c \<Rightarrow> c | None \<Rightarrow> est_tokens),
        q_started = clock, q_deadline = clock + hold_cap_s\<rparr> None polls"

section \<open>The local fallback\<close>

definition FALLBACK_MIN_GAP_S :: real where "FALLBACK_MIN_GAP_S = 5 / 2"

text \<open>How long a fallback start waits, from the last start, the random factor and the clock.\<close>

definition fallback_wait :: "real \<Rightarrow> real \<Rightarrow> real \<Rightarrow> real" where
  "fallback_wait last_start u now = max 0 (last_start + FALLBACK_MIN_GAP_S * u - now)"

text \<open>
  The starts of a process whose fallback calls read the clock at \<open>now\<close> under the lock and wake
  at \<open>woke\<close>; each start is the last one for the next.
\<close>

fun fallback_starts :: "real \<Rightarrow> (real \<times> real \<times> real) list \<Rightarrow> real list" where
  "fallback_starts last_start [] = []"
| "fallback_starts last_start ((now, u, woke) # cs) = woke # fallback_starts woke cs"

fun fallback_clock :: "real \<Rightarrow> (real \<times> real \<times> real) list \<Rightarrow> bool" where
  "fallback_clock last_start [] = True"
| "fallback_clock last_start ((now, u, woke) # cs) =
     (8 / 10 \<le> u \<and> u \<le> 14 / 10 \<and> now + fallback_wait last_start u now \<le> woke \<and>
      fallback_clock woke cs)"

section \<open>Release\<close>

text \<open>The per-process caches and the kappa key of one alias.\<close>

record client_state =
  cl_kappa_cache :: "(real \<times> real) option"
  cl_weight_cache :: "(real \<times> real) option"
  cl_kappa_key :: "real option"
  cl_db :: pacer_db

definition fresh_cache :: "real \<Rightarrow> (real \<times> real) option \<Rightarrow> real option" where
  "fresh_cache clock c =
     (case c of Some (x, since) \<Rightarrow> if clock - since < 60 then Some x else None | None \<Rightarrow> None)"

definition get_cached_weight :: "real \<Rightarrow> client_state \<Rightarrow> real \<times> client_state" where
  "get_cached_weight clock s =
     (case fresh_cache clock (cl_weight_cache s) of
        Some w \<Rightarrow> (w, s)
      | None \<Rightarrow>
          (let w = (case db_cfg (cl_db s) ''cached_weight'' of
                      Some raw \<Rightarrow> min 1 (max CACHED_WEIGHT_MIN raw)
                    | None \<Rightarrow> CACHED_WEIGHT_DEFAULT)
           in (w, s\<lparr>cl_weight_cache := Some (w, clock)\<rparr>)))"

definition get_kappa :: "real \<Rightarrow> client_state \<Rightarrow> real \<times> client_state" where
  "get_kappa clock s =
     (case fresh_cache clock (cl_kappa_cache s) of
        Some k \<Rightarrow> (k, s)
      | None \<Rightarrow>
          (let k = (case cl_kappa_key s of Some raw \<Rightarrow> raw | None \<Rightarrow> KAPPA_INITIAL)
           in (k, s\<lparr>cl_kappa_cache := Some (k, clock)\<rparr>)))"

text \<open>The settlement of the arrival bucket.\<close>

definition settle_bucket :: "real \<Rightarrow> admission \<Rightarrow> int option \<Rightarrow> int option \<Rightarrow> client_state \<Rightarrow> client_state" where
  "settle_bucket clock ad real_prompt_tokens real_cached_tokens s =
     (case real_prompt_tokens of
        None \<Rightarrow> s
      | Some n \<Rightarrow>
          if 0 < n \<and> 0 < ad_charge_tokens ad
          then (let (weight, s') = get_cached_weight clock s;
                    actual = weighted_charge n (case real_cached_tokens of Some c \<Rightarrow> c | None \<Rightarrow> 0) weight;
                    delta = actual - ad_charge_tokens ad
                in if delta = 0 then s'
                   else s'\<lparr>cl_db := (cl_db s')\<lparr>db_bucket := incr_level (db_bucket (cl_db s')) (of_int delta)\<rparr>\<rparr>)
          else s)"

definition fold_kappa :: "real \<Rightarrow> int option \<Rightarrow> int option \<Rightarrow> client_state \<Rightarrow> client_state" where
  "fold_kappa clock real_prompt_tokens request_chars s =
     (case (real_prompt_tokens, request_chars) of
        (Some n, Some chars) \<Rightarrow>
          if 0 < n \<and> chars \<noteq> 0
          then (let observed = of_int chars / of_int n;
                    (kappa, s') = get_kappa clock s;
                    updated = max KAPPA_MIN (min KAPPA_MAX
                                (kappa * (1 - KAPPA_ALPHA) + observed * KAPPA_ALPHA))
                in s'\<lparr>cl_kappa_key := Some updated, cl_kappa_cache := Some (updated, clock)\<rparr>)
          else s
      | _ \<Rightarrow> s)"

definition release ::
    "real \<Rightarrow> admission \<Rightarrow> int option \<Rightarrow> int option \<Rightarrow> int option \<Rightarrow> client_state \<Rightarrow> client_state" where
  "release clock ad real_prompt_tokens request_chars real_cached_tokens s =
     (if ad_fallback ad then s
      else fold_kappa clock real_prompt_tokens request_chars
             (settle_bucket clock ad real_prompt_tokens real_cached_tokens
               (s\<lparr>cl_db := (cl_db s)\<lparr>db_inflight :=
                     AList.delete (ad_call_id ad) (db_inflight (cl_db s))\<rparr>\<rparr>)))"

section \<open>Telemetry counters\<close>

text \<open>The hash \<open>paced:{alias}:bucket\<close> of one ten-second bucket.\<close>

record paced_hash =
  pc_n :: int
  pc_n_over_2s :: int
  pc_sum_ms :: int
  pc_tok :: int
  pc_n_timeout :: int

definition empty_paced :: paced_hash where
  "empty_paced = \<lparr>pc_n = 0, pc_n_over_2s = 0, pc_sum_ms = 0, pc_tok = 0, pc_n_timeout = 0\<rparr>"

definition time_bucket :: "real \<Rightarrow> int" where
  "time_bucket t = \<lfloor>t / 10\<rfloor>"

definition publish_wait_stats ::
    "real \<Rightarrow> int \<Rightarrow> bool \<Rightarrow> int \<Rightarrow> (int \<Rightarrow> paced_hash) \<Rightarrow> (int \<Rightarrow> paced_hash)" where
  "publish_wait_stats t wait_ms timeout est_tokens st =
     (let b = time_bucket t; h = st b
      in st(b := if timeout then h\<lparr>pc_n_timeout := pc_n_timeout h + 1\<rparr>
                 else h\<lparr>pc_n := pc_n h + 1,
                        pc_n_over_2s := pc_n_over_2s h + (if 2000 < wait_ms then 1 else 0),
                        pc_sum_ms := pc_sum_ms h + wait_ms,
                        pc_tok := pc_tok h + (if 0 < est_tokens then est_tokens else 0)\<rparr>))"

definition record_overload :: "real \<Rightarrow> (int \<Rightarrow> int) \<Rightarrow> (int \<Rightarrow> int)" where
  "record_overload t st = (let b = time_bucket t in st(b := st b + 1))"

section \<open>Charges\<close>

text \<open>
  The weighted charge of a call is at least 1 and at most its estimate (or 1), and a larger
  expected cache hit never costs more.
\<close>

theorem weighted_charge_bounds:
  "1 \<le> weighted_charge est cached w \<and> weighted_charge est cached w \<le> max 1 est \<and>
   (cached \<le> cached' \<longrightarrow> weighted_charge est cached' w \<le> weighted_charge est cached w)"
proof -
  define v where "v = min 1 (max CACHED_WEIGHT_MIN w)"
  have v: "0 \<le> v" "v \<le> 1" by (auto simp: v_def CACHED_WEIGHT_MIN_def)
  define c where "c x = max 0 (min x est)" for x
  have eq: "weighted_charge est x w = max 1 (py_round (of_int (est - c x) + of_int (c x) * v))" for x
    by (simp add: weighted_charge_def Let_def c_def v_def)
  have "of_int (est - c cached) + of_int (c cached) * v \<le> of_int est"
    using mult_left_mono [OF v(2), of "of_int (c cached)"] by (simp add: c_def)
  then have up: "py_round (of_int (est - c cached) + of_int (c cached) * v) \<le> est"
    by (rule py_round_le)
  have "of_int (est - c cached') + of_int (c cached') * v
      \<le> of_int (est - c cached) + of_int (c cached) * v" if "cached \<le> cached'"
  proof -
    have "c cached \<le> c cached'" using that by (auto simp: c_def)
    then have "of_int (c cached' - c cached) * v \<le> of_int (c cached' - c cached) * 1"
      using v(2) by (intro mult_left_mono) auto
    then show ?thesis by (simp add: algebra_simps)
  qed
  then have "cached \<le> cached' \<longrightarrow>
      py_round (of_int (est - c cached') + of_int (c cached') * v)
      \<le> py_round (of_int (est - c cached) + of_int (c cached) * v)"
    by (blast intro: py_round_mono)
  with up show ?thesis unfolding eq by auto
qed

section \<open>Key names\<close>

lemma alias_roundtrip: "alias_from_bucket_key (pacer_bucket_key alias) = Some alias"
  by (simp add: alias_from_bucket_key_def pacer_bucket_key_def tagged_def suffix_def Let_def)

lemmas key_defs = pacer_keys_def pacer_cfg_key_def pacer_bucket_key_def pacer_reqbucket_key_def
  pacer_inflight_key_def pacer_waitq_key_def pacer_waitest_key_def tagged_def

text \<open>
  The six keys of an alias are distinct, two aliases share none, and the bucket key gives the
  alias back.
\<close>

theorem pacer_keys_disjoint:
  "distinct (pacer_keys alias) \<and>
   (alias \<noteq> alias' \<longrightarrow> set (pacer_keys alias) \<inter> set (pacer_keys alias') = {}) \<and>
   alias_from_bucket_key (pacer_bucket_key alias) = Some alias"
  using alias_roundtrip [of "alias"] by (simp add: key_defs)

section \<open>The acquire loop\<close>

text \<open>A clock that never runs backwards and honours each sleep.\<close>

fun clock_ok :: "acquire_args \<Rightarrow> real \<Rightarrow> poll list \<Rightarrow> bool" where
  "clock_ok q t0 [] = True"
| "clock_ok q t0 (Reply v now u clk # ps) =
     (t0 \<le> now \<and> now \<le> clk \<and> 75 / 100 \<le> u \<and> u \<le> 125 / 100 \<and>
      clock_ok q (clk + sleep_s q v u clk) ps)"
| "clock_ok q t0 (p # ps) = clock_ok q t0 ps"

lemma sleep_s_bounds:
  assumes "75 / 100 \<le> u" "u \<le> 125 / 100"
  shows "5 / 100 \<le> sleep_s q v u clk" "sleep_s q v u clk \<le> 25 / 4"
    "sleep_s q v u clk \<le> max (5 / 100) (q_deadline q - clk)"
proof -
  define x where "x = min (max (1 / 4) (of_int (v_wait_ms v) / 1000)) (5::real)"
  have x: "1 / 4 \<le> x" "x \<le> 5" by (auto simp: x_def)
  have "1 / 4 * (75 / 100) \<le> x * u" using x assms by (intro mult_mono) auto
  moreover have "x * u \<le> 5 * (125 / 100)" using x assms by (intro mult_mono) auto
  moreover have "sleep_s q v u clk = min (x * u) (max (5 / 100) (q_deadline q - clk))"
    by (simp add: sleep_s_def x_def)
  ultimately show "5 / 100 \<le> sleep_s q v u clk" "sleep_s q v u clk \<le> 25 / 4"
    "sleep_s q v u clk \<le> max (5 / 100) (q_deadline q - clk)"
    by linarith+
qed

lemma acquire_loop_ends:
  assumes "clock_ok q t0 ps" "q_deadline q \<le> t0 + 5 / 100 * real (length ps) - 5 / 100" "ps \<noteq> []"
  shows "fst (acquire_loop q d ps) \<noteq> Still_waiting"
  using assms
proof (induction q d ps arbitrary: t0 rule: acquire_loop.induct)
  case (4 q d v now u clk ps)
  have s: "5 / 100 \<le> sleep_s q v u clk" using "4.prems"(1) by (intro sleep_s_bounds) auto
  show ?case
  proof (cases "v_admitted v \<or> q_deadline q \<le> now")
    case True
    then show ?thesis by auto
  next
    case False
    then have ne: "ps \<noteq> []" using "4.prems" by auto
    have "q_deadline q \<le> clk + sleep_s q v u clk + 5 / 100 * real (length ps) - 5 / 100"
      using "4.prems" s by (simp add: field_simps)
    with False ne "4.IH" "4.prems"(1) show ?thesis by (auto split: prod.split)
  qed
qed auto

text \<open>
  C10: With a clock that honours the sleeps, twenty polls per second of the hold cap (and one more)
  always decide a call: it is admitted, times out, falls back or is cancelled.
\<close>

theorem acquire_terminates:
  assumes "clock_ok \<lparr>q_call_id = i, q_est = est, q_charge = (case ch of Some c \<Rightarrow> c | None \<Rightarrow> est),
      q_started = clock, q_deadline = clock + hold_cap\<rparr> clock polls"
    and "20 * hold_cap + 1 \<le> real (length polls)" "0 \<le> hold_cap"
  shows "fst (acquire i est hold_cap ch clock polls) \<noteq> Still_waiting"
  unfolding acquire_def
  by (rule acquire_loop_ends [OF assms(1)]) (use assms(2,3) in auto)

text \<open>Every exit after a denial that is not an admission leaves the queue.\<close>

text \<open>
  How a call leaves the loop: an admission publishes its wait once and stays out of the queue
  cleanup, a time-out leaves the queue and publishes, a cancellation after a denial leaves the
  queue, and no other exit does.
\<close>

theorem acquire_exit_effects:
  assumes "acquire_loop q d ps = (r, es)"
  shows "case r of
      Granted ad \<Rightarrow> Leave_queue \<notin> set es \<and>
        (\<exists>ms. filter (\<lambda>e. \<forall>s. e \<noteq> Sleep s) es = [Publish_wait ms (q_charge q)] \<and> ad_paced_wait_ms ad = ms)
    | Timed_out \<Rightarrow> Leave_queue \<in> set es \<and> (\<exists>ms. Publish_timeout ms \<in> set es)
    | Was_cancelled \<Rightarrow> d \<noteq> None \<or> es \<noteq> [] \<longrightarrow> Leave_queue \<in> set es
    | _ \<Rightarrow> Leave_queue \<notin> set es"
  using assms
proof (induction q d ps arbitrary: r es rule: acquire_loop.induct)
  case (4 q d v now u clk ps)
  obtain r' es' where rec: "acquire_loop q (Some v) ps = (r', es')" by fastforce
  show ?case
  proof (cases "v_admitted v \<or> q_deadline q \<le> now")
    case True
    with "4.prems" show ?thesis by (auto simp: grant_def split: if_splits)
  next
    case False
    with "4.prems" rec have "r = r'" "es = Sleep (sleep_s q v u clk) # es'" by auto
    with "4.IH" [OF _ _ rec] False show ?thesis by (auto split: acquire_outcome.splits)
  qed
qed (auto split: if_splits)

section \<open>Fallback\<close>

text \<open>
  Without Redis a process paces itself: its \<open>n\<close>-th local start is at least \<open>2 n\<close> seconds after
  the start before the first.
\<close>

theorem fallback_spacing:
  "fallback_clock ls cs \<Longrightarrow> cs \<noteq> [] \<Longrightarrow>
   ls + 2 * real (length cs) \<le> List.last (fallback_starts ls cs)"
proof (induction cs arbitrary: ls)
  case Nil
  then show ?case by simp
next
  case (Cons c cs)
  obtain now u woke where c: "c = (now, u, woke)" by (cases c)
  have w: "ls + 2 \<le> woke" using Cons.prems by (auto simp: c fallback_wait_def FALLBACK_MIN_GAP_S_def)
  show ?case
  proof (cases "cs = []")
    case True
    with w c show ?thesis by simp
  next
    case False
    with Cons.prems c have "woke + 2 * real (length cs) \<le> List.last (fallback_starts woke cs)"
      by (intro Cons.IH) auto
    moreover have "fallback_starts woke cs \<noteq> []" using False by (cases cs) auto
    ultimately show ?thesis using w c by simp
  qed
qed

section \<open>Release\<close>

text \<open>
  A release frees the call's reservation and settles the arrival bucket, so that the call's
  total draw is the weighted charge of the prompt the provider reported; the kappa it stores
  stays within its bounds.
\<close>

theorem release_settles:
  assumes "\<not> ad_fallback ad" "0 < n" "0 < ad_charge_tokens ad"
    and "bk_level (db_bucket (cl_db s)) = Some l"
    and "release clock ad (Some n) chars (Some cached) s = s'"
  shows "bk_level (db_bucket (cl_db s')) =
      Some (l + of_int (ad_charge_tokens ad)
              - of_int (weighted_charge n cached (fst (get_cached_weight clock s)))) \<and>
    map_of (db_inflight (cl_db s')) (ad_call_id ad) = None \<and>
    (\<forall>c. chars = Some c \<and> c \<noteq> 0 \<longrightarrow>
       (\<exists>k. cl_kappa_key s' = Some k \<and> KAPPA_MIN \<le> k \<and> k \<le> KAPPA_MAX))"
proof -
  define s1 where "s1 = s\<lparr>cl_db := (cl_db s)\<lparr>db_inflight :=
      AList.delete (ad_call_id ad) (db_inflight (cl_db s))\<rparr>\<rparr>"
  define s2 where "s2 = settle_bucket clock ad (Some n) (Some cached) s1"
  have w: "fst (get_cached_weight clock s1) = fst (get_cached_weight clock s)"
    "cl_db (snd (get_cached_weight clock s1)) = cl_db s1"
    by (auto simp: s1_def get_cached_weight_def Let_def split: option.split)
  have s2: "db_inflight (cl_db s2) = db_inflight (cl_db s1)"
    "bk_level (db_bucket (cl_db s2)) = Some (l + of_int (ad_charge_tokens ad)
              - of_int (weighted_charge n cached (fst (get_cached_weight clock s))))"
    using assms(2-4) w
    by (auto simp: s2_def settle_bucket_def Let_def incr_level_def s1_def split: prod.split)
  have s': "s' = fold_kappa clock (Some n) chars s2"
    using assms(1,5) by (simp add: release_def s1_def s2_def)
  have db: "cl_db s' = cl_db s2"
    by (auto simp: s' fold_kappa_def get_kappa_def Let_def split: option.split prod.split)
  have kappa: "\<exists>k. cl_kappa_key s' = Some k \<and> KAPPA_MIN \<le> k \<and> k \<le> KAPPA_MAX"
    if "chars = Some c" "c \<noteq> 0" for c
    using that assms(2)
    by (auto simp: s' fold_kappa_def Let_def KAPPA_MIN_def KAPPA_MAX_def split: prod.split)
  have "db_inflight (cl_db s1) = AList.delete (ad_call_id ad) (db_inflight (cl_db s))"
    by (simp add: s1_def)
  with db s2 kappa show ?thesis by (simp add: map_of_eq_None_iff set_delete_fst)
qed

section \<open>Witnesses\<close>

definition a_verdict :: "bool \<Rightarrow> int \<Rightarrow> verdict" where
  "a_verdict adm ms =
     \<lparr>v_admitted = adm, v_wait_ms = ms, v_axis = (if adm then None else Some Tok), v_level = 0,
      v_rlevel_x1000 = 0, v_inflight_sum = 0, v_queue_len = 1, v_head_est = 0, v_is_head = True,
      v_r_tok = 1, v_k_inflight = 1\<rparr>"

theorem acquire_terminates_witness:
  "fst (acquire ''a'' 100 (1 / 20) None 0
      [Reply (a_verdict False 10) 0 1 0, Reply (a_verdict False 10) 1 1 1]) \<noteq> Still_waiting"
  by (rule acquire_terminates) (simp_all add: sleep_s_def a_verdict_def)

theorem acquire_exit_effects_witness:
  "Leave_queue \<in> set (snd (acquire ''a'' 100 (1 / 20) None 0
      [Reply (a_verdict False 10) 0 1 0, Reply (a_verdict False 10) 1 1 1]))"
proof -
  let ?q = "\<lparr>q_call_id = ''a'', q_est = 100, q_charge = 100, q_started = 0, q_deadline = 1 / 20\<rparr>"
  obtain r es where run: "acquire_loop ?q None
      [Reply (a_verdict False 10) 0 1 0, Reply (a_verdict False 10) 1 1 1] = (r, es)"
    by fastforce
  then have "r = Timed_out" by (auto simp: a_verdict_def)
  with acquire_exit_effects [OF run] run show ?thesis by (simp add: acquire_def)
qed

theorem fallback_spacing_witness:
  "(10 :: real) + 2 * real (length [(10 :: real, 1 :: real, 125 / 10 :: real), (13, 1, 15)])
     \<le> List.last (fallback_starts 10 [(10, 1, 125 / 10), (13, 1, 15 :: real)])"
  by (rule fallback_spacing) (simp_all add: fallback_wait_def FALLBACK_MIN_GAP_S_def)

definition demo_admission :: admission where
  "demo_admission =
     \<lparr>ad_call_id = ''a'', ad_est_tokens = 20, ad_paced_wait_ms = 0, ad_fallback = False,
      ad_was_queued = False, ad_queue_len_at_admit = 0, ad_deny_axis_last = None,
      ad_charge_tokens = 20\<rparr>"

definition demo_client :: client_state where
  "demo_client =
     \<lparr>cl_kappa_cache = None, cl_weight_cache = None, cl_kappa_key = None,
      cl_db = (empty_db Map.empty)\<lparr>db_bucket := set_bucket 100 0,
        db_inflight := [(''a'', 20, 0)]\<rparr>\<rparr>"

theorem release_settles_witness:
  "bk_level (db_bucket (cl_db (release 0 demo_admission (Some 10) None (Some 5) demo_client))) =
     Some 110"
proof -
  have "bk_level (db_bucket (cl_db (release 0 demo_admission (Some 10) None (Some 5) demo_client))) =
      Some (100 + of_int (ad_charge_tokens demo_admission)
              - of_int (weighted_charge 10 5 (fst (get_cached_weight 0 demo_client))))"
    by (rule release_settles [where l = 100, OF _ _ _ _ refl, THEN conjunct1])
       (simp_all add: set_bucket_def demo_admission_def demo_client_def)
  then show ?thesis
    by (simp add: weighted_charge_def get_cached_weight_def fresh_cache_def empty_db_def
        CACHED_WEIGHT_DEFAULT_def CACHED_WEIGHT_MIN_def demo_admission_def demo_client_def)
qed

theorem weighted_charge_bounds_witness:
  "weighted_charge 1000 900 (1 / 10) \<le> weighted_charge 1000 400 (1 / 10) \<and>
   weighted_charge 1000 900 (1 / 10) = 190"
proof -
  have "weighted_charge 1000 900 (1 / 10) = 190"
    by (simp add: weighted_charge_def CACHED_WEIGHT_MIN_def)
  with weighted_charge_bounds [of 1000 400 "1 / 10" 900] show ?thesis by simp
qed

theorem pacer_keys_disjoint_witness:
  "set (pacer_keys ''glm'') \<inter> set (pacer_keys ''kimi'') = {}"
  using pacer_keys_disjoint [of "''glm''" "''kimi''"] by simp

end
