(* ===== verification/Redis_Hash.thy ===== *)
theory Redis_Hash
  imports Prelude
begin

text \<open>
  The interface of a Redis hash as the Python code uses it (\<open>HGET\<close>, \<open>HSET\<close> with a mapping,
  \<open>HDEL\<close>): what a read returns after the writes. The control state and the operator limits rest
  on it.
\<close>

locale hash_table =
  fixes get :: "'h \<Rightarrow> string \<Rightarrow> 'v option"
    and put :: "string \<Rightarrow> 'v \<Rightarrow> 'h \<Rightarrow> 'h"
    and del :: "string \<Rightarrow> 'h \<Rightarrow> 'h"
  assumes get_put: "get (put k v h) k' = (if k' = k then Some v else get h k')"
    and get_del: "get (del k h) k' = (if k' = k then None else get h k')"
begin

text \<open>The last write of a mapping wins, and unwritten fields keep their value.\<close>

lemma get_fold_put:
  "get (fold (\<lambda>(k, v). put k v) kvs h) k =
     (case map_of (rev kvs) k of Some v \<Rightarrow> Some v | None \<Rightarrow> get h k)"
proof (induction kvs arbitrary: h)
  case Nil
  then show ?case by simp
next
  case (Cons p kvs)
  then show ?case
    by (cases p) (auto simp: get_put map_add_def split: option.splits)
qed

lemma get_fold_put_other:
  "k \<notin> fst ` set kvs \<Longrightarrow> get (fold (\<lambda>(k, v). put k v) kvs h) k = get h k"
proof -
  assume "k \<notin> fst ` set kvs"
  then have "map_of (rev kvs) k = None" by (simp add: map_of_eq_None_iff)
  then show ?thesis by (simp add: get_fold_put)
qed

lemma get_fold_put_mem:
  assumes "distinct (map fst kvs)" "(k, v) \<in> set kvs"
  shows "get (fold (\<lambda>(k, v). put k v) kvs h) k = Some v"
proof -
  from assms have "map_of (rev kvs) k = Some v"
    by (simp add: rev_map [symmetric])
  then show ?thesis by (simp add: get_fold_put)
qed

lemma get_fold_del:
  "get (fold del ks h) k = (if k \<in> set ks then None else get h k)"
  by (induction ks arbitrary: h) (auto simp: get_del)

end

section \<open>The modelled hash\<close>

definition hget :: "'v hash \<Rightarrow> string \<Rightarrow> 'v option" where
  "hget h k = map_of h k"

definition hset1 :: "string \<Rightarrow> 'v \<Rightarrow> 'v hash \<Rightarrow> 'v hash" where
  "hset1 k v h = AList.update k v h"

definition hdel1 :: "string \<Rightarrow> 'v hash \<Rightarrow> 'v hash" where
  "hdel1 k h = AList.delete k h"

definition hset :: "'v hash \<Rightarrow> 'v hash \<Rightarrow> 'v hash" where
  "hset mapping h = fold (\<lambda>(k, v). hset1 k v) mapping h"

definition hdel :: "string list \<Rightarrow> 'v hash \<Rightarrow> 'v hash" where
  "hdel ks h = fold hdel1 ks h"

interpretation rh: hash_table hget hset1 hdel1
  by unfold_locales (auto simp: hget_def hset1_def hdel1_def update_conv' delete_conv')

lemma hget_hset [store_simps]:
  "hget (hset mapping h) k = (case map_of (rev mapping) k of Some v \<Rightarrow> Some v | None \<Rightarrow> hget h k)"
  unfolding hset_def by (rule rh.get_fold_put)

lemma hget_hset_other: "k \<notin> fst ` set mapping \<Longrightarrow> hget (hset mapping h) k = hget h k"
  unfolding hset_def by (rule rh.get_fold_put_other)

lemma hget_hset_mem:
  "distinct (map fst mapping) \<Longrightarrow> (k, v) \<in> set mapping \<Longrightarrow> hget (hset mapping h) k = Some v"
  unfolding hset_def by (rule rh.get_fold_put_mem)

lemma hget_hdel [store_simps]: "hget (hdel ks h) k = (if k \<in> set ks then None else hget h k)"
  unfolding hdel_def by (rule rh.get_fold_del)

lemma hget_Nil [simp]: "hget [] k = None"
  by (simp add: hget_def)

text \<open>A mapping with distinct fields is written in any order.\<close>

lemma map_of_rev_distinct: "distinct (map fst kvs) \<Longrightarrow> map_of (rev kvs) k = map_of kvs k"
proof -
  assume d: "distinct (map fst kvs)"
  then have "distinct (map fst (rev kvs))" by (simp add: rev_map [symmetric])
  with d have "map_of (rev kvs) k = Some v \<longleftrightarrow> map_of kvs k = Some v" for v
    by (simp add: map_of_eq_Some_iff)
  then show ?thesis by (metis not_None_eq)
qed

lemma hset_not_empty: "mapping \<noteq> [] \<Longrightarrow> hset mapping h \<noteq> []"
proof -
  assume "mapping \<noteq> []"
  then obtain k v where "(k, v) \<in> set mapping" by (metis list.set_intros(1) neq_Nil_conv surj_pair)
  then have "map_of (rev mapping) k \<noteq> None"
    by (metis fst_conv image_eqI map_of_eq_None_iff set_rev)
  then have "hget (hset mapping h) k \<noteq> None" by (auto simp: hget_hset)
  then show ?thesis by force
qed

end
