(* ===== verification/Control_State.thy ===== *)
theory Control_State
  imports Redis_Hash
begin

text \<open>
  \<open>swebench_eval/control/state.py\<close>: pause and abort as durable, fail-closed state.

  Aurora is the truth (\<open>aurora\<close>: the single \<open>control_state\<close> row and the runs' statuses), Valkey
  the read path (\<open>valkey\<close>: the hash \<open>control:flags\<close>, the set \<open>control:aborted\<close> and the expiry of
  the run-activity marker). Every Redis or Aurora call that the code guards with an exception
  handler takes a flag that says whether the call succeeded.

  A field of the hash holds either a text or the decimal text of a float (\<open>Num\<close>).
\<close>

section \<open>Stores and views\<close>

datatype hval = Text string | Num real

text \<open>Python's \<open>float\<close> on a stored field; \<open>None\<close> is a \<open>ValueError\<close>.\<close>

fun hfloat :: "hval \<Rightarrow> real option" where
  "hfloat (Num x) = Some x"
| "hfloat (Text s) = (if s = ''0'' then Some 0 else if s = ''1'' then Some 1 else None)"

record valkey =
  vk_flags :: "hval hash"
  vk_aborted :: "string set"
  vk_active_until :: "real option"

record aurora =
  au_row :: "(bool \<times> bool \<times> bool \<times> real option) option"
  au_runs :: "(string \<times> string) list"

definition STALE_AFTER_S :: real where "STALE_AFTER_S = 90"
definition ACTIVE_RUNS_TTL_S :: real where "ACTIVE_RUNS_TTL_S = 900"

definition POOLS :: "string list" where
  "POOLS = [''harness'', ''eval'', ''gateway'']"

record control_view =
  cv_harness_paused :: bool
  cv_eval_paused :: bool
  cv_gateway_paused :: bool
  cv_aborted_runs :: "string set"
  cv_published_at :: real
  cv_stale :: bool
  cv_updated_by :: string
  cv_reason :: string

definition is_paused_impl :: "control_view \<Rightarrow> string \<Rightarrow> bool" where
  "is_paused_impl v pool =
     (if pool = ''harness'' then cv_harness_paused v
      else if pool = ''eval'' then cv_eval_paused v
      else if pool = ''gateway'' then cv_gateway_paused v else False)"

definition all_paused :: control_view where
  "all_paused =
     \<lparr>cv_harness_paused = True, cv_eval_paused = True, cv_gateway_paused = True,
      cv_aborted_runs = {}, cv_published_at = 0, cv_stale = True, cv_updated_by = [],
      cv_reason = []\<rparr>"

section \<open>Readers\<close>

definition field_text :: "hval option \<Rightarrow> string" where
  "field_text v = (case v of Some (Text s) \<Rightarrow> s | _ \<Rightarrow> [])"

definition published_at :: "hval hash \<Rightarrow> real" where
  "published_at flags =
     (case hget flags ''published_at'' of
        None \<Rightarrow> 0
      | Some v \<Rightarrow> (case hfloat v of Some x \<Rightarrow> x | None \<Rightarrow> 0))"

definition read_control :: "real \<Rightarrow> bool \<Rightarrow> bool \<Rightarrow> valkey \<Rightarrow> control_view" where
  "read_control now flags_ok set_ok vk =
     (if \<not> flags_ok then all_paused
      else if vk_flags vk = [] then all_paused
      else if STALE_AFTER_S < now - published_at (vk_flags vk)
      then all_paused\<lparr>cv_published_at := published_at (vk_flags vk)\<rparr>
      else
        \<lparr>cv_harness_paused = (hget (vk_flags vk) ''harness'' = Some (Text ''1'')),
         cv_eval_paused = (hget (vk_flags vk) ''eval'' = Some (Text ''1'')),
         cv_gateway_paused = (hget (vk_flags vk) ''gateway'' = Some (Text ''1'')),
         cv_aborted_runs = (if set_ok then vk_aborted vk else {}),
         cv_published_at = published_at (vk_flags vk),
         cv_stale = False,
         cv_updated_by = field_text (hget (vk_flags vk) ''updated_by''),
         cv_reason = field_text (hget (vk_flags vk) ''reason'')\<rparr>)"

definition is_paused :: "real \<Rightarrow> bool \<Rightarrow> bool \<Rightarrow> valkey \<Rightarrow> string \<Rightarrow> bool" where
  "is_paused now flags_ok set_ok vk pool = is_paused_impl (read_control now flags_ok set_ok vk) pool"

definition is_run_aborted :: "bool \<Rightarrow> valkey \<Rightarrow> string \<Rightarrow> bool" where
  "is_run_aborted set_ok vk run_id = (if set_ok then run_id \<in> vk_aborted vk else True)"

section \<open>Writers\<close>

definition flag_text :: "bool \<Rightarrow> hval" where
  "flag_text b = Text (if b then ''1'' else ''0'')"

definition flag_fields :: "(string \<times> bool) list \<Rightarrow> hval hash" where
  "flag_fields flags = map (\<lambda>(k, b). (k, flag_text b)) flags"

definition write_flags ::
    "real \<Rightarrow> (string \<times> bool) list \<Rightarrow> real option \<Rightarrow> valkey \<Rightarrow> valkey" where
  "write_flags now flags updated_at vk =
     vk\<lparr>vk_flags := hset (flag_fields flags @ [(''published_at'', Num now)] @
          (case updated_at of None \<Rightarrow> [] | Some u \<Rightarrow> [(''updated_at'', Num u)])) (vk_flags vk)\<rparr>"

definition heartbeat :: "real \<Rightarrow> valkey \<Rightarrow> valkey" where
  "heartbeat now vk = vk\<lparr>vk_flags := hset [(''published_at'', Num now)] (vk_flags vk)\<rparr>"

definition read_updated_at :: "bool \<Rightarrow> aurora \<Rightarrow> real option" where
  "read_updated_at ok au =
     (if ok then (case au_row au of Some (_, _, _, u) \<Rightarrow> u | None \<Rightarrow> None) else None)"

definition hash_updated_at :: "bool \<Rightarrow> valkey \<Rightarrow> real" where
  "hash_updated_at ok vk =
     (if ok then (case hget (vk_flags vk) ''updated_at'' of
                    Some v \<Rightarrow> (case hfloat v of Some x \<Rightarrow> x | None \<Rightarrow> 0)
                  | None \<Rightarrow> 0)
      else 0)"

definition write_aborted :: "string list \<Rightarrow> valkey \<Rightarrow> valkey" where
  "write_aborted ids vk =
     vk\<lparr>vk_aborted := (if ids \<noteq> [] then vk_aborted vk \<union> set ids else {})\<rparr>"

definition read_control_flags :: "bool \<Rightarrow> aurora \<Rightarrow> (string \<times> bool) list" where
  "read_control_flags ok au =
     (case (ok, au_row au) of
        (True, Some (h, e, g, _)) \<Rightarrow> [(''harness'', h), (''eval'', e), (''gateway'', g)]
      | _ \<Rightarrow> [(''harness'', True), (''eval'', True), (''gateway'', True)])"

definition read_aborted_run_ids :: "bool \<Rightarrow> aurora \<Rightarrow> string list" where
  "read_aborted_run_ids ok au =
     (if ok then map fst (filter (\<lambda>(r, status). status \<in> {''aborting'', ''aborted''}) (au_runs au))
      else [])"

text \<open>Which of the calls of one reconcile succeed.\<close>

record db_health =
  ok_updated :: bool
  ok_hash :: bool
  ok_flags :: bool
  ok_aborted :: bool

definition healthy :: db_health where
  "healthy = \<lparr>ok_updated = True, ok_hash = True, ok_flags = True, ok_aborted = True\<rparr>"

definition outage :: db_health where
  "outage = \<lparr>ok_updated = False, ok_hash = True, ok_flags = False, ok_aborted = False\<rparr>"

definition reconcile_from_db :: "real \<Rightarrow> db_health \<Rightarrow> aurora \<Rightarrow> valkey \<Rightarrow> valkey" where
  "reconcile_from_db now h au vk =
     (let row_updated_at = read_updated_at (ok_updated h) au
      in if (case row_updated_at of Some u \<Rightarrow> u \<le> hash_updated_at (ok_hash h) vk | None \<Rightarrow> False)
         then heartbeat now vk
         else write_aborted (read_aborted_run_ids (ok_aborted h) au)
                (write_flags now (read_control_flags (ok_flags h) au) row_updated_at vk))"

definition publish_from_db :: "real \<Rightarrow> db_health \<Rightarrow> aurora \<Rightarrow> valkey \<Rightarrow> valkey" where
  "publish_from_db now h au vk =
     write_aborted (read_aborted_run_ids (ok_aborted h) au)
       (write_flags now (read_control_flags (ok_flags h) au) (read_updated_at (ok_updated h) au) vk)"

definition current_pool_flags :: "bool \<Rightarrow> valkey \<Rightarrow> (string \<times> bool) list" where
  "current_pool_flags ok vk =
     map (\<lambda>p. (p, ok \<and> hget (vk_flags vk) p = Some (Text ''1''))) POOLS"

text \<open>The loop over the named pools; an unknown pool raises before anything is written.\<close>

fun merge_pools ::
    "string list \<Rightarrow> bool \<Rightarrow> (string \<times> bool) list \<Rightarrow> string + (string \<times> bool) list" where
  "merge_pools [] paused current = Inr current"
| "merge_pools (pool # pools) paused current =
     (if pool \<notin> set POOLS then Inl pool
      else merge_pools pools paused (AList.update pool paused current))"

definition set_pause ::
    "real \<Rightarrow> bool \<Rightarrow> string list \<Rightarrow> bool \<Rightarrow> string \<Rightarrow> string \<Rightarrow> real option \<Rightarrow> valkey \<Rightarrow>
       string + valkey" where
  "set_pause now read_ok pools paused actor reason updated_at vk =
     (case merge_pools pools paused (current_pool_flags read_ok vk) of
        Inl pool \<Rightarrow> Inl pool
      | Inr current \<Rightarrow>
          Inr (vk\<lparr>vk_flags := hset (flag_fields current @
             [(''published_at'', Num now),
              (''updated_at'', Num (case updated_at of Some u \<Rightarrow> u | None \<Rightarrow> now)),
              (''updated_by'', Text actor), (''reason'', Text reason)]) (vk_flags vk)\<rparr>))"

definition request_abort :: "real \<Rightarrow> string \<Rightarrow> string \<Rightarrow> string \<Rightarrow> valkey \<Rightarrow> valkey" where
  "request_abort now run_id reason actor vk =
     vk\<lparr>vk_aborted := insert run_id (vk_aborted vk),
        vk_flags := hset [(''updated_by'', Text actor), (''reason'', Text reason),
                          (''published_at'', Num now)] (vk_flags vk)\<rparr>"

definition mark_runs_active :: "real \<Rightarrow> valkey \<Rightarrow> valkey" where
  "mark_runs_active now vk = vk\<lparr>vk_active_until := Some (now + ACTIVE_RUNS_TTL_S)\<rparr>"

definition runs_active_marked :: "real \<Rightarrow> bool \<Rightarrow> valkey \<Rightarrow> bool" where
  "runs_active_marked now ok vk =
     (if ok then (case vk_active_until vk of Some e \<Rightarrow> now < e | None \<Rightarrow> False) else False)"

section \<open>Reading\<close>

lemma read_open:
  assumes "\<not> is_paused now fok sok vk pool" "pool \<in> set POOLS"
  shows "fok" "now - published_at (vk_flags vk) \<le> STALE_AFTER_S"
    "hget (vk_flags vk) pool \<noteq> Some (Text ''1'')"
  using assms
  by (auto simp: is_paused_def read_control_def is_paused_impl_def all_paused_def POOLS_def
      published_at_def split: if_splits)

text \<open>
  The read fails closed: a pool reads as open only when Valkey answered, its hash was
  refreshed by a publisher within the last 90 seconds and the pool's flag is not set; and a
  run reads as not aborted only when the set could be read and does not hold it.
\<close>

theorem control_fails_closed:
  "(\<not> is_paused now fok sok vk pool \<and> pool \<in> set POOLS \<longrightarrow>
      fok \<and> now - published_at (vk_flags vk) \<le> 90 \<and> hget (vk_flags vk) pool \<noteq> Some (Text ''1'')) \<and>
   (\<not> is_run_aborted sok vk run \<longrightarrow> sok \<and> run \<notin> vk_aborted vk)"
  using read_open [of now fok sok vk pool] by (auto simp: is_run_aborted_def STALE_AFTER_S_def)

theorem control_fails_closed_witness:
  "50 - published_at [(''published_at'', Num 10), (''eval'', Text ''0'')] \<le> 90 \<and>
   ''r9'' \<notin> {''r1''}"
proof -
  let ?vk = "\<lparr>vk_flags = [(''published_at'', Num 10), (''eval'', Text ''0'')],
    vk_aborted = {''r1''}, vk_active_until = None\<rparr>"
  have "\<not> is_paused 50 True True ?vk ''eval'' \<and> ''eval'' \<in> set POOLS"
    "\<not> is_run_aborted True ?vk ''r9''"
    by (simp_all add: is_paused_def read_control_def is_paused_impl_def published_at_def hget_def
        POOLS_def is_run_aborted_def STALE_AFTER_S_def)
  with control_fails_closed [of 50 True True ?vk "''eval''" "''r9''"] show ?thesis by simp
qed

section \<open>Pausing\<close>

lemma dom_flag_fields: "fst ` set (flag_fields fs) = fst ` set fs"
  by (force simp: flag_fields_def image_iff)

lemma map_of_flag_fields: "map_of (flag_fields fs) k = map_option flag_text (map_of fs k)"
  by (induction fs) (auto simp: flag_fields_def)

lemma merge_pools_keys:
  "merge_pools pools paused cur = Inr cur' \<Longrightarrow> set POOLS \<subseteq> fst ` set cur \<Longrightarrow>
     map fst cur' = map fst cur"
proof (induction pools paused cur rule: merge_pools.induct)
  case (2 pool pools paused cur)
  then have "pool \<in> fst ` set cur" by (auto split: if_splits)
  then have k: "map fst (AList.update pool paused cur) = map fst cur"
    by (simp add: update_keys)
  then have "fst ` set (AList.update pool paused cur) = fst ` set cur"
    by (metis list.set_map)
  with 2 k show ?case by (auto split: if_splits)
qed simp

lemma merge_pools_get:
  "merge_pools pools paused cur = Inr cur' \<Longrightarrow>
     map_of cur' p = (if p \<in> set pools then Some paused else map_of cur p)"
  by (induction pools paused cur rule: merge_pools.induct)
     (auto split: if_splits simp: update_conv')

lemma merge_pools_error: "(\<exists>p. merge_pools pools paused cur = Inl p) \<longleftrightarrow> \<not> set pools \<subseteq> set POOLS"
  by (induction pools paused cur rule: merge_pools.induct) auto

lemma current_keys: "map fst (current_pool_flags ok vk) = POOLS"
  by (simp add: current_pool_flags_def comp_def)

lemma current_get:
  "p \<in> set POOLS \<Longrightarrow>
     map_of (current_pool_flags ok vk) p = Some (ok \<and> hget (vk_flags vk) p = Some (Text ''1''))"
  by (auto simp: current_pool_flags_def POOLS_def)

text \<open>What the hash holds after a successful \<open>set_pause\<close>.\<close>

lemma set_pause_fields:
  assumes "set_pause now ok pools paused actor reason u vk = Inr vk'"
  shows "p \<in> set POOLS \<Longrightarrow> hget (vk_flags vk') p =
      Some (flag_text (if p \<in> set pools then paused else ok \<and> hget (vk_flags vk) p = Some (Text ''1'')))"
    "hget (vk_flags vk') ''published_at'' = Some (Num now)"
    "hget (vk_flags vk') ''updated_at'' = Some (Num (case u of Some x \<Rightarrow> x | None \<Rightarrow> now))"
    "vk_aborted vk' = vk_aborted vk" "vk_flags vk' \<noteq> []"
proof -
  obtain cur where m: "merge_pools pools paused (current_pool_flags ok vk) = Inr cur"
    and vk': "vk' = vk\<lparr>vk_flags := hset (flag_fields cur @
             [(''published_at'', Num now),
              (''updated_at'', Num (case u of Some u \<Rightarrow> u | None \<Rightarrow> now)),
              (''updated_by'', Text actor), (''reason'', Text reason)]) (vk_flags vk)\<rparr>"
    using assms by (auto simp: set_pause_def split: sum.splits)
  have keys: "map fst cur = POOLS"
    using merge_pools_keys [OF m] current_keys by (metis list.set_map order_refl)
  have dist: "distinct (map fst (flag_fields cur))"
    using keys by (simp add: flag_fields_def comp_def case_prod_beta' POOLS_def)
  have rev: "map_of (rev (flag_fields cur)) k = map_of (flag_fields cur) k" for k
    by (simp add: dist map_of_rev_distinct)
  have get: "map_of (flag_fields cur) p = Some (flag_text (if p \<in> set pools then paused
      else ok \<and> hget (vk_flags vk) p = Some (Text ''1'')))" if "p \<in> set POOLS" for p
    using that by (simp add: map_of_flag_fields merge_pools_get [OF m] current_get)
  show "p \<in> set POOLS \<Longrightarrow> hget (vk_flags vk') p =
      Some (flag_text (if p \<in> set pools then paused else ok \<and> hget (vk_flags vk) p = Some (Text ''1'')))"
    using get [of p] by (auto simp: vk' hget_hset rev POOLS_def)
  show "hget (vk_flags vk') ''published_at'' = Some (Num now)"
    "hget (vk_flags vk') ''updated_at'' = Some (Num (case u of Some x \<Rightarrow> x | None \<Rightarrow> now))"
    "vk_aborted vk' = vk_aborted vk" "vk_flags vk' \<noteq> []"
    by (simp_all add: vk' hget_hset hset_not_empty)
qed

text \<open>
  An operator pause takes effect at once and touches only the pools it names: a read within
  90 seconds returns exactly the new flag for a named pool and the old flag for every other
  pool, and an unknown pool is refused with nothing written.
\<close>

theorem set_pause_read_back:
  assumes "set_pause t True pools paused actor reason u vk = Inr vk'" "p \<in> set POOLS"
    and "now - t \<le> 90"
  shows "is_paused now True sok vk' p =
     (if p \<in> set pools then paused else hget (vk_flags vk) p = Some (Text ''1'')) \<and>
    set pools \<subseteq> set POOLS"
proof -
  note f = set_pause_fields [OF assms(1)]
  have "set pools \<subseteq> set POOLS"
    using assms(1) merge_pools_error [of pools paused "current_pool_flags True vk"]
    by (auto simp: set_pause_def split: sum.splits)
  moreover have "published_at (vk_flags vk') = t" by (simp add: published_at_def f(2))
  moreover have "is_paused now True sok vk' p = (hget (vk_flags vk') p = Some (Text ''1''))"
    using assms(2,3) f(5) \<open>published_at (vk_flags vk') = t\<close>
    by (auto simp: is_paused_def read_control_def is_paused_impl_def POOLS_def STALE_AFTER_S_def)
  ultimately show ?thesis
    using f(1) [OF assms(2)] by (simp add: flag_text_def)
qed

definition paused_demo :: valkey where
  "paused_demo = \<lparr>vk_flags = [(''harness'', Text ''1''), (''published_at'', Num 0)], vk_aborted = {''r1''},
    vk_active_until = None\<rparr>"

theorem set_pause_read_back_witness:
  "case set_pause 10 True [''eval''] True ''op'' ''why'' None paused_demo of
     Inr vk' \<Rightarrow> is_paused 20 True True vk' ''harness'' | Inl e \<Rightarrow> False"
proof -
  obtain vk' where s: "set_pause 10 True [''eval''] True ''op'' ''why'' None paused_demo = Inr vk'"
    by (simp add: set_pause_def POOLS_def)
  from set_pause_read_back [OF s, of "''harness''" 20 True] s show ?thesis
    by (simp add: POOLS_def paused_demo_def hget_def)
qed

text \<open>
  When the read of the current flags fails and the write succeeds, pausing one pool resumes
  the others: the merge starts from all zeros, against the promise that an unnamed pool keeps
  its flag.
\<close>

theorem set_pause_failed_read_resumes:
  "is_paused 5 True True paused_demo ''harness'' \<and>
   (case set_pause 10 False [''eval''] True ''op'' ''why'' None paused_demo of
     Inr vk' \<Rightarrow> \<not> is_paused 20 True True vk' ''harness'' | Inl e \<Rightarrow> False)"
proof -
  obtain vk' where s: "set_pause 10 False [''eval''] True ''op'' ''why'' None paused_demo = Inr vk'"
    by (simp add: set_pause_def POOLS_def)
  note f = set_pause_fields [OF s]
  have "\<not> is_paused 20 True True vk' ''harness''"
    using f(1) [of "''harness''"] f(2,5)
    by (simp add: is_paused_def read_control_def is_paused_impl_def published_at_def POOLS_def
        STALE_AFTER_S_def flag_text_def)
  moreover have "is_paused 5 True True paused_demo ''harness''"
    by (simp add: is_paused_def read_control_def is_paused_impl_def published_at_def hget_def
        STALE_AFTER_S_def paused_demo_def)
  ultimately show ?thesis using s by simp
qed

section \<open>Reconciling\<close>

lemma heartbeat_frame:
  "k \<noteq> ''published_at'' \<Longrightarrow> hget (vk_flags (heartbeat now vk)) k = hget (vk_flags vk) k"
  "hget (vk_flags (heartbeat now vk)) ''published_at'' = Some (Num now)"
  "vk_aborted (heartbeat now vk) = vk_aborted vk"
  by (simp_all add: heartbeat_def hget_hset)

lemma write_flags_fields:
  assumes "map fst flags = POOLS"
  shows "p \<in> set POOLS \<Longrightarrow> hget (vk_flags (write_flags now flags u vk)) p = map_option flag_text (map_of flags p)"
    "hget (vk_flags (write_flags now flags u vk)) ''updated_at'' =
       (case u of Some x \<Rightarrow> Some (Num x) | None \<Rightarrow> hget (vk_flags vk) ''updated_at'')"
    "hget (vk_flags (write_flags now flags u vk)) ''published_at'' = Some (Num now)"
    "vk_aborted (write_flags now flags u vk) = vk_aborted vk"
proof -
  have dist: "distinct (map fst (flag_fields flags))"
    using assms by (simp add: flag_fields_def comp_def case_prod_beta' POOLS_def)
  have rev: "map_of (rev (flag_fields flags)) k = map_of (flag_fields flags) k" for k
    by (simp add: dist map_of_rev_distinct)
  have dom: "map_of flags k = None \<longleftrightarrow> k \<notin> set POOLS" for k
    using assms by (metis list.set_map map_of_eq_None_iff)
  show "p \<in> set POOLS \<Longrightarrow> hget (vk_flags (write_flags now flags u vk)) p = map_option flag_text (map_of flags p)"
  proof -
    assume p: "p \<in> set POOLS"
    then have "p \<noteq> ''published_at''" "p \<noteq> ''updated_at''" "map_of flags p \<noteq> None"
      using dom by (auto simp: POOLS_def)
    then show "hget (vk_flags (write_flags now flags u vk)) p = map_option flag_text (map_of flags p)"
      by (cases u) (auto simp: write_flags_def hget_hset rev map_of_flag_fields map_add_def)
  qed
  show "hget (vk_flags (write_flags now flags u vk)) ''updated_at'' =
       (case u of Some x \<Rightarrow> Some (Num x) | None \<Rightarrow> hget (vk_flags vk) ''updated_at'')"
    "hget (vk_flags (write_flags now flags u vk)) ''published_at'' = Some (Num now)"
    using dom [of "''updated_at''"] dom [of "''published_at''"]
    by (cases u; simp add: write_flags_def hget_hset rev map_of_flag_fields map_add_def POOLS_def)+
  show "vk_aborted (write_flags now flags u vk) = vk_aborted vk"
    by (simp add: write_flags_def)
qed

lemma read_control_flags_keys: "map fst (read_control_flags ok au) = POOLS"
  by (auto simp: read_control_flags_def POOLS_def split: bool.splits option.splits prod.splits)

text \<open>
  The reconcile is a compare-and-set. When the hash carries an \<open>updated_at\<close> no older than
  Aurora's row, no pause flag changes and only the heartbeat moves; otherwise every pool's flag
  becomes Aurora's (all paused when the row cannot be read), with the row's timestamp.
\<close>

theorem reconcile_compare_and_set:
  "(case read_updated_at (ok_updated h) au of
      Some u \<Rightarrow>
        if u \<le> hash_updated_at (ok_hash h) vk
        then \<forall>k. k \<noteq> ''published_at'' \<longrightarrow>
               hget (vk_flags (reconcile_from_db now h au vk)) k = hget (vk_flags vk) k
        else hget (vk_flags (reconcile_from_db now h au vk)) ''updated_at'' = Some (Num u) \<and>
             (\<forall>p \<in> set POOLS. hget (vk_flags (reconcile_from_db now h au vk)) p =
                map_option flag_text (map_of (read_control_flags (ok_flags h) au) p))
    | None \<Rightarrow>
        \<forall>p \<in> set POOLS. hget (vk_flags (reconcile_from_db now h au vk)) p =
          map_option flag_text (map_of (read_control_flags (ok_flags h) au) p)) \<and>
   hget (vk_flags (reconcile_from_db now h au vk)) ''published_at'' = Some (Num now)"
  using write_flags_fields [OF read_control_flags_keys, where now = now and vk = vk]
  by (auto simp: reconcile_from_db_def Let_def heartbeat_frame write_aborted_def split: option.splits)

theorem reconcile_compare_and_set_witness:
  "hget (vk_flags (reconcile_from_db 20 healthy
      \<lparr>au_row = Some (False, True, False, Some 7), au_runs = []\<rparr> paused_demo)) ''harness'' = Some (Text ''0'')"
  using reconcile_compare_and_set [where h = healthy and now = 20 and vk = paused_demo and au = "\<lparr>au_row = Some (False, True, False, Some 7), au_runs = []\<rparr>"]
  by (simp add: read_updated_at_def healthy_def hash_updated_at_def paused_demo_def hget_def
      read_control_flags_def POOLS_def flag_text_def)

text \<open>
  The aborted-run set is not refreshed on every reconcile: once the hash carries the row's
  timestamp, a run that Aurora marks aborting stays out of \<open>control:aborted\<close> however often the
  reconcile runs, until the row itself changes.
\<close>

theorem reconcile_skips_aborted:
  assumes "read_updated_at True au = Some u" "u \<le> hash_updated_at True vk"
  shows "vk_aborted ((reconcile_from_db now healthy au ^^ n) vk) = vk_aborted vk"
proof -
  have "vk_aborted ((reconcile_from_db now healthy au ^^ n) vk) = vk_aborted vk \<and>
    hash_updated_at True ((reconcile_from_db now healthy au ^^ n) vk) = hash_updated_at True vk"
  proof (induction n)
    case 0
    then show ?case by simp
  next
    case (Suc n)
    with assms show ?case
      by (simp add: reconcile_from_db_def healthy_def heartbeat_frame hash_updated_at_def)
  qed
  then show ?thesis by simp
qed

definition aborting_aurora :: aurora where
  "aborting_aurora = \<lparr>au_row = Some (False, False, False, Some 7), au_runs = [(''r2'', ''aborting'')]\<rparr>"

theorem reconcile_skips_aborted_witness:
  "let vk = write_flags 8 (read_control_flags True aborting_aurora) (Some 7) paused_demo
   in ''r2'' \<in> set (read_aborted_run_ids True aborting_aurora) \<and>
      ''r2'' \<notin> vk_aborted ((reconcile_from_db 9 healthy aborting_aurora ^^ 5) vk)"
proof -
  let ?vk = "write_flags 8 (read_control_flags True aborting_aurora) (Some 7) paused_demo"
  have "vk_aborted ((reconcile_from_db 9 healthy aborting_aurora ^^ 5) ?vk) = vk_aborted ?vk"
    by (rule reconcile_skips_aborted [where u = 7])
       (simp_all add: read_updated_at_def aborting_aurora_def hash_updated_at_def
          write_flags_fields(2) [OF read_control_flags_keys])
  then show ?thesis
    by (simp add: write_flags_def paused_demo_def read_aborted_run_ids_def aborting_aurora_def)
qed

text \<open>
  A reconcile during an Aurora outage empties the aborted-run set, and the next healthy
  reconcile does not bring it back: it takes the compare-and-set branch, so the pools also stay
  paused although Aurora's row never was.
\<close>

theorem outage_forgets_aborts:
  assumes "au_row au = Some (False, False, False, Some u)" "hash_updated_at True vk = u"
  shows "vk_aborted (reconcile_from_db t' healthy au (reconcile_from_db t outage au vk)) = {} \<and>
    (\<forall>p \<in> set POOLS. hget (vk_flags (reconcile_from_db t' healthy au (reconcile_from_db t outage au vk))) p
       = Some (Text ''1''))"
proof -
  define v1 where "v1 = reconcile_from_db t outage au vk"
  have v1: "v1 = write_aborted [] (write_flags t (read_control_flags False au) None vk)"
    by (simp add: v1_def reconcile_from_db_def outage_def read_updated_at_def read_aborted_run_ids_def)
  note f = write_flags_fields [OF read_control_flags_keys]
  have "hash_updated_at True v1 = u"
    using assms(2) by (simp add: v1 write_aborted_def hash_updated_at_def f(2))
  then have "reconcile_from_db t' healthy au v1 = heartbeat t' v1"
    using assms(1) by (simp add: reconcile_from_db_def healthy_def read_updated_at_def)
  moreover have "hget (vk_flags v1) p = Some (Text ''1'')" if "p \<in> set POOLS" for p
    using that f(1) [OF that, of t False au None vk]
    by (auto simp: v1 write_aborted_def read_control_flags_def flag_text_def POOLS_def)
  ultimately show ?thesis
    unfolding v1_def [symmetric]
    by (auto simp: heartbeat_frame v1 write_aborted_def POOLS_def)
qed

theorem outage_forgets_aborts_witness:
  "''r2'' \<notin> vk_aborted (reconcile_from_db 99 healthy aborting_aurora
     (reconcile_from_db 69 outage aborting_aurora (reconcile_from_db 39 healthy aborting_aurora paused_demo))) \<and>
   ''r2'' \<in> vk_aborted (reconcile_from_db 39 healthy aborting_aurora paused_demo)"
proof -
  let ?vk = "reconcile_from_db 39 healthy aborting_aurora paused_demo"
  have vk: "?vk = write_aborted [''r2''] (write_flags 39 (read_control_flags True aborting_aurora) (Some 7) paused_demo)"
    by (simp add: reconcile_from_db_def healthy_def read_updated_at_def aborting_aurora_def
        read_aborted_run_ids_def hash_updated_at_def paused_demo_def hget_def Let_def)
  have h: "hash_updated_at True ?vk = 7"
    by (simp add: vk hash_updated_at_def write_aborted_def write_flags_fields(2) [OF read_control_flags_keys])
  from outage_forgets_aborts [of aborting_aurora 7 ?vk 99 69] h vk show ?thesis
    by (simp add: aborting_aurora_def write_aborted_def)
qed

end
