(* ===== verification/Py_Text.thy ===== *)
theory Py_Text
  imports Prelude
begin

text \<open>
  The parts of Python's string library that the code calls: \<open>in\<close>, \<open>strip\<close> and \<open>lower\<close> on ASCII text,
  \<open>rsplit\<close> at the last separator, and \<open>float\<close> on a text. The grammar of \<open>float\<close> is the documented one without digit
  underscores and without the overflow of a huge exponent to infinity.

  \<open>stored\<close> is the text of a Redis field as the writers produce it: \<open>str\<close> of an integer, \<open>repr\<close>
  of a float (which Python documents to read back as the same float), or any other text.
\<close>

definition is_space :: "char \<Rightarrow> bool" where
  "is_space c = ((of_char c :: nat) \<in> {9, 10, 11, 12, 13, 28, 29, 30, 31, 32})"

definition strip :: "string \<Rightarrow> string" where
  "strip s = rev (dropWhile is_space (rev (dropWhile is_space s)))"

definition lower_char :: "char \<Rightarrow> char" where
  "lower_char c = (let n = (of_char c :: nat) in if 65 \<le> n \<and> n \<le> 90 then char_of (n + 32) else c)"

definition lower :: "string \<Rightarrow> string" where
  "lower s = List.map lower_char s"

text \<open>\<open>pat in s\<close>.\<close>

fun occurs :: "string \<Rightarrow> string \<Rightarrow> bool" where
  "occurs pat [] = (pat = [])"
| "occurs pat (c # cs) = (prefix pat (c # cs) \<or> occurs pat cs)"

text \<open>\<open>s.rsplit(sep, 1)[-1]\<close> for a one-character separator.\<close>

definition last_segment :: "char \<Rightarrow> string \<Rightarrow> string" where
  "last_segment sep s = rev (takeWhile (\<lambda>c. c \<noteq> sep) (rev s))"

definition is_digit :: "char \<Rightarrow> bool" where
  "is_digit c = (48 \<le> (of_char c :: nat) \<and> (of_char c :: nat) \<le> 57)"

definition digits_val :: "string \<Rightarrow> nat" where
  "digits_val ds = foldl (\<lambda>n c. 10 * n + (of_char c - 48)) 0 ds"

datatype pyfloat = Fin real | PosInf | NegInf | NaN

definition sign :: "string \<Rightarrow> bool \<times> string" where
  "sign s = (case s of
       c # cs \<Rightarrow> if c = CHR ''-'' then (True, cs) else if c = CHR ''+'' then (False, cs) else (False, s)
     | [] \<Rightarrow> (False, s))"

text \<open>The exponent part; \<open>None\<close> is a malformed one.\<close>

definition exponent :: "string \<Rightarrow> int option" where
  "exponent s = (case s of
       [] \<Rightarrow> Some 0
     | c # cs \<Rightarrow>
         if c = CHR ''e'' \<or> c = CHR ''E'' then
           (let (neg, ds) = sign cs
            in if ds \<noteq> [] \<and> list_all is_digit ds
               then Some (if neg then - int (digits_val ds) else int (digits_val ds)) else None)
         else None)"

definition py_float :: "string \<Rightarrow> pyfloat option" where
  "py_float text =
     (let (neg, s) = sign (strip text)
      in if lower s \<in> {''inf'', ''infinity''} then Some (if neg then NegInf else PosInf)
         else if lower s = ''nan'' then Some NaN
         else
           (let ip = takeWhile is_digit s;
                r = dropWhile is_digit s;
                (fp, r') = (case r of
                    c # cs \<Rightarrow> if c = CHR ''.'' then (takeWhile is_digit cs, dropWhile is_digit cs) else ([], r)
                  | [] \<Rightarrow> ([], []))
            in if ip = [] \<and> fp = [] then None
               else case exponent r' of
                   None \<Rightarrow> None
                 | Some e \<Rightarrow>
                     (let m = real (digits_val (ip @ fp)) / 10 ^ length fp;
                          v = (if 0 \<le> e then m * 10 ^ nat e else m / 10 ^ nat (- e))
                      in Some (Fin (if neg then - v else v)))))"

section \<open>Redis field texts\<close>

datatype stored = SInt int | SFloat pyfloat | SText string

text \<open>\<open>float(raw)\<close>; \<open>None\<close> is a \<open>ValueError\<close>.\<close>

fun stored_float :: "stored \<Rightarrow> pyfloat option" where
  "stored_float (SInt n) = Some (Fin (of_int n))"
| "stored_float (SFloat x) = Some x"
| "stored_float (SText s) = py_float s"

text \<open>\<open>int(x)\<close> on a float; \<open>None\<close> is the error on an infinity or a NaN.\<close>

fun pyfloat_int :: "pyfloat \<Rightarrow> int option" where
  "pyfloat_int (Fin x) = Some (py_int x)"
| "pyfloat_int _ = None"

text \<open>The bytes of a text field; the decimal texts of numbers are not needed as strings.\<close>

definition stored_text :: "stored option \<Rightarrow> string" where
  "stored_text v = (case v of Some (SText s) \<Rightarrow> s | _ \<Rightarrow> [])"

lemma stored_text_simps [simp]: "stored_text None = []" "stored_text (Some (SText s)) = s"
  by (simp_all add: stored_text_def)

end
