(* ===== verification/Pacer_Seeds.thy ===== *)
theory Pacer_Seeds
  imports Py_Text Redis_Hash Pacer_Client
begin

text \<open>
  \<open>swebench_eval/orchestrator/control_plane/pacer_seeds.py\<close> and \<open>pool_alias_for\<close> of
  \<open>gateway/rotatable_models.py\<close>: the discovery seeds of a pool, persisted as rows in Aurora and
  written back into the pacer's configuration hash when that hash is empty or unreadable.

  \<open>redis\<close> maps a key to its hash; a missing key is the empty hash. A row of
  \<open>pacer_cfg_seeds\<close> keeps its JSON object, or \<open>None\<close> where the column holds no object; the rows
  are listed in the order of their ids. The report and task columns, which nothing reads back,
  are left out.
\<close>

type_synonym redis = "string \<Rightarrow> stored hash"

datatype num = NInt int | NFloat pyfloat

datatype jval = JNum num | JBool bool | JStr stored | JNull

fun as_number :: "jval \<Rightarrow> num option" where
  "as_number (JBool b) = None"
| "as_number (JNum n) = Some n"
| "as_number (JStr s) = map_option NFloat (stored_float s)"
| "as_number JNull = None"

fun num_repr :: "num \<Rightarrow> stored" where
  "num_repr (NInt n) = SInt n"
| "num_repr (NFloat x) = SFloat x"

definition numeric_seeds :: "jval hash \<Rightarrow> num hash" where
  "numeric_seeds seeds =
     List.map_filter (\<lambda>(k, v). case as_number v of None \<Rightarrow> None | Some n \<Rightarrow> Some (k, n)) seeds"

definition hash_is_numeric :: "stored hash \<Rightarrow> bool" where
  "hash_is_numeric raw = list_all (\<lambda>(k, v). as_number (JStr v) \<noteq> None) raw"

record seed_row =
  sr_alias :: string
  sr_seeds :: "jval hash option"
  sr_seeded_at :: real
  sr_provider :: "string option"
  sr_triggered_by :: "string option"

definition drop_seeded_at :: "jval hash \<Rightarrow> jval hash" where
  "drop_seeded_at seeds = filter (\<lambda>(k, v). k \<noteq> ''seeded_at'') seeds"

definition persist_seeds ::
    "string \<Rightarrow> jval hash \<Rightarrow> real \<Rightarrow> string option \<Rightarrow> string option \<Rightarrow> seed_row list \<Rightarrow> seed_row list"
  where
  "persist_seeds alias seeds seeded_at provider triggered_by rows =
     rows @ [\<lparr>sr_alias = alias,
              sr_seeds = Some (map (\<lambda>(k, n). (k, JNum n)) (numeric_seeds (drop_seeded_at seeds))),
              sr_seeded_at = seeded_at, sr_provider = provider, sr_triggered_by = triggered_by\<rparr>]"

text \<open>\<open>ORDER BY seeded_at DESC, id DESC LIMIT 1\<close>: of two rows with one time the later wins.\<close>

fun latest_row :: "string \<Rightarrow> seed_row list \<Rightarrow> seed_row option" where
  "latest_row alias [] = None"
| "latest_row alias (r # rows) =
     (case latest_row alias rows of
        None \<Rightarrow> if sr_alias r = alias then Some r else None
      | Some r' \<Rightarrow> if sr_alias r = alias \<and> sr_seeded_at r' < sr_seeded_at r then Some r else Some r')"

definition load_latest_seeds :: "string \<Rightarrow> seed_row list \<Rightarrow> (jval hash \<times> real) option" where
  "load_latest_seeds alias rows =
     (case latest_row alias rows of
        None \<Rightarrow> None
      | Some r \<Rightarrow> (case sr_seeds r of None \<Rightarrow> None | Some seeds \<Rightarrow> Some (seeds, sr_seeded_at r)))"

text \<open>Which of the guarded calls succeed.\<close>

record seed_health =
  ok_read :: bool
  ok_delete :: bool
  ok_rows :: bool
  ok_write :: bool

definition seed_mapping :: "num hash \<Rightarrow> real \<Rightarrow> stored hash" where
  "seed_mapping numeric seeded_at =
     map (\<lambda>(k, n). (k, num_repr n)) numeric @ [(''seeded_at'', SFloat (Fin seeded_at))]"

definition rehydrate_pool ::
    "seed_health \<Rightarrow> seed_row list \<Rightarrow> string \<Rightarrow> redis \<Rightarrow> redis \<times> bool" where
  "rehydrate_pool h rows alias r =
     (let key = pacer_cfg_key alias; live = r key
      in if \<not> ok_read h then (r, False)
         else if live \<noteq> [] \<and> hash_is_numeric live then (r, False)
         else if live \<noteq> [] \<and> \<not> ok_delete h then (r, False)
         else
           (let r' = (if live \<noteq> [] then r(key := []) else r)
            in if \<not> ok_rows h then (r', False)
               else case load_latest_seeds alias rows of
                   None \<Rightarrow> (r', False)
                 | Some (seeds, seeded_at) \<Rightarrow>
                     (let numeric = numeric_seeds (drop_seeded_at seeds)
                      in if numeric = [] then (r', False)
                         else if \<not> ok_write h then (r', False)
                         else (r'(key := hset (seed_mapping numeric seeded_at) (r' key)), True))))"

text \<open>\<open>pool_alias_for\<close>: the registry gives each rotatable alias its upstream model slug.\<close>

definition pool_alias_for :: "(string \<times> string) list \<Rightarrow> string \<Rightarrow> string option" where
  "pool_alias_for models alias =
     (case map_of models alias of
        None \<Rightarrow> None
      | Some model \<Rightarrow>
          (let tail = last_segment (CHR ''/'') model in if tail = [] then None else Some tail))"

definition copy_from_pool :: "string \<Rightarrow> stored hash \<Rightarrow> redis \<Rightarrow> redis \<times> nat" where
  "copy_from_pool alias_key pool_seeds r =
     (let current = r alias_key
      in if pool_seeds = [] then (r, 0)
         else if current \<noteq> [] then
           (let mapping = filter (\<lambda>(k, v). k \<notin> fst ` set current) pool_seeds
            in if mapping = [] then (r, 0)
               else (r(alias_key := hset mapping current), length mapping))
         else (r(alias_key := hset pool_seeds current), length pool_seeds))"

text \<open>The Redis failures of the copy itself leave the store as it is and return zero.\<close>

definition seed_alias_from_pool ::
    "seed_health \<Rightarrow> (string \<times> string) list \<Rightarrow> seed_row list \<Rightarrow> bool \<Rightarrow> string \<Rightarrow> redis \<Rightarrow> redis \<times> nat"
  where
  "seed_alias_from_pool h models rows fill_missing alias r =
     (case pool_alias_for models alias of
        None \<Rightarrow> (r, 0)
      | Some pool \<Rightarrow>
          if pool = alias then (r, 0)
          else if \<not> ok_read h then (r, 0)
          else if r (pacer_cfg_key alias) \<noteq> [] \<and> \<not> fill_missing then (r, 0)
          else
            (let r' = (if r (pacer_cfg_key pool) = [] then fst (rehydrate_pool h rows pool r) else r)
             in if \<not> ok_write h then (r', 0)
                else copy_from_pool (pacer_cfg_key alias) (r' (pacer_cfg_key pool)) r'))"

definition rehydrate_known_pools ::
    "seed_health \<Rightarrow> seed_row list \<Rightarrow> string list \<Rightarrow> redis \<Rightarrow> redis \<times> string list" where
  "rehydrate_known_pools h rows pools r =
     fold (\<lambda>pool (r, written).
        (let (r', ok) = rehydrate_pool h rows pool r in (r', if ok then written @ [pool] else written)))
       pools (r, [])"

section \<open>Rehydration\<close>

lemma numeric_seeds_keys: "fst ` set (numeric_seeds seeds) \<subseteq> fst ` set seeds"
  by (force simp: numeric_seeds_def map_filter_def split: option.splits)

lemma numeric_seeds_Cons:
  "numeric_seeds ((k, v) # seeds) =
     (case as_number v of None \<Rightarrow> [] | Some n \<Rightarrow> [(k, n)]) @ numeric_seeds seeds"
  by (simp add: numeric_seeds_def map_filter_def split: option.split)

lemma numeric_seeds_distinct: "distinct (map fst seeds) \<Longrightarrow> distinct (map fst (numeric_seeds seeds))"
proof (induction seeds)
  case Nil
  then show ?case by (simp add: numeric_seeds_def map_filter_def)
next
  case (Cons p seeds)
  obtain k v where p: "p = (k, v)" by (cases p)
  have "k \<notin> fst ` set (numeric_seeds seeds)"
    using Cons.prems numeric_seeds_keys [of seeds] by (auto simp: p)
  with Cons show ?case by (auto simp: p numeric_seeds_Cons split: option.split)
qed

lemma map_of_numeric_seeds:
  "distinct (map fst seeds) \<Longrightarrow>
     map_of (numeric_seeds seeds) k = (case map_of seeds k of None \<Rightarrow> None | Some v \<Rightarrow> as_number v)"
proof (induction seeds)
  case Nil
  then show ?case by (simp add: numeric_seeds_def map_filter_def)
next
  case (Cons p seeds)
  obtain k' v where p: "p = (k', v)" by (cases p)
  have "map_of (numeric_seeds seeds) k' = None"
    using Cons.prems numeric_seeds_keys [of seeds] by (auto simp: p map_of_eq_None_iff)
  with Cons show ?case by (auto simp: p numeric_seeds_Cons split: option.split)
qed

lemma drop_seeded_at_distinct: "distinct (map fst seeds) \<Longrightarrow> distinct (map fst (drop_seeded_at seeds))"
  unfolding drop_seeded_at_def by (rule distinct_keys_filter)

lemma map_of_drop_seeded_at:
  "map_of (drop_seeded_at seeds) k = (if k = ''seeded_at'' then None else map_of seeds k)"
  by (simp add: drop_seeded_at_def map_of_filter_key)

lemma numeric_repr: "as_number (JStr (num_repr n)) \<noteq> None"
  by (cases n) auto

lemma repr_float: "as_number (JStr s) = Some n \<Longrightarrow> stored_float (num_repr n) = stored_float s"
  by (cases "stored_float s") auto

definition seed_get :: "num hash \<Rightarrow> real \<Rightarrow> string \<Rightarrow> stored option" where
  "seed_get numeric t k =
     (if k = ''seeded_at'' then Some (SFloat (Fin t)) else map_option num_repr (map_of numeric k))"

lemma seed_mapping_get:
  assumes "distinct (map fst numeric)"
  shows "hget (hset (seed_mapping numeric t) []) k = seed_get numeric t k"
proof -
  have "distinct (map fst (map (\<lambda>(k, n). (k, num_repr n)) numeric))"
    using assms by (simp add: comp_def case_prod_beta')
  then have "map_of (rev (map (\<lambda>(k, n). (k, num_repr n)) numeric)) k = map_option num_repr (map_of numeric k)"
    by (simp add: map_of_rev_distinct map_of_map)
  then show ?thesis
    by (simp add: seed_mapping_def hget_hset seed_get_def split: option.split)
qed

lemma seed_mapping_numeric:
  assumes "distinct (map fst numeric)"
  shows "hash_is_numeric (hset (seed_mapping numeric t) [])"
proof -
  have "as_number (JStr v) \<noteq> None" if "(k, v) \<in> set (hset (seed_mapping numeric t) [])" for k v
  proof -
    have "distinct (map fst (hset m []))" for m :: "stored hash"
      unfolding hset_def
      by (rule fold_invariant [where Q = "\<lambda>_. True" and P = "\<lambda>h. distinct (map fst h)"])
         (auto simp: hset1_def distinct_update)
    with that have "hget (hset (seed_mapping numeric t) []) k = Some v"
      by (simp add: hget_def)
    then have "seed_get numeric t k = Some v"
      by (simp add: seed_mapping_get [OF assms])
    then show ?thesis
      using numeric_repr by (auto simp: seed_get_def split: if_splits)
  qed
  then show ?thesis by (auto simp: hash_is_numeric_def list_all_iff)
qed

text \<open>
  What a rehydration leaves. A readable live hash is never touched. Otherwise, with a row
  that holds a number, the hash becomes exactly the row's numeric fields with the row's original
  \<open>seeded_at\<close>, and every field of it reads as a number.
\<close>

theorem rehydrate_pool_exact:
  assumes "rehydrate_pool h rows alias r = (r', written)"
    and "\<forall>row \<in> set rows. case sr_seeds row of Some s \<Rightarrow> distinct (map fst s) | None \<Rightarrow> True"
  shows "(r (pacer_cfg_key alias) \<noteq> [] \<and> hash_is_numeric (r (pacer_cfg_key alias)) \<longrightarrow> r' = r \<and> \<not> written) \<and>
    (\<forall>key. key \<noteq> pacer_cfg_key alias \<longrightarrow> r' key = r key) \<and>
    (written \<longrightarrow> hash_is_numeric (r' (pacer_cfg_key alias)) \<and>
       (\<exists>seeds t. load_latest_seeds alias rows = Some (seeds, t) \<and>
          (\<forall>k. hget (r' (pacer_cfg_key alias)) k =
             (if k = ''seeded_at'' then Some (SFloat (Fin t))
              else case map_of seeds k of None \<Rightarrow> None | Some v \<Rightarrow> map_option num_repr (as_number v)))))"
proof -
  have frame: "\<forall>key. key \<noteq> pacer_cfg_key alias \<longrightarrow> r' key = r key"
    using assms(1) by (auto simp: rehydrate_pool_def Let_def split: if_splits option.splits)
  have keep: "r (pacer_cfg_key alias) \<noteq> [] \<and> hash_is_numeric (r (pacer_cfg_key alias)) \<longrightarrow> r' = r \<and> \<not> written"
    using assms(1) by (auto simp: rehydrate_pool_def Let_def split: if_splits)
  show ?thesis
  proof (cases written)
    case False
    with frame keep show ?thesis by blast
  next
    case True
    then obtain seeds t where l: "load_latest_seeds alias rows = Some (seeds, t)"
      and r': "r' (pacer_cfg_key alias) = hset (seed_mapping (numeric_seeds (drop_seeded_at seeds)) t) []"
      using assms(1) by (auto simp: rehydrate_pool_def Let_def split: if_splits option.splits)
    have "latest_row alias rs = Some row \<Longrightarrow> row \<in> set rs" for rs row
      by (induction rs arbitrary: row) (auto split: option.splits if_splits)
    with l assms(2) have d: "distinct (map fst seeds)"
      by (force simp: load_latest_seeds_def split: option.splits)
    note dn = numeric_seeds_distinct [OF drop_seeded_at_distinct [OF d]]
    have "hget (r' (pacer_cfg_key alias)) k = (if k = ''seeded_at'' then Some (SFloat (Fin t))
        else case map_of seeds k of None \<Rightarrow> None | Some v \<Rightarrow> map_option num_repr (as_number v))" for k
      by (simp add: r' seed_mapping_get [OF dn] seed_get_def map_of_drop_seeded_at
          map_of_numeric_seeds [OF drop_seeded_at_distinct [OF d]] split: option.split)
    moreover have "hash_is_numeric (r' (pacer_cfg_key alias))"
      unfolding r' by (rule seed_mapping_numeric [OF dn])
    ultimately show ?thesis using l frame keep by blast
  qed
qed

text \<open>The row that a later read finds after a persist at the newest time.\<close>

lemma latest_row_append:
  assumes "\<forall>row \<in> set rows. sr_alias row = alias \<longrightarrow> sr_seeded_at row \<le> sr_seeded_at new"
    and "sr_alias new = alias"
  shows "latest_row alias (rows @ [new]) = Some new"
  using assms by (induction rows) auto

definition reading :: "stored hash \<Rightarrow> string \<Rightarrow> pyfloat option" where
  "reading h k = (case hget h k of None \<Rightarrow> None | Some v \<Rightarrow> stored_float v)"

definition healthy_seeds :: seed_health where
  "healthy_seeds = \<lparr>ok_read = True, ok_delete = True, ok_rows = True, ok_write = True\<rparr>"

text \<open>
  Seeds survive the nightly wipe: persisting a pool's hash at the newest time, losing the
  hash, and rehydrating gives back the reading of every field, with the persisted
  \<open>seeded_at\<close>; a field that did not read as a number reads as missing on both sides.
\<close>

theorem persist_wipe_rehydrate:
  assumes "distinct (map fst hash)"
    and "\<forall>row \<in> set rows. sr_alias row = pool \<longrightarrow> sr_seeded_at row \<le> t"
    and "numeric_seeds (drop_seeded_at (map (\<lambda>(k, v). (k, JStr v)) hash)) \<noteq> []"
    and "r (pacer_cfg_key pool) = []"
    and "rows' = persist_seeds pool (map (\<lambda>(k, v). (k, JStr v)) hash) t prov by_whom rows"
  shows "\<forall>k. reading (fst (rehydrate_pool healthy_seeds rows' pool r) (pacer_cfg_key pool)) k =
    (if k = ''seeded_at'' then Some (Fin t) else reading hash k)"
proof
  fix k
  let ?js = "map (\<lambda>(k, v). (k, JStr v)) hash"
  let ?num = "numeric_seeds (drop_seeded_at ?js)"
  have d: "distinct (map fst ?js)" using assms(1) by (simp add: comp_def case_prod_beta')
  note dn = numeric_seeds_distinct [OF drop_seeded_at_distinct [OF d]]
  have again: "numeric_seeds (drop_seeded_at (map (\<lambda>(k, n). (k, JNum n)) ?num)) = ?num"
  proof -
    have "''seeded_at'' \<notin> fst ` set ?num"
      using numeric_seeds_keys [of "drop_seeded_at ?js"] by (auto simp: drop_seeded_at_def)
    then have "drop_seeded_at (map (\<lambda>(k, n). (k, JNum n)) ?num) = map (\<lambda>(k, n). (k, JNum n)) ?num"
      by (force simp: drop_seeded_at_def filter_id_conv)
    moreover have "numeric_seeds (map (\<lambda>(k, n). (k, JNum n)) xs) = xs" for xs
      by (induction xs) (auto simp: numeric_seeds_def map_filter_def)
    ultimately show ?thesis by simp
  qed
  have "load_latest_seeds pool rows' = Some (map (\<lambda>(k, n). (k, JNum n)) ?num, t)"
    using assms(2) by (simp add: load_latest_seeds_def assms(5) persist_seeds_def latest_row_append)
  then have r': "fst (rehydrate_pool healthy_seeds rows' pool r) (pacer_cfg_key pool) = hset (seed_mapping ?num t) []"
    using assms(3,4) by (simp add: rehydrate_pool_def healthy_seeds_def again)
  have "hget (hset (seed_mapping ?num t) []) k = (if k = ''seeded_at'' then Some (SFloat (Fin t))
      else case map_of hash k of None \<Rightarrow> None | Some v \<Rightarrow> map_option num_repr (as_number (JStr v)))"
    by (simp add: seed_mapping_get [OF dn] seed_get_def map_of_drop_seeded_at map_of_map
        map_of_numeric_seeds [OF drop_seeded_at_distinct [OF d]] split: option.split)
  then show "reading (fst (rehydrate_pool healthy_seeds rows' pool r) (pacer_cfg_key pool)) k =
      (if k = ''seeded_at'' then Some (Fin t) else reading hash k)"
    unfolding r' reading_def by (auto simp: hget_def split: option.split)
qed

section \<open>Copying a pool to an alias\<close>

lemma hset_distinct: "distinct (map fst h) \<Longrightarrow> distinct (map fst (hset m h))"
  unfolding hset_def
  by (rule fold_invariant [where Q = "\<lambda>_. True" and P = "\<lambda>h. distinct (map fst h)"])
     (auto simp: hset1_def distinct_update)

lemma hget_None: "hget h k = None \<longleftrightarrow> k \<notin> fst ` set h"
  by (simp add: hget_def map_of_eq_None_iff)

lemma copy_from_pool_frame:
  "copy_from_pool key ps r = (r', n) \<Longrightarrow> key' \<noteq> key \<Longrightarrow> r' key' = r key'"
  by (auto simp: copy_from_pool_def Let_def split: if_splits)

lemma copy_from_pool_fields:
  assumes "copy_from_pool key ps r = (r', n)" "distinct (map fst ps)"
  shows "hget (r key) k = Some v \<Longrightarrow> hget (r' key) k = Some v"
    "hget (r key) k = None \<Longrightarrow> hget (r' key) k = None \<or> hget (r' key) k = hget ps k"
    "n = 0 \<longleftrightarrow> r' key = r key"
proof -
  define new where "new = filter (\<lambda>(k, v). k \<notin> fst ` set (r key)) ps"
  have dn: "distinct (map fst new)" unfolding new_def by (rule distinct_keys_filter [OF assms(2)])
  have cases: "r' = r \<and> n = 0 \<or> new \<noteq> [] \<and> r' = r(key := hset new (r key)) \<and> n = length new"
    using assms(1) by (auto simp: copy_from_pool_def Let_def new_def split: if_splits)
  have map: "map_of (rev new) k = (if hget (r key) k = None then hget ps k else None)" for k
    using dn by (simp add: map_of_rev_distinct new_def map_of_filter_key hget_None hget_def [of ps])
  show "hget (r key) k = Some v \<Longrightarrow> hget (r' key) k = Some v"
    "hget (r key) k = None \<Longrightarrow> hget (r' key) k = None \<or> hget (r' key) k = hget ps k"
    using cases by (auto simp: hget_hset map split: option.splits)
  show "n = 0 \<longleftrightarrow> r' key = r key"
  proof (cases "r' = r \<and> n = 0")
    case False
    with cases have c: "new \<noteq> []" "r' key = hset new (r key)" "n = length new" by auto
    then obtain k v where kv: "(k, v) \<in> set new" by (cases new) auto
    then have "hget (r' key) k = Some v" by (simp add: c(2) hget_hset_mem [OF dn])
    moreover have "hget (r key) k = None" using kv by (auto simp: new_def hget_None)
    ultimately show ?thesis using c by auto
  qed auto
qed

lemma rehydrate_pool_stores:
  assumes "rehydrate_pool h rows alias r = (r', ok)" "\<forall>key. distinct (map fst (r key))"
  shows "key \<noteq> pacer_cfg_key alias \<Longrightarrow> r' key = r key" "distinct (map fst (r' key))"
  using assms
  by (auto simp: rehydrate_pool_def Let_def hset_distinct split: if_splits option.splits)

text \<open>
  Seeding an alias never overwrites what it has: every field of a non-empty alias hash keeps
  its value, whatever fails; a field it gains has the pool's value; and the count is zero exactly
  when the alias hash is left as it was.
\<close>

theorem seed_alias_keeps_fields:
  assumes "seed_alias_from_pool h models rows fill_missing alias r = (r', n)"
    and "\<forall>key. distinct (map fst (r key))"
  shows "(\<forall>k v. hget (r (pacer_cfg_key alias)) k = Some v \<longrightarrow> hget (r' (pacer_cfg_key alias)) k = Some v) \<and>
    (\<forall>k. hget (r (pacer_cfg_key alias)) k = None \<longrightarrow>
       hget (r' (pacer_cfg_key alias)) k = None \<or>
       (\<exists>pool. pool_alias_for models alias = Some pool \<and>
          hget (r' (pacer_cfg_key alias)) k = hget (r' (pacer_cfg_key pool)) k)) \<and>
    (n = 0 \<longleftrightarrow> r' (pacer_cfg_key alias) = r (pacer_cfg_key alias))"
proof (cases "r' = r \<and> n = 0")
  case True
  then show ?thesis by auto
next
  case False
  then obtain pool r1 where pool: "pool_alias_for models alias = Some pool" "pool \<noteq> alias"
    and r1: "r1 = (if r (pacer_cfg_key pool) = [] then fst (rehydrate_pool h rows pool r) else r)"
    and copy: "(r', n) = (if \<not> ok_write h then (r1, 0)
        else copy_from_pool (pacer_cfg_key alias) (r1 (pacer_cfg_key pool)) r1)"
    using assms(1) by (auto simp: seed_alias_from_pool_def Let_def split: option.splits if_splits)
  have ne: "pacer_cfg_key alias \<noteq> pacer_cfg_key pool"
    using pool(2) by (simp add: pacer_cfg_key_def tagged_def)
  obtain r2 ok where re: "rehydrate_pool h rows pool r = (r2, ok)" by fastforce
  have same: "r1 (pacer_cfg_key alias) = r (pacer_cfg_key alias)" "distinct (map fst (r1 (pacer_cfg_key pool)))"
    using rehydrate_pool_stores [OF re assms(2)] assms(2) ne
    by (auto simp: r1 re)
  show ?thesis
  proof (cases "ok_write h")
    case False
    with copy same(1) show ?thesis by auto
  next
    case True
    with copy have c: "copy_from_pool (pacer_cfg_key alias) (r1 (pacer_cfg_key pool)) r1 = (r', n)" by simp
    note f = copy_from_pool_fields [OF c same(2)]
    have "r' (pacer_cfg_key pool) = r1 (pacer_cfg_key pool)"
      using copy_from_pool_frame [OF c] ne by simp
    with f same(1) pool(1) show ?thesis by metis
  qed
qed

section \<open>Instances\<close>

definition demo_redis :: redis where
  "demo_redis = (\<lambda>_. [])(pacer_cfg_key ''p-mini'' := [(''r_qps'', SFloat (Fin 2))],
     pacer_cfg_key ''p'' := [(''r_tok'', SText ''oops!'')])"

definition demo_rows :: "seed_row list" where
  "demo_rows = persist_seeds ''p'' [(''r_tok'', JNum (NInt 900)), (''note'', JBool True)] 5 None None []"

theorem rehydrate_pool_exact_witness:
  "hash_is_numeric (fst (rehydrate_pool healthy_seeds demo_rows ''p'' demo_redis) (pacer_cfg_key ''p''))"
proof -
  obtain r' w where run: "rehydrate_pool healthy_seeds demo_rows ''p'' demo_redis = (r', w)"
    by fastforce
  have "as_number (JStr (SText ''oops!'')) = None"
    by code_simp
  then have w
    using run
    by (auto simp: rehydrate_pool_def healthy_seeds_def demo_redis_def demo_rows_def persist_seeds_def
        hash_is_numeric_def load_latest_seeds_def numeric_seeds_def drop_seeded_at_def map_filter_def
        Let_def split: if_splits)
  moreover have "\<forall>row \<in> set demo_rows. case sr_seeds row of Some s \<Rightarrow> distinct (map fst s) | None \<Rightarrow> True"
    by (simp add: demo_rows_def persist_seeds_def numeric_seeds_def drop_seeded_at_def map_filter_def)
  ultimately show ?thesis
    using rehydrate_pool_exact [OF run] run by simp
qed

theorem persist_wipe_rehydrate_witness:
  "reading (fst (rehydrate_pool healthy_seeds
      (persist_seeds ''p'' [(''r_tok'', JStr (SInt 900))] 9 None None demo_rows) ''p'' (\<lambda>_. []))
      (pacer_cfg_key ''p'')) ''r_tok'' = Some (Fin 900)"
  using persist_wipe_rehydrate [of "[(''r_tok'', SInt 900)]" demo_rows "''p''" 9 "\<lambda>_. []"
      "persist_seeds ''p'' [(''r_tok'', JStr (SInt 900))] 9 None None demo_rows" None None]
  by (simp add: demo_rows_def persist_seeds_def numeric_seeds_def drop_seeded_at_def map_filter_def
      reading_def hget_def)

theorem seed_alias_keeps_fields_witness:
  "hget (fst (seed_alias_from_pool healthy_seeds [(''p-mini'', ''openrouter/v/p'')] demo_rows True
     ''p-mini'' demo_redis) (pacer_cfg_key ''p-mini'')) ''r_qps'' = Some (SFloat (Fin 2))"
proof -
  obtain r' n where run: "seed_alias_from_pool healthy_seeds [(''p-mini'', ''openrouter/v/p'')] demo_rows
      True ''p-mini'' demo_redis = (r', n)"
    by fastforce
  have "hget (demo_redis (pacer_cfg_key ''p-mini'')) ''r_qps'' = Some (SFloat (Fin 2))"
    by (simp add: demo_redis_def hget_def pacer_cfg_key_def tagged_def)
  then show ?thesis
    using seed_alias_keeps_fields [OF run] run by (simp add: demo_redis_def)
qed

end
