(* ===== verification/Operator_Limits.thy ===== *)
theory Operator_Limits
  imports Pacer_Seeds
begin

text \<open>
  \<open>swebench_eval/orchestrator/control_plane/operator_limits.py\<close>: the limits an operator may
  move, in three scopes. The global scope is one hash (\<open>operator:limits\<close>), the run scope the
  hash of run overrides, the pacer scope the configuration hash of an alias; every write appends
  an audit row, from which the global scope is restored after a wipe.

  Labels, descriptions and units of the knobs, and the log, are left out. A Redis error of a
  writer propagates to the caller before anything else is written, and is not modelled; the
  success of the audit insert is an argument.
\<close>

section \<open>The knobs\<close>

datatype knob_kind = KInt | KFloat | KBool

record knob_spec =
  kn_field :: string
  kn_kind :: knob_kind
  kn_lo :: "real option"
  kn_hi :: "real option"
  kn_default :: "real option"

definition knob :: "string \<Rightarrow> knob_kind \<Rightarrow> real option \<Rightarrow> real option \<Rightarrow> real option \<Rightarrow> knob_spec" where
  "knob f k l h d = \<lparr>kn_field = f, kn_kind = k, kn_lo = l, kn_hi = h, kn_default = d\<rparr>"

definition RUN_KNOBS :: "knob_spec list" where
  "RUN_KNOBS =
     [knob ''max_parallel'' KInt (Some 1) (Some 5000) None,
      knob ''ceiling_override'' KInt (Some 0) (Some 5000) None,
      knob ''ramp_step_pct'' KFloat (Some 0) (Some 5) (Some 5),
      knob ''cooldown_s'' KFloat (Some 1) (Some 3600) (Some 60),
      knob ''enabled'' KBool None None (Some 1)]"

definition GLOBAL_KNOBS :: "knob_spec list" where
  "GLOBAL_KNOBS =
     [knob ''borrowed_curve_cap'' KInt (Some 1) (Some 5000) None,
      knob ''growth_cap_factor'' KFloat (Some 1) (Some 20) (Some (3 / 2)),
      knob ''utilization'' KFloat (Some (3 / 10)) (Some 1) (Some (9 / 10)),
      knob ''eval_max_workers'' KInt (Some 0) (Some 5000) None,
      knob ''eval_task_scale_in_s'' KFloat (Some 0) (Some 7200) None]"

definition PACER_KNOBS :: "knob_spec list" where
  "PACER_KNOBS =
     [knob ''r_tok'' KFloat (Some 1) None None,
      knob ''k_inflight'' KFloat (Some 1) None None,
      knob ''r_qps'' KFloat (Some (1 / 100)) None None,
      knob ''c_burst'' KFloat (Some 1) None None,
      knob ''c_req'' KFloat (Some 1) None None,
      knob ''cached_weight'' KFloat (Some (1 / 20)) (Some 1) (Some 1)]"

definition SEEDED_PACER_FIELDS :: "string set" where
  "SEEDED_PACER_FIELDS = {''r_tok'', ''k_inflight'', ''r_qps''}"

text \<open>The dictionaries \<open>_RUN_BY_FIELD\<close>, \<open>_GLOBAL_BY_FIELD\<close> and \<open>_PACER_BY_FIELD\<close>.\<close>

definition by_field :: "knob_spec list \<Rightarrow> string \<Rightarrow> knob_spec option" where
  "by_field knobs f = map_of (map (\<lambda>k. (kn_field k, k)) knobs) f"

section \<open>Validation\<close>

datatype limit_error =
  Unknown_limit string | Not_a_boolean | Not_a_number | Must_be_integer | Below_minimum
  | Above_maximum | Cannot_be_cleared

text \<open>What the API hands over: a number, a boolean, a string, or an object of another type.\<close>

datatype api_value = AInt int | AFloat pyfloat | ABool bool | AStr string | AOther bool

text \<open>\<open>float(value)\<close>; \<open>None\<close> stands for the \<open>TypeError\<close> and the \<open>ValueError\<close>.\<close>

fun api_float :: "api_value \<Rightarrow> pyfloat option" where
  "api_float (AInt n) = Some (Fin (of_int n))"
| "api_float (AFloat x) = Some x"
| "api_float (ABool b) = Some (Fin (if b then 1 else 0))"
| "api_float (AStr s) = py_float s"
| "api_float (AOther t) = None"

text \<open>\<open>bool(value)\<close>, for a value that is no string.\<close>

fun api_truth :: "api_value \<Rightarrow> bool" where
  "api_truth (AInt n) = (n \<noteq> 0)"
| "api_truth (AFloat x) = (x \<noteq> Fin 0)"
| "api_truth (ABool b) = b"
| "api_truth (AStr s) = (s \<noteq> [])"
| "api_truth (AOther t) = t"

definition coerce_bool :: "api_value \<Rightarrow> limit_error + real" where
  "coerce_bool value =
     (case value of
        AStr s \<Rightarrow>
          (let v = lower (strip s)
           in if v \<in> {''1'', ''true'', ''on'', ''yes''} then Inr 1
              else if v \<in> {''0'', ''false'', ''off'', ''no''} then Inr 0
              else Inl Not_a_boolean)
      | _ \<Rightarrow> Inr (if api_truth value then 1 else 0))"

definition coerce :: "knob_spec \<Rightarrow> api_value \<Rightarrow> limit_error + real" where
  "coerce spec value =
     (if kn_kind spec = KBool then coerce_bool value
      else case api_float value of
          Some (Fin num) \<Rightarrow>
            (if kn_kind spec = KInt \<and> num \<noteq> of_int (py_int num) then Inl Must_be_integer
             else if (case kn_lo spec of Some lo \<Rightarrow> num < lo | None \<Rightarrow> False) then Inl Below_minimum
             else if (case kn_hi spec of Some hi \<Rightarrow> hi < num | None \<Rightarrow> False) then Inl Above_maximum
             else Inr num)
        | _ \<Rightarrow> Inl Not_a_number)"

definition encode_run_value :: "knob_spec \<Rightarrow> real \<Rightarrow> stored" where
  "encode_run_value spec num =
     (case kn_kind spec of
        KBool \<Rightarrow> SInt (if num \<noteq> 0 then 1 else 0)
      | KInt \<Rightarrow> SInt (py_int num)
      | KFloat \<Rightarrow> SFloat (Fin num))"

section \<open>The stores and the audit\<close>

datatype scope = Run_scope | Global_scope | Pacer_scope

record audit_row =
  au_scope :: scope
  au_target :: string
  au_field :: string
  au_old :: "stored option"
  au_new :: "stored option"
  au_actor :: string
  au_reason :: string

definition OPERATOR_LIMITS_KEY :: string where "OPERATOR_LIMITS_KEY = ''operator:limits''"
definition AUTOSCALER_OVERRIDES_KEY :: string where
  "AUTOSCALER_OVERRIDES_KEY = ''autoscaler:run_overrides''"

record limit_store =
  ls_redis :: redis
  ls_run_expires :: "real option"
  ls_audit :: "audit_row list"
  ls_seed_rows :: "seed_row list"

definition ls_hash :: "limit_store \<Rightarrow> string \<Rightarrow> stored hash" where
  "ls_hash s key = ls_redis s key"

definition put_hash :: "string \<Rightarrow> stored hash \<Rightarrow> limit_store \<Rightarrow> limit_store" where
  "put_hash key h s = s\<lparr>ls_redis := (ls_redis s)(key := h)\<rparr>"

definition audit :: "bool \<Rightarrow> audit_row \<Rightarrow> limit_store \<Rightarrow> limit_store" where
  "audit ok row s = (if ok then s\<lparr>ls_audit := ls_audit s @ [row]\<rparr> else s)"

record edit =
  ed_field :: string
  ed_old :: "stored option"
  ed_new :: "stored option"

section \<open>The global scope\<close>

definition read_global :: "bool \<Rightarrow> limit_store \<Rightarrow> pyfloat hash" where
  "read_global ok s =
     (if \<not> ok then []
      else List.map_filter (\<lambda>(k, v).
             if by_field GLOBAL_KNOBS k \<noteq> None then map_option (Pair k) (stored_float v) else None)
           (ls_hash s OPERATOR_LIMITS_KEY))"

definition encode_global :: "knob_spec \<Rightarrow> real \<Rightarrow> stored" where
  "encode_global spec num = (if kn_kind spec = KInt then SInt (py_int num) else SFloat (Fin num))"

definition set_global ::
    "bool \<Rightarrow> string \<Rightarrow> api_value option \<Rightarrow> string \<Rightarrow> string \<Rightarrow> limit_store \<Rightarrow>
       limit_error + (limit_store \<times> edit)" where
  "set_global audit_ok f value actor reason s =
     (case by_field GLOBAL_KNOBS f of
        None \<Rightarrow> Inl (Unknown_limit f)
      | Some spec \<Rightarrow>
          (let current = ls_hash s OPERATOR_LIMITS_KEY;
               old = hget current f;
               finish = (\<lambda>new h.
                 Inr (audit audit_ok
                        \<lparr>au_scope = Global_scope, au_target = [], au_field = f, au_old = old,
                         au_new = new, au_actor = actor, au_reason = reason\<rparr>
                        (put_hash OPERATOR_LIMITS_KEY h s),
                      \<lparr>ed_field = f, ed_old = old, ed_new = new\<rparr>))
           in case value of
                None \<Rightarrow> finish None (hdel [f] current)
              | Some v \<Rightarrow>
                  (case coerce spec v of
                     Inl e \<Rightarrow> Inl e
                   | Inr num \<Rightarrow>
                       finish (Some (encode_global spec num))
                         (hset [(f, encode_global spec num)] current))))"

text \<open>
  \<open>SELECT DISTINCT ON (field) ... ORDER BY field, id DESC\<close>: per field the newest row. A row
  whose new value is null is a cleared knob.
\<close>

definition newest_values :: "audit_row list \<Rightarrow> (string \<times> stored option) list" where
  "newest_values rows =
     (let g = rev (filter (\<lambda>a. au_scope a = Global_scope) rows)
      in map (\<lambda>f. (f, the (map_of (map (\<lambda>a. (au_field a, au_new a)) g) f)))
           (remdups (map au_field g)))"

definition rehydrate_global :: "bool \<Rightarrow> limit_store \<Rightarrow> limit_store \<times> nat" where
  "rehydrate_global ok s =
     (if \<not> ok then (s, 0)
      else if ls_hash s OPERATOR_LIMITS_KEY \<noteq> [] then (s, 0)
      else
        (let mapping = List.map_filter (\<lambda>(f, v).
               if by_field GLOBAL_KNOBS f \<noteq> None then map_option (Pair f) v else None)
               (newest_values (ls_audit s))
         in if mapping = [] then (s, 0)
            else (put_hash OPERATOR_LIMITS_KEY (hset mapping (ls_hash s OPERATOR_LIMITS_KEY)) s,
                  length mapping)))"

section \<open>The run scope\<close>

definition op_mark :: "string \<Rightarrow> string" where
  "op_mark f = ''_op:'' @ f"

definition set_run ::
    "bool \<Rightarrow> real \<Rightarrow> string \<Rightarrow> api_value option \<Rightarrow> string \<Rightarrow> string \<Rightarrow> limit_store \<Rightarrow>
       limit_error + (limit_store \<times> edit)" where
  "set_run audit_ok now f value actor reason s =
     (case by_field RUN_KNOBS f of
        None \<Rightarrow> Inl (Unknown_limit f)
      | Some spec \<Rightarrow>
          (let current = ls_hash s AUTOSCALER_OVERRIDES_KEY;
               old = hget current f;
               finish = (\<lambda>new h.
                 (let s1 = put_hash AUTOSCALER_OVERRIDES_KEY h s;
                      s2 = (if h = [] then s1\<lparr>ls_run_expires := None\<rparr>
                            else if current = [] then s1\<lparr>ls_run_expires := Some (now + 604800)\<rparr>
                            else s1)
                  in Inr (audit audit_ok
                        \<lparr>au_scope = Run_scope, au_target = stored_text (hget current ''run_id''),
                         au_field = f, au_old = old, au_new = new, au_actor = actor,
                         au_reason = reason\<rparr> s2,
                      \<lparr>ed_field = f, ed_old = old, ed_new = new\<rparr>)))
           in case value of
                None \<Rightarrow> finish None (hdel [f, op_mark f] current)
              | Some v \<Rightarrow>
                  (case coerce spec v of
                     Inl e \<Rightarrow> Inl e
                   | Inr num \<Rightarrow>
                       finish (Some (encode_run_value spec num))
                         (hset [(f, encode_run_value spec num), (op_mark f, SText actor)] current))))"

section \<open>The pacer scope\<close>

record pacer_edit = edit +
  pe_alias :: string
  pe_pool :: "string option"

definition pacer_mapping :: "string \<Rightarrow> real \<Rightarrow> real \<Rightarrow> stored hash" where
  "pacer_mapping f num now =
     [(f, SFloat (Fin num)), (''seeded_at'', SFloat (Fin now))] @
     (if f \<in> SEEDED_PACER_FIELDS then [(f @ ''_seed'', SFloat (Fin num))] else [])"

definition audit_pacer ::
    "bool \<Rightarrow> string \<Rightarrow> string \<Rightarrow> stored option \<Rightarrow> stored option \<Rightarrow> string \<Rightarrow> string \<Rightarrow> limit_store \<Rightarrow>
       limit_store" where
  "audit_pacer ok target f old new actor reason s =
     audit ok \<lparr>au_scope = Pacer_scope, au_target = target, au_field = f, au_old = old, au_new = new,
       au_actor = actor, au_reason = reason\<rparr> s"

definition set_pacer ::
    "bool \<Rightarrow> bool \<Rightarrow> (string \<times> string) list \<Rightarrow> real \<Rightarrow> string \<Rightarrow> string \<Rightarrow> api_value option \<Rightarrow>
       string \<Rightarrow> string \<Rightarrow> bool \<Rightarrow> limit_store \<Rightarrow> limit_error + (limit_store \<times> pacer_edit)" where
  "set_pacer audit_ok rows_ok models now alias f value actor reason also_pool s =
     (case by_field PACER_KNOBS f of
        None \<Rightarrow> Inl (Unknown_limit f)
      | Some spec \<Rightarrow>
          (case value of
             None \<Rightarrow> Inl Cannot_be_cleared
           | Some v \<Rightarrow>
               (case coerce spec v of
                  Inl e \<Rightarrow> Inl e
                | Inr num \<Rightarrow>
                    (let mapping = pacer_mapping f num now;
                         key = pacer_cfg_key alias;
                         old = hget (ls_hash s key) f;
                         new = Some (SFloat (Fin num));
                         s1 = audit_pacer audit_ok alias f old new actor reason
                                (put_hash key (hset mapping (ls_hash s key)) s)
                     in if \<not> also_pool
                        then Inr (s1, \<lparr>ed_field = f, ed_old = old, ed_new = new, pe_alias = alias, pe_pool = None\<rparr>)
                        else
                          (let (pool, s2) =
                             (case pool_alias_for models alias of
                                None \<Rightarrow> (alias, s1)
                              | Some p \<Rightarrow>
                                  if p = alias then (alias, s1)
                                  else (p, audit_pacer audit_ok p f (hget (ls_hash s1 (pacer_cfg_key p)) f)
                                             new actor reason
                                         (put_hash (pacer_cfg_key p)
                                           (hset mapping (ls_hash s1 (pacer_cfg_key p))) s1)));
                             seeds = map (\<lambda>(k, n). (k, JNum n))
                               (numeric_seeds (map (\<lambda>(k, x). (k, JStr x)) (ls_hash s2 (pacer_cfg_key pool))));
                             s3 = (if rows_ok
                                   then s2\<lparr>ls_seed_rows := persist_seeds pool seeds now None
                                          (Some (''operator:'' @ actor)) (ls_seed_rows s2)\<rparr>
                                   else s2)
                           in Inr (s3, \<lparr>ed_field = f, ed_old = old, ed_new = new, pe_alias = alias,
                                     pe_pool = Some pool\<rparr>))))))"

section \<open>The effective view\<close>

datatype value_source = From_default | From_operator | From_run_launch

definition display_value :: "knob_spec \<Rightarrow> stored option \<Rightarrow> pyfloat option" where
  "display_value spec raw =
     (case raw of
        None \<Rightarrow> None
      | Some v \<Rightarrow>
          if kn_kind spec = KBool
          then Some (Fin (if v = SInt 0 \<or> (case v of SText t \<Rightarrow> strip t \<in> {''0'', ''false'', ''False''} | _ \<Rightarrow> False)
                          then 0 else 1))
          else stored_float v)"

definition run_source :: "stored hash \<Rightarrow> knob_spec \<Rightarrow> value_source" where
  "run_source h k =
     (if hget h (kn_field k) = None then From_default
      else if hget h (op_mark (kn_field k)) \<notin> {None, Some (SText [])} then From_operator
      else From_run_launch)"

record field_view =
  fv_field :: string
  fv_value :: "pyfloat option"
  fv_source :: value_source
  fv_set_by :: "stored option"

definition run_fields :: "limit_store \<Rightarrow> field_view list" where
  "run_fields s = map (\<lambda>k. \<lparr>fv_field = kn_field k,
       fv_value = display_value k (hget (ls_hash s AUTOSCALER_OVERRIDES_KEY) (kn_field k)),
       fv_source = run_source (ls_hash s AUTOSCALER_OVERRIDES_KEY) k,
       fv_set_by = hget (ls_hash s AUTOSCALER_OVERRIDES_KEY) (op_mark (kn_field k))\<rparr>) RUN_KNOBS"

definition global_fields :: "limit_store \<Rightarrow> field_view list" where
  "global_fields s = map (\<lambda>k. \<lparr>fv_field = kn_field k,
       fv_value = display_value k (hget (ls_hash s OPERATOR_LIMITS_KEY) (kn_field k)),
       fv_source = (if hget (ls_hash s OPERATOR_LIMITS_KEY) (kn_field k) = None then From_default
                    else From_operator),
       fv_set_by = None\<rparr>) GLOBAL_KNOBS"

definition pacer_cfg_numbers :: "stored hash \<Rightarrow> (string \<times> pyfloat option) list" where
  "pacer_cfg_numbers cfg = map (\<lambda>k. (k, Option.bind (hget cfg k) stored_float))
     [''r_tok'', ''k_inflight'', ''r_qps'', ''c_burst'', ''c_req'', ''cached_weight'', ''seeded_at'',
      ''r_tok_seed'', ''k_inflight_seed'', ''r_qps_seed'']"

section \<open>The launch\<close>

text \<open>
  \<open>_publish_autoscaler_overrides\<close> and \<open>_clear_autoscaler_overrides\<close> of \<open>run_launch.py\<close>, with
  Redis answering. The copy of the pool's constants is the code of
  \<open>seed_alias_from_pool\<close> without \<open>fill_missing\<close>.
\<close>

record launch_config =
  lc_model_alias :: string
  lc_max_parallel :: int
  lc_ramp_step_pct :: real
  lc_cooldown_s :: real
  lc_enabled :: bool
  lc_budget_override :: "real hash"

definition BUDGET_OVERRIDE_FIELDS :: "string set" where
  "BUDGET_OVERRIDE_FIELDS = {''c_burst'', ''r_tok'', ''k_inflight'', ''c_req'', ''r_qps''}"

definition launch_mapping :: "real \<Rightarrow> string \<Rightarrow> launch_config \<Rightarrow> stored hash" where
  "launch_mapping now run_id c =
     [(''run_id'', SText run_id), (''model_alias'', SText (lc_model_alias c)),
      (''max_parallel'', SInt (lc_max_parallel c)),
      (''ramp_step_pct'', SFloat (Fin (lc_ramp_step_pct c))),
      (''cooldown_s'', SFloat (Fin (lc_cooldown_s c))),
      (''enabled'', SInt (if lc_enabled c then 1 else 0)), (''set_at'', SFloat (Fin now))]"

definition publish_overrides ::
    "seed_health \<Rightarrow> (string \<times> string) list \<Rightarrow> real \<Rightarrow> string \<Rightarrow> launch_config \<Rightarrow> limit_store \<Rightarrow> limit_store"
  where
  "publish_overrides h models now run_id c s =
     (let s1 = (put_hash AUTOSCALER_OVERRIDES_KEY
                 (hset (launch_mapping now run_id c) (ls_hash s AUTOSCALER_OVERRIDES_KEY)) s)
                 \<lparr>ls_run_expires := Some (now + 604800)\<rparr>;
          s2 = s1\<lparr>ls_redis := fst (seed_alias_from_pool h models (ls_seed_rows s1) False
                 (lc_model_alias c) (ls_redis s1))\<rparr>;
          known = filter (\<lambda>(k, v). k \<in> BUDGET_OVERRIDE_FIELDS) (lc_budget_override c);
          key = pacer_cfg_key (lc_model_alias c)
      in if known = [] then s2
         else put_hash key (hset (map (\<lambda>(k, v). (k, SFloat (Fin v))) known @
                [(''seeded_at'', SFloat (Fin now))]) (ls_hash s2 key)) s2)"

definition clear_overrides :: "string \<Rightarrow> limit_store \<Rightarrow> limit_store" where
  "clear_overrides run_id s =
     (if hget (ls_hash s AUTOSCALER_OVERRIDES_KEY) ''run_id'' = Some (SText run_id)
      then (put_hash AUTOSCALER_OVERRIDES_KEY [] s)\<lparr>ls_run_expires := None\<rparr> else s)"

section \<open>Validation\<close>

lemma by_field_spec: "by_field knobs f = Some spec \<Longrightarrow> spec \<in> set knobs \<and> kn_field spec = f"
  by (auto simp: by_field_def dest: map_of_SomeD)

definition in_range :: "knob_spec \<Rightarrow> real \<Rightarrow> bool" where
  "in_range spec x \<longleftrightarrow> (\<forall>lo. kn_lo spec = Some lo \<longrightarrow> lo \<le> x) \<and> (\<forall>hi. kn_hi spec = Some hi \<longrightarrow> x \<le> hi)"

lemma py_int_integer: "x = of_int (py_int x) \<longleftrightarrow> x \<in> \<int>"
  by (metis Ints_cases Ints_of_int py_int_of_int)

lemma coerce_number:
  "kn_kind spec \<noteq> KBool \<Longrightarrow>
     coerce spec v = Inr x \<longleftrightarrow>
       api_float v = Some (Fin x) \<and> (kn_kind spec = KInt \<longrightarrow> x \<in> \<int>) \<and> in_range spec x"
  by (auto simp: coerce_def in_range_def py_int_integer [symmetric] not_less
      split: option.splits pyfloat.splits if_splits)

lemma coerce_bool_range: "coerce_bool v = Inr x \<Longrightarrow> x = 0 \<or> x = 1"
  by (auto simp: coerce_bool_def Let_def split: api_value.splits if_splits)

lemma encode_reads_back:
  assumes "coerce spec v = Inr x"
  shows "stored_float (encode_run_value spec x) = Some (Fin x)"
    "kn_kind spec \<noteq> KBool \<Longrightarrow> stored_float (encode_global spec x) = Some (Fin x)"
proof -
  consider "kn_kind spec = KBool" | "kn_kind spec = KInt" | "kn_kind spec = KFloat"
    by (cases "kn_kind spec") auto
  then show "stored_float (encode_run_value spec x) = Some (Fin x)"
  proof cases
    case 1
    then have "x = 0 \<or> x = 1" using assms coerce_bool_range by (auto simp: coerce_def)
    with 1 show ?thesis by (auto simp: encode_run_value_def)
  next
    case 2
    with assms have "x = of_int (py_int x)" by (simp add: coerce_number py_int_integer)
    with 2 show ?thesis by (simp add: encode_run_value_def)
  next
    case 3
    then show ?thesis by (simp add: encode_run_value_def)
  qed
  show "stored_float (encode_global spec x) = Some (Fin x)" if "kn_kind spec \<noteq> KBool"
  proof (cases "kn_kind spec = KInt")
    case True
    with assms have "x = of_int (py_int x)" by (simp add: coerce_number py_int_integer)
    with True show ?thesis by (simp add: encode_global_def)
  next
    case False
    then show ?thesis by (simp add: encode_global_def)
  qed
qed

text \<open>
  An edit is accepted exactly when it is a number of the knob's kind inside the knob's range
  (a switch accepts exactly the listed words and truth values), and what is stored for it reads back
  as that number.
\<close>

theorem edit_accepted_iff:
  "(kn_kind spec \<noteq> KBool \<longrightarrow>
      (coerce spec v = Inr x \<longleftrightarrow>
         api_float v = Some (Fin x) \<and> (kn_kind spec = KInt \<longrightarrow> x \<in> \<int>) \<and>
         (\<forall>lo. kn_lo spec = Some lo \<longrightarrow> lo \<le> x) \<and> (\<forall>hi. kn_hi spec = Some hi \<longrightarrow> x \<le> hi))) \<and>
   (kn_kind spec = KBool \<and> coerce spec v = Inr x \<longrightarrow> x \<in> {0, 1}) \<and>
   (coerce spec v = Inr x \<longrightarrow> stored_float (encode_run_value spec x) = Some (Fin x))"
  using coerce_number [of spec v x] coerce_bool_range [of v x] encode_reads_back(1) [of spec v x]
  by (auto simp: in_range_def coerce_def)

theorem edit_accepted_iff_witness:
  "coerce (knob ''utilization'' KFloat (Some (3 / 10)) (Some 1) None) (AFloat (Fin (1 / 2))) = Inr (1 / 2) \<and>
   coerce (knob ''max_parallel'' KInt (Some 1) (Some 5000) None) (AInt 0) \<noteq> Inr 0 \<and>
   coerce (knob ''enabled'' KBool None None None) (AStr '' On '') = Inr 1"
proof -
  have "lower (strip '' On '') = ''on''" by code_simp
  then have "coerce (knob ''enabled'' KBool None None None) (AStr '' On '') = Inr 1"
    by (simp add: coerce_def coerce_bool_def knob_def)
  moreover have "coerce (knob ''utilization'' KFloat (Some (3 / 10)) (Some 1) None) (AFloat (Fin (1 / 2))) = Inr (1 / 2)"
    using edit_accepted_iff [of "knob ''utilization'' KFloat (Some (3 / 10)) (Some 1) None"
        "AFloat (Fin (1 / 2))" "1 / 2"] by (simp add: knob_def)
  moreover have "coerce (knob ''max_parallel'' KInt (Some 1) (Some 5000) None) (AInt 0) \<noteq> Inr 0"
    using edit_accepted_iff [of "knob ''max_parallel'' KInt (Some 1) (Some 5000) None" "AInt 0" 0]
    by (simp add: knob_def)
  ultimately show ?thesis by simp
qed

section \<open>The global scope over any sequence of edits\<close>

lemma newest_get:
  "map_of (newest_values rows) f =
     map_of (map (\<lambda>a. (au_field a, au_new a)) (rev (filter (\<lambda>a. au_scope a = Global_scope) rows))) f"
proof -
  define g where "g = rev (filter (\<lambda>a. au_scope a = Global_scope) rows)"
  let ?m = "map_of (map (\<lambda>a. (au_field a, au_new a)) g)"
  have "map_of (map (\<lambda>f. (f, the (?m f))) fs) f = (if f \<in> set fs then Some (the (?m f)) else None)" for fs
    by (induction fs) auto
  moreover have "f \<in> set (map au_field g) \<longleftrightarrow> ?m f \<noteq> None"
    by (auto simp: map_of_eq_None_iff image_iff)
  ultimately show ?thesis
    by (auto simp: newest_values_def Let_def g_def [symmetric] simp del: set_map)
qed

lemma newest_append:
  "map_of (newest_values (rows @ [a])) f =
     (if au_scope a = Global_scope \<and> au_field a = f then Some (au_new a)
      else map_of (newest_values rows) f)"
  by (simp add: newest_get)

text \<open>The audit's account of a global field agrees with the hash.\<close>

definition audit_agrees :: "limit_store \<Rightarrow> bool" where
  "audit_agrees s \<longleftrightarrow>
     (\<forall>f. hget (ls_hash s OPERATOR_LIMITS_KEY) f =
        (case map_of (newest_values (ls_audit s)) f of Some (Some v) \<Rightarrow> Some v | _ \<Rightarrow> None)) \<and>
     (\<forall>f. map_of (newest_values (ls_audit s)) f \<noteq> None \<longrightarrow> by_field GLOBAL_KNOBS f \<noteq> None)"

lemma store_simps' [store_simps]:
  "ls_hash (put_hash k h s) k' = (if k' = k then h else ls_hash s k')"
  "ls_hash (audit ok row s) k = ls_hash s k"
  "ls_audit (put_hash k h s) = ls_audit s"
  "ls_audit (audit True row s) = ls_audit s @ [row]"
  by (simp_all add: ls_hash_def put_hash_def audit_def)

lemma key_neq [simp]:
  "pacer_cfg_key a \<noteq> OPERATOR_LIMITS_KEY" "OPERATOR_LIMITS_KEY \<noteq> pacer_cfg_key a"
  "AUTOSCALER_OVERRIDES_KEY \<noteq> OPERATOR_LIMITS_KEY" "OPERATOR_LIMITS_KEY \<noteq> AUTOSCALER_OVERRIDES_KEY"
  "pacer_cfg_key a \<noteq> AUTOSCALER_OVERRIDES_KEY" "AUTOSCALER_OVERRIDES_KEY \<noteq> pacer_cfg_key a"
  by (simp_all add: pacer_cfg_key_def tagged_def OPERATOR_LIMITS_KEY_def AUTOSCALER_OVERRIDES_KEY_def)

datatype op_edit =
    Op_global string "api_value option" string string
  | Op_run real string "api_value option" string string
  | Op_pacer bool "(string \<times> string) list" real string string "api_value option" string string bool

text \<open>A refused edit changes nothing; every accepted edit's audit row lands.\<close>

fun apply_edit :: "op_edit \<Rightarrow> limit_store \<Rightarrow> limit_store" where
  "apply_edit (Op_global f v actor why) s =
     (case set_global True f v actor why s of Inl _ \<Rightarrow> s | Inr (s', _) \<Rightarrow> s')"
| "apply_edit (Op_run now f v actor why) s =
     (case set_run True now f v actor why s of Inl _ \<Rightarrow> s | Inr (s', _) \<Rightarrow> s')"
| "apply_edit (Op_pacer rows_ok models now alias f v actor why also_pool) s =
     (case set_pacer True rows_ok models now alias f v actor why also_pool s of
        Inl _ \<Rightarrow> s | Inr (s', _) \<Rightarrow> s')"

lemma set_global_cases:
  assumes "set_global ok f v actor why s = Inr (s', e)"
  obtains spec new where "by_field GLOBAL_KNOBS f = Some spec"
    "new = (case v of None \<Rightarrow> None | Some w \<Rightarrow> (case coerce spec w of Inr x \<Rightarrow> Some (encode_global spec x) | Inl _ \<Rightarrow> None))"
    "\<forall>w. v = Some w \<longrightarrow> (\<exists>x. coerce spec w = Inr x)"
    "s' = audit ok \<lparr>au_scope = Global_scope, au_target = [], au_field = f,
             au_old = hget (ls_hash s OPERATOR_LIMITS_KEY) f, au_new = new, au_actor = actor, au_reason = why\<rparr>
            (put_hash OPERATOR_LIMITS_KEY
              (case new of None \<Rightarrow> hdel [f] (ls_hash s OPERATOR_LIMITS_KEY)
                         | Some x \<Rightarrow> hset [(f, x)] (ls_hash s OPERATOR_LIMITS_KEY)) s)"
    "e = \<lparr>ed_field = f, ed_old = hget (ls_hash s OPERATOR_LIMITS_KEY) f, ed_new = new\<rparr>"
  using assms that
  by (auto simp: set_global_def Let_def split: option.splits sum.splits)

lemma set_run_frame:
  assumes "set_run ok now f v actor why s = Inr (s', e)"
  shows "key \<noteq> AUTOSCALER_OVERRIDES_KEY \<Longrightarrow> ls_hash s' key = ls_hash s key"
    "\<exists>rows. ls_audit s' = ls_audit s @ rows \<and> (\<forall>a \<in> set rows. au_scope a = Run_scope)"
  using assms
  by (auto simp: set_run_def Let_def ls_hash_def put_hash_def audit_def
      split: option.splits sum.splits if_splits)

lemma set_pacer_frame:
  assumes "set_pacer ok rows_ok models now alias f v actor why also s = Inr (s', e)"
  shows "(\<forall>a. key \<noteq> pacer_cfg_key a) \<Longrightarrow> ls_hash s' key = ls_hash s key"
    "\<exists>rows. ls_audit s' = ls_audit s @ rows \<and> (\<forall>a \<in> set rows. au_scope a = Pacer_scope)"
  using assms
  by (auto simp: set_pacer_def Let_def ls_hash_def put_hash_def audit_pacer_def audit_def
      split: option.splits sum.splits if_splits prod.splits)

lemma audit_agrees_frame:
  assumes "audit_agrees s" "ls_hash s' OPERATOR_LIMITS_KEY = ls_hash s OPERATOR_LIMITS_KEY"
    and "ls_audit s' = ls_audit s @ rows" "\<forall>a \<in> set rows. au_scope a \<noteq> Global_scope"
  shows "audit_agrees s'"
proof -
  have "filter (\<lambda>a. au_scope a = Global_scope) rows = []"
    using assms(4) by (simp add: filter_empty_conv)
  then have "map_of (newest_values (ls_audit s')) f = map_of (newest_values (ls_audit s)) f" for f
    by (simp add: newest_get assms(3))
  with assms(1,2) show ?thesis by (simp add: audit_agrees_def)
qed

lemma audit_agrees_edit:
  assumes "audit_agrees s"
  shows "audit_agrees (apply_edit e s)"
proof (cases e)
  case (Op_global f v actor why)
  show ?thesis
  proof (cases "set_global True f v actor why s")
    case (Inr p)
    then obtain s' ed where r: "set_global True f v actor why s = Inr (s', ed)" by (cases p) auto
    from r show ?thesis
    proof (rule set_global_cases)
      fix spec new
      assume spec: "by_field GLOBAL_KNOBS f = Some spec"
        and s': "s' = audit True \<lparr>au_scope = Global_scope, au_target = [], au_field = f,
             au_old = hget (ls_hash s OPERATOR_LIMITS_KEY) f, au_new = new, au_actor = actor, au_reason = why\<rparr>
            (put_hash OPERATOR_LIMITS_KEY
              (case new of None \<Rightarrow> hdel [f] (ls_hash s OPERATOR_LIMITS_KEY)
                         | Some x \<Rightarrow> hset [(f, x)] (ls_hash s OPERATOR_LIMITS_KEY)) s)"
      have "audit_agrees s'"
        using assms spec
        by (auto simp: s' audit_agrees_def store_simps newest_append split: option.splits)
      then show ?thesis by (simp add: Op_global r)
    qed
  qed (use assms Op_global in simp)
next
  case (Op_run now f v actor why)
  show ?thesis
  proof (cases "set_run True now f v actor why s")
    case (Inr p)
    then obtain s' ed where r: "set_run True now f v actor why s = Inr (s', ed)" by (cases p) auto
    with set_run_frame [OF r] have "audit_agrees s'"
      using audit_agrees_frame [OF assms] by force
    then show ?thesis by (simp add: Op_run r)
  qed (use assms Op_run in simp)
next
  case (Op_pacer rows_ok models now al f v actor why pl)
  show ?thesis
  proof (cases "set_pacer True rows_ok models now al f v actor why pl s")
    case (Inr p)
    then obtain s' ed where r: "set_pacer True rows_ok models now al f v actor why pl s = Inr (s', ed)"
      by (cases p) auto
    with set_pacer_frame [OF r] have "audit_agrees s'"
      using audit_agrees_frame [OF assms] by force
    then show ?thesis by (simp add: Op_pacer r)
  qed (use assms Op_pacer in simp)
qed

definition wiped :: "limit_store \<Rightarrow> limit_store" where
  "wiped s = s\<lparr>ls_redis := (\<lambda>_. []), ls_run_expires := None\<rparr>"

definition fresh_store :: limit_store where
  "fresh_store = \<lparr>ls_redis = (\<lambda>_. []), ls_run_expires = None, ls_audit = [], ls_seed_rows = []\<rparr>"

lemma newest_distinct: "distinct (map fst (newest_values rows))"
  by (simp add: newest_values_def Let_def comp_def)

lemma rehydrate_agrees:
  assumes "audit_agrees s"
  shows "hget (ls_hash (fst (rehydrate_global True (wiped s))) OPERATOR_LIMITS_KEY) f =
    hget (ls_hash s OPERATOR_LIMITS_KEY) f"
proof -
  define m where "m = List.map_filter (\<lambda>(f, v).
       if by_field GLOBAL_KNOBS f \<noteq> None then map_option (Pair f) v else None) (newest_values (ls_audit s))"
  have m: "map_of (List.map_filter (\<lambda>(f, v).
       if by_field GLOBAL_KNOBS f \<noteq> None then map_option (Pair f) v else None) xs) f =
     (if by_field GLOBAL_KNOBS f \<noteq> None then (case map_of xs f of Some (Some v) \<Rightarrow> Some v | _ \<Rightarrow> None) else None)"
    "distinct (map fst (List.map_filter (\<lambda>(f, v).
       if by_field GLOBAL_KNOBS f \<noteq> None then map_option (Pair f) v else None) xs))"
    if "distinct (map fst xs)" for xs :: "(string \<times> stored option) list"
  proof -
    let ?g = "\<lambda>xs. List.map_filter (\<lambda>(f, v).
       if by_field GLOBAL_KNOBS f \<noteq> None then map_option (Pair f) v else None) xs"
    have keys: "fst ` set (?g xs) \<subseteq> fst ` set xs" for xs :: "(string \<times> stored option) list"
      by (force simp: map_filter_def split: if_splits)
    have none: "k \<notin> fst ` set xs \<Longrightarrow> map_of (?g xs) k = None" for k and xs :: "(string \<times> stored option) list"
      using keys [of xs] by (auto simp: map_of_eq_None_iff)
    show "map_of (?g xs) f = (if by_field GLOBAL_KNOBS f \<noteq> None then
        (case map_of xs f of Some (Some v) \<Rightarrow> Some v | _ \<Rightarrow> None) else None)"
      using that
    proof (induction xs)
      case (Cons p xs)
      obtain k v where p: "p = (k, v)" by (cases p)
      have "map_of (?g xs) k = None" using Cons.prems by (intro none) (simp add: p)
      with Cons show ?case by (cases v) (auto simp: p map_filter_def)
    qed (simp add: map_filter_def)
    show "distinct (map fst (?g xs))"
      using that
    proof (induction xs)
      case (Cons p xs)
      obtain k v where p: "p = (k, v)" by (cases p)
      have "k \<notin> fst ` set xs" using Cons.prems by (simp add: p)
      with keys [of xs] have "k \<notin> fst ` set (?g xs)" by blast
      with Cons show ?case by (cases v) (auto simp: p map_filter_simps)
    qed (simp add: map_filter_simps)
  qed
  note mm = m [OF newest_distinct, of "ls_audit s", folded m_def]
  have "rehydrate_global True (wiped s) = (if m = [] then (wiped s, 0)
      else (put_hash OPERATOR_LIMITS_KEY (hset m []) (wiped s), length m))"
    unfolding rehydrate_global_def Let_def m_def by (simp add: wiped_def ls_hash_def)
  then have "ls_hash (fst (rehydrate_global True (wiped s))) OPERATOR_LIMITS_KEY = hset m []"
    by (cases "m = []") (simp_all add: wiped_def ls_hash_def put_hash_def hset_def)
  then show ?thesis
    using assms by (auto simp: hget_hset map_of_rev_distinct [OF mm(2)] mm(1) audit_agrees_def
        split: option.splits)
qed

text \<open>
  C29: Aurora is the truth for the global limits: after any sequence of edits in the three scopes
  whose audit rows landed, a wipe of Valkey followed by a rehydration gives back every global
  field exactly as it was, the cleared ones cleared.
\<close>

theorem rehydrate_restores_edits:
  "hget (ls_hash (fst (rehydrate_global True (wiped (fold apply_edit edits fresh_store)))) OPERATOR_LIMITS_KEY) f =
   hget (ls_hash (fold apply_edit edits fresh_store) OPERATOR_LIMITS_KEY) f"
proof (rule rehydrate_agrees)
  have "audit_agrees fresh_store"
    by (simp add: audit_agrees_def fresh_store_def ls_hash_def newest_get)
  then show "audit_agrees (fold apply_edit edits fresh_store)"
    by (induction edits rule: rev_induct) (auto intro: audit_agrees_edit)
qed

section \<open>The run scope and its view\<close>

lemma op_mark_inj [simp]: "op_mark f = op_mark g \<longleftrightarrow> f = g"
  by (simp add: op_mark_def)

lemma run_field_not_mark': "k \<in> set RUN_KNOBS \<Longrightarrow> op_mark g \<noteq> kn_field k"
  by (auto simp: op_mark_def RUN_KNOBS_def knob_def)

lemma run_field_not_mark:
  "by_field RUN_KNOBS f = Some spec \<Longrightarrow> op_mark g \<noteq> f" "k \<in> set RUN_KNOBS \<Longrightarrow> op_mark g \<noteq> kn_field k"
  by (metis by_field_spec run_field_not_mark') (rule run_field_not_mark')

lemma run_field_unique: "k \<in> set RUN_KNOBS \<Longrightarrow> by_field RUN_KNOBS (kn_field k) = Some k"
proof -
  have "distinct (map fst (map (\<lambda>k. (kn_field k, k)) RUN_KNOBS))"
    by (simp add: RUN_KNOBS_def knob_def)
  then show "k \<in> set RUN_KNOBS \<Longrightarrow> by_field RUN_KNOBS (kn_field k) = Some k"
    by (auto simp: by_field_def)
qed

lemma display_run_value:
  assumes "coerce k w = Inr x"
  shows "display_value k (Some (encode_run_value k x)) = Some (Fin x)"
proof (cases "kn_kind k = KBool")
  case True
  then have "x = 0 \<or> x = 1" using assms coerce_bool_range by (auto simp: coerce_def)
  with True show ?thesis by (auto simp: display_value_def encode_run_value_def)
next
  case False
  then show ?thesis using encode_reads_back(1) [OF assms] by (simp add: display_value_def)
qed

lemma set_run_hash:
  assumes "set_run ok now f v actor why s = Inr (s', e)"
  shows "\<exists>spec. by_field RUN_KNOBS f = Some spec \<and>
    (case v of
       None \<Rightarrow> ls_hash s' AUTOSCALER_OVERRIDES_KEY = hdel [f, op_mark f] (ls_hash s AUTOSCALER_OVERRIDES_KEY)
     | Some w \<Rightarrow> (\<exists>x. coerce spec w = Inr x \<and> ls_hash s' AUTOSCALER_OVERRIDES_KEY =
          hset [(f, encode_run_value spec x), (op_mark f, SText actor)] (ls_hash s AUTOSCALER_OVERRIDES_KEY)))"
  using assms
  by (auto simp: set_run_def Let_def ls_hash_def put_hash_def audit_def split: option.splits sum.splits if_splits)

text \<open>
  The effective view is truthful about a run edit: an edited knob shows the operator's number
  as the operator's, a cleared one shows no value and the default, and no other knob changes.
\<close>

theorem set_run_view:
  assumes "set_run ok now f v actor why s = Inr (s', e)" "actor \<noteq> []" "k \<in> set RUN_KNOBS"
    and "h = ls_hash s AUTOSCALER_OVERRIDES_KEY" "h' = ls_hash s' AUTOSCALER_OVERRIDES_KEY"
  shows "if kn_field k = f
     then (case v of
             None \<Rightarrow> run_source h' k = From_default \<and> display_value k (hget h' f) = None
           | Some w \<Rightarrow> run_source h' k = From_operator \<and>
               (\<exists>x. coerce k w = Inr x \<and> display_value k (hget h' f) = Some (Fin x)))
     else run_source h' k = run_source h k \<and> hget h' (kn_field k) = hget h (kn_field k)"
proof -
  obtain spec where spec: "by_field RUN_KNOBS f = Some spec"
    and hash: "case v of None \<Rightarrow> h' = hdel [f, op_mark f] h
     | Some w \<Rightarrow> (\<exists>x. coerce spec w = Inr x \<and>
          h' = hset [(f, encode_run_value spec x), (op_mark f, SText actor)] h)"
    using set_run_hash [OF assms(1)] assms(4,5) by auto
  have ne: "op_mark g \<noteq> f" "op_mark g \<noteq> kn_field k" for g
    using run_field_not_mark(1) [OF spec] run_field_not_mark(2) [OF assms(3)] by auto
  show ?thesis
  proof (cases "kn_field k = f")
    case True
    with run_field_unique [OF assms(3)] spec have "spec = k" by simp
    with True hash assms(2) show ?thesis
      by (cases v) (auto simp: run_source_def hget_hdel hget_hset ne ne [symmetric] display_run_value
          display_value_def [of k None])
  next
    case False
    with hash show ?thesis
      by (cases v) (auto simp: run_source_def hget_hdel hget_hset ne ne [symmetric])
  qed
qed

text \<open>
  A launch writes its overrides over the hash and leaves the operator's marks and the
  operator's ceiling of the run before it: the view then shows the launch's own task cap as the
  operator's, and the new run inherits the old ceiling.
\<close>

theorem launch_inherits_operator_marks:
  assumes "set_run ok1 t1 ''max_parallel'' (Some (AInt 7)) actor why s = Inr (s1, e1)"
    and "set_run ok2 t2 ''ceiling_override'' (Some (AInt 9)) actor why s1 = Inr (s2, e2)"
    and "actor \<noteq> []"
    and "h = ls_hash (publish_overrides sh models t3 run_id c s2) AUTOSCALER_OVERRIDES_KEY"
  shows "hget h ''run_id'' = Some (SText run_id) \<and> hget h ''max_parallel'' = Some (SInt (lc_max_parallel c)) \<and>
    run_source h (knob ''max_parallel'' KInt (Some 1) (Some 5000) None) = From_operator \<and>
    hget h ''ceiling_override'' = Some (SInt 9)"
proof -
  let ?h = "\<lambda>s. ls_hash s AUTOSCALER_OVERRIDES_KEY"
  obtain spec1 x1 where h1: "?h s1 = hset [(''max_parallel'', encode_run_value spec1 x1), (op_mark ''max_parallel'', SText actor)] (?h s)"
    using set_run_hash [OF assms(1)] by auto
  obtain spec2 x2 where spec2: "by_field RUN_KNOBS ''ceiling_override'' = Some spec2" "coerce spec2 (AInt 9) = Inr x2"
    and h2: "?h s2 = hset [(''ceiling_override'', encode_run_value spec2 x2), (op_mark ''ceiling_override'', SText actor)] (?h s1)"
    using set_run_hash [OF assms(2)] by auto
  have s2: "spec2 = knob ''ceiling_override'' KInt (Some 0) (Some 5000) None"
    using spec2(1) by (simp add: by_field_def RUN_KNOBS_def knob_def)
  then have e: "encode_run_value spec2 x2 = SInt 9"
    using spec2(2) py_int_of_int [of 9] by (auto simp: coerce_number knob_def encode_run_value_def)
  have key: "fst (seed_alias_from_pool sh models rows fm al r) AUTOSCALER_OVERRIDES_KEY = r AUTOSCALER_OVERRIDES_KEY"
    for rows fm al r
    by (auto simp: seed_alias_from_pool_def rehydrate_pool_def copy_from_pool_def Let_def
        split: option.split if_split)
  have h: "h = hset (launch_mapping t3 run_id c) (?h s2)"
    by (simp add: assms(4) publish_overrides_def Let_def ls_hash_def put_hash_def key)
  show ?thesis
    using assms(3)
    by (simp add: h h2 h1 launch_mapping_def hget_hset e run_source_def op_mark_def knob_def)
qed

section \<open>Instances\<close>

theorem set_run_view_witness:
  "case set_run True 0 ''cooldown_s'' (Some (AFloat (Fin 90))) ''op'' ''why'' fresh_store of
     Inr (s', e) \<Rightarrow> run_source (ls_hash s' AUTOSCALER_OVERRIDES_KEY)
        (knob ''cooldown_s'' KFloat (Some 1) (Some 3600) (Some 60)) = From_operator
   | Inl e \<Rightarrow> False"
proof -
  let ?k = "knob ''cooldown_s'' KFloat (Some 1) (Some 3600) (Some 60)"
  have k: "?k \<in> set RUN_KNOBS" by (simp add: RUN_KNOBS_def)
  have "kn_field ?k = ''cooldown_s''" by (simp add: knob_def)
  with run_field_unique [OF k] have bf: "by_field RUN_KNOBS ''cooldown_s'' = Some ?k" by simp
  have "coerce ?k (AFloat (Fin 90)) = Inr 90" by (simp add: coerce_def knob_def)
  with bf obtain s' e where r: "set_run True 0 ''cooldown_s'' (Some (AFloat (Fin 90))) ''op'' ''why'' fresh_store = Inr (s', e)"
    by (auto simp: set_run_def Let_def)
  from set_run_view [OF r _ k refl refl] \<open>kn_field ?k = _\<close> r show ?thesis by simp
qed

lemma demo_edits:
  "\<exists>s1 e1 s2 e2. set_run True 0 ''max_parallel'' (Some (AInt 7)) ''op'' ''why'' fresh_store = Inr (s1, e1) \<and>
     set_run True 1 ''ceiling_override'' (Some (AInt 9)) ''op'' ''why'' s1 = Inr (s2, e2)"
proof -
  let ?k1 = "knob ''max_parallel'' KInt (Some 1) (Some 5000) None"
  let ?k2 = "knob ''ceiling_override'' KInt (Some 0) (Some 5000) None"
  have "by_field RUN_KNOBS (kn_field ?k1) = Some ?k1" "by_field RUN_KNOBS (kn_field ?k2) = Some ?k2"
    by (rule run_field_unique; simp add: RUN_KNOBS_def)+
  then have "by_field RUN_KNOBS ''max_parallel'' = Some ?k1" "by_field RUN_KNOBS ''ceiling_override'' = Some ?k2"
    by (simp_all add: knob_def)
  moreover have "coerce ?k1 (AInt 7) = Inr 7" "coerce ?k2 (AInt 9) = Inr 9"
    using py_int_of_int [of 7] py_int_of_int [of 9] by (simp_all add: coerce_def knob_def)
  ultimately show ?thesis by (auto simp: set_run_def Let_def)
qed

theorem launch_inherits_operator_marks_witness:
  "\<exists>s. hget (ls_hash (publish_overrides healthy_seeds [] 2 ''run2''
        \<lparr>lc_model_alias = ''m'', lc_max_parallel = 150, lc_ramp_step_pct = 5, lc_cooldown_s = 60,
         lc_enabled = True, lc_budget_override = []\<rparr> s) AUTOSCALER_OVERRIDES_KEY) ''ceiling_override'' = Some (SInt 9)"
  using demo_edits launch_inherits_operator_marks [where actor = "''op''", OF _ _ _ refl, of True 0 "''why''"]
  by (metis list.distinct(1))

end
