(* ===== verification/Eval_Autoscaler.thy ===== *)
theory Eval_Autoscaler
  imports Operator_Limits
begin

text \<open>
  \<open>swebench_eval/orchestrator/control_plane/eval_autoscaler.py\<close>: the eval fleet's scaler. One
  tick reads the queue, the feed-forward signal, the service, the hosts and the host group, aims
  at a number of tasks and hosts, damps a scale-in, and in live mode actuates through AWS calls.

  What a tick reads is a record (\<open>tick_reads\<close>); a read that raises is \<open>None\<close> and ends the tick
  with no decision. AWS itself is not under the repository: which of the calls a tick issues fail
  is an argument (\<open>fails\<close>), and the result lists the calls that succeeded, in order. Threads, clients
  and logging are left out; the environment variables are taken as parsed numbers.
\<close>

section \<open>Configuration\<close>

datatype scaler_mode = Off_mode | Observe_mode | Live_mode

record scaler_env =
  env_mode :: "scaler_mode option"
  env_max_workers :: "int option"
  env_min_workers :: "int option"
  env_beta :: "real option"
  env_tasks_per_host :: "int option"
  env_asg_name :: string
  env_task_scale_in_s :: "real option"

definition SCALE_IN_CONSECUTIVE_TICKS :: int where "SCALE_IN_CONSECUTIVE_TICKS = 2"
definition OBSERVE_DEFAULT_MAX_WORKERS :: int where "OBSERVE_DEFAULT_MAX_WORKERS = 4"
definition STALE_PROGRESS_S :: real where "STALE_PROGRESS_S = 120"
definition TASK_SCALE_IN_DEFAULT_S :: real where "TASK_SCALE_IN_DEFAULT_S = 300"

record scaler =
  sc_mode :: scaler_mode
  sc_max_workers :: int
  sc_min_workers :: int
  sc_beta :: real
  sc_tasks_per_host :: int
  sc_asg_name :: string
  sc_tick_interval_s :: real
  sc_task_scale_in_ticks :: int

datatype scaler_error = Max_workers_required | Asg_name_required

definition scale_in_ticks_for :: "real \<Rightarrow> real \<Rightarrow> int" where
  "scale_in_ticks_for delay_s interval =
     max SCALE_IN_CONSECUTIVE_TICKS \<lceil>delay_s / interval\<rceil>"

definition construct ::
    "scaler_mode option \<Rightarrow> real \<Rightarrow> scaler_env \<Rightarrow> scaler_error + scaler" where
  "construct mode_arg tick_interval_s env =
     (let mode = (case mode_arg of Some m \<Rightarrow> m
                  | None \<Rightarrow> (case env_mode env of Some m \<Rightarrow> m | None \<Rightarrow> Observe_mode));
          delay = (case env_task_scale_in_s env of Some d \<Rightarrow> d | None \<Rightarrow> TASK_SCALE_IN_DEFAULT_S)
      in if mode = Live_mode \<and> env_max_workers env = None then Inl Max_workers_required
         else if mode = Live_mode \<and> env_asg_name env = [] then Inl Asg_name_required
         else Inr
           \<lparr>sc_mode = mode,
            sc_max_workers = (case env_max_workers env of Some n \<Rightarrow> n | None \<Rightarrow> OBSERVE_DEFAULT_MAX_WORKERS),
            sc_min_workers = (case env_min_workers env of Some n \<Rightarrow> n | None \<Rightarrow> 0),
            sc_beta = (case env_beta env of Some b \<Rightarrow> b | None \<Rightarrow> 35 / 100),
            sc_tasks_per_host = max 1 (case env_tasks_per_host env of Some n \<Rightarrow> n | None \<Rightarrow> 1),
            sc_asg_name = env_asg_name env,
            sc_tick_interval_s = tick_interval_s,
            sc_task_scale_in_ticks =
              (if 0 < tick_interval_s then scale_in_ticks_for delay tick_interval_s
               else SCALE_IN_CONSECUTIVE_TICKS)\<rparr>)"

section \<open>What a tick reads\<close>

text \<open>
  A progress key: no value, a value that does not parse, or its \<open>updated_at\<close> (0 when absent).
\<close>

datatype progress = No_value | Malformed | Updated real

definition live_harness_count :: "real \<Rightarrow> progress list \<Rightarrow> int" where
  "live_harness_count now ps =
     int (length (filter (\<lambda>p. case p of Updated u \<Rightarrow> now - u \<le> STALE_PROGRESS_S | _ \<Rightarrow> False) ps))"

text \<open>The first described service or group; an empty answer reads as zeros.\<close>

definition first_or_zeros :: "(int \<times> int) list \<Rightarrow> int \<times> int" where
  "first_or_zeros xs = (case xs of [] \<Rightarrow> (0, 0) | x # _ \<Rightarrow> x)"

record host =
  ho_id :: "string option"
  ho_running :: int

text \<open>The pages of \<open>ListContainerInstances\<close>, described and restricted to \<open>ACTIVE\<close>.\<close>

definition hosts_of :: "(string \<times> host) list list \<Rightarrow> host list" where
  "hosts_of pages = map snd (filter (\<lambda>(status, h). status = ''ACTIVE'') (concat pages))"

record tick_reads =
  tr_limits :: "pyfloat hash"
  tr_queue :: "(int \<times> int) option"
  tr_progress :: "progress list option"
  tr_service :: "(int \<times> int) list option"
  tr_hosts :: "(string \<times> host) list list option"
  tr_asg :: "(int \<times> int) list option"
  tr_paused :: bool
  tr_now :: real

definition operator_overrides :: "scaler \<Rightarrow> pyfloat hash \<Rightarrow> (int \<times> int) option" where
  "operator_overrides c limits =
     (let workers = (case hget limits ''eval_max_workers'' of
            None \<Rightarrow> Some (sc_max_workers c)
          | Some x \<Rightarrow> map_option (max (sc_min_workers c)) (pyfloat_int x));
          ticks = (case hget limits ''eval_task_scale_in_s'' of
            None \<Rightarrow> Some (sc_task_scale_in_ticks c)
          | Some x \<Rightarrow>
              if sc_tick_interval_s c \<le> 0 then Some (sc_task_scale_in_ticks c)
              else (case x of Fin d \<Rightarrow> Some (scale_in_ticks_for d (sc_tick_interval_s c)) | _ \<Rightarrow> None))
      in case (workers, ticks) of (Some w, Some t) \<Rightarrow> Some (w, t) | _ \<Rightarrow> None)"

section \<open>The aim\<close>

datatype binding =
  Unbound | Paused | Queue_empty | At_max_workers | Asg_at_max | No_hosts | Scale_in_damped
  | Scale_in_blocked_busy

record observed =
  ob_max_workers :: int
  ob_task_ticks :: int
  ob_visible :: int
  ob_not_visible :: int
  ob_feedforward :: real
  ob_running :: int
  ob_current :: int
  ob_hosts :: "host list"
  ob_asg_desired :: int
  ob_asg_max :: int
  ob_paused :: bool

definition observe :: "scaler \<Rightarrow> tick_reads \<Rightarrow> observed option" where
  "observe c r =
     (case (operator_overrides c (tr_limits r), tr_queue r, tr_progress r, tr_service r, tr_hosts r) of
        (Some (workers, ticks), Some (visible, not_visible), Some ps, Some services, Some pages) \<Rightarrow>
          (let hosts = hosts_of pages; n = int (length hosts)
           in case (if sc_asg_name c = [] then Some (n, n) else map_option first_or_zeros (tr_asg r)) of
                None \<Rightarrow> None
              | Some (desired, mx) \<Rightarrow>
                  Some \<lparr>ob_max_workers = workers, ob_task_ticks = ticks, ob_visible = visible,
                    ob_not_visible = not_visible,
                    ob_feedforward = sc_beta c * of_int (live_harness_count (tr_now r) ps),
                    ob_running = fst (first_or_zeros services),
                    ob_current = snd (first_or_zeros services), ob_hosts = hosts,
                    ob_asg_desired = desired, ob_asg_max = mx, ob_paused = tr_paused r\<rparr>)
      | _ \<Rightarrow> None)"

definition ceil_div :: "int \<Rightarrow> int \<Rightarrow> int" where
  "ceil_div a b = \<lceil>real_of_int a / real_of_int b\<rceil>"

definition demand :: "observed \<Rightarrow> real" where
  "demand ob = of_int (ob_visible ob + ob_not_visible ob) + ob_feedforward ob"

definition base_tasks :: "scaler \<Rightarrow> observed \<Rightarrow> int" where
  "base_tasks c ob = max (sc_min_workers c) (min (ob_max_workers ob) \<lceil>demand ob\<rceil>)"

record targets =
  tg_tasks :: int
  tg_hosts :: int
  tg_binding :: binding

definition aim_paused :: "scaler \<Rightarrow> observed \<Rightarrow> targets" where
  "aim_paused c ob =
     (let tasks = base_tasks c ob; hosts = ceil_div tasks (sc_tasks_per_host c)
      in if ob_paused ob
         then \<lparr>tg_tasks = min tasks (ob_current ob), tg_hosts = min hosts (ob_asg_desired ob),
               tg_binding = Paused\<rparr>
         else \<lparr>tg_tasks = tasks, tg_hosts = hosts,
               tg_binding = (if demand ob = 0 then Queue_empty
                             else if ob_max_workers ob < \<lceil>demand ob\<rceil> then At_max_workers else Unbound)\<rparr>)"

definition aim :: "scaler \<Rightarrow> observed \<Rightarrow> targets" where
  "aim c ob =
     (let t = aim_paused c ob;
          t' = (if ob_asg_max ob < tg_hosts t
                then \<lparr>tg_tasks = min (tg_tasks t) (ob_asg_max ob * sc_tasks_per_host c),
                      tg_hosts = ob_asg_max ob, tg_binding = Asg_at_max\<rparr>
                else t)
      in if ob_running ob < tg_tasks t' \<and> ob_hosts ob = [] \<and> 0 < ob_asg_desired ob
         then t'\<lparr>tg_binding := No_hosts\<rparr> else t')"

section \<open>The damping\<close>

definition tasks_down :: "observed \<Rightarrow> targets \<Rightarrow> bool" where
  "tasks_down ob t \<longleftrightarrow> tg_tasks t < ob_current ob \<and> \<not> ob_paused ob"

definition hosts_down :: "observed \<Rightarrow> targets \<Rightarrow> bool" where
  "hosts_down ob t \<longleftrightarrow> tg_hosts t < ob_asg_desired ob \<and> \<not> ob_paused ob"

definition damp :: "scaler \<Rightarrow> observed \<Rightarrow> int \<Rightarrow> targets \<Rightarrow> targets \<times> int" where
  "damp c ob ticks t =
     (if tasks_down ob t \<or> hosts_down ob t then
        (let n = ticks + 1;
             t1 = (if tasks_down ob t \<and> n < ob_task_ticks ob
                   then \<lparr>tg_tasks = ob_current ob,
                         tg_hosts = max (tg_hosts t) (ceil_div (ob_current ob) (sc_tasks_per_host c)),
                         tg_binding = Scale_in_damped\<rparr>
                   else t);
             t2 = (if hosts_down ob t \<and> n < SCALE_IN_CONSECUTIVE_TICKS
                   then t1\<lparr>tg_hosts := ob_asg_desired ob, tg_binding := Scale_in_damped\<rparr> else t1)
         in (t2, n))
      else (t, 0))"

section \<open>Actuation\<close>

datatype aws_call =
    Complete_lifecycle string string
  | Set_desired_capacity int
  | Update_service int
  | Terminate string

text \<open>
  What the release of drained hosts reads: the group's instances with their lifecycle states,
  the hooks with their transitions, and the \<open>DRAINING\<close> container instances with their task counts.
  \<open>None\<close> is a read that raised; the code swallows it.
\<close>

record drain_reads =
  dr_instances :: "(string \<times> string) list"
  dr_hooks :: "(string \<times> string) list"
  dr_draining :: "(string \<times> int) list"

definition draining_hosts_with_tasks :: "drain_reads \<Rightarrow> string list" where
  "draining_hosts_with_tasks d = map fst (filter (\<lambda>(i, n). 0 < n) (dr_draining d))"

definition release_calls :: "drain_reads option \<Rightarrow> aws_call list" where
  "release_calls reads =
     (case reads of
        None \<Rightarrow> []
      | Some d \<Rightarrow>
          (let waiting = map fst (filter (\<lambda>(i, st). prefix ''Terminating:Wait'' st) (dr_instances d));
               hooks = map fst (filter (\<lambda>(h, tr). suffix ''TERMINATING'' tr) (dr_hooks d))
           in concat (map (\<lambda>i. map (\<lambda>h. Complete_lifecycle h i) hooks)
                (filter (\<lambda>i. i \<notin> set (draining_hosts_with_tasks d)) waiting))))"

definition idle_ids :: "host list \<Rightarrow> string list" where
  "idle_ids hosts =
     List.map_filter (\<lambda>h. if ho_running h = 0 \<and> truthy (ho_id h) then ho_id h else None) hosts"

definition actuate_calls :: "targets \<Rightarrow> observed \<Rightarrow> aws_call list" where
  "actuate_calls t ob =
     (if ob_asg_desired ob < tg_hosts t then [Set_desired_capacity (tg_hosts t)] else []) @
     (if tg_tasks t \<noteq> ob_current ob then [Update_service (tg_tasks t)] else []) @
     (if tg_hosts t < ob_asg_desired ob
      then map Terminate (take (nat (ob_asg_desired ob - tg_hosts t)) (idle_ids (ob_hosts ob))) else [])"

text \<open>The calls that succeed, and the binding, or \<open>None\<close> when a call raised.\<close>

definition actuate ::
    "(aws_call \<Rightarrow> bool) \<Rightarrow> drain_reads option \<Rightarrow> targets \<Rightarrow> observed \<Rightarrow> aws_call list \<times> binding option" where
  "actuate fails drain t ob =
     (let released = (if ob_asg_desired ob < tg_hosts t
                      then takeWhile (\<lambda>c. \<not> fails c) (release_calls drain) else []);
          calls = actuate_calls t ob
      in (released @ takeWhile (\<lambda>c. \<not> fails c) calls,
          if \<exists>c \<in> set calls. fails c then None
          else if tg_hosts t < ob_asg_desired ob \<and>
                  int (length (idle_ids (ob_hosts ob))) < ob_asg_desired ob - tg_hosts t
          then Some Scale_in_blocked_busy else Some (tg_binding t)))"

section \<open>The tick\<close>

record eval_decision =
  de_decided_at :: real
  de_mode :: scaler_mode
  de_desired_ceiling :: int
  de_binding :: binding
  de_desired_hosts :: int
  de_visible :: int
  de_not_visible :: int
  de_feedforward :: real
  de_running_tasks :: int
  de_running_hosts :: int
  de_idle_hosts :: int
  de_asg_desired :: int
  de_asg_max :: int
  de_scale_in_pending_ticks :: int
  de_would_set :: "(string \<times> int) list"
  de_scale_in_ticks_needed :: int
  de_tick_interval_s :: real
  de_max_workers :: int
  de_operator_limits :: "pyfloat hash"

definition would_set :: "targets \<Rightarrow> observed \<Rightarrow> (string \<times> int) list" where
  "would_set t ob =
     (if tg_tasks t \<noteq> ob_current ob then [(''service_desired_count'', tg_tasks t)] else []) @
     (if tg_hosts t \<noteq> ob_asg_desired ob then [(''asg_desired_capacity'', tg_hosts t)] else [])"

record scaler_state =
  st_last_tick_at :: real
  st_last_decision :: "eval_decision option"
  st_scale_in_ticks :: int
  st_config_warned :: bool

definition init_scaler :: scaler_state where
  "init_scaler = \<lparr>st_last_tick_at = 0, st_last_decision = None, st_scale_in_ticks = 0,
     st_config_warned = False\<rparr>"

definition decision :: "scaler \<Rightarrow> tick_reads \<Rightarrow> observed \<Rightarrow> targets \<Rightarrow> int \<Rightarrow> binding \<Rightarrow> eval_decision" where
  "decision c r ob t ticks b =
     \<lparr>de_decided_at = tr_now r, de_mode = sc_mode c, de_desired_ceiling = tg_tasks t, de_binding = b,
      de_desired_hosts = tg_hosts t, de_visible = ob_visible ob, de_not_visible = ob_not_visible ob,
      de_feedforward = of_int (py_round (ob_feedforward ob * 100)) / 100,
      de_running_tasks = ob_running ob, de_running_hosts = int (length (ob_hosts ob)),
      de_idle_hosts = int (length (filter (\<lambda>h. ho_running h = 0) (ob_hosts ob))),
      de_asg_desired = ob_asg_desired ob, de_asg_max = ob_asg_max ob,
      de_scale_in_pending_ticks = ticks, de_would_set = would_set t ob,
      de_scale_in_ticks_needed = ob_task_ticks ob, de_tick_interval_s = sc_tick_interval_s c,
      de_max_workers = ob_max_workers ob, de_operator_limits = tr_limits r\<rparr>"

record tick_result =
  tk_state :: scaler_state
  tk_calls :: "aws_call list"
  tk_decision :: "eval_decision option"

definition tick ::
    "scaler \<Rightarrow> (aws_call \<Rightarrow> bool) \<Rightarrow> drain_reads option \<Rightarrow> tick_reads \<Rightarrow> scaler_state \<Rightarrow> tick_result" where
  "tick c fails drain r st =
     (case observe c r of
        None \<Rightarrow> \<lparr>tk_state = st, tk_calls = [], tk_decision = None\<rparr>
      | Some ob \<Rightarrow>
          (let warned = st_config_warned st \<or>
                 sc_asg_name c \<noteq> [] \<and> ob_asg_max ob * sc_tasks_per_host c < ob_max_workers ob;
               (t, n) = damp c ob (st_scale_in_ticks st) (aim c ob);
               st' = st\<lparr>st_scale_in_ticks := n, st_config_warned := warned\<rparr>;
               (calls, b) = (if sc_mode c = Live_mode \<and> would_set t ob \<noteq> []
                             then actuate fails drain t ob else ([], Some (tg_binding t)))
           in \<lparr>tk_state = st', tk_calls = calls,
               tk_decision = map_option (decision c r ob t n) b\<rparr>))"

text \<open>The rate limit; \<open>clock\<close> is the monotonic clock. A tick that raises keeps the last decision.\<close>

definition maybe_tick ::
    "scaler \<Rightarrow> (aws_call \<Rightarrow> bool) \<Rightarrow> drain_reads option \<Rightarrow> real \<Rightarrow> tick_reads \<Rightarrow> scaler_state \<Rightarrow> tick_result" where
  "maybe_tick c fails drain clock r st =
     (if clock - st_last_tick_at st < sc_tick_interval_s c
      then \<lparr>tk_state = st, tk_calls = [], tk_decision = st_last_decision st\<rparr>
      else
        (let res = tick c fails drain r (st\<lparr>st_last_tick_at := clock\<rparr>);
             d = (case tk_decision res of Some d \<Rightarrow> Some d | None \<Rightarrow> st_last_decision st)
         in res\<lparr>tk_state := (tk_state res)\<lparr>st_last_decision := d\<rparr>, tk_decision := d\<rparr>))"

section \<open>Bounds\<close>

lemma ceil_div_le_iff: "0 < b \<Longrightarrow> ceil_div a b \<le> k \<longleftrightarrow> a \<le> k * b"
proof -
  assume b: "0 < b"
  have "ceil_div a b \<le> k \<longleftrightarrow> real_of_int a / real_of_int b \<le> real_of_int k"
    by (simp add: ceil_div_def ceiling_le_iff)
  also have "\<dots> \<longleftrightarrow> real_of_int a \<le> real_of_int (k * b)"
    using b by (simp add: pos_divide_le_eq)
  finally show ?thesis by linarith
qed

lemma ceil_div_covers: "0 < b \<Longrightarrow> a \<le> ceil_div a b * b"
  using ceil_div_le_iff [of b a "ceil_div a b"] by simp

lemmas aim_defs = aim_def aim_paused_def Let_def

lemma aim_tasks_bounds:
  assumes "0 < sc_tasks_per_host c"
  shows "tg_tasks (aim c ob) \<le> max (sc_min_workers c) (ob_max_workers ob)"
    "tg_tasks (aim c ob) \<le> ob_asg_max ob * sc_tasks_per_host c \<or> ob_paused ob"
    "tg_hosts (aim c ob) \<le> ob_asg_max ob"
    "\<not> ob_paused ob \<Longrightarrow> tg_tasks (aim c ob) \<le> tg_hosts (aim c ob) * sc_tasks_per_host c"
    "ob_paused ob \<Longrightarrow> tg_tasks (aim c ob) \<le> ob_current ob \<and> tg_hosts (aim c ob) \<le> ob_asg_desired ob"
proof -
  define p where "p = aim_paused c ob"
  have base: "base_tasks c ob \<le> max (sc_min_workers c) (ob_max_workers ob)"
    by (auto simp: base_tasks_def)
  have p: "tg_tasks p \<le> base_tasks c ob"
    "\<not> ob_paused ob \<Longrightarrow> tg_tasks p \<le> tg_hosts p * sc_tasks_per_host c"
    "ob_paused ob \<Longrightarrow> tg_tasks p \<le> ob_current ob \<and> tg_hosts p \<le> ob_asg_desired ob"
    using ceil_div_covers [OF assms] by (auto simp: p_def aim_paused_def Let_def)
  have a: "tg_tasks (aim c ob) = (if ob_asg_max ob < tg_hosts p
        then min (tg_tasks p) (ob_asg_max ob * sc_tasks_per_host c) else tg_tasks p)"
    "tg_hosts (aim c ob) = min (tg_hosts p) (ob_asg_max ob)"
    by (auto simp: aim_def Let_def p_def)
  show "tg_hosts (aim c ob) \<le> ob_asg_max ob" by (simp add: a)
  show "tg_tasks (aim c ob) \<le> max (sc_min_workers c) (ob_max_workers ob)"
    using base p(1) by (auto simp: a)
  show "\<not> ob_paused ob \<Longrightarrow> tg_tasks (aim c ob) \<le> tg_hosts (aim c ob) * sc_tasks_per_host c"
    using p(2) by (auto simp: a min_def)
  show "ob_paused ob \<Longrightarrow> tg_tasks (aim c ob) \<le> ob_current ob \<and> tg_hosts (aim c ob) \<le> ob_asg_desired ob"
    using p(3) by (auto simp: a)
  show "tg_tasks (aim c ob) \<le> ob_asg_max ob * sc_tasks_per_host c \<or> ob_paused ob"
  proof (cases "ob_asg_max ob < tg_hosts p \<or> ob_paused ob")
    case False
    then have "tg_hosts p * sc_tasks_per_host c \<le> ob_asg_max ob * sc_tasks_per_host c"
      using assms by (simp add: mult_right_mono)
    with p(2) False show ?thesis by (auto simp: a)
  qed (auto simp: a)
qed

lemma damp_cases:
  assumes "damp c ob k a = (t, n)"
  shows "tg_tasks t = tg_tasks a \<or> tg_tasks t = ob_current ob \<and> tasks_down ob a"
    "tg_hosts t = tg_hosts a \<or> tg_hosts t = ob_asg_desired ob \<and> hosts_down ob a \<or>
     tg_hosts t = max (tg_hosts a) (ceil_div (ob_current ob) (sc_tasks_per_host c)) \<and>
       tg_tasks t = ob_current ob \<and> tasks_down ob a"
  using assms by (auto simp: damp_def Let_def split: if_splits)

text \<open>
  What a tick may aim for. An unpaused tick adds tasks only within the worker limits and what
  the host group can hold, adds hosts only up to the group's maximum or to what the tasks it holds
  need, and provides hosts for every task it wants unless it keeps the present host count. A paused
  tick adds neither.
\<close>

theorem scale_out_bounded:
  assumes "damp c ob k (aim c ob) = (t, n)" "0 < sc_tasks_per_host c"
  shows "(ob_current ob < tg_tasks t \<longrightarrow> \<not> ob_paused ob \<and>
            tg_tasks t \<le> max (sc_min_workers c) (ob_max_workers ob) \<and>
            tg_tasks t \<le> ob_asg_max ob * sc_tasks_per_host c) \<and>
    (ob_asg_desired ob < tg_hosts t \<longrightarrow> \<not> ob_paused ob \<and>
            (tg_hosts t \<le> ob_asg_max ob \<or> (tg_hosts t - 1) * sc_tasks_per_host c < ob_current ob)) \<and>
    (\<not> ob_paused ob \<longrightarrow>
            tg_tasks t \<le> tg_hosts t * sc_tasks_per_host c \<or> tg_hosts t = ob_asg_desired ob)"
proof -
  let ?a = "aim c ob" and ?tph = "sc_tasks_per_host c"
  note b = aim_tasks_bounds [OF assms(2), of ob] and d = damp_cases [OF assms(1)]
  have "ob_current ob < tg_tasks t \<longrightarrow> \<not> ob_paused ob \<and>
      tg_tasks t \<le> max (sc_min_workers c) (ob_max_workers ob) \<and> tg_tasks t \<le> ob_asg_max ob * ?tph"
    using d(1) b(1,2,5) by auto
  moreover have "ob_asg_desired ob < tg_hosts t \<longrightarrow> \<not> ob_paused ob \<and>
      (tg_hosts t \<le> ob_asg_max ob \<or> (tg_hosts t - 1) * ?tph < ob_current ob)"
    using d(2) b(3,5) ceil_div_le_iff [OF assms(2), of "ob_current ob" "tg_hosts t - 1"]
    by (auto simp: tasks_down_def max_def split: if_splits)
  moreover have "tg_tasks t \<le> tg_hosts t * ?tph \<or> tg_hosts t = ob_asg_desired ob" if "\<not> ob_paused ob"
  proof -
    have cov: "tg_tasks ?a \<le> tg_hosts ?a * ?tph" using b(4) that by simp
    have "ob_current ob \<le> max (tg_hosts ?a) (ceil_div (ob_current ob) ?tph) * ?tph"
      using ceil_div_le_iff [OF assms(2), of "ob_current ob" "max (tg_hosts ?a) (ceil_div (ob_current ob) ?tph)"]
      by simp
    with cov d show ?thesis
      using assms(1) by (auto simp: damp_def Let_def split: if_splits)
  qed
  ultimately show ?thesis by blast
qed

section \<open>What a tick does to the fleet\<close>

lemma idle_ids_idle: "i \<in> set (idle_ids hs) \<Longrightarrow> \<exists>h \<in> set hs. ho_id h = Some i \<and> ho_running h = 0"
  by (force simp: idle_ids_def map_filter_def split: if_splits)

lemma release_calls_shape:
  "x \<in> set (release_calls d) \<Longrightarrow> \<exists>h i dr st. x = Complete_lifecycle h i \<and> d = Some dr \<and>
     (i, st) \<in> set (dr_instances dr) \<and> prefix ''Terminating:Wait'' st \<and> (\<forall>n. (i, n) \<in> set (dr_draining dr) \<longrightarrow> n \<le> 0)"
proof -
  assume x: "x \<in> set (release_calls d)"
  then obtain dr where d: "d = Some dr" by (cases d) (auto simp: release_calls_def)
  from x obtain h i w where x': "x = Complete_lifecycle h i"
    and w: "(i, w) \<in> set (dr_instances dr)" "prefix ''Terminating:Wait'' w"
    and busy: "i \<notin> set (draining_hosts_with_tasks dr)"
    by (auto simp: release_calls_def d Let_def case_prod_beta')
  moreover have "\<forall>n. (i, n) \<in> set (dr_draining dr) \<longrightarrow> n \<le> 0"
  proof (intro allI impI)
    fix n assume "(i, n) \<in> set (dr_draining dr)"
    with busy show "n \<le> 0"
      by (cases "0 < n") (force simp: draining_hosts_with_tasks_def)+
  qed
  ultimately show ?thesis using x' d by blast
qed

lemma tick_calls:
  assumes "x \<in> set (tk_calls (tick c fails d r st))"
  obtains ob t n where "observe c r = Some ob" "damp c ob (st_scale_in_ticks st) (aim c ob) = (t, n)"
    "sc_mode c = Live_mode"
    "ob_asg_desired ob < tg_hosts t \<and> x \<in> set (release_calls d) \<or> x \<in> set (actuate_calls t ob)"
    "set (tk_calls (tick c fails d r st)) \<subseteq> set (release_calls d) \<union> set (actuate_calls t ob)"
proof -
  from assms obtain ob where ob: "observe c r = Some ob"
    by (cases "observe c r") (auto simp: tick_def)
  obtain t n where t: "damp c ob (st_scale_in_ticks st) (aim c ob) = (t, n)" by fastforce
  have calls: "tk_calls (tick c fails d r st) =
      (if sc_mode c = Live_mode \<and> would_set t ob \<noteq> [] then fst (actuate fails d t ob) else [])"
    by (simp add: tick_def ob t Let_def case_prod_beta')
  with assms have live: "sc_mode c = Live_mode" and x: "x \<in> set (fst (actuate fails d t ob))"
    by (auto split: if_splits)
  have "set (fst (actuate fails d t ob)) \<subseteq> set (release_calls d) \<union> set (actuate_calls t ob)"
    by (auto simp: actuate_def Let_def dest: set_takeWhileD split: if_splits)
  with calls have "set (tk_calls (tick c fails d r st)) \<subseteq> set (release_calls d) \<union> set (actuate_calls t ob)"
    by auto
  moreover have "ob_asg_desired ob < tg_hosts t \<and> x \<in> set (release_calls d) \<or> x \<in> set (actuate_calls t ob)"
    using x by (auto simp: actuate_def Let_def dest: set_takeWhileD split: if_splits)
  ultimately show ?thesis using that ob t live by blast
qed

text \<open>
  Only a live tick acts, and it is safe for running grades: a host is terminated only when
  it was read with no running task, in a tick that lowers the host count, and a termination
  hook is completed only for a host waiting in it that has no draining container instance with
  tasks; no tick both asks for hosts and terminates some.
\<close>

theorem fleet_actions_safe:
  assumes "x \<in> set (tk_calls (tick c fails d r st))"
  shows "sc_mode c = Live_mode \<and>
    (\<exists>ob. observe c r = Some ob \<and>
      (case x of
         Terminate i \<Rightarrow> (\<exists>h \<in> set (ob_hosts ob). ho_id h = Some i \<and> ho_running h = 0) \<and>
           (\<forall>k. Set_desired_capacity k \<notin> set (tk_calls (tick c fails d r st)))
       | Complete_lifecycle hook i \<Rightarrow> \<exists>dr w. d = Some dr \<and> (i, w) \<in> set (dr_instances dr) \<and>
           prefix ''Terminating:Wait'' w \<and> (\<forall>n. (i, n) \<in> set (dr_draining dr) \<longrightarrow> n \<le> 0)
       | Set_desired_capacity k \<Rightarrow> \<not> ob_paused ob \<and> ob_asg_desired ob < k
       | Update_service k \<Rightarrow> k \<noteq> ob_current ob \<and> (ob_paused ob \<longrightarrow> k < ob_current ob)))"
proof -
  from assms show ?thesis
  proof (rule tick_calls)
    fix ob t n
    assume ob: "observe c r = Some ob" and damp: "damp c ob (st_scale_in_ticks st) (aim c ob) = (t, n)"
      and live: "sc_mode c = Live_mode"
      and x: "ob_asg_desired ob < tg_hosts t \<and> x \<in> set (release_calls d) \<or> x \<in> set (actuate_calls t ob)"
      and all: "set (tk_calls (tick c fails d r st)) \<subseteq> set (release_calls d) \<union> set (actuate_calls t ob)"
    have paused: "ob_paused ob \<Longrightarrow> t = aim c ob"
      using damp by (simp add: damp_def tasks_down_def hosts_down_def)
    have pl: "ob_paused ob \<Longrightarrow> tg_tasks t \<le> ob_current ob \<and> tg_hosts t \<le> ob_asg_desired ob"
      using paused by (auto simp: aim_def aim_paused_def Let_def)
    have rel: "Set_desired_capacity k \<notin> set (release_calls d)" for k
      using release_calls_shape by blast
    show ?thesis
    proof (cases x)
      case (Complete_lifecycle hook i)
      with x have "x \<in> set (release_calls d)" by (auto simp: actuate_calls_def)
      from release_calls_shape [OF this] ob live Complete_lifecycle show ?thesis by auto
    next
      case (Set_desired_capacity k)
      with x rel [of k] have "ob_asg_desired ob < k \<and> k = tg_hosts t" by (auto simp: actuate_calls_def split: if_splits)
      with pl ob live Set_desired_capacity show ?thesis by force
    next
      case (Update_service k)
      with x have "k = tg_tasks t \<and> k \<noteq> ob_current ob"
        by (auto simp: actuate_calls_def split: if_splits dest: release_calls_shape)
      with pl ob live Update_service show ?thesis by force
    next
      case (Terminate i)
      with x have i: "i \<in> set (idle_ids (ob_hosts ob))" and lower: "tg_hosts t < ob_asg_desired ob"
        by (auto simp: actuate_calls_def split: if_splits dest: release_calls_shape in_set_takeD)
      then have "Set_desired_capacity k \<notin> set (tk_calls (tick c fails d r st))" for k
        using all rel [of k] by (auto simp: actuate_calls_def split: if_splits)
      with idle_ids_idle [OF i] ob live Terminate show ?thesis by auto
    qed
  qed
qed

section \<open>Damping over a run of ticks\<close>

type_synonym tick_event = "(aws_call \<Rightarrow> bool) \<times> drain_reads option \<times> tick_reads"

definition run_ticks :: "scaler \<Rightarrow> tick_event list \<Rightarrow> scaler_state \<Rightarrow> scaler_state" where
  "run_ticks c evs st = fold (\<lambda>(fails, d, r) st. tk_state (tick c fails d r st)) evs st"

text \<open>A tick that observes and aims below the present tasks or hosts.\<close>

definition lower_tick :: "scaler \<Rightarrow> observed \<Rightarrow> bool" where
  "lower_tick c ob \<longleftrightarrow> tasks_down ob (aim c ob) \<or> hosts_down ob (aim c ob)"

definition observations :: "scaler \<Rightarrow> tick_event list \<Rightarrow> observed list" where
  "observations c evs = List.map_filter (\<lambda>(fails, d, r). observe c r) evs"

definition lower_streak :: "scaler \<Rightarrow> tick_event list \<Rightarrow> int" where
  "lower_streak c evs = int (length (takeWhile (lower_tick c) (rev (observations c evs))))"

lemma damp_counter: "snd (damp c ob k (aim c ob)) = (if lower_tick c ob then k + 1 else 0)"
  by (simp add: damp_def lower_tick_def Let_def)

lemma tick_counter:
  "st_scale_in_ticks (tk_state (tick c fails d r st)) =
     (case observe c r of None \<Rightarrow> st_scale_in_ticks st
      | Some ob \<Rightarrow> if lower_tick c ob then st_scale_in_ticks st + 1 else 0)"
  using damp_counter by (auto simp: tick_def Let_def case_prod_beta' split: option.split)

lemma run_counter: "st_scale_in_ticks (run_ticks c evs init_scaler) = lower_streak c evs"
proof (induction evs rule: rev_induct)
  case Nil
  then show ?case by (simp add: run_ticks_def init_scaler_def lower_streak_def observations_def map_filter_simps)
next
  case (snoc e evs)
  obtain fails d r where e: "e = (fails, d, r)" by (cases e)
  have "observations c (evs @ [e]) = observations c evs @ (case observe c r of None \<Rightarrow> [] | Some ob \<Rightarrow> [ob])"
    by (simp add: observations_def e map_filter_def split: option.split)
  with snoc show ?case
    by (simp add: run_ticks_def e tick_counter lower_streak_def split: option.split)
qed

lemma tick_decision_targets:
  assumes "observe c r = Some ob" "tk_decision (tick c fails d r st) = Some de"
    and "damp c ob (st_scale_in_ticks st) (aim c ob) = (t, n)"
  shows "de_desired_ceiling de = tg_tasks t" "de_desired_hosts de = tg_hosts t"
  using assms by (auto simp: tick_def Let_def decision_def case_prod_beta' split: if_splits)

text \<open>
  An unpaused scaler scales in only after consecutive lower ticks, over any run of ticks with
  any failures in between: fewer tasks need the configured number of them, fewer hosts two, counting
  the present one.
\<close>

theorem scale_in_is_damped:
  assumes "st = run_ticks c evs init_scaler" "observe c r = Some ob" "\<not> ob_paused ob"
    and "tk_decision (tick c fails d r st) = Some de"
  shows "(de_desired_ceiling de < ob_current ob \<longrightarrow> lower_tick c ob \<and> ob_task_ticks ob \<le> lower_streak c evs + 1) \<and>
    (de_desired_hosts de < ob_asg_desired ob \<longrightarrow> lower_tick c ob \<and> 2 \<le> lower_streak c evs + 1)"
proof -
  obtain t n where t: "damp c ob (st_scale_in_ticks st) (aim c ob) = (t, n)" by fastforce
  have k: "st_scale_in_ticks st = lower_streak c evs" using run_counter by (simp add: assms(1))
  from tick_decision_targets [OF assms(2,4) t] t assms(3)
  show ?thesis
    unfolding k
    by (auto simp: damp_def lower_tick_def tasks_down_def hosts_down_def Let_def SCALE_IN_CONSECUTIVE_TICKS_def
        split: if_splits)
qed

lemma takeWhile_True [simp]: "takeWhile (\<lambda>x. True) xs = xs"
  by (simp add: takeWhile_eq_all_conv)

text \<open>
  The two damping rules share one counter: ticks in which only the hosts were too many count
  towards the task rule, so the first tick with too many tasks may scale them in at once.
\<close>

theorem host_ticks_spend_task_damping:
  assumes "sc_mode c = Live_mode" "\<forall>x. \<not> fails x"
    and "observe c r = Some ob" "hosts_down ob (aim c ob)" "\<not> tasks_down ob (aim c ob)"
    and "observe c r' = Some ob'" "tasks_down ob' (aim c ob')" "ob_task_ticks ob' \<le> int n + 1"
  shows "Update_service (tg_tasks (aim c ob')) \<in>
    set (tk_calls (tick c fails d r' (run_ticks c (replicate n (fails, d, r)) init_scaler)))"
proof -
  have obs: "observations c (replicate n (fails, d, r)) = replicate n ob"
    by (induction n) (simp_all add: observations_def assms(3) map_filter_simps)
  have "lower_tick c ob" using assms(4) by (simp add: lower_tick_def)
  then have k: "st_scale_in_ticks (run_ticks c (replicate n (fails, d, r)) init_scaler) = int n"
    by (simp add: run_counter lower_streak_def obs)
  define st where "st = run_ticks c (replicate n (fails, d, r)) init_scaler"
  obtain t m where t: "damp c ob' (int n) (aim c ob') = (t, m)" by fastforce
  then have tasks: "tg_tasks t = tg_tasks (aim c ob')"
    using assms(7,8) by (auto simp: damp_def Let_def split: if_splits)
  then have "tg_tasks t \<noteq> ob_current ob'" using assms(7) by (simp add: tasks_down_def)
  then have "Update_service (tg_tasks t) \<in> set (actuate_calls t ob')" "would_set t ob' \<noteq> []"
    by (simp_all add: actuate_calls_def would_set_def)
  then show ?thesis
    using assms(1,2,6) k t tasks unfolding st_def [symmetric]
    by (simp add: tick_def actuate_def Let_def)
qed

text \<open>
  A pause bypasses the damping: whatever the counter, a live tick in a paused pool whose demand
  is below the present size lowers the task count at once, and forgets the counted ticks.
\<close>

theorem pause_scales_in_at_once:
  assumes "sc_mode c = Live_mode" "\<forall>x. \<not> fails x"
    and "observe c r = Some ob" "ob_paused ob" "base_tasks c ob < ob_current ob"
  shows "Update_service (tg_tasks (aim c ob)) \<in> set (tk_calls (tick c fails d r st)) \<and>
    tg_tasks (aim c ob) < ob_current ob \<and> st_scale_in_ticks (tk_state (tick c fails d r st)) = 0"
proof -
  have t: "damp c ob k (aim c ob) = (aim c ob, 0)" for k
    using assms(4) by (simp add: damp_def tasks_down_def hosts_down_def)
  have less: "tg_tasks (aim c ob) < ob_current ob"
    using assms(4,5) by (auto simp: aim_def aim_paused_def Let_def)
  then have "Update_service (tg_tasks (aim c ob)) \<in> set (actuate_calls (aim c ob) ob)" "would_set (aim c ob) ob \<noteq> []"
    by (simp_all add: actuate_calls_def would_set_def)
  with less show ?thesis
    using assms(1-3) by (simp add: tick_def actuate_def Let_def t)
qed

section \<open>Instances\<close>

definition demo_scaler :: scaler where
  "demo_scaler = \<lparr>sc_mode = Live_mode, sc_max_workers = 4, sc_min_workers = 0, sc_beta = 1 / 2,
     sc_tasks_per_host = 1, sc_asg_name = ''asg'', sc_tick_interval_s = 30, sc_task_scale_in_ticks = 10\<rparr>"

definition demo_reads :: "int \<Rightarrow> int \<Rightarrow> int \<Rightarrow> bool \<Rightarrow> tick_reads" where
  "demo_reads visible current asg paused =
     \<lparr>tr_limits = [], tr_queue = Some (visible, 0), tr_progress = Some [],
      tr_service = Some [(current, current)],
      tr_hosts = Some [[(''ACTIVE'', \<lparr>ho_id = Some ''i1'', ho_running = 1\<rparr>),
                        (''ACTIVE'', \<lparr>ho_id = Some ''i2'', ho_running = 0\<rparr>)]],
      tr_asg = Some [(asg, 8)], tr_paused = paused, tr_now = 0\<rparr>"

definition demo_observed :: "int \<Rightarrow> int \<Rightarrow> int \<Rightarrow> bool \<Rightarrow> observed" where
  "demo_observed visible current asg paused =
     \<lparr>ob_max_workers = 4, ob_task_ticks = 10, ob_visible = visible, ob_not_visible = 0,
      ob_feedforward = 0, ob_running = current, ob_current = current,
      ob_hosts = [\<lparr>ho_id = Some ''i1'', ho_running = 1\<rparr>, \<lparr>ho_id = Some ''i2'', ho_running = 0\<rparr>],
      ob_asg_desired = asg, ob_asg_max = 8, ob_paused = paused\<rparr>"

lemma demo_observe: "observe demo_scaler (demo_reads v cur asg p) = Some (demo_observed v cur asg p)"
  by (simp add: observe_def demo_scaler_def demo_reads_def demo_observed_def operator_overrides_def
      first_or_zeros_def hosts_of_def live_harness_count_def)

lemma demo_aim:
  "0 \<le> v \<Longrightarrow> v \<le> 4 \<Longrightarrow> tg_tasks (aim demo_scaler (demo_observed v cur asg False)) = v \<and>
     tg_hosts (aim demo_scaler (demo_observed v cur asg False)) = v"
  by (simp add: aim_def aim_paused_def base_tasks_def demand_def demo_observed_def demo_scaler_def ceil_div_def Let_def)

lemma demo_live: "sc_mode demo_scaler = Live_mode"
  by (simp add: demo_scaler_def)

theorem scale_out_bounded_witness:
  "tg_tasks (fst (damp demo_scaler (demo_observed 3 1 1 False) 0 (aim demo_scaler (demo_observed 3 1 1 False)))) \<le> 4"
proof -
  let ?ob = "demo_observed 3 1 1 False"
  obtain t n where d: "damp demo_scaler ?ob 0 (aim demo_scaler ?ob) = (t, n)" by fastforce
  have "tg_tasks t = 3"
    using d demo_aim [of 3 1 1]
    by (auto simp: damp_def tasks_down_def hosts_down_def demo_observed_def Let_def split: if_splits)
  with scale_out_bounded [OF d] d show ?thesis
    by (simp add: demo_scaler_def demo_observed_def)
qed

theorem host_ticks_spend_task_damping_witness:
  "Update_service 1 \<in> set (tk_calls (tick demo_scaler (\<lambda>_. False) None (demo_reads 1 2 2 False)
     (run_ticks demo_scaler (replicate 9 (\<lambda>_. False, None, demo_reads 2 2 3 False)) init_scaler)))"
proof -
  have live: "sc_mode demo_scaler = Live_mode" by (simp add: demo_scaler_def)
  have h: "hosts_down (demo_observed 2 2 3 False) (aim demo_scaler (demo_observed 2 2 3 False))"
    "\<not> tasks_down (demo_observed 2 2 3 False) (aim demo_scaler (demo_observed 2 2 3 False))"
    using demo_aim [of 2 2 3] by (simp_all add: hosts_down_def tasks_down_def demo_observed_def)
  have t: "tasks_down (demo_observed 1 2 2 False) (aim demo_scaler (demo_observed 1 2 2 False))"
    using demo_aim [of 1 2 2] by (simp add: tasks_down_def demo_observed_def)
  have "ob_task_ticks (demo_observed 1 2 2 False) \<le> int 9 + 1" by (simp add: demo_observed_def)
  from host_ticks_spend_task_damping [OF live _ demo_observe h demo_observe t this, of "\<lambda>_. False" None]
  show ?thesis using demo_aim [of 1 2 2] by simp
qed

theorem pause_scales_in_at_once_witness:
  "Update_service 1 \<in> set (tk_calls (tick demo_scaler (\<lambda>_. False) None (demo_reads 1 2 2 True) init_scaler))"
proof -
  have aim: "base_tasks demo_scaler (demo_observed 1 2 2 True) = 1" "tg_tasks (aim demo_scaler (demo_observed 1 2 2 True)) = 1"
    by (simp_all add: aim_def aim_paused_def base_tasks_def demand_def demo_observed_def demo_scaler_def
        ceil_div_def Let_def)
  have "sc_mode demo_scaler = Live_mode" "ob_paused (demo_observed 1 2 2 True)"
    "base_tasks demo_scaler (demo_observed 1 2 2 True) < ob_current (demo_observed 1 2 2 True)"
    using aim(1) by (simp_all add: demo_scaler_def demo_observed_def)
  from pause_scales_in_at_once [OF this(1) _ demo_observe this(2,3), of "\<lambda>_. False" None init_scaler]
  show ?thesis using aim(2) by simp
qed

theorem fleet_actions_safe_witness:
  "\<exists>ob. observe demo_scaler (demo_reads 1 2 2 True) = Some ob \<and> 1 < ob_current ob"
proof -
  have "Update_service 1 \<in> set (tk_calls (tick demo_scaler (\<lambda>_. False) None (demo_reads 1 2 2 True) init_scaler))"
  proof -
    have t: "damp demo_scaler (demo_observed 1 2 2 True) 0 (aim demo_scaler (demo_observed 1 2 2 True)) =
        (\<lparr>tg_tasks = 1, tg_hosts = 1, tg_binding = Paused\<rparr>, 0)"
      by (simp add: damp_def tasks_down_def hosts_down_def aim_def aim_paused_def base_tasks_def
          demand_def demo_observed_def demo_scaler_def ceil_div_def Let_def)
    then show ?thesis
      by (simp add: tick_def demo_observe init_scaler_def Let_def actuate_def would_set_def
          actuate_calls_def demo_observed_def demo_live)
  qed
  from fleet_actions_safe [OF this] show ?thesis
    by (auto simp: demo_observe demo_observed_def)
qed

theorem scale_in_is_damped_witness:
  "\<exists>de. tk_decision (tick demo_scaler (\<lambda>_. False) None (demo_reads 1 2 2 False) init_scaler) = Some de \<and>
     \<not> de_desired_ceiling de < 2"
proof -
  obtain t n where t: "damp demo_scaler (demo_observed 1 2 2 False) 0 (aim demo_scaler (demo_observed 1 2 2 False)) = (t, n)"
    by fastforce
  have "tk_decision (tick demo_scaler (\<lambda>_. False) None (demo_reads 1 2 2 False) init_scaler) \<noteq> None"
    using t
    by (cases "would_set t (demo_observed 1 2 2 False) = []")
       (simp_all add: tick_def demo_observe init_scaler_def Let_def actuate_def demo_live split: if_split)
  then obtain de where de: "tk_decision (tick demo_scaler (\<lambda>_. False) None (demo_reads 1 2 2 False) init_scaler) = Some de"
    by blast
  have "init_scaler = run_ticks demo_scaler [] init_scaler" by (simp add: run_ticks_def)
  from scale_in_is_damped [OF this demo_observe _ de] de show ?thesis
    by (simp add: demo_observed_def lower_streak_def observations_def map_filter_simps)
qed

end
