(* ===== verification/Ceiling_Probe.thy ===== *)
theory Ceiling_Probe
  imports Py_Text
begin

text \<open>
  \<open>swebench_eval/gateway/ceiling_discovery.py\<close> and the overload classifier of
  \<open>swebench_eval/harnesses/routing.py\<close>: one probe call, the aggregation of a probe batch, and the
  search for the highest safe concurrency.

  The network is an argument: a batch is given the replies of its calls, the search a function
  from the number of the probe and its concurrency to a batch result. The histogram text of the
  error statuses is left out.
\<close>

section \<open>Sizing a request\<close>

definition CHARS_PER_TOKEN :: int where "CHARS_PER_TOKEN = 4"
definition REQUEST_TIMEOUT_S :: real where "REQUEST_TIMEOUT_S = 120"
definition MIN_PREFILL_TOK_PER_S :: real where "MIN_PREFILL_TOK_PER_S = 2500"
definition REQUEST_TIMEOUT_MAX_S :: real where "REQUEST_TIMEOUT_MAX_S = 540"
definition FILLER_PHRASE :: string where
  "FILLER_PHRASE = ''the quick brown fox jumps over the lazy dog ''"

definition request_timeout_s :: "int \<Rightarrow> real" where
  "request_timeout_s target_tokens =
     min REQUEST_TIMEOUT_MAX_S (max REQUEST_TIMEOUT_S (of_int target_tokens / MIN_PREFILL_TOK_PER_S))"

text \<open>\<open>(phrase * (n // len(phrase) + 1))[:n]\<close>.\<close>

definition filler :: "nat \<Rightarrow> string" where
  "filler n = take n (concat (replicate (n div length FILLER_PHRASE + 1) FILLER_PHRASE))"

definition filler_chars :: "int \<Rightarrow> nat \<Rightarrow> nat" where
  "filler_chars tokens used = nat (max 0 (tokens * CHARS_PER_TOKEN - int used))"

text \<open>The nonce, a fresh \<open>uuid4().hex\<close>, is an argument; \<open>nl\<close> is the newline character.\<close>

definition nl :: char where "nl = char_of (10 :: nat)"

definition probe_content :: "string \<Rightarrow> int \<Rightarrow> string" where
  "probe_content nonce target_tokens =
     ''probe-nonce:'' @ nonce @ [nl] @ filler (filler_chars target_tokens (length nonce))"

definition cached_prefix :: "string \<Rightarrow> int \<Rightarrow> string" where
  "cached_prefix nonce prefix_tokens =
     (let head = ''probe-prefix:'' @ nonce @ [nl]
      in head @ filler (filler_chars prefix_tokens (length head)))"

definition cached_probe_content :: "string \<Rightarrow> string \<Rightarrow> int \<Rightarrow> string" where
  "cached_probe_content nonce pre suffix_tokens =
     pre @ [nl] @ ''probe-nonce:'' @ nonce @ [nl] @ filler (filler_chars suffix_tokens (length nonce))"

section \<open>The usage block\<close>

datatype json =
    JsNull | JsBool bool | JsInt int | JsFloat pyfloat | JsStr string | JsList "json list"
  | JsObj "(string \<times> json) list"

datatype exc = Value_error | Overflow_error | Attribute_error

text \<open>
  \<open>body.get(key)\<close>, a missing key reading as \<open>None\<close>; a body that is no dictionary has no
  \<open>get\<close>.
\<close>

definition obj_get :: "(string \<times> json) list \<Rightarrow> string \<Rightarrow> json" where
  "obj_get kvs k = (case map_of kvs k of Some v \<Rightarrow> v | None \<Rightarrow> JsNull)"

text \<open>
  \<open>isinstance(v, (int, float))\<close> with \<open>int(v)\<close>: \<open>None\<close> when it is no number (a Python boolean is
  one), and the errors of \<open>int\<close> on a NaN or an infinity.
\<close>

fun as_int :: "json \<Rightarrow> exc + int option" where
  "as_int (JsBool b) = Inr (Some (if b then 1 else 0))"
| "as_int (JsInt n) = Inr (Some n)"
| "as_int (JsFloat NaN) = Inl Value_error"
| "as_int (JsFloat (Fin x)) = Inr (Some (py_int x))"
| "as_int (JsFloat _) = Inl Overflow_error"
| "as_int _ = Inr None"

fun is_number :: "json \<Rightarrow> bool" where
  "is_number (JsBool b) = True"
| "is_number (JsInt n) = True"
| "is_number (JsFloat x) = True"
| "is_number _ = False"

definition usage_cached_tokens :: "json \<Rightarrow> exc + int option" where
  "usage_cached_tokens body =
     (case body of
        JsObj kvs \<Rightarrow>
          (case obj_get kvs ''usage'' of
             JsObj usage \<Rightarrow>
               (case obj_get usage ''prompt_tokens_details'' of
                  JsObj details \<Rightarrow> as_int (obj_get details ''cached_tokens'')
                | _ \<Rightarrow> Inr None)
           | _ \<Rightarrow> Inr None)
      | _ \<Rightarrow> Inl Attribute_error)"

definition usage_tokens :: "json \<Rightarrow> exc + int option" where
  "usage_tokens body =
     (case body of
        JsObj kvs \<Rightarrow>
          (case obj_get kvs ''usage'' of
             JsObj usage \<Rightarrow>
               (let total = obj_get usage ''total_tokens'';
                    prompt = obj_get usage ''prompt_tokens'';
                    completion = obj_get usage ''completion_tokens''
                in if is_number total then as_int total
                   else if is_number prompt \<and> is_number completion then
                     (case as_int prompt of
                        Inl e \<Rightarrow> Inl e
                      | Inr p \<Rightarrow>
                          (case as_int completion of
                             Inl e \<Rightarrow> Inl e
                           | Inr c \<Rightarrow> Inr (Some (the p + the c))))
                   else Inr None)
           | _ \<Rightarrow> Inr None)
      | _ \<Rightarrow> Inl Attribute_error)"

section \<open>One call\<close>

text \<open>
  What the network does with a call: a failure at a time, or a response with its status, its
  \<open>retry-after\<close> header, the time it completed and its body (\<open>None\<close> when the body is no JSON).
  All times count from the start of the batch.
\<close>

datatype reply =
    Network_failure real
  | Response int "string option" real "json option"

record call_result =
  cr_status :: int
  cr_retry_after :: "pyfloat option"
  cr_completed_at :: real
  cr_tokens :: "int option"
  cr_cached :: "int option"

definition parse_usage :: "json option \<Rightarrow> exc + (int option \<times> int option)" where
  "parse_usage body =
     (case body of
        None \<Rightarrow> Inr (None, None)
      | Some b \<Rightarrow>
          (case usage_tokens b of
             Inl Value_error \<Rightarrow> Inr (None, None)
           | Inl e \<Rightarrow> Inl e
           | Inr tokens \<Rightarrow>
               (case usage_cached_tokens b of
                  Inl Value_error \<Rightarrow> Inr (None, None)
                | Inl e \<Rightarrow> Inl e
                | Inr cached \<Rightarrow> Inr (tokens, cached))))"

definition one_call :: "reply \<Rightarrow> exc + call_result" where
  "one_call r =
     (case r of
        Network_failure t \<Rightarrow>
          Inr \<lparr>cr_status = 0, cr_retry_after = None, cr_completed_at = t, cr_tokens = None, cr_cached = None\<rparr>
      | Response status header t body \<Rightarrow>
          (let retry = Option.bind header py_float
           in if status = 200 then
                (case parse_usage body of
                   Inl e \<Rightarrow> Inl e
                 | Inr (tokens, cached) \<Rightarrow>
                     Inr \<lparr>cr_status = status, cr_retry_after = retry, cr_completed_at = t,
                          cr_tokens = tokens, cr_cached = cached\<rparr>)
              else Inr \<lparr>cr_status = status, cr_retry_after = retry, cr_completed_at = t,
                        cr_tokens = None, cr_cached = None\<rparr>))"

definition is_real_provider_overload :: "int \<Rightarrow> pyfloat option \<Rightarrow> bool" where
  "is_real_provider_overload status_code retry_after_s =
     (if status_code \<noteq> 429 then False else retry_after_s = None)"

section \<open>A batch\<close>

record batch_result =
  b_concurrency :: int
  b_elapsed_s :: real
  b_window_s :: real
  b_tokens_in_window :: int
  b_success_count :: int
  b_overload_count :: int
  b_error_count :: int
  b_latencies_s :: "real list"
  b_real_tokens_total :: int
  b_cached_tokens_s :: "int list"
  b_error_statuses :: "int list"

definition is_overloaded :: "batch_result \<Rightarrow> bool" where
  "is_overloaded b = (0 < b_overload_count b)"

definition error_dominated :: "batch_result \<Rightarrow> bool" where
  "error_dominated b =
     (0 < b_error_count b \<and> b_success_count b + b_overload_count b < b_error_count b)"

definition cache_hit_share :: "int \<Rightarrow> batch_result \<Rightarrow> real" where
  "cache_hit_share min_cached b =
     (if b_cached_tokens_s b = [] then 0
      else real (length (filter (\<lambda>c. min_cached \<le> c) (b_cached_tokens_s b)))
             / real (length (b_cached_tokens_s b)))"

definition median_latency_s :: "batch_result \<Rightarrow> real option" where
  "median_latency_s b =
     (if b_latencies_s b = [] then None
      else let ordered = sort (b_latencies_s b); mid = length ordered div 2
           in if odd (length ordered) then Some (ordered ! mid)
              else Some ((ordered ! (mid - 1) + ordered ! mid) / 2))"

definition offered_rate_tok_s :: "real \<Rightarrow> batch_result \<Rightarrow> real" where
  "offered_rate_tok_s stagger_s b =
     (case median_latency_s b of
        None \<Rightarrow> 0
      | Some med \<Rightarrow>
          if b_real_tokens_total b \<le> 0 then 0
          else of_int (b_real_tokens_total b) /
                 max (1 / 1000) (of_int (b_concurrency b - 1) * max 0 stagger_s + med))"

definition inconclusive :: "batch_result \<Rightarrow> bool" where
  "inconclusive b = (b_success_count b = 0 \<and> b_overload_count b = 0 \<and> 0 < b_error_count b)"

definition tpm :: "batch_result \<Rightarrow> real" where
  "tpm b = (if b_window_s b \<le> 0 then 0 else of_int (b_tokens_in_window b) / b_window_s b * 60)"

text \<open>The loop over the gathered results; a call is paired with its launch time.\<close>

fun fold_results :: "real \<Rightarrow> (call_result \<times> real) list \<Rightarrow> batch_result \<Rightarrow> batch_result" where
  "fold_results window [] b = b"
| "fold_results window ((r, launched) # rs) b =
     fold_results window rs
       (if cr_status r = 200 then
          b\<lparr>b_success_count := b_success_count b + 1,
            b_latencies_s := b_latencies_s b @ [cr_completed_at r - launched],
            b_cached_tokens_s := b_cached_tokens_s b @ [case cr_cached r of Some c \<Rightarrow> c | None \<Rightarrow> -1],
            b_real_tokens_total := b_real_tokens_total b + (case cr_tokens r of Some t \<Rightarrow> t | None \<Rightarrow> 0),
            b_tokens_in_window := b_tokens_in_window b +
              (case cr_tokens r of Some t \<Rightarrow> if cr_completed_at r \<le> window then t else 0 | None \<Rightarrow> 0)\<rparr>
        else if is_real_provider_overload (cr_status r) (cr_retry_after r) then
          b\<lparr>b_overload_count := b_overload_count b + 1\<rparr>
        else
          b\<lparr>b_error_count := b_error_count b + 1,
            b_error_statuses := b_error_statuses b @ [cr_status r]\<rparr>)"

text \<open>\<open>asyncio.gather\<close>: an error of a call is raised and no result is left; of several the one
  listed first stands for the one that came first.\<close>

fun gather :: "(reply \<times> real) list \<Rightarrow> exc + (call_result \<times> real) list" where
  "gather [] = Inr []"
| "gather ((r, launched) # rs) =
     (case one_call r of
        Inl e \<Rightarrow> Inl e
      | Inr c \<Rightarrow> (case gather rs of Inl e \<Rightarrow> Inl e | Inr cs \<Rightarrow> Inr ((c, launched) # cs)))"

definition probe_batch ::
    "int \<Rightarrow> real \<Rightarrow> real \<Rightarrow> (reply \<times> real) list \<Rightarrow> exc + batch_result" where
  "probe_batch concurrency window_s elapsed replies =
     (case gather replies of
        Inl e \<Rightarrow> Inl e
      | Inr results \<Rightarrow>
          Inr (fold_results window_s results
            \<lparr>b_concurrency = concurrency, b_elapsed_s = elapsed, b_window_s = window_s,
             b_tokens_in_window = 0, b_success_count = 0, b_overload_count = 0, b_error_count = 0,
             b_latencies_s = [], b_real_tokens_total = 0, b_cached_tokens_s = [],
             b_error_statuses = []\<rparr>))"

section \<open>The search\<close>

record discovery_result =
  d_safe :: int
  d_tpm :: real
  d_probes :: "(int \<times> batch_result) list"

text \<open>
  The trail keeps, with each batch, the concurrency it was fired at. The left value is
  \<open>DiscoveryProbeError\<close>, with the inconclusive batch. \<open>None\<close> is a search out of fuel.
\<close>

definition call_probe ::
    "(nat \<Rightarrow> int \<Rightarrow> batch_result) \<Rightarrow> (int \<times> batch_result) list \<Rightarrow> int \<Rightarrow> batch_result" where
  "call_probe prober probes n = prober (length probes) n"

fun bisect ::
    "nat \<Rightarrow> (nat \<Rightarrow> int \<Rightarrow> batch_result) \<Rightarrow> int \<Rightarrow> int \<Rightarrow> int \<Rightarrow> batch_result option \<Rightarrow>
       (int \<times> batch_result) list \<Rightarrow>
       (batch_result + int \<times> batch_result option \<times> (int \<times> batch_result) list) option" where
  "bisect 0 prober tol lo hi last_safe probes = None"
| "bisect (Suc fuel) prober tol lo hi last_safe probes =
     (if tol < hi - lo then
        (let mid = (lo + hi) div 2; r = call_probe prober probes mid; probes' = probes @ [(mid, r)]
         in if inconclusive r then Some (Inl r)
            else if is_overloaded r then bisect fuel prober tol lo mid last_safe probes'
            else bisect fuel prober tol mid hi (Some r) probes')
      else Some (Inr (lo, last_safe, probes)))"

definition find_ceiling ::
    "nat \<Rightarrow> (nat \<Rightarrow> int \<Rightarrow> batch_result) \<Rightarrow> int \<Rightarrow> int \<Rightarrow> int \<Rightarrow>
       (batch_result + discovery_result) option" where
  "find_ceiling fuel prober target bisect_floor tol =
     (let top = call_probe prober [] target; probes = [(target, top)]
      in if inconclusive top then Some (Inl top)
         else if \<not> is_overloaded top then Some (Inr \<lparr>d_safe = target, d_tpm = tpm top, d_probes = probes\<rparr>)
         else
           (case bisect fuel prober tol bisect_floor target None probes of
              None \<Rightarrow> None
            | Some (Inl r) \<Rightarrow> Some (Inl r)
            | Some (Inr (lo, Some r, probes')) \<Rightarrow>
                Some (Inr \<lparr>d_safe = lo, d_tpm = tpm r, d_probes = probes'\<rparr>)
            | Some (Inr (lo, None, probes')) \<Rightarrow>
                (let r = call_probe prober probes' bisect_floor; probes'' = probes' @ [(bisect_floor, r)]
                 in if inconclusive r then Some (Inl r)
                    else Some (Inr \<lparr>d_safe = (if is_overloaded r then 0 else bisect_floor), d_tpm = tpm r,
                                    d_probes = probes''\<rparr>))))"

section \<open>Batches\<close>

text \<open>The bookkeeping a batch is meant to keep, as an invariant of the aggregation.\<close>

definition batch_accounts :: "batch_result \<Rightarrow> int \<Rightarrow> bool" where
  "batch_accounts b n \<longleftrightarrow>
     b_success_count b + b_overload_count b + b_error_count b = n \<and>
     int (length (b_latencies_s b)) = b_success_count b \<and>
     int (length (b_cached_tokens_s b)) = b_success_count b \<and>
     int (length (b_error_statuses b)) = b_error_count b \<and>
     0 \<le> b_tokens_in_window b \<and> b_tokens_in_window b \<le> b_real_tokens_total b \<and>
     0 \<le> b_success_count b \<and> 0 \<le> b_overload_count b \<and> 0 \<le> b_error_count b \<and>
     200 \<notin> set (b_error_statuses b)"

lemma fold_results_accounts:
  assumes "batch_accounts b n" "\<forall>(r, l) \<in> set rs. \<forall>t. cr_tokens r = Some t \<longrightarrow> 0 \<le> t"
  shows "batch_accounts (fold_results w rs b) (n + int (length rs))"
  using assms
proof (induction w rs b arbitrary: n rule: fold_results.induct)
  case (1 window b)
  then show ?case by simp
next
  case (2 window r launched rs b)
  define b' where "b' = (if cr_status r = 200 then
          b\<lparr>b_success_count := b_success_count b + 1,
            b_latencies_s := b_latencies_s b @ [cr_completed_at r - launched],
            b_cached_tokens_s := b_cached_tokens_s b @ [case cr_cached r of Some c \<Rightarrow> c | None \<Rightarrow> -1],
            b_real_tokens_total := b_real_tokens_total b + (case cr_tokens r of Some t \<Rightarrow> t | None \<Rightarrow> 0),
            b_tokens_in_window := b_tokens_in_window b +
              (case cr_tokens r of Some t \<Rightarrow> if cr_completed_at r \<le> window then t else 0 | None \<Rightarrow> 0)\<rparr>
        else if is_real_provider_overload (cr_status r) (cr_retry_after r) then
          b\<lparr>b_overload_count := b_overload_count b + 1\<rparr>
        else
          b\<lparr>b_error_count := b_error_count b + 1,
            b_error_statuses := b_error_statuses b @ [cr_status r]\<rparr>)"
  have "batch_accounts b' (n + 1)"
    using 2(2,3) by (auto simp: b'_def batch_accounts_def split: option.splits)
  with 2 have "batch_accounts (fold_results window rs b') (n + 1 + int (length rs))"
    unfolding b'_def by simp
  then show ?case by (simp add: b'_def algebra_simps)
qed

lemma gather_length: "gather rs = Inr cs \<Longrightarrow> length cs = length rs"
  by (induction rs arbitrary: cs) (auto split: sum.splits)

lemma gather_tokens:
  assumes "gather rs = Inr cs" "(c, l) \<in> set cs"
  shows "\<exists>r. (r, l) \<in> set rs \<and> one_call r = Inr c"
  using assms by (induction rs arbitrary: cs) (fastforce split: sum.splits)+

text \<open>
  A batch accounts for every call: each of its calls is counted once, as a success, an
  overload or an error; the latencies and cache figures belong to the successes one by one, the
  error statuses to the errors, none of them a 200; and the tokens of the window are part of the
  tokens of all successes.
\<close>

theorem batch_accounts_for_calls:
  assumes "probe_batch n window elapsed replies = Inr b"
    and "\<forall>(r, l) \<in> set replies. \<forall>c t. one_call r = Inr c \<and> cr_tokens c = Some t \<longrightarrow> 0 \<le> t"
  shows "b_success_count b + b_overload_count b + b_error_count b = int (length replies) \<and>
    int (length (b_latencies_s b)) = b_success_count b \<and>
    int (length (b_cached_tokens_s b)) = b_success_count b \<and>
    int (length (b_error_statuses b)) = b_error_count b \<and> 200 \<notin> set (b_error_statuses b) \<and>
    0 \<le> b_tokens_in_window b \<and> b_tokens_in_window b \<le> b_real_tokens_total b"
proof -
  obtain cs where g: "gather replies = Inr cs" using assms(1) by (auto simp: probe_batch_def split: sum.splits)
  have tok: "\<forall>(r, l) \<in> set cs. \<forall>t. cr_tokens r = Some t \<longrightarrow> 0 \<le> t"
    using gather_tokens [OF g] assms(2) by blast
  let ?b0 = "\<lparr>b_concurrency = n, b_elapsed_s = elapsed, b_window_s = window,
             b_tokens_in_window = 0, b_success_count = 0, b_overload_count = 0, b_error_count = 0,
             b_latencies_s = [], b_real_tokens_total = 0, b_cached_tokens_s = [],
             b_error_statuses = []\<rparr>"
  have "batch_accounts ?b0 0" by (simp add: batch_accounts_def)
  from fold_results_accounts [OF this tok, of window] assms(1) g gather_length [OF g] show ?thesis
    by (simp add: probe_batch_def batch_accounts_def)
qed

section \<open>The search\<close>

text \<open>
  What the bisection keeps: the interval shrinks between a floor and an overloaded concurrency,
  every probe above the low end was overloaded, and the low end is the floor or was seen safe.
\<close>

definition search_inv ::
    "int \<Rightarrow> int \<Rightarrow> int \<Rightarrow> batch_result option \<Rightarrow> (int \<times> batch_result) list \<Rightarrow> bool" where
  "search_inv flr lo hi last_safe probes \<longleftrightarrow>
     flr \<le> lo \<and> lo \<le> hi \<and> (\<exists>b. (hi, b) \<in> set probes \<and> is_overloaded b) \<and>
     (\<forall>(n, b) \<in> set probes. lo < n \<longrightarrow> is_overloaded b) \<and>
     (case last_safe of
        None \<Rightarrow> lo = flr \<and> (\<forall>(n, b) \<in> set probes. is_overloaded b)
      | Some r \<Rightarrow> (lo, r) \<in> set probes \<and> \<not> is_overloaded r \<and> \<not> inconclusive r)"

lemma mid_bounds: "1 \<le> tol \<Longrightarrow> tol < hi - lo \<Longrightarrow> lo < (lo + hi) div 2 \<and> (lo + hi) div 2 < hi" for lo hi tol :: int
  by linarith

lemma bisect_result:
  assumes "bisect fuel prober tol lo hi last_safe probes = Some (Inr (lo', last_safe', probes'))"
    and "search_inv flr lo hi last_safe probes" "0 \<le> tol"
  shows "\<exists>hi'. search_inv flr lo' hi' last_safe' probes' \<and> hi' - lo' \<le> tol"
  using assms
proof (induction fuel prober tol lo hi last_safe probes rule: bisect.induct)
  case (2 fuel prober tol lo hi last_safe probes)
  show ?case
  proof (cases "tol < hi - lo")
    case False
    with 2 show ?thesis by auto
  next
    case True
    define mid where "mid = (lo + hi) div 2"
    define r where "r = call_probe prober probes mid"
    have mid: "lo \<le> mid" "mid < hi" using True 2(4,5) unfolding mid_def by (linarith, linarith)
    have not: "\<not> inconclusive r" using 2(3) True by (auto simp: mid_def r_def Let_def split: if_splits)
    show ?thesis
    proof (cases "is_overloaded r")
      case True
      have inv: "search_inv flr lo mid last_safe (probes @ [(mid, r)])"
        using 2(4) mid True by (auto simp: search_inv_def split: option.splits)
      have "bisect fuel prober tol lo mid last_safe (probes @ [(mid, r)]) = Some (Inr (lo', last_safe', probes'))"
        using 2(3) True not \<open>tol < hi - lo\<close> by (simp add: mid_def r_def Let_def)
      from 2(1) [OF \<open>tol < hi - lo\<close> mid_def r_def refl not True this inv 2(5)] show ?thesis .
    next
      case False
      have inv: "search_inv flr mid hi (Some r) (probes @ [(mid, r)])"
        unfolding search_inv_def
        using 2(4) mid False not by (auto simp: search_inv_def split: option.splits)
      have "bisect fuel prober tol mid hi (Some r) (probes @ [(mid, r)]) = Some (Inr (lo', last_safe', probes'))"
        using 2(3) False not \<open>tol < hi - lo\<close> by (simp add: mid_def r_def Let_def)
      from 2(2) [OF \<open>tol < hi - lo\<close> mid_def r_def refl not False this inv 2(5)] show ?thesis .
    qed
  qed
qed simp

lemma find_ceiling_cases:
  assumes "find_ceiling fuel prober target flr tol = Some (Inr d)"
  obtains (top) "\<not> is_overloaded (prober 0 target)" "\<not> inconclusive (prober 0 target)"
      "d = \<lparr>d_safe = target, d_tpm = tpm (prober 0 target), d_probes = [(target, prober 0 target)]\<rparr>"
    | (found) lo r probes where "is_overloaded (prober 0 target)"
      "bisect fuel prober tol flr target None [(target, prober 0 target)] = Some (Inr (lo, Some r, probes))"
      "d = \<lparr>d_safe = lo, d_tpm = tpm r, d_probes = probes\<rparr>"
    | (floor) lo r probes where "is_overloaded (prober 0 target)"
      "bisect fuel prober tol flr target None [(target, prober 0 target)] = Some (Inr (lo, None, probes))"
      "r = prober (length probes) flr" "\<not> inconclusive r"
      "d = \<lparr>d_safe = (if is_overloaded r then 0 else flr), d_tpm = tpm r, d_probes = probes @ [(flr, r)]\<rparr>"
  using assms that
  by (auto simp: find_ceiling_def call_probe_def Let_def split: if_splits option.splits sum.splits prod.splits)

text \<open>
  The ceiling is measured, never made up. A positive answer is the concurrency of a batch in
  the trail that was neither overloaded nor inconclusive, with that batch's rate; every batch
  fired above it was overloaded; and it is the target itself or within the tolerance of an
  overloaded batch. The answer zero means that the floor itself was overloaded.
\<close>

theorem ceiling_is_measured:
  assumes "find_ceiling fuel prober target flr tol = Some (Inr d)" "0 < flr" "flr \<le> target" "0 \<le> tol"
  shows "(\<forall>(n, b) \<in> set (d_probes d). d_safe d < n \<longrightarrow> is_overloaded b) \<and>
    (if d_safe d = 0 then \<exists>b. (flr, b) \<in> set (d_probes d) \<and> is_overloaded b
     else \<exists>b. (d_safe d, b) \<in> set (d_probes d) \<and> \<not> is_overloaded b \<and> \<not> inconclusive b \<and> d_tpm d = tpm b \<and>
       (d_safe d = target \<or>
        (\<exists>(n, b') \<in> set (d_probes d). is_overloaded b' \<and> n - d_safe d \<le> tol)))"
  using assms(1)
proof (cases rule: find_ceiling_cases)
  case top
  then show ?thesis using assms(2,3) by auto
next
  case (found lo r probes)
  have "search_inv flr flr target None [(target, prober 0 target)]"
    using found(1) assms(3) by (simp add: search_inv_def)
  from bisect_result [OF found(2) this assms(4)] obtain hi where
    inv: "search_inv flr lo hi (Some r) probes" and near: "hi - lo \<le> tol" by auto
  then have "lo \<noteq> 0" using assms(2) by (simp add: search_inv_def)
  with inv near found(3) show ?thesis by (fastforce simp: search_inv_def)
next
  case (floor lo r probes)
  have "search_inv flr flr target None [(target, prober 0 target)]"
    using floor(1) assms(3) by (simp add: search_inv_def)
  from bisect_result [OF floor(2) this assms(4)] obtain hi where
    inv: "search_inv flr lo hi None probes" and near: "hi - lo \<le> tol" by auto
  then have lo: "lo = flr" and ov: "\<forall>(n, b) \<in> set probes. flr < n \<longrightarrow> is_overloaded b"
    and all: "\<forall>(n, b) \<in> set probes. is_overloaded b"
    and hi: "\<exists>b. (hi, b) \<in> set probes \<and> is_overloaded b"
    by (auto simp: search_inv_def)
  show ?thesis
  proof (cases "is_overloaded r")
    case True
    with all floor(5) show ?thesis by auto
  next
    case False
    with floor(4,5) ov hi near lo assms(2) show ?thesis by fastforce
  qed
qed

lemma bisect_ends:
  assumes "1 \<le> tol" "nat (hi - lo) < fuel"
  shows "bisect fuel prober tol lo hi last_safe probes \<noteq> None"
  using assms
proof (induction fuel prober tol lo hi last_safe probes rule: bisect.induct)
  case (2 fuel prober tol lo hi last_safe probes)
  show ?case
  proof (cases "tol < hi - lo")
    case True
    define mid where "mid = (lo + hi) div 2"
    define r where "r = call_probe prober probes mid"
    have mid: "lo < mid" "mid < hi" using mid_bounds [OF 2(3) True] by (auto simp: mid_def)
    then have less: "nat (mid - lo) < fuel" "nat (hi - mid) < fuel" using 2(4) by linarith+
    note ih = 2(1) [OF True mid_def r_def refl _ _ 2(3) less(1)] 2(2) [OF True mid_def r_def refl _ _ 2(3) less(2)]
    show ?thesis
      using ih True by (simp add: mid_def r_def Let_def)
  qed simp
qed simp

text \<open>
  The search ends: with a tolerance of at least one, as many rounds as the interval is wide
  are enough fuel.
\<close>

theorem find_ceiling_terminates:
  assumes "1 \<le> tol" "nat (target - flr) < fuel"
  shows "\<exists>res. find_ceiling fuel prober target flr tol = Some res"
  using bisect_ends [OF assms, of prober None "[(target, prober 0 target)]"]
  by (auto simp: find_ceiling_def call_probe_def Let_def split: option.splits sum.splits prod.splits)

text \<open>
  A tolerance of zero does not end: when the floor is safe and everything above it is overloaded,
  no amount of fuel is enough, the loop probes the floor for ever.
\<close>

theorem zero_tolerance_diverges:
  assumes "\<forall>k n. \<not> inconclusive (prober k n)" "\<forall>k n. is_overloaded (prober k n) = (flr < n)" "flr < target"
  shows "find_ceiling fuel prober target flr 0 = None"
proof -
  have "flr < hi \<Longrightarrow> bisect fuel prober 0 flr hi last_safe probes = None" for hi last_safe probes
  proof (induction fuel arbitrary: hi last_safe probes)
    case (Suc fuel)
    have "flr \<le> (flr + hi) div 2" "(flr + hi) div 2 < hi" using Suc.prems by linarith+
    then show ?case
      using Suc assms(1,2) by (cases "flr < (flr + hi) div 2") (simp_all add: call_probe_def Let_def)
  qed simp
  with assms show ?thesis by (simp add: find_ceiling_def call_probe_def Let_def)
qed

section \<open>Instances\<close>

definition demo_batch :: "int \<Rightarrow> int \<Rightarrow> batch_result" where
  "demo_batch cap n =
     \<lparr>b_concurrency = n, b_elapsed_s = 60, b_window_s = 60, b_tokens_in_window = n * 100,
      b_success_count = min n cap, b_overload_count = max 0 (n - cap), b_error_count = 0,
      b_latencies_s = [], b_real_tokens_total = n * 100, b_cached_tokens_s = [], b_error_statuses = []\<rparr>"

theorem batch_accounts_for_calls_witness:
  "case probe_batch 2 60 9
      [(Response 200 None 5 (Some (JsObj [(''usage'', JsObj [(''total_tokens'', JsInt 40)])])), 0),
       (Network_failure 7, 1)] of
     Inr b \<Rightarrow> b_success_count b + b_overload_count b + b_error_count b = 2 | Inl e \<Rightarrow> False"
proof -
  let ?rs = "[(Response 200 None 5 (Some (JsObj [(''usage'', JsObj [(''total_tokens'', JsInt 40)])])), 0),
       (Network_failure 7, 1)] :: (reply \<times> real) list"
  have calls: "one_call (Response 200 None 5 (Some (JsObj [(''usage'', JsObj [(''total_tokens'', JsInt 40)])]))) =
      Inr \<lparr>cr_status = 200, cr_retry_after = None, cr_completed_at = 5, cr_tokens = Some 40, cr_cached = None\<rparr>"
    by (simp add: one_call_def parse_usage_def usage_tokens_def usage_cached_tokens_def obj_get_def)
  obtain b where b: "probe_batch 2 60 9 ?rs = Inr b"
    using calls by (auto simp: probe_batch_def one_call_def split: sum.splits)
  have "\<forall>(r, l) \<in> set ?rs. \<forall>c t. one_call r = Inr c \<and> cr_tokens c = Some t \<longrightarrow> 0 \<le> t"
    using calls by (auto simp: one_call_def [of "Network_failure 7"])
  from batch_accounts_for_calls [OF b this] b show ?thesis by simp
qed

theorem find_ceiling_terminates_witness:
  "\<exists>res. find_ceiling 96 (\<lambda>k n. demo_batch 40 n) 100 5 10 = Some res"
  by (rule find_ceiling_terminates) simp_all

theorem zero_tolerance_diverges_witness:
  "find_ceiling 1000 (\<lambda>k n. demo_batch 5 n) 100 5 0 = None"
  by (rule zero_tolerance_diverges) (auto simp: inconclusive_def is_overloaded_def demo_batch_def)

theorem ceiling_is_measured_witness:
  "\<exists>d. find_ceiling 96 (\<lambda>k n. demo_batch 40 n) 100 5 10 = Some (Inr d) \<and>
     (\<forall>(n, b) \<in> set (d_probes d). d_safe d < n \<longrightarrow> is_overloaded b)"
proof -
  have "\<exists>d. find_ceiling 96 (\<lambda>k n. demo_batch 40 n) 100 5 10 = Some (Inr d)"
    by (simp add: find_ceiling_def call_probe_def demo_batch_def inconclusive_def is_overloaded_def
        eval_nat_numeral Let_def)
  then obtain d where d: "find_ceiling 96 (\<lambda>k n. demo_batch 40 n) 100 5 10 = Some (Inr d)" ..
  from ceiling_is_measured [OF this] d show ?thesis by simp
qed

end
