(* ===== verification/Compaction.thy ===== *)
theory Compaction
  imports Py_Text
begin

text \<open>
  \<open>swebench_eval/harnesses/compaction.py\<close>: the deterministic context compaction shared by the two
  harnesses the repository owns. A message keeps the fields the code reads; \<open>None\<close> is a missing
  (or null) field. The message lists are never indexed out of range except where the model
  returns \<open>Index_error\<close>.
\<close>

record tool_call =
  tc_id :: "string option"
  tc_arguments :: string

record message =
  m_role :: string
  m_content :: "string option"
  m_reasoning :: "string option"
  m_tool_calls :: "tool_call list"
  m_tool_call_id :: "string option"
  m_extra :: "string hash option"

definition text_of :: "string option \<Rightarrow> string" where
  "text_of s = (case s of Some t \<Rightarrow> t | None \<Rightarrow> [])"

definition content_len :: "message \<Rightarrow> nat" where
  "content_len m = length (text_of (m_content m))"

definition message_chars :: "message \<Rightarrow> nat" where
  "message_chars m = content_len m + length (text_of (m_reasoning m)) +
     (\<Sum>tc \<leftarrow> m_tool_calls m. length (tc_arguments tc))"

definition messages_chars :: "message list \<Rightarrow> nat" where
  "messages_chars ms = (\<Sum>m \<leftarrow> ms. message_chars m)"

definition is_tool :: "message \<Rightarrow> bool" where
  "is_tool m = (m_role m = ''tool'')"

definition called_ids :: "message list \<Rightarrow> string set" where
  "called_ids ms = {i. \<exists>m \<in> set ms. \<exists>tc \<in> set (m_tool_calls m). tc_id tc = Some i \<and> i \<noteq> []}"

definition answered_ids :: "message list \<Rightarrow> string set" where
  "answered_ids ms = {i. \<exists>m \<in> set ms. is_tool m \<and> m_tool_call_id m = Some i \<and> i \<noteq> []}"

text \<open>Results without their call, calls without a result.\<close>

definition find_orphans :: "message list \<Rightarrow> string set \<times> string set" where
  "find_orphans ms = (answered_ids ms - called_ids ms, called_ids ms - answered_ids ms)"

definition turn_groups :: "message list \<Rightarrow> message list list" where
  "turn_groups middle =
     foldl (\<lambda>groups m. if m_role m = ''assistant'' \<or> groups = [] then groups @ [[m]]
                       else butlast groups @ [List.last groups @ [m]]) [] middle"

section \<open>The stub\<close>

fun digits_of :: "nat \<Rightarrow> string" where
  "digits_of n = (if n < 10 then [char_of (48 + n)] else digits_of (n div 10) @ [char_of (48 + n mod 10)])"

declare digits_of.simps [simp del]

definition stub_suffix :: "nat \<Rightarrow> string" where
  "stub_suffix elided =
     [char_of (10 :: nat)] @ ''[compacted: '' @ digits_of elided @
     '' chars elided. The full output is preserved in the run'' @ [char_of (39 :: nat)] @
     ''s trajectory artifact. Continue from your most recent conclusion.]''"

definition stub_message :: "nat \<Rightarrow> string \<Rightarrow> message \<Rightarrow> message" where
  "stub_message keep ending m =
     m\<lparr>m_content := Some (take keep (text_of (m_content m)) @ ending),
       m_extra := (case m_extra m of None \<Rightarrow> None
                   | Some x \<Rightarrow> Some (AList.update ''compacted'' ''True'' x))\<rparr>"

text \<open>Stage 1 on one message of the middle, with whether it was stubbed.\<close>

definition stub1 :: "nat \<Rightarrow> message \<Rightarrow> message \<times> bool" where
  "stub1 keep m =
     (if \<not> is_tool m then (m, False)
      else let n = content_len m; ending = stub_suffix (n - keep)
           in if n \<le> keep + length ending then (m, False) else (stub_message keep ending m, True))"

text \<open>Stage 3 on one message of the tail.\<close>

definition cap1 :: "nat \<Rightarrow> message \<Rightarrow> message \<times> bool" where
  "cap1 cap m =
     (if is_tool m \<and> cap < content_len m
      then (stub_message cap (stub_suffix (content_len m - cap)) m, True) else (m, False))"

section \<open>The tail boundary\<close>

fun snap_back :: "nat \<Rightarrow> message list \<Rightarrow> nat \<Rightarrow> nat" where
  "snap_back keep_head ms 0 = 0"
| "snap_back keep_head ms (Suc t) =
     (if keep_head < Suc t \<and> is_tool (ms ! Suc t) then snap_back keep_head ms t else Suc t)"

lemma snap_back_le: "snap_back keep_head ms t \<le> t"
  by (induction t) (auto simp: le_Suc_eq)

function walk_tail :: "nat \<Rightarrow> message list \<Rightarrow> nat \<Rightarrow> nat \<Rightarrow> nat \<Rightarrow> nat \<times> nat" where
  "walk_tail keep_head ms budget t acc =
     (if keep_head < t then
        (let nxt = snap_back keep_head ms (t - 1); c = messages_chars (drop nxt (take t ms))
         in if acc \<noteq> 0 \<and> budget < acc + c then (t, acc)
            else walk_tail keep_head ms budget nxt (acc + c))
      else (t, acc))"
  by pat_completeness auto
termination
proof (relation "measure (\<lambda>(keep_head, ms, budget, t, acc). t)")
  fix keep_head ms budget t acc nxt c
  assume "keep_head < t" "nxt = snap_back keep_head ms (t - 1)"
  then show "((keep_head, ms, budget, nxt, acc + c), keep_head, ms, budget, t, acc)
      \<in> measure (\<lambda>(keep_head, ms, budget, t, acc). t)"
    using snap_back_le [of keep_head ms "t - 1"] by simp
qed simp

declare walk_tail.simps [simp del]

text \<open>The start of the tail and, with a byte budget, the characters in it.\<close>

definition tail_boundary :: "nat \<Rightarrow> nat \<Rightarrow> nat option \<Rightarrow> message list \<Rightarrow> nat \<times> nat option" where
  "tail_boundary keep_head keep_tail keep_tail_chars ms =
     (let start = snap_back keep_head ms (length ms - keep_tail)
      in case keep_tail_chars of
           None \<Rightarrow> (start, None)
         | Some budget \<Rightarrow>
             (let (t, acc) = walk_tail keep_head ms budget (length ms) 0
              in (if acc = 0 then min start t else t, Some acc)))"

section \<open>Dropping whole groups\<close>

fun drop_groups :: "message list \<Rightarrow> message list \<Rightarrow> nat \<Rightarrow> message list list \<Rightarrow> message list list \<times> nat" where
  "drop_groups head tail target [] = ([], 0)"
| "drop_groups head tail target (g # gs) =
     (if target < messages_chars (head @ concat (g # gs) @ tail)
      then (let (rest, n) = drop_groups head tail target gs in (rest, Suc n))
      else (g # gs, 0))"

section \<open>The whole pass\<close>

record compact_params =
  keep_head :: nat
  keep_tail :: nat
  keep_tail_chars :: "nat option"
  keep_tool_head_chars :: nat
  target_chars :: "nat option"
  tail_hard_cap_chars :: "nat option"
  min_gain_ratio :: real

definition default_params :: compact_params where
  "default_params = \<lparr>keep_head = 2, keep_tail = 6, keep_tail_chars = None, keep_tool_head_chars = 800,
     target_chars = None, tail_hard_cap_chars = None, min_gain_ratio = 1 / 10\<rparr>"

record compact_stats =
  cs_before_msgs :: nat
  cs_before_chars :: nat
  cs_stubbed :: nat
  cs_dropped_groups :: nat
  cs_stage2 :: bool
  cs_tail_capped :: nat
  cs_exhausted :: bool
  cs_tail_chars :: "nat option"
  cs_tail_snapped :: "bool option"
  cs_after_msgs :: nat
  cs_after_chars :: nat
  cs_gain_ratio :: real
  cs_made_progress :: "bool option"

datatype compact_error = Index_error | Orphaned_results

definition compact_messages ::
    "compact_params \<Rightarrow> message list \<Rightarrow> compact_error + message list \<times> compact_stats" where
  "compact_messages p ms =
     (let before = messages_chars ms
      in if length ms \<le> keep_head p + keep_tail p then
           Inr (ms, \<lparr>cs_before_msgs = length ms, cs_before_chars = before, cs_stubbed = 0,
             cs_dropped_groups = 0, cs_stage2 = False, cs_tail_capped = 0, cs_exhausted = False,
             cs_tail_chars = None, cs_tail_snapped = None, cs_after_msgs = length ms,
             cs_after_chars = before, cs_gain_ratio = 0, cs_made_progress = None\<rparr>)
         else if keep_tail p = 0 then Inl Index_error
         else
           (let (start, tail_chars) = tail_boundary (keep_head p) (keep_tail p) (keep_tail_chars p) ms;
                head = take (keep_head p) ms; tail = drop start ms;
                stubbed = map (stub1 (keep_tool_head_chars p)) (drop (keep_head p) (take start ms));
                pruned1 = map fst stubbed;
                (groups, dropped) = (case target_chars p of
                    None \<Rightarrow> ([pruned1], 0)
                  | Some target \<Rightarrow> drop_groups head tail target (turn_groups pruned1));
                pruned = concat groups;
                capped = (case (target_chars p, tail_hard_cap_chars p) of
                    (Some target, Some cap) \<Rightarrow>
                      if target < messages_chars (head @ pruned @ tail) then map (cap1 cap) tail
                      else map (\<lambda>m. (m, False)) tail
                  | _ \<Rightarrow> map (\<lambda>m. (m, False)) tail);
                out = head @ pruned @ map fst capped;
                after = messages_chars out;
                gain = (if before = 0 then 0 else (real before - real after) / real before)
            in if fst (find_orphans out) \<noteq> {} then Inl Orphaned_results
               else Inr (out, \<lparr>cs_before_msgs = length ms, cs_before_chars = before,
                 cs_stubbed = length (filter snd stubbed), cs_dropped_groups = dropped,
                 cs_stage2 = (0 < dropped), cs_tail_capped = length (filter snd capped),
                 cs_exhausted = (target_chars p \<noteq> None \<and> groups = []),
                 cs_tail_chars = tail_chars,
                 cs_tail_snapped = Some (start \<noteq> length ms - keep_tail p),
                 cs_after_msgs = length out, cs_after_chars = after, cs_gain_ratio = gain,
                 cs_made_progress = Some (min_gain_ratio p \<le> gain)\<rparr>)))"

section \<open>The trigger and the native counters\<close>

definition OUTPUT_RESERVE :: int where "OUTPUT_RESERVE = 16384"

definition compute_threshold :: "int option \<Rightarrow> int \<Rightarrow> int" where
  "compute_threshold window output_reserve =
     (case window of
        None \<Rightarrow> 0
      | Some w \<Rightarrow> min (py_int (9 / 10 * of_int w)) (w - output_reserve))"

text \<open>\<open>str.count\<close>: occurrences that do not overlap.\<close>

function count_text :: "string \<Rightarrow> string \<Rightarrow> nat" where
  "count_text pat s =
     (if pat = [] then length s + 1
      else if s = [] then 0
      else if prefix pat s then Suc (count_text pat (drop (length pat) s))
      else count_text pat (tl s))"
  by pat_completeness auto
termination
  by (relation "measure (\<lambda>(pat, s). length s)") (auto simp: neq_Nil_conv)

declare count_text.simps [simp del]

definition count_native_compactions :: "string \<Rightarrow> string list \<Rightarrow> nat option" where
  "count_native_compactions text markers =
     (if text = [] then None
      else Some (\<Sum>m \<leftarrow> markers. count_text (lower m) (lower text)))"

section \<open>Well-formed conversations\<close>

text \<open>
  What the harnesses send: every tool result answers a call of the assistant message its run of
  results follows (\<open>answers_ok\<close>), and every call of an assistant message is answered in that run
  (\<open>calls_complete\<close>).
\<close>

definition ids_of :: "message \<Rightarrow> string set" where
  "ids_of m = {i. \<exists>tc \<in> set (m_tool_calls m). tc_id tc = Some i \<and> i \<noteq> []}"

definition caller_ids :: "message \<Rightarrow> string set" where
  "caller_ids m = (if m_role m = ''assistant'' then ids_of m else {})"

definition answer_of :: "message \<Rightarrow> string set" where
  "answer_of m = (case m_tool_call_id m of Some i \<Rightarrow> if i = [] then {} else {i} | None \<Rightarrow> {})"

fun answers_ok :: "string set \<Rightarrow> message list \<Rightarrow> bool" where
  "answers_ok ids [] = True"
| "answers_ok ids (m # ms) =
     (if is_tool m then answer_of m \<subseteq> ids \<and> answers_ok ids ms else answers_ok (caller_ids m) ms)"

fun calls_complete :: "string set \<Rightarrow> message list \<Rightarrow> bool" where
  "calls_complete pending [] = (pending = {})"
| "calls_complete pending (m # ms) =
     (if is_tool m then ids_of m = {} \<and> calls_complete (pending - answer_of m) ms
      else pending = {} \<and> calls_complete (ids_of m) ms)"

fun last_ids :: "string set \<Rightarrow> message list \<Rightarrow> string set" where
  "last_ids ids [] = ids"
| "last_ids ids (m # ms) = (if is_tool m then last_ids ids ms else last_ids (caller_ids m) ms)"

lemma called_simps [simp]:
  "called_ids [] = {}" "called_ids (m # ms) = ids_of m \<union> called_ids ms"
  "called_ids (xs @ ys) = called_ids xs \<union> called_ids ys"
  by (auto simp: called_ids_def ids_of_def)

lemma answered_simps [simp]:
  "answered_ids [] = {}"
  "answered_ids (m # ms) = (if is_tool m then answer_of m else {}) \<union> answered_ids ms"
  "answered_ids (xs @ ys) = answered_ids xs \<union> answered_ids ys"
  by (auto simp: answered_ids_def answer_of_def split: option.splits if_splits)

lemma answers_ok_append: "answers_ok ids (xs @ ys) \<longleftrightarrow> answers_ok ids xs \<and> answers_ok (last_ids ids xs) ys"
  by (induction xs arbitrary: ids) auto

lemma last_ids_called: "last_ids ids ms \<subseteq> ids \<union> called_ids ms"
  by (induction ms arbitrary: ids) (auto simp: caller_ids_def; blast)+

lemma answers_ok_called: "answers_ok ids ms \<Longrightarrow> answered_ids ms \<subseteq> ids \<union> called_ids ms"
  by (induction ids ms rule: answers_ok.induct) (auto simp: caller_ids_def split: if_splits)

text \<open>A list that does not begin with a tool result does not depend on what precedes it.\<close>

definition fresh_start :: "message list \<Rightarrow> bool" where
  "fresh_start ms = (case ms of [] \<Rightarrow> True | m # _ \<Rightarrow> \<not> is_tool m)"

lemma answers_ok_fresh: "fresh_start ms \<Longrightarrow> answers_ok ids ms \<Longrightarrow> answers_ok ids' ms"
  by (cases ms) (auto simp: fresh_start_def)

lemma complete_append:
  "fresh_start ys \<Longrightarrow> calls_complete pending (xs @ ys) \<longleftrightarrow> calls_complete pending xs \<and> calls_complete {} ys"
  by (induction xs arbitrary: pending) (cases ys; auto simp: fresh_start_def)+

lemma complete_answered: "calls_complete pending ms \<Longrightarrow> pending \<union> called_ids ms \<subseteq> answered_ids ms"
  by (induction pending ms rule: calls_complete.induct) (auto split: if_splits)

section \<open>Pieces of the conversation\<close>

lemma snap_back_ok:
  "k \<le> t \<Longrightarrow> k \<le> snap_back k ms t \<and> (snap_back k ms t = k \<or> \<not> is_tool (ms ! snap_back k ms t))"
  by (induction t) (auto simp: le_Suc_eq)

definition boundary_ok :: "nat \<Rightarrow> message list \<Rightarrow> nat \<Rightarrow> bool" where
  "boundary_ok k ms t \<longleftrightarrow> k \<le> t \<and> t \<le> length ms \<and> (t = k \<or> t < length ms \<and> \<not> is_tool (ms ! t))"

lemma snap_boundary: "k \<le> t \<Longrightarrow> t < length ms \<Longrightarrow> boundary_ok k ms (snap_back k ms t)"
  using snap_back_ok [of k t ms] snap_back_le [of k ms t] by (auto simp: boundary_ok_def)

lemma walk_tail_boundary:
  assumes "walk_tail k ms budget t acc = (t', acc')" "k \<le> t" "t \<le> length ms"
    and "t = length ms \<and> acc = 0 \<or> boundary_ok k ms t"
  shows "t' = length ms \<and> acc' = 0 \<or> boundary_ok k ms t'"
  using assms
proof (induction k ms budget t acc rule: walk_tail.induct)
  case (1 k ms budget t acc)
  define nxt where "nxt = snap_back k ms (t - 1)"
  define c where "c = messages_chars (drop nxt (take t ms))"
  show ?case
  proof (cases "k < t \<and> \<not> (acc \<noteq> 0 \<and> budget < acc + c)")
    case True
    have "boundary_ok k ms nxt"
      unfolding nxt_def using True 1(4) by (intro snap_boundary) auto
    moreover have "walk_tail k ms budget nxt (acc + c) = (t', acc')"
      using 1(2) True by (auto simp: walk_tail.simps [of k ms budget t acc] Let_def nxt_def c_def split: if_splits)
    ultimately show ?thesis
      using 1(1) [OF _ nxt_def c_def] True by (auto simp: boundary_ok_def)
  next
    case False
    then have "(t', acc') = (t, acc)"
      using 1(2) by (auto simp: walk_tail.simps [of k ms budget t acc] Let_def nxt_def c_def split: if_splits)
    with 1(5) show ?thesis by simp
  qed
qed

lemma tail_boundary_ok:
  assumes "tail_boundary k n budget ms = (start, tc)" "0 < n" "k + n < length ms"
  shows "boundary_ok k ms start"
proof -
  have s: "boundary_ok k ms (snap_back k ms (length ms - n))"
    using assms(2,3) by (intro snap_boundary) auto
  show ?thesis
  proof (cases budget)
    case None
    with s assms(1) show ?thesis by (simp add: tail_boundary_def)
  next
    case (Some b)
    obtain t acc where w: "walk_tail k ms b (length ms) 0 = (t, acc)" by fastforce
    from walk_tail_boundary [OF w] assms(3) have "t = length ms \<and> acc = 0 \<or> boundary_ok k ms t" by simp
    with s assms(1) Some w show ?thesis
      by (auto simp: tail_boundary_def boundary_ok_def min_def split: if_splits)
  qed
qed

lemma turn_groups_snoc:
  "turn_groups (ms @ [m]) =
     (if m_role m = ''assistant'' \<or> turn_groups ms = [] then turn_groups ms @ [[m]]
      else butlast (turn_groups ms) @ [List.last (turn_groups ms) @ [m]])"
  by (simp add: turn_groups_def)

lemma turn_groups_parts:
  "concat (turn_groups ms) = ms"
  "\<forall>g \<in> set (turn_groups ms). g \<noteq> []"
  "\<forall>g \<in> set (tl (turn_groups ms)). m_role (hd g) = ''assistant''"
proof (induction ms rule: rev_induct)
  case Nil
  { case 1 show ?case by (simp add: turn_groups_def) next
    case 2 show ?case by (simp add: turn_groups_def) next
    case 3 show ?case by (simp add: turn_groups_def) }
next
  case (snoc m ms)
  let ?gs = "turn_groups ms"
  have split: "?gs \<noteq> [] \<Longrightarrow> ?gs = butlast ?gs @ [List.last ?gs]" by simp
  { case 1
    show ?case
    proof (cases "m_role m = ''assistant'' \<or> ?gs = []")
      case False
      then have "concat (butlast ?gs) @ List.last ?gs = concat ?gs"
        using split by (metis append.right_neutral concat.simps concat_append)
      with False snoc(1) show ?thesis by (simp add: turn_groups_snoc)
    qed (use snoc(1) in \<open>auto simp: turn_groups_snoc\<close>)
  next
    case 2
    show ?case using snoc(2) by (auto simp: turn_groups_snoc dest: in_set_butlastD)
  next
    case 3
    show ?case
    proof (cases "?gs = []")
      case False
      show ?thesis
      proof (cases "m_role m = ''assistant''")
        case True
        with False snoc(3) show ?thesis by (auto simp: turn_groups_snoc)
      next
        case nr: False
        obtain bs l where gs: "?gs = bs @ [l]" using split False by blast
        with snoc(2,3) nr show ?thesis
          by (cases bs) (auto simp: turn_groups_snoc)
      qed
    qed (simp add: turn_groups_snoc)
  }
qed

section \<open>What the stages keep\<close>

text \<open>A message as it was, or a tool result with a shortened content.\<close>

definition kept :: "message \<Rightarrow> message \<Rightarrow> bool" where
  "kept m m' \<longleftrightarrow> m' = m \<or> is_tool m \<and> m_role m' = m_role m \<and> m_reasoning m' = m_reasoning m \<and>
     m_tool_calls m' = m_tool_calls m \<and> m_tool_call_id m' = m_tool_call_id m \<and>
     (\<exists>n ending. m_content m' = Some (take n (text_of (m_content m)) @ ending))"

lemma kept_refl [simp]: "kept m m"
  by (simp add: kept_def)

lemma kept_fields:
  "kept m m' \<Longrightarrow> is_tool m' = is_tool m" "kept m m' \<Longrightarrow> ids_of m' = ids_of m"
  "kept m m' \<Longrightarrow> caller_ids m' = caller_ids m" "kept m m' \<Longrightarrow> answer_of m' = answer_of m"
  "kept m m' \<Longrightarrow> m_role m' = m_role m"
  by (auto simp: kept_def is_tool_def ids_of_def caller_ids_def answer_of_def)

lemma stub1_kept: "kept m (fst (stub1 k m))"
  by (auto simp: stub1_def kept_def stub_message_def Let_def)

lemma cap1_kept: "kept m (fst (cap1 c m))"
  by (auto simp: cap1_def kept_def stub_message_def)

lemma kept_lists:
  assumes "list_all2 kept ms ms'"
  shows "answers_ok ids ms' = answers_ok ids ms" "calls_complete ids ms' = calls_complete ids ms"
    "called_ids ms' = called_ids ms" "fresh_start ms' = fresh_start ms"
  using assms
  by (induction arbitrary: ids rule: list_all2_induct; simp add: kept_fields fresh_start_def)+

lemma list_all2_map_kept: "(\<And>m. kept m (f m)) \<Longrightarrow> list_all2 kept ms (map f ms)"
  by (simp add: list.rel_map(2) list.rel_refl_strong)

lemma drop_groups_spec:
  assumes "drop_groups head tail target gs = (gs', n)"
  shows "gs' = drop n gs" "gs' \<noteq> [] \<Longrightarrow> messages_chars (head @ concat gs' @ tail) \<le> target"
  using assms by (induction gs arbitrary: gs' n) (auto split: if_splits prod.splits)

lemma assistant_not_tool: "m_role m = ''assistant'' \<Longrightarrow> \<not> is_tool m"
  by (simp add: is_tool_def)

text \<open>What is left of the groups after whole groups are dropped from the front.\<close>

lemma remaining_groups:
  assumes "n \<noteq> 0"
  shows "fresh_start (concat (drop n (turn_groups ms)))"
proof (cases "drop n (turn_groups ms)")
  case (Cons g gs)
  with assms have "g \<in> set (tl (turn_groups ms))"
    by (metis drop_Suc in_set_dropD list.set_intros(1) not0_implies_Suc)
  then have "m_role (hd g) = ''assistant''" "g \<noteq> []"
    using turn_groups_parts(2,3) [of ms] by (metis list.sel(2) list.set_sel(2))+
  with Cons show ?thesis by (cases g) (auto simp: fresh_start_def assistant_not_tool)
qed (simp add: fresh_start_def)

text \<open>The shape of a compaction that does something.\<close>

definition pass_shape :: "compact_params \<Rightarrow> message list \<Rightarrow> message list \<Rightarrow> nat \<Rightarrow> message list \<Rightarrow> message list \<Rightarrow> nat \<Rightarrow> bool"
  where
  "pass_shape p ms out start pruned tail' n \<longleftrightarrow>
     boundary_ok (keep_head p) ms start \<and> out = take (keep_head p) ms @ pruned @ tail' \<and>
     list_all2 kept (drop start ms) tail' \<and>
     (n = 0 \<and> pruned = map (fst \<circ> stub1 (keep_tool_head_chars p)) (drop (keep_head p) (take start ms)) \<or>
      n \<noteq> 0 \<and> pruned = concat (drop n (turn_groups
        (map (fst \<circ> stub1 (keep_tool_head_chars p)) (drop (keep_head p) (take start ms))))))"

definition pass_output :: "compact_params \<Rightarrow> message list \<Rightarrow> message list \<times> nat \<times> message list \<times> message list \<times> nat" where
  "pass_output p ms =
     (let (start, tail_chars) = tail_boundary (keep_head p) (keep_tail p) (keep_tail_chars p) ms;
          head = take (keep_head p) ms; tail = drop start ms;
          pruned1 = map (fst \<circ> stub1 (keep_tool_head_chars p)) (drop (keep_head p) (take start ms));
          (groups, dropped) = (case target_chars p of
              None \<Rightarrow> ([pruned1], 0)
            | Some target \<Rightarrow> drop_groups head tail target (turn_groups pruned1));
          tail' = (case (target_chars p, tail_hard_cap_chars p) of
              (Some target, Some cap) \<Rightarrow>
                if target < messages_chars (head @ concat groups @ tail) then map (fst \<circ> cap1 cap) tail else tail
            | _ \<Rightarrow> tail)
      in (head @ concat groups @ tail', start, concat groups, tail', dropped))"

lemma compact_as_pass:
  assumes "keep_head p + keep_tail p < length ms" "0 < keep_tail p"
    and "pass_output p ms = (out, start, pruned, tail', n)"
  shows "\<exists>st. compact_messages p ms =
     (if answered_ids out - called_ids out \<noteq> {} then Inl Orphaned_results else Inr (out, st))"
proof -
  obtain start' tc where b: "tail_boundary (keep_head p) (keep_tail p) (keep_tail_chars p) ms = (start', tc)" by fastforce
  define stubs where "stubs = map (stub1 (keep_tool_head_chars p)) (drop (keep_head p) (take start' ms))"
  have fs: "map (fst \<circ> stub1 (keep_tool_head_chars p)) (drop (keep_head p) (take start' ms)) = map fst stubs"
    by (simp add: stubs_def)
  obtain gs n' where g: "(case target_chars p of None \<Rightarrow> ([map fst stubs], 0)
      | Some target \<Rightarrow> drop_groups (take (keep_head p) ms) (drop start' ms) target (turn_groups (map fst stubs))) = (gs, n')"
    by fastforce
  define capped where "capped = (case target_chars p of
      None \<Rightarrow> map (\<lambda>m. (m, False)) (drop start' ms)
    | Some target \<Rightarrow> (case tail_hard_cap_chars p of
          None \<Rightarrow> map (\<lambda>m. (m, False)) (drop start' ms)
        | Some cap \<Rightarrow>
            if target < messages_chars (take (keep_head p) ms @ concat gs @ drop start' ms)
            then map (cap1 cap) (drop start' ms) else map (\<lambda>m. (m, False)) (drop start' ms)))"
  have "pass_output p ms = (take (keep_head p) ms @ concat gs @ map fst capped, start', concat gs, map fst capped, n')"
    unfolding pass_output_def b Let_def prod.case fs g
    by (simp add: capped_def comp_def split: option.split)
  then have "out = take (keep_head p) ms @ concat gs @ map fst capped"
    using assms(3) by simp
  moreover have "\<exists>st. compact_messages p ms =
      (if fst (find_orphans (take (keep_head p) ms @ concat gs @ map fst capped)) \<noteq> {} then Inl Orphaned_results
       else Inr (take (keep_head p) ms @ concat gs @ map fst capped, st))"
    unfolding compact_messages_def Let_def b prod.case stubs_def [symmetric] g capped_def [symmetric]
    using assms(1,2) by simp
  ultimately show ?thesis by (simp only: find_orphans_def fst_conv)
qed

lemma compact_pass:
  assumes "keep_head p + keep_tail p < length ms" "0 < keep_tail p" "pass_output p ms = (out, start, pruned, tail', n)"
  shows "pass_shape p ms out start pruned tail' n"
    "(\<exists>st. compact_messages p ms = Inr (out, st)) \<longleftrightarrow> answered_ids out \<subseteq> called_ids out"
    "compact_messages p ms = Inr (out', st) \<Longrightarrow> out' = out"
proof -
  obtain start' tc where b: "tail_boundary (keep_head p) (keep_tail p) (keep_tail_chars p) ms = (start', tc)" by fastforce
  have bound: "boundary_ok (keep_head p) ms start'" using tail_boundary_ok [OF b assms(2,1)] .
  have cap: "list_all2 kept xs (map (fst \<circ> cap1 c) xs)" for c xs
    by (rule list_all2_map_kept) (simp add: cap1_kept)
  have id: "list_all2 kept xs xs" for xs by (simp add: list.rel_refl_strong)
  show "pass_shape p ms out start pruned tail' n"
    using assms(3) bound turn_groups_parts(1) cap id
    by (auto simp: pass_output_def b Let_def pass_shape_def split: option.splits prod.splits if_splits
        dest!: drop_groups_spec(1))
  show "(\<exists>st. compact_messages p ms = Inr (out, st)) \<longleftrightarrow> answered_ids out \<subseteq> called_ids out"
    "compact_messages p ms = Inr (out', st) \<Longrightarrow> out' = out"
    using compact_as_pass [OF assms] by (auto split: if_splits)
qed

lemma cut_twice: "k \<le> j \<Longrightarrow> xs = take k xs @ drop k (take j xs) @ drop j xs"
proof -
  assume "k \<le> j"
  then have "take j xs = take k xs @ drop k (take j xs)"
    by (metis append_take_drop_id min.absorb1 take_take)
  then show ?thesis by (metis append.assoc append_take_drop_id)
qed

text \<open>The kept pieces answer and are answered among themselves.\<close>

lemma pass_pieces:
  assumes "pass_shape p ms out start pruned tail' n" "answers_ok {} ms"
  shows "answered_ids out \<subseteq> called_ids out"
    "calls_complete {} ms \<Longrightarrow> fresh_start (drop (keep_head p) ms) \<Longrightarrow> called_ids out \<subseteq> answered_ids out"
proof -
  let ?k = "keep_head p"
  define head where "head = take ?k ms"
  define middle where "middle = drop ?k (take start ms)"
  define tail where "tail = drop start ms"
  define stubs where "stubs = map (fst \<circ> stub1 (keep_tool_head_chars p)) middle"
  have b: "?k \<le> start" "start \<le> length ms" "start = ?k \<or> fresh_start tail"
    using assms(1) by (auto simp: pass_shape_def boundary_ok_def tail_def fresh_start_def Cons_nth_drop_Suc [symmetric])
  have out: "out = head @ pruned @ tail'" and tail': "list_all2 kept tail tail'"
    and pruned: "n = 0 \<and> pruned = stubs \<or> n \<noteq> 0 \<and> pruned = concat (drop n (turn_groups stubs))"
    using assms(1) by (auto simp: pass_shape_def head_def tail_def stubs_def middle_def)
  have ms: "ms = head @ middle @ tail"
    unfolding head_def middle_def tail_def by (rule cut_twice [OF b(1)])
  then have rest: "drop ?k ms = middle @ tail" by (metis append_take_drop_id head_def same_append_eq)
  have st: "list_all2 kept middle stubs"
    unfolding stubs_def by (rule list_all2_map_kept) (simp add: stub1_kept)
  define ids where "ids = last_ids {} head"
  have ok: "answers_ok {} head" "answers_ok ids middle" "answers_ok (last_ids ids middle) tail"
    using assms(2) unfolding ms ids_def by (auto simp: answers_ok_append)
  have ids: "ids \<subseteq> called_ids head" using last_ids_called [of "{}" head] by (simp add: ids_def)
  have split: "stubs = concat (take n (turn_groups stubs)) @ concat (drop n (turn_groups stubs))"
    by (metis append_take_drop_id concat_append turn_groups_parts(1))
  have stubs_ok: "answers_ok ids stubs" using ok(2) kept_lists(1) [OF st] by simp
  have p_ok: "answers_ok ids pruned"
  proof (cases "n = 0")
    case False
    with pruned have "pruned = concat (drop n (turn_groups stubs))" by simp
    moreover have "answers_ok (last_ids ids (concat (take n (turn_groups stubs)))) (concat (drop n (turn_groups stubs)))"
      using stubs_ok split by (metis answers_ok_append)
    ultimately show ?thesis using answers_ok_fresh [OF remaining_groups [OF False]] by simp
  qed (use pruned stubs_ok in simp)
  have "answers_ok ids tail"
  proof (cases "start = ?k")
    case True
    then have "middle = []" by (simp add: middle_def)
    with ok(3) show ?thesis by simp
  next
    case False
    with b(3) ok(3) answers_ok_fresh show ?thesis by blast
  qed
  then have t_ok: "answers_ok ids tail'" using kept_lists(1) [OF tail'] by simp
  show "answered_ids out \<subseteq> called_ids out"
    using answers_ok_called [OF ok(1)] answers_ok_called [OF p_ok] answers_ok_called [OF t_ok] ids
    unfolding out by auto
  assume c: "calls_complete {} ms" and f: "fresh_start (drop ?k ms)"
  have c1: "calls_complete {} head" "calls_complete {} (middle @ tail)"
    using c complete_append [OF f, of "{}" head] rest ms by auto
  have "fresh_start tail" using b(3) f rest by (auto simp: middle_def)
  then have c2: "calls_complete {} middle" "calls_complete {} tail"
    using complete_append [of tail "{}" middle] c1(2) by auto
  have c3: "calls_complete {} stubs" "calls_complete {} tail'"
    using c2 kept_lists(2) [OF st] kept_lists(2) [OF tail'] by auto
  have "calls_complete {} pruned"
  proof (cases "n = 0")
    case False
    with c3(1) split pruned show ?thesis using complete_append [OF remaining_groups [OF False]] by metis
  qed (use pruned c3 in simp)
  with c1(1) c3(2) show "called_ids out \<subseteq> answered_ids out"
    unfolding out using complete_answered by (auto; blast)
qed

text \<open>
  C27: Compaction never orphans a tool result, so its final assertion never fires: on a
  conversation whose results answer the assistant message before them, with a nonempty tail, it
  returns a list in which every result still has its call. When every call was answered and the
  kept head does not end inside a turn, every call still has its result as well.
\<close>

theorem compaction_never_orphans:
  assumes "answers_ok {} ms" "0 < keep_tail p"
  shows "\<exists>out st. compact_messages p ms = Inr (out, st) \<and> fst (find_orphans out) = {} \<and>
    (calls_complete {} ms \<and> fresh_start (drop (keep_head p) ms) \<longrightarrow> snd (find_orphans out) = {})"
proof (cases "length ms \<le> keep_head p + keep_tail p")
  case True
  have "answered_ids ms \<subseteq> called_ids ms" using answers_ok_called [OF assms(1)] by simp
  moreover have "calls_complete {} ms \<Longrightarrow> called_ids ms \<subseteq> answered_ids ms" using complete_answered by blast
  ultimately show ?thesis using True by (auto simp: compact_messages_def find_orphans_def Let_def)
next
  case False
  then have long: "keep_head p + keep_tail p < length ms" by simp
  obtain out start pruned tail' n where o: "pass_output p ms = (out, start, pruned, tail', n)"
    by (metis prod_cases5)
  note pass = compact_pass [OF long assms(2) o]
  from pass(2) pass_pieces [OF pass(1) assms(1)] show ?thesis
    by (auto simp: find_orphans_def)
qed

text \<open>
  What survives is verbatim: the output is the head as it was, then a selection of the other
  messages in their order, each either unchanged or a tool result of which only the content was
  shortened; assistant text, reasoning and calls are never modified.
\<close>

theorem compaction_keeps_messages:
  assumes "compact_messages p ms = Inr (out, st)"
  shows "\<exists>sel. subseq sel ms \<and> list_all2 kept sel out \<and> take (keep_head p) out = take (keep_head p) ms"
proof (cases "length ms \<le> keep_head p + keep_tail p")
  case True
  with assms have "out = ms" by (simp add: compact_messages_def Let_def)
  then show ?thesis by (intro exI [of _ ms]) (simp add: list.rel_refl_strong)
next
  case False
  then have long: "keep_head p + keep_tail p < length ms" by simp
  have tail: "0 < keep_tail p" using assms False by (cases "keep_tail p") (auto simp: compact_messages_def Let_def)
  obtain out' start pruned tail' n where o: "pass_output p ms = (out', start, pruned, tail', n)"
    by (metis prod_cases5)
  note pass = compact_pass [OF long tail o]
  have out: "out = out'" using pass(3) assms by blast
  let ?k = "keep_head p"
  define middle where "middle = drop ?k (take start ms)"
  define stubs where "stubs = map (fst \<circ> stub1 (keep_tool_head_chars p)) middle"
  have b: "?k \<le> start" "start \<le> length ms" and tl: "list_all2 kept (drop start ms) tail'"
    and o': "out = take ?k ms @ pruned @ tail'"
    and pr: "n = 0 \<and> pruned = stubs \<or> n \<noteq> 0 \<and> pruned = concat (drop n (turn_groups stubs))"
    using pass(1) by (auto simp: pass_shape_def boundary_ok_def stubs_def middle_def out)
  have ms: "ms = take ?k ms @ middle @ drop start ms"
    unfolding middle_def by (rule cut_twice [OF b(1)])
  have st: "list_all2 kept middle stubs"
    unfolding stubs_def by (rule list_all2_map_kept) (simp add: stub1_kept)
  have "\<exists>m. subseq m middle \<and> list_all2 kept m pruned"
  proof (cases "n = 0")
    case False
    define j where "j = length (concat (take n (turn_groups stubs)))"
    have "pruned = drop j stubs"
      using pr False unfolding j_def
      by (metis append_eq_conv_conj append_take_drop_id concat_append turn_groups_parts(1))
    then show ?thesis
      using st by (intro exI [of _ "drop j middle"]) (simp add: list_all2_dropI suffix_imp_subseq [OF suffix_drop])
  qed (use pr st in auto)
  then obtain m where m: "subseq m middle" "list_all2 kept m pruned" by blast
  have "subseq (take ?k ms @ m @ drop start ms) (take ?k ms @ middle @ drop start ms)"
    by (intro list_emb_append_mono subseq_order.order_refl m(1))
  then have "subseq (take ?k ms @ m @ drop start ms) ms" by (metis ms)
  moreover have "list_all2 kept (take ?k ms @ m @ drop start ms) out"
    unfolding o' using m(2) tl by (intro list_all2_appendI) (simp_all add: list.rel_refl_strong)
  moreover have "take ?k out = take ?k ms" unfolding o' using b long by simp
  ultimately show ?thesis by blast
qed

section \<open>Sizes\<close>

lemma messages_chars_simps [simp]:
  "messages_chars [] = 0" "messages_chars (m # ms) = message_chars m + messages_chars ms"
  "messages_chars (xs @ ys) = messages_chars xs + messages_chars ys"
  by (simp_all add: messages_chars_def)

lemma stub1_shrinks: "message_chars (fst (stub1 k m)) \<le> message_chars m"
  by (auto simp: stub1_def stub_message_def message_chars_def content_len_def text_of_def Let_def)

lemma stubs_shrink: "messages_chars (map (fst \<circ> stub1 k) ms) \<le> messages_chars ms"
  by (induction ms) (auto intro: add_mono stub1_shrinks)

lemma subseq_shrinks: "subseq xs ys \<Longrightarrow> messages_chars xs \<le> messages_chars ys"
  by (induction rule: list_emb.induct) auto

text \<open>
  Compaction without the tail cap never enlarges the conversation, and with a target it
  misses the target only when nothing but the head and the tail is left (or the list was too
  short to touch).
\<close>

theorem compaction_shrinks:
  assumes "compact_messages p ms = Inr (out, st)" "tail_hard_cap_chars p = None"
  shows "messages_chars out \<le> messages_chars ms \<and> cs_after_chars st = messages_chars out \<and>
    (case target_chars p of None \<Rightarrow> True
     | Some target \<Rightarrow> messages_chars out \<le> target \<or> cs_exhausted st \<or> length ms \<le> keep_head p + keep_tail p)"
proof (cases "length ms \<le> keep_head p + keep_tail p")
  case True
  with assms(1) show ?thesis by (auto simp: compact_messages_def Let_def split: option.split)
next
  case False
  obtain start tc where b: "tail_boundary (keep_head p) (keep_tail p) (keep_tail_chars p) ms = (start, tc)" by fastforce
  define head where "head = take (keep_head p) ms"
  define middle where "middle = drop (keep_head p) (take start ms)"
  define tail where "tail = drop start ms"
  define stubs where "stubs = map (fst \<circ> stub1 (keep_tool_head_chars p)) middle"
  have kt: "0 < keep_tail p" using assms(1) False by (cases "keep_tail p") (auto simp: compact_messages_def Let_def)
  have bound: "boundary_ok (keep_head p) ms start" using tail_boundary_ok [OF b kt] False by simp
  have ms: "ms = head @ middle @ tail"
    unfolding head_def middle_def tail_def by (rule cut_twice) (use bound in \<open>simp add: boundary_ok_def\<close>)
  obtain gs n where gs: "(case target_chars p of None \<Rightarrow> ([stubs], 0)
       | Some target \<Rightarrow> drop_groups head tail target (turn_groups stubs)) = (gs, n)" by fastforce
  have fid: "map (fst \<circ> (\<lambda>m. (m, False))) xs = xs" for xs :: "message list" by (simp add: comp_def)
  have r: "out = head @ concat gs @ tail" "cs_after_chars st = messages_chars out"
    "cs_exhausted st = (target_chars p \<noteq> None \<and> gs = [])"
    using assms False gs kt
    by (auto simp: compact_messages_def b Let_def head_def [symmetric] tail_def [symmetric]
        middle_def [symmetric] stubs_def fid split: option.splits if_splits prod.splits)
  have sub: "subseq (concat gs) stubs"
  proof (cases "target_chars p")
    case None
    with gs show ?thesis by auto
  next
    case (Some target)
    with gs drop_groups_spec(1) have "gs = drop n (turn_groups stubs)" by fastforce
    then show ?thesis
      by (metis append_take_drop_id concat_append subseq_append' subseq_order.order_refl suffixI suffix_imp_subseq turn_groups_parts(1))
  qed
  have "messages_chars (concat gs) \<le> messages_chars middle"
    using subseq_shrinks [OF sub] stubs_shrink [of "keep_tool_head_chars p" middle] by (simp add: stubs_def)
  then have "messages_chars out \<le> messages_chars ms"
    by (subst ms) (simp add: r(1))
  moreover have "messages_chars out \<le> target \<or> gs = []" if "target_chars p = Some target" for target
    using that gs drop_groups_spec(2) [of head tail target "turn_groups stubs" gs n] by (auto simp: r(1))
  ultimately show ?thesis using r by (auto split: option.split)
qed

lemma digits_of_nonempty: "1 \<le> length (digits_of n)"
  by (subst digits_of.simps) auto

text \<open>
  The last-resort cap of the tail has no such guard: a result that exceeds the cap by at most a
  hundred characters comes out longer than it was.
\<close>

theorem tail_cap_can_grow:
  assumes "is_tool m" "cap < content_len m" "content_len m \<le> cap + 100"
  shows "content_len m < content_len (fst (cap1 cap m))"
  using assms digits_of_nonempty [of "content_len m - cap"]
  by (simp add: cap1_def stub_message_def stub_suffix_def content_len_def text_of_def)

section \<open>Instances\<close>

definition msg :: "string \<Rightarrow> string option \<Rightarrow> string list \<Rightarrow> string option \<Rightarrow> message" where
  "msg r c calls answer = \<lparr>m_role = r, m_content = c, m_reasoning = None,
     m_tool_calls = map (\<lambda>i. \<lparr>tc_id = Some i, tc_arguments = ''{}''\<rparr>) calls, m_tool_call_id = answer, m_extra = None\<rparr>"

definition demo_chat :: "message list" where
  "demo_chat = [msg ''system'' (Some ''s'') [] None, msg ''user'' (Some ''u'') [] None,
     msg ''assistant'' None [''a''] None, msg ''tool'' (Some ''out'') [] (Some ''a''),
     msg ''assistant'' None [''b'', ''c''] None, msg ''tool'' (Some ''out'') [] (Some ''b''),
     msg ''tool'' (Some ''out'') [] (Some ''c'')]"

definition demo_params :: compact_params where
  "demo_params = default_params\<lparr>keep_tail := 1, target_chars := Some 9\<rparr>"

lemma demo_chat_ok:
  "answers_ok {} demo_chat" "calls_complete {} demo_chat" "fresh_start (drop (keep_head demo_params) demo_chat)"
  by (auto simp: demo_chat_def msg_def is_tool_def caller_ids_def ids_of_def answer_of_def
      fresh_start_def demo_params_def default_params_def)

theorem compaction_never_orphans_witness:
  "\<exists>out st. compact_messages demo_params demo_chat = Inr (out, st) \<and> find_orphans out = ({}, {})"
proof -
  have "0 < keep_tail demo_params" by (simp add: demo_params_def)
  from compaction_never_orphans [OF demo_chat_ok(1) this] demo_chat_ok(2,3)
  show ?thesis by (metis prod.collapse)
qed

theorem compaction_keeps_messages_witness:
  "\<exists>out st. compact_messages default_params demo_chat = Inr (out, st) \<and> take 2 out = take 2 demo_chat"
proof -
  obtain out st where c: "compact_messages default_params demo_chat = Inr (out, st)"
    by (simp add: compact_messages_def default_params_def demo_chat_def Let_def)
  from compaction_keeps_messages [OF c] c show ?thesis by (auto simp: default_params_def)
qed

theorem compaction_shrinks_witness:
  "\<exists>out st. compact_messages default_params demo_chat = Inr (out, st) \<and>
     messages_chars out \<le> messages_chars demo_chat"
proof -
  obtain out st where c: "compact_messages default_params demo_chat = Inr (out, st)"
    by (simp add: compact_messages_def default_params_def demo_chat_def Let_def)
  from compaction_shrinks [OF c] c show ?thesis by (auto simp: default_params_def)
qed

theorem tail_cap_can_grow_witness:
  "30 < content_len (fst (cap1 20 (msg ''tool'' (Some (replicate 30 (CHR ''x''))) [] (Some ''a''))))"
  using tail_cap_can_grow [of "msg ''tool'' (Some (replicate 30 (CHR ''x''))) [] (Some ''a'')" 20]
  by (simp add: msg_def is_tool_def content_len_def text_of_def)

end
