(* ===== verification/Stuck_Detector.thy ===== *)
theory Stuck_Detector
  imports Py_Text
begin

text \<open>
  \<open>swebench_eval/harnesses/stuck_detector.py\<close>: the verdict on a trajectory. An event keeps the fields
  the detector reads: a \<open>role: "tool"\<close> event its tool name (the event's or the normalized one) and the
  normalized command, path and editor command; any other event its well-formed \<open>tool_calls\<close> with
  the text of each input. The evidence texts and the file reading are left out.
\<close>

definition REPEAT_IDENTICAL_NO_DIFF :: nat where "REPEAT_IDENTICAL_NO_DIFF = 5"
definition REPEAT_ERRORED :: nat where "REPEAT_ERRORED = 4"
definition BUDGET_FRACTION_TRIGGER :: real where "BUDGET_FRACTION_TRIGGER = 1 / 2"
definition TRAILING_TURNS_NO_DIFF :: nat where "TRAILING_TURNS_NO_DIFF = 15"

type_synonym call = "string \<times> string"

record event =
  ev_role :: string
  ev_name :: "string option"
  ev_command :: string
  ev_path :: string
  ev_editor :: string
  ev_calls :: "(string option \<times> string) list"
  ev_output :: string

definition tool_identity :: "event \<Rightarrow> string option \<times> string" where
  "tool_identity ev =
     (if truthy (ev_name ev) then ev_name ev else None,
      strip (ev_editor ev @ '' '' @ ev_path ev @ '' '' @ ev_command ev))"

definition event_tool_calls :: "event \<Rightarrow> call list" where
  "event_tool_calls ev =
     (if ev_role ev = ''tool'' then
        (case tool_identity ev of (Some tool, arg) \<Rightarrow> [(tool, arg)] | (None, arg) \<Rightarrow> [])
      else List.map_filter (\<lambda>(name, arg). if truthy name then Some (the name, arg) else None) (ev_calls ev))"

text \<open>\<open>sub in text\<close>.\<close>

fun has_text :: "string \<Rightarrow> string \<Rightarrow> bool" where
  "has_text sub [] = (sub = [])"
| "has_text sub (c # cs) = (prefix sub (c # cs) \<or> has_text sub cs)"

definition is_error :: "event \<Rightarrow> bool" where
  "is_error ev =
     (let low = lower (ev_output ev)
      in has_text ''error'' low \<or> has_text ''traceback'' low \<or> has_text ''exception'' low \<or>
         has_text ''command not found'' low \<or> has_text ''no such file'' low)"

record tool_run =
  tr_call :: call
  tr_length :: nat
  tr_start :: nat

text \<open>The locals of the loop; \<open>rs_cur\<close> is \<open>None\<close> where the code resets the current tool.\<close>

record run_state =
  rs_best :: "tool_run option"
  rs_cur :: "call option"
  rs_count :: nat
  rs_start :: nat
  rs_idx :: nat

definition run_call :: "call \<Rightarrow> run_state \<Rightarrow> run_state" where
  "run_call c s =
     (let s1 = (if rs_cur s = Some c then s\<lparr>rs_count := rs_count s + 1\<rparr>
                else s\<lparr>rs_cur := Some c, rs_count := 1, rs_start := rs_idx s\<rparr>)
      in if (case rs_best s1 of None \<Rightarrow> True | Some b \<Rightarrow> tr_length b < rs_count s1)
         then s1\<lparr>rs_best := Some \<lparr>tr_call = c, tr_length = rs_count s1, tr_start = rs_start s1\<rparr>\<rparr>
         else s1)"

definition skip_call :: "run_state \<Rightarrow> run_state" where
  "skip_call s = s\<lparr>rs_count := 0, rs_cur := None, rs_idx := rs_idx s + 1\<rparr>"

definition run_event :: "bool \<Rightarrow> event \<Rightarrow> run_state \<Rightarrow> run_state" where
  "run_event errored_only ev s =
     (if event_tool_calls ev = [] then s
      else (let s1 = fold (\<lambda>c s. if errored_only \<and> \<not> is_error ev then skip_call s else run_call c s)
                       (event_tool_calls ev) s
            in s1\<lparr>rs_idx := rs_idx s1 + 1\<rparr>))"

definition start_state :: run_state where
  "start_state = \<lparr>rs_best = None, rs_cur = None, rs_count = 0, rs_start = 0, rs_idx = 0\<rparr>"

definition longest_identical_tool_run :: "event list \<Rightarrow> bool \<Rightarrow> tool_run option" where
  "longest_identical_tool_run events errored_only =
     rs_best (fold (run_event errored_only) events start_state)"

definition diff_unchanged_over_run :: "string list \<Rightarrow> tool_run \<Rightarrow> bool" where
  "diff_unchanged_over_run prints r =
     (if length prints < tr_start r + tr_length r then False
      else let window = take (tr_length r) (drop (tr_start r) prints)
           in 2 \<le> length window \<and> card (set window) = 1)"

datatype stuck_state = Stuck | Not_stuck | Insufficient_data
datatype stuck_reason =
  No_tool_calls | Repeated_call_no_diff | Repeated_call | Repeated_error | No_diff_progress | Ok_reason

text \<open>Signal 1, signal 2, signal 3, in this order; no list and an empty list of prints read the same.\<close>

definition signal1 :: "event list \<Rightarrow> string list option \<Rightarrow> stuck_reason option" where
  "signal1 events prints =
     (case longest_identical_tool_run events False of
        None \<Rightarrow> None
      | Some r \<Rightarrow>
          if tr_length r < REPEAT_IDENTICAL_NO_DIFF then None
          else (case prints of
                  Some (p # ps) \<Rightarrow> if diff_unchanged_over_run (p # ps) r then Some Repeated_call_no_diff else None
                | _ \<Rightarrow> Some Repeated_call))"

definition signal2 :: "event list \<Rightarrow> bool" where
  "signal2 events =
     (case longest_identical_tool_run events True of
        None \<Rightarrow> False | Some r \<Rightarrow> REPEAT_ERRORED \<le> tr_length r)"

definition signal3 :: "real \<Rightarrow> string list option \<Rightarrow> bool" where
  "signal3 spent prints =
     (case prints of
        None \<Rightarrow> False
      | Some ps \<Rightarrow> ps \<noteq> [] \<and> BUDGET_FRACTION_TRIGGER \<le> spent \<and> TRAILING_TURNS_NO_DIFF \<le> length ps \<and>
          card (set (drop (length ps - TRAILING_TURNS_NO_DIFF) ps)) = 1)"

definition evaluate :: "event list \<Rightarrow> real \<Rightarrow> string list option \<Rightarrow> stuck_state \<times> stuck_reason" where
  "evaluate events spent prints =
     (if list_all (\<lambda>ev. event_tool_calls ev = []) events then (Insufficient_data, No_tool_calls)
      else case signal1 events prints of
          Some r \<Rightarrow> (Stuck, r)
        | None \<Rightarrow>
            if signal2 events then (Stuck, Repeated_error)
            else if signal3 spent prints then (Stuck, No_diff_progress)
            else (Not_stuck, Ok_reason))"

section \<open>The longest run\<close>

text \<open>
  The declarative reading: a block of equal elements in the sequence of calls, where a call that the
  errored search skips is a break (\<open>None\<close>).
\<close>

definition marked_calls :: "bool \<Rightarrow> event list \<Rightarrow> call option list" where
  "marked_calls errored_only events =
     concat (map (\<lambda>ev. map (\<lambda>c. if errored_only \<and> \<not> is_error ev then None else Some c) (event_tool_calls ev)) events)"

definition has_block :: "call option list \<Rightarrow> call \<Rightarrow> nat \<Rightarrow> bool" where
  "has_block xs c n \<longleftrightarrow> (\<exists>us vs. xs = us @ replicate n (Some c) @ vs)"

definition step_mark :: "call option \<Rightarrow> run_state \<Rightarrow> run_state" where
  "step_mark m s = (case m of None \<Rightarrow> skip_call s | Some c \<Rightarrow> run_call c s)"

text \<open>What the loop knows after the calls \<open>xs\<close>: the block it is in, and the best block so far.\<close>

definition run_inv :: "call option list \<Rightarrow> run_state \<Rightarrow> bool" where
  "run_inv xs s \<longleftrightarrow>
     (case rs_cur s of
        None \<Rightarrow> xs = [] \<or> List.last xs = None
      | Some c \<Rightarrow> 0 < rs_count s \<and> (\<exists>us. xs = us @ replicate (rs_count s) (Some c) \<and> (us = [] \<or> List.last us \<noteq> Some c)) \<and>
          (\<exists>b. rs_best s = Some b \<and> rs_count s \<le> tr_length b)) \<and>
     (case rs_best s of
        None \<Rightarrow> \<forall>m \<in> set xs. m = None
      | Some b \<Rightarrow> 0 < tr_length b \<and> has_block xs (tr_call b) (tr_length b) \<and>
          (\<forall>c n. has_block xs c n \<longrightarrow> n \<le> tr_length b))"

lemma has_block_snoc:
  "has_block (xs @ [m]) c n \<longleftrightarrow> has_block xs c n \<or>
     (\<exists>us. xs @ [m] = us @ replicate n (Some c))"
proof
  assume "has_block (xs @ [m]) c n"
  then obtain us vs where e: "xs @ [m] = us @ replicate n (Some c) @ vs" by (auto simp: has_block_def)
  show "has_block xs c n \<or> (\<exists>us. xs @ [m] = us @ replicate n (Some c))"
  proof (cases vs rule: rev_cases)
    case (snoc vs' v)
    with e have "xs = us @ replicate n (Some c) @ vs'" by (metis append.assoc butlast_snoc)
    then show ?thesis unfolding has_block_def by blast
  qed (use e in auto)
next
  assume "has_block xs c n \<or> (\<exists>us. xs @ [m] = us @ replicate n (Some c))"
  then show "has_block (xs @ [m]) c n"
  proof
    assume "has_block xs c n"
    then obtain us vs where "xs = us @ replicate n (Some c) @ vs" by (auto simp: has_block_def)
    then have "xs @ [m] = us @ replicate n (Some c) @ (vs @ [m])" by simp
    then show ?thesis unfolding has_block_def by blast
  qed (metis append.right_neutral has_block_def)
qed

lemma ends_with_block:
  assumes "xs = us @ replicate k (Some c)" "us = [] \<or> List.last us \<noteq> Some c" "xs = us' @ replicate n (Some c)"
  shows "n \<le> k"
proof (rule ccontr)
  assume "\<not> n \<le> k"
  then obtain j where n: "n = Suc j + k" by (metis Suc_leI add.commute le_Suc_ex not_le add_Suc_right)
  then have "us @ replicate k (Some c) = (us' @ replicate (Suc j) (Some c)) @ replicate k (Some c)"
    using assms(1,3) by (metis append.assoc replicate_add)
  then have "us = us' @ replicate (Suc j) (Some c)" by simp
  then show False using assms(2) by (auto simp: last_replicate simp del: replicate.simps)
qed

lemma has_block_zero: "has_block xs c 0"
  unfolding has_block_def by (intro exI [of _ "[]"] exI [of _ xs]) simp

lemma has_block_more: "has_block xs c n \<Longrightarrow> has_block (xs @ [m]) c n"
  by (simp add: has_block_snoc)

lemma has_block_member: "has_block xs c n \<Longrightarrow> 0 < n \<Longrightarrow> Some c \<in> set xs"
  by (cases n) (auto simp: has_block_def)

lemma has_block_shorter:
  assumes "has_block xs c n" "k \<le> n"
  shows "has_block xs c k"
proof -
  obtain us vs where "xs = us @ replicate n (Some c) @ vs" using assms(1) by (auto simp: has_block_def)
  moreover have "replicate n (Some c) = replicate k (Some c) @ replicate (n - k) (Some c)"
    using assms(2) by (simp add: replicate_add [symmetric])
  ultimately have "xs = us @ replicate k (Some c) @ (replicate (n - k) (Some c) @ vs)" by simp
  then show ?thesis unfolding has_block_def by blast
qed

lemma ends_with_last: "xs @ [m] = us @ replicate n (Some c) \<Longrightarrow> 0 < n \<Longrightarrow> m = Some c"
  by (cases n) (auto simp: replicate_append_same [symmetric] simp del: replicate.simps(2) simp: replicate_Suc)

lemma run_inv_step: "run_inv xs s \<Longrightarrow> run_inv (xs @ [m]) (step_mark m s)"
proof (cases m)
  case None
  assume inv: "run_inv xs s"
  have "has_block (xs @ [None]) c n \<longleftrightarrow> has_block xs c n" for c n
    using ends_with_last [of xs None _ n c] has_block_zero by (cases n) (auto simp: has_block_snoc)
  with inv None show ?thesis
    by (auto simp: run_inv_def step_mark_def skip_call_def split: option.splits)
next
  case (Some c)
  assume inv: "run_inv xs s"
  define k where "k = (if rs_cur s = Some c then rs_count s + 1 else 1)"
  define s1 where "s1 = (if rs_cur s = Some c then s\<lparr>rs_count := rs_count s + 1\<rparr>
      else s\<lparr>rs_cur := Some c, rs_count := 1, rs_start := rs_idx s\<rparr>)"
  have s1: "rs_cur s1 = Some c" "rs_count s1 = k" "rs_best s1 = rs_best s" "0 < k"
    by (auto simp: s1_def k_def)
  obtain us where us: "xs @ [Some c] = us @ replicate k (Some c)" "us = [] \<or> List.last us \<noteq> Some c"
  proof (cases "rs_cur s = Some c")
    case True
    then obtain us where "xs = us @ replicate (rs_count s) (Some c)" "us = [] \<or> List.last us \<noteq> Some c"
      using inv by (auto simp: run_inv_def)
    with True that [of us] show ?thesis by (simp add: k_def replicate_append_same)
  next
    case False
    have "xs = [] \<or> List.last xs \<noteq> Some c"
    proof (cases "rs_cur s")
      case None
      with inv show ?thesis by (auto simp: run_inv_def)
    next
      case (Some c')
      with inv obtain us where "xs = us @ replicate (rs_count s) (Some c')" "0 < rs_count s"
        by (auto simp: run_inv_def)
      then have "List.last xs = Some c'" by (simp add: last_replicate)
      with Some False show ?thesis by auto
    qed
    with False that [of xs] show ?thesis by (simp add: k_def)
  qed
  have tail: "n \<le> k" if "xs @ [Some c] = us' @ replicate n (Some c')" for us' n c'
  proof (cases "n = 0")
    case False
    with ends_with_last [OF that] have "c' = c" by simp
    with that ends_with_block [OF us] show ?thesis by simp
  qed simp
  have block: "has_block (xs @ [Some c]) c k" using us(1) has_block_snoc by blast
  note m = Some
  have step: "step_mark (Some c) s = (if (case rs_best s of None \<Rightarrow> True | Some b \<Rightarrow> tr_length b < k)
      then s1\<lparr>rs_best := Some \<lparr>tr_call = c, tr_length = k, tr_start = rs_start s1\<rparr>\<rparr> else s1)"
    using s1
    by (cases "rs_best s") (simp_all add: step_mark_def run_call_def s1_def [symmetric] Let_def)
  have "run_inv (xs @ [Some c]) (step_mark (Some c) s)"
  proof (cases "rs_best s")
    case None
    then have "Some c' \<notin> set xs" for c' using inv by (auto simp: run_inv_def)
    then have "has_block xs c' n \<Longrightarrow> n = 0" for c' n using has_block_member by blast
    then have "has_block (xs @ [Some c]) c' n \<Longrightarrow> n \<le> k" for c' n
      unfolding has_block_snoc using tail by (metis zero_le)
    with block us s1 show ?thesis
      unfolding step None by (auto simp: run_inv_def)
  next
    case (Some b)
    then have b: "0 < tr_length b" "has_block xs (tr_call b) (tr_length b)" "\<And>c n. has_block xs c n \<Longrightarrow> n \<le> tr_length b"
      using inv by (auto simp: run_inv_def)
    have all: "has_block (xs @ [Some c]) c' n \<Longrightarrow> n \<le> max k (tr_length b)" for c' n
      unfolding has_block_snoc using tail b(3) by (metis max.coboundedI1 max.coboundedI2)
    show ?thesis
    proof (cases "tr_length b < k")
      case True
      with all have "has_block (xs @ [Some c]) c' n \<Longrightarrow> n \<le> k" for c' n by fastforce
      with True block us s1 Some show ?thesis
        by (auto simp: run_inv_def step)
    next
      case False
      with all have "has_block (xs @ [Some c]) c' n \<Longrightarrow> n \<le> tr_length b" for c' n by fastforce
      with False us s1 Some b has_block_more [OF b(2), of "Some c", unfolded us(1)] show ?thesis
        by (auto simp: run_inv_def step)
    qed
  qed
  then show ?thesis by (simp add: m)
qed

lemma fold_marks:
  assumes "run_inv xs s"
  shows "run_inv (xs @ map (\<lambda>c. if e then None else Some c) cs)
     (fold (\<lambda>c s. if e then skip_call s else run_call c s) cs s)"
  using assms
proof (induction cs arbitrary: xs s)
  case (Cons c cs)
  have "run_inv (xs @ [if e then None else Some c]) (if e then skip_call s else run_call c s)"
    using run_inv_step [OF Cons.prems, of "if e then None else Some c"] by (simp add: step_mark_def split: if_splits)
  from Cons.IH [OF this] show ?case by simp
qed simp

lemma run_inv_idx: "run_inv xs (s\<lparr>rs_idx := i\<rparr>) = run_inv xs s"
  by (auto simp: run_inv_def split: option.split)

lemma fold_events:
  "run_inv xs s \<Longrightarrow> run_inv (xs @ marked_calls eo events) (fold (run_event eo) events s)"
proof (induction events arbitrary: xs s)
  case (Cons ev events)
  have "run_inv (xs @ map (\<lambda>c. if eo \<and> \<not> is_error ev then None else Some c) (event_tool_calls ev)) (run_event eo ev s)"
    using fold_marks [OF Cons.prems, of "eo \<and> \<not> is_error ev" "event_tool_calls ev"] Cons.prems
    by (auto simp: run_event_def Let_def run_inv_idx)
  from Cons.IH [OF this] show ?case by (simp add: marked_calls_def)
qed (simp add: marked_calls_def)

lemma longest_run:
  "case longest_identical_tool_run events eo of
     None \<Rightarrow> set (marked_calls eo events) \<subseteq> {None}
   | Some r \<Rightarrow> 0 < tr_length r \<and> has_block (marked_calls eo events) (tr_call r) (tr_length r) \<and>
       (\<forall>c n. has_block (marked_calls eo events) c n \<longrightarrow> n \<le> tr_length r)"
proof -
  have "run_inv [] start_state" by (simp add: run_inv_def start_state_def)
  from fold_events [OF this, of eo events] show ?thesis
    by (auto simp: longest_identical_tool_run_def run_inv_def split: option.splits)
qed

lemma run_of_length:
  assumes "0 < k"
  shows "(\<exists>r. longest_identical_tool_run events eo = Some r \<and> k \<le> tr_length r) \<longleftrightarrow>
    (\<exists>c n. k \<le> n \<and> has_block (marked_calls eo events) c n)" (is "?L \<longleftrightarrow> ?R")
proof
  assume ?L
  then obtain r where r: "longest_identical_tool_run events eo = Some r" "k \<le> tr_length r" by blast
  then have "has_block (marked_calls eo events) (tr_call r) (tr_length r)"
    using longest_run [where events = events and eo = eo] by simp
  with r(2) show ?R by blast
next
  assume ?R
  then obtain c n where n: "k \<le> n" "has_block (marked_calls eo events) c n" by blast
  with assms have "Some c \<in> set (marked_calls eo events)" by (auto intro: has_block_member)
  then obtain r where r: "longest_identical_tool_run events eo = Some r"
    using longest_run [where events = events and eo = eo] by (cases "longest_identical_tool_run events eo") auto
  then have "n \<le> tr_length r" using longest_run [where events = events and eo = eo] n(2) by (cases c) simp
  with r n(1) show ?L by auto
qed

lemma block_has_calls:
  assumes "has_block (marked_calls eo events) c n" "0 < n"
  shows "\<not> list_all (\<lambda>ev. event_tool_calls ev = []) events"
  using has_block_member [OF assms] by (fastforce simp: marked_calls_def list_all_iff)

text \<open>
  The detector's search returns a longest run: its result is a block of equal consecutive calls
  of the trajectory (not interrupted by a successful call, in the search for errors), no block is
  longer, and there is no result exactly when there is no such call.
\<close>

theorem longest_run_correct:
  "(longest_identical_tool_run events eo = None \<longleftrightarrow> set (marked_calls eo events) \<subseteq> {None}) \<and>
   (\<exists>r. longest_identical_tool_run events eo = Some r \<and> k + 1 \<le> tr_length r) =
     (\<exists>c. has_block (marked_calls eo events) c (k + 1))"
proof
  show "longest_identical_tool_run events eo = None \<longleftrightarrow> set (marked_calls eo events) \<subseteq> {None}"
  proof (cases "longest_identical_tool_run events eo")
    case None
    then show ?thesis using longest_run [where events = events and eo = eo] by simp
  next
    case (Some r)
    then have "Some (tr_call r) \<in> set (marked_calls eo events)"
      using longest_run [where events = events and eo = eo] by (auto intro: has_block_member)
    with Some show ?thesis by auto
  qed
  show "(\<exists>r. longest_identical_tool_run events eo = Some r \<and> k + 1 \<le> tr_length r) =
     (\<exists>c. has_block (marked_calls eo events) c (k + 1))"
    unfolding run_of_length [OF zero_less_Suc [of k, unfolded Suc_eq_plus1]]
    by (meson has_block_shorter le_refl)
qed

text \<open>
  Without diff fingerprints the detector says stuck exactly when some call occurs five times in a
  row, or four times in a row in events that look like errors; whatever the budget spent.
\<close>

theorem stuck_without_fingerprints:
  "fst (evaluate events spent None) = Stuck \<longleftrightarrow>
     (\<exists>c n. 5 \<le> n \<and> has_block (marked_calls False events) c n) \<or>
     (\<exists>c n. 4 \<le> n \<and> has_block (marked_calls True events) c n)"
proof -
  have calls: "\<not> list_all (\<lambda>ev. event_tool_calls ev = []) events"
    if "\<exists>c n. k \<le> n \<and> has_block (marked_calls eo events) c n" "0 < k" for k eo
    using that block_has_calls by (meson less_le_trans)
  have s1: "signal1 events None = (if \<exists>c n. 5 \<le> n \<and> has_block (marked_calls False events) c n then Some Repeated_call else None)"
    using run_of_length [where k = 5 and events = events and eo = False]
    by (auto simp: signal1_def REPEAT_IDENTICAL_NO_DIFF_def split: option.splits)
  have s2: "signal2 events = (\<exists>c n. 4 \<le> n \<and> has_block (marked_calls True events) c n)"
    using run_of_length [where k = 4 and events = events and eo = True]
    by (auto simp: signal2_def REPEAT_ERRORED_def split: option.splits)
  show ?thesis
    using calls [of 5 False] calls [of 4 True]
    by (simp add: evaluate_def s1 s2 signal3_def)
qed

definition parallel_event :: event where
  "parallel_event = \<lparr>ev_role = ''assistant'', ev_name = None, ev_command = [], ev_path = [], ev_editor = [],
     ev_calls = [(Some ''bash'', ''ls''), (Some ''bash'', ''ls''), (Some ''bash'', ''ls'')], ev_output = []\<rparr>"

text \<open>
  Fingerprints hide a loop of parallel calls: six equal calls in two events with an unchanged diff are
  stuck without fingerprints and not stuck with one fingerprint per event, because the run is measured in
  calls and the fingerprints in events.
\<close>

theorem parallel_calls_hide_loop:
  "evaluate [parallel_event, parallel_event] 0 None = (Stuck, Repeated_call) \<and>
   evaluate [parallel_event, parallel_event] 0 (Some [''d'', ''d'']) = (Not_stuck, Ok_reason)"
proof -
  have calls: "event_tool_calls parallel_event = [(''bash'', ''ls''), (''bash'', ''ls''), (''bash'', ''ls'')]"
    by (simp add: parallel_event_def event_tool_calls_def map_filter_simps)
  have ok: "\<not> is_error parallel_event"
    by (simp add: parallel_event_def is_error_def lower_def Let_def)
  have r: "longest_identical_tool_run [parallel_event, parallel_event] False =
      Some \<lparr>tr_call = (''bash'', ''ls''), tr_length = 6, tr_start = 0\<rparr>"
    by (simp add: longest_identical_tool_run_def run_event_def calls run_call_def start_state_def Let_def)
  have e: "longest_identical_tool_run [parallel_event, parallel_event] True = None"
    by (simp add: longest_identical_tool_run_def run_event_def calls ok skip_call_def start_state_def Let_def)
  show ?thesis
    by (simp add: evaluate_def calls signal1_def signal2_def signal3_def r e REPEAT_IDENTICAL_NO_DIFF_def
        diff_unchanged_over_run_def TRAILING_TURNS_NO_DIFF_def BUDGET_FRACTION_TRIGGER_def)
qed

end
