(* ===== verification/Result_Message.thy ===== *)
theory Result_Message
  imports Taxonomy Py_Text
begin

text \<open>
  The message of \<open>swebench_eval/queue/schemas.py\<close> that the workers send to the results queue, and
  its parser \<open>_parse_result\<close> of \<open>orchestrator/control_plane/results_writer.py\<close>.

  The many optional fields are a function from the column name, as the writer itself reads them
  (\<open>getattr(result, c)\<close> over a list of names); \<open>None\<close> is Python's \<open>None\<close> and later NULL. On the
  wire the fields that the schema declares as strings are texts; all others are JSON values.
\<close>

section \<open>Messages\<close>

datatype colval =
    C_int int | C_float pyfloat | C_bool bool | C_text string | C_texts "string list"

datatype wire =
    W_null | W_int int | W_float pyfloat | W_bool bool | W_text string | W_texts "string list"

text \<open>A message body: the text fields and the other fields that are present.\<close>

record body =
  bd_text :: "string \<Rightarrow> string option"
  bd_val :: "string \<Rightarrow> wire option"

record result_message =
  rm_run_id :: string
  rm_instance_id :: string
  rm_attempt :: int
  rm_phase :: string
  rm_state :: string
  rm_error_category :: string
  rm_error_detail :: string
  rm_verdict :: string
  rm_wall_clock_s :: pyfloat
  rm_patch_s3_key :: string
  rm_trajectory_s3_key :: string
  rm_raw_log_s3_key :: string
  rm_report_json_s3_key :: string
  rm_touches_test_files :: bool
  rm_extra :: "string \<Rightarrow> colval option"

text \<open>The types with which the dataclass declares these fields, in its order.\<close>

datatype field_type = T_opt_int | T_opt_float | T_opt_bool | T_str | T_opt_str | T_str_tuple | T_opt_str_list

definition declared_fields :: "(string \<times> field_type) list" where
  "declared_fields =
     [(''native_trajectory_s3_key'', T_str), (''test_output_s3_key'', T_str), (''run_log_s3_key'', T_str),
      (''input_tokens'', T_opt_int), (''output_tokens'', T_opt_int), (''cached_tokens'', T_opt_int),
      (''cache_write_tokens'', T_opt_int), (''reasoning_tokens'', T_opt_int), (''cost_source'', T_opt_str),
      (''usage_parse_failed_calls'', T_opt_int), (''paced_wait_ms_total'', T_opt_int),
      (''paced_calls'', T_opt_int), (''pacer_timeouts'', T_opt_int), (''overload_retries_total'', T_opt_int),
      (''turns_used'', T_opt_int), (''cost_usd'', T_opt_float), (''adapter_input_tokens'', T_opt_int),
      (''adapter_output_tokens'', T_opt_int), (''adapter_cost_usd'', T_opt_float), (''queue_wait_s'', T_opt_float),
      (''provision_s'', T_opt_float), (''image_pull_s'', T_opt_float), (''worker_boot_s'', T_opt_float),
      (''repo_prep_s'', T_opt_float), (''agent_s'', T_opt_float), (''patch_extract_s'', T_opt_float),
      (''artifact_upload_s'', T_opt_float), (''task_observed_s'', T_opt_float), (''task_billed_s'', T_opt_float),
      (''repo_prep_cache_hit'', T_opt_bool), (''image_pull_cold'', T_opt_bool),
      (''eval_queue_wait_s'', T_opt_float), (''eval_patch_fetch_s'', T_opt_float),
      (''eval_image_pull_s'', T_opt_float), (''eval_test_s'', T_opt_float), (''eval_log_upload_s'', T_opt_float),
      (''eval_image_pull_cold'', T_opt_bool), (''stripped_test_paths'', T_str_tuple),
      (''grade_invalid'', T_opt_bool), (''leaked_node_ids'', T_opt_str_list), (''leak_detectable'', T_opt_bool),
      (''gold_patch_similarity'', T_opt_float), (''compactions_fired'', T_opt_int),
      (''compaction_tokens_before'', T_opt_int), (''compaction_tokens_after'', T_opt_int),
      (''context_window_tokens'', T_opt_int)]"

text \<open>\<open>_RESULT_EXTRA_COLUMNS\<close>: the columns that the writer fills from these fields.\<close>

definition RESULT_EXTRA_COLUMNS :: "string list" where
  "RESULT_EXTRA_COLUMNS =
     [''queue_wait_s'', ''provision_s'', ''image_pull_s'', ''worker_boot_s'', ''repo_prep_s'', ''agent_s'',
      ''patch_extract_s'', ''artifact_upload_s'', ''task_observed_s'', ''task_billed_s'', ''repo_prep_cache_hit'',
      ''image_pull_cold'', ''eval_queue_wait_s'', ''eval_patch_fetch_s'', ''eval_image_pull_s'', ''eval_test_s'',
      ''eval_log_upload_s'', ''eval_image_pull_cold'', ''stripped_test_paths'', ''grade_invalid'',
      ''leaked_node_ids'', ''leak_detectable'', ''gold_patch_similarity'', ''input_tokens'', ''output_tokens'',
      ''cached_tokens'', ''cache_write_tokens'', ''reasoning_tokens'', ''cost_source'',
      ''usage_parse_failed_calls'', ''paced_wait_ms_total'', ''paced_calls'', ''pacer_timeouts'',
      ''overload_retries_total'', ''turns_used'', ''cost_usd'', ''adapter_input_tokens'',
      ''adapter_output_tokens'', ''adapter_cost_usd'', ''compactions_fired'', ''compaction_tokens_before'',
      ''compaction_tokens_after'', ''context_window_tokens'', ''native_trajectory_s3_key'', ''test_output_s3_key'',
      ''run_log_s3_key'']"

datatype kind = K_float | K_int | K_bool | K_text | K_opt_text | K_texts | K_opt_texts

text \<open>The converter that \<open>_parse_result\<close> applies to each of these fields.\<close>

definition extra_kinds :: "(string \<times> kind) list" where
  "extra_kinds =
     [(''queue_wait_s'', K_float), (''provision_s'', K_float), (''image_pull_s'', K_float),
      (''worker_boot_s'', K_float), (''repo_prep_s'', K_float), (''agent_s'', K_float),
      (''patch_extract_s'', K_float), (''artifact_upload_s'', K_float),
      (''task_observed_s'', K_float), (''task_billed_s'', K_float),
      (''repo_prep_cache_hit'', K_bool), (''image_pull_cold'', K_bool),
      (''eval_queue_wait_s'', K_float), (''eval_patch_fetch_s'', K_float),
      (''eval_image_pull_s'', K_float), (''eval_test_s'', K_float),
      (''eval_log_upload_s'', K_float), (''eval_image_pull_cold'', K_bool),
      (''stripped_test_paths'', K_texts), (''grade_invalid'', K_bool),
      (''leaked_node_ids'', K_opt_texts), (''leak_detectable'', K_bool),
      (''gold_patch_similarity'', K_float),
      (''input_tokens'', K_int), (''output_tokens'', K_int), (''cached_tokens'', K_int),
      (''cache_write_tokens'', K_int), (''reasoning_tokens'', K_int),
      (''cost_source'', K_opt_text), (''usage_parse_failed_calls'', K_int),
      (''paced_wait_ms_total'', K_int), (''paced_calls'', K_int), (''pacer_timeouts'', K_int),
      (''overload_retries_total'', K_int), (''turns_used'', K_int), (''cost_usd'', K_float),
      (''adapter_input_tokens'', K_int), (''adapter_output_tokens'', K_int),
      (''adapter_cost_usd'', K_float), (''compactions_fired'', K_int),
      (''compaction_tokens_before'', K_int), (''compaction_tokens_after'', K_int),
      (''context_window_tokens'', K_int), (''native_trajectory_s3_key'', K_text),
      (''test_output_s3_key'', K_text), (''run_log_s3_key'', K_text)]"

text \<open>The dataclass's own defaults of these fields.\<close>

definition extra_default :: "string \<Rightarrow> colval option" where
  "extra_default c =
     (case map_of declared_fields c of
        Some T_str \<Rightarrow> Some (C_text [])
      | Some T_str_tuple \<Rightarrow> Some (C_texts [])
      | _ \<Rightarrow> None)"

definition bare_result :: "string \<Rightarrow> string \<Rightarrow> int \<Rightarrow> string \<Rightarrow> string \<Rightarrow> string \<Rightarrow> result_message" where
  "bare_result run inst att phase state detail =
     \<lparr>rm_run_id = run, rm_instance_id = inst, rm_attempt = att, rm_phase = phase, rm_state = state,
      rm_error_category = [], rm_error_detail = detail, rm_verdict = [], rm_wall_clock_s = Fin 0,
      rm_patch_s3_key = [], rm_trajectory_s3_key = [], rm_raw_log_s3_key = [],
      rm_report_json_s3_key = [], rm_touches_test_files = False, rm_extra = extra_default\<rparr>"

section \<open>Parsing\<close>

datatype parse_error = Missing_field string | Bad_value

text \<open>\<open>int(s)\<close> on a text.\<close>

definition py_int_text :: "string \<Rightarrow> int option" where
  "py_int_text text =
     (let (neg, ds) = sign (strip text)
      in if ds \<noteq> [] \<and> list_all is_digit ds
         then Some (if neg then - int (digits_val ds) else int (digits_val ds)) else None)"

fun wire_int :: "wire \<Rightarrow> int option" where
  "wire_int (W_int n) = Some n"
| "wire_int (W_float x) = pyfloat_int x"
| "wire_int (W_bool b) = Some (if b then 1 else 0)"
| "wire_int (W_text s) = py_int_text s"
| "wire_int _ = None"

fun wire_float :: "wire \<Rightarrow> pyfloat option" where
  "wire_float (W_int n) = Some (Fin (of_int n))"
| "wire_float (W_float x) = Some x"
| "wire_float (W_bool b) = Some (Fin (if b then 1 else 0))"
| "wire_float (W_text s) = py_float s"
| "wire_float _ = None"

fun wire_truth :: "wire \<Rightarrow> bool" where
  "wire_truth W_null = False"
| "wire_truth (W_int n) = (n \<noteq> 0)"
| "wire_truth (W_float x) = (x \<noteq> Fin 0)"
| "wire_truth (W_bool b) = b"
| "wire_truth (W_text s) = (s \<noteq> [])"
| "wire_truth (W_texts xs) = (xs \<noteq> [])"

text \<open>The items of \<open>tuple(v)\<close> and \<open>list(v)\<close>: a text is taken apart into its characters.\<close>

fun wire_items :: "wire \<Rightarrow> string list option" where
  "wire_items (W_texts xs) = Some xs"
| "wire_items (W_text s) = Some (map (\<lambda>c. [c]) s)"
| "wire_items _ = None"

text \<open>\<open>body.get(key)\<close> with the test for \<open>None\<close>.\<close>

definition present :: "body \<Rightarrow> string \<Rightarrow> wire option" where
  "present b k = (case bd_val b k of None \<Rightarrow> None | Some W_null \<Rightarrow> None | Some w \<Rightarrow> Some w)"

definition opt_val :: "(wire \<Rightarrow> 'a option) \<Rightarrow> ('a \<Rightarrow> colval) \<Rightarrow> wire option \<Rightarrow> parse_error + colval option" where
  "opt_val conv mk w =
     (case w of
        None \<Rightarrow> Inr None
      | Some v \<Rightarrow> (case conv v of None \<Rightarrow> Inl Bad_value | Some x \<Rightarrow> Inr (Some (mk x))))"

definition text_field :: "body \<Rightarrow> string \<Rightarrow> string" where
  "text_field b k = (case bd_text b k of None \<Rightarrow> [] | Some s \<Rightarrow> s)"

fun parse_column :: "body \<Rightarrow> string \<times> kind \<Rightarrow> parse_error + colval option" where
  "parse_column b (k, K_float) = opt_val wire_float C_float (present b k)"
| "parse_column b (k, K_int) = opt_val wire_int C_int (present b k)"
| "parse_column b (k, K_bool) = opt_val (\<lambda>w. Some (wire_truth w)) C_bool (present b k)"
| "parse_column b (k, K_text) = Inr (Some (C_text (text_field b k)))"
| "parse_column b (k, K_opt_text) =
     Inr (if text_field b k = [] then None else Some (C_text (text_field b k)))"
| "parse_column b (k, K_texts) =
     (case present b k of
        None \<Rightarrow> Inr (Some (C_texts []))
      | Some w \<Rightarrow>
          if wire_truth w then
            (case wire_items w of None \<Rightarrow> Inl Bad_value | Some xs \<Rightarrow> Inr (Some (C_texts xs)))
          else Inr (Some (C_texts [])))"
| "parse_column b (k, K_opt_texts) = opt_val wire_items C_texts (present b k)"

fun parse_columns :: "body \<Rightarrow> (string \<times> kind) list \<Rightarrow> parse_error + (string \<Rightarrow> colval option)" where
  "parse_columns b [] = Inr (\<lambda>_. None)"
| "parse_columns b (ck # cks) =
     (case parse_column b ck of
        Inl e \<Rightarrow> Inl e
      | Inr v \<Rightarrow> (case parse_columns b cks of Inl e \<Rightarrow> Inl e | Inr f \<Rightarrow> Inr (f(fst ck := v))))"

definition need_text :: "body \<Rightarrow> string \<Rightarrow> parse_error + string" where
  "need_text b k = (case bd_text b k of None \<Rightarrow> Inl (Missing_field k) | Some s \<Rightarrow> Inr s)"

definition need_int :: "body \<Rightarrow> string \<Rightarrow> parse_error + int" where
  "need_int b k =
     (case bd_val b k of
        None \<Rightarrow> Inl (Missing_field k)
      | Some w \<Rightarrow> (case wire_int w of None \<Rightarrow> Inl Bad_value | Some n \<Rightarrow> Inr n))"

definition sum_bind :: "'e + 'a \<Rightarrow> ('a \<Rightarrow> 'e + 'b) \<Rightarrow> 'e + 'b" where
  "sum_bind r f = (case r of Inl e \<Rightarrow> Inl e | Inr x \<Rightarrow> f x)"

definition parse_result :: "body \<Rightarrow> parse_error + result_message" where
  "parse_result b =
     sum_bind (need_text b ''run_id'') (\<lambda>run.
     sum_bind (need_text b ''instance_id'') (\<lambda>inst.
     sum_bind (need_int b ''attempt_number'') (\<lambda>att.
     sum_bind (need_text b ''phase'') (\<lambda>phase.
     sum_bind (need_text b ''state'') (\<lambda>state.
     sum_bind (case bd_val b ''wall_clock_s'' of
                 None \<Rightarrow> Inr (Fin 0)
               | Some w \<Rightarrow> (case wire_float w of None \<Rightarrow> Inl Bad_value | Some x \<Rightarrow> Inr x)) (\<lambda>wall.
     sum_bind (parse_columns b extra_kinds) (\<lambda>extra.
       Inr \<lparr>rm_run_id = run, rm_instance_id = inst, rm_attempt = att, rm_phase = phase, rm_state = state,
            rm_error_category = text_field b ''error_category'',
            rm_error_detail = text_field b ''error_detail'',
            rm_verdict = text_field b ''verdict'', rm_wall_clock_s = wall,
            rm_patch_s3_key = text_field b ''patch_s3_key'',
            rm_trajectory_s3_key = text_field b ''trajectory_s3_key'',
            rm_raw_log_s3_key = text_field b ''raw_log_s3_key'',
            rm_report_json_s3_key = text_field b ''report_json_s3_key'',
            rm_touches_test_files =
              (case bd_val b ''touches_test_files'' of None \<Rightarrow> False | Some w \<Rightarrow> wire_truth w),
            rm_extra = extra\<rparr>)))))))"

text \<open>\<open>dataclasses.asdict\<close> and JSON: a tuple becomes a list.\<close>

fun col_wire :: "colval \<Rightarrow> wire" where
  "col_wire (C_int n) = W_int n"
| "col_wire (C_float x) = W_float x"
| "col_wire (C_bool b) = W_bool b"
| "col_wire (C_text s) = W_text s"
| "col_wire (C_texts xs) = W_texts xs"

definition to_body :: "result_message \<Rightarrow> body" where
  "to_body m =
     \<lparr>bd_text = (\<lambda>k. case map_of
          [(''run_id'', rm_run_id m), (''instance_id'', rm_instance_id m), (''phase'', rm_phase m),
           (''state'', rm_state m), (''error_category'', rm_error_category m),
           (''error_detail'', rm_error_detail m), (''verdict'', rm_verdict m),
           (''patch_s3_key'', rm_patch_s3_key m), (''trajectory_s3_key'', rm_trajectory_s3_key m),
           (''raw_log_s3_key'', rm_raw_log_s3_key m),
           (''report_json_s3_key'', rm_report_json_s3_key m)] k of
            Some s \<Rightarrow> Some s
          | None \<Rightarrow> (if map_of declared_fields k \<in> {Some T_str, Some T_opt_str}
                     then (case rm_extra m k of Some (C_text s) \<Rightarrow> Some s | _ \<Rightarrow> None) else None)),
      bd_val = (\<lambda>k. case map_of
          [(''attempt_number'', W_int (rm_attempt m)), (''wall_clock_s'', W_float (rm_wall_clock_s m)),
           (''touches_test_files'', W_bool (rm_touches_test_files m))] k of
            Some w \<Rightarrow> Some w
          | None \<Rightarrow> (case map_of declared_fields k of
                None \<Rightarrow> None
              | Some ty \<Rightarrow> (if ty \<in> {T_str, T_opt_str} then None
                            else Some (case rm_extra m k of None \<Rightarrow> W_null | Some v \<Rightarrow> col_wire v))))\<rparr>"

text \<open>A message as the dataclass declares its fields; an optional text is \<open>None\<close> rather than empty.\<close>

fun type_ok :: "field_type \<Rightarrow> colval option \<Rightarrow> bool" where
  "type_ok T_opt_int v = (case v of None \<Rightarrow> True | Some (C_int n) \<Rightarrow> True | _ \<Rightarrow> False)"
| "type_ok T_opt_float v = (case v of None \<Rightarrow> True | Some (C_float x) \<Rightarrow> True | _ \<Rightarrow> False)"
| "type_ok T_opt_bool v = (case v of None \<Rightarrow> True | Some (C_bool b) \<Rightarrow> True | _ \<Rightarrow> False)"
| "type_ok T_str v = (case v of Some (C_text s) \<Rightarrow> True | _ \<Rightarrow> False)"
| "type_ok T_opt_str v = (case v of None \<Rightarrow> True | Some (C_text s) \<Rightarrow> s \<noteq> [] | _ \<Rightarrow> False)"
| "type_ok T_str_tuple v = (case v of Some (C_texts xs) \<Rightarrow> True | _ \<Rightarrow> False)"
| "type_ok T_opt_str_list v = (case v of None \<Rightarrow> True | Some (C_texts xs) \<Rightarrow> True | _ \<Rightarrow> False)"

definition well_typed :: "result_message \<Rightarrow> bool" where
  "well_typed m \<longleftrightarrow>
     list_all (\<lambda>(c, t). type_ok t (rm_extra m c)) declared_fields \<and>
     (\<forall>c. c \<notin> fst ` set declared_fields \<longrightarrow> rm_extra m c = None)"

section \<open>The parser reads what the dataclass declares\<close>

text \<open>What a converter gives, and the converter that a declared type needs.\<close>

fun kind_ok :: "kind \<Rightarrow> colval option \<Rightarrow> bool" where
  "kind_ok K_float v = type_ok T_opt_float v"
| "kind_ok K_int v = type_ok T_opt_int v"
| "kind_ok K_bool v = type_ok T_opt_bool v"
| "kind_ok K_text v = type_ok T_str v"
| "kind_ok K_opt_text v = type_ok T_opt_str v"
| "kind_ok K_texts v = type_ok T_str_tuple v"
| "kind_ok K_opt_texts v = type_ok T_opt_str_list v"

fun kind_of :: "field_type \<Rightarrow> kind" where
  "kind_of T_opt_int = K_int"
| "kind_of T_opt_float = K_float"
| "kind_of T_opt_bool = K_bool"
| "kind_of T_str = K_text"
| "kind_of T_opt_str = K_opt_text"
| "kind_of T_str_tuple = K_texts"
| "kind_of T_opt_str_list = K_opt_texts"

lemma kind_of_ok: "kind_ok (kind_of t) v = type_ok t v"
  by (cases t) simp_all

lemma kind_of_text: "kind_of t \<in> {K_text, K_opt_text} \<longleftrightarrow> t \<in> {T_str, T_opt_str}"
  by (cases t) simp_all

lemma extra_columns_distinct: "distinct (map fst extra_kinds)"
  by (simp add: extra_kinds_def)

lemma columns_are_parsed: "RESULT_EXTRA_COLUMNS = map fst extra_kinds"
  by (simp add: RESULT_EXTRA_COLUMNS_def extra_kinds_def)

lemma declared_distinct: "distinct (map fst declared_fields)"
  by (simp add: declared_fields_def)

lemma kinds_as_declared: "map_of extra_kinds c = map_option kind_of (map_of declared_fields c)"
proof -
  have s: "set extra_kinds = set (map (\<lambda>(c, t). (c, kind_of t)) declared_fields)"
    by (simp add: extra_kinds_def declared_fields_def insert_commute)
  have d: "distinct (map fst (map (\<lambda>(c, t). (c, kind_of t)) declared_fields))"
    using declared_distinct by (simp add: comp_def case_prod_unfold)
  have "map_of extra_kinds = map_of (map (\<lambda>(c, t). (c, kind_of t)) declared_fields)"
    using map_of_inject_set [OF extra_columns_distinct d] s by blast
  then show ?thesis by (simp add: map_of_map)
qed

lemma declared_are_parsed: "fst ` set declared_fields = fst ` set extra_kinds"
proof -
  have "c \<in> fst ` set declared_fields \<longleftrightarrow> c \<in> fst ` set extra_kinds" for c
    using kinds_as_declared [of c] map_of_eq_None_iff [of declared_fields c] map_of_eq_None_iff [of extra_kinds c] by auto
  then show ?thesis by blast
qed

lemma well_typed_kinds:
  "well_typed m \<longleftrightarrow> list_all (\<lambda>(c, k). kind_ok k (rm_extra m c)) extra_kinds \<and>
     (\<forall>c. c \<notin> set RESULT_EXTRA_COLUMNS \<longrightarrow> rm_extra m c = None)"
proof -
  have "list_all (\<lambda>(c, t). type_ok t (rm_extra m c)) declared_fields \<longleftrightarrow>
      (\<forall>c t. map_of declared_fields c = Some t \<longrightarrow> type_ok t (rm_extra m c))"
    using declared_distinct by (auto simp: list_all_iff)
  also have "\<dots> \<longleftrightarrow> (\<forall>c k. map_of extra_kinds c = Some k \<longrightarrow> kind_ok k (rm_extra m c))"
    by (simp add: kinds_as_declared) (metis kind_of_ok option.map(2) option.exhaust option.inject)
  also have "\<dots> \<longleftrightarrow> list_all (\<lambda>(c, k). kind_ok k (rm_extra m c)) extra_kinds"
    using extra_columns_distinct by (auto simp: list_all_iff)
  finally show ?thesis by (simp add: well_typed_def columns_are_parsed declared_are_parsed)
qed

lemma core_columns_apart:
  "c \<in> set RESULT_EXTRA_COLUMNS \<Longrightarrow>
   c \<notin> {''run_id'', ''instance_id'', ''phase'', ''state'', ''error_category'', ''error_detail'', ''verdict'',
     ''patch_s3_key'', ''trajectory_s3_key'', ''raw_log_s3_key'', ''report_json_s3_key'',
     ''attempt_number'', ''wall_clock_s'', ''touches_test_files''}"
proof -
  have "list_all (\<lambda>c. c \<notin> {''run_id'', ''instance_id'', ''phase'', ''state'', ''error_category'',
     ''error_detail'', ''verdict'', ''patch_s3_key'', ''trajectory_s3_key'', ''raw_log_s3_key'',
     ''report_json_s3_key'', ''attempt_number'', ''wall_clock_s'', ''touches_test_files''}) RESULT_EXTRA_COLUMNS"
    by (simp add: RESULT_EXTRA_COLUMNS_def)
  then show "c \<in> set RESULT_EXTRA_COLUMNS \<Longrightarrow> ?thesis" by (simp add: list_all_iff)
qed

lemma parse_columns_all:
  assumes "\<forall>(c, k) \<in> set cks. parse_column b (c, k) = Inr (f c)"
  shows "parse_columns b cks = Inr (\<lambda>c. if c \<in> fst ` set cks then f c else None)"
  using assms
proof (induction cks)
  case (Cons ck cks)
  then show ?case by (cases ck) (auto simp: fun_eq_iff)
qed simp

lemma parse_column_to_body:
  assumes "(c, k) \<in> set extra_kinds" "kind_ok k (rm_extra m c)"
  shows "parse_column (to_body m) (c, k) = Inr (rm_extra m c)"
proof -
  have "map_of extra_kinds c = Some k" using assms(1) extra_columns_distinct by simp
  then obtain t where k: "map_of declared_fields c = Some t" "k = kind_of t" by (auto simp: kinds_as_declared)
  have "c \<in> set RESULT_EXTRA_COLUMNS" using assms(1) by (force simp: columns_are_parsed)
  note apart = core_columns_apart [OF this]
  have t: "bd_text (to_body m) c =
      (if t \<in> {T_str, T_opt_str} then (case rm_extra m c of Some (C_text s) \<Rightarrow> Some s | _ \<Rightarrow> None) else None)"
    using apart k by (simp add: to_body_def)
  have v: "bd_val (to_body m) c =
      (if t \<in> {T_str, T_opt_str} then None
       else Some (case rm_extra m c of None \<Rightarrow> W_null | Some v \<Rightarrow> col_wire v))"
    using apart k by (simp add: to_body_def)
  show ?thesis
    using assms(2) t v unfolding k(2)
    by (cases t; cases "rm_extra m c"; simp add: present_def text_field_def opt_val_def split: colval.splits)
qed

lemma to_body_core:
  "bd_text (to_body m) ''run_id'' = Some (rm_run_id m)"
  "bd_text (to_body m) ''instance_id'' = Some (rm_instance_id m)"
  "bd_text (to_body m) ''phase'' = Some (rm_phase m)"
  "bd_text (to_body m) ''state'' = Some (rm_state m)"
  "bd_text (to_body m) ''error_category'' = Some (rm_error_category m)"
  "bd_text (to_body m) ''error_detail'' = Some (rm_error_detail m)"
  "bd_text (to_body m) ''verdict'' = Some (rm_verdict m)"
  "bd_text (to_body m) ''patch_s3_key'' = Some (rm_patch_s3_key m)"
  "bd_text (to_body m) ''trajectory_s3_key'' = Some (rm_trajectory_s3_key m)"
  "bd_text (to_body m) ''raw_log_s3_key'' = Some (rm_raw_log_s3_key m)"
  "bd_text (to_body m) ''report_json_s3_key'' = Some (rm_report_json_s3_key m)"
  "bd_val (to_body m) ''attempt_number'' = Some (W_int (rm_attempt m))"
  "bd_val (to_body m) ''wall_clock_s'' = Some (W_float (rm_wall_clock_s m))"
  "bd_val (to_body m) ''touches_test_files'' = Some (W_bool (rm_touches_test_files m))"
  by (simp_all add: to_body_def)

text \<open>
  C31: Nothing is lost on the wire: what a worker puts into a message is what the writer parses. The message
  is any that has the fields of the dataclass with the types it declares (an optional text
  not empty), the body is its \<open>asdict\<close>, and the parser's own table of converters gives every field back: none is
  forgotten and none is read with another type.
\<close>

theorem result_roundtrip:
  assumes "well_typed m"
  shows "parse_result (to_body m) = Inr m"
proof -
  have cols: "parse_columns (to_body m) extra_kinds = Inr (rm_extra m)"
  proof -
    have "\<forall>(c, k) \<in> set extra_kinds. parse_column (to_body m) (c, k) = Inr (rm_extra m c)"
      using assms parse_column_to_body by (fastforce simp: well_typed_kinds list_all_iff)
    from parse_columns_all [OF this] show ?thesis
      using assms by (auto simp: well_typed_kinds columns_are_parsed fun_eq_iff)
  qed
  show ?thesis
    unfolding parse_result_def cols sum_bind_def need_text_def need_int_def text_field_def
    by (simp add: to_body_core)
qed

lemma parse_column_kind: "parse_column b (c, k) = Inr v \<Longrightarrow> kind_ok k v"
  by (cases k) (auto simp: opt_val_def split: option.splits if_splits)

lemma parse_columns_kinds:
  assumes "parse_columns b cks = Inr f" "distinct (map fst cks)"
  shows "list_all (\<lambda>(c, k). kind_ok k (f c)) cks \<and> (\<forall>c. c \<notin> fst ` set cks \<longrightarrow> f c = None)"
  using assms
proof (induction cks arbitrary: f)
  case (Cons ck cks)
  obtain c k where ck: "ck = (c, k)" by force
  from Cons.prems obtain v g where v: "parse_column b ck = Inr v" "parse_columns b cks = Inr g" "f = g(c := v)"
    by (auto simp: ck split: sum.splits)
  have d: "c \<notin> fst ` set cks" "distinct (map fst cks)" using Cons.prems(2) by (auto simp: ck)
  note IH = Cons.IH [OF v(2) d(2)]
  have "kind_ok k v" using v(1) parse_column_kind by (simp add: ck)
  moreover have "list_all (\<lambda>(c', k'). kind_ok k' (f c')) cks"
    unfolding list_all_iff
  proof (clarify)
    fix c' k' assume m: "(c', k') \<in> set cks"
    with d(1) have "c' \<noteq> c" by force
    with IH m show "kind_ok k' (f c')" by (force simp: v(3) list_all_iff)
  qed
  ultimately show ?case using IH by (simp add: ck v(3))
qed simp

lemma sum_bind_Inr: "sum_bind r f = Inr y \<longleftrightarrow> (\<exists>x. r = Inr x \<and> f x = Inr y)"
  by (simp add: sum_bind_def split: sum.split)

lemma parse_result_extra:
  "parse_result b = Inr m \<Longrightarrow> parse_columns b extra_kinds = Inr (rm_extra m)"
  unfolding parse_result_def sum_bind_Inr
  by (elim exE conjE) (drule sym [of "Inr _" "Inr m"], simp only: sum.inject result_message.select_convs)

lemma parse_result_typed: "parse_result b = Inr m \<Longrightarrow> well_typed m"
  using parse_columns_kinds [OF parse_result_extra extra_columns_distinct]
  by (simp add: well_typed_kinds columns_are_parsed)

end
