(* ===== verification/Results_Ledger.thy ===== *)
theory Results_Ledger
  imports Result_Message
begin

text \<open>
  \<open>swebench_eval/orchestrator/control_plane/results_writer.py\<close> with the function \<open>state_rank\<close> of
  \<open>infra/docker/init.sql\<close>: how a result message becomes a row of \<open>instance_results\<close>, under a
  guard that only lets a higher state through, when an eval job is enqueued, and what the run
  summary counts.

  A table is an association list from the primary key to a row. The evidence columns of a row are
  a function from the column name, as the code builds its statements from lists of names; \<open>None\<close>
  is NULL. Connections, the log and the metric are left out; each commit and each call that
  can fail has a flag saying whether it succeeds.
\<close>

section \<open>Rows\<close>

definition CORE_EVIDENCE_COLUMNS :: "string list" where
  "CORE_EVIDENCE_COLUMNS =
     [''error_category'', ''error_detail'', ''verdict'', ''wall_clock_harness_s'',
      ''wall_clock_eval_s'', ''touches_test_files'', ''patch_path'', ''trajectory_path'',
      ''raw_log_path'', ''report_path'', ''report_json'']"

definition EVIDENCE_COLUMNS :: "string list" where
  "EVIDENCE_COLUMNS = CORE_EVIDENCE_COLUMNS @ RESULT_EXTRA_COLUMNS"

type_synonym row_key = "string \<times> string \<times> int \<times> string"

record ledger_row =
  lr_state :: string
  lr_created_at :: real
  lr_seeded_at :: "real option"
  lr_dispatched_at :: "real option"
  lr_dispatch_count :: "int option"
  lr_retry_reason :: "string option"
  lr_evidence :: "string \<Rightarrow> colval option"

definition state_rank :: "string \<Rightarrow> nat" where
  "state_rank s =
     (if s = ''PENDING'' then 0
      else if s = ''DISPATCHED'' then 1
      else if s = ''HARNESS_RUNNING'' then 2
      else if s = ''EVAL_RUNNING'' then 2
      else if s = ''ABANDONED'' then 3
      else if s = ''ABORTED_IN_FLIGHT'' then 4
      else if s = ''NEVER_DISPATCHED'' then 4
      else 4)"

definition or_null :: "string \<Rightarrow> colval option" where
  "or_null s = (if s = [] then None else Some (C_text s))"

definition core_evidence_values :: "result_message \<Rightarrow> (string \<times> colval option) list" where
  "core_evidence_values m =
     [(''error_category'', or_null (rm_error_category m)),
      (''error_detail'', or_null (rm_error_detail m)),
      (''verdict'', or_null (rm_verdict m)),
      (''wall_clock_harness_s'', if rm_phase m = ''harness'' then Some (C_float (rm_wall_clock_s m)) else None),
      (''wall_clock_eval_s'', if rm_phase m = ''eval'' then Some (C_float (rm_wall_clock_s m)) else None),
      (''touches_test_files'', Some (C_bool (rm_touches_test_files m))),
      (''patch_path'', or_null (rm_patch_s3_key m)),
      (''trajectory_path'', or_null (rm_trajectory_s3_key m)),
      (''raw_log_path'', or_null (rm_raw_log_s3_key m)),
      (''report_path'', or_null (rm_report_json_s3_key m)),
      (''report_json'', None)]"

definition result_extra_values :: "result_message \<Rightarrow> (string \<times> colval option) list" where
  "result_extra_values m = map (\<lambda>c. (c, rm_extra m c)) RESULT_EXTRA_COLUMNS"

text \<open>The value a statement binds to an evidence column.\<close>

definition message_value :: "result_message \<Rightarrow> string \<Rightarrow> colval option" where
  "message_value m c =
     (case map_of (core_evidence_values m @ result_extra_values m) c of None \<Rightarrow> None | Some v \<Rightarrow> v)"

definition coalesce :: "'a option \<Rightarrow> 'a option \<Rightarrow> 'a option" where
  "coalesce x y = (case x of None \<Rightarrow> y | Some v \<Rightarrow> Some v)"

definition row_key :: "result_message \<Rightarrow> row_key" where
  "row_key m = (rm_run_id m, rm_instance_id m, rm_attempt m, rm_phase m)"

section \<open>The guarded upsert\<close>

definition dispatched_param :: "real \<Rightarrow> result_message \<Rightarrow> real option" where
  "dispatched_param now m = (if rm_state m = ''DISPATCHED'' then Some now else None)"

definition insert_row :: "real \<Rightarrow> result_message \<Rightarrow> ledger_row" where
  "insert_row now m =
     \<lparr>lr_state = rm_state m, lr_created_at = now, lr_seeded_at = None,
      lr_dispatched_at = dispatched_param now m,
      lr_dispatch_count = Some (if rm_state m = ''DISPATCHED'' then 1 else 0),
      lr_retry_reason = None, lr_evidence = message_value m\<rparr>"

definition update_row :: "real \<Rightarrow> result_message \<Rightarrow> ledger_row \<Rightarrow> ledger_row" where
  "update_row now m r =
     r\<lparr>lr_state := rm_state m,
       lr_evidence := (\<lambda>c. coalesce (message_value m c) (lr_evidence r c)),
       lr_dispatched_at := coalesce (dispatched_param now m) (lr_dispatched_at r),
       lr_dispatch_count :=
         (case dispatched_param now m of
            Some t \<Rightarrow> Some ((case lr_dispatch_count r of None \<Rightarrow> 0 | Some n \<Rightarrow> n) + 1)
          | None \<Rightarrow> lr_dispatch_count r)\<rparr>"

definition fill_row :: "result_message \<Rightarrow> ledger_row \<Rightarrow> ledger_row" where
  "fill_row m r = r\<lparr>lr_evidence := (\<lambda>c. coalesce (lr_evidence r c) (message_value m c))\<rparr>"

type_synonym ledger_table = "(row_key \<times> ledger_row) list"

text \<open>The flag is \<open>advanced\<close>: the statement returned a row.\<close>

definition upsert :: "real \<Rightarrow> result_message \<Rightarrow> ledger_table \<Rightarrow> bool \<times> ledger_table" where
  "upsert now m t =
     (case map_of t (row_key m) of
        None \<Rightarrow> (True, AList.update (row_key m) (insert_row now m) t)
      | Some r \<Rightarrow>
          if state_rank (lr_state r) < state_rank (rm_state m)
          then (True, AList.update (row_key m) (update_row now m r) t)
          else (False, AList.update (row_key m) (fill_row m r) t))"

section \<open>The eval job\<close>

record eval_job =
  ej_run_id :: string
  ej_instance_id :: string
  ej_attempt :: int
  ej_patch_s3_key :: string
  ej_use_gold :: bool

text \<open>A seeded row: the columns the statement does not name take their defaults.\<close>

definition seeded_row :: "real \<Rightarrow> string option \<Rightarrow> ledger_row" where
  "seeded_row now reason =
     \<lparr>lr_state = ''PENDING'', lr_created_at = now, lr_seeded_at = Some now, lr_dispatched_at = None,
      lr_dispatch_count = Some 0, lr_retry_reason = reason,
      lr_evidence = (\<lambda>c. if c = ''touches_test_files'' then Some (C_bool False)
                         else if c = ''report_json'' then Some (C_text ''{}'') else None)\<rparr>"

definition seed_eval_row :: "real \<Rightarrow> result_message \<Rightarrow> ledger_table \<Rightarrow> ledger_table" where
  "seed_eval_row now m t =
     (let k = (rm_run_id m, rm_instance_id m, rm_attempt m, ''eval'')
      in case map_of t k of
          Some r \<Rightarrow> t
        | None \<Rightarrow>
            AList.update k
              (seeded_row now
                 (case map_of t (rm_run_id m, rm_instance_id m, rm_attempt m, ''harness'') of
                    None \<Rightarrow> None | Some h \<Rightarrow> lr_retry_reason h)) t)"

definition eval_job_for :: "result_message \<Rightarrow> eval_job" where
  "eval_job_for m =
     \<lparr>ej_run_id = rm_run_id m, ej_instance_id = rm_instance_id m, ej_attempt = rm_attempt m,
      ej_patch_s3_key = rm_patch_s3_key m, ej_use_gold = False\<rparr>"

section \<open>The run summary\<close>

definition abort_excluded :: "string list" where
  "abort_excluded = [''ABORTED_IN_FLIGHT'', ''NEVER_DISPATCHED'']"

definition non_terminal_harness_states :: "string list" where
  "non_terminal_harness_states = [''PENDING'', ''DISPATCHED'', ''HARNESS_RUNNING'']"

definition all_non_terminal_states :: "string list" where
  "all_non_terminal_states = [''PENDING'', ''DISPATCHED'', ''HARNESS_RUNNING'', ''EVAL_RUNNING'']"

record run_summary =
  rs_expected :: nat
  rs_completed :: nat
  rs_aborted :: nat
  rs_never :: nat
  rs_resolved :: nat
  rs_empty_patches :: nat
  rs_attempted :: nat
  rs_gradeable :: nat
  rs_per_attempted :: "real option"
  rs_per_gradeable :: "real option"

definition run_rows :: "string \<Rightarrow> ledger_table \<Rightarrow> (row_key \<times> ledger_row) list" where
  "run_rows run t = filter (\<lambda>(k, r). fst k = run) t"

definition phase_of :: "row_key \<times> ledger_row \<Rightarrow> string" where
  "phase_of kr = snd (snd (snd (fst kr)))"

definition state_of :: "row_key \<times> ledger_row \<Rightarrow> string" where
  "state_of kr = lr_state (snd kr)"

definition verdict_of :: "row_key \<times> ledger_row \<Rightarrow> colval option" where
  "verdict_of kr = lr_evidence (snd kr) ''verdict''"

definition count_rows :: "(row_key \<times> ledger_row \<Rightarrow> bool) \<Rightarrow> (row_key \<times> ledger_row) list \<Rightarrow> nat" where
  "count_rows p rows = length (filter p rows)"

definition rate :: "nat \<Rightarrow> nat \<Rightarrow> real option" where
  "rate n d = (if d = 0 then None else Some (real n / real d))"

definition run_summary_of :: "string \<Rightarrow> ledger_table \<Rightarrow> run_summary" where
  "run_summary_of run t =
     (let rows = run_rows run t;
          expected = count_rows (\<lambda>x. phase_of x = ''harness'') rows;
          completed = count_rows (\<lambda>x. phase_of x = ''harness'' \<and>
             state_of x \<notin> set (abort_excluded @ non_terminal_harness_states)) rows;
          aborted = count_rows (\<lambda>x. state_of x = ''ABORTED_IN_FLIGHT'') rows;
          never = count_rows (\<lambda>x. state_of x = ''NEVER_DISPATCHED'') rows;
          resolved = count_rows (\<lambda>x. phase_of x = ''eval'' \<and> verdict_of x = Some (C_text ''resolved'')) rows;
          verdicts = count_rows (\<lambda>x. phase_of x = ''eval'' \<and>
             verdict_of x \<in> {Some (C_text ''resolved''), Some (C_text ''unresolved'')} \<and>
             lr_evidence (snd x) ''grade_invalid'' \<noteq> Some (C_bool True)) rows;
          empties = count_rows (\<lambda>x. phase_of x = ''harness'' \<and> state_of x = ''EMPTY_PATCH'') rows;
          attempted = completed + aborted;
          gradeable = verdicts + empties
      in \<lparr>rs_expected = expected, rs_completed = completed, rs_aborted = aborted, rs_never = never,
          rs_resolved = resolved, rs_empty_patches = empties, rs_attempted = attempted,
          rs_gradeable = gradeable, rs_per_attempted = rate resolved attempted,
          rs_per_gradeable = rate resolved gradeable\<rparr>)"

section \<open>One message\<close>

record ledger =
  lg_runs :: "(string \<times> string) list"
  lg_table :: ledger_table
  lg_summaries :: "(string \<times> run_summary) list"
  lg_eval_jobs :: "eval_job list"

text \<open>Which of the commits and calls of one message succeed.\<close>

record write_health =
  ok_upsert :: bool
  ok_seed :: bool
  ok_send :: bool
  ok_summary :: bool

definition healthy :: write_health where
  "healthy = \<lparr>ok_upsert = True, ok_seed = True, ok_send = True, ok_summary = True\<rparr>"

definition enqueue_eval_job :: "write_health \<Rightarrow> real \<Rightarrow> result_message \<Rightarrow> ledger \<Rightarrow> bool \<times> ledger" where
  "enqueue_eval_job h now m lg =
     (if \<not> ok_seed h then (False, lg)
      else (let lg1 = lg\<lparr>lg_table := seed_eval_row now m (lg_table lg)\<rparr>
            in if ok_send h then (True, lg1\<lparr>lg_eval_jobs := lg_eval_jobs lg1 @ [eval_job_for m]\<rparr>)
               else (False, lg1)))"

definition maintain_run_summary :: "string \<Rightarrow> ledger \<Rightarrow> ledger" where
  "maintain_run_summary run lg =
     lg\<lparr>lg_summaries := AList.update run (run_summary_of run (lg_table lg)) (lg_summaries lg)\<rparr>"

text \<open>The flag is false where the code raises; the foreign key refuses a run that is not registered.\<close>

definition process_result :: "write_health \<Rightarrow> real \<Rightarrow> result_message \<Rightarrow> ledger \<Rightarrow> bool \<times> ledger" where
  "process_result h now m lg =
     (if \<not> ok_upsert h \<or> map_of (lg_runs lg) (rm_run_id m) = None then (False, lg)
      else (let (advanced, t) = upsert now m (lg_table lg);
                lg1 = lg\<lparr>lg_table := t\<rparr>;
                (ok, lg2) =
                  (if advanced \<and> rm_phase m = ''harness'' \<and> rm_state m = ''PATCH_READY''
                   then enqueue_eval_job h now m lg1 else (True, lg1))
            in if \<not> ok then (False, lg2)
               else if ok_summary h then (True, maintain_run_summary (rm_run_id m) lg2)
               else (False, lg2)))"

text \<open>One turn of the consume loop; the flag says whether the message is deleted.\<close>

definition consume :: "write_health \<Rightarrow> real \<Rightarrow> body \<Rightarrow> ledger \<Rightarrow> bool \<times> ledger" where
  "consume h now b lg =
     (case parse_result b of Inl e \<Rightarrow> (False, lg) | Inr m \<Rightarrow> process_result h now m lg)"

section \<open>Readiness and dead letters\<close>

definition non_terminal_row_counts :: "string \<Rightarrow> ledger_table \<Rightarrow> nat \<times> nat" where
  "non_terminal_row_counts run t =
     (count_rows (\<lambda>x. state_of x \<in> set all_non_terminal_states) (run_rows run t), length (run_rows run t))"

definition is_ready_to_close :: "string \<Rightarrow> ledger \<Rightarrow> bool" where
  "is_ready_to_close run lg =
     (case map_of (lg_runs lg) run of
        None \<Rightarrow> False
      | Some status \<Rightarrow>
          if is_run_closed status then False
          else (let (non_terminal, total) = non_terminal_row_counts run (lg_table lg)
                in 0 < total \<and> non_terminal = 0))"

text \<open>
  A reap goes onto the results queue as an ordinary message. A dead-lettered job is abandoned when
  its body names a run and an instance; its body is persisted first, and only a message whose
  processing did not raise is deleted. The result is the message sent, if any, and that flag.
\<close>

definition reap_result :: "string \<Rightarrow> string \<Rightarrow> int \<Rightarrow> string \<Rightarrow> string \<Rightarrow> string \<Rightarrow> result_message" where
  "reap_result run inst att phase state detail = bare_result run inst att phase state detail"

definition dlq_attempt :: "body \<Rightarrow> int option" where
  "dlq_attempt b =
     (case bd_val b ''attempt_number'' of
        None \<Rightarrow> Some 0
      | Some w \<Rightarrow> if wire_truth w then wire_int w else Some 0)"

definition process_dlq_message ::
    "bool \<Rightarrow> bool \<Rightarrow> string \<Rightarrow> string \<Rightarrow> body \<Rightarrow> result_message option \<times> bool" where
  "process_dlq_message ok_persist ok_emit phase detail b =
     (let run = text_field b ''run_id''; inst = text_field b ''instance_id''
      in case dlq_attempt b of
          None \<Rightarrow> (None, False)
        | Some att \<Rightarrow>
            if \<not> ok_persist then (None, False)
            else if run \<noteq> [] \<and> inst \<noteq> [] then
              (if ok_emit then (Some (reap_result run inst att phase ''ABANDONED'' detail), True)
               else (None, False))
            else (None, True))"

end
