(* ===== verification/Ledger_Runs.thy ===== *)
theory Ledger_Runs
  imports Results_Ledger
begin

text \<open>
  Runs of the results consumer: how rows progress under any deliveries, that a patch is graded at
  most once, that a redelivery changes nothing, and the window in which an eval job is lost.
\<close>

section \<open>The guard\<close>

lemma state_rank_le: "state_rank s \<le> 4"
  by (simp add: state_rank_def)

lemma coalesce_simps [simp]:
  "coalesce None y = y" "coalesce (Some v) y = Some v" "coalesce x None = x" "coalesce x x = x"
  by (simp_all add: coalesce_def split: option.split)

lemma coalesce_eq_None: "coalesce x y = None \<longleftrightarrow> x = None \<and> y = None"
  by (simp add: coalesce_def split: option.split)

lemma map_of_update [simp]: "map_of (AList.update k v t) = (map_of t)(k \<mapsto> v)"
  by (rule update_conv')

lemma upsert_row:
  "map_of (snd (upsert now m t)) (row_key m) =
     Some (case map_of t (row_key m) of
        None \<Rightarrow> insert_row now m
      | Some r \<Rightarrow> if state_rank (lr_state r) < state_rank (rm_state m) then update_row now m r else fill_row m r)"
  by (simp add: upsert_def split: option.split)

lemma upsert_other: "k \<noteq> row_key m \<Longrightarrow> map_of (snd (upsert now m t)) k = map_of t k"
  by (simp add: upsert_def split: option.split)

lemma fst_upsert:
  "fst (upsert now m t) \<longleftrightarrow>
     (case map_of t (row_key m) of None \<Rightarrow> True | Some r \<Rightarrow> state_rank (lr_state r) < state_rank (rm_state m))"
  by (simp add: upsert_def split: option.split)

lemma seed_eval_row_old: "map_of t k = Some r \<Longrightarrow> map_of (seed_eval_row now m t) k = Some r"
  by (auto simp: seed_eval_row_def Let_def split: option.splits)

lemma seed_eval_row_harness:
  "snd (snd (snd k)) \<noteq> ''eval'' \<Longrightarrow> map_of (seed_eval_row now m t) k = map_of t k"
  by (auto simp: seed_eval_row_def Let_def split: option.splits)

lemma seed_eval_row_has:
  "\<exists>r. map_of (seed_eval_row now m t) (rm_run_id m, rm_instance_id m, rm_attempt m, ''eval'') = Some r"
  by (auto simp: seed_eval_row_def Let_def split: option.splits)

text \<open>What a consumed message does to the table: nothing, the upsert, or the upsert and the seeding.\<close>

definition enqueues :: "write_health \<Rightarrow> real \<Rightarrow> result_message \<Rightarrow> ledger \<Rightarrow> bool" where
  "enqueues h now m lg \<longleftrightarrow>
     fst (upsert now m (lg_table lg)) \<and> rm_phase m = ''harness'' \<and> rm_state m = ''PATCH_READY'' \<and> ok_seed h"

lemma process_result_table:
  "lg_table (snd (process_result h now m lg)) =
     (if \<not> ok_upsert h \<or> map_of (lg_runs lg) (rm_run_id m) = None then lg_table lg
      else if enqueues h now m lg then seed_eval_row now m (snd (upsert now m (lg_table lg)))
      else snd (upsert now m (lg_table lg)))"
  by (simp add: process_result_def enqueues_def enqueue_eval_job_def maintain_run_summary_def
      Let_def split_beta)

lemma process_result_jobs:
  "lg_eval_jobs (snd (process_result h now m lg)) =
     (if ok_upsert h \<and> map_of (lg_runs lg) (rm_run_id m) \<noteq> None \<and> enqueues h now m lg \<and> ok_send h
      then lg_eval_jobs lg @ [eval_job_for m] else lg_eval_jobs lg)"
  by (simp add: process_result_def enqueues_def enqueue_eval_job_def maintain_run_summary_def
      Let_def split_beta)

lemma process_result_runs: "lg_runs (snd (process_result h now m lg)) = lg_runs lg"
  by (simp add: process_result_def enqueue_eval_job_def maintain_run_summary_def Let_def split_beta)

section \<open>Progress of a row\<close>

text \<open>
  How a row may change: to a higher state, or not at all but for filling gaps. In both cases no
  column returns to NULL, and a column of a row that has reached the top keeps its value.
\<close>

definition row_le :: "ledger_row \<Rightarrow> ledger_row \<Rightarrow> bool" where
  "row_le r r' \<longleftrightarrow>
     (if state_rank (lr_state r) = state_rank (lr_state r')
      then lr_state r' = lr_state r \<and> lr_dispatched_at r' = lr_dispatched_at r \<and>
           (\<forall>c. lr_evidence r c \<noteq> None \<longrightarrow> lr_evidence r' c = lr_evidence r c)
      else state_rank (lr_state r) < state_rank (lr_state r') \<and>
           (lr_dispatched_at r \<noteq> None \<longrightarrow> lr_dispatched_at r' \<noteq> None) \<and>
           (\<forall>c. lr_evidence r c \<noteq> None \<longrightarrow> lr_evidence r' c \<noteq> None))"

lemma row_le_refl [simp]: "row_le r r"
  by (simp add: row_le_def)

lemma row_leD:
  assumes "row_le r r'"
  shows "state_rank (lr_state r) \<le> state_rank (lr_state r')"
    "lr_dispatched_at r \<noteq> None \<longrightarrow> lr_dispatched_at r' \<noteq> None"
    "\<forall>c. lr_evidence r c \<noteq> None \<longrightarrow> lr_evidence r' c \<noteq> None"
    "state_rank (lr_state r) = state_rank (lr_state r') \<longrightarrow> lr_state r' = lr_state r"
  using assms by (auto simp: row_le_def split: if_splits)

lemma row_le_trans: "row_le r s \<Longrightarrow> row_le s t \<Longrightarrow> row_le r t"
proof -
  assume a: "row_le r s" "row_le s t"
  note l = row_leD [OF a(1)] row_leD [OF a(2)]
  show "row_le r t"
  proof (cases "state_rank (lr_state r) = state_rank (lr_state t)")
    case True
    with l(1,5) have e: "state_rank (lr_state r) = state_rank (lr_state s)" "state_rank (lr_state s) = state_rank (lr_state t)"
      by linarith+
    note 1 = a(1) [unfolded row_le_def if_P [OF e(1)]] and 2 = a(2) [unfolded row_le_def if_P [OF e(2)]]
    show ?thesis unfolding row_le_def if_P [OF True] using 1 2 by metis
  next
    case False
    with l(1,5) have "state_rank (lr_state r) < state_rank (lr_state t)" by linarith
    with False show ?thesis unfolding row_le_def if_not_P [OF False] using l(2,3,6,7) by metis
  qed
qed

lemma row_le_fill: "row_le r (fill_row m r)"
  by (auto simp: row_le_def fill_row_def coalesce_def)

lemma row_le_update: "state_rank (lr_state r) < state_rank (rm_state m) \<Longrightarrow> row_le r (update_row now m r)"
  by (auto simp: row_le_def update_row_def coalesce_def split: option.splits)

definition table_le :: "ledger_table \<Rightarrow> ledger_table \<Rightarrow> bool" where
  "table_le t t' \<longleftrightarrow> (\<forall>k r. map_of t k = Some r \<longrightarrow> (\<exists>r'. map_of t' k = Some r' \<and> row_le r r'))"

lemma table_le_refl [simp]: "table_le t t"
  by (simp add: table_le_def)

lemma table_le_trans: "table_le t t' \<Longrightarrow> table_le t' t'' \<Longrightarrow> table_le t t''"
  unfolding table_le_def by (meson row_le_trans)

lemma table_le_upsert: "table_le t (snd (upsert now m t))"
  unfolding table_le_def
proof (intro allI impI)
  fix k r assume r: "map_of t k = Some r"
  show "\<exists>r'. map_of (snd (upsert now m t)) k = Some r' \<and> row_le r r'"
  proof (cases "k = row_key m")
    case True
    with r show ?thesis using upsert_row [of now m t] by (auto simp: row_le_fill row_le_update)
  next
    case False
    with r show ?thesis by (simp add: upsert_other)
  qed
qed

lemma table_le_seed: "table_le t (seed_eval_row now m t)"
  using seed_eval_row_old by (fastforce simp: table_le_def)

lemma table_le_process: "table_le (lg_table lg) (lg_table (snd (process_result h now m lg)))"
  unfolding process_result_table
  using table_le_upsert table_le_trans [OF table_le_upsert table_le_seed] by simp

lemma table_le_consume: "table_le (lg_table lg) (lg_table (snd (consume h now b lg)))"
  by (simp add: consume_def table_le_process split: sum.split)

section \<open>Runs of the consumer\<close>

type_synonym delivery = "write_health \<times> real \<times> body"

definition consume_all :: "delivery list \<Rightarrow> ledger \<Rightarrow> ledger" where
  "consume_all ds lg = fold (\<lambda>(h, now, b) lg. snd (consume h now b lg)) ds lg"

lemma consume_all_induct:
  assumes "P lg" "\<And>h now b lg. P lg \<Longrightarrow> P (snd (consume h now b lg))"
  shows "P (consume_all ds lg)"
  using assms(1) unfolding consume_all_def
  by (induction ds arbitrary: lg) (auto simp: assms(2))

lemma table_le_consume_all: "table_le (lg_table lg) (lg_table (consume_all ds lg))"
  by (rule consume_all_induct) (auto intro: table_le_trans table_le_consume)

text \<open>
  C1: Whatever is delivered, in whatever order, how often and with whatever failures, a row never
  moves to a lower state, no evidence column returns to NULL, and a row in a final state keeps its
  state and every column it has.
\<close>

theorem ledger_never_regresses:
  assumes "map_of (lg_table lg) k = Some r"
  shows "\<exists>r'. map_of (lg_table (consume_all ds lg)) k = Some r' \<and>
    state_rank (lr_state r) \<le> state_rank (lr_state r') \<and>
    (lr_evidence r c \<noteq> None \<longrightarrow> lr_evidence r' c \<noteq> None) \<and>
    (state_rank (lr_state r) = 4 \<longrightarrow>
       lr_state r' = lr_state r \<and> (lr_evidence r c \<noteq> None \<longrightarrow> lr_evidence r' c = lr_evidence r c))"
proof -
  obtain r' where r': "map_of (lg_table (consume_all ds lg)) k = Some r'" "row_le r r'"
    using table_le_consume_all [of lg ds] assms unfolding table_le_def by blast
  note l = row_leD [OF r'(2)]
  show ?thesis
  proof (cases "state_rank (lr_state r) = state_rank (lr_state r')")
    case True
    with r' show ?thesis by (auto simp: row_le_def)
  next
    case False
    with l(1) state_rank_le [of "lr_state r'"] have "state_rank (lr_state r) \<noteq> 4" by linarith
    with r'(1) l(1,3) show ?thesis by blast
  qed
qed

section \<open>Eval jobs\<close>

definition job_key :: "eval_job \<Rightarrow> row_key" where
  "job_key j = (ej_run_id j, ej_instance_id j, ej_attempt j, ''harness'')"

definition jobs_inv :: "ledger \<Rightarrow> bool" where
  "jobs_inv lg \<longleftrightarrow> distinct (map job_key (lg_eval_jobs lg)) \<and>
     (\<forall>j \<in> set (lg_eval_jobs lg). \<exists>r. map_of (lg_table lg) (job_key j) = Some r \<and> lr_state r = ''PATCH_READY'')"

lemma rank_patch_ready: "state_rank ''PATCH_READY'' = 4"
  by (simp add: state_rank_def)

lemma row_le_final: "row_le r r' \<Longrightarrow> state_rank (lr_state r) = 4 \<Longrightarrow> lr_state r' = lr_state r"
  using row_leD(1,4) [of r r'] state_rank_le [of "lr_state r'"] by (metis antisym)

lemma table_le_final:
  "table_le t t' \<Longrightarrow> map_of t k = Some r \<Longrightarrow> state_rank (lr_state r) = 4 \<Longrightarrow>
   \<exists>r'. map_of t' k = Some r' \<and> lr_state r' = lr_state r"
  unfolding table_le_def using row_le_final by blast

lemma job_key_for: "rm_phase m = ''harness'' \<Longrightarrow> job_key (eval_job_for m) = row_key m"
  by (simp add: job_key_def eval_job_for_def row_key_def)

lemma jobs_inv_process:
  assumes "jobs_inv lg"
  shows "jobs_inv (snd (process_result h now m lg))"
proof -
  define lg' where "lg' = snd (process_result h now m lg)"
  have le: "table_le (lg_table lg) (lg_table lg')" by (simp add: lg'_def table_le_process)
  have old: "\<exists>r. map_of (lg_table lg') (job_key j) = Some r \<and> lr_state r = ''PATCH_READY''"
    if j: "j \<in> set (lg_eval_jobs lg)" for j
  proof -
    obtain r where r: "map_of (lg_table lg) (job_key j) = Some r" "lr_state r = ''PATCH_READY''"
      using assms j by (auto simp: jobs_inv_def)
    with table_le_final [OF le r(1)] show ?thesis by (simp add: rank_patch_ready)
  qed
  show ?thesis
  proof (cases "ok_upsert h \<and> map_of (lg_runs lg) (rm_run_id m) \<noteq> None \<and> enqueues h now m lg \<and> ok_send h")
    case False
    then have "lg_eval_jobs lg' = lg_eval_jobs lg" by (simp add: lg'_def process_result_jobs)
    with assms old show ?thesis by (simp add: jobs_inv_def lg'_def [symmetric])
  next
    case True
    then have jobs: "lg_eval_jobs lg' = lg_eval_jobs lg @ [eval_job_for m]"
      by (simp add: lg'_def process_result_jobs)
    from True have m: "rm_phase m = ''harness''" "rm_state m = ''PATCH_READY''" "fst (upsert now m (lg_table lg))"
      by (auto simp: enqueues_def)
    have tab: "lg_table lg' = seed_eval_row now m (snd (upsert now m (lg_table lg)))"
      using True by (auto simp: lg'_def process_result_table)
    have "\<exists>r. map_of (snd (upsert now m (lg_table lg))) (row_key m) = Some r \<and> lr_state r = ''PATCH_READY''"
      using m upsert_row [of now m "lg_table lg"]
      by (auto simp: fst_upsert insert_row_def update_row_def split: option.splits)
    then have new: "\<exists>r. map_of (lg_table lg') (row_key m) = Some r \<and> lr_state r = ''PATCH_READY''"
      unfolding tab using seed_eval_row_old by blast
    have fresh: "row_key m \<notin> job_key ` set (lg_eval_jobs lg)"
    proof
      assume "row_key m \<in> job_key ` set (lg_eval_jobs lg)"
      then obtain r where r: "map_of (lg_table lg) (row_key m) = Some r" "lr_state r = ''PATCH_READY''"
        using assms by (auto simp: jobs_inv_def)
      with m show False by (simp add: fst_upsert)
    qed
    with assms old new jobs m(1) show ?thesis
      by (auto simp: jobs_inv_def lg'_def [symmetric] job_key_for)
  qed
qed

lemma jobs_inv_consume_all: "jobs_inv lg \<Longrightarrow> jobs_inv (consume_all ds lg)"
  by (rule consume_all_induct) (auto simp: consume_def jobs_inv_process split: sum.split)

text \<open>
  C7: A patch is graded at most once: over any deliveries there is at most one eval job for an
  attempt, and every job belongs to an attempt whose harness row is PATCH_READY.
\<close>

theorem eval_job_once:
  assumes "lg_eval_jobs lg = []"
  shows "distinct (map job_key (lg_eval_jobs (consume_all ds lg))) \<and>
    (\<forall>j \<in> set (lg_eval_jobs (consume_all ds lg)).
       \<exists>r. map_of (lg_table (consume_all ds lg)) (job_key j) = Some r \<and> lr_state r = ''PATCH_READY'')"
proof -
  have "jobs_inv lg" using assms by (simp add: jobs_inv_def)
  from jobs_inv_consume_all [OF this] show ?thesis by (simp add: jobs_inv_def)
qed

text \<open>
  Abort stands: once an attempt is recorded as aborted or never dispatched, no delivery
  changes that, and no late patch of it is ever sent to grading.
\<close>

theorem abort_stands:
  assumes "map_of (lg_table lg) k = Some r" "lr_state r \<in> set abort_excluded" "lg_eval_jobs lg = []"
  shows "(\<exists>r'. map_of (lg_table (consume_all ds lg)) k = Some r' \<and> lr_state r' = lr_state r) \<and>
    (\<forall>j \<in> set (lg_eval_jobs (consume_all ds lg)). job_key j \<noteq> k)"
proof -
  have "state_rank (lr_state r) = 4" using assms(2) by (auto simp: abort_excluded_def state_rank_def)
  from table_le_final [OF table_le_consume_all assms(1) this, of ds]
  obtain r' where r': "map_of (lg_table (consume_all ds lg)) k = Some r'" "lr_state r' = lr_state r" by blast
  moreover have "job_key j \<noteq> k" if "j \<in> set (lg_eval_jobs (consume_all ds lg))" for j
    using eval_job_once [OF assms(3), of ds] that r' assms(2) by (auto simp: abort_excluded_def)
  ultimately show ?thesis by blast
qed

definition settled :: "row_key \<Rightarrow> ledger \<Rightarrow> bool" where
  "settled k lg \<longleftrightarrow>
     (\<exists>r. map_of (lg_table lg) k = Some r \<and> state_rank (lr_state r) = 4) \<and>
     (\<forall>j \<in> set (lg_eval_jobs lg). job_key j \<noteq> k)"

lemma settled_process: "settled k lg \<Longrightarrow> settled k (snd (process_result h now m lg))"
proof -
  assume s: "settled k lg"
  then obtain r where r: "map_of (lg_table lg) k = Some r" "state_rank (lr_state r) = 4"
    by (auto simp: settled_def)
  have "\<exists>r'. map_of (lg_table (snd (process_result h now m lg))) k = Some r' \<and> state_rank (lr_state r') = 4"
    using table_le_final [OF table_le_process r] r(2) by fastforce
  moreover have "job_key j \<noteq> k" if "j \<in> set (lg_eval_jobs (snd (process_result h now m lg)))" for j
  proof (cases "j \<in> set (lg_eval_jobs lg)")
    case False
    with that have e: "j = eval_job_for m" "enqueues h now m lg"
      by (auto simp: process_result_jobs split: if_splits)
    then have "row_key m \<noteq> k"
      using r state_rank_le [of "rm_state m"] by (auto simp: enqueues_def fst_upsert)
    with e show ?thesis by (simp add: enqueues_def job_key_for)
  qed (use s in \<open>simp add: settled_def\<close>)
  ultimately show ?thesis by (simp add: settled_def)
qed

lemma settled_consume_all: "settled k lg \<Longrightarrow> settled k (consume_all ds lg)"
  by (rule consume_all_induct) (auto simp: consume_def settled_process split: sum.split)

lemma process_result_blocked:
  assumes "map_of (lg_runs lg) (rm_run_id m) \<noteq> None" "upsert now m (lg_table lg) = (False, t)"
  shows "process_result healthy now m lg = (True, maintain_run_summary (rm_run_id m) (lg\<lparr>lg_table := t\<rparr>))"
  using assms by (simp add: process_result_def healthy_def Let_def)

text \<open>
  A failed enqueue loses the grading. The upsert is committed before the eval job is sent, so
  when seeding or sending fails the message is kept for a retry, but its redelivery finds the row
  at its own rank, skips the enqueue and is deleted; no later delivery enqueues it either.
\<close>

theorem failed_enqueue_is_not_retried:
  assumes "ok_upsert h" "\<not> (ok_seed h \<and> ok_send h)" "map_of (lg_runs lg) (rm_run_id m) \<noteq> None"
    "rm_phase m = ''harness''" "rm_state m = ''PATCH_READY''" "fst (upsert now m (lg_table lg))"
    "lg_eval_jobs lg = []"
  shows "fst (process_result h now m lg) = False \<and>
    fst (process_result healthy now' m (snd (process_result h now m lg))) = True \<and>
    (\<forall>j \<in> set (lg_eval_jobs (consume_all ds (snd (process_result h now m lg)))). job_key j \<noteq> row_key m)"
proof -
  define lg' where "lg' = snd (process_result h now m lg)"
  have t: "lg_table lg' = (if ok_seed h then seed_eval_row now m (snd (upsert now m (lg_table lg)))
      else snd (upsert now m (lg_table lg)))"
    using assms unfolding lg'_def process_result_table by (auto simp: enqueues_def)
  have "\<exists>r. map_of (snd (upsert now m (lg_table lg))) (row_key m) = Some r \<and> lr_state r = ''PATCH_READY''"
    using assms(5,6) upsert_row [of now m "lg_table lg"]
    by (auto simp: fst_upsert insert_row_def update_row_def split: option.splits)
  then obtain r where r0: "map_of (snd (upsert now m (lg_table lg))) (row_key m) = Some r" "lr_state r = ''PATCH_READY''"
    by blast
  then have r: "map_of (lg_table lg') (row_key m) = Some r" "lr_state r = ''PATCH_READY''"
    using seed_eval_row_old [OF r0(1)] by (simp_all add: t)
  have "lg_eval_jobs lg' = []" using assms by (auto simp: lg'_def process_result_jobs enqueues_def)
  with r have "settled (row_key m) lg'" by (simp add: settled_def rank_patch_ready)
  from settled_consume_all [OF this, of ds]
  have "\<forall>j \<in> set (lg_eval_jobs (consume_all ds lg')). job_key j \<noteq> row_key m" by (simp add: settled_def)
  moreover have "fst (process_result h now m lg) = False"
    using assms by (auto simp: process_result_def enqueue_eval_job_def Let_def split_beta)
  moreover have "\<not> fst (upsert now' m (lg_table lg'))"
    using r assms(5) by (simp add: fst_upsert)
  then have "fst (process_result healthy now' m lg') = True"
    using assms(3) process_result_blocked [of lg' m now'] by (cases "upsert now' m (lg_table lg')") (simp add: lg'_def process_result_runs)
  ultimately show ?thesis by (simp add: lg'_def)
qed

section \<open>Redelivery\<close>

lemma update_same: "map_of t k = Some v \<Longrightarrow> AList.update k v t = t"
  by (induction t) auto

lemma fill_insert: "fill_row m (insert_row now m) = insert_row now m"
  by (simp add: fill_row_def insert_row_def)

lemma fill_update: "fill_row m (update_row now m r) = update_row now m r"
  by (simp add: fill_row_def update_row_def coalesce_def fun_eq_iff split: option.split)

lemma fill_fill: "fill_row m (fill_row m r) = fill_row m r"
  by (simp add: fill_row_def coalesce_def fun_eq_iff split: option.split)

lemma state_after: "lr_state (insert_row now m) = rm_state m" "lr_state (update_row now m r) = rm_state m"
  "lr_state (fill_row m r) = lr_state r"
  by (simp_all add: insert_row_def update_row_def fill_row_def)

lemma upsert_same:
  "map_of t (row_key m) = Some r \<Longrightarrow> fill_row m r = r \<Longrightarrow> \<not> state_rank (lr_state r) < state_rank (rm_state m) \<Longrightarrow>
   upsert now m t = (False, t)"
  by (simp add: upsert_def update_same)

lemma upsert_again: "upsert now' m (snd (upsert now m t)) = (False, snd (upsert now m t))"
proof -
  define r where "r = the (map_of (snd (upsert now m t)) (row_key m))"
  have r: "map_of (snd (upsert now m t)) (row_key m) = Some r"
    using upsert_row [of now m t] by (simp add: r_def)
  have "fill_row m r = r \<and> \<not> state_rank (lr_state r) < state_rank (rm_state m)"
    using r upsert_row [of now m t]
    by (auto simp: fill_insert fill_update fill_fill state_after split: option.splits if_splits)
  with upsert_same [OF r] show ?thesis by simp
qed

lemma upsert_again_seeded:
  assumes "rm_phase m = ''harness''"
  shows "upsert now' m (seed_eval_row now2 m' (snd (upsert now m t))) = (False, seed_eval_row now2 m' (snd (upsert now m t)))"
proof -
  define t1 where "t1 = seed_eval_row now2 m' (snd (upsert now m t))"
  have e: "map_of t1 (row_key m) = map_of (snd (upsert now m t)) (row_key m)"
    unfolding t1_def using assms by (simp add: seed_eval_row_harness row_key_def)
  obtain r where r: "map_of (snd (upsert now m t)) (row_key m) = Some r"
    using upsert_row [of now m t] by simp
  have "fill_row m r = r \<and> \<not> state_rank (lr_state r) < state_rank (rm_state m)"
    using r upsert_row [of now m t]
    by (auto simp: fill_insert fill_update fill_fill state_after split: option.splits if_splits)
  with upsert_same [OF trans [OF e r]] show ?thesis by (simp add: t1_def)
qed

text \<open>
  Redelivery is harmless: after a message has been processed, processing it again at any later
  time changes nothing at all: not the rows, not the summary, not the eval queue.
\<close>

theorem redelivery_is_idempotent:
  assumes "fst (process_result h now m lg)"
  shows "process_result healthy now' m (snd (process_result h now m lg)) = (True, snd (process_result h now m lg))"
proof -
  define t where "t = lg_table (snd (process_result h now m lg))"
  have ok: "ok_upsert h" "map_of (lg_runs lg) (rm_run_id m) \<noteq> None"
    using assms by (auto simp: process_result_def split: if_splits)
  have again: "upsert now' m t = (False, t)"
    using ok by (auto simp: t_def process_result_table upsert_again upsert_again_seeded enqueues_def)
  have sum: "map_of (lg_summaries (snd (process_result h now m lg))) (rm_run_id m) = Some (run_summary_of (rm_run_id m) t)"
    using assms unfolding t_def
    by (auto simp: process_result_def maintain_run_summary_def Let_def split_beta split: if_splits)
  show ?thesis
    using process_result_blocked [of "snd (process_result h now m lg)" m now'] ok(2) again sum
    by (simp add: process_result_runs t_def maintain_run_summary_def update_same)
qed

end
