(* ===== verification/Ledger_Facts.thy ===== *)
theory Ledger_Facts
  imports Ledger_Runs
begin

text \<open>
  What the ledger amounts to: the order of deliveries, the types of the columns, the accounting of
  the run summary, the evidence that is lost behind empty values, and instances of these facts and
  of those of \<open>Ledger_Runs\<close>.
\<close>

section \<open>The order of deliveries\<close>

text \<open>The level of a key: 0 without a row, and above that the rank of its state.\<close>

definition key_level :: "ledger_table \<Rightarrow> row_key \<Rightarrow> nat" where
  "key_level t k = (case map_of t k of None \<Rightarrow> 0 | Some r \<Rightarrow> Suc (state_rank (lr_state r)))"

text \<open>The level a delivery asks for.\<close>

definition asked_level :: "ledger \<Rightarrow> row_key \<Rightarrow> delivery \<Rightarrow> nat" where
  "asked_level lg k d =
     (case d of (h, now, b) \<Rightarrow>
        (case parse_result b of
           Inl e \<Rightarrow> 0
         | Inr m \<Rightarrow> if ok_upsert h \<and> map_of (lg_runs lg) (rm_run_id m) \<noteq> None \<and> row_key m = k
                    then Suc (state_rank (rm_state m)) else 0))"

lemma key_level_upsert:
  "key_level (snd (upsert now m t)) k =
     (if k = row_key m then max (key_level t k) (Suc (state_rank (rm_state m))) else key_level t k)"
  using upsert_row [of now m t]
  by (auto simp: key_level_def upsert_other state_after split: option.split)

lemma key_level_seed: "snd (snd (snd k)) \<noteq> ''eval'' \<Longrightarrow> key_level (seed_eval_row now m t) k = key_level t k"
  by (simp add: key_level_def seed_eval_row_harness)

lemma key_level_consume:
  assumes "snd (snd (snd k)) \<noteq> ''eval''"
  shows "key_level (lg_table (snd (consume h now b lg))) k = max (key_level (lg_table lg) k) (asked_level lg k (h, now, b))"
  using assms
  by (auto simp: consume_def asked_level_def process_result_table key_level_upsert key_level_seed split: sum.split)

lemma consume_runs: "lg_runs (snd (consume h now b lg)) = lg_runs lg"
  by (simp add: consume_def process_result_runs split: sum.split)

lemma asked_level_runs: "lg_runs lg' = lg_runs lg \<Longrightarrow> asked_level lg' k d = asked_level lg k d"
  by (simp add: asked_level_def cong: sum.case_cong)

lemma key_level_consume_all:
  assumes "snd (snd (snd k)) \<noteq> ''eval''"
  shows "key_level (lg_table (consume_all ds lg)) k = fold (\<lambda>d. max (asked_level lg k d)) ds (key_level (lg_table lg) k)"
proof (induction ds arbitrary: lg)
  case (Cons d ds)
  obtain h now b where d: "d = (h, now, b)" by (cases d)
  let ?lg = "snd (consume h now b lg)"
  have "asked_level ?lg k = asked_level lg k" by (rule ext, rule asked_level_runs, rule consume_runs)
  then have "key_level (lg_table (consume_all ds ?lg)) k =
      fold (\<lambda>d. max (asked_level lg k d)) ds (key_level (lg_table ?lg) k)"
    using Cons.IH [of ?lg] by simp
  moreover have "key_level (lg_table ?lg) k = max (asked_level lg k d) (key_level (lg_table lg) k)"
    using key_level_consume [OF assms, of h now b lg] by (simp add: d max.commute)
  moreover have "consume_all (d # ds) lg = consume_all ds ?lg" by (simp add: consume_all_def d)
  ultimately show ?case by simp
qed (simp add: consume_all_def)

lemma fold_max: "fold (\<lambda>d. max (f d)) ds n = Max (insert (n :: nat) (f ` set ds))"
proof -
  have "Max (set (n # map f ds)) = fold max (map f ds) n" by (rule Max.set_eq_fold)
  then show ?thesis by (simp add: fold_map comp_def)
qed

text \<open>
  C6: The order of deliveries does not matter: the queue is unordered and repeats messages, yet
  the state rank a harness row ends at is the highest that was delivered for it, so it is the same
  for every order and any repetition of the same messages.
\<close>

theorem delivery_order_irrelevant:
  assumes "set ds = set ds'" "phase \<noteq> ''eval''"
  shows "key_level (lg_table (consume_all ds lg)) (run, inst, att, phase) =
    key_level (lg_table (consume_all ds' lg)) (run, inst, att, phase)"
  using assms by (simp add: key_level_consume_all fold_max)

section \<open>Types\<close>

text \<open>
  The types that the schema (\<open>infra/docker/init.sql\<close>) declares for the evidence columns: those of the
  \<open>CREATE TABLE\<close>, those that later \<open>ALTER TABLE\<close>s add, and the keys of the artifacts. The lists are
  read from the SQL alone and name neither the dataclass nor the parser's converters.
\<close>

datatype sql_type = SQL_text | SQL_float | SQL_numeric | SQL_int | SQL_boolean | SQL_text_array | SQL_jsonb

definition table_columns :: "(string \<times> sql_type) list" where
  "table_columns =
     [(''error_category'', SQL_text), (''error_detail'', SQL_text), (''verdict'', SQL_text),
      (''wall_clock_harness_s'', SQL_float), (''wall_clock_eval_s'', SQL_float),
      (''touches_test_files'', SQL_boolean), (''patch_path'', SQL_text), (''trajectory_path'', SQL_text),
      (''raw_log_path'', SQL_text), (''report_path'', SQL_text), (''report_json'', SQL_jsonb)]"

definition added_columns :: "(string \<times> sql_type) list" where
  "added_columns =
     [(''queue_wait_s'', SQL_float), (''provision_s'', SQL_float), (''image_pull_s'', SQL_float),
      (''worker_boot_s'', SQL_float), (''repo_prep_s'', SQL_float), (''agent_s'', SQL_float),
      (''patch_extract_s'', SQL_float), (''artifact_upload_s'', SQL_float),
      (''task_observed_s'', SQL_float), (''task_billed_s'', SQL_float),
      (''repo_prep_cache_hit'', SQL_boolean), (''image_pull_cold'', SQL_boolean),
      (''eval_queue_wait_s'', SQL_float), (''eval_patch_fetch_s'', SQL_float),
      (''eval_image_pull_s'', SQL_float), (''eval_test_s'', SQL_float), (''eval_log_upload_s'', SQL_float),
      (''eval_image_pull_cold'', SQL_boolean), (''stripped_test_paths'', SQL_text_array),
      (''grade_invalid'', SQL_boolean), (''leaked_node_ids'', SQL_text_array),
      (''gold_patch_similarity'', SQL_numeric), (''input_tokens'', SQL_int), (''output_tokens'', SQL_int),
      (''cost_usd'', SQL_numeric), (''adapter_input_tokens'', SQL_int),
      (''adapter_output_tokens'', SQL_int), (''adapter_cost_usd'', SQL_numeric),
      (''cached_tokens'', SQL_int), (''cache_write_tokens'', SQL_int), (''reasoning_tokens'', SQL_int),
      (''cost_source'', SQL_text), (''usage_parse_failed_calls'', SQL_int),
      (''paced_wait_ms_total'', SQL_int), (''paced_calls'', SQL_int), (''pacer_timeouts'', SQL_int),
      (''overload_retries_total'', SQL_int), (''turns_used'', SQL_int), (''compactions_fired'', SQL_int),
      (''compaction_tokens_before'', SQL_int), (''compaction_tokens_after'', SQL_int),
      (''context_window_tokens'', SQL_int), (''leak_detectable'', SQL_boolean)]"

definition artifact_columns :: "(string \<times> sql_type) list" where
  "artifact_columns =
     [(''native_trajectory_s3_key'', SQL_text), (''test_output_s3_key'', SQL_text),
      (''run_log_s3_key'', SQL_text)]"

definition schema_columns :: "(string \<times> sql_type) list" where
  "schema_columns = table_columns @ added_columns @ artifact_columns"

text \<open>
  The values a column of each type takes. The only \<open>JSONB\<close> value the writer gives is the empty object
  of a seeded row. A number out of the range of \<open>INT\<close> makes the statement fail, as every other
  database error does (\<open>ok_upsert\<close>), so the ranges are no part of this.
\<close>

fun sql_ok :: "sql_type \<Rightarrow> colval \<Rightarrow> bool" where
  "sql_ok SQL_text v = (case v of C_text s \<Rightarrow> True | _ \<Rightarrow> False)"
| "sql_ok SQL_float v = (case v of C_float x \<Rightarrow> True | _ \<Rightarrow> False)"
| "sql_ok SQL_numeric v = (case v of C_float x \<Rightarrow> True | _ \<Rightarrow> False)"
| "sql_ok SQL_int v = (case v of C_int n \<Rightarrow> True | _ \<Rightarrow> False)"
| "sql_ok SQL_boolean v = (case v of C_bool b \<Rightarrow> True | _ \<Rightarrow> False)"
| "sql_ok SQL_text_array v = (case v of C_texts xs \<Rightarrow> True | _ \<Rightarrow> False)"
| "sql_ok SQL_jsonb v = (v = C_text ''{}'')"

text \<open>The column exists, and the value is one of its type.\<close>

definition column_typed :: "string \<Rightarrow> colval \<Rightarrow> bool" where
  "column_typed c v \<longleftrightarrow> (case map_of schema_columns c of None \<Rightarrow> False | Some t \<Rightarrow> sql_ok t v)"

text \<open>The SQL types that take every value of a declared field.\<close>

fun sql_types_of :: "field_type \<Rightarrow> sql_type list" where
  "sql_types_of T_opt_int = [SQL_int]"
| "sql_types_of T_opt_float = [SQL_float, SQL_numeric]"
| "sql_types_of T_opt_bool = [SQL_boolean]"
| "sql_types_of T_str = [SQL_text]"
| "sql_types_of T_opt_str = [SQL_text]"
| "sql_types_of T_str_tuple = [SQL_text_array]"
| "sql_types_of T_opt_str_list = [SQL_text_array]"

lemma sql_types_take: "ty \<in> set (sql_types_of t) \<Longrightarrow> type_ok t (Some v) \<Longrightarrow> sql_ok ty v"
  by (cases t; cases v) auto

lemma schema_columns_distinct: "distinct (map fst schema_columns)"
  by (simp add: schema_columns_def table_columns_def added_columns_def artifact_columns_def)

lemma fields_have_columns: "list_all (\<lambda>(c, t). list_ex (\<lambda>ty. (c, ty) \<in> set schema_columns) (sql_types_of t)) declared_fields"
  by (simp add: declared_fields_def schema_columns_def table_columns_def added_columns_def artifact_columns_def)

lemma field_column_typed:
  assumes "(c, t) \<in> set declared_fields" "type_ok t (Some v)"
  shows "column_typed c v"
proof -
  obtain ty where ty: "ty \<in> set (sql_types_of t)" "(c, ty) \<in> set schema_columns"
    using fields_have_columns assms(1) by (fastforce simp: list_all_iff list_ex_iff)
  then have "map_of schema_columns c = Some ty" using schema_columns_distinct by simp
  then show ?thesis using sql_types_take [OF ty(1) assms(2)] by (simp add: column_typed_def)
qed

lemma core_columns_typed:
  "column_typed ''error_category'' (C_text x)" "column_typed ''error_detail'' (C_text x)"
  "column_typed ''verdict'' (C_text x)" "column_typed ''wall_clock_harness_s'' (C_float y)"
  "column_typed ''wall_clock_eval_s'' (C_float y)" "column_typed ''touches_test_files'' (C_bool z)"
  "column_typed ''patch_path'' (C_text x)" "column_typed ''trajectory_path'' (C_text x)"
  "column_typed ''raw_log_path'' (C_text x)" "column_typed ''report_path'' (C_text x)"
  "column_typed ''report_json'' (C_text ''{}'')"
  by (simp_all add: column_typed_def schema_columns_def table_columns_def)

definition row_typed :: "ledger_row \<Rightarrow> bool" where
  "row_typed r \<longleftrightarrow> (\<forall>c v. lr_evidence r c = Some v \<longrightarrow> column_typed c v)"

lemma map_of_graph: "map_of (map (\<lambda>c. (c, f c)) cs) c = (if c \<in> set cs then Some (f c) else None)"
  by (induction cs) auto

lemma message_value_extra:
  "message_value m c = (case map_of (core_evidence_values m) c of
     Some v \<Rightarrow> v | None \<Rightarrow> if c \<in> set RESULT_EXTRA_COLUMNS then rm_extra m c else None)"
  by (simp add: message_value_def result_extra_values_def map_add_def map_of_graph split: option.split)

lemma message_value_typed:
  assumes "well_typed m" "message_value m c = Some v"
  shows "column_typed c v"
proof (cases "c \<in> set CORE_EVIDENCE_COLUMNS")
  case True
  then show ?thesis using assms(2)
    unfolding CORE_EVIDENCE_COLUMNS_def
    by (auto simp: message_value_def core_evidence_values_def core_columns_typed or_null_def split: if_splits)
next
  case False
  then have "map_of (core_evidence_values m) c = None"
    by (simp add: CORE_EVIDENCE_COLUMNS_def core_evidence_values_def)
  with assms(2) have v: "c \<in> set RESULT_EXTRA_COLUMNS" "rm_extra m c = Some v"
    by (auto simp: message_value_extra split: if_splits)
  then obtain t where t: "(c, t) \<in> set declared_fields"
    using declared_are_parsed by (fastforce simp: columns_are_parsed)
  moreover have "type_ok t (Some v)" using assms(1) t v by (auto simp: well_typed_def list_all_iff)
  ultimately show ?thesis by (rule field_column_typed)
qed

lemma row_typed_steps:
  assumes "well_typed m"
  shows "row_typed (insert_row now m)" "row_typed r \<Longrightarrow> row_typed (update_row now m r)"
    "row_typed r \<Longrightarrow> row_typed (fill_row m r)"
  using message_value_typed [OF assms]
  by (auto simp: row_typed_def insert_row_def update_row_def fill_row_def coalesce_def split: option.splits)

lemma row_typed_seeded: "row_typed (seeded_row now reason)"
  by (simp add: row_typed_def seeded_row_def core_columns_typed)

definition table_typed :: "ledger_table \<Rightarrow> bool" where
  "table_typed t \<longleftrightarrow> (\<forall>k r. map_of t k = Some r \<longrightarrow> row_typed r)"

lemma table_typed_update: "table_typed t \<Longrightarrow> row_typed r \<Longrightarrow> table_typed (AList.update k r t)"
  by (auto simp: table_typed_def)

lemma table_typedD: "table_typed t \<Longrightarrow> map_of t k = Some r \<Longrightarrow> row_typed r"
  unfolding table_typed_def by blast

lemma table_typed_upsert: "well_typed m \<Longrightarrow> table_typed t \<Longrightarrow> table_typed (snd (upsert now m t))"
  by (cases "map_of t (row_key m)")
    (simp_all add: upsert_def table_typed_update row_typed_steps table_typedD)

lemma table_typed_seed: "table_typed t \<Longrightarrow> table_typed (seed_eval_row now m t)"
  by (cases "map_of t (rm_run_id m, rm_instance_id m, rm_attempt m, ''eval'')")
    (simp_all add: seed_eval_row_def Let_def table_typed_update row_typed_seeded)

lemma table_typed_process:
  "well_typed m \<Longrightarrow> table_typed (lg_table lg) \<Longrightarrow> table_typed (lg_table (snd (process_result h now m lg)))"
  by (simp add: process_result_table table_typed_upsert table_typed_seed)

text \<open>
  C30: The ledger stays well typed: from a well-typed table, whatever bodies arrive, every column of
  every row holds NULL or a value of the type that the SQL schema declares for it, and the writer
  fills no column that the schema lacks.
\<close>

theorem ledger_well_typed:
  assumes "table_typed (lg_table lg)"
  shows "table_typed (lg_table (consume_all ds lg))"
  by (rule consume_all_induct [of "\<lambda>lg. table_typed (lg_table lg)", OF assms])
    (auto simp: consume_def table_typed_process parse_result_typed split: sum.split)

section \<open>The summary\<close>

lemma count_split: "count_rows p rows = count_rows (\<lambda>x. p x \<and> q x) rows + count_rows (\<lambda>x. p x \<and> \<not> q x) rows"
  by (induction rows) (auto simp: count_rows_def)

lemma count_cong: "(\<And>x. x \<in> set rows \<Longrightarrow> p x = q x) \<Longrightarrow> count_rows p rows = count_rows q rows"
  unfolding count_rows_def by (metis filter_cong)

lemma count_mono: "(\<And>x. x \<in> set rows \<Longrightarrow> p x \<Longrightarrow> q x) \<Longrightarrow> count_rows p rows \<le> count_rows q rows"
  unfolding count_rows_def by (induction rows) auto

lemma count_zero: "count_rows p rows = 0 \<longleftrightarrow> (\<forall>x \<in> set rows. \<not> p x)"
  by (auto simp: count_rows_def filter_empty_conv)

definition in_flight_rows :: "string \<Rightarrow> ledger_table \<Rightarrow> nat" where
  "in_flight_rows run t =
     count_rows (\<lambda>x. phase_of x = ''harness'' \<and> state_of x \<in> set non_terminal_harness_states) (run_rows run t)"

text \<open>
  The summary accounts for every seeded instance: expected is attempted plus never dispatched
  plus still in flight, provided abort states only occur on harness rows; so a run that is ready to
  close has no attempt missing. Resolved never exceeds gradeable unless an invalid grade is marked
  resolved.
\<close>

theorem summary_accounts:
  assumes "\<forall>x \<in> set t. state_of x \<in> set abort_excluded \<longrightarrow> phase_of x = ''harness''"
    "\<forall>x \<in> set t. verdict_of x = Some (C_text ''resolved'') \<longrightarrow> lr_evidence (snd x) ''grade_invalid'' \<noteq> Some (C_bool True)"
  shows "rs_expected (run_summary_of run t) =
      rs_attempted (run_summary_of run t) + rs_never (run_summary_of run t) + in_flight_rows run t \<and>
    rs_resolved (run_summary_of run t) \<le> rs_gradeable (run_summary_of run t) \<and>
    (is_ready_to_close run lg \<and> lg_table lg = t \<longrightarrow> in_flight_rows run t = 0)"
proof (intro conjI impI)
  let ?rows = "run_rows run t"
  have sub: "x \<in> set t" if "x \<in> set ?rows" for x using that by (simp add: run_rows_def)
  let ?h = "\<lambda>x. phase_of x = ''harness''"
  have 1: "count_rows ?h ?rows =
      count_rows (\<lambda>x. ?h x \<and> state_of x \<in> set (abort_excluded @ non_terminal_harness_states)) ?rows +
      count_rows (\<lambda>x. ?h x \<and> state_of x \<notin> set (abort_excluded @ non_terminal_harness_states)) ?rows"
    by (rule count_split)
  have 2: "count_rows (\<lambda>x. ?h x \<and> state_of x \<in> set (abort_excluded @ non_terminal_harness_states)) ?rows =
      count_rows (\<lambda>x. state_of x = ''ABORTED_IN_FLIGHT'') ?rows +
      count_rows (\<lambda>x. state_of x = ''NEVER_DISPATCHED'') ?rows + in_flight_rows run t"
  proof -
    have "count_rows (\<lambda>x. ?h x \<and> state_of x \<in> set (abort_excluded @ non_terminal_harness_states)) ?rows =
        count_rows (\<lambda>x. (?h x \<and> state_of x \<in> set (abort_excluded @ non_terminal_harness_states)) \<and> state_of x = ''ABORTED_IN_FLIGHT'') ?rows +
        (count_rows (\<lambda>x. ((?h x \<and> state_of x \<in> set (abort_excluded @ non_terminal_harness_states)) \<and> state_of x \<noteq> ''ABORTED_IN_FLIGHT'') \<and> state_of x = ''NEVER_DISPATCHED'') ?rows +
         count_rows (\<lambda>x. ((?h x \<and> state_of x \<in> set (abort_excluded @ non_terminal_harness_states)) \<and> state_of x \<noteq> ''ABORTED_IN_FLIGHT'') \<and> state_of x \<noteq> ''NEVER_DISPATCHED'') ?rows)"
      by (metis (no_types) count_split)
    moreover have "count_rows (\<lambda>x. (?h x \<and> state_of x \<in> set (abort_excluded @ non_terminal_harness_states)) \<and> state_of x = ''ABORTED_IN_FLIGHT'') ?rows =
        count_rows (\<lambda>x. state_of x = ''ABORTED_IN_FLIGHT'') ?rows"
      by (rule count_cong) (use assms(1) sub in \<open>auto simp: abort_excluded_def\<close>)
    moreover have "count_rows (\<lambda>x. ((?h x \<and> state_of x \<in> set (abort_excluded @ non_terminal_harness_states)) \<and> state_of x \<noteq> ''ABORTED_IN_FLIGHT'') \<and> state_of x = ''NEVER_DISPATCHED'') ?rows =
        count_rows (\<lambda>x. state_of x = ''NEVER_DISPATCHED'') ?rows"
      by (rule count_cong) (use assms(1) sub in \<open>auto simp: abort_excluded_def\<close>)
    moreover have "count_rows (\<lambda>x. ((?h x \<and> state_of x \<in> set (abort_excluded @ non_terminal_harness_states)) \<and> state_of x \<noteq> ''ABORTED_IN_FLIGHT'') \<and> state_of x \<noteq> ''NEVER_DISPATCHED'') ?rows =
        in_flight_rows run t"
      unfolding in_flight_rows_def
      by (rule count_cong) (auto simp: abort_excluded_def non_terminal_harness_states_def)
    ultimately show ?thesis by simp
  qed
  show "rs_expected (run_summary_of run t) =
      rs_attempted (run_summary_of run t) + rs_never (run_summary_of run t) + in_flight_rows run t"
    unfolding run_summary_of_def Let_def run_summary.select_convs 1 2 by linarith
  have "count_rows (\<lambda>x. phase_of x = ''eval'' \<and> verdict_of x = Some (C_text ''resolved'')) ?rows \<le>
      count_rows (\<lambda>x. phase_of x = ''eval'' \<and>
             verdict_of x \<in> {Some (C_text ''resolved''), Some (C_text ''unresolved'')} \<and>
             lr_evidence (snd x) ''grade_invalid'' \<noteq> Some (C_bool True)) ?rows"
    by (rule count_mono) (use assms(2) sub in auto)
  then show "rs_resolved (run_summary_of run t) \<le> rs_gradeable (run_summary_of run t)"
    by (simp add: run_summary_of_def Let_def)
next
  assume r: "is_ready_to_close run lg \<and> lg_table lg = t"
  then have "count_rows (\<lambda>x. state_of x \<in> set all_non_terminal_states) (run_rows run t) = 0"
    by (auto simp: is_ready_to_close_def non_terminal_row_counts_def split: option.splits if_splits)
  then show "in_flight_rows run t = 0"
    unfolding in_flight_rows_def count_zero
    by (auto simp: non_terminal_harness_states_def all_non_terminal_states_def)
qed

section \<open>Evidence that a blocked message cannot fill\<close>

text \<open>
  A blocked message cannot fill what an empty message wrote: an abort notice carries no native
  trajectory, no wall clock and no test-file flag, but writes an empty text, zero and false, which
  are not NULL; the late result of the attempt, whose artifacts exist, then leaves all three as
  they are, while its patch is filled in.
\<close>

theorem empty_evidence_is_never_filled:
  assumes "map_of t k = None" "k = (run, inst, att, ''harness'')" "row_key m = k" "rm_patch_s3_key m \<noteq> []"
  shows "\<exists>r. map_of (snd (upsert now' m (snd (upsert now
        (reap_result run inst att ''harness'' ''ABORTED_IN_FLIGHT'' detail) t)))) k = Some r \<and>
      lr_state r = ''ABORTED_IN_FLIGHT'' \<and>
      lr_evidence r ''native_trajectory_s3_key'' = Some (C_text []) \<and>
      lr_evidence r ''wall_clock_harness_s'' = Some (C_float (Fin 0)) \<and>
      lr_evidence r ''touches_test_files'' = Some (C_bool False) \<and>
      lr_evidence r ''patch_path'' = Some (C_text (rm_patch_s3_key m))"
proof -
  define a where "a = reap_result run inst att ''harness'' ''ABORTED_IN_FLIGHT'' detail"
  have ka: "row_key a = k" using assms(2) by (simp add: a_def reap_result_def bare_result_def row_key_def)
  have 1: "map_of (snd (upsert now a t)) (row_key m) = Some (insert_row now a)"
    using upsert_row [of now a t] assms(1,3) ka by simp
  have st: "lr_state (insert_row now a) = ''ABORTED_IN_FLIGHT''"
    by (simp add: insert_row_def a_def reap_result_def bare_result_def)
  have blocked: "\<not> state_rank (lr_state (insert_row now a)) < state_rank (rm_state m)"
    using state_rank_le [of "rm_state m"] by (simp add: st state_rank_def)
  have 2: "map_of (snd (upsert now' m (snd (upsert now a t)))) k = Some (fill_row m (insert_row now a))"
    using upsert_row [of now' m "snd (upsert now a t)"] 1 blocked assms(3) by simp
  have ev: "message_value a ''native_trajectory_s3_key'' = Some (C_text [])"
    "message_value a ''wall_clock_harness_s'' = Some (C_float (Fin 0))"
    "message_value a ''touches_test_files'' = Some (C_bool False)" "message_value a ''patch_path'' = None"
    by (simp_all add: message_value_extra core_evidence_values_def a_def reap_result_def bare_result_def
        or_null_def RESULT_EXTRA_COLUMNS_def declared_fields_def extra_default_def)
  have p: "message_value m ''patch_path'' = Some (C_text (rm_patch_s3_key m))"
    using assms(4) by (simp add: message_value_extra core_evidence_values_def or_null_def)
  show ?thesis
    unfolding a_def [symmetric] using 2 ev p st
    by (intro exI [of _ "fill_row m (insert_row now a)"]) (simp add: fill_row_def insert_row_def)
qed

text \<open>
  The dispatch columns miss a relaunch and a late notice: a dispatch notice for a row that is
  already dispatched, or already running, changes neither \<open>dispatched_at\<close> nor \<open>dispatch_count\<close>,
  although the statement is written to count dispatches.
\<close>

theorem late_dispatch_not_recorded:
  assumes "map_of t (row_key m) = Some r" "rm_state m = ''DISPATCHED''" "lr_state r \<noteq> ''PENDING''"
  shows "\<exists>r'. map_of (snd (upsert now m t)) (row_key m) = Some r' \<and>
    lr_dispatched_at r' = lr_dispatched_at r \<and> lr_dispatch_count r' = lr_dispatch_count r"
proof -
  have "\<not> state_rank (lr_state r) < state_rank (rm_state m)"
    using assms(2,3) by (simp add: state_rank_def)
  then show ?thesis using upsert_row [of now m t] assms(1) by (simp add: fill_row_def)
qed

section \<open>Instances\<close>

lemma bare_result_typed: "well_typed (bare_result run inst att phase state detail)"
proof -
  have "type_ok t (extra_default c)" if "(c, t) \<in> set declared_fields" for c t
    using that declared_distinct by (cases t) (simp_all add: extra_default_def)
  moreover have "extra_default c = None" if "c \<notin> fst ` set declared_fields" for c
  proof -
    have "map_of declared_fields c = None" using that by (simp add: map_of_eq_None_iff)
    then show ?thesis by (simp add: extra_default_def)
  qed
  ultimately show ?thesis by (auto simp: well_typed_def bare_result_def list_all_iff)
qed

definition patch_msg :: result_message where
  "patch_msg = (bare_result ''r'' ''i'' 1 ''harness'' ''PATCH_READY'' [])\<lparr>rm_patch_s3_key := ''p''\<rparr>"

definition demo_ledger :: ledger where
  "demo_ledger = \<lparr>lg_runs = [(''r'', ''running'')], lg_table = [], lg_summaries = [], lg_eval_jobs = []\<rparr>"

definition aborted_ledger :: ledger where
  "aborted_ledger = demo_ledger\<lparr>lg_table :=
     [((''r'', ''i'', 1, ''harness''), insert_row 0 (bare_result ''r'' ''i'' 1 ''harness'' ''ABORTED_IN_FLIGHT'' []))]\<rparr>"

lemma patch_msg_simps [simp]:
  "rm_run_id patch_msg = ''r''" "rm_instance_id patch_msg = ''i''" "rm_attempt patch_msg = 1"
  "rm_phase patch_msg = ''harness''" "rm_state patch_msg = ''PATCH_READY''" "rm_patch_s3_key patch_msg = ''p''"
  "row_key patch_msg = (''r'', ''i'', 1, ''harness'')"
  by (simp_all add: patch_msg_def bare_result_def row_key_def)

lemma patch_msg_typed: "well_typed patch_msg"
  using bare_result_typed by (simp add: patch_msg_def well_typed_def)

lemma demo_simps [simp]:
  "map_of (lg_runs demo_ledger) ''r'' = Some ''running''" "lg_table demo_ledger = []" "lg_eval_jobs demo_ledger = []"
  "lg_eval_jobs aborted_ledger = []"
  "lg_table aborted_ledger = [((''r'', ''i'', 1, ''harness''), insert_row 0 (bare_result ''r'' ''i'' 1 ''harness'' ''ABORTED_IN_FLIGHT'' []))]"
  by (simp_all add: demo_ledger_def aborted_ledger_def)

theorem result_roundtrip_witness: "parse_result (to_body patch_msg) = Inr patch_msg"
  by (rule result_roundtrip [OF patch_msg_typed])

theorem ledger_never_regresses_witness:
  "\<exists>r'. map_of (lg_table (consume_all [(healthy, 1, to_body patch_msg)] aborted_ledger)) (''r'', ''i'', 1, ''harness'') = Some r' \<and>
     lr_state r' = ''ABORTED_IN_FLIGHT''"
  using ledger_never_regresses [of aborted_ledger "(''r'', ''i'', 1, ''harness'')" _ "[(healthy, 1, to_body patch_msg)]"]
  by (fastforce simp: insert_row_def bare_result_def state_rank_def)

theorem eval_job_once_witness:
  "distinct (map job_key (lg_eval_jobs (consume_all [(healthy, 1, to_body patch_msg), (healthy, 2, to_body patch_msg)] demo_ledger)))"
  using eval_job_once [of demo_ledger] by simp

theorem abort_stands_witness:
  "\<forall>j \<in> set (lg_eval_jobs (consume_all [(healthy, 1, to_body patch_msg)] aborted_ledger)). job_key j \<noteq> (''r'', ''i'', 1, ''harness'')"
  using abort_stands [of aborted_ledger "(''r'', ''i'', 1, ''harness'')" _ "[(healthy, 1, to_body patch_msg)]"]
  by (simp add: insert_row_def bare_result_def abort_excluded_def)

theorem failed_enqueue_is_not_retried_witness:
  "fst (process_result (healthy\<lparr>ok_send := False\<rparr>) 1 patch_msg demo_ledger) = False \<and>
   fst (process_result healthy 2 patch_msg (snd (process_result (healthy\<lparr>ok_send := False\<rparr>) 1 patch_msg demo_ledger)))"
  using failed_enqueue_is_not_retried [of "healthy\<lparr>ok_send := False\<rparr>" demo_ledger patch_msg 1 2 "[]"]
  by (simp add: healthy_def fst_upsert)

theorem redelivery_is_idempotent_witness:
  "process_result healthy 2 patch_msg (snd (process_result healthy 1 patch_msg demo_ledger)) =
     (True, snd (process_result healthy 1 patch_msg demo_ledger))"
  by (rule redelivery_is_idempotent)
    (simp add: process_result_def enqueue_eval_job_def healthy_def Let_def split_beta)

theorem delivery_order_irrelevant_witness:
  "key_level (lg_table (consume_all
       [(healthy, 1, to_body patch_msg), (healthy, 2, to_body (reap_result ''r'' ''i'' 1 ''harness'' ''ABANDONED'' []))] demo_ledger))
     (''r'', ''i'', 1, ''harness'') =
   key_level (lg_table (consume_all
       [(healthy, 2, to_body (reap_result ''r'' ''i'' 1 ''harness'' ''ABANDONED'' [])), (healthy, 1, to_body patch_msg)] demo_ledger))
     (''r'', ''i'', 1, ''harness'')"
  by (rule delivery_order_irrelevant) auto

theorem ledger_well_typed_witness: "table_typed (lg_table (consume_all [(healthy, 1, to_body patch_msg)] demo_ledger))"
  by (rule ledger_well_typed) (simp add: table_typed_def)

theorem summary_accounts_witness:
  "rs_expected (run_summary_of ''r'' (lg_table aborted_ledger)) = 1 \<and> in_flight_rows ''r'' (lg_table aborted_ledger) = 0"
proof -
  have v: "lr_evidence (insert_row 0 (bare_result ''r'' ''i'' 1 ''harness'' ''ABORTED_IN_FLIGHT'' [])) ''verdict'' = None"
    by (simp add: insert_row_def message_value_extra core_evidence_values_def bare_result_def or_null_def)
  have "rs_expected (run_summary_of ''r'' (lg_table aborted_ledger)) =
      rs_attempted (run_summary_of ''r'' (lg_table aborted_ledger)) + rs_never (run_summary_of ''r'' (lg_table aborted_ledger)) +
      in_flight_rows ''r'' (lg_table aborted_ledger)"
    using summary_accounts [of "lg_table aborted_ledger" "''r''" aborted_ledger] v
    by (simp add: phase_of_def verdict_of_def)
  then show ?thesis
    by (simp add: run_summary_of_def in_flight_rows_def run_rows_def count_rows_def phase_of_def state_of_def Let_def
        insert_row_def bare_result_def non_terminal_harness_states_def)
qed

theorem empty_evidence_is_never_filled_witness:
  "\<exists>r. map_of (snd (upsert 2 patch_msg (snd (upsert 1
        (reap_result ''r'' ''i'' 1 ''harness'' ''ABORTED_IN_FLIGHT'' []) [])))) (''r'', ''i'', 1, ''harness'') = Some r \<and>
     lr_evidence r ''native_trajectory_s3_key'' = Some (C_text []) \<and> lr_evidence r ''patch_path'' = Some (C_text ''p'')"
  using empty_evidence_is_never_filled [of "[]" "(''r'', ''i'', 1, ''harness'')" "''r''" "''i''" 1 patch_msg 2 1 "[]"]
  by auto

theorem late_dispatch_not_recorded_witness:
  "\<exists>r'. map_of (snd (upsert 1 (bare_result ''r'' ''i'' 1 ''harness'' ''DISPATCHED'' [])
        [((''r'', ''i'', 1, ''harness''), insert_row 0 (bare_result ''r'' ''i'' 1 ''harness'' ''HARNESS_RUNNING'' []))]))
      (''r'', ''i'', 1, ''harness'') = Some r' \<and> lr_dispatched_at r' = None"
  using late_dispatch_not_recorded [of "[((''r'', ''i'', 1, ''harness''), insert_row 0 (bare_result ''r'' ''i'' 1 ''harness'' ''HARNESS_RUNNING'' []))]"
      "bare_result ''r'' ''i'' 1 ''harness'' ''DISPATCHED'' []" _ 1]
  by (auto simp: row_key_def insert_row_def bare_result_def dispatched_param_def)

end
