(* ===== verification/Run_Reaper.thy ===== *)
theory Run_Reaper
  imports Ledger_Facts
begin

text \<open>
  Reaper rules 2 and 3 of \<open>swebench_eval/orchestrator/control_plane/run_supervisor.py\<close>: which rows
  of a running run are declared abandoned or never dispatched, from the table, the clocks, the
  pause flags, the live tasks and progress keys, and the depth of the harness queue. Every reap is
  a message for the results consumer. Of the detail text of a reap only its first words are kept;
  the connection and the log are left out.
\<close>

section \<open>Rule 2: the deadline\<close>

definition REAP_MARGIN_S :: int where "REAP_MARGIN_S = 1200"
definition RULE2_HARNESS_STATES :: "string list" where
  "RULE2_HARNESS_STATES = [''DISPATCHED'', ''HARNESS_RUNNING'']"
definition RULE2_EVAL_STATES :: "string list" where
  "RULE2_EVAL_STATES = [''EVAL_RUNNING'']"

text \<open>What one pass over a run reads.\<close>

record reap_reads =
  rr_now :: real
  rr_mono :: real
  rr_paused :: "string \<Rightarrow> bool"
  rr_timeout_text :: "string option"
  rr_running :: "string list"
  rr_progress :: "string \<Rightarrow> int \<Rightarrow> bool"
  rr_visible :: nat
  rr_not_visible :: nat

text \<open>
  \<open>config_snapshot->>'timeout_seconds'\<close> as a number of seconds. The outer \<open>None\<close> is the
  \<open>OverflowError\<close> of \<open>int\<close> on an infinity, which the handler does not name.
\<close>

definition phase_timeout_seconds :: "string option \<Rightarrow> int option option" where
  "phase_timeout_seconds raw =
     (case raw of
        None \<Rightarrow> Some None
      | Some s \<Rightarrow>
          (case py_float s of
             None \<Rightarrow> Some None
           | Some (Fin x) \<Rightarrow> Some (Some (py_int x))
           | Some NaN \<Rightarrow> Some None
           | Some _ \<Rightarrow> None))"

definition time_column :: "string \<Rightarrow> ledger_row \<Rightarrow> real option" where
  "time_column phase r = (if phase = ''harness'' then lr_dispatched_at r else lr_seeded_at r)"

definition deadline_candidates ::
    "string \<Rightarrow> string \<Rightarrow> string list \<Rightarrow> real \<Rightarrow> ledger_table \<Rightarrow> (string \<times> int) list" where
  "deadline_candidates run phase states cutoff t =
     map (\<lambda>((_, inst, att, _), _). (inst, att))
       (filter (\<lambda>x. phase_of x = phase \<and> state_of x \<in> set states \<and>
                 (case time_column phase (snd x) of None \<Rightarrow> False | Some s \<Rightarrow> s < cutoff)) (run_rows run t))"

definition no_sign_of_life :: "reap_reads \<Rightarrow> string \<times> int \<Rightarrow> bool" where
  "no_sign_of_life e c = (fst c \<notin> set (rr_running e) \<and> \<not> rr_progress e (fst c) (snd c))"

definition deadline_phase ::
    "reap_reads \<Rightarrow> string \<Rightarrow> real \<Rightarrow> ledger_table \<Rightarrow> string \<times> string list \<Rightarrow> result_message list" where
  "deadline_phase e run cutoff t ps =
     (if rr_paused e (fst ps) then []
      else map (\<lambda>(inst, att). reap_result run inst att (fst ps) ''ABANDONED'' ''deadline_passed'')
             (filter (no_sign_of_life e) (deadline_candidates run (fst ps) (snd ps) cutoff t)))"

definition reap_deadline_rule :: "reap_reads \<Rightarrow> string \<Rightarrow> ledger_table \<Rightarrow> result_message list option" where
  "reap_deadline_rule e run t =
     (case phase_timeout_seconds (rr_timeout_text e) of
        None \<Rightarrow> None
      | Some None \<Rightarrow> Some []
      | Some (Some timeout) \<Rightarrow>
          (let cutoff = rr_now e - of_int (timeout + REAP_MARGIN_S)
           in Some (concat (map (deadline_phase e run cutoff t)
                [(''harness'', RULE2_HARNESS_STATES), (''eval'', RULE2_EVAL_STATES)]))))"

section \<open>Rule 3: never dispatched\<close>

definition NEVER_DISPATCHED_MIN_ROW_AGE_S :: real where "NEVER_DISPATCHED_MIN_ROW_AGE_S = 180"
definition NEVER_DISPATCHED_MIN_CONSECUTIVE_EMPTY_S :: real where
  "NEVER_DISPATCHED_MIN_CONSECUTIVE_EMPTY_S = 90"

text \<open>\<open>_never_dispatched_empty_since\<close>: when an empty queue was first seen for an attempt.\<close>

type_synonym attempt_key = "string \<times> string \<times> int"
type_synonym empty_since = "(attempt_key \<times> real) list"

definition never_candidates :: "string \<Rightarrow> real \<Rightarrow> ledger_table \<Rightarrow> (string \<times> int) list" where
  "never_candidates run cutoff t =
     map (\<lambda>((_, inst, att, _), _). (inst, att))
       (filter (\<lambda>x. phase_of x = ''harness'' \<and> state_of x = ''PENDING'' \<and>
                 lr_dispatched_at (snd x) = None \<and> lr_created_at (snd x) < cutoff) (run_rows run t))"

definition forget :: "(attempt_key \<Rightarrow> bool) \<Rightarrow> empty_since \<Rightarrow> empty_since" where
  "forget p m = filter (\<lambda>(k, _). \<not> p k) m"

text \<open>One candidate of the loop: the reaps so far and the tracking.\<close>

definition never_step ::
    "reap_reads \<Rightarrow> string \<Rightarrow> string \<times> int \<Rightarrow> result_message list \<times> empty_since \<Rightarrow>
     result_message list \<times> empty_since" where
  "never_step e run c acc =
     (let (out, m) = acc; key = (run, fst c, snd c)
      in case map_of m key of
          None \<Rightarrow> (out, AList.update key (rr_mono e) m)
        | Some first_seen \<Rightarrow>
            if rr_mono e - first_seen < NEVER_DISPATCHED_MIN_CONSECUTIVE_EMPTY_S then acc
            else if \<not> no_sign_of_life e c then acc
            else (out @ [reap_result run (fst c) (snd c) ''harness'' ''NEVER_DISPATCHED'' ''harness-jobs queue drained''],
                  AList.delete key m))"

definition reap_never_dispatched ::
    "reap_reads \<Rightarrow> string \<Rightarrow> ledger_table \<Rightarrow> empty_since \<Rightarrow> result_message list \<times> empty_since" where
  "reap_never_dispatched e run t m =
     (if rr_paused e ''harness'' then ([], m)
      else (let cs = never_candidates run (rr_now e - NEVER_DISPATCHED_MIN_ROW_AGE_S) t;
                keys = map (\<lambda>c. (run, fst c, snd c)) cs
            in if cs = [] then ([], m)
               else if 0 < rr_visible e \<or> 0 < rr_not_visible e then ([], forget (\<lambda>k. k \<in> set keys) m)
               else fold (never_step e run) cs ([], forget (\<lambda>k. fst k = run \<and> k \<notin> set keys) m)))"

text \<open>
  One pass for a run; the flag is false where the deadline rule raised, after which rule 3 is not
  reached. \<open>reaper_pass\<close> is the loop over the running runs that are not aborted.
\<close>

definition reap_run ::
    "reap_reads \<Rightarrow> string \<Rightarrow> ledger_table \<Rightarrow> empty_since \<Rightarrow> bool \<times> result_message list \<times> empty_since" where
  "reap_run e run t m =
     (case reap_deadline_rule e run t of
        None \<Rightarrow> (False, [], m)
      | Some out \<Rightarrow> (let (out', m') = reap_never_dispatched e run t m in (True, out @ out', m')))"

definition reaper_pass ::
    "(string \<Rightarrow> reap_reads) \<Rightarrow> (string \<Rightarrow> bool) \<Rightarrow> ledger \<Rightarrow> empty_since \<Rightarrow> result_message list \<times> empty_since" where
  "reaper_pass reads aborted lg m =
     fold (\<lambda>(run, status) (out, m).
         if status = ''running'' \<and> \<not> aborted run then
           (let (ok, out', m') = reap_run (reads run) run (lg_table lg) m in (out @ out', m'))
         else (out, m)) (lg_runs lg) ([], m)"

section \<open>What a reap rests on\<close>

lemma reap_result_fields [simp]:
  "rm_run_id (reap_result run inst att phase state d) = run"
  "rm_instance_id (reap_result run inst att phase state d) = inst"
  "rm_attempt (reap_result run inst att phase state d) = att"
  "rm_phase (reap_result run inst att phase state d) = phase"
  "rm_state (reap_result run inst att phase state d) = state"
  by (simp_all add: reap_result_def bare_result_def)

lemma deadline_candidatesD:
  assumes "(inst, att) \<in> set (deadline_candidates run phase states cutoff t)"
  shows "\<exists>r s. ((run, inst, att, phase), r) \<in> set t \<and> lr_state r \<in> set states \<and>
    time_column phase r = Some s \<and> s < cutoff"
  using assms
  by (auto simp: deadline_candidates_def run_rows_def phase_of_def state_of_def split: option.splits)

lemma never_candidatesD:
  assumes "(inst, att) \<in> set (never_candidates run cutoff t)"
  shows "\<exists>r. ((run, inst, att, ''harness''), r) \<in> set t \<and> lr_state r = ''PENDING'' \<and>
    lr_dispatched_at r = None \<and> lr_created_at r < cutoff"
  using assms by (auto simp: never_candidates_def run_rows_def phase_of_def state_of_def)

lemma map_of_forget [simp]: "map_of (forget p m) k = (if p k then None else map_of m k)"
  by (induction m) (auto simp: forget_def)

lemma map_of_delete [simp]: "map_of (AList.delete k m) k' = (if k' = k then None else map_of m k')"
  by (simp add: delete_conv')

text \<open>The loop of rule 3: what is reaped was tracked long enough, and what is tracked was tracked or is new.\<close>

definition never_inv ::
    "reap_reads \<Rightarrow> string \<Rightarrow> (string \<times> int) list \<Rightarrow> empty_since \<Rightarrow> result_message list \<times> empty_since \<Rightarrow> bool" where
  "never_inv e run cs m0 acc \<longleftrightarrow>
     (\<forall>x \<in> set (fst acc). \<exists>c \<in> set cs. \<exists>first. x = reap_result run (fst c) (snd c) ''harness'' ''NEVER_DISPATCHED'' ''harness-jobs queue drained'' \<and>
        no_sign_of_life e c \<and> map_of m0 (run, fst c, snd c) = Some first \<and>
        NEVER_DISPATCHED_MIN_CONSECUTIVE_EMPTY_S \<le> rr_mono e - first) \<and>
     (\<forall>k s. map_of (snd acc) k = Some s \<longrightarrow>
        map_of m0 k = Some s \<or> (s = rr_mono e \<and> (\<exists>c \<in> set cs. k = (run, fst c, snd c))))"

lemma never_inv_step:
  assumes "never_inv e run cs m0 acc" "c \<in> set cs"
  shows "never_inv e run cs m0 (never_step e run c acc)"
proof -
  obtain out m where acc: "acc = (out, m)" by force
  let ?k = "(run, fst c, snd c)"
  show ?thesis
  proof (cases "map_of m ?k")
    case None
    with assms show ?thesis by (auto simp: never_inv_def never_step_def acc)
  next
    case (Some first)
    show ?thesis
    proof (cases "NEVER_DISPATCHED_MIN_CONSECUTIVE_EMPTY_S \<le> rr_mono e - first \<and> no_sign_of_life e c")
      case False
      with Some assms show ?thesis by (auto simp: never_step_def acc not_less)
    next
      case True
      have "0 < NEVER_DISPATCHED_MIN_CONSECUTIVE_EMPTY_S"
        by (simp add: NEVER_DISPATCHED_MIN_CONSECUTIVE_EMPTY_S_def)
      with True have "first \<noteq> rr_mono e" by linarith
      with assms(1) Some have m0: "map_of m0 ?k = Some first"
        unfolding never_inv_def acc snd_conv by blast
      have step: "never_step e run c acc =
          (out @ [reap_result run (fst c) (snd c) ''harness'' ''NEVER_DISPATCHED'' ''harness-jobs queue drained''], AList.delete ?k m)"
        using Some True by (simp add: never_step_def acc)
      show ?thesis
        unfolding never_inv_def step fst_conv snd_conv
      proof (intro conjI ballI allI impI)
        fix x assume "x \<in> set (out @ [reap_result run (fst c) (snd c) ''harness'' ''NEVER_DISPATCHED'' ''harness-jobs queue drained''])"
        then show "\<exists>c \<in> set cs. \<exists>first. x = reap_result run (fst c) (snd c) ''harness'' ''NEVER_DISPATCHED'' ''harness-jobs queue drained'' \<and>
          no_sign_of_life e c \<and> map_of m0 (run, fst c, snd c) = Some first \<and>
          NEVER_DISPATCHED_MIN_CONSECUTIVE_EMPTY_S \<le> rr_mono e - first"
          using assms m0 True by (auto simp: never_inv_def acc)
      next
        fix k s assume "map_of (AList.delete ?k m) k = Some s"
        then show "map_of m0 k = Some s \<or> (s = rr_mono e \<and> (\<exists>c \<in> set cs. k = (run, fst c, snd c)))"
        proof -
          have "map_of m k = Some s" using \<open>map_of (AList.delete ?k m) k = Some s\<close> by (simp split: if_splits)
          with assms(1) show ?thesis unfolding never_inv_def acc snd_conv by blast
        qed
      qed
    qed
  qed
qed

lemma never_inv_fold:
  assumes "never_inv e run cs m0 acc" "set ds \<subseteq> set cs"
  shows "never_inv e run cs m0 (fold (never_step e run) ds acc)"
  using assms by (induction ds arbitrary: acc) (auto simp: never_inv_step)

text \<open>An observation that contradicts a drained queue, and one that starts a window.\<close>

definition is_candidate :: "reap_reads \<Rightarrow> ledger_table \<Rightarrow> attempt_key \<Rightarrow> bool" where
  "is_candidate e t k \<longleftrightarrow> (snd k) \<in> set (never_candidates (fst k) (rr_now e - NEVER_DISPATCHED_MIN_ROW_AGE_S) t)"

definition seen_busy :: "reap_reads \<Rightarrow> ledger_table \<Rightarrow> attempt_key \<Rightarrow> bool" where
  "seen_busy e t k \<longleftrightarrow> \<not> rr_paused e ''harness'' \<and> is_candidate e t k \<and> (0 < rr_visible e \<or> 0 < rr_not_visible e)"

definition seen_empty :: "reap_reads \<Rightarrow> ledger_table \<Rightarrow> attempt_key \<Rightarrow> bool" where
  "seen_empty e t k \<longleftrightarrow> \<not> rr_paused e ''harness'' \<and> is_candidate e t k \<and> rr_visible e = 0 \<and> rr_not_visible e = 0"

lemma reap_never_dispatched_out:
  assumes "x \<in> set (fst (reap_never_dispatched e run t m))"
  shows "\<exists>inst att first. x = reap_result run inst att ''harness'' ''NEVER_DISPATCHED'' ''harness-jobs queue drained'' \<and>
    seen_empty e t (run, inst, att) \<and> no_sign_of_life e (inst, att) \<and>
    map_of m (run, inst, att) = Some first \<and> NEVER_DISPATCHED_MIN_CONSECUTIVE_EMPTY_S \<le> rr_mono e - first"
proof -
  define cs where "cs = never_candidates run (rr_now e - NEVER_DISPATCHED_MIN_ROW_AGE_S) t"
  define m0 where "m0 = forget (\<lambda>k. fst k = run \<and> k \<notin> set (map (\<lambda>c. (run, fst c, snd c)) cs)) m"
  have g: "\<not> rr_paused e ''harness''" "rr_visible e = 0" "rr_not_visible e = 0"
    "x \<in> set (fst (fold (never_step e run) cs ([], m0)))"
    using assms by (auto simp: reap_never_dispatched_def cs_def [symmetric] m0_def Let_def split: if_splits)
  have "never_inv e run cs m0 (fold (never_step e run) cs ([], m0))"
    by (rule never_inv_fold) (simp_all add: never_inv_def)
  with g(4) obtain c first where c: "c \<in> set cs" "x = reap_result run (fst c) (snd c) ''harness'' ''NEVER_DISPATCHED'' ''harness-jobs queue drained''"
    "no_sign_of_life e c" "map_of m0 (run, fst c, snd c) = Some first"
    "NEVER_DISPATCHED_MIN_CONSECUTIVE_EMPTY_S \<le> rr_mono e - first"
    unfolding never_inv_def by blast
  then have "map_of m (run, fst c, snd c) = Some first" by (simp add: m0_def split: if_splits)
  with c g show ?thesis
    by (intro exI [of _ "fst c"] exI [of _ "snd c"] exI [of _ first]) (simp add: seen_empty_def is_candidate_def cs_def)
qed

lemma reap_never_dispatched_track:
  assumes "map_of (snd (reap_never_dispatched e run t m)) k = Some s" "fst k = run"
  shows "(map_of m k = Some s \<and> \<not> seen_busy e t k) \<or> (s = rr_mono e \<and> seen_empty e t k)"
proof -
  define cs where "cs = never_candidates run (rr_now e - NEVER_DISPATCHED_MIN_ROW_AGE_S) t"
  define m0 where "m0 = forget (\<lambda>k. fst k = run \<and> k \<notin> set (map (\<lambda>c. (run, fst c, snd c)) cs)) m"
  have cand: "is_candidate e t k \<longleftrightarrow> snd k \<in> set cs" using assms(2) by (simp add: is_candidate_def cs_def)
  have key: "k = (run, fst (snd k), snd (snd k))" using assms(2) by (cases k) auto
  have inv: "never_inv e run cs m0 (fold (never_step e run) cs ([], m0))"
    by (rule never_inv_fold) (simp_all add: never_inv_def)
  consider "rr_paused e ''harness'' \<or> cs = []"
    | "\<not> rr_paused e ''harness''" "0 < rr_visible e \<or> 0 < rr_not_visible e" "cs \<noteq> []"
    | "\<not> rr_paused e ''harness''" "rr_visible e = 0" "rr_not_visible e = 0" "cs \<noteq> []"
    by auto
  then show ?thesis
  proof cases
    case 1
    then have "map_of m k = Some s" using assms(1)
      by (auto simp: reap_never_dispatched_def cs_def [symmetric] Let_def split: if_splits)
    with 1 cand show ?thesis by (auto simp: seen_busy_def)
  next
    case 2
    then have r: "snd (reap_never_dispatched e run t m) = forget (\<lambda>k. k \<in> set (map (\<lambda>c. (run, fst c, snd c)) cs)) m"
      by (simp add: reap_never_dispatched_def cs_def [symmetric] Let_def)
    have "snd k \<notin> set cs"
    proof
      assume c: "snd k \<in> set cs"
      have "k \<in> set (map (\<lambda>c. (run, fst c, snd c)) cs)"
        unfolding set_map by (rule image_eqI [OF _ c]) (rule key)
      with assms(1) show False unfolding r by simp
    qed
    moreover from assms(1) have "map_of m k = Some s" unfolding r map_of_forget by (simp split: if_splits)
    ultimately show ?thesis using cand by (simp add: seen_busy_def)
  next
    case 3
    then have r: "snd (reap_never_dispatched e run t m) = snd (fold (never_step e run) cs ([], m0))"
      by (simp add: reap_never_dispatched_def cs_def [symmetric] m0_def Let_def)
    from inv assms(1) consider "map_of m0 k = Some s" | c where "s = rr_mono e" "c \<in> set cs" "k = (run, fst c, snd c)"
      unfolding never_inv_def r by blast
    then show ?thesis
    proof cases
      case 1
      with 3 show ?thesis by (auto simp: m0_def seen_busy_def split: if_splits)
    next
      case 2
      then have "snd k \<in> set cs" by simp
      with 2(1) 3 cand show ?thesis by (simp add: seen_empty_def)
    qed
  qed
qed

lemma deadline_phase_out:
  assumes "x \<in> set (deadline_phase e run cutoff t ps)"
  shows "\<exists>inst att. x = reap_result run inst att (fst ps) ''ABANDONED'' ''deadline_passed'' \<and> \<not> rr_paused e (fst ps) \<and>
    no_sign_of_life e (inst, att) \<and> (inst, att) \<in> set (deadline_candidates run (fst ps) (snd ps) cutoff t)"
  using assms by (auto simp: deadline_phase_def split: if_splits)

lemma reap_deadline_out:
  assumes "reap_deadline_rule e run t = Some out" "x \<in> set out"
  shows "\<exists>timeout phase states inst att. phase_timeout_seconds (rr_timeout_text e) = Some (Some timeout) \<and>
    (phase, states) \<in> {(''harness'', RULE2_HARNESS_STATES), (''eval'', RULE2_EVAL_STATES)} \<and>
    x = reap_result run inst att phase ''ABANDONED'' ''deadline_passed'' \<and> \<not> rr_paused e phase \<and>
    no_sign_of_life e (inst, att) \<and>
    (inst, att) \<in> set (deadline_candidates run phase states (rr_now e - of_int (timeout + REAP_MARGIN_S)) t)"
proof -
  let ?ps = "[(''harness'', RULE2_HARNESS_STATES), (''eval'', RULE2_EVAL_STATES)]"
  obtain timeout where to: "phase_timeout_seconds (rr_timeout_text e) = Some (Some timeout)"
    "out = concat (map (deadline_phase e run (rr_now e - of_int (timeout + REAP_MARGIN_S)) t) ?ps)"
    using assms by (auto simp: reap_deadline_rule_def Let_def split: option.splits)
  then obtain ps where ps: "ps \<in> set ?ps" "x \<in> set (deadline_phase e run (rr_now e - of_int (timeout + REAP_MARGIN_S)) t ps)"
    using assms(2) by auto
  from deadline_phase_out [OF ps(2)] ps(1) to(1) show ?thesis by (cases ps) auto
qed

section \<open>The guarantees\<close>

text \<open>
  C24: A row is only reaped without any sign of life: it is still unfinished, its pool is not
  paused, no task runs for its instance and no progress key exists; an abandoned one is past its
  deadline, and a never dispatched one has no dispatch, is at least three minutes old, and the
  queue reads empty now and did so at an earlier tick at least ninety seconds ago.
\<close>

theorem reap_needs_evidence:
  assumes "reap_run e run t m = (ok, out, m')" "x \<in> set out"
  shows "rm_run_id x = run \<and>
    (\<exists>r. ((run, rm_instance_id x, rm_attempt x, rm_phase x), r) \<in> set t \<and> lr_state r \<in> set all_non_terminal_states \<and>
       \<not> rr_paused e (rm_phase x) \<and> no_sign_of_life e (rm_instance_id x, rm_attempt x) \<and>
       (rm_state x = ''ABANDONED'' \<and>
          (\<exists>timeout s. phase_timeout_seconds (rr_timeout_text e) = Some (Some timeout) \<and>
             time_column (rm_phase x) r = Some s \<and> s + of_int timeout + 1200 < rr_now e)
        \<or> rm_state x = ''NEVER_DISPATCHED'' \<and> rm_phase x = ''harness'' \<and> lr_dispatched_at r = None \<and>
          lr_created_at r + 180 < rr_now e \<and> rr_visible e = 0 \<and> rr_not_visible e = 0 \<and>
          (\<exists>first. map_of m (run, rm_instance_id x, rm_attempt x) = Some first \<and> first + 90 \<le> rr_mono e)))"
proof -
  obtain o1 where o1: "reap_deadline_rule e run t = Some o1" "out = o1 @ fst (reap_never_dispatched e run t m)"
    using assms by (auto simp: reap_run_def split: option.splits prod.splits)
  from assms(2) o1(2) consider "x \<in> set o1" | "x \<in> set (fst (reap_never_dispatched e run t m))" by auto
  then show ?thesis
  proof cases
    case 1
    from reap_deadline_out [OF o1(1) 1] obtain timeout phase states inst att where
      to: "phase_timeout_seconds (rr_timeout_text e) = Some (Some timeout)" and
      p: "x = reap_result run inst att phase ''ABANDONED'' ''deadline_passed''" "\<not> rr_paused e phase" "no_sign_of_life e (inst, att)"
      "(phase, states) \<in> {(''harness'', RULE2_HARNESS_STATES), (''eval'', RULE2_EVAL_STATES)}"
      "(inst, att) \<in> set (deadline_candidates run phase states (rr_now e - of_int (timeout + REAP_MARGIN_S)) t)"
      by blast
    have nt: "set states \<subseteq> set all_non_terminal_states"
      using p(4) by (auto simp: RULE2_HARNESS_STATES_def RULE2_EVAL_STATES_def all_non_terminal_states_def)
    from deadline_candidatesD [OF p(5)] obtain r s where r: "((run, inst, att, phase), r) \<in> set t" "lr_state r \<in> set states"
      "time_column phase r = Some s" "s < rr_now e - of_int (timeout + REAP_MARGIN_S)" by blast
    then have "s + of_int timeout + 1200 < rr_now e" by (simp add: REAP_MARGIN_S_def)
    with r p to nt show ?thesis by auto
  next
    case 2
    from reap_never_dispatched_out [OF 2] obtain inst att first where
      x: "x = reap_result run inst att ''harness'' ''NEVER_DISPATCHED'' ''harness-jobs queue drained''"
      "seen_empty e t (run, inst, att)" "no_sign_of_life e (inst, att)" "map_of m (run, inst, att) = Some first"
      "first + 90 \<le> rr_mono e"
      by (auto simp: NEVER_DISPATCHED_MIN_CONSECUTIVE_EMPTY_S_def)
    then have "(inst, att) \<in> set (never_candidates run (rr_now e - NEVER_DISPATCHED_MIN_ROW_AGE_S) t)"
      by (simp add: seen_empty_def is_candidate_def)
    from never_candidatesD [OF this] x show ?thesis
      by (auto simp: seen_empty_def NEVER_DISPATCHED_MIN_ROW_AGE_S_def all_non_terminal_states_def)
  qed
qed

text \<open>The tracking over the ticks of a run.\<close>

definition track :: "string \<Rightarrow> (reap_reads \<times> ledger_table) list \<Rightarrow> empty_since" where
  "track run ticks = fold (\<lambda>(e, t) m. snd (reap_never_dispatched e run t m)) ticks []"

lemma track_snoc: "track run (ticks @ [(e, t)]) = snd (reap_never_dispatched e run t (track run ticks))"
  by (simp add: track_def)

lemma track_window:
  assumes "map_of (track (fst k) ticks) k = Some s"
  shows "\<exists>i < length ticks. s = rr_mono (fst (ticks ! i)) \<and> seen_empty (fst (ticks ! i)) (snd (ticks ! i)) k \<and>
    (\<forall>j. i < j \<and> j < length ticks \<longrightarrow> \<not> seen_busy (fst (ticks ! j)) (snd (ticks ! j)) k)"
  using assms
proof (induction ticks rule: rev_induct)
  case Nil
  then show ?case by (simp add: track_def)
next
  case (snoc tick ticks)
  obtain e t where et: "tick = (e, t)" by force
  from reap_never_dispatched_track [OF snoc.prems [unfolded et track_snoc] refl]
  consider "map_of (track (fst k) ticks) k = Some s" "\<not> seen_busy e t k" | "s = rr_mono e" "seen_empty e t k" by blast
  then show ?case
  proof cases
    case 1
    from snoc.IH [OF 1(1)] obtain i where i: "i < length ticks" "s = rr_mono (fst (ticks ! i))"
      "seen_empty (fst (ticks ! i)) (snd (ticks ! i)) k"
      "\<forall>j. i < j \<and> j < length ticks \<longrightarrow> \<not> seen_busy (fst (ticks ! j)) (snd (ticks ! j)) k" by blast
    with 1(2) show ?thesis
      by (intro exI [of _ i]) (auto simp: nth_append et less_Suc_eq)
  next
    case 2
    then show ?thesis by (intro exI [of _ "length ticks"]) (auto simp: et nth_append)
  qed
qed

text \<open>
  No single queue reading reaps: over any ticks, an attempt is declared never dispatched only
  when the queue was read empty at a tick at least ninety seconds earlier, and at no tick in
  between, at which the rule looked, did the queue hold a message.
\<close>

theorem never_dispatched_needs_window:
  assumes "x \<in> set (fst (reap_never_dispatched e run t (track run ticks)))"
  shows "\<exists>i < length ticks. rr_mono (fst (ticks ! i)) + 90 \<le> rr_mono e \<and>
    seen_empty (fst (ticks ! i)) (snd (ticks ! i)) (run, rm_instance_id x, rm_attempt x) \<and>
    (\<forall>j. i < j \<and> j < length ticks \<longrightarrow>
       \<not> seen_busy (fst (ticks ! j)) (snd (ticks ! j)) (run, rm_instance_id x, rm_attempt x))"
proof -
  from reap_never_dispatched_out [OF assms] obtain inst att first where
    x: "x = reap_result run inst att ''harness'' ''NEVER_DISPATCHED'' ''harness-jobs queue drained''"
    "map_of (track run ticks) (run, inst, att) = Some first" "first + 90 \<le> rr_mono e"
    by (auto simp: NEVER_DISPATCHED_MIN_CONSECUTIVE_EMPTY_S_def)
  from track_window [of "(run, inst, att)" ticks first] x show ?thesis by auto
qed

text \<open>
  A pause defeats the window: ticks at which the pool is paused leave the tracking as it is,
  whatever the queue holds, so an empty reading before the pause and a single one after it reap.
\<close>

theorem pause_bridges_the_window:
  assumes "list_all (\<lambda>(e, t). rr_paused e ''harness'') ticks"
  shows "track run ((e0, t0) # ticks) = track run [(e0, t0)]"
  using assms
proof (induction ticks rule: rev_induct)
  case (snoc tick ticks)
  obtain e t where et: "tick = (e, t)" by force
  have "track run (((e0, t0) # ticks) @ [(e, t)]) = snd (reap_never_dispatched e run t (track run ((e0, t0) # ticks)))"
    by (rule track_snoc)
  with snoc et show ?case by (simp add: reap_never_dispatched_def)
qed simp

text \<open>
  Rows that no rule reaps: a running harness row whose dispatch notice arrived late has no
  \<open>dispatched_at\<close>, and an eval row whose worker died is still PENDING, since nothing sends
  EVAL_RUNNING; neither rule ever reaps them, and the run is never ready to close.
\<close>

theorem unreapable_rows:
  assumes "distinct (map fst (lg_table lg))" "map_of (lg_table lg) (run, inst, att, phase) = Some r"
    "phase = ''harness'' \<and> lr_state r = ''HARNESS_RUNNING'' \<and> lr_dispatched_at r = None \<or>
     phase = ''eval'' \<and> lr_state r = ''PENDING''"
  shows "\<not> is_ready_to_close run lg \<and>
    (\<forall>x \<in> set (fst (snd (reap_run e run (lg_table lg) m))). (rm_instance_id x, rm_attempt x, rm_phase x) \<noteq> (inst, att, phase))"
proof (intro conjI ballI)
  have r: "((run, inst, att, phase), r) \<in> set (lg_table lg)" using assms(2) by (rule map_of_SomeD)
  have nt: "lr_state r \<in> set all_non_terminal_states" using assms(3) by (auto simp: all_non_terminal_states_def)
  have "count_rows (\<lambda>x. state_of x \<in> set all_non_terminal_states) (run_rows run (lg_table lg)) \<noteq> 0"
    unfolding count_zero using r nt by (force simp: run_rows_def state_of_def)
  then show "\<not> is_ready_to_close run lg"
    by (auto simp: is_ready_to_close_def non_terminal_row_counts_def split: option.splits)
  fix x assume x: "x \<in> set (fst (snd (reap_run e run (lg_table lg) m)))"
  obtain ok out m' where e: "reap_run e run (lg_table lg) m = (ok, out, m')" by (metis prod_cases3)
  show "(rm_instance_id x, rm_attempt x, rm_phase x) \<noteq> (inst, att, phase)"
  proof
    assume k: "(rm_instance_id x, rm_attempt x, rm_phase x) = (inst, att, phase)"
    obtain o1 where o1: "reap_deadline_rule e run (lg_table lg) = Some o1"
      "out = o1 @ fst (reap_never_dispatched e run (lg_table lg) m)"
      using e x by (auto simp: reap_run_def split: option.splits prod.splits)
    have "x \<in> set o1 \<or> x \<in> set (fst (reap_never_dispatched e run (lg_table lg) m))" using x e o1(2) by auto
    then show False
    proof
      assume "x \<in> set o1"
      from reap_deadline_out [OF o1(1) this] k obtain states cutoff where
        s: "(inst, att) \<in> set (deadline_candidates run phase states cutoff (lg_table lg))"
        "phase = ''harness'' \<or> (phase = ''eval'' \<and> states = RULE2_EVAL_STATES)" by auto
      from deadline_candidatesD [OF s(1)] obtain r' s' where
        "((run, inst, att, phase), r') \<in> set (lg_table lg)" "lr_state r' \<in> set states" "time_column phase r' = Some s'" by blast
      moreover from map_of_is_SomeI [OF assms(1) this(1)] assms(2) have "r' = r" by simp
      ultimately show False using assms(3) s(2) by (auto simp: time_column_def RULE2_EVAL_STATES_def)
    next
      assume "x \<in> set (fst (reap_never_dispatched e run (lg_table lg) m))"
      from reap_never_dispatched_out [OF this] obtain i a where
        "x = reap_result run i a ''harness'' ''NEVER_DISPATCHED'' ''harness-jobs queue drained''"
        "seen_empty e (lg_table lg) (run, i, a)" by blast
      with k have c: "phase = ''harness''"
        "(inst, att) \<in> set (never_candidates run (rr_now e - NEVER_DISPATCHED_MIN_ROW_AGE_S) (lg_table lg))"
        by (simp_all add: seen_empty_def is_candidate_def)
      from never_candidatesD [OF c(2)] obtain r' where
        "((run, inst, att, ''harness''), r') \<in> set (lg_table lg)" "lr_state r' = ''PENDING''" by blast
      moreover from map_of_is_SomeI [OF assms(1) this(1)] assms(2) c(1) have "r' = r" by simp
      ultimately show False using assms(3) c(1) by auto
    qed
  qed
qed

text \<open>
  A premature reap corrects itself: when a row that is still unfinished is abandoned and its
  patch then arrives, the row ends PATCH_READY and the patch is sent to grading.
\<close>

theorem premature_reap_corrected:
  assumes "map_of (lg_runs lg) run \<noteq> None" "map_of (lg_table lg) (run, inst, att, ''harness'') = Some r"
    "lr_state r \<in> set all_non_terminal_states"
    "rm_phase m = ''harness''" "rm_state m = ''PATCH_READY''" "row_key m = (run, inst, att, ''harness'')"
  shows "eval_job_for m \<in> set (lg_eval_jobs (snd (process_result healthy now' m (snd (process_result healthy now
      (reap_result run inst att ''harness'' ''ABANDONED'' d) lg)))))"
proof -
  define a where "a = reap_result run inst att ''harness'' ''ABANDONED'' d"
  define lg1 where "lg1 = snd (process_result healthy now a lg)"
  have ka: "row_key a = row_key m" using assms(6) by (simp add: a_def row_key_def)
  have run: "rm_run_id m = run" using assms(6) by (simp add: row_key_def)
  have "state_rank (lr_state r) < state_rank (rm_state a)"
    using assms(3) by (auto simp: a_def all_non_terminal_states_def state_rank_def)
  then have "map_of (snd (upsert now a (lg_table lg))) (row_key m) = Some (update_row now a r)"
    using upsert_row [of now a "lg_table lg"] assms(2,6) ka by simp
  moreover have "lg_table lg1 = snd (upsert now a (lg_table lg))"
    using assms(1) by (auto simp: lg1_def process_result_table healthy_def enqueues_def a_def)
  ultimately have row: "map_of (lg_table lg1) (row_key m) = Some (update_row now a r)" by simp
  have "fst (upsert now' m (lg_table lg1))"
    using row assms(5) by (simp add: fst_upsert state_after a_def state_rank_def)
  moreover have "map_of (lg_runs lg1) run \<noteq> None" using assms(1) by (simp add: lg1_def process_result_runs)
  ultimately have "eval_job_for m \<in> set (lg_eval_jobs (snd (process_result healthy now' m lg1)))"
    using assms(4,5) run by (simp add: process_result_jobs enqueues_def healthy_def)
  then show ?thesis by (simp add: lg1_def a_def)
qed

section \<open>Instances\<close>

definition quiet_reads :: "real \<Rightarrow> reap_reads" where
  "quiet_reads time = \<lparr>rr_now = 1000 + time, rr_mono = time, rr_paused = (\<lambda>_. False), rr_timeout_text = None,
     rr_running = [], rr_progress = (\<lambda>_ _. False), rr_visible = 0, rr_not_visible = 0\<rparr>"

definition paused_reads :: "real \<Rightarrow> reap_reads" where
  "paused_reads time = (quiet_reads time)\<lparr>rr_paused := (\<lambda>_. True), rr_visible := 7\<rparr>"

definition pending_table :: ledger_table where
  "pending_table = [((''r'', ''i'', 1, ''harness''), seeded_row 0 None)]"

lemma pending_candidate: "-820 < time \<Longrightarrow> never_candidates ''r'' (rr_now (quiet_reads time) - NEVER_DISPATCHED_MIN_ROW_AGE_S) pending_table = [(''i'', 1)]"
  by (simp add: never_candidates_def quiet_reads_def pending_table_def run_rows_def phase_of_def state_of_def
      seeded_row_def NEVER_DISPATCHED_MIN_ROW_AGE_S_def)

lemma quiet_first: "track ''r'' [(quiet_reads 0, pending_table)] = [((''r'', ''i'', 1), 0)]"
  using pending_candidate [of 0]
  by (simp add: track_def reap_never_dispatched_def never_step_def Let_def) (simp add: quiet_reads_def forget_def)

lemma quiet_reaps:
  "fst (reap_never_dispatched (quiet_reads 100) ''r'' pending_table [((''r'', ''i'', 1), 0)]) =
     [reap_result ''r'' ''i'' 1 ''harness'' ''NEVER_DISPATCHED'' ''harness-jobs queue drained'']"
  using pending_candidate [of 100]
  by (simp add: reap_never_dispatched_def never_step_def Let_def)
    (simp add: quiet_reads_def forget_def no_sign_of_life_def NEVER_DISPATCHED_MIN_CONSECUTIVE_EMPTY_S_def)

theorem reap_needs_evidence_witness:
  "\<exists>r. ((''r'', ''i'', 1, ''harness''), r) \<in> set pending_table \<and> lr_dispatched_at r = None"
proof -
  let ?x = "reap_result ''r'' ''i'' 1 ''harness'' ''NEVER_DISPATCHED'' ''harness-jobs queue drained''"
  obtain ok out m' where e: "reap_run (quiet_reads 100) ''r'' pending_table [((''r'', ''i'', 1), 0)] = (ok, out, m')"
    by (metis prod_cases3)
  then have "?x \<in> set out"
    using quiet_reaps
    by (auto simp: reap_run_def reap_deadline_rule_def phase_timeout_seconds_def split: prod.splits)
      (simp_all add: quiet_reads_def)
  from reap_needs_evidence [OF e this] show ?thesis by auto
qed

theorem never_dispatched_needs_window_witness:
  "seen_empty (quiet_reads 0) pending_table (''r'', ''i'', 1)"
  using never_dispatched_needs_window [of "reap_result ''r'' ''i'' 1 ''harness'' ''NEVER_DISPATCHED'' ''harness-jobs queue drained''"
      "quiet_reads 100" "''r''" pending_table "[(quiet_reads 0, pending_table)]"] quiet_reaps
  by (simp add: quiet_first)

theorem pause_bridges_the_window_witness:
  "fst (reap_never_dispatched (quiet_reads 100) ''r'' pending_table
      (track ''r'' ((quiet_reads 0, pending_table) # [(paused_reads 30, pending_table), (paused_reads 60, pending_table)]))) =
     [reap_result ''r'' ''i'' 1 ''harness'' ''NEVER_DISPATCHED'' ''harness-jobs queue drained'']"
  using pause_bridges_the_window [of "[(paused_reads 30, pending_table), (paused_reads 60, pending_table)]" "''r''" "quiet_reads 0" pending_table]
  by (simp add: paused_reads_def quiet_first quiet_reaps)

theorem unreapable_rows_witness:
  "\<not> is_ready_to_close ''r'' (demo_ledger\<lparr>lg_table := [((''r'', ''i'', 1, ''eval''), seeded_row 0 None)]\<rparr>)"
  using unreapable_rows [of "demo_ledger\<lparr>lg_table := [((''r'', ''i'', 1, ''eval''), seeded_row 0 None)]\<rparr>" "''r''" "''i''" 1 "''eval''" "seeded_row 0 None"]
  by (simp add: seeded_row_def)

theorem premature_reap_corrected_witness:
  "eval_job_for patch_msg \<in> set (lg_eval_jobs (snd (process_result healthy 2 patch_msg (snd (process_result healthy 1
      (reap_result ''r'' ''i'' 1 ''harness'' ''ABANDONED'' []) (demo_ledger\<lparr>lg_table := pending_table\<rparr>))))))"
  by (rule premature_reap_corrected [of _ _ _ _ "seeded_row 0 None"])
    (auto simp: pending_table_def seeded_row_def all_non_terminal_states_def demo_ledger_def)

end
