(* ===== verification/Run_Abort.thy ===== *)
theory Run_Abort
  imports Run_Reaper
begin

text \<open>
  The abort of a run, \<open>swebench_eval/orchestrator/control_plane/abort.py\<close>: the intent, the stop of
  the running tasks, the drain of the harness queue, the bounded wait, the sweep of the rows that
  are still open, and the final status. The answers of ECS and of the queue, and the polls of the
  wait, are arguments in the order in which the code receives them. The S3 manifest is the list of
  drained pairs; keys, threads and the log are left out.
\<close>

section \<open>Intent and final status\<close>

record stop_info =
  si_requested_at :: real
  si_scope :: string
  si_reason :: string
  si_stopped_at :: "real option"

record abort_world =
  aw_ledger :: ledger
  aw_stops :: "(string \<times> stop_info) list"
  aw_blocked :: "string list"

definition set_status :: "string \<Rightarrow> string \<Rightarrow> ledger \<Rightarrow> ledger" where
  "set_status run status lg =
     (case map_of (lg_runs lg) run of
        None \<Rightarrow> lg
      | Some s \<Rightarrow> lg\<lparr>lg_runs := AList.update run status (lg_runs lg)\<rparr>)"

definition record_intent :: "real \<Rightarrow> string \<Rightarrow> string \<Rightarrow> string \<Rightarrow> abort_world \<Rightarrow> abort_world" where
  "record_intent now run scope reason w =
     w\<lparr>aw_ledger := set_status run ''aborting'' (aw_ledger w),
       aw_stops :=
         (case map_of (lg_runs (aw_ledger w)) run of
            None \<Rightarrow> aw_stops w
          | Some s \<Rightarrow>
              AList.update run \<lparr>si_requested_at = now, si_scope = scope, si_reason = reason,
                si_stopped_at = None\<rparr> (aw_stops w)),
       aw_blocked := List.insert run (aw_blocked w)\<rparr>"

definition finalise :: "real \<Rightarrow> string \<Rightarrow> abort_world \<Rightarrow> abort_world" where
  "finalise now run w =
     w\<lparr>aw_ledger := set_status run ''aborted'' (aw_ledger w),
       aw_stops :=
         (case map_of (aw_stops w) run of
            None \<Rightarrow> aw_stops w
          | Some s \<Rightarrow> AList.update run (s\<lparr>si_stopped_at := Some now\<rparr>) (aw_stops w))\<rparr>"

section \<open>Stop and drain\<close>

text \<open>A page of tasks: for each task whether it could be stopped, and whether a page follows.\<close>

fun stop_in_flight :: "(bool list \<times> bool) option list \<Rightarrow> nat" where
  "stop_in_flight [] = 0"
| "stop_in_flight (None # pages) = 0"
| "stop_in_flight (Some (stops, again) # pages) =
     length (filter id stops) + (if again then stop_in_flight pages else 0)"

definition unsettled_run_states :: "string list" where
  "unsettled_run_states = [''running'', ''aborting'']"

definition exactly_one_active :: "ledger \<Rightarrow> bool" where
  "exactly_one_active lg \<longleftrightarrow>
     length (filter (\<lambda>(run, status). status \<in> set unsettled_run_states) (lg_runs lg)) \<le> 1"

record drain =
  dr_results :: "result_message list"
  dr_manifest :: "(string \<times> string) list"
  dr_deleted :: "body list"
  dr_returned :: "body option"
  dr_raised :: bool

definition no_drain :: drain where
  "no_drain = \<lparr>dr_results = [], dr_manifest = [], dr_deleted = [], dr_returned = None, dr_raised = False\<rparr>"

definition DRAIN_SWEEP :: nat where "DRAIN_SWEEP = 500"

text \<open>
  The messages in the order they are received, each with whether the result of its row can be
  sent. A message that raises is neither deleted nor returned.
\<close>

fun drain_loop :: "nat \<Rightarrow> string \<Rightarrow> (body \<times> bool) list \<Rightarrow> drain" where
  "drain_loop 0 run q = no_drain"
| "drain_loop (Suc n) run [] = no_drain"
| "drain_loop (Suc n) run ((b, sent) # q) =
     (if bd_text b ''run_id'' = Some run then
        (case dlq_attempt b of
           None \<Rightarrow> no_drain\<lparr>dr_raised := True\<rparr>
         | Some att \<Rightarrow>
             (let d = drain_loop n run q; inst = text_field b ''instance_id''
              in d\<lparr>dr_results :=
                     (if sent then [bare_result run inst att ''harness'' ''NEVER_DISPATCHED'' ''run aborted (drained)'']
                      else []) @ dr_results d,
                   dr_manifest := (run, inst) # dr_manifest d,
                   dr_deleted := b # dr_deleted d\<rparr>))
      else no_drain\<lparr>dr_returned := Some b\<rparr>)"

text \<open>The reason a drain is skipped, or the drain.\<close>

definition drain_queued :: "ledger \<Rightarrow> string \<Rightarrow> string \<Rightarrow> (body \<times> bool) list \<Rightarrow> string + drain" where
  "drain_queued lg run scope q =
     (if scope \<notin> {''harness'', ''all''} then Inl ''scope-not-harness''
      else if \<not> exactly_one_active lg then Inl ''another run active''
      else Inr (drain_loop DRAIN_SWEEP run q))"

section \<open>Settle and sweep\<close>

text \<open>
  The polls of the wait: the time of each and the open rows it counts. The result is whether a
  poll saw none.
\<close>

fun wait_for_settle :: "real \<Rightarrow> (real \<times> nat) list \<Rightarrow> bool" where
  "wait_for_settle deadline [] = False"
| "wait_for_settle deadline ((t, outstanding) # polls) =
     (if t < deadline then (if outstanding = 0 then True else wait_for_settle deadline polls) else False)"

text \<open>The field \<open>observed_at\<close> of a progress key counts only if it is not older than the request.\<close>

definition progress_is_live :: "wire option \<Rightarrow> real option \<Rightarrow> bool" where
  "progress_is_live observed requested =
     (case requested of
        None \<Rightarrow> True
      | Some req \<Rightarrow>
          (case (case observed of
                   None \<Rightarrow> Some (Fin 0)
                 | Some v \<Rightarrow> if wire_truth v then wire_float v else Some (Fin 0)) of
             None \<Rightarrow> True
           | Some (Fin x) \<Rightarrow> x \<le> 0 \<or> req \<le> x
           | Some PosInf \<Rightarrow> True
           | Some NegInf \<Rightarrow> True
           | Some NaN \<Rightarrow> False))"

record sweep_reads =
  sw_running :: "string list"
  sw_progress :: "string \<Rightarrow> int \<Rightarrow> wire option option"
  sw_requested :: "real option"

definition still_alive :: "sweep_reads \<Rightarrow> string \<Rightarrow> int \<Rightarrow> bool" where
  "still_alive e inst att \<longleftrightarrow>
     inst \<in> set (sw_running e) \<or>
     (case sw_progress e inst att of None \<Rightarrow> False | Some obs \<Rightarrow> progress_is_live obs (sw_requested e))"

definition open_rows :: "string \<Rightarrow> ledger_table \<Rightarrow> (row_key \<times> ledger_row) list" where
  "open_rows run t = filter (\<lambda>x. state_of x \<in> set all_non_terminal_states) (run_rows run t)"

definition swept_state :: "string \<Rightarrow> string \<Rightarrow> string" where
  "swept_state phase state =
     (if phase = ''harness'' then (if state = ''PENDING'' then ''NEVER_DISPATCHED'' else ''ABORTED_IN_FLIGHT'')
      else ''ABANDONED'')"

definition swept_message :: "string \<Rightarrow> row_key \<times> ledger_row \<Rightarrow> result_message" where
  "swept_message run x =
     (let (_, inst, att, phase) = fst x
      in reap_result run inst att phase (swept_state phase (state_of x))
           (''swept by abort: no terminal result after settle timeout (was '' @ state_of x @ '')''))"

definition row_alive :: "sweep_reads \<Rightarrow> row_key \<times> ledger_row \<Rightarrow> bool" where
  "row_alive e x \<longleftrightarrow> still_alive e (fst (snd (fst x))) (fst (snd (snd (fst x))))"

definition sweep_remaining_rows :: "sweep_reads \<Rightarrow> string \<Rightarrow> ledger_table \<Rightarrow> result_message list" where
  "sweep_remaining_rows e run t = map (swept_message run) (filter (\<lambda>x. \<not> row_alive e x) (open_rows run t))"

section \<open>The whole abort\<close>

record abort_report =
  ar_in_flight_stopped :: nat
  ar_drained :: nat
  ar_drain_skip :: "string option"
  ar_settled :: bool
  ar_swept :: nat

text \<open>
  What the abort meets: pages of tasks, the harness queue, the results the consumer handles while
  the abort waits, and what the sweep reads.
\<close>

record abort_env =
  ae_now :: real
  ae_pages :: "(bool list \<times> bool) option list"
  ae_queue :: "(body \<times> bool) list"
  ae_arrivals :: "delivery list"
  ae_sweep :: sweep_reads
  ae_end :: real

text \<open>
  The report, with the results that were sent and the messages that were deleted. Where the drain raises
  there is no report, but what it sent and deleted before stays so; the intent is recorded and the run
  stays \<open>aborting\<close>.
\<close>

definition execute_abort ::
    "abort_env \<Rightarrow> string \<Rightarrow> string \<Rightarrow> string \<Rightarrow> abort_world \<Rightarrow>
     (abort_report option \<times> result_message list \<times> body list) \<times> abort_world" where
  "execute_abort env run scope reason w =
     (let w1 = record_intent (ae_now env) run scope reason w;
          stopped = (if scope \<in> {''harness'', ''all''} then stop_in_flight (ae_pages env) else 0);
          drained = drain_queued (aw_ledger w1) run scope (ae_queue env);
          w2 = w1\<lparr>aw_ledger := consume_all (ae_arrivals env) (aw_ledger w1)\<rparr>;
          swept = sweep_remaining_rows ((ae_sweep env)\<lparr>sw_requested := Some (ae_now env)\<rparr>) run (lg_table (aw_ledger w2))
      in case drained of
          Inl why \<Rightarrow>
            ((Some \<lparr>ar_in_flight_stopped = stopped, ar_drained = 0, ar_drain_skip = Some why,
                    ar_settled = True, ar_swept = length swept\<rparr>, swept, []), finalise (ae_end env) run w2)
        | Inr d \<Rightarrow>
            if dr_raised d then ((None, dr_results d, dr_deleted d), w1)
            else ((Some \<lparr>ar_in_flight_stopped = stopped, ar_drained = length (dr_manifest d),
                         ar_drain_skip = None, ar_settled = True, ar_swept = length swept\<rparr>,
                   dr_results d @ swept, dr_deleted d), finalise (ae_end env) run w2))"

section \<open>The drain\<close>

lemma drain_cons:
  "bd_text b ''run_id'' = Some run \<Longrightarrow> dlq_attempt b = Some att \<Longrightarrow>
   drain_loop (Suc n) run ((b, sent) # q) =
     (drain_loop n run q)
       \<lparr>dr_results := (if sent then [bare_result run (text_field b ''instance_id'') att ''harness''
            ''NEVER_DISPATCHED'' ''run aborted (drained)''] else []) @ dr_results (drain_loop n run q),
        dr_manifest := (run, text_field b ''instance_id'') # dr_manifest (drain_loop n run q),
        dr_deleted := b # dr_deleted (drain_loop n run q)\<rparr>"
  by (simp add: Let_def)

lemma drain_stops:
  "\<not> (bd_text b ''run_id'' = Some run \<and> dlq_attempt b \<noteq> None) \<Longrightarrow>
   dr_results (drain_loop (Suc n) run ((b, sent) # q)) = [] \<and>
   dr_manifest (drain_loop (Suc n) run ((b, sent) # q)) = [] \<and>
   dr_deleted (drain_loop (Suc n) run ((b, sent) # q)) = [] \<and>
   dr_returned (drain_loop (Suc n) run ((b, sent) # q)) =
     (if bd_text b ''run_id'' = Some run then None else Some b)"
  by (auto simp: no_drain_def)

lemma drain_induct:
  assumes "\<And>q. P q no_drain" "\<And>b sent q. P ((b, sent) # q) (no_drain\<lparr>dr_raised := True\<rparr>)"
    "\<And>b sent q. bd_text b ''run_id'' \<noteq> Some run \<Longrightarrow> P ((b, sent) # q) (no_drain\<lparr>dr_returned := Some b\<rparr>)"
    "\<And>b sent q att n. bd_text b ''run_id'' = Some run \<Longrightarrow> dlq_attempt b = Some att \<Longrightarrow>
       P q (drain_loop n run q) \<Longrightarrow> P ((b, sent) # q) (drain_loop (Suc n) run ((b, sent) # q))"
  shows "P q (drain_loop n run q)"
proof (induction n arbitrary: q)
  case (Suc n)
  show ?case
  proof (cases q)
    case (Cons x q')
    obtain b sent where x: "x = (b, sent)" by force
    show ?thesis
    proof (cases "bd_text b ''run_id'' = Some run \<and> dlq_attempt b \<noteq> None")
      case True
      then show ?thesis unfolding Cons x using assms(4) [OF _ _ Suc.IH] by blast
    next
      case False
      then show ?thesis unfolding Cons x using assms(2, 3) by (auto split: option.splits)
    qed
  qed (simp add: assms(1))
qed (simp add: assms(1))

lemma drain_deleted:
  "map fst (take (length (dr_deleted (drain_loop n run q))) q) = dr_deleted (drain_loop n run q) \<and>
   (\<forall>b \<in> set (dr_deleted (drain_loop n run q)). bd_text b ''run_id'' = Some run)"
  by (rule drain_induct) (simp_all add: no_drain_def drain_cons del: drain_loop.simps)

lemma drain_bound: "length (dr_deleted (drain_loop n run q)) \<le> n"
  by (induction n run q rule: drain_loop.induct) (auto simp: no_drain_def Let_def split: option.splits)

lemma drain_manifest:
  "dr_manifest (drain_loop n run q) =
     map (\<lambda>b. (run, text_field b ''instance_id'')) (dr_deleted (drain_loop n run q))"
  by (rule drain_induct) (simp_all add: no_drain_def drain_cons del: drain_loop.simps)

lemma drain_returned:
  "dr_returned (drain_loop n run q) = Some b \<Longrightarrow> bd_text b ''run_id'' \<noteq> Some run"
  by (rule drain_induct [of "\<lambda>q d. dr_returned d = Some b \<longrightarrow> bd_text b ''run_id'' \<noteq> Some run", THEN mp])
    (auto simp: no_drain_def drain_cons simp del: drain_loop.simps)

definition names_deleted :: "string \<Rightarrow> drain \<Rightarrow> result_message \<Rightarrow> bool" where
  "names_deleted run d m \<longleftrightarrow> (\<exists>b att. b \<in> set (dr_deleted d) \<and> dlq_attempt b = Some att \<and>
     row_key m = (run, text_field b ''instance_id'', att, ''harness''))"

lemma drain_results:
  "\<forall>m \<in> set (dr_results (drain_loop n run q)).
     rm_state m = ''NEVER_DISPATCHED'' \<and> names_deleted run (drain_loop n run q) m"
proof (rule drain_induct [of "\<lambda>q d. \<forall>m \<in> set (dr_results d). rm_state m = ''NEVER_DISPATCHED'' \<and> names_deleted run d m"])
  fix b sent q att n
  assume h: "bd_text b ''run_id'' = Some run" "dlq_attempt b = Some att"
    "\<forall>m \<in> set (dr_results (drain_loop n run q)). rm_state m = ''NEVER_DISPATCHED'' \<and> names_deleted run (drain_loop n run q) m"
  let ?d = "drain_loop (Suc n) run ((b, sent) # q)"
  have del: "dr_deleted ?d = b # dr_deleted (drain_loop n run q)"
    by (simp add: drain_cons [OF h(1,2)] del: drain_loop.simps)
  have old: "names_deleted run (drain_loop n run q) m \<Longrightarrow> names_deleted run ?d m" for m
    unfolding names_deleted_def del by (meson list.set_intros(2))
  have new: "names_deleted run ?d (bare_result run (text_field b ''instance_id'') att ''harness'' st dt)" for st dt
    unfolding names_deleted_def del
    by (rule exI [of _ b], rule exI [of _ att]) (simp add: h(2) row_key_def bare_result_def)
  show "\<forall>m \<in> set (dr_results ?d). rm_state m = ''NEVER_DISPATCHED'' \<and> names_deleted run ?d m"
  proof
    fix m assume "m \<in> set (dr_results ?d)"
    then consider "m \<in> set (dr_results (drain_loop n run q))"
      | "m = bare_result run (text_field b ''instance_id'') att ''harness'' ''NEVER_DISPATCHED'' ''run aborted (drained)''"
      by (auto simp: drain_cons [OF h(1,2)] simp del: drain_loop.simps split: if_splits)
    then show "rm_state m = ''NEVER_DISPATCHED'' \<and> names_deleted run ?d m"
    proof cases
      case 1 with h(3) old show ?thesis by blast
    next
      case 2 then show ?thesis using new by (simp add: bare_result_def del: drain_loop.simps)
    qed
  qed
qed (simp_all add: no_drain_def)

text \<open>
  The drain deletes only messages of the run that is aborted: what it took is a prefix of what
  it received, at most five hundred messages, each naming the run and each recorded in the manifest
  with its instance; it puts a message back only if that message is another run's; and every result
  it sends says of a deleted attempt that it was never dispatched.
\<close>

theorem drain_takes_only_own_run:
  assumes "drain_loop DRAIN_SWEEP run q = d"
  shows "map fst (take (length (dr_deleted d)) q) = dr_deleted d \<and> length (dr_deleted d) \<le> 500 \<and>
    (\<forall>b \<in> set (dr_deleted d). bd_text b ''run_id'' = Some run) \<and>
    dr_manifest d = map (\<lambda>b. (run, text_field b ''instance_id'')) (dr_deleted d) \<and>
    (\<forall>b. dr_returned d = Some b \<longrightarrow> bd_text b ''run_id'' \<noteq> Some run) \<and>
    (\<forall>m \<in> set (dr_results d). rm_state m = ''NEVER_DISPATCHED'' \<and> names_deleted run d m)"
proof (intro conjI allI impI)
  show "dr_returned d = Some b \<Longrightarrow> bd_text b ''run_id'' \<noteq> Some run" for b
    using drain_returned assms by blast
qed (use assms drain_deleted [of DRAIN_SWEEP run q] drain_bound [of DRAIN_SWEEP run q]
    drain_results [of DRAIN_SWEEP run q] drain_manifest [of DRAIN_SWEEP run q] in \<open>auto simp: DRAIN_SWEEP_def\<close>)

section \<open>The sweep leaves nothing open\<close>

lemma distinct_upsert: "distinct (map fst t) \<Longrightarrow> distinct (map fst (snd (upsert now m t)))"
  by (auto simp: upsert_def distinct_update split: option.splits)

lemma distinct_seed: "distinct (map fst t) \<Longrightarrow> distinct (map fst (seed_eval_row now m t))"
  by (auto simp: seed_eval_row_def Let_def distinct_update split: option.splits)

lemma distinct_process:
  "distinct (map fst (lg_table lg)) \<Longrightarrow> distinct (map fst (lg_table (snd (process_result h now m lg))))"
  by (auto simp: process_result_table distinct_upsert distinct_seed split: if_splits)

lemma distinct_consume_all:
  "distinct (map fst (lg_table lg)) \<Longrightarrow> distinct (map fst (lg_table (consume_all ds lg)))"
  by (rule consume_all_induct [of "\<lambda>lg. distinct (map fst (lg_table lg))"])
    (auto simp: consume_def distinct_process split: sum.splits)

lemma consume_all_runs: "lg_runs (consume_all ds lg) = lg_runs lg"
  by (rule consume_all_induct) (simp_all add: consume_runs)

text \<open>The consumer handling messages one after the other, all its calls succeeding.\<close>

definition deliver :: "(real \<times> result_message) list \<Rightarrow> ledger \<Rightarrow> ledger" where
  "deliver ms lg = fold (\<lambda>(now, m) lg. snd (process_result healthy now m lg)) ms lg"

lemma deliver_simps [simp]:
  "deliver [] lg = lg"
  "deliver ((now, m) # ms) lg = deliver ms (snd (process_result healthy now m lg))"
  by (simp_all add: deliver_def)

lemma deliver_runs: "lg_runs (deliver ms lg) = lg_runs lg"
  by (induction ms arbitrary: lg) (auto simp: process_result_runs)

lemma deliver_distinct:
  "distinct (map fst (lg_table lg)) \<Longrightarrow> distinct (map fst (lg_table (deliver ms lg)))"
  by (induction ms arbitrary: lg) (auto simp: distinct_process)

lemma open_iff_rank: "s \<in> set all_non_terminal_states \<longleftrightarrow> state_rank s < 3"
  by (simp add: all_non_terminal_states_def state_rank_def)

lemma process_reaches:
  assumes "map_of (lg_runs lg) (rm_run_id m) \<noteq> None" "rm_state m \<noteq> ''PATCH_READY''"
  shows "map_of (lg_table (snd (process_result healthy now m lg))) (row_key m) = Some r \<Longrightarrow>
      state_rank (rm_state m) \<le> state_rank (lr_state r)"
    "k \<noteq> row_key m \<Longrightarrow> map_of (lg_table (snd (process_result healthy now m lg))) k = map_of (lg_table lg) k"
  using assms
  by (auto simp: process_result_table enqueues_def healthy_def upsert_other,
      auto simp: upsert_def insert_row_def update_row_def fill_row_def split: option.splits if_splits)

text \<open>
  A message that closes a row of the run, and what delivering such messages makes of every row: a row
  none of them names stays as it is, an open or missing one that some name ends in a state that one of
  those asks for, and no rank falls.
\<close>

definition closing :: "string \<Rightarrow> result_message \<Rightarrow> bool" where
  "closing run m \<longleftrightarrow> rm_run_id m = run \<and> 3 \<le> state_rank (rm_state m) \<and> rm_state m \<noteq> ''PATCH_READY''"

definition is_open :: "ledger_row option \<Rightarrow> bool" where
  "is_open r \<longleftrightarrow> (case r of None \<Rightarrow> True | Some x \<Rightarrow> state_rank (lr_state x) < 3)"

definition asked_states :: "result_message list \<Rightarrow> row_key \<Rightarrow> string set" where
  "asked_states ms k = rm_state ` {m \<in> set ms. row_key m = k}"

lemma process_at:
  assumes "closing run m" "map_of (lg_runs lg) run \<noteq> None"
  shows "\<exists>r'. map_of (lg_table (snd (process_result healthy now m lg))) (row_key m) = Some r' \<and>
    (is_open (map_of (lg_table lg) (row_key m)) \<longrightarrow> lr_state r' = rm_state m) \<and>
    (\<forall>r. map_of (lg_table lg) (row_key m) = Some r \<longrightarrow>
       lr_state r' \<in> {lr_state r, rm_state m} \<and> state_rank (lr_state r) \<le> state_rank (lr_state r'))"
  using assms
  by (auto simp: process_result_table enqueues_def healthy_def closing_def upsert_row state_after is_open_def
      split: option.split)

lemma deliver_snoc: "deliver (ms @ [(now, m)]) lg = snd (process_result healthy now m (deliver ms lg))"
  by (simp add: deliver_def)

lemma deliver_settles:
  assumes "\<forall>m \<in> snd ` set ms. closing run m" "map_of (lg_runs lg) run \<noteq> None"
  shows "(asked_states (map snd ms) k = {} \<longrightarrow>
      map_of (lg_table (deliver ms lg)) k = map_of (lg_table lg) k) \<and>
    (asked_states (map snd ms) k \<noteq> {} \<longrightarrow> is_open (map_of (lg_table lg) k) \<longrightarrow>
      (\<exists>r'. map_of (lg_table (deliver ms lg)) k = Some r' \<and> lr_state r' \<in> asked_states (map snd ms) k)) \<and>
    (\<forall>r. map_of (lg_table lg) k = Some r \<longrightarrow>
      (\<exists>r'. map_of (lg_table (deliver ms lg)) k = Some r' \<and> state_rank (lr_state r) \<le> state_rank (lr_state r')))"
  using assms(1)
proof (induction ms rule: rev_induct)
  case Nil
  then show ?case by (simp add: asked_states_def)
next
  case (snoc x ms)
  obtain now m where x: "x = (now, m)" by force
  let ?d = "deliver ms lg"
  have IH: "(asked_states (map snd ms) k = {} \<longrightarrow> map_of (lg_table ?d) k = map_of (lg_table lg) k) \<and>
    (asked_states (map snd ms) k \<noteq> {} \<longrightarrow> is_open (map_of (lg_table lg) k) \<longrightarrow>
      (\<exists>r'. map_of (lg_table ?d) k = Some r' \<and> lr_state r' \<in> asked_states (map snd ms) k)) \<and>
    (\<forall>r. map_of (lg_table lg) k = Some r \<longrightarrow>
      (\<exists>r'. map_of (lg_table ?d) k = Some r' \<and> state_rank (lr_state r) \<le> state_rank (lr_state r')))"
    using snoc by simp
  have m: "closing run m" using snoc.prems x by simp
  have reg: "map_of (lg_runs ?d) run \<noteq> None" using assms(2) by (simp add: deliver_runs)
  show ?case
  proof (cases "row_key m = k")
    case False
    have "map_of (lg_table (snd (process_result healthy now m ?d))) k = map_of (lg_table ?d) k"
      using process_reaches(2) [of ?d m k now] reg m False by (auto simp: closing_def)
    moreover have "asked_states (map snd (ms @ [x])) k = asked_states (map snd ms) k"
      using False by (auto simp: asked_states_def x)
    ultimately show ?thesis using IH by (simp add: x deliver_snoc)
  next
    case True
    have asked: "asked_states (map snd (ms @ [x])) k = insert (rm_state m) (asked_states (map snd ms) k)"
      using True by (auto simp: asked_states_def x)
    obtain r' where r': "map_of (lg_table (snd (process_result healthy now m ?d))) k = Some r'"
      "is_open (map_of (lg_table ?d) k) \<longrightarrow> lr_state r' = rm_state m"
      "\<forall>r. map_of (lg_table ?d) k = Some r \<longrightarrow>
         lr_state r' \<in> {lr_state r, rm_state m} \<and> state_rank (lr_state r) \<le> state_rank (lr_state r')"
      using process_at [OF m reg, of now] True by auto
    have "lr_state r' \<in> insert (rm_state m) (asked_states (map snd ms) k)" if "is_open (map_of (lg_table lg) k)"
    proof (cases "asked_states (map snd ms) k = {}")
      case True
      with IH that r'(2) show ?thesis by simp
    next
      case False
      with IH that obtain r1 where "map_of (lg_table ?d) k = Some r1" "lr_state r1 \<in> asked_states (map snd ms) k" by auto
      with r'(3) show ?thesis by auto
    qed
    moreover have "state_rank (lr_state r) \<le> state_rank (lr_state r')" if "map_of (lg_table lg) k = Some r" for r
      using IH that r'(3) by (meson order_trans)
    ultimately show ?thesis using asked by (simp add: x deliver_snoc r'(1))
  qed
qed

lemma swept_message_key: "fst (fst x) = run \<Longrightarrow> row_key (swept_message run x) = fst x"
  by (cases "fst x") (auto simp: swept_message_def row_key_def)

lemma swept_message_closing: "closing run (swept_message run x)"
  by (auto simp: swept_message_def closing_def swept_state_def state_rank_def split: prod.splits)

lemma open_rows_run: "x \<in> set (open_rows run t) \<Longrightarrow> fst (fst x) = run"
  by (auto simp: open_rows_def run_rows_def)

lemma open_rows_iff:
  assumes "distinct (map fst t)"
  shows "(k, r) \<in> set (open_rows run t) \<longleftrightarrow> map_of t k = Some r \<and> fst k = run \<and> lr_state r \<in> set all_non_terminal_states"
  using assms by (auto simp: open_rows_def run_rows_def state_of_def)

text \<open>What the sweep asks for an open row.\<close>

lemma sweep_asks:
  assumes "distinct (map fst t)" "map_of t (run, inst, att, phase) = Some r" "lr_state r \<in> set all_non_terminal_states"
  shows "asked_states (sweep_remaining_rows e run t) (run, inst, att, phase) =
    (if still_alive e inst att then {} else {swept_state phase (lr_state r)})"
proof -
  let ?k = "(run, inst, att, phase)"
  have mem: "(?k, r) \<in> set (open_rows run t)" using assms by (simp add: open_rows_iff)
  have only: "x = (?k, r)" if "x \<in> set (open_rows run t)" "row_key (swept_message run x) = ?k" for x
  proof -
    from that have k: "fst x = ?k" using open_rows_run swept_message_key by metis
    then have "(?k, snd x) \<in> set (open_rows run t)" using that(1) by (metis prod.collapse)
    then have "snd x = r" using assms(2) open_rows_iff [OF assms(1)] by fastforce
    with k show ?thesis by (metis prod.collapse)
  qed
  have st: "rm_state (swept_message run (?k, r)) = swept_state phase (lr_state r)"
    "row_key (swept_message run (?k, r)) = ?k" "row_alive e (?k, r) \<longleftrightarrow> still_alive e inst att"
    by (simp_all add: swept_message_def reap_result_def bare_result_def row_key_def state_of_def row_alive_def)
  have msgs: "{m \<in> set (sweep_remaining_rows e run t). row_key m = ?k} =
      (if still_alive e inst att then {} else {swept_message run (?k, r)})"
  proof (rule set_eqI)
    fix m
    have "m \<in> set (sweep_remaining_rows e run t) \<and> row_key m = ?k \<longleftrightarrow>
        \<not> still_alive e inst att \<and> m = swept_message run (?k, r)" (is "?l \<longleftrightarrow> ?r")
    proof
      assume ?l
      then obtain x where x: "x \<in> set (open_rows run t)" "\<not> row_alive e x" "m = swept_message run x"
        by (auto simp: sweep_remaining_rows_def)
      with only [of x] \<open>?l\<close> have "x = (?k, r)" by simp
      with x st(3) show ?r by simp
    next
      assume ?r
      with mem st(2,3) show ?l by (auto simp: sweep_remaining_rows_def)
    qed
    then show "m \<in> {m \<in> set (sweep_remaining_rows e run t). row_key m = ?k} \<longleftrightarrow>
        m \<in> (if still_alive e inst att then {} else {swept_message run (?k, r)})" by simp
  qed
  show ?thesis unfolding asked_states_def msgs by (simp add: st)
qed

lemma intent_ledger [simp]:
  "aw_ledger (record_intent now run scope reason w) = set_status run ''aborting'' (aw_ledger w)"
  "aw_ledger (finalise now run w) = set_status run ''aborted'' (aw_ledger w)"
  by (simp_all add: record_intent_def finalise_def)

lemma set_status_simps [simp]:
  "lg_table (set_status run s lg) = lg_table lg"
  "map_of (lg_runs (set_status run s lg)) run = (if map_of (lg_runs lg) run = None then None else Some s)"
  by (simp_all add: set_status_def split: option.splits)

text \<open>What an abort that does not raise leaves, and the messages it sends.\<close>

definition drain_sent :: "abort_env \<Rightarrow> string \<Rightarrow> string \<Rightarrow> abort_world \<Rightarrow> result_message list" where
  "drain_sent env run scope w =
     (case drain_queued (set_status run ''aborting'' (aw_ledger w)) run scope (ae_queue env) of
        Inl why \<Rightarrow> [] | Inr d \<Rightarrow> dr_results d)"

definition drained_keys :: "abort_env \<Rightarrow> string \<Rightarrow> string \<Rightarrow> abort_world \<Rightarrow> row_key set" where
  "drained_keys env run scope w = row_key ` set (drain_sent env run scope w)"

lemma execute_abort_done:
  assumes "execute_abort env run scope reason w = ((Some rep, out, deleted), w')"
  shows "aw_ledger w' =
      set_status run ''aborted'' (consume_all (ae_arrivals env) (set_status run ''aborting'' (aw_ledger w)))"
    "out = drain_sent env run scope w @
      sweep_remaining_rows ((ae_sweep env)\<lparr>sw_requested := Some (ae_now env)\<rparr>) run (lg_table (aw_ledger w'))"
  using assms by (auto simp: execute_abort_def drain_sent_def Let_def split: sum.splits if_splits)

lemma drain_sent_closing:
  assumes "m \<in> set (drain_sent env run scope w)"
  shows "closing run m \<and> rm_state m = ''NEVER_DISPATCHED'' \<and> snd (snd (snd (row_key m))) = ''harness''"
proof -
  have "m \<in> set (dr_results (drain_loop DRAIN_SWEEP run (ae_queue env)))"
    using assms by (auto simp: drain_sent_def drain_queued_def split: if_splits)
  with drain_results [of DRAIN_SWEEP run "ae_queue env"]
  have st: "rm_state m = ''NEVER_DISPATCHED''" and "names_deleted run (drain_loop DRAIN_SWEEP run (ae_queue env)) m"
    by blast+
  then obtain inst att where k: "row_key m = (run, inst, att, ''harness'')" unfolding names_deleted_def by blast
  then have "rm_run_id m = run" by (simp add: row_key_def)
  with st k show ?thesis by (simp add: closing_def state_rank_def)
qed

lemma drain_asks:
  "asked_states (drain_sent env run scope w) k = (if k \<in> drained_keys env run scope w then {''NEVER_DISPATCHED''} else {})"
  using drain_sent_closing [of _ env run scope w] by (force simp: asked_states_def drained_keys_def)

lemma drained_key_phase: "(run', inst, att, phase) \<in> drained_keys env run scope w \<Longrightarrow> phase = ''harness''"
proof -
  assume "(run', inst, att, phase) \<in> drained_keys env run scope w"
  then obtain m where "m \<in> set (drain_sent env run scope w)" "row_key m = (run', inst, att, phase)"
    by (auto simp: drained_keys_def)
  with drain_sent_closing [of m env run scope w] show ?thesis by simp
qed

lemma asked_states_append: "asked_states (xs @ ys) k = asked_states xs k \<union> asked_states ys k"
  by (auto simp: asked_states_def)

lemma asked_states_cong: "set xs = set ys \<Longrightarrow> asked_states xs k = asked_states ys k"
  by (simp add: asked_states_def)

text \<open>
  C16: An abort that is through closes every dead row with its state. Deliver the messages it sent at
  least once each and in any order. Then a row of the run that was open at its end and shows a sign of
  life stays as it is; an open row without one is closed: an eval row as ABANDONED, a pending harness
  row as NEVER_DISPATCHED, any other harness row as ABORTED_IN_FLIGHT. If the drain took the job of a row
  and reported it, that report closes the row too: alone a row with a sign of life, and in a race with the
  sweep one that was under way. Nothing of the run is open afterwards but rows with a sign of life whose
  job was not drained, and the run is aborted.
\<close>

theorem abort_closes_every_dead_row:
  assumes reg: "map_of (lg_runs (aw_ledger w)) run \<noteq> None"
    and dist: "distinct (map fst (lg_table (aw_ledger w)))"
    and abort: "execute_abort env run scope reason w = ((Some rep, out, deleted), w')"
    and ms: "snd ` set ms = set out"
    and alive: "alive = still_alive ((ae_sweep env)\<lparr>sw_requested := Some (ae_now env)\<rparr>)"
    and drained: "drained = drained_keys env run scope w"
  shows "(\<forall>inst att phase r.
      map_of (lg_table (aw_ledger w')) (run, inst, att, phase) = Some r \<and> lr_state r \<in> set all_non_terminal_states \<longrightarrow>
      (\<exists>r'. map_of (lg_table (deliver ms (aw_ledger w'))) (run, inst, att, phase) = Some r' \<and>
         (alive inst att \<and> (run, inst, att, phase) \<notin> drained \<longrightarrow> r' = r) \<and>
         (alive inst att \<and> (run, inst, att, phase) \<in> drained \<longrightarrow> lr_state r' = ''NEVER_DISPATCHED'') \<and>
         (\<not> alive inst att \<and> phase \<noteq> ''harness'' \<longrightarrow> lr_state r' = ''ABANDONED'') \<and>
         (\<not> alive inst att \<and> phase = ''harness'' \<and> lr_state r = ''PENDING'' \<longrightarrow> lr_state r' = ''NEVER_DISPATCHED'') \<and>
         (\<not> alive inst att \<and> phase = ''harness'' \<and> lr_state r \<noteq> ''PENDING'' \<longrightarrow>
            lr_state r' = ''ABORTED_IN_FLIGHT'' \<or>
            (run, inst, att, phase) \<in> drained \<and> lr_state r' = ''NEVER_DISPATCHED''))) \<and>
    (\<forall>inst att phase r'.
      map_of (lg_table (deliver ms (aw_ledger w'))) (run, inst, att, phase) = Some r' \<and>
        lr_state r' \<in> set all_non_terminal_states \<longrightarrow>
      alive inst att \<and> (run, inst, att, phase) \<notin> drained \<and>
        map_of (lg_table (aw_ledger w')) (run, inst, att, phase) = Some r') \<and>
    map_of (lg_runs (deliver ms (aw_ledger w'))) run = Some ''aborted''"
proof -
  let ?e = "(ae_sweep env)\<lparr>sw_requested := Some (ae_now env)\<rparr>"
  let ?t = "lg_table (aw_ledger w')"
  note fin = execute_abort_done [OF abort]
  have runs: "map_of (lg_runs (aw_ledger w')) run = Some ''aborted''"
    using reg by (simp add: fin(1) consume_all_runs)
  have td: "distinct (map fst ?t)" using dist by (simp add: fin(1) distinct_consume_all)
  have "\<forall>m \<in> set out. closing run m"
    using drain_sent_closing [of _ env run scope w] by (auto simp: fin(2) sweep_remaining_rows_def swept_message_closing)
  then have closing: "\<forall>m \<in> snd ` set ms. closing run m" by (simp add: ms)
  have asked: "asked_states (map snd ms) k =
      (if k \<in> drained then {''NEVER_DISPATCHED''} else {}) \<union> asked_states (sweep_remaining_rows ?e run ?t) k" for k
  proof -
    have "asked_states (map snd ms) k = asked_states out k" by (rule asked_states_cong) (simp add: ms)
    then show ?thesis by (simp add: fin(2) asked_states_append drain_asks drained)
  qed
  note settles = deliver_settles [OF closing, of "aw_ledger w'"]
  have reg': "map_of (lg_runs (aw_ledger w')) run \<noteq> None" using runs by simp
  have row: "asked_states (map snd ms) (run, inst, att, phase) =
      (if (run, inst, att, phase) \<in> drained then {''NEVER_DISPATCHED''} else {}) \<union>
      (if alive inst att then {} else {swept_state phase (lr_state r)})"
    if "map_of ?t (run, inst, att, phase) = Some r" "lr_state r \<in> set all_non_terminal_states" for inst att phase r
    using sweep_asks [OF td that] by (simp add: asked alive)
  have harness: "phase = ''harness''" if "(run, inst, att, phase) \<in> drained" for inst att phase
    using drained_key_phase that by (simp add: drained)
  have 1: "\<exists>r'. map_of (lg_table (deliver ms (aw_ledger w'))) (run, inst, att, phase) = Some r' \<and>
      (asked_states (map snd ms) (run, inst, att, phase) = {} \<longrightarrow> r' = r) \<and>
      (asked_states (map snd ms) (run, inst, att, phase) \<noteq> {} \<longrightarrow> lr_state r' \<in> asked_states (map snd ms) (run, inst, att, phase))"
    if "map_of ?t (run, inst, att, phase) = Some r" "lr_state r \<in> set all_non_terminal_states" for inst att phase r
    using settles [OF reg', of "(run, inst, att, phase)"] that by (auto simp: is_open_def open_iff_rank)
  have 2: "alive inst att \<and> (run, inst, att, phase) \<notin> drained \<and> map_of ?t (run, inst, att, phase) = Some r'"
    if after: "map_of (lg_table (deliver ms (aw_ledger w'))) (run, inst, att, phase) = Some r'"
      "lr_state r' \<in> set all_non_terminal_states" for inst att phase r'
  proof -
    let ?k = "(run, inst, att, phase)"
    have none: "asked_states (map snd ms) ?k = {}"
    proof (rule ccontr)
      assume some: "asked_states (map snd ms) ?k \<noteq> {}"
      have low: "state_rank (lr_state r') < 3" using after(2) by (simp add: open_iff_rank)
      show False
      proof (cases "is_open (map_of ?t ?k)")
        case True
        with settles [OF reg', of ?k] some after(1) have "lr_state r' \<in> asked_states (map snd ms) ?k" by auto
        with closing low show False by (fastforce simp: asked_states_def closing_def)
      next
        case False
        with settles [OF reg', of ?k] after(1) low show False by (auto simp: is_open_def split: option.splits)
      qed
    qed
    with settles [OF reg', of ?k] after(1) have same: "map_of ?t ?k = Some r'" by simp
    from row [OF same after(2)] none same show ?thesis by (auto split: if_splits)
  qed
  show ?thesis
  proof (intro conjI allI impI)
    fix inst att phase r
    assume r: "map_of ?t (run, inst, att, phase) = Some r \<and> lr_state r \<in> set all_non_terminal_states"
    note r1 = 1 [OF conjunct1 [OF r] conjunct2 [OF r], unfolded row [OF conjunct1 [OF r] conjunct2 [OF r]]]
    then show "\<exists>r'. map_of (lg_table (deliver ms (aw_ledger w'))) (run, inst, att, phase) = Some r' \<and>
         (alive inst att \<and> (run, inst, att, phase) \<notin> drained \<longrightarrow> r' = r) \<and>
         (alive inst att \<and> (run, inst, att, phase) \<in> drained \<longrightarrow> lr_state r' = ''NEVER_DISPATCHED'') \<and>
         (\<not> alive inst att \<and> phase \<noteq> ''harness'' \<longrightarrow> lr_state r' = ''ABANDONED'') \<and>
         (\<not> alive inst att \<and> phase = ''harness'' \<and> lr_state r = ''PENDING'' \<longrightarrow> lr_state r' = ''NEVER_DISPATCHED'') \<and>
         (\<not> alive inst att \<and> phase = ''harness'' \<and> lr_state r \<noteq> ''PENDING'' \<longrightarrow>
            lr_state r' = ''ABORTED_IN_FLIGHT'' \<or>
            (run, inst, att, phase) \<in> drained \<and> lr_state r' = ''NEVER_DISPATCHED'')"
      using harness [of inst att phase]
      by (cases "alive inst att"; cases "(run, inst, att, phase) \<in> drained") (auto simp: swept_state_def split: if_splits)
  qed (use 2 runs in \<open>auto simp: deliver_runs\<close>)
qed

text \<open>
  The sweep spares what is alive and closes the rest for good or not as the phase demands: each
  of its messages is for an open row of the run without a live task and without a progress key
  written since the request; a harness row gets a state that nothing overrides, an eval row one
  that only a final state overrides.
\<close>

theorem sweep_spares_the_living:
  assumes "m \<in> set (sweep_remaining_rows e run t)" "map_of t (row_key m) = Some r"
    "distinct (map fst t)"
  shows "rm_run_id m = run \<and> lr_state r \<in> set all_non_terminal_states \<and>
    rm_instance_id m \<notin> set (sw_running e) \<and>
    (\<forall>obs. sw_progress e (rm_instance_id m) (rm_attempt m) = Some obs \<longrightarrow>
       \<not> progress_is_live obs (sw_requested e)) \<and>
    state_rank (lr_state r) < state_rank (rm_state m) \<and>
    (state_rank (rm_state m) = (if rm_phase m = ''harness'' then 4 else 3))"
proof -
  obtain x where x: "x \<in> set (open_rows run t)" "\<not> row_alive e x" "m = swept_message run x"
    using assms(1) by (auto simp: sweep_remaining_rows_def)
  obtain k r' where k: "x = (k, r')" by (rule that [OF prod.collapse [symmetric]])
  obtain inst att phase where key: "k = (run, inst, att, phase)"
    using open_rows_run [OF x(1)] k by (cases k) auto
  have m: "row_key m = k" "rm_run_id m = run" "rm_instance_id m = inst" "rm_attempt m = att"
    "rm_phase m = phase" "rm_state m = swept_state phase (lr_state r')"
    unfolding x(3) k key by (simp_all add: swept_message_def row_key_def state_of_def)
  have row: "(k, r') \<in> set t" "lr_state r' \<in> set all_non_terminal_states"
    using x(1) by (auto simp: k open_rows_def run_rows_def state_of_def)
  then have "r' = r" using assms(2,3) m(1) by (metis map_of_is_SomeI option.inject)
  then show ?thesis
    using x(2) row(2) m by (auto simp: row_alive_def still_alive_def k key swept_state_def open_iff_rank
        state_rank_def split: option.splits)
qed

section \<open>Examples\<close>

definition dead_reads :: sweep_reads where
  "dead_reads = \<lparr>sw_running = [], sw_progress = (\<lambda>_ _. Some (Some (W_int 4))), sw_requested = Some 5\<rparr>"

definition demo_abort :: abort_env where
  "demo_abort = \<lparr>ae_now = 5, ae_pages = [None], ae_queue = [], ae_arrivals = [], ae_sweep = dead_reads,
     ae_end = 9\<rparr>"

definition demo_world :: abort_world where
  "demo_world = \<lparr>aw_ledger = demo_ledger\<lparr>lg_table := pending_table\<rparr>, aw_stops = [], aw_blocked = []\<rparr>"

definition job_body :: "string \<Rightarrow> body" where
  "job_body run =
     \<lparr>bd_text = (\<lambda>k. if k = ''run_id'' then Some run else if k = ''instance_id'' then Some ''i'' else None),
      bd_val = (\<lambda>k. if k = ''attempt_number'' then Some (W_int 1) else None)\<rparr>"

lemma job_body_simps [simp]:
  "bd_text (job_body run) ''run_id'' = Some run" "text_field (job_body run) ''instance_id'' = ''i''"
  "dlq_attempt (job_body run) = Some 1"
  by (simp_all add: job_body_def text_field_def dlq_attempt_def)

theorem drain_takes_only_own_run_witness:
  "drain_loop DRAIN_SWEEP ''r'' [(job_body ''r'', True), (job_body ''q'', True)] \<noteq> no_drain \<and>
   length (dr_deleted (drain_loop DRAIN_SWEEP ''r'' [(job_body ''r'', True), (job_body ''q'', True)])) \<le> 500"
  using drain_takes_only_own_run [OF refl, of "''r''" "[(job_body ''r'', True), (job_body ''q'', True)]"]
  by (simp add: DRAIN_SWEEP_def no_drain_def eval_nat_numeral Let_def)

lemma dead_row: "open_rows ''r'' pending_table = pending_table"
  by (simp add: open_rows_def run_rows_def pending_table_def state_of_def seeded_row_def all_non_terminal_states_def)

lemma dead_not_alive: "\<not> row_alive dead_reads x"
  by (simp add: row_alive_def still_alive_def dead_reads_def progress_is_live_def)

theorem sweep_spares_the_living_witness:
  "state_rank ''PENDING'' < state_rank ''NEVER_DISPATCHED''"
proof -
  let ?m = "swept_message ''r'' ((''r'', ''i'', 1, ''harness''), seeded_row 0 None)"
  have "?m \<in> set (sweep_remaining_rows dead_reads ''r'' pending_table)"
    unfolding sweep_remaining_rows_def dead_row using dead_not_alive by (simp add: pending_table_def)
  from sweep_spares_the_living [OF this, of "seeded_row 0 None"]
  show ?thesis by (simp add: pending_table_def swept_message_key)
    (simp add: swept_message_def swept_state_def state_of_def seeded_row_def state_rank_def)
qed

theorem abort_closes_every_dead_row_witness:
  "\<exists>out (w' :: abort_world) r'.
     map_of (lg_table (deliver (map (Pair 7) out) (aw_ledger w'))) (''r'', ''i'', 1, ''harness'') = Some r' \<and>
     lr_state r' = ''NEVER_DISPATCHED'' \<and>
     map_of (lg_runs (deliver (map (Pair 7) out) (aw_ledger w'))) ''r'' = Some ''aborted''"
proof -
  obtain rep out deleted w' where e: "execute_abort demo_abort ''r'' ''all'' ''why'' demo_world = ((Some rep, out, deleted), w')"
    by (simp add: execute_abort_def Let_def demo_abort_def drain_queued_def exactly_one_active_def
        demo_world_def demo_ledger_def set_status_def unsettled_run_states_def DRAIN_SWEEP_def
        eval_nat_numeral no_drain_def)
  have d: "(ae_sweep demo_abort)\<lparr>sw_requested := Some (ae_now demo_abort)\<rparr> = dead_reads"
    by (simp add: demo_abort_def dead_reads_def)
  have dead: "\<not> still_alive dead_reads ''i'' 1"
    by (simp add: still_alive_def dead_reads_def progress_is_live_def)
  have row: "map_of (lg_table (aw_ledger w')) (''r'', ''i'', 1, ''harness'') = Some (seeded_row 0 None)"
    by (simp add: execute_abort_done(1) [OF e] demo_abort_def consume_all_def demo_world_def pending_table_def)
  have "snd ` set (map (Pair (7 :: real)) out) = set out" by force
  note th = abort_closes_every_dead_row [OF _ _ e this refl refl]
  have wf: "map_of (lg_runs (aw_ledger demo_world)) ''r'' \<noteq> None" "distinct (map fst (lg_table (aw_ledger demo_world)))"
    by (simp_all add: demo_world_def demo_ledger_def pending_table_def)
  have st: "lr_state (seeded_row 0 None) = ''PENDING''" "lr_state (seeded_row 0 None) \<in> set all_non_terminal_states"
    by (simp_all add: seeded_row_def all_non_terminal_states_def)
  note closed = th [OF wf, unfolded d]
  from conjunct1 [OF closed, rule_format, OF conjI [OF row st(2)]] dead st(1)
  obtain r' where "map_of (lg_table (deliver (map (Pair 7) out) (aw_ledger w'))) (''r'', ''i'', 1, ''harness'') = Some r'"
    "lr_state r' = ''NEVER_DISPATCHED''" by blast
  with conjunct2 [OF conjunct2 [OF closed]] show ?thesis by blast
qed

end
