(* ===== verification/Run_Restart.thy ===== *)
theory Run_Restart
  imports Run_Abort
begin

text \<open>
  The operator's actions on a run that is open: restart and regrade of instances and the close of
  the run, \<open>swebench_eval/orchestrator/control_plane/restart.py\<close>, with \<open>finalise_run\<close> of
  \<open>run_launch.py\<close> and the denominator \<open>resolve_rate_denominator\<close> of \<open>orchestrator/api/queries.py\<close>.
  Restart and regrade share their loop, which is the locale \<open>attempt_adder\<close>. The row lock makes
  each action one step. The connection, the pacer seed and the log are left out; the dataset is an
  argument.
\<close>

section \<open>The latest attempt\<close>

definition attempt_of :: "row_key \<times> ledger_row \<Rightarrow> int" where
  "attempt_of x = fst (snd (snd (fst x)))"

definition instance_rows :: "string \<Rightarrow> string \<Rightarrow> ledger_table \<Rightarrow> (row_key \<times> ledger_row) list" where
  "instance_rows run inst t = filter (\<lambda>x. fst (snd (fst x)) = inst) (run_rows run t)"

text \<open>\<open>ORDER BY attempt_number DESC, (phase = 'eval') DESC\<close>: whether \<open>y\<close> comes before \<open>x\<close>.\<close>

definition outranks :: "row_key \<times> ledger_row \<Rightarrow> row_key \<times> ledger_row \<Rightarrow> bool" where
  "outranks y x \<longleftrightarrow> attempt_of x < attempt_of y \<or>
     (attempt_of x = attempt_of y \<and> phase_of y = ''eval'' \<and> phase_of x \<noteq> ''eval'')"

definition latest_attempt_row :: "string \<Rightarrow> string \<Rightarrow> ledger_table \<Rightarrow> (row_key \<times> ledger_row) option" where
  "latest_attempt_row run inst t = top_row outranks (instance_rows run inst t)"

text \<open>The categories of \<open>_TERMINAL\<close>, as the column holds them.\<close>

definition terminal_names :: "string list" where
  "terminal_names =
     [''RESOLVED'', ''UNRESOLVED'', ''EMPTY_PATCH'', ''PATCH_APPLY_FAILED'', ''EVAL_GRADE_INVALID'', ''EVAL_TIMEOUT'']"

definition classify_restart :: "ledger_row \<Rightarrow> string" where
  "classify_restart r =
     (case lr_evidence r ''error_category'' of
        Some (C_text c) \<Rightarrow> if c \<in> set terminal_names then ''operator_rerun_pass_at_k'' else ''operator_infra_retry''
      | _ \<Rightarrow> ''operator_infra_retry'')"

section \<open>Adding attempts\<close>

datatype restart_error = Empty_request | No_such_run | Run_closed | Unique_violation

text \<open>\<open>INSERT\<close> of a pending row; \<open>None\<close> is the violation of the primary key.\<close>

definition insert_pending :: "real \<Rightarrow> row_key \<Rightarrow> string \<Rightarrow> ledger_table \<Rightarrow> ledger_table option" where
  "insert_pending now k reason t =
     (case map_of t k of
        Some r \<Rightarrow> None
      | None \<Rightarrow> Some (AList.update k (seeded_row now (Some reason)) t))"

text \<open>
  The loop over the requested instances. A plan says of an instance why it is skipped, or the new
  attempt with what the report says of it; it reads the table as it was before the loop.
\<close>

type_synonym 'a plan = "string \<Rightarrow> string + int \<times> 'a"

fun add_attempts ::
    "'a plan \<Rightarrow> ('a \<Rightarrow> string) \<Rightarrow> string \<Rightarrow> real \<Rightarrow> string \<Rightarrow> string list \<Rightarrow> ledger_table \<Rightarrow>
     restart_error + (string \<times> int \<times> 'a) list \<times> (string \<times> string) list \<times> ledger_table" where
  "add_attempts plan reason phase now run [] t = Inr ([], [], t)"
| "add_attempts plan reason phase now run (i # is) t =
     (case plan i of
        Inl why \<Rightarrow>
          (case add_attempts plan reason phase now run is t of
             Inl e \<Rightarrow> Inl e
           | Inr (added, skipped, t') \<Rightarrow> Inr (added, (i, why) # skipped, t'))
      | Inr (att, x) \<Rightarrow>
          (case insert_pending now (run, i, att, phase) (reason x) t of
             None \<Rightarrow> Inl Unique_violation
           | Some t1 \<Rightarrow>
               (case add_attempts plan reason phase now run is t1 of
                  Inl e \<Rightarrow> Inl e
                | Inr (added, skipped, t') \<Rightarrow> Inr ((i, att, x) # added, skipped, t'))))"

text \<open>What both actions check before the loop.\<close>

definition open_for_attempts :: "string \<Rightarrow> string list \<Rightarrow> ledger \<Rightarrow> restart_error option" where
  "open_for_attempts run ids lg =
     (if ids = [] then Some Empty_request
      else case map_of (lg_runs lg) run of
          None \<Rightarrow> Some No_such_run
        | Some status \<Rightarrow> if is_run_closed status then Some Run_closed else None)"

definition restart_plan :: "string \<Rightarrow> ledger_table \<Rightarrow> string plan" where
  "restart_plan run t inst =
     (case latest_attempt_row run inst t of
        None \<Rightarrow> Inl ''unknown instance''
      | Some x \<Rightarrow>
          if state_of x \<in> set all_non_terminal_states then Inl ''attempt still in flight''
          else Inr (attempt_of x + 1, classify_restart (snd x)))"

definition restart_instances ::
    "real \<Rightarrow> string \<Rightarrow> string list \<Rightarrow> ledger \<Rightarrow>
     restart_error + (string \<times> int \<times> string) list \<times> (string \<times> string) list \<times> ledger" where
  "restart_instances now run ids lg =
     (case open_for_attempts run ids lg of
        Some e \<Rightarrow> Inl e
      | None \<Rightarrow>
          (case add_attempts (restart_plan run (lg_table lg)) (\<lambda>why. why) ''harness'' now run ids (lg_table lg) of
             Inl e \<Rightarrow> Inl e
           | Inr (added, skipped, t) \<Rightarrow> Inr (added, skipped, lg\<lparr>lg_table := t\<rparr>)))"

text \<open>The patch of the newest harness attempt that has one.\<close>

definition patch_of :: "row_key \<times> ledger_row \<Rightarrow> string" where
  "patch_of x = (case lr_evidence (snd x) ''patch_path'' of Some (C_text p) \<Rightarrow> p | _ \<Rightarrow> [])"

definition latest_harness_patch :: "string \<Rightarrow> string \<Rightarrow> ledger_table \<Rightarrow> string option" where
  "latest_harness_patch run inst t =
     map_option patch_of
       (top_row (\<lambda>y x. attempt_of x < attempt_of y)
         (filter (\<lambda>x. phase_of x = ''harness'' \<and> patch_of x \<noteq> []) (instance_rows run inst t)))"

definition regrade_plan :: "string \<Rightarrow> ledger_table \<Rightarrow> string plan" where
  "regrade_plan run t inst =
     (case latest_attempt_row run inst t of
        None \<Rightarrow> Inl ''unknown instance''
      | Some x \<Rightarrow>
          if state_of x \<in> set all_non_terminal_states then Inl ''attempt still in flight''
          else (case latest_harness_patch run inst t of
                  None \<Rightarrow> Inl ''no captured patch to regrade''
                | Some p \<Rightarrow> Inr (attempt_of x + 1, p)))"

definition regrade_instances ::
    "real \<Rightarrow> string \<Rightarrow> string list \<Rightarrow> ledger \<Rightarrow>
     restart_error + (string \<times> int \<times> string) list \<times> (string \<times> string) list \<times> ledger" where
  "regrade_instances now run ids lg =
     (case open_for_attempts run ids lg of
        Some e \<Rightarrow> Inl e
      | None \<Rightarrow>
          (case add_attempts (regrade_plan run (lg_table lg)) (\<lambda>p. ''operator_regrade'') ''eval'' now run ids (lg_table lg) of
             Inl e \<Rightarrow> Inl e
           | Inr (added, skipped, t) \<Rightarrow> Inr (added, skipped, lg\<lparr>lg_table := t\<rparr>)))"

definition dispatch_regraded :: "string \<Rightarrow> (string \<times> int \<times> string) list \<Rightarrow> eval_job list" where
  "dispatch_regraded run added =
     map (\<lambda>(inst, att, p). \<lparr>ej_run_id = run, ej_instance_id = inst, ej_attempt = att,
        ej_patch_s3_key = p, ej_use_gold = False\<rparr>) added"

section \<open>Close\<close>

datatype close_error = Close_no_such_run | Not_open_for_close | Still_in_flight

definition claim_close :: "string \<Rightarrow> ledger \<Rightarrow> close_error + ledger" where
  "claim_close run lg =
     (case map_of (lg_runs lg) run of
        None \<Rightarrow> Inl Close_no_such_run
      | Some status \<Rightarrow>
          if status \<notin> {''running'', ''finalising''} then Inl Not_open_for_close
          else if 0 < fst (non_terminal_row_counts run (lg_table lg)) then Inl Still_in_flight
          else Inr (if status = ''finalising'' then lg else set_status run ''finalising'' lg))"

text \<open>The flag says whether the stop of the tasks and the revocation of the keys succeed; they raise otherwise.\<close>

definition finalise_run :: "bool \<Rightarrow> string \<Rightarrow> ledger \<Rightarrow> bool \<times> ledger" where
  "finalise_run ok run lg = (if ok then (True, set_status run ''completed'' lg) else (False, lg))"

definition close_run :: "bool \<Rightarrow> string \<Rightarrow> ledger \<Rightarrow> close_error + bool \<times> ledger" where
  "close_run ok run lg = (case claim_close run lg of Inl e \<Rightarrow> Inl e | Inr lg' \<Rightarrow> Inr (finalise_run ok run lg'))"

section \<open>The denominator\<close>

definition collapsed_reasons :: "string list" where
  "collapsed_reasons = [''operator_infra_retry'', ''operator_regrade'']"

definition resolve_rate_denominator :: "string \<Rightarrow> ledger_table \<Rightarrow> nat" where
  "resolve_rate_denominator run t =
     length (remdups (map (\<lambda>x. (fst (snd (fst x)), attempt_of x))
       (filter (\<lambda>x. case lr_retry_reason (snd x) of None \<Rightarrow> True | Some why \<Rightarrow> why \<notin> set collapsed_reasons)
         (run_rows run t))))"

section \<open>The latest attempt is the latest\<close>

lemma latest_attempt_max:
  assumes "latest_attempt_row run inst t = Some y"
  shows "y \<in> set (instance_rows run inst t)" "z \<in> set (instance_rows run inst t) \<Longrightarrow> attempt_of z \<le> attempt_of y"
proof -
  note top = assms [unfolded latest_attempt_row_def]
  from top_row_mem [OF top] show "y \<in> set (instance_rows run inst t)" .
  assume "z \<in> set (instance_rows run inst t)"
  then show "attempt_of z \<le> attempt_of y"
    by (rule top_row_max [OF _ _ top, rotated 2]) (simp_all only: outranks_def, linarith+)
qed

text \<open>No row of the table is at an attempt that a plan names.\<close>

lemma next_attempt_new:
  assumes "latest_attempt_row run inst t = Some y"
  shows "map_of t (run, inst, attempt_of y + 1, phase) = None"
proof (rule ccontr)
  assume "map_of t (run, inst, attempt_of y + 1, phase) \<noteq> None"
  then obtain r where "((run, inst, attempt_of y + 1, phase), r) \<in> set t" by (meson map_of_SomeD not_Some_eq)
  then have "((run, inst, attempt_of y + 1, phase), r) \<in> set (instance_rows run inst t)"
    by (simp add: instance_rows_def run_rows_def)
  from latest_attempt_max(2) [OF assms this] show False by (simp add: attempt_of_def)
qed

section \<open>What the loop adds\<close>

lemma update_append: "map_of t k = None \<Longrightarrow> AList.update k v t = t @ [(k, v)]"
  by (induction t) (auto split: if_splits)

definition planned :: "'a plan \<Rightarrow> string list \<Rightarrow> (string \<times> int \<times> 'a) list" where
  "planned plan ids = map (\<lambda>i. (i, projr (plan i))) (filter (\<lambda>i. \<not> isl (plan i)) ids)"

definition refused :: "'a plan \<Rightarrow> string list \<Rightarrow> (string \<times> string) list" where
  "refused plan ids = map (\<lambda>i. (i, projl (plan i))) (filter (\<lambda>i. isl (plan i)) ids)"

definition new_rows ::
    "('a \<Rightarrow> string) \<Rightarrow> string \<Rightarrow> real \<Rightarrow> string \<Rightarrow> (string \<times> int \<times> 'a) list \<Rightarrow> ledger_table" where
  "new_rows reason phase now run added =
     map (\<lambda>(i, att, x). ((run, i, att, phase), seeded_row now (Some (reason x)))) added"

locale attempt_adder =
  fixes plan :: "string \<Rightarrow> ledger_table \<Rightarrow> 'a plan"
    and reason :: "'a \<Rightarrow> string"
    and phase :: string
  assumes plan_next: "plan run t i = Inr (att, x) \<Longrightarrow>
    \<exists>y. latest_attempt_row run i t = Some y \<and> att = attempt_of y + 1 \<and>
      state_of y \<notin> set all_non_terminal_states"
begin

lemma plan_new: "plan run t i = Inr (att, x) \<Longrightarrow> map_of t (run, i, att, phase) = None"
  using plan_next next_attempt_new by metis

lemma adds:
  assumes "distinct (filter (\<lambda>i. \<not> isl (plan run t0 i)) ids)"
    "\<And>i att x. i \<in> set ids \<Longrightarrow> plan run t0 i = Inr (att, x) \<Longrightarrow> map_of t (run, i, att, phase) = None"
  shows "add_attempts (plan run t0) reason phase now run ids t =
    Inr (planned (plan run t0) ids, refused (plan run t0) ids,
         t @ new_rows reason phase now run (planned (plan run t0) ids))"
  using assms
proof (induction ids arbitrary: t)
  case Nil
  then show ?case by (simp add: planned_def refused_def new_rows_def)
next
  case (Cons i ids)
  show ?case
  proof (cases "plan run t0 i")
    case (Inl why)
    with Cons show ?thesis by (simp add: planned_def refused_def)
  next
    case (Inr a)
    obtain att x where a: "a = (att, x)" by force
    let ?k = "(run, i, att, phase)"
    let ?t = "t @ [(?k, seeded_row now (Some (reason x)))]"
    have new: "map_of t ?k = None" using Cons.prems(2) [of i] Inr a by simp
    have rest: "map_of ?t (run, j, att', phase) = None"
      if "j \<in> set ids" "plan run t0 j = Inr (att', x')" for j att' x'
    proof -
      have "j \<noteq> i" using Cons.prems(1) Inr that by auto
      then show ?thesis using Cons.prems(2) [of j att' x'] that by (simp add: map_of_append map_add_def)
    qed
    have "distinct (filter (\<lambda>i. \<not> isl (plan run t0 i)) ids)"
      using Cons.prems(1) by (simp split: if_splits)
    note ih = Cons.IH [OF this rest, simplified]
    show ?thesis using new Inr a ih
      by (simp add: insert_pending_def update_append planned_def refused_def new_rows_def)
  qed
qed

lemma added_already:
  assumes "i \<in> set ids" "plan run t0 i = Inr (att, x)" "map_of t (run, i, att, phase) \<noteq> None"
  shows "add_attempts (plan run t0) reason phase now run ids t = Inl Unique_violation"
  using assms
proof (induction ids arbitrary: t)
  case (Cons j ids)
  show ?case
  proof (cases "plan run t0 j")
    case (Inl why)
    with Cons show ?thesis by auto
  next
    case (Inr a)
    obtain att' x' where a: "a = (att', x')" by force
    show ?thesis
    proof (cases "map_of t (run, j, att', phase)")
      case None
      then have "j \<noteq> i" using Cons.prems(2,3) Inr a by auto
      with Cons None Inr a show ?thesis by (auto simp: insert_pending_def)
    next
      case (Some r)
      with Inr a show ?thesis by (simp add: insert_pending_def)
    qed
  qed
qed simp

text \<open>An instance that is restartable and named twice makes the whole request fail.\<close>

lemma duplicate_fails:
  assumes "\<not> distinct (filter (\<lambda>i. \<not> isl (plan run t0 i)) ids)"
  shows "add_attempts (plan run t0) reason phase now run ids t = Inl Unique_violation"
  using assms
proof (induction ids arbitrary: t)
  case (Cons i ids)
  show ?case
  proof (cases "plan run t0 i")
    case (Inl why)
    with Cons show ?thesis by simp
  next
    case (Inr a)
    obtain att x where a: "a = (att, x)" by force
    show ?thesis
    proof (cases "i \<in> set ids")
      case True
      then show ?thesis using added_already [OF True, of run t0 att x] Inr a
        by (auto simp: insert_pending_def split: option.splits)
    next
      case False
      then show ?thesis using Cons Inr a by (auto simp: insert_pending_def split: option.splits)
    qed
  qed
qed simp

text \<open>The new rows do not touch an attempt of the instance that the table has.\<close>

lemma new_attempts:
  assumes "(i, att, x) \<in> set (planned (plan run t) ids)" "y \<in> set (run_rows run t)"
  shows "(i, att) \<noteq> (fst (snd (fst y)), attempt_of y)"
proof
  assume eq: "(i, att) = (fst (snd (fst y)), attempt_of y)"
  have "plan run t i = Inr (att, x)"
    using assms(1) by (auto simp: planned_def isl_def projr_def split: sum.splits)
  then obtain z where z: "latest_attempt_row run i t = Some z" "att = attempt_of z + 1"
    using plan_next by blast
  have "y \<in> set (instance_rows run i t)" using assms(2) eq by (simp add: instance_rows_def)
  from latest_attempt_max(2) [OF z(1) this] z(2) eq show False by simp
qed

end

lemma restart_planD:
  assumes "restart_plan run t i = Inr (att, x)"
  shows "\<exists>y. latest_attempt_row run i t = Some y \<and> att = attempt_of y + 1 \<and>
    state_of y \<notin> set all_non_terminal_states \<and> x = classify_restart (snd y)"
  using assms by (auto simp: restart_plan_def split: option.splits if_splits)

lemma regrade_planD:
  assumes "regrade_plan run t i = Inr (att, p)"
  shows "\<exists>y. latest_attempt_row run i t = Some y \<and> att = attempt_of y + 1 \<and>
    state_of y \<notin> set all_non_terminal_states \<and> latest_harness_patch run i t = Some p"
  using assms by (auto simp: regrade_plan_def split: option.splits if_splits)

interpretation rs: attempt_adder restart_plan "\<lambda>why. why" "''harness''"
  by unfold_locales (metis restart_planD)

interpretation rg: attempt_adder regrade_plan "\<lambda>p. ''operator_regrade''" "''eval''"
  by unfold_locales (metis regrade_planD)

section \<open>Restart\<close>

lemma planned_refused_split:
  "length (planned plan ids) + length (refused plan ids) = length ids"
  "fst ` set (planned plan ids) = {i \<in> set ids. \<not> isl (plan i)}"
  "fst ` set (refused plan ids) = {i \<in> set ids. isl (plan i)}"
  using sum_length_filter_compl [of "\<lambda>i. isl (plan i)" ids]
  by (auto simp: planned_def refused_def image_image)

lemma planned_mem: "(i, att, x) \<in> set (planned plan ids) \<Longrightarrow> i \<in> set ids \<and> plan i = Inr (att, x)"
  by (auto simp: planned_def isl_def projr_def split: sum.splits)

text \<open>The row that decides: of the latest attempt, and its eval row where it has one.\<close>

definition decides :: "row_key \<times> ledger_row \<Rightarrow> (row_key \<times> ledger_row) list \<Rightarrow> bool" where
  "decides y rows \<longleftrightarrow> y \<in> set rows \<and> (\<forall>z \<in> set rows. attempt_of z \<le> attempt_of y) \<and>
     (phase_of y = ''eval'' \<or> (\<forall>z \<in> set rows. attempt_of z = attempt_of y \<longrightarrow> phase_of z \<noteq> ''eval''))"

lemma latest_attempt_decides:
  assumes "latest_attempt_row run inst t = Some y"
  shows "decides y (instance_rows run inst t)"
proof -
  note top = assms [unfolded latest_attempt_row_def]
  define f where "f x = 2 * attempt_of x + (if phase_of x = ''eval'' then 1 else 0)" for x
  have "f z \<le> f y" if "z \<in> set (instance_rows run inst t)" for z
    using top that by (rule top_row_max [of outranks, rotated 2]) (auto simp: outranks_def f_def)
  then have "attempt_of z \<le> attempt_of y \<and> (attempt_of z = attempt_of y \<longrightarrow> phase_of z = ''eval'' \<longrightarrow> phase_of y = ''eval'')"
    if "z \<in> set (instance_rows run inst t)" for z
    using that by (fastforce simp: f_def split: if_splits)
  with latest_attempt_max(1) [OF assms] show ?thesis by (auto simp: decides_def)
qed

lemma latest_attempt_none: "latest_attempt_row run inst t = None \<longleftrightarrow> instance_rows run inst t = []"
  by (cases "instance_rows run inst t") (simp_all add: latest_attempt_row_def)

lemma planned_iff: "i \<in> set ids \<Longrightarrow> plan i = Inr (att, x) \<Longrightarrow>
    (i, att, x) \<in> set (planned plan ids) \<and> i \<notin> fst ` set (refused plan ids)"
  by (force simp: planned_def refused_def)

lemma refused_iff: "i \<in> set ids \<Longrightarrow> plan i = Inl why \<Longrightarrow>
    (i, why) \<in> set (refused plan ids) \<and> i \<notin> fst ` set (planned plan ids)"
  by (force simp: planned_def refused_def)

text \<open>
  C17: A restart of an open run that names no instance twice succeeds, and does with each instance what its
  rows demand. An instance without a row is skipped as unknown. Otherwise the row that decides is that
  of the latest attempt, its eval row before its harness row: while it is in flight the instance is
  skipped as such; else it is restarted at the next attempt, for the reason the row's category gives.
  Nothing else is reported, each instance once, no row of the ledger changes, and one pending harness
  row is added for each restarted instance.
\<close>

theorem restart_adds_next_attempts:
  assumes "open_for_attempts run ids lg = None" "distinct ids"
  shows "\<exists>added skipped. restart_instances now run ids lg =
      Inr (added, skipped, lg\<lparr>lg_table := lg_table lg @ new_rows (\<lambda>why. why) ''harness'' now run added\<rparr>) \<and>
    length added + length skipped = length ids \<and> fst ` set added \<union> fst ` set skipped = set ids \<and>
    (\<forall>i \<in> set ids. instance_rows run i (lg_table lg) = [] \<longrightarrow>
       (i, ''unknown instance'') \<in> set skipped \<and> i \<notin> fst ` set added) \<and>
    (\<forall>i \<in> set ids. instance_rows run i (lg_table lg) \<noteq> [] \<longrightarrow>
       (\<exists>y. decides y (instance_rows run i (lg_table lg)) \<and>
          (if state_of y \<in> set all_non_terminal_states
           then (i, ''attempt still in flight'') \<in> set skipped \<and> i \<notin> fst ` set added
           else (i, attempt_of y + 1, classify_restart (snd y)) \<in> set added \<and> i \<notin> fst ` set skipped)))"
proof -
  let ?P = "restart_plan run (lg_table lg)"
  have "add_attempts ?P (\<lambda>why. why) ''harness'' now run ids (lg_table lg) =
      Inr (planned ?P ids, refused ?P ids, lg_table lg @ new_rows (\<lambda>why. why) ''harness'' now run (planned ?P ids))"
    by (rule rs.adds) (use assms rs.plan_new in auto)
  then have eq: "restart_instances now run ids lg =
      Inr (planned ?P ids, refused ?P ids,
        lg\<lparr>lg_table := lg_table lg @ new_rows (\<lambda>why. why) ''harness'' now run (planned ?P ids)\<rparr>)"
    using assms(1) by (simp add: restart_instances_def)
  have all: "fst ` set (planned ?P ids) \<union> fst ` set (refused ?P ids) = set ids"
    unfolding planned_refused_split by blast
  have unknown: "(i, ''unknown instance'') \<in> set (refused ?P ids) \<and> i \<notin> fst ` set (planned ?P ids)"
    if "i \<in> set ids" "instance_rows run i (lg_table lg) = []" for i
    using that latest_attempt_none [of run i "lg_table lg"] by (intro refused_iff) (simp_all add: restart_plan_def)
  have known: "\<exists>y. decides y (instance_rows run i (lg_table lg)) \<and>
      (if state_of y \<in> set all_non_terminal_states
       then (i, ''attempt still in flight'') \<in> set (refused ?P ids) \<and> i \<notin> fst ` set (planned ?P ids)
       else (i, attempt_of y + 1, classify_restart (snd y)) \<in> set (planned ?P ids) \<and> i \<notin> fst ` set (refused ?P ids))"
    if i: "i \<in> set ids" and some: "instance_rows run i (lg_table lg) \<noteq> []" for i
  proof -
    obtain y where y: "latest_attempt_row run i (lg_table lg) = Some y"
      using some latest_attempt_none by (metis option.exhaust)
    show ?thesis
      using latest_attempt_decides [OF y] refused_iff [OF i, of ?P] planned_iff [OF i, of ?P]
      by (intro exI [of _ y]) (simp add: restart_plan_def y)
  qed
  show ?thesis using eq planned_refused_split(1) [of ?P ids] all unknown known by blast
qed

text \<open>
  A restart fails as a whole, on the primary key, exactly when the request names an instance
  twice that can be restarted.
\<close>

theorem restart_fails_on_duplicates:
  assumes "open_for_attempts run ids lg = None"
  shows "restart_instances now run ids lg = Inl Unique_violation \<longleftrightarrow>
    \<not> distinct (filter (\<lambda>i. \<not> isl (restart_plan run (lg_table lg) i)) ids)"
proof (cases "distinct (filter (\<lambda>i. \<not> isl (restart_plan run (lg_table lg) i)) ids)")
  case True
  have "add_attempts (restart_plan run (lg_table lg)) (\<lambda>why. why) ''harness'' now run ids (lg_table lg) =
      Inr (planned (restart_plan run (lg_table lg)) ids, refused (restart_plan run (lg_table lg)) ids,
        lg_table lg @ new_rows (\<lambda>why. why) ''harness'' now run (planned (restart_plan run (lg_table lg)) ids))"
    by (rule rs.adds [OF True]) (rule rs.plan_new)
  with True assms show ?thesis by (simp add: restart_instances_def)
next
  case False
  from rs.duplicate_fails [OF False] False assms show ?thesis by (simp add: restart_instances_def)
qed

section \<open>Close against restart and regrade\<close>

text \<open>The outcome of both actions, as far as the ledger goes.\<close>

lemma restart_cases:
  assumes "restart_instances now run ids lg = Inr (added, skipped, lg')"
  shows "open_for_attempts run ids lg = None" "added = planned (restart_plan run (lg_table lg)) ids"
    "lg' = lg\<lparr>lg_table := lg_table lg @ new_rows (\<lambda>why. why) ''harness'' now run added\<rparr>"
proof -
  let ?P = "restart_plan run (lg_table lg)"
  show o: "open_for_attempts run ids lg = None"
    using assms by (auto simp: restart_instances_def split: option.splits)
  then have d: "distinct (filter (\<lambda>i. \<not> isl (?P i)) ids)"
    using restart_fails_on_duplicates [OF o, of now] assms by (metis Inl_Inr_False)
  note eq = rs.adds [OF d rs.plan_new]
  with assms o show "added = planned ?P ids" by (auto simp: restart_instances_def)
  with assms o eq show "lg' = lg\<lparr>lg_table := lg_table lg @ new_rows (\<lambda>why. why) ''harness'' now run added\<rparr>"
    by (auto simp: restart_instances_def)
qed

lemma regrade_cases:
  assumes "regrade_instances now run ids lg = Inr (added, skipped, lg')"
  shows "open_for_attempts run ids lg = None" "added = planned (regrade_plan run (lg_table lg)) ids"
    "lg' = lg\<lparr>lg_table := lg_table lg @ new_rows (\<lambda>p. ''operator_regrade'') ''eval'' now run added\<rparr>"
proof -
  let ?P = "regrade_plan run (lg_table lg)"
  show o: "open_for_attempts run ids lg = None"
    using assms by (auto simp: regrade_instances_def split: option.splits)
  have d: "distinct (filter (\<lambda>i. \<not> isl (?P i)) ids)"
  proof (rule ccontr)
    assume "\<not> distinct (filter (\<lambda>i. \<not> isl (?P i)) ids)"
    from rg.duplicate_fails [OF this] assms o show False by (simp add: regrade_instances_def)
  qed
  note eq = rg.adds [OF d rg.plan_new]
  with assms o show "added = planned ?P ids" by (auto simp: regrade_instances_def)
  with assms o eq show "lg' = lg\<lparr>lg_table := lg_table lg @ new_rows (\<lambda>p. ''operator_regrade'') ''eval'' now run added\<rparr>"
    by (auto simp: regrade_instances_def)
qed

lemma claim_closed:
  assumes "claim_close run lg = Inr lg'"
  shows "map_of (lg_runs lg') run = Some ''finalising'' \<and> lg_table lg' = lg_table lg \<and>
    fst (non_terminal_row_counts run (lg_table lg)) = 0"
  using assms by (auto simp: claim_close_def split: option.splits if_splits)

lemma open_refused:
  "ids \<noteq> [] \<Longrightarrow> map_of (lg_runs lg) run = Some ''finalising'' \<Longrightarrow>
   open_for_attempts run ids lg = Some Run_closed"
  by (simp add: open_for_attempts_def is_run_closed_def already_final_run_statuses_def)

lemma new_row_open:
  assumes "added \<noteq> []"
  shows "0 < fst (non_terminal_row_counts run (t @ new_rows reason phase now run added))"
  using assms by (cases added)
    (auto simp: non_terminal_row_counts_def count_rows_def run_rows_def new_rows_def state_of_def
      seeded_row_def all_non_terminal_states_def split: prod.splits)

lemma claim_refused:
  assumes "open_for_attempts run ids lg = None" "lg_runs lg' = lg_runs lg"
    "0 < fst (non_terminal_row_counts run (lg_table lg'))"
  shows "claim_close run lg' \<in> {Inl Not_open_for_close, Inl Still_in_flight}"
  using assms by (auto simp: claim_close_def open_for_attempts_def split: option.splits if_splits)

text \<open>
  C18: Close and restart exclude each other. A close that takes effect finds no open row and from
  then on every restart and regrade of the run is refused; a restart or regrade that adds an
  attempt makes every close fail while that attempt is open.
\<close>

theorem close_excludes_new_attempts:
  assumes "ids \<noteq> []"
  shows "(claim_close run lg = Inr lg' \<longrightarrow>
      fst (non_terminal_row_counts run (lg_table lg')) = 0 \<and>
      restart_instances now run ids lg' = Inl Run_closed \<and> regrade_instances now run ids lg' = Inl Run_closed) \<and>
    (restart_instances now run ids lg = Inr (added, skipped, lg') \<and> added \<noteq> [] \<longrightarrow>
      claim_close run lg' \<in> {Inl Not_open_for_close, Inl Still_in_flight}) \<and>
    (regrade_instances now run ids lg = Inr (added, skipped, lg') \<and> added \<noteq> [] \<longrightarrow>
      claim_close run lg' \<in> {Inl Not_open_for_close, Inl Still_in_flight})"
proof (intro conjI impI)
  assume "claim_close run lg = Inr lg'"
  from claim_closed [OF this] open_refused [OF assms]
  show "fst (non_terminal_row_counts run (lg_table lg')) = 0"
    "restart_instances now run ids lg' = Inl Run_closed" "regrade_instances now run ids lg' = Inl Run_closed"
    by (simp_all add: restart_instances_def regrade_instances_def)
next
  assume h: "restart_instances now run ids lg = Inr (added, skipped, lg') \<and> added \<noteq> []"
  then have "lg_runs lg' = lg_runs lg" "0 < fst (non_terminal_row_counts run (lg_table lg'))"
    using restart_cases(3) [OF conjunct1 [OF h]] h by (simp_all add: new_row_open)
  with h restart_cases(1) show "claim_close run lg' \<in> {Inl Not_open_for_close, Inl Still_in_flight}"
    using claim_refused by blast
next
  assume h: "regrade_instances now run ids lg = Inr (added, skipped, lg') \<and> added \<noteq> []"
  then have "lg_runs lg' = lg_runs lg" "0 < fst (non_terminal_row_counts run (lg_table lg'))"
    using regrade_cases(3) [OF conjunct1 [OF h]] h by (simp_all add: new_row_open)
  with h regrade_cases(1) show "claim_close run lg' \<in> {Inl Not_open_for_close, Inl Still_in_flight}"
    using claim_refused by blast
qed

section \<open>What the counts make of it\<close>

definition counted :: "string \<Rightarrow> ledger_table \<Rightarrow> (string \<times> int) list" where
  "counted run t = map (\<lambda>x. (fst (snd (fst x)), attempt_of x))
     (filter (\<lambda>x. case lr_retry_reason (snd x) of None \<Rightarrow> True | Some why \<Rightarrow> why \<notin> set collapsed_reasons) (run_rows run t))"

lemma denominator_card: "resolve_rate_denominator run t = card (set (counted run t))"
  by (simp add: resolve_rate_denominator_def counted_def length_remdups_card_conv)

lemma run_rows_new:
  "run_rows run (t @ new_rows reason phase now run added) = run_rows run t @ new_rows reason phase now run added"
  by (auto simp: run_rows_def new_rows_def intro!: filter_True)

lemma counted_new:
  "counted run (t @ new_rows reason phase now run added) =
     counted run t @ map (\<lambda>(i, att, x). (i, att)) (filter (\<lambda>(i, att, x). reason x \<notin> set collapsed_reasons) added)"
proof -
  have "map (\<lambda>x. (fst (snd (fst x)), attempt_of x))
      (filter (\<lambda>x. case lr_retry_reason (snd x) of None \<Rightarrow> True | Some why \<Rightarrow> why \<notin> set collapsed_reasons)
        (new_rows reason phase now run added)) =
    map (\<lambda>(i, att, x). (i, att)) (filter (\<lambda>(i, att, x). reason x \<notin> set collapsed_reasons) added)"
    by (induction added) (auto simp: new_rows_def seeded_row_def attempt_of_def)
  then show ?thesis unfolding counted_def run_rows_new filter_append map_append by simp
qed

lemma planned_distinct:
  assumes "distinct (filter (\<lambda>i. \<not> isl (plan i)) ids)"
  shows "distinct (map (\<lambda>(i, att, x). (i, att)) (planned plan ids))"
proof -
  have "map fst (map (\<lambda>(i, att, x). (i, att)) (planned plan ids)) = filter (\<lambda>i. \<not> isl (plan i)) ids"
    by (simp add: planned_def split_beta comp_def)
  with assms show ?thesis by (metis distinct_map)
qed

context attempt_adder begin

lemma denominator_adds:
  assumes "added = planned (plan run t) ids" "distinct (filter (\<lambda>i. \<not> isl (plan run t i)) ids)"
  shows "resolve_rate_denominator run (t @ new_rows reason phase now run added) =
    resolve_rate_denominator run t + length (filter (\<lambda>(i, att, x). reason x \<notin> set collapsed_reasons) added)"
proof -
  let ?new = "map (\<lambda>(i, att, x). (i, att)) (filter (\<lambda>(i, att, x). reason x \<notin> set collapsed_reasons) added)"
  have "distinct ?new"
    using planned_distinct [OF assms(2)] unfolding assms(1) by (auto simp: distinct_map inj_on_def)
  moreover have "set (counted run t) \<inter> set ?new = {}"
  proof -
    have "k \<notin> set ?new" if "k \<in> set (counted run t)" for k
      using that new_attempts [of _ _ _ run t ids] unfolding assms(1) counted_def by fastforce
    then show ?thesis by blast
  qed
  ultimately show ?thesis
    unfolding denominator_card counted_new
    by (simp add: card_Un_disjoint distinct_card del: set_map)
qed

end

lemma expected_adds:
  "rs_expected (run_summary_of run (t @ new_rows reason phase now run added)) =
     rs_expected (run_summary_of run t) + (if phase = ''harness'' then length added else 0)"
proof -
  have "filter (\<lambda>x. phase_of x = ''harness'') (new_rows reason phase now run added) =
      (if phase = ''harness'' then new_rows reason phase now run added else [])"
    by (auto simp: new_rows_def phase_of_def filter_empty_conv intro!: filter_True)
  then show ?thesis
    by (simp add: run_summary_of_def Let_def count_rows_def run_rows_new) (simp add: new_rows_def)
qed

lemma classify_cases: "classify_restart r \<in> {''operator_rerun_pass_at_k'', ''operator_infra_retry''}"
  by (simp add: classify_restart_def split: option.splits colval.splits)

text \<open>
  A restart raises the run summary's expected count by every attempt it adds, although only
  the restarts of a legitimate result count as trials: the resolve-rate denominator of the API
  grows by those alone.
\<close>

theorem restart_moves_both_counts:
  assumes "restart_instances now run ids lg = Inr (added, skipped, lg')"
  shows "rs_expected (run_summary_of run (lg_table lg')) = rs_expected (run_summary_of run (lg_table lg)) + length added \<and>
    resolve_rate_denominator run (lg_table lg') = resolve_rate_denominator run (lg_table lg) +
      length (filter (\<lambda>(i, att, why). why = ''operator_rerun_pass_at_k'') added)"
proof -
  note c = restart_cases [OF assms]
  have d: "distinct (filter (\<lambda>i. \<not> isl (restart_plan run (lg_table lg) i)) ids)"
    using restart_fails_on_duplicates [OF c(1), of now] assms by auto
  have "filter (\<lambda>(i, att, why). why \<notin> set collapsed_reasons) added =
      filter (\<lambda>(i, att, why). why = ''operator_rerun_pass_at_k'') added"
  proof (rule filter_cong [OF refl])
    fix x assume "x \<in> set added"
    moreover obtain i att why where x: "x = (i, att, why)" using prod_cases3 by blast
    ultimately have "restart_plan run (lg_table lg) i = Inr (att, why)"
      using planned_mem [of i att why] c(2) by simp
    from restart_planD [OF this] obtain r where "why = classify_restart r" by blast
    with classify_cases [of r] have "why \<in> {''operator_rerun_pass_at_k'', ''operator_infra_retry''}" by simp
    then show "(case x of (i, att, why) \<Rightarrow> why \<notin> set collapsed_reasons) =
        (case x of (i, att, why) \<Rightarrow> why = ''operator_rerun_pass_at_k'')"
      by (auto simp: x collapsed_reasons_def)
  qed
  then show ?thesis
    using rs.denominator_adds [OF c(2) d] by (simp add: c(3) expected_adds)
qed

text \<open>
  A regrade grades a patch the run already has: each job it sends names the attempt after the
  instance's latest and the patch of the instance's newest harness attempt that has one; no row
  changes, and neither the summary's expected count nor the denominator does.
\<close>

theorem regrade_grades_what_exists:
  assumes "regrade_instances now run ids lg = Inr (added, skipped, lg')"
  shows "(\<forall>j \<in> set (dispatch_regraded run added). \<exists>x \<in> set (instance_rows run (ej_instance_id j) (lg_table lg)).
      phase_of x = ''harness'' \<and> patch_of x = ej_patch_s3_key j \<and> ej_patch_s3_key j \<noteq> [] \<and> attempt_of x < ej_attempt j \<and>
      (\<forall>y \<in> set (instance_rows run (ej_instance_id j) (lg_table lg)). attempt_of y < ej_attempt j \<and>
         (phase_of y = ''harness'' \<and> patch_of y \<noteq> [] \<longrightarrow> attempt_of y \<le> attempt_of x))) \<and>
    (\<exists>rows. lg_table lg' = lg_table lg @ rows) \<and>
    rs_expected (run_summary_of run (lg_table lg')) = rs_expected (run_summary_of run (lg_table lg)) \<and>
    resolve_rate_denominator run (lg_table lg') = resolve_rate_denominator run (lg_table lg)"
proof -
  note c = regrade_cases [OF assms]
  have job: "\<exists>x \<in> set (instance_rows run i (lg_table lg)).
      phase_of x = ''harness'' \<and> patch_of x = p \<and> p \<noteq> [] \<and> attempt_of x < att \<and>
      (\<forall>y \<in> set (instance_rows run i (lg_table lg)). attempt_of y < att \<and>
         (phase_of y = ''harness'' \<and> patch_of y \<noteq> [] \<longrightarrow> attempt_of y \<le> attempt_of x))"
    if "(i, att, p) \<in> set added" for i att p
  proof -
    from that have "regrade_plan run (lg_table lg) i = Inr (att, p)"
      using planned_mem [of i att p] c(2) by simp
    from regrade_planD [OF this] obtain y where y: "latest_attempt_row run i (lg_table lg) = Some y" "att = attempt_of y + 1"
      "latest_harness_patch run i (lg_table lg) = Some p"
      by (elim exE conjE)
    let ?rows = "filter (\<lambda>x. phase_of x = ''harness'' \<and> patch_of x \<noteq> []) (instance_rows run i (lg_table lg))"
    obtain x where x: "top_row (\<lambda>y x. attempt_of x < attempt_of y) ?rows = Some x" "p = patch_of x"
      using y(3) by (auto simp: latest_harness_patch_def)
    have "x \<in> set ?rows" by (rule top_row_mem [OF x(1)])
    moreover have "z \<in> set ?rows \<Longrightarrow> attempt_of z \<le> attempt_of x" for z
      by (rule top_row_max [OF _ _ x(1)]) simp_all
    ultimately show ?thesis
    proof (intro bexI [of _ x] conjI ballI impI)
      have all: "attempt_of z < att" if "z \<in> set (instance_rows run i (lg_table lg))" for z
        using latest_attempt_max(2) [OF y(1) that] y(2) by simp
      from \<open>x \<in> set ?rows\<close> show xs: "x \<in> set (instance_rows run i (lg_table lg))" by simp
      show "attempt_of x < att" by (rule all [OF xs])
      show "attempt_of z < att" if "z \<in> set (instance_rows run i (lg_table lg))" for z by (rule all [OF that])
    qed (use x(2) in simp_all)
  qed
  have d: "distinct (filter (\<lambda>i. \<not> isl (regrade_plan run (lg_table lg) i)) ids)"
  proof (rule ccontr)
    assume "\<not> distinct (filter (\<lambda>i. \<not> isl (regrade_plan run (lg_table lg) i)) ids)"
    from rg.duplicate_fails [OF this] assms c(1) show False by (simp add: regrade_instances_def)
  qed
  have jobs: "\<forall>j \<in> set (dispatch_regraded run added). (ej_instance_id j, ej_attempt j, ej_patch_s3_key j) \<in> set added"
    by (auto simp: dispatch_regraded_def)
  show ?thesis
  proof (intro conjI ballI)
    fix j assume "j \<in> set (dispatch_regraded run added)"
    with jobs job show "\<exists>x \<in> set (instance_rows run (ej_instance_id j) (lg_table lg)).
      phase_of x = ''harness'' \<and> patch_of x = ej_patch_s3_key j \<and> ej_patch_s3_key j \<noteq> [] \<and> attempt_of x < ej_attempt j \<and>
      (\<forall>y \<in> set (instance_rows run (ej_instance_id j) (lg_table lg)). attempt_of y < ej_attempt j \<and>
         (phase_of y = ''harness'' \<and> patch_of y \<noteq> [] \<longrightarrow> attempt_of y \<le> attempt_of x))" by blast
  next
    show "\<exists>rows. lg_table lg' = lg_table lg @ rows" by (simp add: c(3))
  next
    show "rs_expected (run_summary_of run (lg_table lg')) = rs_expected (run_summary_of run (lg_table lg))"
      by (simp add: c(3) expected_adds)
  next
    show "resolve_rate_denominator run (lg_table lg') = resolve_rate_denominator run (lg_table lg)"
      using rg.denominator_adds [OF c(2) d] by (simp add: c(3) collapsed_reasons_def)
  qed
qed

section \<open>Examples\<close>

definition graded_row :: ledger_row where
  "graded_row = (seeded_row 0 None)\<lparr>lr_state := ''PATCH_READY'',
     lr_evidence := (\<lambda>c. if c = ''patch_path'' then Some (C_text ''p'') else None)\<rparr>"

definition graded_ledger :: ledger where
  "graded_ledger = demo_ledger\<lparr>lg_table := [((''r'', ''i'', 1, ''harness''), graded_row)]\<rparr>"

lemma graded_simps [simp]:
  "lr_state graded_row = ''PATCH_READY''" "classify_restart graded_row = ''operator_infra_retry''"
  "patch_of (k, graded_row) = ''p''"
  "map_of (lg_runs graded_ledger) ''r'' = Some ''running''"
  "lg_table graded_ledger = [((''r'', ''i'', 1, ''harness''), graded_row)]"
  by (simp_all add: graded_row_def classify_restart_def patch_of_def graded_ledger_def demo_ledger_def)

lemma graded_instance:
  "instance_rows ''r'' ''i'' (lg_table graded_ledger) = [((''r'', ''i'', 1, ''harness''), graded_row)]"
  by (simp add: instance_rows_def run_rows_def)

lemma graded_plans:
  "restart_plan ''r'' (lg_table graded_ledger) ''i'' = Inr (2, ''operator_infra_retry'')"
  "regrade_plan ''r'' (lg_table graded_ledger) ''i'' = Inr (2, ''p'')"
  using graded_instance
  by (simp_all add: restart_plan_def regrade_plan_def latest_attempt_row_def latest_harness_patch_def
      state_of_def attempt_of_def phase_of_def all_non_terminal_states_def)

lemma graded_open: "open_for_attempts ''r'' (x # xs) graded_ledger = None"
  by (simp add: open_for_attempts_def is_run_closed_def already_final_run_statuses_def)

lemma graded_success:
  "restart_instances 5 ''r'' [''i''] graded_ledger = Inr ([(''i'', 2, ''operator_infra_retry'')], [],
     graded_ledger\<lparr>lg_table := lg_table graded_ledger @ [((''r'', ''i'', 2, ''harness''), seeded_row 5 (Some ''operator_infra_retry''))]\<rparr>)"
  "regrade_instances 5 ''r'' [''i''] graded_ledger = Inr ([(''i'', 2, ''p'')], [],
     graded_ledger\<lparr>lg_table := lg_table graded_ledger @ [((''r'', ''i'', 2, ''eval''), seeded_row 5 (Some ''operator_regrade''))]\<rparr>)"
  using graded_plans by (simp_all add: restart_instances_def regrade_instances_def graded_open insert_pending_def)

theorem restart_adds_next_attempts_witness:
  "\<exists>added skipped. restart_instances 5 ''r'' [''i'', ''j''] graded_ledger =
     Inr (added, skipped, graded_ledger\<lparr>lg_table := lg_table graded_ledger @ new_rows (\<lambda>why. why) ''harness'' 5 ''r'' added\<rparr>) \<and>
     (''j'', ''unknown instance'') \<in> set skipped"
proof -
  have "instance_rows ''r'' ''j'' (lg_table graded_ledger) = []" by (simp add: instance_rows_def run_rows_def)
  with restart_adds_next_attempts [OF graded_open [of "''i''" "[''j'']"], of 5] show ?thesis by fastforce
qed

theorem restart_fails_on_duplicates_witness:
  "restart_instances 5 ''r'' [''i'', ''i''] graded_ledger = Inl Unique_violation"
  using restart_fails_on_duplicates [OF graded_open [of "''i''" "[''i'']"], of 5] graded_plans by simp

theorem close_excludes_new_attempts_witness:
  "\<exists>lg'. claim_close ''r'' graded_ledger = Inr lg' \<and> restart_instances 5 ''r'' [''i''] lg' = Inl Run_closed"
proof -
  have "claim_close ''r'' graded_ledger = Inr (set_status ''r'' ''finalising'' graded_ledger)"
    by (simp add: claim_close_def non_terminal_row_counts_def count_rows_def run_rows_def state_of_def all_non_terminal_states_def)
  with close_excludes_new_attempts [of "[''i'']"] show ?thesis by blast
qed

theorem restart_moves_both_counts_witness:
  "rs_expected (run_summary_of ''r'' (lg_table graded_ledger @
     [((''r'', ''i'', 2, ''harness''), seeded_row 5 (Some ''operator_infra_retry''))])) =
   rs_expected (run_summary_of ''r'' (lg_table graded_ledger)) + 1"
  using restart_moves_both_counts [OF graded_success(1)] by simp

theorem regrade_grades_what_exists_witness:
  "\<exists>x \<in> set (instance_rows ''r'' ''i'' (lg_table graded_ledger)). patch_of x = ''p''"
  using regrade_grades_what_exists [OF graded_success(2)] by (simp add: dispatch_regraded_def) blast

end
