(* ===== verification/Gateway_Pause.thy ===== *)
theory Gateway_Pause
  imports Taxonomy
begin

text \<open>
  \<open>swebench_eval/orchestrator/control_plane/gateway_pause.py\<close>: pausing a run by blocking its
  gateway key, by an operator for one run or by a sweep over all active runs. The state is the
  columns of \<open>runs\<close> that the module reads and the calls made to the gateway so far; a key is
  blocked when its last call blocked it. A call that raises rolls the transaction back, but not the
  calls before it.
\<close>

section \<open>State\<close>

record gw_run =
  gr_run :: string
  gr_status :: string
  gr_key :: "string option"
  gr_marker :: "string option"

datatype gw_call = Block string | Unblock string

record gw_state =
  gs_runs :: "gw_run list"
  gs_calls :: "gw_call list"

fun call_key :: "gw_call \<Rightarrow> string" where
  "call_key (Block k) = k"
| "call_key (Unblock k) = k"

definition key_blocked :: "string \<Rightarrow> gw_call list \<Rightarrow> bool" where
  "key_blocked k calls =
     (case filter (\<lambda>c. call_key c = k) (rev calls) of [] \<Rightarrow> False | c # cs \<Rightarrow> c = Block k)"

text \<open>A key that is NULL or empty is no key.\<close>

definition run_key :: "gw_run \<Rightarrow> string option" where
  "run_key r = (case gr_key r of None \<Rightarrow> None | Some k \<Rightarrow> if k = [] then None else Some k)"

definition set_marker :: "string \<Rightarrow> string option \<Rightarrow> gw_run list \<Rightarrow> gw_run list" where
  "set_marker run mark rs = map (\<lambda>r. if gr_run r = run then r\<lparr>gr_marker := mark\<rparr> else r) rs"

definition find_run :: "string \<Rightarrow> gw_run list \<Rightarrow> gw_run option" where
  "find_run run rs = find (\<lambda>r. gr_run r = run) rs"

datatype gw_error = Gw_no_such_run | Gw_closed | Gw_call_failed

section \<open>One run\<close>

text \<open>\<open>ok\<close> says of a key whether the gateway takes the call.\<close>

definition gateway_action ::
    "(string \<Rightarrow> gw_call) \<Rightarrow> string option \<Rightarrow> (string \<Rightarrow> bool) \<Rightarrow> string \<Rightarrow> gw_state \<Rightarrow> gw_error option \<times> gw_state" where
  "gateway_action act mark ok run s =
     (case find_run run (gs_runs s) of
        None \<Rightarrow> (Some Gw_no_such_run, s)
      | Some r \<Rightarrow>
          if is_run_closed (gr_status r) then (Some Gw_closed, s)
          else (case run_key r of
                  None \<Rightarrow> (None, s\<lparr>gs_runs := set_marker run mark (gs_runs s)\<rparr>)
                | Some k \<Rightarrow>
                    if \<not> ok k then (Some Gw_call_failed, s)
                    else (None, \<lparr>gs_runs = set_marker run mark (gs_runs s), gs_calls = gs_calls s @ [act k]\<rparr>)))"

definition pause_gateway :: "(string \<Rightarrow> bool) \<Rightarrow> string \<Rightarrow> gw_state \<Rightarrow> gw_error option \<times> gw_state" where
  "pause_gateway = gateway_action Block (Some ''operator'')"

definition resume_gateway :: "(string \<Rightarrow> bool) \<Rightarrow> string \<Rightarrow> gw_state \<Rightarrow> gw_error option \<times> gw_state" where
  "resume_gateway = gateway_action Unblock None"

section \<open>All runs\<close>

definition sweep_statuses :: "string list" where
  "sweep_statuses = [''provisioning'', ''seeding'', ''dispatching'', ''running'']"

text \<open>
  The loop of a sweep over the selected rows: the count, the calls, and the runs whose marker is
  set, up to the first call that raises.
\<close>

fun pause_loop :: "(string \<Rightarrow> bool) \<Rightarrow> gw_run list \<Rightarrow> bool \<times> gw_call list \<times> string list" where
  "pause_loop ok [] = (True, [], [])"
| "pause_loop ok (r # rs) =
     (case run_key r of
        None \<Rightarrow> pause_loop ok rs
      | Some k \<Rightarrow>
          if \<not> ok k then (False, [], [])
          else (let (fine, calls, marked) = pause_loop ok rs in (fine, Block k # calls, gr_run r # marked)))"

fun resume_loop :: "(string \<Rightarrow> bool) \<Rightarrow> gw_run list \<Rightarrow> bool \<times> gw_call list \<times> string list" where
  "resume_loop ok [] = (True, [], [])"
| "resume_loop ok (r # rs) =
     (case run_key r of
        None \<Rightarrow> (let (fine, calls, marked) = resume_loop ok rs in (fine, calls, gr_run r # marked))
      | Some k \<Rightarrow>
          if \<not> ok k then (False, [], [])
          else (let (fine, calls, marked) = resume_loop ok rs in (fine, Unblock k # calls, gr_run r # marked)))"

definition finish_sweep :: "string option \<Rightarrow> bool \<times> gw_call list \<times> string list \<Rightarrow> gw_state \<Rightarrow> nat option \<times> gw_state" where
  "finish_sweep mark out s =
     (case out of (fine, calls, marked) \<Rightarrow>
        if fine then (Some (length marked),
          \<lparr>gs_runs = fold (\<lambda>run. set_marker run mark) marked (gs_runs s), gs_calls = gs_calls s @ calls\<rparr>)
        else (None, s\<lparr>gs_calls := gs_calls s @ calls\<rparr>))"

definition sweep_global_pause :: "(string \<Rightarrow> bool) \<Rightarrow> gw_state \<Rightarrow> nat option \<times> gw_state" where
  "sweep_global_pause ok s =
     finish_sweep (Some ''global'')
       (pause_loop ok (filter (\<lambda>r. gr_status r \<in> set sweep_statuses \<and> gr_marker r = None) (gs_runs s))) s"

definition sweep_global_resume :: "(string \<Rightarrow> bool) \<Rightarrow> gw_state \<Rightarrow> nat option \<times> gw_state" where
  "sweep_global_resume ok s =
     finish_sweep None (resume_loop ok (filter (\<lambda>r. gr_marker r = Some ''global'') (gs_runs s))) s"

text \<open>\<open>None\<close> where the call raises.\<close>

definition block_if_globally_paused ::
    "(string \<Rightarrow> bool) \<Rightarrow> bool \<Rightarrow> string \<Rightarrow> string option \<Rightarrow> gw_state \<Rightarrow> bool option \<times> gw_state" where
  "block_if_globally_paused ok paused run key s =
     (case key of
        None \<Rightarrow> (Some False, s)
      | Some k \<Rightarrow>
          if k = [] \<or> \<not> paused then (Some False, s)
          else if \<not> ok k then (None, s)
          else (Some True,
            \<lparr>gs_runs = map (\<lambda>r. if gr_run r = run \<and> gr_marker r = None then r\<lparr>gr_marker := Some ''global''\<rparr> else r) (gs_runs s),
             gs_calls = gs_calls s @ [Block k]\<rparr>))"

section \<open>Sequences of actions\<close>

datatype gw_step =
    Op_pause string | Op_resume string | Global_pause | Global_resume | Launch_check bool string "string option"

fun gw_run_step :: "(string \<Rightarrow> bool) \<times> gw_step \<Rightarrow> gw_state \<Rightarrow> gw_state" where
  "gw_run_step (ok, Op_pause run) s = snd (pause_gateway ok run s)"
| "gw_run_step (ok, Op_resume run) s = snd (resume_gateway ok run s)"
| "gw_run_step (ok, Global_pause) s = snd (sweep_global_pause ok s)"
| "gw_run_step (ok, Global_resume) s = snd (sweep_global_resume ok s)"
| "gw_run_step (ok, Launch_check paused run key) s = snd (block_if_globally_paused ok paused run key s)"

definition gw_steps :: "((string \<Rightarrow> bool) \<times> gw_step) list \<Rightarrow> gw_state \<Rightarrow> gw_state" where
  "gw_steps xs s = fold gw_run_step xs s"

text \<open>A run whose name and whose key no other row has.\<close>

definition owns_key :: "string \<Rightarrow> string \<Rightarrow> gw_state \<Rightarrow> bool" where
  "owns_key run k s \<longleftrightarrow>
     (\<exists>r \<in> set (gs_runs s). gr_run r = run) \<and>
     (\<forall>r \<in> set (gs_runs s). gr_run r = run \<longleftrightarrow> run_key r = Some k)"

lemma key_blocked_append [simp]:
  "key_blocked k (calls @ [c]) = (if call_key c = k then c = Block k else key_blocked k calls)"
  by (simp add: key_blocked_def)

lemma key_blocked_other: "\<forall>c \<in> set cs. call_key c \<noteq> k \<Longrightarrow> key_blocked k (calls @ cs) = key_blocked k calls"
  by (simp add: key_blocked_def filter_empty_conv)

section \<open>Most specific wins\<close>

lemma pause_loop_out:
  "pause_loop ok rs = (fine, calls, marked) \<Longrightarrow>
   set calls \<subseteq> {Block k |k. Some k \<in> run_key ` set rs} \<and> set marked \<subseteq> gr_run ` set rs"
proof (induction rs arbitrary: fine calls marked)
  case (Cons r rs)
  obtain fine' calls' marked' where rest: "pause_loop ok rs = (fine', calls', marked')"
    by (metis prod_cases3)
  from Cons.IH [OF rest] Cons.prems rest show ?case
    by (force split: option.splits if_splits)
qed simp

lemma resume_loop_out:
  "resume_loop ok rs = (fine, calls, marked) \<Longrightarrow>
   set calls \<subseteq> {Unblock k |k. Some k \<in> run_key ` set rs} \<and> set marked \<subseteq> gr_run ` set rs"
proof (induction rs arbitrary: fine calls marked)
  case (Cons r rs)
  obtain fine' calls' marked' where rest: "resume_loop ok rs = (fine', calls', marked')"
    by (metis prod_cases3)
  from Cons.IH [OF rest] Cons.prems rest show ?case
    by (force split: option.splits if_splits)
qed simp

text \<open>What no action on other runs changes: the rows of a run, and the calls for its key.\<close>

definition rows_of :: "string \<Rightarrow> gw_run list \<Rightarrow> gw_run list" where
  "rows_of run rs = filter (\<lambda>r. gr_run r = run) rs"

lemma set_marker_name [simp]: "map gr_run (set_marker run mark rs) = map gr_run rs"
  by (induction rs) (auto simp: set_marker_def)

lemma rows_of_set_marker:
  "rows_of run (set_marker run' mark rs) =
     (if run = run' then set_marker run' mark (rows_of run rs) else rows_of run rs)"
  by (induction rs) (auto simp: rows_of_def set_marker_def)

lemma rows_of_fold: "run \<notin> set marked \<Longrightarrow> rows_of run (fold (\<lambda>run. set_marker run mark) marked rs) = rows_of run rs"
  by (induction marked arbitrary: rs) (auto simp: rows_of_set_marker)

lemma owns_key_rows:
  "owns_key run k s \<longleftrightarrow> rows_of run (gs_runs s) \<noteq> [] \<and>
     (\<forall>r \<in> set (gs_runs s). gr_run r = run \<longleftrightarrow> run_key r = Some k)"
  by (auto simp: owns_key_def rows_of_def filter_empty_conv)

definition same_keys :: "gw_run list \<Rightarrow> gw_run list \<Rightarrow> bool" where
  "same_keys rs rs' \<longleftrightarrow> map (\<lambda>r. (gr_run r, gr_key r)) rs = map (\<lambda>r. (gr_run r, gr_key r)) rs'"

lemma same_keys_marker: "same_keys rs (set_marker run mark rs)"
  by (induction rs) (auto simp: same_keys_def set_marker_def)

lemma same_keys_trans: "same_keys a b \<Longrightarrow> same_keys b c \<Longrightarrow> same_keys a c"
  by (simp add: same_keys_def)

lemma same_keys_fold: "same_keys rs (fold (\<lambda>run. set_marker run mark) marked rs)"
proof (induction marked arbitrary: rs)
  case (Cons x xs)
  from same_keys_trans [OF same_keys_marker Cons.IH] show ?case by simp
qed (simp add: same_keys_def)

lemma owns_key_image:
  "owns_key run k s \<longleftrightarrow> (\<exists>p \<in> (\<lambda>r. (gr_run r, gr_key r)) ` set (gs_runs s). fst p = run) \<and>
     (\<forall>p \<in> (\<lambda>r. (gr_run r, gr_key r)) ` set (gs_runs s). fst p = run \<longleftrightarrow> (snd p = Some k \<and> k \<noteq> []))"
  by (auto simp: owns_key_def run_key_def split: option.splits if_splits)

lemma owns_key_same:
  assumes "same_keys (gs_runs s) (gs_runs s')"
  shows "owns_key run k s' = owns_key run k s"
proof -
  from arg_cong [OF assms [unfolded same_keys_def], of set]
  have "(\<lambda>r. (gr_run r, gr_key r)) ` set (gs_runs s) = (\<lambda>r. (gr_run r, gr_key r)) ` set (gs_runs s')"
    unfolding list.set_map .
  then show ?thesis unfolding owns_key_image by (simp only:)
qed

lemma same_keys_refl: "same_keys rs rs"
  by (simp add: same_keys_def)

lemma action_keys: "same_keys (gs_runs s) (gs_runs (snd (gateway_action act mark ok run s)))"
  by (cases "find_run run (gs_runs s)"; cases "run_key (the (find_run run (gs_runs s)))")
    (simp_all add: gateway_action_def same_keys_marker same_keys_refl)

lemma sweep_keys: "same_keys (gs_runs s) (gs_runs (snd (finish_sweep mark out s)))"
  by (cases out) (simp add: finish_sweep_def same_keys_fold same_keys_refl)

lemma check_keys: "same_keys (gs_runs s) (gs_runs (snd (block_if_globally_paused ok paused run key s)))"
proof (cases "\<exists>k. key = Some k \<and> k \<noteq> [] \<and> paused \<and> ok k")
  case True
  then show ?thesis by (auto simp: block_if_globally_paused_def same_keys_def)
next
  case False
  then have "gs_runs (snd (block_if_globally_paused ok paused run key s)) = gs_runs s"
    by (cases key) (auto simp: block_if_globally_paused_def)
  then show ?thesis by (simp add: same_keys_refl)
qed

lemma step_keys: "same_keys (gs_runs s) (gs_runs (gw_run_step (ok, x) s))"
  by (cases x)
    (simp_all only: gw_run_step.simps pause_gateway_def resume_gateway_def sweep_global_pause_def
      sweep_global_resume_def action_keys sweep_keys check_keys)

text \<open>A step that is not an operator's on the run leaves its rows as they are unless their marker says otherwise.\<close>

definition markers :: "string \<Rightarrow> gw_state \<Rightarrow> string option set" where
  "markers run s = gr_marker ` set (rows_of run (gs_runs s))"

definition held :: "string \<Rightarrow> string \<Rightarrow> gw_state \<Rightarrow> bool" where
  "held run k s \<longleftrightarrow> owns_key run k s \<and> markers run s = {Some ''operator''} \<and> key_blocked k (gs_calls s)"

lemma find_runD: "find_run run rs = Some r \<Longrightarrow> r \<in> set rs \<and> gr_run r = run"
  by (auto simp: find_run_def find_Some_iff)

lemma markers_set_marker:
  "gr_marker ` set (rows_of run (set_marker run' mark rs)) =
     (if run = run' then (if rows_of run rs = [] then {} else {mark}) else gr_marker ` set (rows_of run rs))"
proof (cases "run = run'")
  case True
  have "gr_marker ` set (set_marker run mark (rows_of run rs)) = (if rows_of run rs = [] then {} else {mark})"
    by (auto simp: set_marker_def rows_of_def image_iff filter_empty_conv)
  with True show ?thesis by (simp add: rows_of_set_marker)
qed (simp add: rows_of_set_marker)

lemma owned_run:
  "owns_key run k s \<Longrightarrow> r \<in> set (gs_runs s) \<Longrightarrow> run_key r = Some k \<longleftrightarrow> gr_run r = run"
  by (auto simp: owns_key_def)

text \<open>An operator's action on another run, and a pause of this one.\<close>

lemma held_action:
  assumes "held run k s" "run' \<noteq> run \<or> (act = Block \<and> mark = Some ''operator'')" "\<And>k. call_key (act k) = k"
  shows "held run k (snd (gateway_action act mark ok run' s))"
proof (cases "\<exists>r k'. find_run run' (gs_runs s) = Some r \<and> \<not> is_run_closed (gr_status r) \<and>
    (run_key r = None \<or> (run_key r = Some k' \<and> ok k'))")
  case True
  then obtain r where r: "find_run run' (gs_runs s) = Some r" "\<not> is_run_closed (gr_status r)" by blast
  have own: "owns_key run k (snd (gateway_action act mark ok run' s))"
    using assms(1) owns_key_same [OF action_keys] by (simp add: held_def)
  have ne: "rows_of run (gs_runs s) \<noteq> []" and m: "gr_marker ` set (rows_of run (gs_runs s)) = {Some ''operator''}"
    using assms(1) by (auto simp: held_def markers_def owns_key_rows)
  have mk: "gr_marker ` set (rows_of run (set_marker run' mark (gs_runs s))) = {Some ''operator''}"
    using assms(2) ne m by (auto simp: markers_set_marker)
  show ?thesis
  proof (cases "run_key r")
    case None
    with r own mk assms(1) show ?thesis by (simp add: held_def markers_def gateway_action_def)
  next
    case (Some k')
    have "k' = k \<longleftrightarrow> run' = run"
      using owned_run [of run k s r] find_runD [OF r(1)] assms(1) Some by (auto simp: held_def)
    with True r Some own mk assms show ?thesis
      by (auto simp: held_def markers_def gateway_action_def)
  qed
next
  case False
  then have "snd (gateway_action act mark ok run' s) = s"
    by (auto simp: gateway_action_def split: option.splits)
  with assms(1) show ?thesis by simp
qed

lemma held_sweep:
  assumes "held run k s" "\<forall>r \<in> set rs. r \<in> set (gs_runs s) \<and> gr_run r \<noteq> run"
    "\<forall>c \<in> set (fst (snd out)). \<exists>r \<in> set rs. run_key r = Some (call_key c)" "set (snd (snd out)) \<subseteq> gr_run ` set rs"
  shows "held run k (snd (finish_sweep mark out s))"
proof -
  obtain fine calls marked where out: "out = (fine, calls, marked)" by (metis prod_cases3)
  have own: "owns_key run k (snd (finish_sweep mark out s))"
    using assms(1) owns_key_same [OF sweep_keys] by (simp add: held_def)
  have "\<forall>c \<in> set calls. call_key c \<noteq> k"
    using assms(1-3) owned_run [of run k s] unfolding out held_def by fastforce
  moreover have "run \<notin> set marked" using assms(2,4) out by auto
  ultimately show ?thesis
    using assms(1) own by (auto simp: held_def markers_def finish_sweep_def out rows_of_fold key_blocked_other)
qed

lemma selected_not_held:
  "held run k s \<Longrightarrow> r \<in> set (gs_runs s) \<Longrightarrow> gr_marker r \<noteq> Some ''operator'' \<Longrightarrow> gr_run r \<noteq> run"
  by (auto simp: held_def markers_def rows_of_def)

lemma loop_calls:
  "\<forall>c \<in> set (fst (snd (pause_loop ok rs))). \<exists>r \<in> set rs. run_key r = Some (call_key c)"
  "\<forall>c \<in> set (fst (snd (resume_loop ok rs))). \<exists>r \<in> set rs. run_key r = Some (call_key c)"
  "set (snd (snd (pause_loop ok rs))) \<subseteq> gr_run ` set rs"
  "set (snd (snd (resume_loop ok rs))) \<subseteq> gr_run ` set rs"
  using pause_loop_out [of ok rs "fst (pause_loop ok rs)" "fst (snd (pause_loop ok rs))" "snd (snd (pause_loop ok rs))"]
    resume_loop_out [of ok rs "fst (resume_loop ok rs)" "fst (snd (resume_loop ok rs))" "snd (snd (resume_loop ok rs))"]
  by force+

lemma held_step:
  assumes "held run k s" "x \<noteq> Op_resume run"
  shows "held run k (gw_run_step (ok, x) s)"
proof (cases x)
  case (Op_pause run')
  then show ?thesis using held_action [OF assms(1), of run' Block] by (simp add: pause_gateway_def)
next
  case (Op_resume run')
  then show ?thesis using held_action [OF assms(1), of run' Unblock] assms(2) by (simp add: resume_gateway_def)
next
  case Global_pause
  then show ?thesis
    using held_sweep [OF assms(1) _ loop_calls(1,3)] selected_not_held [OF assms(1)]
    by (simp add: sweep_global_pause_def)
next
  case Global_resume
  then show ?thesis
    using held_sweep [OF assms(1) _ loop_calls(2,4)] selected_not_held [OF assms(1)]
    by (simp add: sweep_global_resume_def)
next
  case (Launch_check paused run' key)
  have own: "owns_key run k (snd (block_if_globally_paused ok paused run' key s))"
    using assms(1) owns_key_same [OF check_keys] by (simp add: held_def)
  have "(\<forall>r \<in> set (rows_of run rs). gr_marker r = Some ''operator'') \<Longrightarrow>
      rows_of run (map (\<lambda>r. if gr_run r = run' \<and> gr_marker r = None then r\<lparr>gr_marker := Some ''global''\<rparr> else r) rs) =
      rows_of run rs" for rs
    by (induction rs) (auto simp: rows_of_def)
  moreover have "\<forall>r \<in> set (rows_of run (gs_runs s)). gr_marker r = Some ''operator''"
    using assms(1) by (auto simp: held_def markers_def)
  ultimately show ?thesis
    using assms(1) own by (auto simp: Launch_check block_if_globally_paused_def held_def markers_def split: option.splits)
qed

text \<open>
  An operator's pause of one run stands: after it, whatever else is paused and resumed, for one
  run or for all, with whatever failures, the run stays marked as the operator's and its key stays
  blocked until an operator resumes that run.
\<close>

theorem operator_pause_stands:
  assumes "owns_key run k s" "pause_gateway ok run s = (None, s')" "Op_resume run \<notin> snd ` set xs"
  shows "markers run (gw_steps xs s') = {Some ''operator''} \<and> key_blocked k (gs_calls (gw_steps xs s'))"
proof -
  have "held run k s'"
  proof -
    from assms(2) obtain r where r: "find_run run (gs_runs s) = Some r" "\<not> is_run_closed (gr_status r)"
      by (auto simp: pause_gateway_def gateway_action_def split: option.splits if_splits)
    with assms(1) have key: "run_key r = Some k" using find_runD [OF r(1)] by (auto simp: owns_key_def)
    with r assms(2) have s': "s' = \<lparr>gs_runs = set_marker run (Some ''operator'') (gs_runs s), gs_calls = gs_calls s @ [Block k]\<rparr>"
      by (auto simp: pause_gateway_def gateway_action_def split: if_splits)
    have "owns_key run k s'"
      using assms(1) owns_key_same [of s s'] same_keys_marker by (simp add: s')
    then show ?thesis
      using assms(1) by (auto simp: held_def s' markers_def markers_set_marker owns_key_rows)
  qed
  moreover have "held run k (gw_steps xs s)" if "held run k s" "Op_resume run \<notin> snd ` set xs" for xs s
    using that by (induction xs arbitrary: s) (auto simp: gw_steps_def held_step)
  ultimately show ?thesis using assms(3) by (auto simp: held_def)
qed

section \<open>A sweep that fails\<close>

text \<open>
  A global pause that fails on one key leaves the keys it had blocked before blocked without a
  marker: no global resume afterwards, however often it succeeds, unblocks such a key.
\<close>

theorem failed_pause_strands_keys:
  assumes "owns_key run k s" "markers run s = {None}" "sweep_global_pause ok s = (None, s')"
    "key_blocked k (gs_calls s')" "\<forall>x \<in> set xs. snd x = Global_resume"
  shows "markers run (gw_steps xs s') = {None} \<and> key_blocked k (gs_calls (gw_steps xs s'))"
proof -
  have step: "owns_key run k (gw_run_step (f, Global_resume) s) \<and> markers run (gw_run_step (f, Global_resume) s) = {None} \<and>
      key_blocked k (gs_calls (gw_run_step (f, Global_resume) s))"
    if h: "owns_key run k s" "markers run s = {None}" "key_blocked k (gs_calls s)" for f s
  proof -
    let ?rs = "filter (\<lambda>r. gr_marker r = Some ''global'') (gs_runs s)"
    obtain fine calls marked where out: "resume_loop f ?rs = (fine, calls, marked)" by (metis prod_cases3)
    have "gr_marker r \<in> markers run s" if "r \<in> set (gs_runs s)" "gr_run r = run" for r
      using that by (simp add: markers_def rows_of_def)
    then have sel: "\<forall>r \<in> set ?rs. gr_run r \<noteq> run" unfolding h(2) by fastforce
    then have "\<forall>r \<in> set ?rs. run_key r \<noteq> Some k" using owned_run [OF h(1)] by auto
    then have c: "\<forall>c \<in> set calls. call_key c \<noteq> k" using loop_calls(2) [of f ?rs] out by fastforce
    have m: "run \<notin> set marked" using loop_calls(4) [of f ?rs] out sel by auto
    have "owns_key run k (gw_run_step (f, Global_resume) s)"
      using h(1) owns_key_same [OF step_keys [of s f Global_resume]] by (simp only:)
    with c m h show ?thesis
      by (auto simp: sweep_global_resume_def out finish_sweep_def markers_def rows_of_fold key_blocked_other)
  qed
  have "gs_runs s' = gs_runs s"
    using assms(3) by (auto simp: sweep_global_pause_def finish_sweep_def split: prod.splits if_splits)
  then have start: "owns_key run k s'" "markers run s' = {None}"
    using assms(1,2) unfolding owns_key_def markers_def by simp_all blast+
  have "owns_key run k (gw_steps xs s) \<and> markers run (gw_steps xs s) = {None} \<and> key_blocked k (gs_calls (gw_steps xs s))"
    if "owns_key run k s" "markers run s = {None}" "key_blocked k (gs_calls s)" "\<forall>x \<in> set xs. snd x = Global_resume" for xs s
    using that
  proof (induction xs arbitrary: s)
    case (Cons x xs)
    obtain f where x: "x = (f, Global_resume)" using Cons.prems(4) by (cases x) auto
    from Cons.IH [of "gw_run_step x s"] step [OF Cons.prems(1-3)] Cons.prems(4)
    show ?case by (simp add: gw_steps_def x)
  qed (simp add: gw_steps_def)
  from this [OF start assms(4,5)] show ?thesis by blast
qed

section \<open>Examples\<close>

definition gw_demo :: gw_state where
  "gw_demo = \<lparr>gs_runs =
     [\<lparr>gr_run = ''a'', gr_status = ''running'', gr_key = Some ''ka'', gr_marker = None\<rparr>,
      \<lparr>gr_run = ''b'', gr_status = ''running'', gr_key = Some ''kb'', gr_marker = None\<rparr>], gs_calls = []\<rparr>"

lemma gw_demo_owned: "owns_key ''a'' ''ka'' gw_demo"
  by (simp add: owns_key_def gw_demo_def run_key_def)

theorem operator_pause_stands_witness:
  "key_blocked ''ka'' (gs_calls (gw_steps [(\<lambda>_. True, Global_pause), (\<lambda>_. True, Global_resume)]
     (snd (pause_gateway (\<lambda>_. True) ''a'' gw_demo))))"
proof -
  have "pause_gateway (\<lambda>_. True) ''a'' gw_demo = (None, snd (pause_gateway (\<lambda>_. True) ''a'' gw_demo))"
    by (simp add: pause_gateway_def gateway_action_def gw_demo_def find_run_def run_key_def is_run_closed_def
        already_final_run_statuses_def)
  from operator_pause_stands [OF gw_demo_owned this] show ?thesis by simp
qed

theorem failed_pause_strands_keys_witness:
  "key_blocked ''ka'' (gs_calls (gw_steps [(\<lambda>_. True, Global_resume)] (snd (sweep_global_pause (\<lambda>k. k = ''ka'') gw_demo))))"
proof -
  have s: "sweep_global_pause (\<lambda>k. k = ''ka'') gw_demo = (None, gw_demo\<lparr>gs_calls := [Block ''ka'']\<rparr>)"
    by (simp add: sweep_global_pause_def gw_demo_def sweep_statuses_def run_key_def finish_sweep_def)
  have m: "markers ''a'' gw_demo = {None}" by (simp add: markers_def rows_of_def gw_demo_def)
  show ?thesis
    using failed_pause_strands_keys [OF gw_demo_owned m s, of "[(\<lambda>_. True, Global_resume)]"]
    by (simp add: s key_blocked_def)
qed

end
