(* ===== verification/Job_Messages.thy ===== *)
theory Job_Messages
  imports Result_Message
begin

text \<open>
  The messages of \<open>swebench_eval/queue/schemas.py\<close> on the way to a harness task: the job on the
  queue with its parser, and the job reference that the dispatcher writes into the environment of
  a task and the worker reads back. Decimal texts are those of Python's \<open>str\<close> on an integer and of
  the format \<open>.3f\<close> on a float.
\<close>

section \<open>Decimal texts\<close>

definition digit_char :: "nat \<Rightarrow> char" where
  "digit_char d = char_of (48 + d)"

fun nat_text :: "nat \<Rightarrow> string" where
  "nat_text n = (if n < 10 then [digit_char n] else nat_text (n div 10) @ [digit_char (n mod 10)])"

declare nat_text.simps [simp del]

definition int_text :: "int \<Rightarrow> string" where
  "int_text n = (if n < 0 then CHR ''-'' # nat_text (nat (- n)) else nat_text (nat n))"

definition fixed3_text :: "pyfloat \<Rightarrow> string" where
  "fixed3_text v =
     (case v of
        PosInf \<Rightarrow> ''inf'' | NegInf \<Rightarrow> ''-inf'' | NaN \<Rightarrow> ''nan''
      | Fin x \<Rightarrow>
          (let m = nat (py_round (1000 * \<bar>x\<bar>))
           in (if x < 0 then ''-'' else []) @ nat_text (m div 1000) @ ''.'' @
              [digit_char (m div 100 mod 10), digit_char (m div 10 mod 10), digit_char (m mod 10)]))"

text \<open>The value such a text stands for.\<close>

definition fixed3 :: "pyfloat \<Rightarrow> pyfloat" where
  "fixed3 v = (case v of Fin x \<Rightarrow> Fin ((if x < 0 then - 1 else 1) * of_int (py_round (1000 * \<bar>x\<bar>)) / 1000) | _ \<Rightarrow> v)"

section \<open>The job\<close>

definition DEFAULT_CONTEXT_WINDOW_TOKENS :: "int option" where
  "DEFAULT_CONTEXT_WINDOW_TOKENS = Some 262144"

record harness_job =
  hj_run_id :: string
  hj_instance_id :: string
  hj_repo_url :: string
  hj_base_commit :: string
  hj_problem_statement :: string
  hj_attempt :: int
  hj_harness_name :: string
  hj_model_alias :: string
  hj_env_image_key :: string
  hj_timeout_seconds :: int
  hj_max_tokens :: "int option"
  hj_max_cost_usd :: pyfloat
  hj_max_turns :: "int option"
  hj_dispatched_at :: "pyfloat option"
  hj_queue_wait_s :: "pyfloat option"
  hj_context_window :: "int option"

definition convert :: "(wire \<Rightarrow> 'a option) \<Rightarrow> wire \<Rightarrow> parse_error + 'a" where
  "convert f w = (case f w of None \<Rightarrow> Inl Bad_value | Some x \<Rightarrow> Inr x)"

definition need_val :: "(wire \<Rightarrow> 'a option) \<Rightarrow> body \<Rightarrow> string \<Rightarrow> parse_error + 'a" where
  "need_val f b k = (case bd_val b k of None \<Rightarrow> Inl (Missing_field k) | Some w \<Rightarrow> convert f w)"

text \<open>A field that must be there, and may be null.\<close>

definition need_opt_int :: "body \<Rightarrow> string \<Rightarrow> parse_error + int option" where
  "need_opt_int b k =
     (case bd_val b k of
        None \<Rightarrow> Inl (Missing_field k)
      | Some W_null \<Rightarrow> Inr None
      | Some w \<Rightarrow> convert (\<lambda>w. map_option Some (wire_int w)) w)"

definition opt_float :: "body \<Rightarrow> string \<Rightarrow> parse_error + pyfloat option" where
  "opt_float b k =
     (case present b k of None \<Rightarrow> Inr None | Some w \<Rightarrow> convert (\<lambda>w. map_option Some (wire_float w)) w)"

definition int_or_none_default :: "body \<Rightarrow> string \<Rightarrow> int option \<Rightarrow> parse_error + int option" where
  "int_or_none_default b k d =
     (case bd_val b k of
        None \<Rightarrow> Inr d
      | Some W_null \<Rightarrow> Inr d
      | Some w \<Rightarrow> convert (\<lambda>w. map_option Some (wire_int w)) w)"

definition parse_job :: "body \<Rightarrow> parse_error + harness_job" where
  "parse_job b =
     sum_bind (need_text b ''run_id'') (\<lambda>run.
     sum_bind (need_text b ''instance_id'') (\<lambda>inst.
     sum_bind (need_text b ''repo_url'') (\<lambda>repo.
     sum_bind (need_text b ''base_commit'') (\<lambda>base.
     sum_bind (need_text b ''problem_statement'') (\<lambda>problem.
     sum_bind (need_int b ''attempt_number'') (\<lambda>att.
     sum_bind (need_text b ''harness_name'') (\<lambda>harness.
     sum_bind (need_text b ''model_alias'') (\<lambda>alias.
     sum_bind (need_int b ''timeout_seconds'') (\<lambda>timeout.
     sum_bind (need_opt_int b ''max_tokens_per_instance'') (\<lambda>tokens.
     sum_bind (need_val wire_float b ''max_cost_usd_per_instance'') (\<lambda>cost.
     sum_bind (need_opt_int b ''max_turns_per_instance'') (\<lambda>turns.
     sum_bind (opt_float b ''dispatched_at'') (\<lambda>dispatched.
     sum_bind (opt_float b ''queue_wait_s'') (\<lambda>waited.
     sum_bind (int_or_none_default b ''context_window_tokens'' DEFAULT_CONTEXT_WINDOW_TOKENS) (\<lambda>window.
       Inr \<lparr>hj_run_id = run, hj_instance_id = inst, hj_repo_url = repo, hj_base_commit = base,
            hj_problem_statement = problem, hj_attempt = att, hj_harness_name = harness,
            hj_model_alias = alias, hj_env_image_key = text_field b ''env_image_key'',
            hj_timeout_seconds = timeout, hj_max_tokens = tokens, hj_max_cost_usd = cost,
            hj_max_turns = turns, hj_dispatched_at = dispatched, hj_queue_wait_s = waited,
            hj_context_window = window\<rparr>)))))))))))))))"

text \<open>\<open>dataclasses.asdict\<close>.\<close>

definition opt_wire :: "('a \<Rightarrow> wire) \<Rightarrow> 'a option \<Rightarrow> wire" where
  "opt_wire f v = (case v of None \<Rightarrow> W_null | Some x \<Rightarrow> f x)"

definition job_body_of :: "harness_job \<Rightarrow> body" where
  "job_body_of j =
     \<lparr>bd_text = map_of
        [(''run_id'', hj_run_id j), (''instance_id'', hj_instance_id j), (''repo_url'', hj_repo_url j),
         (''base_commit'', hj_base_commit j), (''problem_statement'', hj_problem_statement j),
         (''harness_name'', hj_harness_name j), (''model_alias'', hj_model_alias j),
         (''env_image_key'', hj_env_image_key j)],
      bd_val = map_of
        [(''attempt_number'', W_int (hj_attempt j)), (''timeout_seconds'', W_int (hj_timeout_seconds j)),
         (''max_tokens_per_instance'', opt_wire W_int (hj_max_tokens j)),
         (''max_cost_usd_per_instance'', W_float (hj_max_cost_usd j)),
         (''max_turns_per_instance'', opt_wire W_int (hj_max_turns j)),
         (''dispatched_at'', opt_wire W_float (hj_dispatched_at j)),
         (''queue_wait_s'', opt_wire W_float (hj_queue_wait_s j)),
         (''context_window_tokens'', opt_wire W_int (hj_context_window j))]\<rparr>"

section \<open>The job reference\<close>

record job_reference =
  jr_run_id :: string
  jr_instance_id :: string
  jr_attempt :: int
  jr_receipt_handle :: string
  jr_harness_name :: string
  jr_model_alias :: string
  jr_timeout_seconds :: int
  jr_max_tokens :: "int option"
  jr_max_cost_usd :: pyfloat
  jr_max_turns :: "int option"
  jr_context_window :: "int option"
  jr_dispatched_at :: "pyfloat option"
  jr_queue_wait_s :: "pyfloat option"
  jr_litellm_api_key :: "string option"

definition opt_text :: "('a \<Rightarrow> string) \<Rightarrow> 'a option \<Rightarrow> string" where
  "opt_text f v = (case v of None \<Rightarrow> [] | Some x \<Rightarrow> f x)"

definition to_env :: "job_reference \<Rightarrow> (string \<times> string) list" where
  "to_env r =
     [(''RUN_ID'', jr_run_id r), (''INSTANCE_ID'', jr_instance_id r),
      (''ATTEMPT_NUMBER'', int_text (jr_attempt r)), (''RECEIPT_HANDLE'', jr_receipt_handle r),
      (''HARNESS_NAME'', jr_harness_name r), (''MODEL_ALIAS'', jr_model_alias r),
      (''TIMEOUT_SECONDS'', int_text (jr_timeout_seconds r)),
      (''MAX_TOKENS_PER_INSTANCE'', opt_text int_text (jr_max_tokens r)),
      (''MAX_COST_USD_PER_INSTANCE'', fixed3_text (jr_max_cost_usd r)),
      (''MAX_TURNS_PER_INSTANCE'', opt_text int_text (jr_max_turns r)),
      (''CONTEXT_WINDOW_TOKENS'', opt_text int_text (jr_context_window r)),
      (''DISPATCHED_AT'', opt_text fixed3_text (jr_dispatched_at r)),
      (''QUEUE_WAIT_S'', opt_text fixed3_text (jr_queue_wait_s r)),
      (''LITELLM_API_KEY'', opt_text (\<lambda>k. k) (jr_litellm_api_key r))]"

definition env_get :: "(string \<times> string) list \<Rightarrow> string \<Rightarrow> string" where
  "env_get e k = (case map_of e k of None \<Rightarrow> [] | Some s \<Rightarrow> s)"

definition required :: "(string \<times> string) list \<Rightarrow> string \<Rightarrow> parse_error + string" where
  "required e k = (if env_get e k = [] then Inl (Missing_field k) else Inr (env_get e k))"

definition text_or :: "(string \<Rightarrow> 'a option) \<Rightarrow> string \<Rightarrow> parse_error + 'a" where
  "text_or f s = (case f s of None \<Rightarrow> Inl Bad_value | Some x \<Rightarrow> Inr x)"

definition env_or_none :: "(string \<Rightarrow> 'a option) \<Rightarrow> (string \<times> string) list \<Rightarrow> string \<Rightarrow> parse_error + 'a option" where
  "env_or_none f e k =
     (if env_get e k = [] then Inr None else sum_bind (text_or f (env_get e k)) (\<lambda>x. Inr (Some x)))"

definition from_env :: "(string \<times> string) list \<Rightarrow> parse_error + job_reference" where
  "from_env e =
     sum_bind (required e ''RUN_ID'') (\<lambda>run.
     sum_bind (required e ''INSTANCE_ID'') (\<lambda>inst.
     sum_bind (sum_bind (required e ''ATTEMPT_NUMBER'') (text_or py_int_text)) (\<lambda>att.
     sum_bind (required e ''RECEIPT_HANDLE'') (\<lambda>handle.
     sum_bind (required e ''HARNESS_NAME'') (\<lambda>harness.
     sum_bind (required e ''MODEL_ALIAS'') (\<lambda>alias.
     sum_bind (sum_bind (required e ''TIMEOUT_SECONDS'') (text_or py_int_text)) (\<lambda>timeout.
     sum_bind (env_or_none py_int_text e ''MAX_TOKENS_PER_INSTANCE'') (\<lambda>tokens.
     sum_bind (sum_bind (required e ''MAX_COST_USD_PER_INSTANCE'') (text_or py_float)) (\<lambda>cost.
     sum_bind (env_or_none py_int_text e ''MAX_TURNS_PER_INSTANCE'') (\<lambda>turns.
     sum_bind (env_or_none py_int_text e ''CONTEXT_WINDOW_TOKENS'') (\<lambda>window.
     sum_bind (env_or_none py_float e ''DISPATCHED_AT'') (\<lambda>dispatched.
     sum_bind (env_or_none py_float e ''QUEUE_WAIT_S'') (\<lambda>waited.
     sum_bind (env_or_none Some e ''LITELLM_API_KEY'') (\<lambda>key.
       Inr \<lparr>jr_run_id = run, jr_instance_id = inst, jr_attempt = att, jr_receipt_handle = handle,
            jr_harness_name = harness, jr_model_alias = alias, jr_timeout_seconds = timeout,
            jr_max_tokens = tokens, jr_max_cost_usd = cost, jr_max_turns = turns,
            jr_context_window = window, jr_dispatched_at = dispatched, jr_queue_wait_s = waited,
            jr_litellm_api_key = key\<rparr>))))))))))))))"

section \<open>Round trip of the job\<close>

text \<open>
  A job that is written to the queue and parsed again is the same job, except that a job that
  opts out of a context window comes back with the default window.
\<close>

theorem job_roundtrip:
  "parse_job (job_body_of j) =
     Inr (j\<lparr>hj_context_window := (case hj_context_window j of None \<Rightarrow> DEFAULT_CONTEXT_WINDOW_TOKENS | Some n \<Rightarrow> Some n)\<rparr>)"
  by (simp add: parse_job_def job_body_of_def need_text_def need_int_def need_val_def need_opt_int_def
      opt_float_def int_or_none_default_def present_def text_field_def convert_def sum_bind_def opt_wire_def
      split: option.split)

section \<open>Round trip of decimal texts\<close>

lemma of_char_digit: "d < 10 \<Longrightarrow> (of_char (digit_char d) :: nat) = 48 + d"
  by (simp add: digit_char_def)

lemma is_digit_digit: "d < 10 \<Longrightarrow> is_digit (digit_char d)"
  by (simp add: is_digit_def of_char_digit)

lemma nat_text_digits: "list_all is_digit (nat_text n) \<and> nat_text n \<noteq> []"
proof (induction n rule: nat_text.induct)
  case (1 n)
  then show ?case by (subst (1 2) nat_text.simps) (simp add: is_digit_digit)
qed

lemma digits_val_append: "digits_val (xs @ [c]) = 10 * digits_val xs + (of_char c - 48)"
  by (simp add: digits_val_def)

lemma digits_val_nat_text: "digits_val (nat_text n) = n"
proof (induction n rule: nat_text.induct)
  case (1 n)
  show ?case
  proof (cases "n < 10")
    case True
    then show ?thesis by (subst nat_text.simps) (simp add: digits_val_def of_char_digit)
  next
    case False
    with 1 show ?thesis
      by (subst nat_text.simps) (simp add: digits_val_append of_char_digit)
  qed
qed

lemma digit_not_space: "is_digit c \<Longrightarrow> \<not> is_space c"
  by (auto simp: is_digit_def is_space_def)

lemma strip_id:
  assumes "list_all (\<lambda>c. \<not> is_space c) s"
  shows "strip s = s"
proof -
  have d: "list_all (\<lambda>c. \<not> is_space c) xs \<Longrightarrow> dropWhile is_space xs = xs" for xs
    by (cases xs) auto
  show ?thesis using d [OF assms] d [of "rev s"] assms by (simp add: strip_def list_all_rev)
qed

lemma digit_signs: "is_digit c \<Longrightarrow> c \<noteq> CHR ''-'' \<and> c \<noteq> CHR ''+'' \<and> c \<noteq> CHR ''.''"
  by (auto simp: is_digit_def)

lemma sign_digit: "is_digit c \<Longrightarrow> sign (c # cs) = (False, c # cs)"
  using digit_signs by (simp add: sign_def)

lemma sign_minus [simp]: "sign (CHR ''-'' # cs) = (True, cs)"
  by (simp add: sign_def)

lemma minus_not_space: "\<not> is_space (CHR ''-'')" "\<not> is_space (CHR ''.'')"
  by (simp_all add: is_space_def)

lemma nat_text_Cons: obtains c cs where "nat_text n = c # cs" "is_digit c" "list_all is_digit cs"
  using nat_text_digits [of n] by (cases "nat_text n") auto

lemma digits_not_space: "list_all is_digit ds \<Longrightarrow> list_all (\<lambda>c. \<not> is_space c) ds"
  by (auto simp: list_all_iff digit_not_space)

lemma int_text_roundtrip: "py_int_text (int_text n) = Some n"
proof -
  obtain c cs where t: "nat_text (nat \<bar>n\<bar>) = c # cs" "is_digit c" "list_all is_digit cs"
    by (rule nat_text_Cons)
  have v: "digits_val (c # cs) = nat \<bar>n\<bar>" using digits_val_nat_text [of "nat \<bar>n\<bar>"] t(1) by simp
  show ?thesis
  proof (cases "n < 0")
    case True
    then have i: "int_text n = CHR ''-'' # c # cs" using t(1) by (simp add: int_text_def)
    have "strip (int_text n) = int_text n"
      by (rule strip_id) (use t digits_not_space in \<open>simp add: i minus_not_space digit_not_space\<close>)
    with True t v show ?thesis by (simp add: py_int_text_def i)
  next
    case False
    then have i: "int_text n = c # cs" using t(1) by (simp add: int_text_def)
    have "strip (int_text n) = int_text n"
      by (rule strip_id) (use t digits_not_space in \<open>simp add: i digit_not_space\<close>)
    with False t v show ?thesis by (simp add: py_int_text_def i sign_digit)
  qed
qed

lemma int_text_nonempty: "int_text n \<noteq> []"
  using nat_text_digits by (auto simp: int_text_def)

lemma lower_digit: "is_digit c \<Longrightarrow> lower_char c = c"
  by (simp add: lower_char_def is_digit_def Let_def)

lemma digits_val_three:
  "digits_val (ds @ [digit_char (m div 100 mod 10), digit_char (m div 10 mod 10), digit_char (m mod 10)]) =
     1000 * digits_val ds + m mod 1000" for m :: nat
proof -
  have "100 * (m div 100 mod 10) + 10 * (m div 10 mod 10) + m mod 10 = m mod 1000"
  proof -
    have "m div 10 mod 100 = 10 * (m div 100 mod 10) + m div 10 mod 10"
      using mod_mult2_eq [of "m div 10" 10 10] by (simp add: div_mult2_eq [symmetric])
    moreover have "m mod 1000 = 10 * (m div 10 mod 100) + m mod 10"
      using mod_mult2_eq [of m 10 100] by simp
    ultimately show ?thesis by simp
  qed
  then show ?thesis by (simp add: digits_val_def of_char_digit)
qed

lemma py_float_decimal:
  assumes "list_all is_digit ds" "ds \<noteq> []" "list_all is_digit fs" "sg \<in> {[], ''-''}"
  shows "py_float (sg @ ds @ ''.'' @ fs) =
    Some (Fin ((if sg = ''-'' then - 1 else 1) * real (digits_val (ds @ fs)) / 10 ^ length fs))"
proof -
  obtain c cs where d: "ds = c # cs" "is_digit c" "list_all is_digit cs" using assms by (cases ds) auto
  have st: "strip (sg @ ds @ ''.'' @ fs) = sg @ ds @ ''.'' @ fs"
    by (rule strip_id) (use assms digits_not_space in \<open>auto simp: minus_not_space\<close>)
  have sg: "sign (sg @ ds @ ''.'' @ fs) = (sg = ''-'', ds @ ''.'' @ fs)"
    using assms(4) d by (auto simp: sign_digit)
  have low: "lower (ds @ ''.'' @ fs) \<notin> {''inf'', ''infinity'', ''nan''}"
  proof -
    have "c \<noteq> CHR ''i'' \<and> c \<noteq> CHR ''n''" using d(2) by (auto simp: is_digit_def)
    then show ?thesis using d(2) by (simp add: lower_def d(1) lower_digit)
  qed
  have tw: "takeWhile is_digit (ds @ ''.'' @ fs) = ds" "dropWhile is_digit (ds @ ''.'' @ fs) = ''.'' @ fs"
    using assms(1) by (auto simp: list_all_iff takeWhile_append dropWhile_append is_digit_def)
  have fs: "takeWhile is_digit fs = fs" "dropWhile is_digit fs = []"
    using assms(3) by (auto simp: list_all_iff takeWhile_eq_all_conv dropWhile_eq_Nil_conv)
  show ?thesis
    unfolding py_float_def st sg Let_def split_conv tw
    using low assms(2) by (simp add: fs exponent_def)
qed

lemma fixed3_roundtrip: "py_float (fixed3_text v) = Some (fixed3 v)"
proof (cases v)
  case (Fin x)
  define m where "m = nat (py_round (1000 * \<bar>x\<bar>))"
  have m: "real m = of_int (py_round (1000 * \<bar>x\<bar>))" using py_round_nonneg [of "1000 * \<bar>x\<bar>"] by (simp add: m_def)
  let ?fs = "[digit_char (m div 100 mod 10), digit_char (m div 10 mod 10), digit_char (m mod 10)]"
  have t: "fixed3_text v = (if x < 0 then ''-'' else []) @ nat_text (m div 1000) @ ''.'' @ ?fs"
    by (simp add: fixed3_text_def Fin m_def [symmetric] Let_def)
  have val: "digits_val (nat_text (m div 1000) @ ?fs) = m"
    by (simp add: digits_val_three digits_val_nat_text)
  have "py_float (fixed3_text v) = Some (Fin ((if x < 0 then - 1 else 1) * real m / 1000))"
    unfolding t using py_float_decimal [of "nat_text (m div 1000)" ?fs "if x < 0 then ''-'' else []"]
    by (simp add: nat_text_digits is_digit_digit val)
  then show ?thesis by (simp add: fixed3_def Fin m)
qed (simp_all add: fixed3_text_def fixed3_def, code_simp+)

lemma fixed3_text_nonempty: "fixed3_text v \<noteq> []"
  by (cases v) (simp_all add: fixed3_text_def Let_def)

text \<open>
  A job reference that the dispatcher writes into a task's environment is read back by the
  worker as the same reference, its floats rounded to three decimals, provided that its texts are
  not empty.
\<close>

theorem reference_roundtrip:
  assumes "jr_run_id r \<noteq> []" "jr_instance_id r \<noteq> []" "jr_receipt_handle r \<noteq> []"
    "jr_harness_name r \<noteq> []" "jr_model_alias r \<noteq> []" "jr_litellm_api_key r \<noteq> Some []"
  shows "from_env (to_env r) =
    Inr (r\<lparr>jr_max_cost_usd := fixed3 (jr_max_cost_usd r),
           jr_dispatched_at := map_option fixed3 (jr_dispatched_at r),
           jr_queue_wait_s := map_option fixed3 (jr_queue_wait_s r)\<rparr>)"
proof -
  have e: "env_or_none f (to_env r) k = Inr (map_option g v)"
    if "env_get (to_env r) k = opt_text t v" "\<And>x. v = Some x \<Longrightarrow> t x \<noteq> [] \<and> f (t x) = Some (g x)" for f t g v k
    using that by (cases v) (auto simp: env_or_none_def opt_text_def text_or_def sum_bind_def)
  have g: "env_get (to_env r) ''MAX_TOKENS_PER_INSTANCE'' = opt_text int_text (jr_max_tokens r)"
    "env_get (to_env r) ''MAX_TURNS_PER_INSTANCE'' = opt_text int_text (jr_max_turns r)"
    "env_get (to_env r) ''CONTEXT_WINDOW_TOKENS'' = opt_text int_text (jr_context_window r)"
    "env_get (to_env r) ''DISPATCHED_AT'' = opt_text fixed3_text (jr_dispatched_at r)"
    "env_get (to_env r) ''QUEUE_WAIT_S'' = opt_text fixed3_text (jr_queue_wait_s r)"
    "env_get (to_env r) ''LITELLM_API_KEY'' = opt_text (\<lambda>k. k) (jr_litellm_api_key r)"
    by (simp_all add: env_get_def to_env_def)
  have q: "required (to_env r) ''RUN_ID'' = Inr (jr_run_id r)" "required (to_env r) ''INSTANCE_ID'' = Inr (jr_instance_id r)"
    "required (to_env r) ''ATTEMPT_NUMBER'' = Inr (int_text (jr_attempt r))"
    "required (to_env r) ''RECEIPT_HANDLE'' = Inr (jr_receipt_handle r)"
    "required (to_env r) ''HARNESS_NAME'' = Inr (jr_harness_name r)"
    "required (to_env r) ''MODEL_ALIAS'' = Inr (jr_model_alias r)"
    "required (to_env r) ''TIMEOUT_SECONDS'' = Inr (int_text (jr_timeout_seconds r))"
    "required (to_env r) ''MAX_COST_USD_PER_INSTANCE'' = Inr (fixed3_text (jr_max_cost_usd r))"
    using assms by (simp_all add: required_def env_get_def to_env_def int_text_nonempty fixed3_text_nonempty)
  note ints = int_text_nonempty int_text_roundtrip
  have tokens: "env_or_none py_int_text (to_env r) ''MAX_TOKENS_PER_INSTANCE'' = Inr (jr_max_tokens r)"
    using e [OF g(1), of py_int_text "\<lambda>x. x"] by (simp add: ints option.map_ident)
  have turns: "env_or_none py_int_text (to_env r) ''MAX_TURNS_PER_INSTANCE'' = Inr (jr_max_turns r)"
    using e [OF g(2), of py_int_text "\<lambda>x. x"] by (simp add: ints option.map_ident)
  have window: "env_or_none py_int_text (to_env r) ''CONTEXT_WINDOW_TOKENS'' = Inr (jr_context_window r)"
    using e [OF g(3), of py_int_text "\<lambda>x. x"] by (simp add: ints option.map_ident)
  have disp: "env_or_none py_float (to_env r) ''DISPATCHED_AT'' = Inr (map_option fixed3 (jr_dispatched_at r))"
    using e [OF g(4), of py_float fixed3] by (simp add: fixed3_text_nonempty fixed3_roundtrip)
  have wait: "env_or_none py_float (to_env r) ''QUEUE_WAIT_S'' = Inr (map_option fixed3 (jr_queue_wait_s r))"
    using e [OF g(5), of py_float fixed3] by (simp add: fixed3_text_nonempty fixed3_roundtrip)
  have key: "env_or_none Some (to_env r) ''LITELLM_API_KEY'' = Inr (jr_litellm_api_key r)"
    using e [OF g(6), of Some "\<lambda>x. x"] assms(6) by (auto simp: option.map_ident)
  show ?thesis
    by (simp add: from_env_def q tokens turns window disp wait key sum_bind_def text_or_def int_text_roundtrip fixed3_roundtrip)
qed

definition demo_reference :: job_reference where
  "demo_reference =
     \<lparr>jr_run_id = ''r'', jr_instance_id = ''i'', jr_attempt = 1, jr_receipt_handle = ''h'', jr_harness_name = ''codex'',
      jr_model_alias = ''m'', jr_timeout_seconds = 5400, jr_max_tokens = None, jr_max_cost_usd = Fin (1 / 4096),
      jr_max_turns = Some 500, jr_context_window = None, jr_dispatched_at = None, jr_queue_wait_s = None,
      jr_litellm_api_key = None\<rparr>"

theorem reference_roundtrip_witness:
  "from_env (to_env demo_reference) = Inr (demo_reference\<lparr>jr_max_cost_usd := Fin 0\<rparr>)"
  using reference_roundtrip [of demo_reference] by (simp add: demo_reference_def fixed3_def py_round_def)

end
