(* ===== verification/Dispatch_Gate.thy ===== *)
theory Dispatch_Gate
  imports Job_Messages Results_Ledger
begin

text \<open>
  The gate and the loop of \<open>swebench_eval/orchestrator/control_plane/harness_dispatcher.py\<close>: which
  tasks count, the check of the harness network, the gate_state state with its ground truth, the
  classes of a failed launch, the discard of an aborted run's job, and one turn of the loop. The
  answers of ECS, EC2, Redis and the queue are arguments. The planner is \<open>Fleet_Planner\<close>; here it
  is the function that \<open>gate\<close> computes. Sleeps, the log and the metric are left out.
\<close>

section \<open>Task families and the network\<close>

definition family_prefix :: "string \<Rightarrow> string" where
  "family_prefix np = np @ ''-harness-''"

definition dispatcher_family :: "string \<Rightarrow> string" where
  "dispatcher_family np = np @ ''-harness-dispatcher''"

definition is_harness_family_group :: "string \<Rightarrow> string option \<Rightarrow> bool" where
  "is_harness_family_group np grp =
     (case grp of
        None \<Rightarrow> False
      | Some g \<Rightarrow> prefix ''family:'' g \<and>
          (let family = drop (length ''family:'') g
           in prefix (family_prefix np) family \<and> family \<noteq> dispatcher_family np))"

text \<open>\<open>running_count\<close>: pages of \<open>ListTasks\<close>, then batches of descriptions; \<open>None\<close> is a call that fails.\<close>

definition running_count :: "string \<Rightarrow> string option list option \<Rightarrow> nat option" where
  "running_count np groups = map_option (\<lambda>gs. length (filter (is_harness_family_group np) gs)) groups"

record route =
  rt_cidr :: "string option"
  rt_cidr6 :: "string option"

record subnet =
  sn_id :: string
  sn_explicit :: "route list list"

record sec_group =
  sg_id :: string
  sg_egress :: "string list"
  sg_egress6 :: "string list"

datatype refusal =
    No_route_table string | Has_default_route string "string list" | Open_egress string | Misconfigured

definition default_routes :: "route list list \<Rightarrow> string list" where
  "default_routes tables =
     concat (map (\<lambda>r. (if rt_cidr r = Some ''0.0.0.0/0'' then [''0.0.0.0/0''] else []) @
                      (if rt_cidr6 r = Some ''::/0'' then [''::/0''] else [])) (concat tables))"

text \<open>The explicit route tables of a subnet, or else the main ones of its VPC.\<close>

definition effective_tables :: "string \<Rightarrow> route list list \<Rightarrow> subnet \<Rightarrow> route list list" where
  "effective_tables vpc main sn = (if sn_explicit sn = [] \<and> vpc \<noteq> [] then main else sn_explicit sn)"

definition check_subnet :: "string \<Rightarrow> route list list \<Rightarrow> subnet \<Rightarrow> refusal option" where
  "check_subnet vpc main sn =
     (let tables = effective_tables vpc main sn
      in if tables = [] then Some (No_route_table (sn_id sn))
         else if default_routes tables \<noteq> [] then Some (Has_default_route (sn_id sn) (default_routes tables))
         else None)"

definition check_group :: "sec_group \<Rightarrow> refusal option" where
  "check_group g =
     (if ''0.0.0.0/0'' \<in> set (sg_egress g) \<or> ''::/0'' \<in> set (sg_egress6 g) then Some (Open_egress (sg_id g))
      else None)"

fun first_refusal :: "refusal option list \<Rightarrow> refusal option" where
  "first_refusal [] = None"
| "first_refusal (None # xs) = first_refusal xs"
| "first_refusal (Some r # xs) = Some r"

definition assert_isolated_network ::
    "string \<Rightarrow> route list list \<Rightarrow> subnet list \<Rightarrow> sec_group list \<Rightarrow> refusal option" where
  "assert_isolated_network vpc main subnets groups =
     first_refusal (map (check_subnet vpc main) subnets @ map check_group groups)"

definition env_configured :: "string \<Rightarrow> string list \<Rightarrow> string list \<Rightarrow> bool" where
  "env_configured cluster subnets groups \<longleftrightarrow> cluster \<noteq> [] \<and> subnets \<noteq> [] \<and> groups \<noteq> []"

section \<open>Admission\<close>

text \<open>\<open>None\<close> is the refusal to start.\<close>

definition max_concurrent_from_env :: "string \<Rightarrow> int option" where
  "max_concurrent_from_env raw =
     (if raw = [] then None
      else case py_int_text raw of None \<Rightarrow> None | Some n \<Rightarrow> if n \<le> 0 then None else Some n)"

definition GROUND_TRUTH_REFRESH_S :: real where "GROUND_TRUTH_REFRESH_S = 10"
definition GROUND_TRUTH_EVERY_N_LAUNCHES :: nat where "GROUND_TRUTH_EVERY_N_LAUNCHES = 5"

record gate_state =
  ad_ceiling :: int
  ad_run_cap :: "int option"
  ad_gt_in_flight :: nat
  ad_last_gt_at :: real
  ad_launches_since_gt :: nat
  ad_stalled :: bool

definition new_gate_state :: "int \<Rightarrow> gate_state" where
  "new_gate_state hard =
     \<lparr>ad_ceiling = hard, ad_run_cap = None, ad_gt_in_flight = 0, ad_last_gt_at = 0,
      ad_launches_since_gt = 0, ad_stalled = False\<rparr>"

text \<open>The overrides hash; any failure to read it is an empty hash.\<close>

definition read_run_overrides :: "string hash option \<Rightarrow> string hash" where
  "read_run_overrides answer = (case answer of None \<Rightarrow> [] | Some h \<Rightarrow> h)"

definition run_cap_of :: "string hash \<Rightarrow> int option" where
  "run_cap_of h = (case map_of h ''max_parallel'' of None \<Rightarrow> None | Some raw \<Rightarrow> if raw = [] then None else py_int_text raw)"

text \<open>What a refresh reads: the clock, the tasks, and the overrides.\<close>

record ground_truth =
  gt_now :: real
  gt_count :: "nat option"
  gt_overrides :: "string hash option"

definition refresh :: "ground_truth \<Rightarrow> gate_state \<Rightarrow> gate_state" where
  "refresh g st =
     (let st1 = (case gt_count g of
            None \<Rightarrow> st\<lparr>ad_stalled := True\<rparr>
          | Some n \<Rightarrow> st\<lparr>ad_gt_in_flight := n, ad_last_gt_at := gt_now g, ad_launches_since_gt := 0,
                        ad_stalled := False\<rparr>)
      in st1\<lparr>ad_run_cap := run_cap_of (read_run_overrides (gt_overrides g))\<rparr>)"

definition effective_ceiling :: "gate_state \<Rightarrow> int" where
  "effective_ceiling st =
     (case ad_run_cap st of
        None \<Rightarrow> ad_ceiling st
      | Some cap \<Rightarrow> if 0 < cap then min (ad_ceiling st) cap else ad_ceiling st)"

definition in_flight :: "gate_state \<Rightarrow> nat" where
  "in_flight st = ad_gt_in_flight st + ad_launches_since_gt st"

definition maybe_refresh :: "ground_truth \<Rightarrow> gate_state \<Rightarrow> gate_state" where
  "maybe_refresh g st =
     (if gt_now g - ad_last_gt_at st \<le> GROUND_TRUTH_REFRESH_S then st else refresh g st)"

datatype gate_verdict = Permit | Paused | Stalled | At_capacity nat int | Planner_blocks string

text \<open>The planner's gate is a function of the tasks in flight.\<close>

definition may_launch ::
    "ground_truth \<Rightarrow> bool \<Rightarrow> (nat \<Rightarrow> bool \<times> string) \<Rightarrow> gate_state \<Rightarrow> gate_verdict \<times> gate_state" where
  "may_launch g paused planner st =
     (let st' = maybe_refresh g st
      in if paused then (Paused, st')
         else if ad_stalled st' then (Stalled, st')
         else if effective_ceiling st' \<le> int (in_flight st') then
           (At_capacity (in_flight st') (effective_ceiling st'), st')
         else (let (allowed, reason) = planner (in_flight st')
               in (if allowed then Permit else Planner_blocks reason, st')))"

definition note_launch :: "ground_truth \<Rightarrow> gate_state \<Rightarrow> gate_state" where
  "note_launch g st =
     (let st' = st\<lparr>ad_launches_since_gt := ad_launches_since_gt st + 1\<rparr>
      in if GROUND_TRUTH_EVERY_N_LAUNCHES \<le> ad_launches_since_gt st' then refresh g st' else st')"

section \<open>A launch that fails\<close>

datatype task_error = Capacity_error | Quota_error | Throttle_error | Permanent_error

definition classify_run_task_failure :: "string \<Rightarrow> string \<Rightarrow> task_error" where
  "classify_run_task_failure reason detail =
     (let low = lower (reason @ '' '' @ detail)
      in if \<exists>t \<in> set [''capacity'', ''capacityexceeded'', ''outofcapacity'', ''resource'']. occurs t low then Capacity_error
         else if \<exists>t \<in> set [''quota'', ''limitexceeded'', ''toomanytasks'', ''ecsthrottling'']. occurs t low then Quota_error
         else if occurs ''throttl'' low then Throttle_error
         else Permanent_error)"

section \<open>One turn of the loop\<close>

text \<open>
  What a launch meets: whether the family resolves, the configuration, the network, the run's
  key with the switch that enforces it, and the answer to \<open>RunTask\<close>; \<open>Sdk_raises\<close> is an exception
  of the SDK.
\<close>

datatype ecs_answer = Task_started | Task_failure string string | Sdk_raises

record launch_env =
  le_family :: bool
  le_configured :: bool
  le_network :: "refusal option"
  le_enforce_key :: bool
  le_key :: "string option"
  le_answer :: ecs_answer

datatype launch_outcome = Launch_ok | Launch_refused | Launch_failed task_error | Launch_raises

definition launch_task :: "launch_env \<Rightarrow> launch_outcome" where
  "launch_task e =
     (if \<not> le_family e then Launch_refused
      else if \<not> le_configured e \<or> le_network e \<noteq> None then Launch_refused
      else if le_key e = None \<and> le_enforce_key e then Launch_refused
      else (case le_answer e of
              Task_started \<Rightarrow> Launch_ok
            | Task_failure reason detail \<Rightarrow> Launch_failed (classify_run_task_failure reason detail)
            | Sdk_raises \<Rightarrow> Launch_raises))"

definition reference_for :: "harness_job \<Rightarrow> string \<Rightarrow> real \<Rightarrow> string option \<Rightarrow> job_reference" where
  "reference_for j handle now key =
     \<lparr>jr_run_id = hj_run_id j, jr_instance_id = hj_instance_id j, jr_attempt = hj_attempt j,
      jr_receipt_handle = handle, jr_harness_name = hj_harness_name j, jr_model_alias = hj_model_alias j,
      jr_timeout_seconds = hj_timeout_seconds j, jr_max_tokens = hj_max_tokens j,
      jr_max_cost_usd = hj_max_cost_usd j, jr_max_turns = hj_max_turns j,
      jr_context_window = hj_context_window j, jr_dispatched_at = Some (Fin now),
      jr_queue_wait_s = hj_queue_wait_s j, jr_litellm_api_key = key\<rparr>"

definition emit_dispatched :: "harness_job \<Rightarrow> result_message" where
  "emit_dispatched j = bare_result (hj_run_id j) (hj_instance_id j) (hj_attempt j) ''harness'' ''DISPATCHED'' []"

text \<open>\<open>ApproximateReceiveCount\<close>, one where it is absent or unreadable.\<close>

definition receive_count :: "string option \<Rightarrow> int" where
  "receive_count raw =
     (case raw of
        None \<Rightarrow> 1
      | Some s \<Rightarrow> if s = [] then 1 else (case py_int_text s of None \<Rightarrow> 1 | Some n \<Rightarrow> n))"

definition discard_message :: "harness_job \<Rightarrow> string option \<Rightarrow> result_message" where
  "discard_message j receives =
     bare_result (hj_run_id j) (hj_instance_id j) (hj_attempt j) ''harness''
       (if 1 < receive_count receives then ''ABORTED_IN_FLIGHT'' else ''NEVER_DISPATCHED'')
       (if 1 < receive_count receives then ''run aborted; message redelivered'' else ''run aborted'')"

datatype loop_end = Continues | Backs_off | Stops | Crashes

text \<open>
  A turn: how the loop goes on, the results sent, whether the message is deleted, and the admission
  state. The clauses of \<open>except\<close> name runtime errors, to which neither an error of the parser nor
  one of the SDK belongs.
\<close>

record turn_env =
  tn_gate :: ground_truth
  tn_paused :: bool
  tn_planner :: "nat \<Rightarrow> bool \<times> string"
  tn_message :: "(body \<times> string option) option"
  tn_aborted :: "string \<Rightarrow> bool"
  tn_launch :: launch_env
  tn_noted :: ground_truth
  tn_sent :: bool
  tn_deleted :: bool

definition discard_aborted :: "turn_env \<Rightarrow> harness_job \<Rightarrow> string option \<Rightarrow> result_message list \<times> bool" where
  "discard_aborted e j receives =
     (if tn_sent e then ([discard_message j receives], tn_deleted e) else ([], False))"

definition dispatch_turn ::
    "turn_env \<Rightarrow> gate_state \<Rightarrow> loop_end \<times> result_message list \<times> bool \<times> gate_state" where
  "dispatch_turn e st =
     (let (verdict, st1) = may_launch (tn_gate e) (tn_paused e) (tn_planner e) st
      in if verdict \<noteq> Permit then (Backs_off, [], False, st1)
         else (case tn_message e of
             None \<Rightarrow> (Continues, [], False, st1)
           | Some (b, receives) \<Rightarrow>
               (case parse_job b of
                  Inl err \<Rightarrow> (Crashes, [], False, st1)
                | Inr j \<Rightarrow>
                    if tn_aborted e (hj_run_id j) then
                      (let (out, del) = discard_aborted e j receives in (Continues, out, del, st1))
                    else (case launch_task (tn_launch e) of
                        Launch_ok \<Rightarrow>
                          (Continues, if tn_sent e then [emit_dispatched j] else [], False, note_launch (tn_noted e) st1)
                      | Launch_refused \<Rightarrow> (Continues, [], False, st1)
                      | Launch_failed Capacity_error \<Rightarrow> (Backs_off, [], False, st1)
                      | Launch_failed Throttle_error \<Rightarrow> (Backs_off, [], False, st1)
                      | Launch_failed Quota_error \<Rightarrow> (Stops, [], False, st1)
                      | Launch_failed Permanent_error \<Rightarrow> (Continues, [], False, st1)
                      | Launch_raises \<Rightarrow> (Crashes, [], False, st1)))))"

section \<open>The network gate\<close>

lemma first_refusal_None: "first_refusal xs = None \<longleftrightarrow> (\<forall>x \<in> set xs. x = None)"
  by (induction xs rule: first_refusal.induct) auto

lemma default_routes_empty:
  "default_routes tables = [] \<longleftrightarrow>
     (\<forall>t \<in> set tables. \<forall>r \<in> set t. rt_cidr r \<noteq> Some ''0.0.0.0/0'' \<and> rt_cidr6 r \<noteq> Some ''::/0'')"
  by (simp add: default_routes_def) blast

text \<open>
  The network check passes exactly when every subnet has route tables in effect, none of them
  with a default route, and no security group has open egress: a subnet whose tables cannot be
  found is refused.
\<close>

theorem isolation_gate_exact:
  "assert_isolated_network vpc main subnets groups = None \<longleftrightarrow>
     (\<forall>sn \<in> set subnets. effective_tables vpc main sn \<noteq> [] \<and>
        (\<forall>t \<in> set (effective_tables vpc main sn). \<forall>r \<in> set t.
           rt_cidr r \<noteq> Some ''0.0.0.0/0'' \<and> rt_cidr6 r \<noteq> Some ''::/0'')) \<and>
     (\<forall>g \<in> set groups. ''0.0.0.0/0'' \<notin> set (sg_egress g) \<and> ''::/0'' \<notin> set (sg_egress6 g))"
proof -
  have "check_subnet vpc main sn = None \<longleftrightarrow> effective_tables vpc main sn \<noteq> [] \<and>
      default_routes (effective_tables vpc main sn) = []" for sn
    by (simp add: check_subnet_def Let_def)
  moreover have "check_group g = None \<longleftrightarrow> ''0.0.0.0/0'' \<notin> set (sg_egress g) \<and> ''::/0'' \<notin> set (sg_egress6 g)" for g
    by (simp add: check_group_def)
  ultimately show ?thesis
    by (simp add: assert_isolated_network_def first_refusal_None default_routes_empty ball_Un)
qed

section \<open>Never above the ceiling\<close>

text \<open>
  The dispatcher together with the tasks that really run and the answer of the last read of the
  overrides, \<open>None\<close> where that read failed or there was none: the ground truth is read again, a
  task ends, or a launch is permitted and noted. A count may lag behind the truth by \<open>lag\<close> tasks,
  those launched last, which \<open>ListTasks\<close> does not show yet.
\<close>

definition truthful :: "nat \<Rightarrow> ground_truth \<Rightarrow> nat \<Rightarrow> bool" where
  "truthful lag g running \<longleftrightarrow>
     GROUND_TRUTH_REFRESH_S < gt_now g \<and> (\<forall>n. gt_count g = Some n \<longrightarrow> running \<le> n + lag)"

definition polled :: "ground_truth \<Rightarrow> gate_state \<Rightarrow> string hash option \<Rightarrow> string hash option" where
  "polled g st seen = (if gt_now g - ad_last_gt_at st \<le> GROUND_TRUTH_REFRESH_S then seen else gt_overrides g)"

definition noted :: "ground_truth \<Rightarrow> gate_state \<Rightarrow> string hash option \<Rightarrow> string hash option" where
  "noted g st seen =
     (if GROUND_TRUTH_EVERY_N_LAUNCHES \<le> ad_launches_since_gt st + 1 then gt_overrides g else seen)"

inductive dispatcher_reach :: "int \<Rightarrow> nat \<Rightarrow> gate_state \<Rightarrow> nat \<Rightarrow> string hash option \<Rightarrow> bool" for hard lag where
  reach_start: "dispatcher_reach hard lag (new_gate_state hard) running None"
| reach_poll: "dispatcher_reach hard lag st running seen \<Longrightarrow> truthful lag g running \<Longrightarrow>
    dispatcher_reach hard lag (maybe_refresh g st) running (polled g st seen)"
| reach_end: "dispatcher_reach hard lag st (Suc running) seen \<Longrightarrow> dispatcher_reach hard lag st running seen"
| reach_launch: "dispatcher_reach hard lag st running seen \<Longrightarrow> truthful lag g running \<Longrightarrow>
    may_launch g paused planner st = (Permit, st') \<Longrightarrow> truthful lag g' (Suc running) \<Longrightarrow>
    dispatcher_reach hard lag (note_launch g' st') (Suc running) (noted g' st' (polled g st seen))"

definition counted_in :: "int \<Rightarrow> nat \<Rightarrow> gate_state \<Rightarrow> nat \<Rightarrow> string hash option \<Rightarrow> bool" where
  "counted_in hard lag st running seen \<longleftrightarrow>
     ad_ceiling st = hard \<and> (running \<le> in_flight st + lag \<or> ad_last_gt_at st = 0) \<and>
     (\<forall>h raw c. seen = Some h \<and> map_of h ''max_parallel'' = Some raw \<and> raw \<noteq> [] \<and> py_int_text raw = Some c \<longrightarrow>
        ad_run_cap st = Some c)"

lemma refresh_ceiling [simp]: "ad_ceiling (refresh g st) = ad_ceiling st"
  by (simp add: refresh_def Let_def split: option.splits)

lemma refresh_counted:
  "counted_in hard lag st running seen \<Longrightarrow> truthful lag g running \<Longrightarrow>
     counted_in hard lag (refresh g st) running (gt_overrides g)"
  by (auto simp: counted_in_def refresh_def truthful_def in_flight_def run_cap_of_def read_run_overrides_def Let_def
      split: option.splits)

lemma maybe_refresh_counted:
  "counted_in hard lag st running seen \<Longrightarrow> truthful lag g running \<Longrightarrow>
     counted_in hard lag (maybe_refresh g st) running (polled g st seen)"
  by (simp add: maybe_refresh_def polled_def refresh_counted)

lemma permitD:
  assumes "may_launch g paused planner st = (Permit, st')"
  shows "st' = maybe_refresh g st \<and> \<not> paused \<and> \<not> ad_stalled st' \<and>
    int (in_flight st') < effective_ceiling st' \<and> fst (planner (in_flight st'))"
  using assms by (auto simp: may_launch_def Let_def split: if_splits prod.splits)

text \<open>A launch is permitted only on a ground truth that was read.\<close>

lemma permit_read:
  assumes "may_launch g paused planner st = (Permit, st')" "truthful lag g running"
  shows "ad_last_gt_at st' \<noteq> 0"
proof
  assume z: "ad_last_gt_at st' = 0"
  from permitD [OF assms(1)] have st': "st' = maybe_refresh g st" "\<not> ad_stalled st'" by blast+
  with z assms(2) show False
    by (auto simp: maybe_refresh_def refresh_def truthful_def GROUND_TRUTH_REFRESH_S_def Let_def
        split: if_splits option.splits)
qed

lemma note_launch_counted:
  assumes "counted_in hard lag st running seen" "ad_last_gt_at st \<noteq> 0" "truthful lag g (Suc running)"
  shows "counted_in hard lag (note_launch g st) (Suc running) (noted g st seen)"
proof -
  have "counted_in hard lag (st\<lparr>ad_launches_since_gt := ad_launches_since_gt st + 1\<rparr>) (Suc running) seen"
    using assms(1,2) unfolding counted_in_def in_flight_def by simp blast
  then show ?thesis by (simp add: note_launch_def noted_def Let_def refresh_counted [OF _ assms(3)])
qed

lemma reach_counted: "dispatcher_reach hard lag st running seen \<Longrightarrow> counted_in hard lag st running seen"
proof (induction rule: dispatcher_reach.induct)
  case (reach_start running)
  then show ?case by (simp add: counted_in_def new_gate_state_def)
next
  case (reach_poll st running seen g)
  then show ?case by (simp add: maybe_refresh_counted)
next
  case (reach_end st running seen)
  then show ?case by (auto simp: counted_in_def)
next
  case (reach_launch st running seen g paused planner st' g')
  then have "counted_in hard lag st' running (polled g st seen)"
    using maybe_refresh_counted permitD by metis
  then show ?case using note_launch_counted permit_read reach_launch by blast
qed

lemma effective_ceiling_le: "effective_ceiling st \<le> ad_ceiling st"
  by (simp add: effective_ceiling_def split: option.split)

text \<open>
  C25: If no count of the running tasks misses more than \<open>lag\<close> of them, no launch is permitted that
  would take the tasks that really run more than \<open>lag\<close> above the configured ceiling, or above the
  positive run cap that the last read of the overrides, before or at this launch, found; nor is one
  while the harness is paused or a count has failed. This holds whatever was launched, ended or
  could not be counted before.
\<close>

theorem launches_stay_below_ceiling:
  assumes "dispatcher_reach hard lag st running seen" "truthful lag g running"
    "may_launch g paused planner st = (Permit, st')"
  shows "int running + 1 \<le> hard + int lag \<and>
    (\<forall>h raw c. polled g st seen = Some h \<and> map_of h ''max_parallel'' = Some raw \<and> raw \<noteq> [] \<and>
       py_int_text raw = Some c \<and> 0 < c \<longrightarrow> int running + 1 \<le> c + int lag) \<and>
    \<not> paused \<and> \<not> ad_stalled st'"
proof -
  have c: "counted_in hard lag st' running (polled g st seen)"
    using maybe_refresh_counted [OF reach_counted [OF assms(1)] assms(2)] permitD [OF assms(3)] by simp
  with permit_read [OF assms(3,2)] have r: "running \<le> in_flight st' + lag" by (simp add: counted_in_def)
  note p = permitD [OF assms(3)]
  from p c r effective_ceiling_le [of st'] have "int running + 1 \<le> hard + int lag"
    by (auto simp: counted_in_def)
  moreover have "int running + 1 \<le> cap + int lag"
    if "polled g st seen = Some h" "map_of h ''max_parallel'' = Some raw" "raw \<noteq> []" "py_int_text raw = Some cap" "0 < cap"
    for h raw cap
  proof -
    have "ad_run_cap st' = Some cap" using c that by (simp add: counted_in_def)
    then have "effective_ceiling st' \<le> cap" using that(5) by (simp add: effective_ceiling_def)
    with p r show ?thesis by linarith
  qed
  ultimately show ?thesis using p by blast
qed

text \<open>
  When the overrides of a run cannot be read, its cap is forgotten rather than kept: the next
  refresh lets the fleet grow to the configured ceiling, although the cap still stands in Redis.
\<close>

theorem unreadable_overrides_drop_the_cap:
  assumes "gt_overrides g = None"
  shows "effective_ceiling (refresh g st) = ad_ceiling st \<and>
    (gt_count g = Some n \<and> int n < ad_ceiling st \<and> GROUND_TRUTH_REFRESH_S < gt_now g - ad_last_gt_at st \<longrightarrow>
       fst (may_launch g False (\<lambda>_. (True, [])) st) = Permit)"
  using assms
  by (auto simp: effective_ceiling_def refresh_def run_cap_of_def read_run_overrides_def may_launch_def
      maybe_refresh_def in_flight_def Let_def split: option.splits)

section \<open>What ends the loop\<close>

text \<open>
  The loop ends on two kinds of message besides a quota failure: one that does not parse, which
  it neither deletes nor refuses, and one whose launch raises in the SDK; whatever else happens, it
  goes on. A message is deleted only for an aborted run, after its result was sent.
\<close>

theorem what_ends_the_loop:
  assumes "may_launch (tn_gate e) (tn_paused e) (tn_planner e) st = (Permit, st1)"
    "tn_message e = Some (b, receives)" "dispatch_turn e st = (how, out, deleted, st2)"
  shows "(how = Crashes \<longleftrightarrow>
      (case parse_job b of
         Inl err \<Rightarrow> True
       | Inr j \<Rightarrow> \<not> tn_aborted e (hj_run_id j) \<and> launch_task (tn_launch e) = Launch_raises)) \<and>
    (how = Stops \<longleftrightarrow>
      (\<exists>j. parse_job b = Inr j \<and> \<not> tn_aborted e (hj_run_id j) \<and>
         launch_task (tn_launch e) = Launch_failed Quota_error)) \<and>
    (deleted \<longrightarrow> (\<exists>j. parse_job b = Inr j \<and> tn_aborted e (hj_run_id j) \<and> out = [discard_message j receives]))"
  using assms
  by (auto simp: dispatch_turn_def discard_aborted_def split: sum.splits launch_outcome.splits task_error.splits if_splits)

text \<open>
  A failed launch is classified by the first of four tests its reason and detail pass, whatever
  their case: anything that mentions a resource is a lack of capacity to be retried, even where it
  also names a quota or a limit.
\<close>

theorem resource_is_capacity:
  assumes "occurs ''resource'' (lower (reason @ '' '' @ detail))"
  shows "classify_run_task_failure reason detail = Capacity_error"
  using assms by (simp add: classify_run_task_failure_def Let_def)

section \<open>Examples\<close>

definition idle_truth :: ground_truth where
  "idle_truth = \<lparr>gt_now = 100, gt_count = Some 0, gt_overrides = None\<rparr>"

definition stray_turn :: turn_env where
  "stray_turn = \<lparr>tn_gate = idle_truth, tn_paused = False, tn_planner = (\<lambda>_. (True, [])),
     tn_message = Some (\<lparr>bd_text = (\<lambda>_. None), bd_val = (\<lambda>_. None)\<rparr>, None), tn_aborted = (\<lambda>_. False),
     tn_launch = \<lparr>le_family = True, le_configured = True, le_network = None, le_enforce_key = False,
       le_key = None, le_answer = Task_started\<rparr>, tn_noted = idle_truth, tn_sent = True, tn_deleted = True\<rparr>"

lemma idle_permit:
  "\<exists>st'. may_launch idle_truth False (\<lambda>_. (True, [])) (new_gate_state 2) = (Permit, st')"
  by (simp add: may_launch_def maybe_refresh_def refresh_def idle_truth_def new_gate_state_def in_flight_def
      effective_ceiling_def run_cap_of_def read_run_overrides_def GROUND_TRUTH_REFRESH_S_def Let_def)

definition capped_truth :: ground_truth where
  "capped_truth = \<lparr>gt_now = 100, gt_count = Some 1, gt_overrides = Some [(''max_parallel'', ''3'')]\<rparr>"

text \<open>A third task starts where two run, the cap is three, and \<open>ListTasks\<close> shows one of them.\<close>

theorem launches_stay_below_ceiling_witness:
  "\<exists>st'. may_launch capped_truth False (\<lambda>_. (True, [])) (new_gate_state 50) = (Permit, st') \<and>
     int 2 + 1 \<le> 50 + int 1 \<and> int 2 + 1 \<le> (3::int) + int 1"
proof -
  have three: "py_int_text ''3'' = Some 3" by code_simp
  have "\<exists>st'. may_launch capped_truth False (\<lambda>_. (True, [])) (new_gate_state 50) = (Permit, st')"
    by (simp add: may_launch_def maybe_refresh_def refresh_def capped_truth_def new_gate_state_def in_flight_def
        effective_ceiling_def run_cap_of_def read_run_overrides_def GROUND_TRUTH_REFRESH_S_def Let_def three)
  then obtain st' where p: "may_launch capped_truth False (\<lambda>_. (True, [])) (new_gate_state 50) = (Permit, st')" by blast
  have t: "truthful 1 capped_truth 2" by (simp add: truthful_def capped_truth_def GROUND_TRUTH_REFRESH_S_def)
  have s: "polled capped_truth (new_gate_state 50) None = Some [(''max_parallel'', ''3'')]"
    by (simp add: polled_def capped_truth_def new_gate_state_def GROUND_TRUTH_REFRESH_S_def)
  from launches_stay_below_ceiling [OF reach_start t p] s three p show ?thesis by fastforce
qed

theorem unreadable_overrides_drop_the_cap_witness:
  "effective_ceiling ((new_gate_state 50)\<lparr>ad_run_cap := Some 3\<rparr>) = 3 \<and>
   effective_ceiling (refresh idle_truth ((new_gate_state 50)\<lparr>ad_run_cap := Some 3\<rparr>)) = 50"
proof -
  have "gt_overrides idle_truth = None" by (simp add: idle_truth_def)
  from unreadable_overrides_drop_the_cap [OF this] show ?thesis
    by (simp add: effective_ceiling_def new_gate_state_def)
qed

theorem what_ends_the_loop_witness:
  "fst (dispatch_turn stray_turn (new_gate_state 2)) = Crashes"
proof -
  obtain st1 where p: "may_launch (tn_gate stray_turn) (tn_paused stray_turn) (tn_planner stray_turn) (new_gate_state 2) = (Permit, st1)"
    using idle_permit by (auto simp: stray_turn_def)
  obtain how out deleted st2 where d: "dispatch_turn stray_turn (new_gate_state 2) = (how, out, deleted, st2)"
    by (metis prod_cases4)
  have m: "tn_message stray_turn = Some (\<lparr>bd_text = (\<lambda>_. None), bd_val = (\<lambda>_. None)\<rparr>, None)"
    by (simp add: stray_turn_def)
  from what_ends_the_loop [OF p m d] d show ?thesis
    by (simp add: parse_job_def need_text_def sum_bind_def)
qed

theorem resource_is_capacity_witness:
  "classify_run_task_failure ''ResourceLimitExceeded'' ''quota'' = Capacity_error"
  by (rule resource_is_capacity) code_simp

text \<open>One isolated subnet on the main table, one security group without open egress.\<close>

theorem isolation_gate_exact_witness:
  "assert_isolated_network ''vpc'' [[\<lparr>rt_cidr = Some ''10.0.0.0/16'', rt_cidr6 = None\<rparr>]]
     [\<lparr>sn_id = ''a'', sn_explicit = []\<rparr>] [\<lparr>sg_id = ''g'', sg_egress = [''10.0.0.0/16''], sg_egress6 = []\<rparr>] = None"
  unfolding isolation_gate_exact by (simp add: effective_tables_def)

end
