(* ===== verification/Demand_Model.thy ===== *)
theory Demand_Model
  imports Prelude
begin

text \<open>
  The demand model of \<open>harness_dispatcher.py\<close> (class \<open>DemandModel\<close>) and its fitted curves in
  \<open>swebench_eval/orchestrator/control_plane/demand_curves.py\<close>: how many tokens a task's next call
  sends, how long a call and a turn take, how likely the task still runs at a horizon, and which
  curve a pool and a harness are given. The document is the parsed JSON; a field that is absent is
  \<open>None\<close> or its default. Reading the file and the log are left out.
\<close>

section \<open>The model of one curve\<close>

definition POOLED_A :: real where "POOLED_A = 12315"
definition POOLED_B :: real where "POOLED_B = 515"
definition TURN_PERIOD_FLOOR_S :: real where "TURN_PERIOD_FLOOR_S = 2"
definition MEDIAN_TOOL_TIME_S :: real where "MEDIAN_TOOL_TIME_S = 68 / 10"
definition SURVIVAL_TABLE :: "(int \<times> real) list" where
  "SURVIVAL_TABLE = [(0, 79 / 100), (40, 78 / 100), (80, 71 / 100), (120, 86 / 100)]"
definition LATENCY_INTERCEPT_S :: real where "LATENCY_INTERCEPT_S = 1"
definition LATENCY_PER_TOKEN_S :: real where "LATENCY_PER_TOKEN_S = 124 / 10 / 213000"
definition COMPACTION_CAP :: real where "COMPACTION_CAP = 235929"

record demand_model =
  dm_a :: real
  dm_b :: real
  dm_cap :: real
  dm_source :: string
  dm_latency_s :: "real option"
  dm_turn_period_s :: "real option"
  dm_survival :: "(int \<times> real) list"
  dm_survival_attempts :: "int option"
  dm_cached_share :: real
  dm_floor :: "(real \<times> real) option"

definition clamp01 :: "real \<Rightarrow> real" where
  "clamp01 x = min 1 (max 0 x)"

definition tokens_per_call :: "demand_model \<Rightarrow> real \<Rightarrow> real" where
  "tokens_per_call m turn = min (dm_a m + dm_b m * turn) (dm_cap m)"

definition base_latency_s :: "demand_model \<Rightarrow> real \<Rightarrow> real" where
  "base_latency_s m context_tokens =
     (case dm_latency_s m of
        Some l \<Rightarrow> l
      | None \<Rightarrow> LATENCY_INTERCEPT_S + context_tokens * LATENCY_PER_TOKEN_S)"

definition base_period_s :: "demand_model \<Rightarrow> real \<Rightarrow> real" where
  "base_period_s m context_tokens =
     (case dm_turn_period_s m of
        Some p \<Rightarrow> max TURN_PERIOD_FLOOR_S p
      | None \<Rightarrow> max TURN_PERIOD_FLOOR_S (base_latency_s m context_tokens + MEDIAN_TOOL_TIME_S))"

text \<open>The floor is the pool's own latency at its window, scaled by the context.\<close>

definition call_latency_s :: "demand_model \<Rightarrow> real \<Rightarrow> real" where
  "call_latency_s m context_tokens =
     (case dm_floor m of
        None \<Rightarrow> base_latency_s m context_tokens
      | Some (floor_s, max_context) \<Rightarrow>
          max (base_latency_s m context_tokens) (floor_s * clamp01 (context_tokens / max_context)))"

definition turn_period_s :: "demand_model \<Rightarrow> real \<Rightarrow> real" where
  "turn_period_s m context_tokens =
     (case dm_floor m of
        None \<Rightarrow> base_period_s m context_tokens
      | Some f \<Rightarrow>
          (let borrowed = base_period_s m context_tokens;
               non_llm = max 0 (borrowed - base_latency_s m context_tokens)
           in max borrowed (non_llm + call_latency_s m context_tokens)))"

definition with_latency_floor :: "real \<Rightarrow> real \<Rightarrow> demand_model \<Rightarrow> demand_model" where
  "with_latency_floor floor_s max_context m =
     m\<lparr>dm_floor := Some (floor_s, max_context), dm_source := dm_source m @ ''+latency:discovery_floor''\<rparr>"

definition is_own_curve :: "demand_model \<Rightarrow> bool" where
  "is_own_curve m =
     (let head = takeWhile (\<lambda>c. c \<noteq> CHR ''+'') (dm_source m)
      in if prefix ''fitted:harness:'' head \<or> head = ''fitted:pooled'' then False
         else prefix ''fitted:'' head \<and> CHR ''|'' \<in> set head)"

text \<open>The row of the table at or below the turn, or else its first row.\<close>

definition survival_row :: "(int \<times> real) list \<Rightarrow> real \<Rightarrow> real" where
  "survival_row table t =
     (let ks = filter (\<lambda>k. of_int k \<le> t) (map fst table);
          row = (if ks = [] then Min (set (map fst table)) else Max (set ks))
      in (case map_of table row of None \<Rightarrow> 0 | Some p \<Rightarrow> p))"

lemma base_period_floor: "2 \<le> base_period_s m c"
  by (simp add: base_period_s_def TURN_PERIOD_FLOOR_S_def split: option.split)

lemma turn_period_floor: "2 \<le> turn_period_s m c"
  using base_period_floor [of m c]
  by (cases "dm_floor m") (simp_all add: turn_period_s_def Let_def le_max_iff_disj)

function survival_from :: "demand_model \<Rightarrow> real \<Rightarrow> real \<Rightarrow> real \<Rightarrow> real" where
  "survival_from m t remaining p =
     (if remaining \<le> 0 then p
      else (let period = turn_period_s m (tokens_per_call m t);
                window = 20 * period;
                step = min remaining window
            in survival_from m (t + step / period) (remaining - step)
                 (p * survival_row (dm_survival m) t powr (step / window))))"
  by auto
termination
proof (relation "measure (\<lambda>(m, t, remaining, p). nat \<lceil>remaining\<rceil>)")
  fix m t remaining p and period window step :: real
  assume h: "\<not> remaining \<le> 0" "period = turn_period_s m (tokens_per_call m t)" "window = 20 * period"
    "step = min remaining window"
  have "40 \<le> window" using turn_period_floor h(2,3) by simp
  then consider "step = remaining" | "1 \<le> step" using h(1,4) by linarith
  then have "\<lceil>remaining - step\<rceil> < \<lceil>remaining\<rceil>"
  proof cases
    case 2
    then show ?thesis using ceiling_mono [of "remaining - step" "remaining - 1"] by simp
  qed (use h(1) in simp)
  moreover have "0 < \<lceil>remaining\<rceil>" using h(1) by simp
  ultimately show "((m, t + step / period, remaining - step, p * survival_row (dm_survival m) t powr (step / window)),
      m, t, remaining, p) \<in> measure (\<lambda>(m, t, remaining, p). nat \<lceil>remaining\<rceil>)"
    by simp
qed simp

declare survival_from.simps [simp del]

definition survival :: "demand_model \<Rightarrow> real \<Rightarrow> real \<Rightarrow> real" where
  "survival m turn horizon_s = survival_from m turn horizon_s 1"

section \<open>The fitted curves\<close>

definition MIN_CALLS :: int where "MIN_CALLS = 30"
definition MIN_SURVIVAL_ATTEMPTS :: int where "MIN_SURVIVAL_ATTEMPTS = 20"

record curve_group =
  cg_n :: int
  cg_insufficient :: bool
  cg_a :: real
  cg_b :: real
  cg_latency_s :: "real option"
  cg_turn_period_s :: "real option"
  cg_survival :: "(int \<times> real) list"
  cg_attempts :: int
  cg_cached_share :: real

record curve_document =
  cd_groups :: "(string \<times> curve_group) list"
  cd_pooled :: "curve_group option"

text \<open>The entry with the most calls, the first among equals.\<close>

definition best_group :: "(string \<times> curve_group) list \<Rightarrow> (string \<times> curve_group) option" where
  "best_group gs = top_row (\<lambda>x y. cg_n (snd y) < cg_n (snd x)) gs"

definition group_key :: "string \<Rightarrow> string \<Rightarrow> string" where
  "group_key pool harness = pool @ ''|'' @ harness"

definition own_group :: "curve_document \<Rightarrow> string \<Rightarrow> string \<Rightarrow> curve_group option" where
  "own_group doc pool harness =
     (if pool = [] \<or> harness = [] then None
      else case map_of (cd_groups doc) (group_key pool harness) of
          None \<Rightarrow> None
        | Some g \<Rightarrow> if cg_insufficient g \<or> cg_n g < MIN_CALLS then None else Some g)"

definition harness_groups :: "curve_document \<Rightarrow> string \<Rightarrow> (string \<times> curve_group) list" where
  "harness_groups doc harness =
     filter (\<lambda>(k, g). suffix (CHR ''|'' # harness) k \<and> \<not> cg_insufficient g) (cd_groups doc)"

definition select_group :: "curve_document \<Rightarrow> string \<Rightarrow> string \<Rightarrow> curve_group option \<times> string" where
  "select_group doc pool harness =
     (case own_group doc pool harness of
        Some g \<Rightarrow> (Some g, ''fitted:'' @ group_key pool harness)
      | None \<Rightarrow>
          (case (if harness = [] then None else best_group (harness_groups doc harness)) of
             Some (k, g) \<Rightarrow> (Some g, ''fitted:harness:'' @ k)
           | None \<Rightarrow>
               (case cd_pooled doc of
                  Some g \<Rightarrow> if MIN_CALLS \<le> cg_n g then (Some g, ''fitted:pooled'') else (None, ''pooled_default'')
                | None \<Rightarrow> (None, ''pooled_default''))))"

definition pool_latency_period :: "curve_document \<Rightarrow> string \<Rightarrow> real option \<times> real option" where
  "pool_latency_period doc pool =
     (case best_group (filter (\<lambda>(k, g). pool \<noteq> [] \<and> prefix (pool @ ''|'') k \<and> cg_turn_period_s g \<noteq> None)
             (cd_groups doc)) of
        None \<Rightarrow> (None, None)
      | Some (k, g) \<Rightarrow> (cg_latency_s g, cg_turn_period_s g))"

definition first_some :: "'a option \<Rightarrow> 'a option \<Rightarrow> 'a option" where
  "first_some x y = (case x of Some v \<Rightarrow> Some v | None \<Rightarrow> y)"

definition default_demand :: "string \<Rightarrow> demand_model" where
  "default_demand source =
     \<lparr>dm_a = POOLED_A, dm_b = POOLED_B, dm_cap = COMPACTION_CAP, dm_source = source, dm_latency_s = None,
      dm_turn_period_s = None, dm_survival = SURVIVAL_TABLE, dm_survival_attempts = None,
      dm_cached_share = 0, dm_floor = None\<rparr>"

text \<open>Which survival table a group is given, the attempts behind it, and what fell through.\<close>

definition group_survival ::
    "curve_document \<Rightarrow> curve_group \<Rightarrow> (int \<times> real) list \<times> int \<times> string list" where
  "group_survival doc g =
     (if cg_survival g \<noteq> [] \<and> MIN_SURVIVAL_ATTEMPTS \<le> cg_attempts g then (cg_survival g, cg_attempts g, [])
      else case cd_pooled doc of
          Some p \<Rightarrow> if cg_survival p \<noteq> [] then (cg_survival p, 0, [''survival:pooled'']) else (SURVIVAL_TABLE, 0, [])
        | None \<Rightarrow> (SURVIVAL_TABLE, 0, []))"

text \<open>Latency and period through the fallbacks, in the order of the code.\<close>

definition group_timing ::
    "curve_document \<Rightarrow> string \<Rightarrow> string \<Rightarrow> curve_group \<Rightarrow> (real option \<times> real option) \<times> string list" where
  "group_timing doc pool source g =
     (let (pl, pp) = pool_latency_period doc pool;
          l0 = cg_latency_s g; p0 = cg_turn_period_s g;
          shared = prefix ''fitted:harness'' source;
          (l1, p1) = (if (l0 = None \<or> p0 = None) \<and> \<not> shared then (first_some l0 pl, first_some p0 pp) else (l0, p0));
          (l2, p2) = (if shared \<and> pl \<noteq> None then (pl, pp) else (l1, p1));
          fell1 = (if shared \<and> pl = None then [''latency/period:other-pool''] else [])
      in case cd_pooled doc of
          Some p \<Rightarrow>
            if l2 = None \<or> p2 = None then
              ((first_some l2 (cg_latency_s p), first_some p2 (cg_turn_period_s p)), fell1 @ [''latency/period:pooled''])
            else ((l2, p2), fell1)
        | None \<Rightarrow> ((l2, p2), fell1))"

fun join_with :: "string \<Rightarrow> string list \<Rightarrow> string" where
  "join_with sep [] = []"
| "join_with sep [x] = x"
| "join_with sep (x # xs) = x @ sep @ join_with sep xs"

definition model_for :: "curve_document \<Rightarrow> string \<Rightarrow> string \<Rightarrow> demand_model" where
  "model_for doc pool harness =
     (case select_group doc pool harness of
        (None, source) \<Rightarrow> default_demand ''pooled_default''
      | (Some g, source) \<Rightarrow>
          (let (table, attempts, fell) = group_survival doc g;
               ((latency, period), fell') = group_timing doc pool source g;
               all = fell @ fell'
           in \<lparr>dm_a = cg_a g, dm_b = cg_b g, dm_cap = COMPACTION_CAP,
               dm_source = source @ (if all = [] then [] else ''+'' @ join_with '','' all),
               dm_latency_s = latency, dm_turn_period_s = period, dm_survival = table,
               dm_survival_attempts = Some attempts, dm_cached_share = clamp01 (cg_cached_share g),
               dm_floor = None\<rparr>))"

section \<open>Survival\<close>

definition proper_table :: "(int \<times> real) list \<Rightarrow> bool" where
  "proper_table table \<longleftrightarrow> table \<noteq> [] \<and> list_all (\<lambda>(k, p). 0 \<le> p \<and> p \<le> 1) table"

lemma survival_row_bounds:
  assumes "proper_table table"
  shows "0 \<le> survival_row table t \<and> survival_row table t \<le> 1"
proof -
  have "0 \<le> p \<and> p \<le> 1" if "map_of table k = Some p" for k p
    using map_of_SomeD [OF that] assms by (auto simp: proper_table_def list_all_iff)
  then show ?thesis by (auto simp: survival_row_def Let_def split: option.split)
qed

lemma survival_from_factor: "survival_from m t remaining q = q * survival_from m t remaining 1"
proof -
  have "\<forall>q. survival_from m t remaining q = q * survival_from m t remaining 1" for p :: real
  proof (induction m t remaining p rule: survival_from.induct)
    case (1 m t remaining p)
    show ?case
    proof (cases "remaining \<le> 0")
      case True
      then show ?thesis by (simp add: survival_from.simps)
    next
      case False
      let ?period = "turn_period_s m (tokens_per_call m t)"
      let ?step = "min remaining (20 * ?period)"
      let ?S = "survival_from m (t + ?step / ?period) (remaining - ?step)"
      let ?v = "survival_row (dm_survival m) t powr (?step / (20 * ?period))"
      have unf: "survival_from m t remaining q = ?S (q * ?v)" for q
        by (subst survival_from.simps) (use False in \<open>simp add: Let_def\<close>)
      have ih: "?S q = q * ?S 1" for q using 1 [OF False refl refl refl] by blast
      show ?thesis
      proof
        fix q
        show "survival_from m t remaining q = q * survival_from m t remaining 1"
          unfolding unf ih [of "q * ?v"] ih [of "1 * ?v"] by simp
      qed
    qed
  qed
  then show ?thesis by blast
qed

definition window_s :: "demand_model \<Rightarrow> real \<Rightarrow> real" where
  "window_s m t = 20 * turn_period_s m (tokens_per_call m t)"

lemma window_s_pos: "40 \<le> window_s m t"
  using turn_period_floor by (simp add: window_s_def)

text \<open>The loop by windows: a whole one, or a last part of one.\<close>

lemma survival_zero: "h \<le> 0 \<Longrightarrow> survival m t h = 1"
  by (simp add: survival_def survival_from.simps)

lemma survival_part:
  assumes "0 < h" "h \<le> window_s m t"
  shows "survival m t h = survival_row (dm_survival m) t powr (h / window_s m t)"
  unfolding survival_def
  by (subst survival_from.simps)
    (use assms in \<open>simp add: Let_def window_s_def min_absorb1 survival_from.simps [of _ _ 0]\<close>)

lemma survival_whole:
  assumes "window_s m t \<le> h"
  shows "survival m t h = survival_row (dm_survival m) t powr 1 * survival m (t + 20) (h - window_s m t)"
proof -
  have w: "0 < window_s m t" using window_s_pos [of m t] by linarith
  have p: "0 < turn_period_s m (tokens_per_call m t)" using turn_period_floor [of m "tokens_per_call m t"] by linarith
  have "survival_from m t h 1 = survival_from m (t + 20) (h - window_s m t) (survival_row (dm_survival m) t powr 1)"
    by (subst survival_from.simps) (use assms w p in \<open>simp add: Let_def window_s_def min_absorb2\<close>)
  then show ?thesis unfolding survival_def by (simp add: survival_from_factor [symmetric])
qed

lemma survival_bounds:
  assumes "proper_table (dm_survival m)"
  shows "0 \<le> survival m t h \<and> survival m t h \<le> 1"
proof (induction "nat \<lceil>h\<rceil>" arbitrary: t h rule: less_induct)
  case less
  let ?v = "survival_row (dm_survival m) t"
  note v = survival_row_bounds [OF assms, of t]
  consider "h \<le> 0" | "0 < h" "h \<le> window_s m t" | "window_s m t < h" by linarith
  then show ?case
  proof cases
    case 2
    then show ?thesis using v window_s_pos [of m t] by (simp add: survival_part powr_le1)
  next
    case 3
    have "nat \<lceil>h - window_s m t\<rceil> < nat \<lceil>h\<rceil>"
      using ceiling_mono [of "h - window_s m t" "h - 1"] window_s_pos [of m t] 3 by (simp add: nat_mono_iff)
    from less [OF this, of "t + 20"] v 3 show ?thesis
      by (simp add: survival_whole mult_le_one)
  qed (simp add: survival_zero)
qed

text \<open>
  The chance that a task still runs is a probability, falls with the horizon, and is one at
  once: with a table of probabilities, the loop over windows of twenty turns, whose length depends
  on the growing context, terminates with a value between zero and one that never rises when the
  horizon is moved out.
\<close>

theorem survival_is_a_probability:
  assumes "proper_table (dm_survival m)" "h \<le> h'"
  shows "0 \<le> survival m t h' \<and> survival m t h' \<le> survival m t h \<and> survival m t h \<le> 1"
proof -
  have "survival m t h' \<le> survival m t h" using assms(2)
  proof (induction "nat \<lceil>h'\<rceil>" arbitrary: t h h' rule: less_induct)
    case less
    let ?v = "survival_row (dm_survival m) t"
    note v = survival_row_bounds [OF assms(1), of t]
    note w = window_s_pos [of m t]
    consider "h \<le> 0" | "0 < h" "h' \<le> window_s m t" | "0 < h" "window_s m t < h'" by linarith
    then show ?case
    proof cases
      case 1
      then show ?thesis using survival_bounds [OF assms(1)] by (simp add: survival_zero)
    next
      case 2
      then have "?v powr (h' / window_s m t) \<le> ?v powr (h / window_s m t)"
        using v w less.prems by (intro powr_mono') (auto simp: divide_right_mono)
      with 2 less.prems show ?thesis by (simp add: survival_part)
    next
      case 3
      have smaller: "nat \<lceil>h' - window_s m t\<rceil> < nat \<lceil>h'\<rceil>"
        using ceiling_mono [of "h' - window_s m t" "h' - 1"] w 3 by (simp add: nat_mono_iff)
      show ?thesis
      proof (cases "window_s m t \<le> h")
        case True
        then have "survival m (t + 20) (h' - window_s m t) \<le> survival m (t + 20) (h - window_s m t)"
          using less.hyps [OF smaller] less.prems by simp
        with True 3 v show ?thesis by (simp add: survival_whole mult_left_mono)
      next
        case False
        have "?v powr 1 \<le> ?v powr (h / window_s m t)"
          using v w 3 False by (intro powr_mono') (auto simp: divide_le_eq)
        moreover have "survival m t h' \<le> ?v powr 1"
          using 3 v survival_bounds [OF assms(1), of "t + 20" "h' - window_s m t"]
          by (simp add: survival_whole mult_left_le)
        ultimately show ?thesis using 3 False by (simp add: survival_part)
      qed
    qed
  qed
  with survival_bounds [OF assms(1)] show ?thesis by blast
qed

section \<open>The floor\<close>

lemma takeWhile_stop: "\<not> P c \<Longrightarrow> takeWhile P (xs @ c # cs) = takeWhile P xs"
  by (induction xs) auto

text \<open>
  The latency floor only slows a curve down: with it a call and a turn take at least as long
  as before, a turn at least as long as its call, so that a task never has more than one call in
  flight, and the curve does not become the pool's own.
\<close>

theorem latency_floor_is_conservative:
  assumes "dm_floor m = None"
  shows "call_latency_s m c \<le> call_latency_s (with_latency_floor f w m) c \<and>
    turn_period_s m c \<le> turn_period_s (with_latency_floor f w m) c \<and>
    call_latency_s (with_latency_floor f w m) c \<le> turn_period_s (with_latency_floor f w m) c \<and>
    (is_own_curve (with_latency_floor f w m) \<longleftrightarrow> is_own_curve m)"
proof -
  let ?m = "with_latency_floor f w m"
  have bl: "base_latency_s ?m = base_latency_s m"
    by (rule ext) (simp add: with_latency_floor_def base_latency_s_def)
  have tp: "dm_turn_period_s ?m = dm_turn_period_s m" "dm_floor ?m = Some (f, w)"
    by (simp_all add: with_latency_floor_def)
  have bp: "base_period_s ?m = base_period_s m"
    by (rule ext) (simp only: base_period_s_def tp bl)
  note fl = bl tp(2) bp
  have "takeWhile (\<lambda>c. c \<noteq> CHR ''+'') (dm_source m @ CHR ''+'' # cs) = takeWhile (\<lambda>c. c \<noteq> CHR ''+'') (dm_source m)" for cs
    by (simp add: takeWhile_stop)
  then have own: "is_own_curve ?m \<longleftrightarrow> is_own_curve m"
    unfolding is_own_curve_def with_latency_floor_def by simp
  have lat: "call_latency_s m c = base_latency_s m c" "base_latency_s m c \<le> call_latency_s ?m c"
    unfolding call_latency_s_def fl using assms by simp_all
  have per: "turn_period_s m c = base_period_s m c"
    "turn_period_s ?m c = max (base_period_s m c) (max 0 (base_period_s m c - base_latency_s m c) + call_latency_s ?m c)"
    unfolding turn_period_s_def fl using assms by (simp_all add: Let_def)
  show ?thesis using lat per own by (simp add: le_max_iff_disj)
qed

section \<open>Which curve\<close>

lemma head_stops: "CHR ''+'' \<notin> set xs \<Longrightarrow> takeWhile (\<lambda>c. c \<noteq> CHR ''+'') (xs @ (if b then [] else ''+'' @ ys)) = xs"
proof -
  assume h: "CHR ''+'' \<notin> set xs"
  then have "takeWhile (\<lambda>c. c \<noteq> CHR ''+'') xs = xs" by (induction xs) auto
  then show ?thesis by (simp add: takeWhile_stop)
qed

lemma prefix_before:
  assumes "prefix xs (ys @ c # zs)" "c \<notin> set xs"
  shows "prefix xs ys"
proof -
  from assms(1) consider "prefix xs ys" | us where "xs = ys @ us" "prefix us (c # zs)"
    by (auto simp: prefix_append)
  then show ?thesis
  proof cases
    case 2
    with assms(2) have "us = []" by (cases us) auto
    with 2 show ?thesis by simp
  qed
qed

lemma model_for_source:
  "dm_source (model_for doc pool harness) =
     (case select_group doc pool harness of
        (None, source) \<Rightarrow> ''pooled_default''
      | (Some g, source) \<Rightarrow>
          (let all = snd (snd (group_survival doc g)) @ snd (group_timing doc pool source g)
           in source @ (if all = [] then [] else ''+'' @ join_with '','' all)))"
  by (simp add: model_for_def default_demand_def Let_def split: prod.split option.split)

text \<open>
  A model counts as the pool's own exactly when the pool and harness have a group of their own
  with enough calls: every fallback is told apart by the source it records.
\<close>

theorem own_curve_needs_own_calls:
  assumes "CHR ''+'' \<notin> set pool" "CHR ''+'' \<notin> set harness" "\<not> prefix ''harness:'' pool"
  shows "is_own_curve (model_for doc pool harness) \<longleftrightarrow>
    pool \<noteq> [] \<and> harness \<noteq> [] \<and>
    (\<exists>g. map_of (cd_groups doc) (group_key pool harness) = Some g \<and> \<not> cg_insufficient g \<and> MIN_CALLS \<le> cg_n g)"
proof (cases "own_group doc pool harness")
  case (Some g)
  then have own: "pool \<noteq> [] \<and> harness \<noteq> [] \<and>
    (\<exists>g. map_of (cd_groups doc) (group_key pool harness) = Some g \<and> \<not> cg_insufficient g \<and> MIN_CALLS \<le> cg_n g)"
    by (auto simp: own_group_def not_less split: if_splits option.splits)
  let ?src = "''fitted:'' @ pool @ CHR ''|'' # harness"
  have sel: "select_group doc pool harness = (Some g, ?src)"
    using Some by (simp add: select_group_def group_key_def)
  have "CHR ''+'' \<notin> set ?src" using assms by simp
  from head_stops [OF this]
  have head: "takeWhile (\<lambda>c. c \<noteq> CHR ''+'') (dm_source (model_for doc pool harness)) = ?src"
    unfolding model_for_source sel split_conv option.case Let_def .
  have "\<not> prefix ''fitted:harness:'' ?src"
    using assms(3) prefix_before [of "''harness:''" pool "CHR ''|''" harness] by auto
  moreover have "?src \<noteq> ''fitted:pooled''"
  proof
    assume "?src = ''fitted:pooled''"
    then have "CHR ''|'' \<in> set ''fitted:pooled''" by (metis in_set_conv_decomp append_assoc)
    then show False by simp
  qed
  moreover have "prefix ''fitted:'' ?src" by simp
  ultimately have "is_own_curve (model_for doc pool harness)"
    unfolding is_own_curve_def head Let_def by (simp only: if_False) simp
  with own show ?thesis by blast
next
  case None
  then have no: "\<not> (pool \<noteq> [] \<and> harness \<noteq> [] \<and>
    (\<exists>g. map_of (cd_groups doc) (group_key pool harness) = Some g \<and> \<not> cg_insufficient g \<and> MIN_CALLS \<le> cg_n g))"
    by (auto simp: own_group_def split: if_splits option.splits)
  obtain grp src where sel: "select_group doc pool harness = (grp, src)" by force
  with None have "(grp = None) \<or> (\<exists>k. src = ''fitted:harness:'' @ k) \<or> src = ''fitted:pooled''"
    by (auto simp: select_group_def split: option.splits if_splits)
  moreover have "\<not> is_own_curve m" if "dm_source m = ''fitted:harness:'' @ k" for m and k
    using that by (simp add: is_own_curve_def)
  moreover have "\<not> is_own_curve m" if "dm_source m = ''fitted:pooled'' @ (if b then [] else ''+'' @ ys)" for m and b ys
    using head_stops [of "''fitted:pooled''" b ys] that by (simp add: is_own_curve_def)
  moreover have "\<not> is_own_curve m" if "dm_source m = ''pooled_default''" for m
    using that by (simp add: is_own_curve_def)
  ultimately have "\<not> is_own_curve (model_for doc pool harness)"
    using model_for_source [of doc pool harness]
    by (cases grp) (auto simp: sel Let_def)
  with no show ?thesis by blast
qed

text \<open>
  A pool whose only evidence is a measured turn period is given the period and the latency of
  another pool's fit of the harness, although the module says that the behaviour of the provider
  must come from the pool itself where it has any evidence.
\<close>

theorem pool_period_is_passed_over:
  assumes "own_group doc pool harness = None" "harness \<noteq> []"
    "best_group (harness_groups doc harness) = Some (k, g)"
    "pool_latency_period doc pool = (None, Some pp)"
    "cg_latency_s g = Some gl" "cg_turn_period_s g = Some gp"
  shows "dm_turn_period_s (model_for doc pool harness) = Some gp \<and>
    dm_latency_s (model_for doc pool harness) = Some gl"
proof -
  have sel: "select_group doc pool harness = (Some g, ''fitted:harness:'' @ k)"
    using assms(1-3) by (simp add: select_group_def)
  have "fst (group_timing doc pool (''fitted:harness:'' @ k) g) = (Some gl, Some gp)"
    using assms(4-6) by (simp add: group_timing_def Let_def split: option.split)
  then show ?thesis by (simp add: model_for_def sel Let_def split_beta)
qed

section \<open>Examples\<close>

definition demo_group :: "int \<Rightarrow> real option \<Rightarrow> curve_group" where
  "demo_group n latency =
     \<lparr>cg_n = n, cg_insufficient = False, cg_a = 1000, cg_b = 10, cg_latency_s = latency,
      cg_turn_period_s = Some n, cg_survival = [(0, 1 / 2)], cg_attempts = 40, cg_cached_share = 1 / 2\<rparr>"

definition demo_curves :: curve_document where
  "demo_curves = \<lparr>cd_groups = [(''p|h'', demo_group 5 None), (''q|h'', demo_group 40 (Some 3))], cd_pooled = None\<rparr>"

theorem survival_is_a_probability_witness:
  "survival (default_demand []) 0 600 \<le> survival (default_demand []) 0 60"
  using survival_is_a_probability [of "default_demand []" 60 600 0]
  by (simp add: default_demand_def SURVIVAL_TABLE_def proper_table_def)

theorem latency_floor_is_conservative_witness:
  "call_latency_s (default_demand []) 0 \<le> call_latency_s (with_latency_floor 47 262144 (default_demand [])) 0"
  using latency_floor_is_conservative [of "default_demand []" 0 47 262144] by (simp add: default_demand_def)

lemma demo_selection:
  "own_group demo_curves ''p'' ''h'' = None"
  "best_group (harness_groups demo_curves ''h'') = Some (''q|h'', demo_group 40 (Some 3))"
  "pool_latency_period demo_curves ''p'' = (None, Some 5)"
  by (simp_all add: own_group_def demo_curves_def group_key_def demo_group_def MIN_CALLS_def best_group_def
      harness_groups_def pool_latency_period_def suffix_def)

theorem own_curve_needs_own_calls_witness: "\<not> is_own_curve (model_for demo_curves ''p'' ''h'')"
  using own_curve_needs_own_calls [of "''p''" "''h''" demo_curves]
  by (simp add: demo_curves_def group_key_def demo_group_def MIN_CALLS_def)

theorem pool_period_is_passed_over_witness: "dm_turn_period_s (model_for demo_curves ''p'' ''h'') = Some 40"
  using pool_period_is_passed_over [OF demo_selection(1) _ demo_selection(2,3)] by (simp add: demo_group_def)

end
