(* ===== verification/Fleet_Planner.thy ===== *)
theory Fleet_Planner
  imports Demand_Model Result_Message Pacer_Client
begin

text \<open>
  The fleet planner of \<open>harness_dispatcher.py\<close> (class \<open>Autoscaler\<close>): the live fleet, the budgets and
  the pressure signals of each alias, the projection of the fleet's demand over a horizon, the
  largest fleet that fits, one tick with its cooldown, its hold on pressure, its growth and its
  recovery of the pacer's budgets, and the gate. What a tick reads from Redis and the clocks are
  arguments; a failed read is the value the code falls back to. The budgets and times are finite
  numbers. The published record, the observations and the log are left out.
\<close>

section \<open>The fleet\<close>

definition FP_UTILIZATION :: real where "FP_UTILIZATION = 90 / 100"
definition QPS_UTILIZATION :: real where "QPS_UTILIZATION = 85 / 100"
definition PACED_SHARE_LIMIT :: real where "PACED_SHARE_LIMIT = 5 / 100"
definition GROWTH_STEP :: real where "GROWTH_STEP = 5 / 100"
definition STABILIZATION_WINDOW_S :: real where "STABILIZATION_WINDOW_S = 60"
definition GROWTH_CAP_FACTOR :: real where "GROWTH_CAP_FACTOR = 3 / 2"
definition SURVIVAL_MIN_ATTEMPTS :: int where "SURVIVAL_MIN_ATTEMPTS = 30"
definition RECOVERY_MARGIN :: real where "RECOVERY_MARGIN = 85 / 100"
definition RECOVERY_FLOOR_FACTOR :: real where "RECOVERY_FLOOR_FACTOR = 5 / 10"
definition BORROWED_CURVE_CAP :: int where "BORROWED_CURVE_CAP = 30"
definition MAX_CONTEXT_TOKENS :: real where "MAX_CONTEXT_TOKENS = 262144"
definition QUEUE_HEAD_WAIT_LIMIT_S :: real where "QUEUE_HEAD_WAIT_LIMIT_S = 5"

record task_state =
  ts_turn :: int
  ts_context_tokens :: real
  ts_alias :: "string option"
  ts_harness :: "string option"

text \<open>The window of the alias's pool, where the registry knows a positive one.\<close>

definition pool_window_tokens :: "(string \<Rightarrow> real option) \<Rightarrow> string \<Rightarrow> real" where
  "pool_window_tokens registry alias =
     (if alias = [] then MAX_CONTEXT_TOKENS
      else case registry alias of
          Some w \<Rightarrow> if 0 < w then w else MAX_CONTEXT_TOKENS
        | None \<Rightarrow> MAX_CONTEXT_TOKENS)"

text \<open>One progress key; \<open>None\<close> is one that is skipped.\<close>

definition scan_task ::
    "(string option \<Rightarrow> string option \<Rightarrow> demand_model) \<Rightarrow> string \<Rightarrow> body option \<Rightarrow> task_state option" where
  "scan_task demand_for current raw =
     (case raw of
        None \<Rightarrow> None
      | Some b \<Rightarrow>
          (case (case bd_val b ''turn_number'' of None \<Rightarrow> Some 0 | Some w \<Rightarrow> wire_int w) of
             None \<Rightarrow> None
           | Some turn \<Rightarrow>
               (let text = (\<lambda>k. case bd_text b k of None \<Rightarrow> None | Some s \<Rightarrow> if s = [] then None else Some s);
                    alias = text ''model_alias''; harness = text ''harness'';
                    d = demand_for (case alias of Some a \<Rightarrow> Some a | None \<Rightarrow> Some current) harness
                in Some \<lparr>ts_turn = turn, ts_context_tokens = tokens_per_call d (of_int turn),
                         ts_alias = alias, ts_harness = harness\<rparr>)))"

definition scan_fleet ::
    "(string option \<Rightarrow> string option \<Rightarrow> demand_model) \<Rightarrow> string \<Rightarrow> body option list \<Rightarrow> task_state list" where
  "scan_fleet demand_for current raws = List.map_filter (scan_task demand_for current) raws"

section \<open>Budgets and signals\<close>

record budgets =
  bg_r_tok :: real
  bg_k_inflight :: real
  bg_r_qps :: real
  bg_source :: string
  bg_r_tok_seed :: "real option"
  bg_k_inflight_seed :: "real option"
  bg_r_qps_seed :: "real option"
  bg_latency_s_max_context :: "real option"
  bg_cached_weight :: real

definition utilization_factor :: "budgets \<Rightarrow> real" where
  "utilization_factor b = (if bg_source b = ''pacer_cfg_stale'' then 1 / 2 else 1)"

definition default_budgets :: budgets where
  "default_budgets =
     \<lparr>bg_r_tok = r_tok default_limits, bg_k_inflight = k_inflight default_limits,
      bg_r_qps = r_qps default_limits, bg_source = ''defaults'', bg_r_tok_seed = None,
      bg_k_inflight_seed = None, bg_r_qps_seed = None, bg_latency_s_max_context = None,
      bg_cached_weight = 1\<rparr>"

definition get_or :: "real hash \<Rightarrow> string \<Rightarrow> real \<Rightarrow> real" where
  "get_or h k d = (case map_of h k of None \<Rightarrow> d | Some v \<Rightarrow> v)"

text \<open>The pacer's configuration hash as numbers; \<open>None\<close> is a read that fails.\<close>

definition budgets_of :: "real \<Rightarrow> real \<Rightarrow> string \<Rightarrow> real hash option \<Rightarrow> budgets" where
  "budgets_of now max_age alias cfg =
     (case cfg of
        None \<Rightarrow> default_budgets
      | Some h \<Rightarrow>
          if alias = [] \<or> h = [] then default_budgets
          else (let stale = (case map_of h ''seeded_at'' of
                        None \<Rightarrow> True
                      | Some t \<Rightarrow> t = 0 \<or> max_age < now - t)
                in \<lparr>bg_r_tok = get_or h ''r_tok'' (r_tok default_limits),
                    bg_k_inflight = get_or h ''k_inflight'' (k_inflight default_limits),
                    bg_r_qps = get_or h ''r_qps'' (r_qps default_limits),
                    bg_source = (if stale then ''pacer_cfg_stale'' else ''pacer_cfg''),
                    bg_r_tok_seed = map_of h ''r_tok_seed'',
                    bg_k_inflight_seed = map_of h ''k_inflight_seed'',
                    bg_r_qps_seed = map_of h ''r_qps_seed'',
                    bg_latency_s_max_context = map_of h ''latency_s_max_context'',
                    bg_cached_weight = min 1 (max CACHED_WEIGHT_MIN (get_or h ''cached_weight'' 1))\<rparr>))"

text \<open>One bucket of ten seconds of the pacer's counters.\<close>

record pace_bucket =
  pb_n :: int
  pb_n_over_2s :: int
  pb_n_timeout :: int
  pb_tok :: int

definition measured_arrival :: "pace_bucket list \<Rightarrow> real \<times> real" where
  "measured_arrival bs = (of_int (sum_list (map pb_tok bs)) / 60, of_int (sum_list (map pb_n bs)) / 60)"

definition paced_stats :: "pace_bucket list \<Rightarrow> real \<times> int" where
  "paced_stats bs =
     (let n = sum_list (map pb_n bs)
      in (if n = 0 then 0 else of_int (sum_list (map pb_n_over_2s bs)) / of_int n,
          sum_list (map pb_n_timeout bs)))"

definition queue_pressure :: "real \<Rightarrow> nat \<Rightarrow> real option \<Rightarrow> nat \<times> real" where
  "queue_pressure now depth head_denied =
     (if depth = 0 then (0, 0)
      else case head_denied of None \<Rightarrow> (depth, 0) | Some t \<Rightarrow> (depth, max 0 (now - t)))"

section \<open>The projection\<close>

definition HORIZON :: "real list" where
  "HORIZON = map (\<lambda>i. 300 * real i) [0..<19]"

text \<open>Whether the curve's survival table may discount the forecast.\<close>

definition survival_applies :: "bool \<Rightarrow> demand_model \<Rightarrow> bool" where
  "survival_applies explicit d \<longleftrightarrow>
     explicit \<or> (is_own_curve d \<and>
       SURVIVAL_MIN_ATTEMPTS \<le> (case dm_survival_attempts d of None \<Rightarrow> 0 | Some n \<Rightarrow> n))"

text \<open>A task's arrival, in-flight tokens and call starts at a time of the horizon.\<close>

definition task_demand ::
    "bool \<Rightarrow> demand_model \<Rightarrow> real \<Rightarrow> real \<Rightarrow> task_state \<Rightarrow> real \<times> real \<times> real" where
  "task_demand explicit d weight k t =
     (let weighted = 1 - dm_cached_share d * (1 - clamp01 weight);
          turn_k = of_int (ts_turn t) + k / turn_period_s d (ts_context_tokens t);
          tok_k = tokens_per_call d turn_k;
          period_k = turn_period_s d tok_k;
          s = (if survival_applies explicit d then survival d (of_int (ts_turn t)) k else 1)
      in (s * tok_k * weighted / period_k, s * tok_k * (call_latency_s d tok_k / period_k), s / period_k))"

definition fresh_task :: "demand_model \<Rightarrow> task_state" where
  "fresh_task d = \<lparr>ts_turn = 0, ts_context_tokens = tokens_per_call d 0, ts_alias = None, ts_harness = None\<rparr>"

record projection =
  pj_arrival :: real
  pj_inflight :: real
  pj_qps :: real
  pj_peak_at :: real

definition demand_at ::
    "bool \<Rightarrow> demand_model \<Rightarrow> real \<Rightarrow> task_state list \<Rightarrow> real \<Rightarrow> real \<times> real \<times> real" where
  "demand_at explicit d weight ts k =
     (sum_list (map (\<lambda>t. fst (task_demand explicit d weight k t)) ts),
      sum_list (map (\<lambda>t. fst (snd (task_demand explicit d weight k t))) ts),
      sum_list (map (\<lambda>t. snd (snd (task_demand explicit d weight k t))) ts))"

definition project_step :: "(real \<Rightarrow> real \<times> real \<times> real) \<Rightarrow> real \<Rightarrow> projection \<Rightarrow> projection" where
  "project_step f k p =
     (let (arrival, inflight, qps) = f k
      in p\<lparr>pj_arrival := (if pj_arrival p < arrival then arrival else pj_arrival p),
           pj_peak_at := (if pj_arrival p < arrival then k else pj_peak_at p),
           pj_inflight := max (pj_inflight p) inflight,
           pj_qps := max (pj_qps p) qps\<rparr>)"

definition project_fleet ::
    "bool \<Rightarrow> task_state list \<Rightarrow> nat \<Rightarrow> demand_model \<Rightarrow> real \<Rightarrow> projection" where
  "project_fleet explicit fleet extra_fresh d weight =
     fold (project_step (demand_at explicit d weight (fleet @ replicate extra_fresh (fresh_task d)))) HORIZON
       \<lparr>pj_arrival = 0, pj_inflight = 0, pj_qps = 0, pj_peak_at = 0\<rparr>"

section \<open>The largest fleet that fits\<close>

text \<open>The first budget a projection exceeds.\<close>

definition exceeded :: "real \<Rightarrow> budgets \<Rightarrow> projection \<Rightarrow> string" where
  "exceeded utilization b p =
     (let u = utilization_factor b
      in if u * utilization * bg_r_tok b < pj_arrival p then ''arrival_budget''
         else if u * utilization * bg_k_inflight b < pj_inflight p then ''inflight_budget''
         else if u * QPS_UTILIZATION * bg_r_qps b < pj_qps p then ''qps_budget''
         else ''none'')"

definition fits ::
    "bool \<Rightarrow> real \<Rightarrow> task_state list \<Rightarrow> budgets \<Rightarrow> demand_model \<Rightarrow> nat \<Rightarrow> nat \<Rightarrow> bool" where
  "fits explicit utilization fleet b d booting n \<longleftrightarrow>
     exceeded utilization b (project_fleet explicit fleet (booting + n) d (bg_cached_weight b)) = ''none''"

definition SEARCH_LIMIT :: nat where "SEARCH_LIMIT = 400"

function climb :: "(nat \<Rightarrow> bool) \<Rightarrow> nat \<Rightarrow> nat \<Rightarrow> nat" where
  "climb ok step n = (if 0 < step \<and> n < SEARCH_LIMIT \<and> ok (n + step) then climb ok step (n + step) else n)"
  by auto
termination
  by (relation "measure (\<lambda>(ok, step, n). SEARCH_LIMIT - n)") auto

declare climb.simps [simp del]

definition ceiling_from_budgets ::
    "bool \<Rightarrow> real \<Rightarrow> task_state list \<Rightarrow> budgets \<Rightarrow> demand_model \<Rightarrow> nat \<Rightarrow> int \<times> string" where
  "ceiling_from_budgets explicit utilization fleet b d booting =
     (let ok = fits explicit utilization fleet b d booting;
          extra = climb ok 1 (climb ok 5 0)
      in (int (length fleet + booting + extra),
          exceeded utilization b (project_fleet explicit fleet booting d (bg_cached_weight b))))"

section \<open>One alias\<close>

definition alias_of :: "string \<Rightarrow> task_state \<Rightarrow> string" where
  "alias_of current t = (case ts_alias t of Some a \<Rightarrow> a | None \<Rightarrow> current)"

definition add_to_group :: "string \<Rightarrow> task_state \<Rightarrow> (string \<times> task_state list) list \<Rightarrow> (string \<times> task_state list) list" where
  "add_to_group current t gs =
     (let a = alias_of current t
      in AList.update a ((case map_of gs a of None \<Rightarrow> [] | Some ts \<Rightarrow> ts) @ [t]) gs)"

definition fleet_groups :: "string \<Rightarrow> task_state list \<Rightarrow> (string \<times> task_state list) list" where
  "fleet_groups current fleet =
     (let gs = fold (add_to_group current) fleet [];
          gs' = (if current \<noteq> [] \<and> map_of gs current = None then gs @ [(current, [])] else gs)
      in if gs' = [] then [([], [])] else gs')"

definition HARNESS_NAMES :: "string list" where
  "HARNESS_NAMES = [''mini_swe_agent'', ''claude_code'', ''custom_minimal'', ''codex'', ''opencode'', ''aider'']"

definition group_harness :: "string \<Rightarrow> task_state list \<Rightarrow> string option" where
  "group_harness alias ts =
     (case List.map_filter ts_harness ts of
        h # hs \<Rightarrow> Some h
      | [] \<Rightarrow> if alias = [] then None else find (\<lambda>h. suffix (CHR ''-'' # h) alias) HARNESS_NAMES)"

text \<open>What a tick reads of one alias.\<close>

record alias_reads =
  al_budgets :: budgets
  al_overloads :: nat
  al_share :: real
  al_timeouts :: int
  al_queue_len :: nat
  al_head_wait :: real
  al_measured :: "real \<times> real"

record planner_config =
  pc_explicit :: bool
  pc_borrowed_cap :: int
  pc_growth_cap :: real
  pc_utilization :: real
  pc_growth_step :: real
  pc_window_s :: real
  pc_enabled :: bool
  pc_override :: "int option"
  pc_mode :: string
  pc_alias :: string

record alias_plan =
  ap_alias :: string
  ap_ceiling :: int
  ap_binding :: string
  ap_projection :: projection
  ap_reads :: alias_reads

definition plan_alias ::
    "planner_config \<Rightarrow> (string \<Rightarrow> real option) \<Rightarrow> (string option \<Rightarrow> string option \<Rightarrow> demand_model) \<Rightarrow>
     (string \<Rightarrow> alias_reads) \<Rightarrow> nat \<Rightarrow> string \<times> task_state list \<Rightarrow> alias_plan" where
  "plan_alias c registry demand_for reads booting grp =
     (let (alias, ts) = grp;
          d0 = demand_for (if alias = [] then None else Some alias) (group_harness alias ts);
          r = reads alias; b = al_budgets r;
          mine = (if alias = pc_alias c then booting else 0);
          borrowed = (\<not> pc_explicit c \<and> \<not> is_own_curve d0);
          d = (case bg_latency_s_max_context b of
                 Some f \<Rightarrow> if borrowed \<and> f \<noteq> 0 then with_latency_floor f (pool_window_tokens registry alias) d0 else d0
               | None \<Rightarrow> d0);
          p = project_fleet (pc_explicit c) ts mine d (bg_cached_weight b);
          (top, why) = ceiling_from_budgets (pc_explicit c) (pc_utilization c) ts b d mine;
          cap = max (int (length ts + mine)) (pc_borrowed_cap c);
          (top', why') = (if borrowed \<and> cap < top then (cap, ''borrowed_curve'') else (top, why))
      in \<lparr>ap_alias = alias, ap_ceiling = top', ap_binding = why', ap_projection = p, ap_reads = r\<rparr>)"

section \<open>Growth and recovery\<close>

definition nonzero_or :: "real option \<Rightarrow> real \<Rightarrow> real" where
  "nonzero_or x d = (case x of None \<Rightarrow> d | Some v \<Rightarrow> if v = 0 then d else v)"

definition round1 :: "real \<Rightarrow> real" where "round1 x = of_int (py_round (10 * x)) / 10"
definition round3 :: "real \<Rightarrow> real" where "round3 x = of_int (py_round (1000 * x)) / 1000"

text \<open>Fields to write into a pacer configuration, besides the time stamp.\<close>

type_synonym cfg_write = "(string \<times> real) list"

record growth =
  gw_would_set :: cfg_write
  gw_written :: cfg_write
  gw_applied :: bool
  gw_clamped :: bool
  gw_pending :: "(real \<times> real) option"

definition no_growth :: "(real \<times> real) option \<Rightarrow> growth" where
  "no_growth pending = \<lparr>gw_would_set = [], gw_written = [], gw_applied = False, gw_clamped = False, gw_pending = pending\<rparr>"

definition reconcile_growth ::
    "planner_config \<Rightarrow> bool \<Rightarrow> real \<Rightarrow> nat \<Rightarrow> real \<Rightarrow> budgets \<Rightarrow> (real \<times> real) option \<Rightarrow> growth" where
  "reconcile_growth c writable now overloads arrival b pending =
     (case pending of
        None \<Rightarrow> no_growth None
      | Some (armed, v) \<Rightarrow>
          if now < armed then no_growth pending
          else if \<not> (overloads = 0 \<and> 8 / 10 * pc_utilization c * bg_r_tok b < arrival) then no_growth None
          else (let seed = nonzero_or (bg_r_tok_seed b) (bg_r_tok b);
                    grown = bg_r_tok b * (1 + pc_growth_step c)
                in if pc_growth_cap c * seed < grown then (no_growth None)\<lparr>gw_clamped := True\<rparr>
                   else (let would =
                             [(''r_tok'', grown), (''k_inflight'', bg_k_inflight b * (1 + pc_growth_step c)),
                              (''r_qps'', bg_r_qps b * (1 + pc_growth_step c))];
                             stash = (if bg_r_tok_seed b \<noteq> None then []
                                      else [(''r_tok_seed'', bg_r_tok b), (''k_inflight_seed'', bg_k_inflight b),
                                            (''r_qps_seed'', bg_r_qps b)]);
                             writes = (pc_mode c = ''live'' \<and> pc_alias c \<noteq> [] \<and> writable)
                         in \<lparr>gw_would_set = would, gw_written = (if writes then would @ stash else []),
                             gw_applied = writes, gw_clamped = False, gw_pending = None\<rparr>)))"

text \<open>The recovery of one alias: the changes, which are also what is written in live mode.\<close>

definition overload_recovery :: "alias_plan \<Rightarrow> cfg_write" where
  "overload_recovery ap =
     (let r = ap_reads ap; b = al_budgets r; (m_tok, m_qps) = al_measured r;
          basis_tok = (if 0 < m_tok then m_tok else round1 (pj_arrival (ap_projection ap)));
          basis_qps = (if 0 < m_tok then m_qps else round3 (pj_qps (ap_projection ap)));
          new_r = max (RECOVERY_FLOOR_FACTOR * nonzero_or (bg_r_tok_seed b) (bg_r_tok b)) (RECOVERY_MARGIN * basis_tok);
          new_q = max (RECOVERY_FLOOR_FACTOR * nonzero_or (bg_r_qps_seed b) (bg_r_qps b)) (RECOVERY_MARGIN * basis_qps)
      in if al_overloads r = 0 \<or> ap_alias ap = [] then []
         else (if 0 < basis_tok \<and> new_r < bg_r_tok b then [(''r_tok'', round1 new_r)] else []) @
              (if 0 < basis_qps \<and> new_q < bg_r_qps b then [(''r_qps'', round3 new_q)] else []))"

definition recoveries :: "alias_plan list \<Rightarrow> (string \<times> cfg_write) list" where
  "recoveries aps = filter (\<lambda>(a, w). w \<noteq> []) (map (\<lambda>ap. (ap_alias ap, overload_recovery ap)) aps)"

section \<open>The tick\<close>

record planner =
  pl_cooldown_until :: real
  pl_paced_blocked :: bool
  pl_clean_windows :: nat
  pl_pending_peak :: "(real \<times> real) option"
  pl_was_in_cooldown :: bool

definition new_planner :: planner where
  "new_planner = \<lparr>pl_cooldown_until = 0, pl_paced_blocked = False, pl_clean_windows = 0,
     pl_pending_peak = None, pl_was_in_cooldown = False\<rparr>"

record tick_inputs =
  ti_now :: real
  ti_in_flight :: nat
  ti_fleet :: "task_state list"
  ti_reads :: "string \<Rightarrow> alias_reads"
  ti_static_cap :: "int option"
  ti_writable :: bool

record plan_decision =
  pd_ceiling :: int
  pd_binding :: string
  pd_would_set :: cfg_write
  pd_growth_applied :: bool
  pd_growth_clamped :: bool
  pd_recovery :: "(string \<times> cfg_write) list"
  pd_writes :: "(string \<times> cfg_write) list"

definition first_binding :: "alias_plan list \<Rightarrow> string" where
  "first_binding aps = (case filter (\<lambda>w. w \<noteq> ''none'') (map ap_binding aps) of [] \<Rightarrow> ''none'' | w # ws \<Rightarrow> w)"

definition pressured :: "alias_plan list \<Rightarrow> bool" where
  "pressured aps \<longleftrightarrow>
     (\<exists>ap \<in> set aps. PACED_SHARE_LIMIT < al_share (ap_reads ap)) \<or>
     0 < sum_list (map (\<lambda>ap. al_timeouts (ap_reads ap)) aps) \<or>
     ((\<exists>ap \<in> set aps. 0 < al_queue_len (ap_reads ap)) \<and>
      (\<exists>ap \<in> set aps. QUEUE_HEAD_WAIT_LIMIT_S < al_head_wait (ap_reads ap)))"

text \<open>The hysteresis: two clean windows end a hold.\<close>

definition pace_hysteresis :: "bool \<Rightarrow> planner \<Rightarrow> planner" where
  "pace_hysteresis pressure st =
     (if pressure then st\<lparr>pl_paced_blocked := True, pl_clean_windows := 0\<rparr>
      else if pl_paced_blocked st then
        st\<lparr>pl_clean_windows := pl_clean_windows st + 1,
           pl_paced_blocked := (pl_clean_windows st + 1 < 2)\<rparr>
      else st)"

text \<open>The ceiling after the hold, the caps and the binding they leave.\<close>

definition bound_ceiling ::
    "bool \<Rightarrow> bool \<Rightarrow> int option \<Rightarrow> int option \<Rightarrow> nat \<Rightarrow> int \<times> string \<Rightarrow> int \<times> string" where
  "bound_ceiling cooldown paced override static_cap n plan =
     (let (total, why) = plan;
          top0 = (case override of None \<Rightarrow> total | Some v \<Rightarrow> v);
          top1 = (if cooldown \<or> paced then min top0 (int n) else top0);
          why1 = (if cooldown then ''cooldown'' else if paced then ''paced'' else why);
          (top2, why2) = (case static_cap of
              None \<Rightarrow> (top1, why1)
            | Some cap \<Rightarrow>
                if cap < top1 then (cap, if why1 = ''none'' \<and> cap \<le> int n then ''static_cap'' else why1)
                else (top1, why1));
          why3 = (if override \<noteq> None \<and> why2 = ''none'' \<and> top2 \<le> int n then ''ceiling_override'' else why2);
          why4 = (if why3 = ''none'' \<and> top2 \<le> int n then ''at_capacity'' else why3)
      in (top2, why4))"

definition plans_of ::
    "planner_config \<Rightarrow> (string \<Rightarrow> real option) \<Rightarrow> (string option \<Rightarrow> string option \<Rightarrow> demand_model) \<Rightarrow>
     tick_inputs \<Rightarrow> alias_plan list" where
  "plans_of c registry demand_for i =
     map (plan_alias c registry demand_for (ti_reads i) (ti_in_flight i - length (ti_fleet i)))
       (fleet_groups (pc_alias c) (ti_fleet i))"

text \<open>The plan of the run's own alias, from which growth takes its budgets, its arrival and its peak.\<close>

definition current_plan :: "planner_config \<Rightarrow> alias_plan list \<Rightarrow> alias_plan option" where
  "current_plan c aps = find (\<lambda>ap. ap_alias ap = pc_alias c) aps"

definition overload_count :: "alias_plan list \<Rightarrow> nat" where
  "overload_count aps = sum_list (map (\<lambda>ap. al_overloads (ap_reads ap)) aps)"

definition cooldown_end :: "planner_config \<Rightarrow> tick_inputs \<Rightarrow> alias_plan list \<Rightarrow> planner \<Rightarrow> real" where
  "cooldown_end c i aps st =
     (if 0 < overload_count aps then ti_now i + pc_window_s c else pl_cooldown_until st)"

definition cooling :: "planner_config \<Rightarrow> tick_inputs \<Rightarrow> alias_plan list \<Rightarrow> planner \<Rightarrow> bool" where
  "cooling c i aps st \<longleftrightarrow> ti_now i < cooldown_end c i aps st"

text \<open>The state after the cooldown and the hysteresis, and the recoveries a cooldown begins with.\<close>

definition held_state :: "planner_config \<Rightarrow> tick_inputs \<Rightarrow> alias_plan list \<Rightarrow> planner \<Rightarrow> planner" where
  "held_state c i aps st =
     pace_hysteresis (pressured aps)
       (st\<lparr>pl_cooldown_until := cooldown_end c i aps st, pl_was_in_cooldown := cooling c i aps st\<rparr>)"

definition tick_recovery ::
    "planner_config \<Rightarrow> tick_inputs \<Rightarrow> alias_plan list \<Rightarrow> planner \<Rightarrow> (string \<times> cfg_write) list" where
  "tick_recovery c i aps st =
     (if cooling c i aps st \<and> \<not> pl_was_in_cooldown st then recoveries aps else [])"

definition current_figures ::
    "planner_config \<Rightarrow> tick_inputs \<Rightarrow> alias_plan list \<Rightarrow> budgets \<times> real \<times> real" where
  "current_figures c i aps =
     (case current_plan c aps of
        Some ap \<Rightarrow> (al_budgets (ap_reads ap), pj_arrival (ap_projection ap), pj_peak_at (ap_projection ap))
      | None \<Rightarrow> (al_budgets (ti_reads i (pc_alias c)), 0, 0))"

definition tick_growth :: "planner_config \<Rightarrow> tick_inputs \<Rightarrow> alias_plan list \<Rightarrow> planner \<Rightarrow> growth" where
  "tick_growth c i aps st =
     (let (b, arrival, peak_at) = current_figures c i aps
      in if \<not> cooling c i aps st \<and> (\<not> pl_paced_blocked (held_state c i aps st) \<or> overload_count aps = 0)
         then reconcile_growth c (ti_writable i) (ti_now i) (overload_count aps) arrival b (pl_pending_peak st)
         else no_growth (pl_pending_peak st))"

text \<open>The peak that growth will be judged at is armed once there is none.\<close>

definition armed_peak :: "planner_config \<Rightarrow> tick_inputs \<Rightarrow> alias_plan list \<Rightarrow> planner \<Rightarrow> (real \<times> real) option" where
  "armed_peak c i aps st =
     (let (b, arrival, peak_at) = current_figures c i aps; pending = gw_pending (tick_growth c i aps st)
      in if \<not> cooling c i aps st \<and> pending = None then Some (ti_now i + max peak_at (pc_window_s c), arrival)
         else pending)"

definition tick_bounds :: "planner_config \<Rightarrow> tick_inputs \<Rightarrow> alias_plan list \<Rightarrow> planner \<Rightarrow> int \<times> string" where
  "tick_bounds c i aps st =
     bound_ceiling (cooling c i aps st) (pl_paced_blocked (held_state c i aps st)) (pc_override c)
       (ti_static_cap i) (ti_in_flight i) (sum_list (map ap_ceiling aps), first_binding aps)"

definition planner_tick ::
    "planner_config \<Rightarrow> (string \<Rightarrow> real option) \<Rightarrow> (string option \<Rightarrow> string option \<Rightarrow> demand_model) \<Rightarrow>
     tick_inputs \<Rightarrow> planner \<Rightarrow> plan_decision \<times> planner" where
  "planner_tick c registry demand_for i st =
     (let aps = plans_of c registry demand_for i;
          g = tick_growth c i aps st
      in (\<lparr>pd_ceiling = fst (tick_bounds c i aps st), pd_binding = snd (tick_bounds c i aps st),
           pd_would_set = gw_would_set g, pd_growth_applied = gw_applied g, pd_growth_clamped = gw_clamped g,
           pd_recovery = tick_recovery c i aps st,
           pd_writes = (if pc_mode c = ''live'' \<and> ti_writable i then tick_recovery c i aps st else []) @
             (if gw_written g = [] then [] else [(pc_alias c, gw_written g)])\<rparr>,
          (held_state c i aps st)\<lparr>pl_pending_peak := armed_peak c i aps st\<rparr>))"

section \<open>The gate\<close>

definition planner_gate :: "planner_config \<Rightarrow> plan_decision option \<Rightarrow> nat \<Rightarrow> bool \<times> string" where
  "planner_gate c latest n =
     (case latest of
        None \<Rightarrow> (True, [])
      | Some d \<Rightarrow>
          if pc_mode c \<noteq> ''live'' then (True, [])
          else if \<not> pc_enabled c then (True, [])
          else if pd_binding d \<in> {''cooldown'', ''paced''} then (False, pd_binding d)
          else if pd_ceiling d \<le> int n then
            (False, if pd_binding d \<noteq> ''none'' then pd_binding d else ''at_capacity'')
          else (True, []))"

definition launch_stagger_s :: "real option \<Rightarrow> real \<Rightarrow> real" where
  "launch_stagger_s configured u = max 0 (case configured of None \<Rightarrow> 2 | Some x \<Rightarrow> x) * u"

end
