(* ===== verification/Planner_Facts.thy ===== *)
theory Planner_Facts
  imports Fleet_Planner
begin

text \<open>
  What the fleet planner keeps to: its ceiling is the largest fleet whose projection fits, it holds
  while a provider is overloaded, it never lets the arrival budget escape the discovered seed, and
  outside live mode it neither blocks nor writes. One budget has no such bound.
\<close>

section \<open>The projection grows with the fleet\<close>

definition proper_demand :: "demand_model \<Rightarrow> bool" where
  "proper_demand d \<longleftrightarrow>
     0 \<le> dm_a d \<and> 0 \<le> dm_b d \<and> 0 \<le> dm_cap d \<and> 0 \<le> dm_cached_share d \<and> dm_cached_share d \<le> 1 \<and>
     (\<forall>l. dm_latency_s d = Some l \<longrightarrow> 0 \<le> l) \<and> proper_table (dm_survival d)"

lemma tokens_nonneg: "proper_demand d \<Longrightarrow> 0 \<le> turn \<Longrightarrow> 0 \<le> tokens_per_call d turn"
  by (simp add: proper_demand_def tokens_per_call_def)

lemma base_latency_nonneg: "proper_demand d \<Longrightarrow> 0 \<le> c \<Longrightarrow> 0 \<le> base_latency_s d c"
  by (auto simp: proper_demand_def base_latency_s_def LATENCY_INTERCEPT_S_def LATENCY_PER_TOKEN_S_def
      split: option.split)

lemma latency_nonneg: "proper_demand d \<Longrightarrow> 0 \<le> c \<Longrightarrow> 0 \<le> call_latency_s d c"
  using base_latency_nonneg by (auto simp: call_latency_s_def le_max_iff_disj split: option.split)

lemma fresh_demand_nonneg:
  assumes "proper_demand d" "0 \<le> k"
  shows "0 \<le> fst (task_demand explicit d w k (fresh_task d))"
    "0 \<le> fst (snd (task_demand explicit d w k (fresh_task d)))"
    "0 \<le> snd (snd (task_demand explicit d w k (fresh_task d)))"
proof -
  define turn_k where "turn_k = k / turn_period_s d (tokens_per_call d 0)"
  have p: "0 < turn_period_s d c" for c using turn_period_floor [of d c] by linarith
  have t: "0 \<le> tokens_per_call d turn_k"
    using assms p [of "tokens_per_call d 0"] by (intro tokens_nonneg) (auto simp: turn_k_def)
  have s: "0 \<le> (if survival_applies explicit d then survival d 0 k else 1)"
    using survival_bounds [of d 0 k] assms(1) by (simp add: proper_demand_def)
  have "dm_cached_share d * (1 - clamp01 w) \<le> 1 * 1"
    using assms(1) by (intro mult_mono) (auto simp: proper_demand_def clamp01_def)
  then have wt: "0 \<le> 1 - dm_cached_share d * (1 - clamp01 w)" by simp
  note l = latency_nonneg [OF assms(1) t]
  have e: "task_demand explicit d w k (fresh_task d) =
      ((if survival_applies explicit d then survival d 0 k else 1) * tokens_per_call d turn_k *
         (1 - dm_cached_share d * (1 - clamp01 w)) / turn_period_s d (tokens_per_call d turn_k),
       (if survival_applies explicit d then survival d 0 k else 1) * tokens_per_call d turn_k *
         (call_latency_s d (tokens_per_call d turn_k) / turn_period_s d (tokens_per_call d turn_k)),
       (if survival_applies explicit d then survival d 0 k else 1) / turn_period_s d (tokens_per_call d turn_k))"
    by (simp add: task_demand_def fresh_task_def Let_def turn_k_def)
  note pk = p [of "tokens_per_call d turn_k", THEN less_imp_le]
  show "0 \<le> fst (task_demand explicit d w k (fresh_task d))"
    "0 \<le> fst (snd (task_demand explicit d w k (fresh_task d)))"
    "0 \<le> snd (snd (task_demand explicit d w k (fresh_task d)))"
    unfolding e fst_conv snd_conv by (intro divide_nonneg_nonneg mult_nonneg_nonneg s t wt l pk)+
qed

definition below :: "projection \<Rightarrow> projection \<Rightarrow> bool" where
  "below p q \<longleftrightarrow> pj_arrival p \<le> pj_arrival q \<and> pj_inflight p \<le> pj_inflight q \<and> pj_qps p \<le> pj_qps q"

lemma project_step_below:
  assumes "below p q" "fst (f k) \<le> fst (g k)" "fst (snd (f k)) \<le> fst (snd (g k))" "snd (snd (f k)) \<le> snd (snd (g k))"
  shows "below (project_step f k p) (project_step g k q)"
  using assms by (auto simp: below_def project_step_def split_beta)

lemma fold_project_below:
  assumes "\<forall>k \<in> set ks. fst (f k) \<le> fst (g k) \<and> fst (snd (f k)) \<le> fst (snd (g k)) \<and> snd (snd (f k)) \<le> snd (snd (g k))"
    "below p q"
  shows "below (fold (project_step f) ks p) (fold (project_step g) ks q)"
  using assms by (induction ks arbitrary: p q) (auto simp: project_step_below)

lemma HORIZON_nonneg: "k \<in> set HORIZON \<Longrightarrow> 0 \<le> k"
  by (auto simp: HORIZON_def)

lemma project_more_below:
  assumes "proper_demand d"
  shows "below (project_fleet explicit fleet n d w) (project_fleet explicit fleet (n + m) d w)"
proof -
  have z: "0 \<le> sum_list (replicate j (x :: real))" if "0 \<le> x" for x j
    using that by (induction j) auto
  show ?thesis
    unfolding project_fleet_def
  proof (rule fold_project_below)
    show "\<forall>k \<in> set HORIZON.
      fst (demand_at explicit d w (fleet @ replicate n (fresh_task d)) k) \<le> fst (demand_at explicit d w (fleet @ replicate (n + m) (fresh_task d)) k) \<and>
      fst (snd (demand_at explicit d w (fleet @ replicate n (fresh_task d)) k)) \<le> fst (snd (demand_at explicit d w (fleet @ replicate (n + m) (fresh_task d)) k)) \<and>
      snd (snd (demand_at explicit d w (fleet @ replicate n (fresh_task d)) k)) \<le> snd (snd (demand_at explicit d w (fleet @ replicate (n + m) (fresh_task d)) k))"
    proof
      fix k assume "k \<in> set HORIZON"
      note pos = fresh_demand_nonneg [OF assms HORIZON_nonneg [OF this], of explicit w]
      show "fst (demand_at explicit d w (fleet @ replicate n (fresh_task d)) k) \<le> fst (demand_at explicit d w (fleet @ replicate (n + m) (fresh_task d)) k) \<and>
        fst (snd (demand_at explicit d w (fleet @ replicate n (fresh_task d)) k)) \<le> fst (snd (demand_at explicit d w (fleet @ replicate (n + m) (fresh_task d)) k)) \<and>
        snd (snd (demand_at explicit d w (fleet @ replicate n (fresh_task d)) k)) \<le> snd (snd (demand_at explicit d w (fleet @ replicate (n + m) (fresh_task d)) k))"
        using z [OF pos(1)] z [OF pos(2)] z [OF pos(3)] by (simp add: demand_at_def replicate_add)
    qed
  qed (simp add: below_def)
qed

text \<open>The fleet that fits is the largest: a budget once exceeded stays exceeded.\<close>

lemma exceeded_none:
  "exceeded u b p = ''none'' \<longleftrightarrow>
     pj_arrival p \<le> utilization_factor b * u * bg_r_tok b \<and>
     pj_inflight p \<le> utilization_factor b * u * bg_k_inflight b \<and>
     pj_qps p \<le> utilization_factor b * QPS_UTILIZATION * bg_r_qps b"
  by (auto simp: exceeded_def Let_def)

lemma fits_antitone:
  assumes "proper_demand d" "fits explicit u fleet b d booting n" "m \<le> n"
  shows "fits explicit u fleet b d booting m"
  using project_more_below [OF assms(1), of explicit fleet "booting + m" "bg_cached_weight b" "n - m"] assms(2,3)
  by (auto simp: fits_def exceeded_none below_def)

lemma climb_go: "0 < step \<Longrightarrow> n < SEARCH_LIMIT \<Longrightarrow> ok (n + step) \<Longrightarrow> climb ok step n = climb ok step (n + step)"
  by (subst climb.simps) simp

lemma climb_stop: "\<not> (n < SEARCH_LIMIT \<and> ok (n + step)) \<Longrightarrow> climb ok step n = n"
  by (subst climb.simps) auto

lemma climb_props:
  assumes "0 < step" "step dvd SEARCH_LIMIT - n" "n \<le> SEARCH_LIMIT" "n = 0 \<or> ok n"
  shows "climb ok step n \<le> SEARCH_LIMIT \<and> (climb ok step n = 0 \<or> ok (climb ok step n)) \<and>
    (climb ok step n < SEARCH_LIMIT \<longrightarrow> \<not> ok (climb ok step n + step))"
  using assms(2-4)
proof (induction "SEARCH_LIMIT - n" arbitrary: n rule: less_induct)
  case less
  show ?case
  proof (cases "n < SEARCH_LIMIT \<and> ok (n + step)")
    case True
    then have le: "n + step \<le> SEARCH_LIMIT"
      using dvd_imp_le [OF less.prems(1)] by arith
    have "step dvd SEARCH_LIMIT - (n + step)"
      using less.prems(1) le by (metis diff_diff_left dvd_diff_nat dvd_refl)
    moreover have "SEARCH_LIMIT - (n + step) < SEARCH_LIMIT - n" using True assms(1) by arith
    ultimately show ?thesis
      using less.hyps [of "n + step"] le True climb_go [OF assms(1), of n ok] by simp
  next
    case False
    then show ?thesis using climb_stop [of n ok step] less.prems by auto
  qed
qed

text \<open>
  The planner's ceiling is the largest fleet whose projected demand fits every budget, up to
  the search limit of four hundred additions: on top of the live and the booting tasks, every
  smaller addition fits and no larger one does.
\<close>

theorem ceiling_is_largest_fit:
  assumes "proper_demand d"
  shows "\<exists>extra \<le> SEARCH_LIMIT.
    fst (ceiling_from_budgets explicit u fleet b d booting) = int (length fleet + booting + extra) \<and>
    (\<forall>n. 0 < n \<and> n \<le> extra \<longrightarrow> fits explicit u fleet b d booting n) \<and>
    (extra < SEARCH_LIMIT \<longrightarrow> (\<forall>n > extra. \<not> fits explicit u fleet b d booting n))"
proof -
  let ?ok = "fits explicit u fleet b d booting"
  let ?coarse = "climb ?ok 5 0"
  let ?extra = "climb ?ok 1 ?coarse"
  have c: "?coarse \<le> SEARCH_LIMIT" "?coarse = 0 \<or> ?ok ?coarse"
    using climb_props [of 5 0 ?ok] by (auto simp: SEARCH_LIMIT_def)
  have e: "?extra \<le> SEARCH_LIMIT" "?extra = 0 \<or> ?ok ?extra" "?extra < SEARCH_LIMIT \<longrightarrow> \<not> ?ok (?extra + 1)"
    using climb_props [of 1 ?coarse ?ok] c by auto
  show ?thesis
  proof (intro exI [of _ ?extra] conjI allI impI)
    show "fst (ceiling_from_budgets explicit u fleet b d booting) = int (length fleet + booting + ?extra)"
      by (simp add: ceiling_from_budgets_def Let_def)
    show "?ok n" if "0 < n \<and> n \<le> ?extra" for n
      using e(2) that fits_antitone [OF assms, of explicit u fleet b booting ?extra n] by auto
    show "\<not> ?ok n" if "?extra < SEARCH_LIMIT" "?extra < n" for n
      using e(3) that fits_antitone [OF assms, of explicit u fleet b booting n "?extra + 1"] by auto
  qed (use e in auto)
qed

section \<open>Holds and caps\<close>

lemma bound_ceiling_cases:
  assumes "bound_ceiling cd pb ov cap n plan = (bnd, why)"
  shows "cap = Some v \<Longrightarrow> bnd \<le> v" "cd \<or> pb \<Longrightarrow> bnd \<le> int n" "cd \<Longrightarrow> why = ''cooldown''"
    "ov = Some v' \<Longrightarrow> bnd \<le> v'"
  using assms by (cases plan; auto simp: bound_ceiling_def Let_def split: option.splits if_splits)+

lemma pace_hysteresis_frame [frame_simps]:
  "pl_was_in_cooldown (pace_hysteresis p s) = pl_was_in_cooldown s"
  "pl_cooldown_until (pace_hysteresis p s) = pl_cooldown_until s"
  "pl_pending_peak (pace_hysteresis p s) = pl_pending_peak s"
  by (simp_all add: pace_hysteresis_def)

text \<open>What of a tick the hold depends on.\<close>

lemma tick_bound:
  assumes "planner_tick c registry demand_for i st = (d, st')"
  shows "\<exists>plan. bound_ceiling (pl_was_in_cooldown st') (pl_paced_blocked st') (pc_override c) (ti_static_cap i) (ti_in_flight i) plan =
      (pd_ceiling d, pd_binding d)"
    "pl_was_in_cooldown st' \<longleftrightarrow> ti_now i < pl_cooldown_until st'"
    "pl_cooldown_until st' = cooldown_end c i (plans_of c registry demand_for i) st"
proof -
  let ?aps = "plans_of c registry demand_for i"
  have st': "st' = (held_state c i ?aps st)\<lparr>pl_pending_peak := armed_peak c i ?aps st\<rparr>"
    "pd_ceiling d = fst (tick_bounds c i ?aps st)" "pd_binding d = snd (tick_bounds c i ?aps st)"
    using assms by (auto simp: planner_tick_def Let_def)
  show "pl_cooldown_until st' = cooldown_end c i ?aps st"
    unfolding st' held_state_def by (simp add: frame_simps)
  show "pl_was_in_cooldown st' \<longleftrightarrow> ti_now i < pl_cooldown_until st'"
    unfolding st' held_state_def by (simp add: frame_simps cooling_def)
  show "\<exists>plan. bound_ceiling (pl_was_in_cooldown st') (pl_paced_blocked st') (pc_override c) (ti_static_cap i) (ti_in_flight i) plan =
      (pd_ceiling d, pd_binding d)"
    by (rule exI [of _ "(sum_list (map ap_ceiling ?aps), first_binding ?aps)"])
      (simp add: st' tick_bounds_def held_state_def frame_simps)
qed

text \<open>
  While a provider is overloaded nothing new starts: the tick that sees an overload, and every
  later tick within the stabilization window, is a cooldown whose ceiling is at most the tasks in
  flight, and in live mode the gate refuses every launch on it.
\<close>

theorem overload_freezes_launches:
  assumes "planner_tick c registry demand_for i st = (d, st')"
    "0 < overload_count (plans_of c registry demand_for i)"
    "0 < pc_window_s c" "pc_mode c = ''live''" "pc_enabled c"
    "planner_tick c registry demand_for j st' = (d', st'')"
    "ti_now j < ti_now i + pc_window_s c" "ti_now i \<le> ti_now j"
  shows "pd_binding d = ''cooldown'' \<and> pd_ceiling d \<le> int (ti_in_flight i) \<and> \<not> fst (planner_gate c (Some d) n) \<and>
    pd_binding d' = ''cooldown'' \<and> pd_ceiling d' \<le> int (ti_in_flight j) \<and> \<not> fst (planner_gate c (Some d') n)"
proof -
  have cd: "pl_was_in_cooldown st'" using tick_bound(2,3) [OF assms(1)] assms(2,3) by (simp add: cooldown_end_def)
  have cd': "pl_was_in_cooldown st''"
    using tick_bound(2,3) [OF assms(6)] tick_bound(3) [OF assms(1)] assms(2,3,7) by (auto simp: cooldown_end_def)
  have frozen: "pd_binding e = ''cooldown'' \<and> pd_ceiling e \<le> int (ti_in_flight k) \<and> \<not> fst (planner_gate c (Some e) n)"
    if "planner_tick c registry demand_for k s = (e, s')" "pl_was_in_cooldown s'" for k s e s'
  proof -
    note h = that
    obtain plan where p: "bound_ceiling (pl_was_in_cooldown s') (pl_paced_blocked s') (pc_override c) (ti_static_cap k) (ti_in_flight k) plan =
        (pd_ceiling e, pd_binding e)"
      using tick_bound(1) [OF h(1)] by (elim exE)
    have "pd_ceiling e \<le> int (ti_in_flight k)" "pd_binding e = ''cooldown''"
      using bound_ceiling_cases(2,3) [OF p] h(2) by blast+
    then show ?thesis using assms(4,5) by (simp add: planner_gate_def)
  qed
  from frozen [OF assms(1) cd] frozen [OF assms(6) cd'] show ?thesis by blast
qed

text \<open>
  The planner's number never widens another limit: its ceiling is at most the hard cap and at
  most the operator's override, and while it holds on pressure at most the tasks in flight; in live
  mode a launch passes the gate only below that ceiling.
\<close>

theorem planner_ceiling_bounds:
  assumes "planner_tick c registry demand_for i st = (d, st')"
  shows "(\<forall>cap. ti_static_cap i = Some cap \<longrightarrow> pd_ceiling d \<le> cap) \<and>
    (\<forall>v. pc_override c = Some v \<longrightarrow> pd_ceiling d \<le> v) \<and>
    (pl_paced_blocked st' \<longrightarrow> pd_ceiling d \<le> int (ti_in_flight i)) \<and>
    (pc_mode c = ''live'' \<and> pc_enabled c \<and> fst (planner_gate c (Some d) n) \<longrightarrow> int n < pd_ceiling d)"
proof -
  obtain plan where p: "bound_ceiling (pl_was_in_cooldown st') (pl_paced_blocked st') (pc_override c) (ti_static_cap i) (ti_in_flight i) plan =
      (pd_ceiling d, pd_binding d)"
    using tick_bound(1) [OF assms] by blast
  have "\<forall>cap. ti_static_cap i = Some cap \<longrightarrow> pd_ceiling d \<le> cap" using bound_ceiling_cases(1) [OF p] by blast
  moreover have "\<forall>v. pc_override c = Some v \<longrightarrow> pd_ceiling d \<le> v" using bound_ceiling_cases(4) [OF p] by blast
  moreover have "pl_paced_blocked st' \<longrightarrow> pd_ceiling d \<le> int (ti_in_flight i)" using bound_ceiling_cases(2) [OF p] by blast
  ultimately show ?thesis by (auto simp: planner_gate_def split: if_splits)
qed

text \<open>
  Outside live mode the planner actuates nothing: its gate lets every launch through, and a
  tick writes no budget, whatever it would set.
\<close>

theorem observe_mode_actuates_nothing:
  assumes "pc_mode c \<noteq> ''live''"
  shows "fst (planner_gate c latest n) \<and> pd_writes (fst (planner_tick c registry demand_for i st)) = []"
proof -
  have "gw_written (reconcile_growth c w now ov arr b p) = []" for w now ov arr b p
    using assms by (simp add: reconcile_growth_def no_growth_def Let_def split: option.split)
  then show ?thesis
    using assms by (simp add: planner_gate_def planner_tick_def tick_growth_def no_growth_def Let_def split_beta split: option.split)
qed

section \<open>Budgets over time\<close>

definition cfg_apply :: "cfg_write \<Rightarrow> real hash \<Rightarrow> real hash" where
  "cfg_apply w h = fold (\<lambda>(k, v). AList.update k v) w h"

lemma cfg_apply_simps [simp]:
  "cfg_apply [] h = h" "cfg_apply ((k, v) # w) h = cfg_apply w (AList.update k v h)"
  "cfg_apply (w @ w') h = cfg_apply w' (cfg_apply w h)"
  by (simp_all add: cfg_apply_def)

text \<open>
  The configuration hash of one alias under the planner's writes: a growth or a recovery, each
  computed from the budgets read at that time, and a new time stamp.
\<close>

inductive cfg_reach :: "real \<Rightarrow> string \<Rightarrow> real hash \<Rightarrow> real hash \<Rightarrow> bool"
    for cap :: real and al :: string and h0 :: "real hash" where
  cfg_start: "cfg_reach cap al h0 h0"
| cfg_grow: "cfg_reach cap al h0 h \<Longrightarrow> pc_growth_cap c \<le> cap \<Longrightarrow> pc_alias c = al \<Longrightarrow>
    cfg_reach cap al h0
      (cfg_apply (gw_written (reconcile_growth c w now ov arrival (budgets_of t age al (Some h)) p)) h)"
| cfg_recover: "cfg_reach cap al h0 h \<Longrightarrow> al_budgets (ap_reads ap) = budgets_of t age al (Some h) \<Longrightarrow>
    ap_alias ap = al \<Longrightarrow> cfg_reach cap al h0 (cfg_apply (overload_recovery ap) h)"
| cfg_stamp: "cfg_reach cap al h0 h \<Longrightarrow> cfg_reach cap al h0 (AList.update ''seeded_at'' v h)"

definition tenth_up :: "real \<Rightarrow> real" where
  "tenth_up x = of_int \<lceil>10 * x\<rceil> / 10"

lemma tenth_up_ge: "x \<le> tenth_up x"
  by (simp add: tenth_up_def) linarith

lemma round1_le_tenth: "x \<le> tenth_up y \<Longrightarrow> round1 x \<le> tenth_up y"
  using py_round_le [of "10 * x" "\<lceil>10 * y\<rceil>"] by (simp add: tenth_up_def round1_def)

lemma round1_near: "round1 x \<le> x + 1 / 20" "x - 1 / 20 \<le> round1 x"
  using py_round_bounds [of "10 * x"] by (simp_all add: round1_def)

lemma round3_near: "round3 x \<le> x + 1 / 2000" "x - 1 / 2000 \<le> round3 x"
  using py_round_bounds [of "1000 * x"] by (simp_all add: round3_def)

lemma budgets_of_fields:
  assumes "al \<noteq> []" "h \<noteq> []"
  shows "bg_r_tok (budgets_of t age al (Some h)) = get_or h ''r_tok'' (r_tok default_limits)"
    "bg_k_inflight (budgets_of t age al (Some h)) = get_or h ''k_inflight'' (k_inflight default_limits)"
    "bg_r_qps (budgets_of t age al (Some h)) = get_or h ''r_qps'' (r_qps default_limits)"
    "bg_r_tok_seed (budgets_of t age al (Some h)) = map_of h ''r_tok_seed''"
    "bg_r_qps_seed (budgets_of t age al (Some h)) = map_of h ''r_qps_seed''"
  using assms by (simp_all add: budgets_of_def Let_def)

text \<open>The writes of a growth and of a recovery, as far as the arrival budget and its seed go.\<close>

lemma growth_writes:
  fixes b :: budgets
  assumes "bg_r_tok_seed b = Some s" "s \<noteq> 0"
  shows "gw_written (reconcile_growth c w now ov arrival b p) = [] \<or>
    (\<exists>r k q. gw_written (reconcile_growth c w now ov arrival b p) = [(''r_tok'', r), (''k_inflight'', k), (''r_qps'', q)] \<and>
       r \<le> pc_growth_cap c * s)"
  using assms by (auto simp: reconcile_growth_def no_growth_def nonzero_or_def Let_def not_less split: option.split)

lemma recovery_parts:
  fixes ap :: alias_plan
  defines "b \<equiv> al_budgets (ap_reads ap)"
  obtains xs ys where "overload_recovery ap = xs @ ys"
    "xs = [] \<or> (\<exists>x. xs = [(''r_tok'', round1 x)] \<and> x < bg_r_tok b \<and> nonzero_or (bg_r_tok_seed b) (bg_r_tok b) / 2 \<le> x)"
    "ys = [] \<or> (\<exists>x. ys = [(''r_qps'', round3 x)] \<and> x < bg_r_qps b \<and> nonzero_or (bg_r_qps_seed b) (bg_r_qps b) / 2 \<le> x)"
proof -
  let ?m = "al_measured (ap_reads ap)"
  define new_r where "new_r = max (RECOVERY_FLOOR_FACTOR * nonzero_or (bg_r_tok_seed b) (bg_r_tok b))
    (RECOVERY_MARGIN * (if 0 < fst ?m then fst ?m else round1 (pj_arrival (ap_projection ap))))"
  define new_q where "new_q = max (RECOVERY_FLOOR_FACTOR * nonzero_or (bg_r_qps_seed b) (bg_r_qps b))
    (RECOVERY_MARGIN * (if 0 < fst ?m then snd ?m else round3 (pj_qps (ap_projection ap))))"
  have fl: "nonzero_or (bg_r_tok_seed b) (bg_r_tok b) / 2 \<le> new_r" "nonzero_or (bg_r_qps_seed b) (bg_r_qps b) / 2 \<le> new_q"
    by (simp_all add: new_r_def new_q_def RECOVERY_FLOOR_FACTOR_def)
  have e: "overload_recovery ap = (if al_overloads (ap_reads ap) = 0 \<or> ap_alias ap = [] then []
     else (if 0 < (if 0 < fst ?m then fst ?m else round1 (pj_arrival (ap_projection ap))) \<and> new_r < bg_r_tok b then [(''r_tok'', round1 new_r)] else []) @
       (if 0 < (if 0 < fst ?m then snd ?m else round3 (pj_qps (ap_projection ap))) \<and> new_q < bg_r_qps b then [(''r_qps'', round3 new_q)] else []))"
    by (simp add: overload_recovery_def Let_def split_beta new_r_def new_q_def b_def)
  show ?thesis
  proof (cases "al_overloads (ap_reads ap) = 0 \<or> ap_alias ap = []")
    case True
    then show ?thesis using that [of "[]" "[]"] by (simp add: e)
  next
    case False
    show ?thesis
      by (rule that [OF trans [OF e if_not_P [OF False]]]) (use fl in auto)
  qed
qed

definition seeded_below :: "real \<Rightarrow> real \<Rightarrow> real hash \<Rightarrow> bool" where
  "seeded_below s b h \<longleftrightarrow> h \<noteq> [] \<and> map_of h ''r_tok_seed'' = Some s \<and> get_or h ''r_tok'' (r_tok default_limits) \<le> b"

lemma update_nonempty: "AList.update k v h \<noteq> []"
  by (cases h) auto

text \<open>
  The arrival budget never escapes the discovered seed: whatever sequence of growth, recovery
  and stamping an alias's configuration goes through, its seed stays and its budget stays below
  the larger of its first value and the growth cap times the seed, up to the tenth a recovery is
  rounded to.
\<close>

theorem arrival_budget_stays_by_the_seed:
  assumes "cfg_reach cap al h0 h" "al \<noteq> []" "map_of h0 ''r_tok_seed'' = Some s" "0 < s"
  shows "map_of h ''r_tok_seed'' = Some s \<and>
    get_or h ''r_tok'' (r_tok default_limits) \<le> tenth_up (max (get_or h0 ''r_tok'' (r_tok default_limits)) (cap * s))"
proof -
  let ?B = "tenth_up (max (get_or h0 ''r_tok'' (r_tok default_limits)) (cap * s))"
  have B: "get_or h0 ''r_tok'' (r_tok default_limits) \<le> ?B" "cap * s \<le> ?B"
    using tenth_up_ge [of "max (get_or h0 ''r_tok'' (r_tok default_limits)) (cap * s)"] by auto
  from assms(1) have "seeded_below s ?B h"
  proof (induction rule: cfg_reach.induct)
    case cfg_start
    then show ?case using assms(3) B(1) by (auto simp: seeded_below_def)
  next
    case (cfg_grow h c w now ov arrival t age p)
    then have h: "h \<noteq> []" "map_of h ''r_tok_seed'' = Some s" by (auto simp: seeded_below_def)
    let ?g = "gw_written (reconcile_growth c w now ov arrival (budgets_of t age al (Some h)) p)"
    have seed: "bg_r_tok_seed (budgets_of t age al (Some h)) = Some s" "s \<noteq> 0"
      using budgets_of_fields(4) [OF assms(2) h(1)] h(2) assms(4) by simp_all
    from growth_writes [OF seed, of c w now ov arrival p] show ?case
    proof
      assume "?g = []"
      with cfg_grow.IH show ?thesis by simp
    next
      assume "\<exists>r k q. ?g = [(''r_tok'', r), (''k_inflight'', k), (''r_qps'', q)] \<and> r \<le> pc_growth_cap c * s"
      then obtain r k q where g: "?g = [(''r_tok'', r), (''k_inflight'', k), (''r_qps'', q)]" "r \<le> pc_growth_cap c * s"
        by blast
      have "r \<le> cap * s"
        using g(2) mult_right_mono [OF cfg_grow.hyps(2), of s] assms(4) by linarith
      with B(2) h show ?thesis
        unfolding g by (simp add: seeded_below_def update_nonempty get_or_def update_conv')
    qed
  next
    case (cfg_recover h ap t age)
    then have h: "h \<noteq> []" "map_of h ''r_tok_seed'' = Some s" "get_or h ''r_tok'' (r_tok default_limits) \<le> ?B"
      by (auto simp: seeded_below_def)
    have r: "bg_r_tok (al_budgets (ap_reads ap)) \<le> ?B"
      using cfg_recover.hyps(2) budgets_of_fields(1) [OF assms(2) h(1)] h(3) by simp
    obtain xs ys where w: "overload_recovery ap = xs @ ys"
      "xs = [] \<or> (\<exists>v. xs = [(''r_tok'', round1 v)] \<and> v < bg_r_tok (al_budgets (ap_reads ap)))"
      "ys = [] \<or> (\<exists>q. ys = [(''r_qps'', q)])"
      by (rule recovery_parts [of ap]) blast
    have "seeded_below s ?B (cfg_apply xs h)"
      using w(2)
    proof
      assume "\<exists>v. xs = [(''r_tok'', round1 v)] \<and> v < bg_r_tok (al_budgets (ap_reads ap))"
      then obtain v where v: "xs = [(''r_tok'', round1 v)]" "v < bg_r_tok (al_budgets (ap_reads ap))" by blast
      have "round1 v \<le> ?B" by (rule round1_le_tenth) (use v(2) r in linarith)
      with h v(1) show ?thesis by (simp add: seeded_below_def update_nonempty get_or_def update_conv')
    qed (use cfg_recover.IH in simp)
    then show ?case
      using w(3) unfolding w(1) by (auto simp: seeded_below_def update_nonempty get_or_def update_conv')
  next
    case (cfg_stamp h v)
    then show ?case by (simp add: seeded_below_def update_nonempty get_or_def update_conv')
  qed
  then show ?thesis by (simp add: seeded_below_def)
qed

text \<open>
  A recovery lowers a budget to no less than half its seed: every change is below the budget it
  replaces and above the floor, up to the rounding of what is written.
\<close>

theorem recovery_keeps_the_floor:
  assumes "(k, v) \<in> set (overload_recovery ap)"
  shows "(k = ''r_tok'' \<and> v \<le> bg_r_tok (al_budgets (ap_reads ap)) + 1 / 20 \<and>
      nonzero_or (bg_r_tok_seed (al_budgets (ap_reads ap))) (bg_r_tok (al_budgets (ap_reads ap))) / 2 - 1 / 20 \<le> v) \<or>
    (k = ''r_qps'' \<and> v \<le> bg_r_qps (al_budgets (ap_reads ap)) + 1 / 2000 \<and>
      nonzero_or (bg_r_qps_seed (al_budgets (ap_reads ap))) (bg_r_qps (al_budgets (ap_reads ap))) / 2 - 1 / 2000 \<le> v)"
proof -
  let ?b = "al_budgets (ap_reads ap)"
  obtain xs ys where w: "overload_recovery ap = xs @ ys"
    "xs = [] \<or> (\<exists>x. xs = [(''r_tok'', round1 x)] \<and> x < bg_r_tok ?b \<and> nonzero_or (bg_r_tok_seed ?b) (bg_r_tok ?b) / 2 \<le> x)"
    "ys = [] \<or> (\<exists>x. ys = [(''r_qps'', round3 x)] \<and> x < bg_r_qps ?b \<and> nonzero_or (bg_r_qps_seed ?b) (bg_r_qps ?b) / 2 \<le> x)"
    by (rule recovery_parts)
  then consider x where "k = ''r_tok''" "v = round1 x" "x < bg_r_tok ?b" "nonzero_or (bg_r_tok_seed ?b) (bg_r_tok ?b) / 2 \<le> x"
    | x where "k = ''r_qps''" "v = round3 x" "x < bg_r_qps ?b" "nonzero_or (bg_r_qps_seed ?b) (bg_r_qps ?b) / 2 \<le> x"
    using assms by fastforce
  then show ?thesis
  proof cases
    case (1 x)
    then show ?thesis using round1_near [of x] by simp
  next
    case (2 x)
    then show ?thesis using round3_near [of x] by simp
  qed
qed

section \<open>The budget that nothing bounds\<close>

definition ratchet_config :: planner_config where
  "ratchet_config = \<lparr>pc_explicit = False, pc_borrowed_cap = 30, pc_growth_cap = GROWTH_CAP_FACTOR,
     pc_utilization = FP_UTILIZATION, pc_growth_step = GROWTH_STEP, pc_window_s = 60, pc_enabled = True,
     pc_override = None, pc_mode = ''live'', pc_alias = ''m''\<rparr>"

definition ratchet_start :: "real hash" where
  "ratchet_start =
     [(''r_tok'', 1000), (''k_inflight'', 1000), (''r_qps'', 1), (''r_tok_seed'', 1000),
      (''k_inflight_seed'', 1000), (''r_qps_seed'', 1)]"

definition ratchet_at :: "real \<Rightarrow> real \<Rightarrow> real hash \<Rightarrow> bool" where
  "ratchet_at r k h \<longleftrightarrow> map_of h ''r_tok'' = Some r \<and> map_of h ''k_inflight'' = Some k \<and> map_of h ''r_tok_seed'' = Some 1000"

lemma ratchet_nonempty: "ratchet_at r k h \<Longrightarrow> h \<noteq> []"
  by (auto simp: ratchet_at_def)

lemma ratchet_budgets:
  "ratchet_at r k h \<Longrightarrow> bg_r_tok (budgets_of 0 0 ''m'' (Some h)) = r \<and>
     bg_k_inflight (budgets_of 0 0 ''m'' (Some h)) = k \<and> bg_r_tok_seed (budgets_of 0 0 ''m'' (Some h)) = Some 1000"
  using ratchet_nonempty by (auto simp: budgets_of_fields ratchet_at_def get_or_def)

lemma ratchet_grow:
  assumes "cfg_reach GROWTH_CAP_FACTOR ''m'' h0 h" "ratchet_at r k h" "r \<le> 1000"
  shows "\<exists>h'. cfg_reach GROWTH_CAP_FACTOR ''m'' h0 h' \<and> ratchet_at (r * (1 + GROWTH_STEP)) (k * (1 + GROWTH_STEP)) h'"
proof -
  let ?g = "reconcile_growth ratchet_config True 0 0 2000 (budgets_of 0 0 ''m'' (Some h)) (Some (0, 0))"
  note b = ratchet_budgets [OF assms(2)]
  have "gw_written ?g = [(''r_tok'', r * (1 + GROWTH_STEP)), (''k_inflight'', k * (1 + GROWTH_STEP)),
      (''r_qps'', bg_r_qps (budgets_of 0 0 ''m'' (Some h)) * (1 + GROWTH_STEP))]"
    using b assms(3)
    by (simp add: reconcile_growth_def ratchet_config_def nonzero_or_def GROWTH_CAP_FACTOR_def GROWTH_STEP_def FP_UTILIZATION_def Let_def)
  then have "ratchet_at (r * (1 + GROWTH_STEP)) (k * (1 + GROWTH_STEP)) (cfg_apply (gw_written ?g) h)"
    using assms(2) by (simp add: ratchet_at_def update_conv')
  moreover have "cfg_reach GROWTH_CAP_FACTOR ''m'' h0 (cfg_apply (gw_written ?g) h)"
    by (rule cfg_grow [OF assms(1)]) (simp_all add: ratchet_config_def)
  ultimately show ?thesis by blast
qed

lemma ratchet_recover:
  assumes "cfg_reach GROWTH_CAP_FACTOR ''m'' h0 h" "ratchet_at r k h" "500 < r"
  shows "\<exists>h'. cfg_reach GROWTH_CAP_FACTOR ''m'' h0 h' \<and> ratchet_at 500 k h'"
proof -
  let ?ap = "\<lparr>ap_alias = ''m'', ap_ceiling = 0, ap_binding = [],
     ap_projection = \<lparr>pj_arrival = 0, pj_inflight = 0, pj_qps = 0, pj_peak_at = 0\<rparr>,
     ap_reads = \<lparr>al_budgets = budgets_of 0 0 ''m'' (Some h), al_overloads = 1, al_share = 0, al_timeouts = 0,
       al_queue_len = 0, al_head_wait = 0, al_measured = (1, 0)\<rparr>\<rparr>"
  note b = ratchet_budgets [OF assms(2)]
  have "overload_recovery ?ap = [(''r_tok'', 500)]"
    using b assms(3) by (simp add: overload_recovery_def nonzero_or_def RECOVERY_FLOOR_FACTOR_def RECOVERY_MARGIN_def round1_def)
  then have "ratchet_at 500 k (cfg_apply (overload_recovery ?ap) h)"
    using assms(2) by (simp add: ratchet_at_def update_conv')
  moreover have "cfg_reach GROWTH_CAP_FACTOR ''m'' h0 (cfg_apply (overload_recovery ?ap) h)"
    by (rule cfg_recover [OF assms(1), where t = 0 and age = 0]) simp_all
  ultimately show ?thesis by blast
qed

text \<open>
  The in-flight budget has no bound: a recovery lowers only the arrival and the call budget
  while a growth raises all three, so alternating them takes the in-flight budget past any number
  with the arrival budget at half its seed.
\<close>

theorem inflight_budget_ratchets:
  "\<exists>h. cfg_reach GROWTH_CAP_FACTOR ''m'' ratchet_start h \<and>
     bound < get_or h ''k_inflight'' (k_inflight default_limits) \<and>
     map_of h ''r_tok'' = Some 500 \<and> map_of h ''r_tok_seed'' = Some 1000"
proof -
  have cycle: "\<exists>r h. cfg_reach GROWTH_CAP_FACTOR ''m'' ratchet_start h \<and> ratchet_at r (1000 * (1 + GROWTH_STEP) ^ n) h \<and>
      500 \<le> r \<and> r \<le> 1000" for n
  proof (induction n)
    case 0
    have "ratchet_at 1000 1000 ratchet_start" by (simp add: ratchet_at_def ratchet_start_def)
    then show ?case using cfg_start [of GROWTH_CAP_FACTOR "''m''" ratchet_start]
      by (intro exI [of _ 1000] exI [of _ ratchet_start]) simp
  next
    case (Suc n)
    then obtain r h where h: "cfg_reach GROWTH_CAP_FACTOR ''m'' ratchet_start h"
      "ratchet_at r (1000 * (1 + GROWTH_STEP) ^ n) h" "500 \<le> r" "r \<le> 1000" by blast
    from ratchet_grow [OF h(1,2,4)] obtain h1 where h1: "cfg_reach GROWTH_CAP_FACTOR ''m'' ratchet_start h1"
      "ratchet_at (r * (1 + GROWTH_STEP)) (1000 * (1 + GROWTH_STEP) ^ Suc n) h1" by (auto simp: ac_simps)
    have "500 < r * (1 + GROWTH_STEP)" using h(3) by (simp add: GROWTH_STEP_def)
    from ratchet_recover [OF h1 this] obtain h2 where "cfg_reach GROWTH_CAP_FACTOR ''m'' ratchet_start h2"
      "ratchet_at 500 (1000 * (1 + GROWTH_STEP) ^ Suc n) h2" by blast
    then show ?case by (intro exI [of _ 500] exI [of _ h2]) simp
  qed
  obtain n where n: "bound / 1000 < (1 + GROWTH_STEP) ^ n"
    using real_arch_pow [of "1 + GROWTH_STEP" "bound / 1000"] by (auto simp: GROWTH_STEP_def)
  from cycle [of n] obtain r h where h: "cfg_reach GROWTH_CAP_FACTOR ''m'' ratchet_start h"
    "ratchet_at r (1000 * (1 + GROWTH_STEP) ^ n) h" "500 \<le> r" "r \<le> 1000" by blast
  from ratchet_grow [OF h(1,2,4)] obtain h1 where h1: "cfg_reach GROWTH_CAP_FACTOR ''m'' ratchet_start h1"
    "ratchet_at (r * (1 + GROWTH_STEP)) (1000 * (1 + GROWTH_STEP) ^ n * (1 + GROWTH_STEP)) h1" by blast
  have "500 < r * (1 + GROWTH_STEP)" using h(3) by (simp add: GROWTH_STEP_def)
  from ratchet_recover [OF h1 this] obtain h2 where h2: "cfg_reach GROWTH_CAP_FACTOR ''m'' ratchet_start h2"
    "ratchet_at 500 (1000 * (1 + GROWTH_STEP) ^ n * (1 + GROWTH_STEP)) h2" by blast
  have "bound < 1000 * (1 + GROWTH_STEP) ^ n * (1 + GROWTH_STEP)"
  proof -
    have "bound < 1000 * (1 + GROWTH_STEP) ^ n" using n by (simp add: field_simps)
    also have "\<dots> \<le> 1000 * (1 + GROWTH_STEP) ^ n * (1 + GROWTH_STEP)" by (simp add: GROWTH_STEP_def)
    finally show ?thesis .
  qed
  with h2 show ?thesis by (auto simp: ratchet_at_def get_or_def)
qed

section \<open>Examples\<close>

definition calm_reads :: alias_reads where
  "calm_reads = \<lparr>al_budgets = default_budgets, al_overloads = 0, al_share = 0, al_timeouts = 0,
     al_queue_len = 0, al_head_wait = 0, al_measured = (0, 0)\<rparr>"

definition demo_inputs :: "real \<Rightarrow> nat \<Rightarrow> tick_inputs" where
  "demo_inputs now overloads = \<lparr>ti_now = now, ti_in_flight = 3, ti_fleet = [],
     ti_reads = (\<lambda>_. calm_reads\<lparr>al_overloads := overloads\<rparr>), ti_static_cap = Some 2, ti_writable = True\<rparr>"

definition demo_tick :: "real \<Rightarrow> nat \<Rightarrow> planner \<Rightarrow> plan_decision \<times> planner" where
  "demo_tick now overloads = planner_tick ratchet_config (\<lambda>_. None) (\<lambda>_ _. default_demand []) (demo_inputs now overloads)"

theorem ceiling_is_largest_fit_witness:
  "\<exists>extra \<le> SEARCH_LIMIT. fst (ceiling_from_budgets True 1 [] default_budgets (default_demand []) 0) = int extra"
proof -
  have "proper_demand (default_demand [])"
    by (simp add: proper_demand_def default_demand_def POOLED_A_def POOLED_B_def COMPACTION_CAP_def
        proper_table_def SURVIVAL_TABLE_def)
  from ceiling_is_largest_fit [OF this, of True 1 "[]" default_budgets 0] show ?thesis by auto
qed

lemma demo_overloads:
  "overload_count (plans_of ratchet_config (\<lambda>_. None) (\<lambda>_ _. default_demand []) (demo_inputs now n)) = n"
  by (simp add: overload_count_def plans_of_def fleet_groups_def demo_inputs_def ratchet_config_def plan_alias_def
      split_beta Let_def calm_reads_def)

theorem overload_freezes_launches_witness:
  "pd_binding (fst (demo_tick 30 0 (snd (demo_tick 10 1 new_planner)))) = ''cooldown''"
  using overload_freezes_launches [of ratchet_config "\<lambda>_. None" "\<lambda>_ _. default_demand []" "demo_inputs 10 1" new_planner
      "fst (demo_tick 10 1 new_planner)" "snd (demo_tick 10 1 new_planner)" "demo_inputs 30 0"
      "fst (demo_tick 30 0 (snd (demo_tick 10 1 new_planner)))" "snd (demo_tick 30 0 (snd (demo_tick 10 1 new_planner)))"]
  by (simp add: demo_overloads demo_tick_def [symmetric]) (simp add: demo_inputs_def ratchet_config_def)

theorem planner_ceiling_bounds_witness: "pd_ceiling (fst (demo_tick 10 0 new_planner)) \<le> 2"
  using planner_ceiling_bounds [of ratchet_config "\<lambda>_. None" "\<lambda>_ _. default_demand []" "demo_inputs 10 0" new_planner
      "fst (demo_tick 10 0 new_planner)" "snd (demo_tick 10 0 new_planner)"]
  by (simp add: demo_tick_def [symmetric]) (simp add: demo_inputs_def)

theorem observe_mode_actuates_nothing_witness:
  "pd_writes (fst (planner_tick (ratchet_config\<lparr>pc_mode := ''observe''\<rparr>) (\<lambda>_. None) (\<lambda>_ _. default_demand [])
     (demo_inputs 10 1) new_planner)) = []"
  using observe_mode_actuates_nothing [of "ratchet_config\<lparr>pc_mode := ''observe''\<rparr>"] by (simp add: ratchet_config_def)

theorem arrival_budget_stays_by_the_seed_witness:
  "get_or ratchet_start ''r_tok'' (r_tok default_limits) \<le> tenth_up 1500"
  using arrival_budget_stays_by_the_seed [OF cfg_start [of GROWTH_CAP_FACTOR "''m''" ratchet_start], of 1000]
  by (simp add: ratchet_start_def get_or_def GROWTH_CAP_FACTOR_def)

theorem recovery_keeps_the_floor_witness:
  "(1000 :: real) / 2 - 1 / 20 \<le> 500"
proof -
  let ?ap = "\<lparr>ap_alias = ''m'', ap_ceiling = 0, ap_binding = [],
     ap_projection = \<lparr>pj_arrival = 0, pj_inflight = 0, pj_qps = 0, pj_peak_at = 0\<rparr>,
     ap_reads = calm_reads\<lparr>al_budgets := default_budgets\<lparr>bg_r_tok_seed := Some 1000\<rparr>, al_overloads := 1, al_measured := (1, 0)\<rparr>\<rparr>"
  have "(''r_tok'', 500) \<in> set (overload_recovery ?ap)"
    by (simp add: overload_recovery_def calm_reads_def default_budgets_def default_limits_def nonzero_or_def
        RECOVERY_FLOOR_FACTOR_def RECOVERY_MARGIN_def round1_def)
  from recovery_keeps_the_floor [OF this] show ?thesis by (simp add: nonzero_or_def)
qed

end
