(* ===== verification/Shim_Requests.thy ===== *)
theory Shim_Requests
  imports Ceiling_Probe Compaction Dispatch_Gate Pacer_Client
begin

text \<open>
  The per-instance gateway shim of \<open>gateway/local_proxy.py\<close>, first part: what it reads from and
  adds to a request, the upstream error hidden in a successful reply, the prices of
  \<open>gateway/pricing.py\<close>, and the accounting of a reply's usage. A body is a JSON value, or \<open>None\<close>
  when it does not parse.
\<close>

section \<open>Values\<close>

text \<open>The truth of a value, and a dictionary's \<open>get\<close> with a default.\<close>

fun js_truth :: "json \<Rightarrow> bool" where
  "js_truth JsNull = False"
| "js_truth (JsBool b) = b"
| "js_truth (JsInt n) = (n \<noteq> 0)"
| "js_truth (JsFloat x) = (x \<noteq> Fin 0)"
| "js_truth (JsStr s) = (s \<noteq> [])"
| "js_truth (JsList xs) = (xs \<noteq> [])"
| "js_truth (JsObj kvs) = (kvs \<noteq> [])"

definition get_default :: "(string \<times> json) list \<Rightarrow> string \<Rightarrow> json \<Rightarrow> json" where
  "get_default kvs k d = (case map_of kvs k of Some v \<Rightarrow> v | None \<Rightarrow> d)"

definition js_or :: "json \<Rightarrow> json \<Rightarrow> json" where
  "js_or v d = (if js_truth v then v else d)"

fun js_fields :: "json \<Rightarrow> (string \<times> json) list" where
  "js_fields (JsObj kvs) = kvs"
| "js_fields _ = []"

text \<open>\<open>int(v)\<close>; \<open>None\<close> is an exception.\<close>

fun js_int :: "json \<Rightarrow> int option" where
  "js_int (JsBool b) = Some (if b then 1 else 0)"
| "js_int (JsInt n) = Some n"
| "js_int (JsFloat x) = pyfloat_int x"
| "js_int (JsStr s) = py_int_text s"
| "js_int _ = None"

section \<open>The request\<close>

definition is_completion_path :: "string \<Rightarrow> bool" where
  "is_completion_path path \<longleftrightarrow>
     (occurs ''/chat/completions'' path \<or> occurs ''/v1/messages'' path \<or> occurs ''/v1/responses'' path) \<and>
     \<not> occurs ''count_tokens'' path"

definition extract_model :: "json option \<Rightarrow> string" where
  "extract_model body =
     (case body of
        Some (JsObj kvs) \<Rightarrow> (case obj_get kvs ''model'' of JsStr m \<Rightarrow> if m \<noteq> [] then m else ''cheap-oss-model'' | _ \<Rightarrow> ''cheap-oss-model'')
      | _ \<Rightarrow> ''cheap-oss-model'')"

text \<open>One message of an Anthropic list; \<open>None\<close> where it is left alone.\<close>

definition text_block :: "(string \<times> json) list \<Rightarrow> string \<Rightarrow> json" where
  "text_block kvs s =
     JsObj ([(''type'', JsStr ''text''), (''text'', JsStr s)] @
       (case obj_get kvs ''cache_control'' of JsObj cc \<Rightarrow> [(''cache_control'', JsObj cc)] | _ \<Rightarrow> []))"

definition as_user :: "(string \<times> json) list \<Rightarrow> json" where
  "as_user kvs = JsObj (AList.update ''role'' (JsStr ''user'') (AList.delete ''cache_control'' kvs))"

definition rehome_message :: "json \<Rightarrow> json option" where
  "rehome_message m =
     (case m of
        JsObj kvs \<Rightarrow>
          if obj_get kvs ''role'' \<noteq> JsStr ''system'' then None
          else (case obj_get kvs ''content'' of
                  JsStr s \<Rightarrow> Some (as_user (AList.update ''content'' (JsList [text_block kvs s]) kvs))
                | JsList blocks \<Rightarrow> Some (as_user kvs)
                | _ \<Rightarrow> None)
      | _ \<Rightarrow> None)"

definition rehome_list :: "json list \<Rightarrow> json list" where
  "rehome_list ms = map (\<lambda>m. case rehome_message m of None \<Rightarrow> m | Some m' \<Rightarrow> m') ms"

definition rehomed_count :: "json list \<Rightarrow> nat" where
  "rehomed_count ms = length (filter (\<lambda>m. rehome_message m \<noteq> None) ms)"

definition rehome_system_role_messages :: "string \<Rightarrow> json option \<Rightarrow> json option \<times> nat" where
  "rehome_system_role_messages path body =
     (if \<not> occurs ''/v1/messages'' path \<or> \<not> is_completion_path path then (body, 0)
      else case body of
          Some (JsObj kvs) \<Rightarrow>
            (case obj_get kvs ''messages'' of
               JsList ms \<Rightarrow>
                 if rehomed_count ms = 0 then (body, 0)
                 else (Some (JsObj (AList.update ''messages'' (JsList (rehome_list ms)) kvs)), rehomed_count ms)
             | _ \<Rightarrow> (body, 0))
        | _ \<Rightarrow> (body, 0))"

definition inject_stream_options :: "string \<Rightarrow> json option \<Rightarrow> json option" where
  "inject_stream_options path body =
     (if \<not> occurs ''/chat/completions'' path then body
      else case body of
          Some (JsObj kvs) \<Rightarrow>
            if \<not> js_truth (obj_get kvs ''stream'') then body
            else if map_of kvs ''stream_options'' \<noteq> None then body
            else Some (JsObj (AList.update ''stream_options'' (JsObj [(''include_usage'', JsBool True)]) kvs))
        | _ \<Rightarrow> body)"

definition MAX_TOKENS_INJECT_FLOOR :: int where "MAX_TOKENS_INJECT_FLOOR = 1024"

definition OUTPUT_CAP_FIELDS :: "(string \<times> string list) list" where
  "OUTPUT_CAP_FIELDS =
     [(''/chat/completions'', [''max_tokens'', ''max_completion_tokens'']),
      (''/v1/messages'', [''max_tokens'']),
      (''/v1/responses'', [''max_output_tokens''])]"

definition cap_fields :: "string \<Rightarrow> string list option" where
  "cap_fields path = map_option snd (find (\<lambda>(marker, names). occurs marker path) OUTPUT_CAP_FIELDS)"

definition output_cap :: "int option \<Rightarrow> int \<Rightarrow> int" where
  "output_cap window est =
     max MAX_TOKENS_INJECT_FLOOR (case window of None \<Rightarrow> OUTPUT_RESERVE | Some w \<Rightarrow> min OUTPUT_RESERVE (w - est))"

definition inject_max_tokens :: "string \<Rightarrow> json option \<Rightarrow> int option \<Rightarrow> int \<Rightarrow> json option \<times> int option" where
  "inject_max_tokens path body window est =
     (if \<not> is_completion_path path then (body, None)
      else case cap_fields path of
          None \<Rightarrow> (body, None)
        | Some names \<Rightarrow>
            (case body of
               Some (JsObj kvs) \<Rightarrow>
                 if \<exists>name \<in> set names. obj_get kvs name \<noteq> JsNull then (body, None)
                 else (Some (JsObj (AList.update (hd names) (JsInt (output_cap window est)) kvs)), Some (output_cap window est))
             | _ \<Rightarrow> (body, None)))"

text \<open>The three mutations in the order of the handler.\<close>

definition shape_request :: "string \<Rightarrow> int option \<Rightarrow> int \<Rightarrow> json option \<Rightarrow> json option" where
  "shape_request path window est body =
     (let content = fst (rehome_system_role_messages path (inject_stream_options path body))
      in if is_completion_path path then fst (inject_max_tokens path content window est) else content)"

section \<open>The reply\<close>

text \<open>The value whose text names the upstream error in one choice.\<close>

definition choice_error :: "json \<Rightarrow> json option" where
  "choice_error c =
     (case c of
        JsObj kvs \<Rightarrow>
          (let psf = js_fields (obj_get kvs ''provider_specific_fields'');
               err = (case obj_get kvs ''error'' of JsObj e \<Rightarrow> JsObj e | _ \<Rightarrow> obj_get psf ''error'');
               native = js_or (obj_get kvs ''native_finish_reason'') (obj_get psf ''native_finish_reason'')
           in case err of
               JsObj e \<Rightarrow>
                 Some (js_or (obj_get (js_fields (obj_get e ''metadata'')) ''error_type'')
                   (js_or (obj_get e ''code'') (JsStr ''upstream_error'')))
             | _ \<Rightarrow> if native = JsStr ''error'' then Some (JsStr ''native_finish_reason_error'') else None)
      | _ \<Rightarrow> None)"

definition first_error :: "json list \<Rightarrow> json option" where
  "first_error cs = (case List.map_filter choice_error cs of [] \<Rightarrow> None | e # es \<Rightarrow> Some e)"

definition embedded_upstream_error :: "json option \<Rightarrow> json option" where
  "embedded_upstream_error body =
     (case body of
        Some (JsObj kvs) \<Rightarrow> (case obj_get kvs ''choices'' of JsList cs \<Rightarrow> first_error cs | _ \<Rightarrow> None)
      | _ \<Rightarrow> None)"

section \<open>Prices\<close>

text \<open>Dollars for a million tokens of input and of output, and the share of the input price a cached token costs.\<close>

definition MODEL_PRICING :: "(string \<times> real \<times> real) list" where
  "MODEL_PRICING =
     [(''qwen/qwen3-coder-30b-a3b-instruct'', 7 / 100, 7 / 25),
      (''deepseek/deepseek-v4-flash-0731'', 1 / 20, 4 / 25),
      (''cheap-oss-model'', 1 / 20, 4 / 25),
      (''claude-code-model'', 1 / 20, 4 / 25),
      (''poolside/laguna-xs-2.1'', 3 / 50, 3 / 25),
      (''qwen/qwen3-coder-next'', 3 / 25, 4 / 5),
      (''laguna-xs-2.1-mini'', 3 / 50, 3 / 25),
      (''laguna-xs-2.1-codex'', 3 / 50, 3 / 25),
      (''laguna-xs-2.1-opencode'', 3 / 50, 3 / 25),
      (''laguna-xs-2.1-custom_minimal'', 3 / 50, 3 / 25),
      (''laguna-xs-2.1-claude_code'', 3 / 50, 3 / 25),
      (''qwen3-coder-next-mini'', 3 / 25, 4 / 5),
      (''qwen3-coder-next-codex'', 3 / 25, 4 / 5),
      (''qwen3-coder-next-opencode'', 3 / 25, 4 / 5),
      (''qwen3-coder-next-custom_minimal'', 3 / 25, 4 / 5),
      (''qwen3-coder-next-claude_code'', 3 / 25, 4 / 5),
      (''deepseek-v4-flash-0731-mini'', 1 / 20, 4 / 25),
      (''deepseek-v4-flash-0731-codex'', 1 / 20, 4 / 25),
      (''deepseek-v4-flash-0731-opencode'', 1 / 20, 4 / 25),
      (''deepseek-v4-flash-0731-custom_minimal'', 1 / 20, 4 / 25),
      (''deepseek-v4-flash-0731-claude_code'', 1 / 20, 4 / 25),
      (''openai/gpt-5-mini'', 1 / 8, 1),
      (''gpt-5-mini-mini'', 1 / 8, 1),
      (''gpt-5-mini-codex'', 1 / 8, 1),
      (''gpt-5-mini-opencode'', 1 / 8, 1),
      (''gpt-5-mini-custom_minimal'', 1 / 8, 1),
      (''gpt-5-mini-claude_code'', 1 / 8, 1),
      (''minimax/minimax-m2.5'', 3 / 10, 6 / 5),
      (''minimax-m2.5-mini'', 3 / 10, 6 / 5),
      (''minimax-m2.5-codex'', 3 / 10, 6 / 5),
      (''minimax-m2.5-opencode'', 3 / 10, 6 / 5),
      (''minimax-m2.5-custom_minimal'', 3 / 10, 6 / 5),
      (''minimax-m2.5-claude_code'', 3 / 10, 6 / 5),
      (''deepseek-flash'', 1 / 20, 4 / 25),
      (''judge-model'', 1 / 20, 4 / 25)]"

definition MODEL_CACHE_READ_RATIOS :: "(string \<times> real) list" where
  "MODEL_CACHE_READ_RATIOS =
     [(''deepseek/deepseek-v4-flash-0731'', 13 / 50),
      (''cheap-oss-model'', 13 / 50),
      (''claude-code-model'', 13 / 50),
      (''deepseek-flash'', 13 / 50),
      (''judge-model'', 13 / 50),
      (''deepseek-v4-flash-0731-mini'', 13 / 50),
      (''deepseek-v4-flash-0731-codex'', 13 / 50),
      (''deepseek-v4-flash-0731-opencode'', 13 / 50),
      (''deepseek-v4-flash-0731-custom_minimal'', 13 / 50),
      (''deepseek-v4-flash-0731-claude_code'', 13 / 50),
      (''poolside/laguna-xs-2.1'', 1 / 2),
      (''laguna-xs-2.1-mini'', 1 / 2),
      (''laguna-xs-2.1-codex'', 1 / 2),
      (''laguna-xs-2.1-opencode'', 1 / 2),
      (''laguna-xs-2.1-custom_minimal'', 1 / 2),
      (''laguna-xs-2.1-claude_code'', 1 / 2),
      (''qwen/qwen3-coder-next'', 2916666666666667 / 5000000000000000),
      (''qwen3-coder-next-mini'', 2916666666666667 / 5000000000000000),
      (''qwen3-coder-next-codex'', 2916666666666667 / 5000000000000000),
      (''qwen3-coder-next-opencode'', 2916666666666667 / 5000000000000000),
      (''qwen3-coder-next-custom_minimal'', 2916666666666667 / 5000000000000000),
      (''qwen3-coder-next-claude_code'', 2916666666666667 / 5000000000000000),
      (''openai/gpt-5-mini'', 1 / 10),
      (''gpt-5-mini-mini'', 1 / 10),
      (''gpt-5-mini-codex'', 1 / 10),
      (''gpt-5-mini-opencode'', 1 / 10),
      (''gpt-5-mini-custom_minimal'', 1 / 10),
      (''gpt-5-mini-claude_code'', 1 / 10),
      (''minimax/minimax-m2.5'', 1 / 10),
      (''minimax-m2.5-mini'', 1 / 10),
      (''minimax-m2.5-codex'', 1 / 10),
      (''minimax-m2.5-opencode'', 1 / 10),
      (''minimax-m2.5-custom_minimal'', 1 / 10),
      (''minimax-m2.5-claude_code'', 1 / 10)]"

definition MODEL_CACHE_READ_RATIO :: real where "MODEL_CACHE_READ_RATIO = 2 / 10"

definition UNKNOWN_MODEL_PRICE :: "real \<times> real" where "UNKNOWN_MODEL_PRICE = (1, 5)"

definition model_price :: "string \<Rightarrow> real \<times> real" where
  "model_price model = (case map_of MODEL_PRICING model of Some p \<Rightarrow> p | None \<Rightarrow> UNKNOWN_MODEL_PRICE)"

definition cache_read_ratio :: "string \<Rightarrow> real" where
  "cache_read_ratio model =
     (case map_of MODEL_CACHE_READ_RATIOS model of Some r \<Rightarrow> r | None \<Rightarrow> MODEL_CACHE_READ_RATIO)"

text \<open>\<open>cost_for\<close>: a reported cost that is not zero wins; otherwise the tokens are priced.\<close>

definition priced :: "int \<Rightarrow> int \<Rightarrow> string \<Rightarrow> int \<Rightarrow> real" where
  "priced input_tokens output_tokens model cached_input_tokens =
     (let (in_price, out_price) = model_price model;
          cached = max 0 cached_input_tokens;
          full_input = max 0 (input_tokens - min cached input_tokens);
          chargeable = min cached input_tokens
      in of_int full_input / 1000000 * in_price
         + of_int chargeable / 1000000 * (in_price * cache_read_ratio model)
         + of_int output_tokens / 1000000 * out_price)"

definition cost_for :: "real option \<Rightarrow> int \<Rightarrow> int \<Rightarrow> string \<Rightarrow> int \<Rightarrow> real" where
  "cost_for gateway_cost input_tokens output_tokens model cached_input_tokens =
     (case gateway_cost of
        Some c \<Rightarrow> if c \<noteq> 0 then c else priced input_tokens output_tokens model cached_input_tokens
      | None \<Rightarrow> priced input_tokens output_tokens model cached_input_tokens)"

section \<open>The accounting of a reply\<close>

record shim_usage =
  su_input :: int
  su_output :: int
  su_cached :: int
  su_cache_write :: int
  su_reasoning :: int
  su_cost :: real
  su_gateway :: bool
  su_parse_failed :: nat
  su_paced_wait_ms :: int
  su_paced_calls :: nat
  su_pacer_timeouts :: nat
  su_overload_retries :: nat
  su_deny_axis :: "axis option"
  su_queue_len :: int

definition no_usage :: shim_usage where
  "no_usage = \<lparr>su_input = 0, su_output = 0, su_cached = 0, su_cache_write = 0, su_reasoning = 0, su_cost = 0,
     su_gateway = False, su_parse_failed = 0, su_paced_wait_ms = 0, su_paced_calls = 0, su_pacer_timeouts = 0,
     su_overload_retries = 0, su_deny_axis = None, su_queue_len = 0\<rparr>"

text \<open>
  Of the usage blocks found in the tail, in their order: the first whose input is a positive
  number, or else the last.
\<close>

definition block_input :: "(string \<times> json) list \<Rightarrow> json" where
  "block_input u = js_or (get_default u ''input_tokens'' (get_default u ''prompt_tokens'' (JsInt 0))) (JsInt 0)"

definition positive_block :: "(string \<times> json) list \<Rightarrow> bool" where
  "positive_block u = (case js_int (block_input u) of None \<Rightarrow> False | Some n \<Rightarrow> 0 < n)"

definition pick_usage :: "(string \<times> json) list list \<Rightarrow> (string \<times> json) list option" where
  "pick_usage blocks =
     (if blocks = [] then None
      else case find positive_block blocks of Some u \<Rightarrow> Some u | None \<Rightarrow> Some (last blocks))"

text \<open>\<open>int(d.get(k, 0) or 0)\<close>, and \<open>float(cost)\<close>.\<close>

definition count_field :: "(string \<times> json) list \<Rightarrow> string \<Rightarrow> int option" where
  "count_field u k = js_int (js_or (get_default u k (JsInt 0)) (JsInt 0))"

fun js_float :: "json \<Rightarrow> pyfloat option" where
  "js_float (JsBool b) = Some (Fin (if b then 1 else 0))"
| "js_float (JsInt n) = Some (Fin (of_int n))"
| "js_float (JsFloat x) = Some x"
| "js_float (JsStr s) = py_float s"
| "js_float _ = None"

record call_tokens =
  ct_input :: int
  ct_output :: int
  ct_cached :: int
  ct_cache_write :: int
  ct_reasoning :: int
  ct_cost :: "real option"

text \<open>
  The counts of a block; \<open>None\<close> where a conversion raises an error that the handler catches. A reported cost
  that is null or zero is none; one that is no finite number is taken as raising.
\<close>

definition details :: "(string \<times> json) list \<Rightarrow> string \<Rightarrow> string \<Rightarrow> (string \<times> json) list" where
  "details u k k' = js_fields (js_or (obj_get u k) (js_or (obj_get u k') (JsObj [])))"

definition reported_cost :: "(string \<times> json) list \<Rightarrow> real option option" where
  "reported_cost u =
     (let c = obj_get u ''cost''
      in if c \<in> {JsNull, JsInt 0, JsFloat (Fin 0), JsBool False} then Some None
         else case js_float c of Some (Fin x) \<Rightarrow> Some (Some x) | _ \<Rightarrow> None)"

definition or_zero :: "int option \<Rightarrow> (string \<times> json) list \<Rightarrow> string \<Rightarrow> int option" where
  "or_zero n u k = (case n of None \<Rightarrow> None | Some m \<Rightarrow> if m = 0 then count_field u k else Some m)"

definition block_tokens :: "(string \<times> json) list \<Rightarrow> call_tokens option" where
  "block_tokens u =
     (let pd = details u ''prompt_tokens_details'' ''input_tokens_details'';
          cd = details u ''completion_tokens_details'' ''output_tokens_details'';
          outp = js_or (get_default u ''output_tokens'' (get_default u ''completion_tokens'' (JsInt 0))) (JsInt 0);
          thinking = js_or (get_default cd ''thinking_tokens'' (get_default cd ''reasoning_tokens'' (JsInt 0))) (JsInt 0)
      in case (js_int (block_input u), js_int outp, or_zero (count_field pd ''cached_tokens'') u ''cache_read_input_tokens'',
               or_zero (count_field pd ''cache_write_tokens'') u ''cache_creation_input_tokens'', js_int thinking,
               reported_cost u) of
           (Some i, Some n, Some c, Some w, Some r, Some cost) \<Rightarrow>
             Some \<lparr>ct_input = i, ct_output = n, ct_cached = c, ct_cache_write = w, ct_reasoning = r, ct_cost = cost\<rparr>
         | _ \<Rightarrow> None)"

definition add_call :: "string \<Rightarrow> call_tokens \<Rightarrow> shim_usage \<Rightarrow> shim_usage" where
  "add_call model t u =
     u\<lparr>su_input := su_input u + ct_input t, su_output := su_output u + ct_output t,
       su_cached := su_cached u + ct_cached t, su_cache_write := su_cache_write u + ct_cache_write t,
       su_reasoning := su_reasoning u + ct_reasoning t,
       su_cost := su_cost u + cost_for (ct_cost t) (ct_input t) (ct_output t) model (ct_cached t),
       su_gateway := (su_gateway u \<or> ct_cost t \<noteq> None)\<rparr>"

text \<open>
  \<open>_accumulate_tail\<close>: the block, the counts that reach the call record, and the usage. A block that
  is an empty dictionary counts as none.
\<close>

definition accumulate_tail ::
    "string \<Rightarrow> (string \<times> json) list list \<Rightarrow> shim_usage \<Rightarrow> bool \<times> call_tokens option \<times> shim_usage" where
  "accumulate_tail model blocks u =
     (case pick_usage blocks of
        None \<Rightarrow> (False, None, u)
      | Some b \<Rightarrow>
          if b = [] then (False, None, u)
          else (case block_tokens b of
                  None \<Rightarrow> (True, None, u)
                | Some t \<Rightarrow> (True, Some t, add_call model t u)))"

text \<open>
  \<open>int\<close> raises \<open>OverflowError\<close> on an infinite number, which JSON texts as Python reads them can hold.
  Neither the search for the block nor the conversions catch it: the first conversion that fails decides
  whether the parse is dropped or escapes.
\<close>

definition infinite_count :: "json \<Rightarrow> bool" where
  "infinite_count j \<longleftrightarrow> j = JsFloat PosInf \<or> j = JsFloat NegInf"

definition pick_overflows :: "(string \<times> json) list list \<Rightarrow> bool" where
  "pick_overflows blocks =
     (case find (\<lambda>b. positive_block b \<or> infinite_count (block_input b)) blocks of
        None \<Rightarrow> False
      | Some b \<Rightarrow> infinite_count (block_input b))"

definition block_conversions :: "(string \<times> json) list \<Rightarrow> json list" where
  "block_conversions u =
     (let pd = details u ''prompt_tokens_details'' ''input_tokens_details'';
          cd = details u ''completion_tokens_details'' ''output_tokens_details'';
          number = (\<lambda>d k. js_or (get_default d k (JsInt 0)) (JsInt 0))
      in [block_input u,
          js_or (get_default u ''output_tokens'' (get_default u ''completion_tokens'' (JsInt 0))) (JsInt 0),
          number pd ''cached_tokens'', number pd ''cache_write_tokens''] @
         (if count_field pd ''cached_tokens'' = Some 0 then [number u ''cache_read_input_tokens''] else []) @
         (if count_field pd ''cache_write_tokens'' = Some 0 then [number u ''cache_creation_input_tokens''] else []) @
         [js_or (get_default cd ''thinking_tokens'' (get_default cd ''reasoning_tokens'' (JsInt 0))) (JsInt 0)])"

definition block_overflows :: "(string \<times> json) list \<Rightarrow> bool" where
  "block_overflows u =
     (case find (\<lambda>j. js_int j = None) (block_conversions u) of None \<Rightarrow> False | Some j \<Rightarrow> infinite_count j)"

definition usage_overflows :: "(string \<times> json) list list \<Rightarrow> bool" where
  "usage_overflows blocks \<longleftrightarrow>
     pick_overflows blocks \<or>
     (case pick_usage blocks of None \<Rightarrow> False | Some b \<Rightarrow> b \<noteq> [] \<and> block_overflows b)"

text \<open>
  \<open>_usage_from_tail\<close>: the blocks after each occurrence of the key, matched by braces. \<open>loads\<close> decodes
  a JSON text.
\<close>

fun brace_match :: "nat \<Rightarrow> string \<Rightarrow> string option" where
  "brace_match d [] = None"
| "brace_match d (c # cs) =
     (if c = CHR ''{'' then map_option (Cons c) (brace_match (d + 1) cs)
      else if c = CHR ''}'' then
        (if d \<le> 1 then Some [c] else map_option (Cons c) (brace_match (d - 1) cs))
      else map_option (Cons c) (brace_match d cs))"

definition block_after :: "string \<Rightarrow> string option" where
  "block_after t =
     (case dropWhile (\<lambda>c. c \<noteq> CHR '':'') t of
        [] \<Rightarrow> None
      | c # r \<Rightarrow>
          (let r' = dropWhile (\<lambda>c. c \<in> {CHR '' '', CHR 0x09, CHR 0x0D, CHR 0x0A}) r
           in if prefix ''{'' r' then brace_match 0 r' else None))"

definition usage_key :: string where
  "usage_key = [CHR 0x22] @ ''usage'' @ [CHR 0x22]"

fun usage_blocks :: "(string \<Rightarrow> json option) \<Rightarrow> string \<Rightarrow> (string \<times> json) list list" where
  "usage_blocks loads [] = []"
| "usage_blocks loads (c # cs) =
     (if prefix usage_key (c # cs) then
        (case Option.bind (block_after (drop (length usage_key) (c # cs))) loads of
           Some (JsObj kvs) \<Rightarrow> [kvs]
         | _ \<Rightarrow> [])
      else []) @ usage_blocks loads cs"

definition usage_from_tail :: "(string \<Rightarrow> json option) \<Rightarrow> string \<Rightarrow> (string \<times> json) list option" where
  "usage_from_tail loads text = pick_usage (usage_blocks loads text)"

section \<open>What a request keeps\<close>

lemma obj_get_update: "obj_get (AList.update k v kvs) k' = (if k' = k then v else obj_get kvs k')"
  by (simp add: obj_get_def update_conv')

lemma cap_fields_cases:
  "cap_fields path \<in> {None, Some [''max_tokens'', ''max_completion_tokens''], Some [''max_tokens''], Some [''max_output_tokens'']}"
  by (auto simp: cap_fields_def OUTPUT_CAP_FIELDS_def)

lemma completion_cap_fields: "is_completion_path path \<Longrightarrow> cap_fields path \<noteq> None"
  by (auto simp: cap_fields_def OUTPUT_CAP_FIELDS_def is_completion_path_def)

lemma output_cap_bounds:
  "MAX_TOKENS_INJECT_FLOOR \<le> output_cap w est \<and> output_cap w est \<le> OUTPUT_RESERVE \<and>
   (w = Some n \<and> est + MAX_TOKENS_INJECT_FLOOR \<le> n \<longrightarrow> est + output_cap w est \<le> n)"
  by (auto simp: output_cap_def MAX_TOKENS_INJECT_FLOOR_def OUTPUT_RESERVE_def split: option.splits)

text \<open>
  The output cap the shim adds fits the window: it is written exactly into a completion request
  that is a JSON object and names no cap, it lies between the floor and the compaction reserve, and
  whenever the estimated prompt leaves at least the floor, prompt and output together stay within
  the window.
\<close>

theorem injected_cap_fits_window:
  assumes "inject_max_tokens path (Some (JsObj kvs)) window est = (body', injected)"
  shows "(injected \<noteq> None \<longleftrightarrow> is_completion_path path \<and>
      (\<forall>name \<in> set (the (cap_fields path)). obj_get kvs name = JsNull)) \<and>
    (injected = None \<longrightarrow> body' = Some (JsObj kvs)) \<and>
    (\<forall>v. injected = Some v \<longrightarrow>
       (\<exists>kvs'. body' = Some (JsObj kvs') \<and> obj_get kvs' (hd (the (cap_fields path))) = JsInt v) \<and>
       1024 \<le> v \<and> v \<le> 16384 \<and> (\<forall>w. window = Some w \<and> est + 1024 \<le> w \<longrightarrow> est + v \<le> w))"
proof (cases "is_completion_path path")
  case True
  then obtain names where n: "cap_fields path = Some names" using completion_cap_fields by fastforce
  note b = output_cap_bounds [of window est]
  show ?thesis
    using assms True b
    by (auto simp: inject_max_tokens_def n obj_get_update MAX_TOKENS_INJECT_FLOOR_def OUTPUT_RESERVE_def split: if_splits)
next
  case False
  with assms show ?thesis by (auto simp: inject_max_tokens_def)
qed

lemma inject_stream_adds:
  "\<exists>kvs'. inject_stream_options path (Some (JsObj kvs)) = Some (JsObj kvs') \<and>
     (\<forall>k. map_of kvs k = None \<or> obj_get kvs' k = obj_get kvs k)"
  by (auto simp: inject_stream_options_def obj_get_update)

lemma rehome_adds:
  "\<exists>kvs'. fst (rehome_system_role_messages path (Some (JsObj kvs))) = Some (JsObj kvs') \<and>
     (\<forall>k. obj_get kvs' k = obj_get kvs k \<or> k = ''messages'' \<and> occurs ''/v1/messages'' path \<and>
        (\<exists>ms ms'. obj_get kvs k = JsList ms \<and> obj_get kvs' k = JsList ms' \<and> length ms' = length ms))"
  by (auto simp: rehome_system_role_messages_def obj_get_update rehome_list_def split: json.split)

lemma inject_max_adds:
  "\<exists>kvs'. fst (inject_max_tokens path (Some (JsObj kvs)) w est) = Some (JsObj kvs') \<and>
     (\<forall>k. obj_get kvs' k = obj_get kvs k \<or> obj_get kvs k = JsNull)"
  using cap_fields_cases [of path] by (auto simp: inject_max_tokens_def obj_get_update split: option.split)

text \<open>
  The shim only adds to a request: a body that is no JSON object is forwarded as it is, and in
  one that is, every field the harness gave a value keeps it, except that the message list of an
  Anthropic request keeps its length while its system notices become user text.
\<close>

theorem mutations_are_additive:
  "((\<nexists>kvs. body = Some (JsObj kvs)) \<longrightarrow> shape_request path w est body = body) \<and>
   (\<forall>kvs. body = Some (JsObj kvs) \<longrightarrow>
      (\<exists>kvs'. shape_request path w est body = Some (JsObj kvs') \<and>
         (\<forall>k v. map_of kvs k = Some v \<and> v \<noteq> JsNull \<longrightarrow>
            obj_get kvs' k = v \<or>
            k = ''messages'' \<and> occurs ''/v1/messages'' path \<and>
              (\<exists>ms ms'. v = JsList ms \<and> obj_get kvs' k = JsList ms' \<and> length ms' = length ms))))"
proof (intro conjI impI allI)
  assume "\<nexists>kvs. body = Some (JsObj kvs)"
  then show "shape_request path w est body = body"
    by (auto simp: shape_request_def inject_stream_options_def rehome_system_role_messages_def
        inject_max_tokens_def Let_def split: option.split json.split)
next
  fix kvs assume b: "body = Some (JsObj kvs)"
  obtain k1 where k1: "inject_stream_options path body = Some (JsObj k1)"
    "\<forall>k. map_of kvs k = None \<or> obj_get k1 k = obj_get kvs k"
    using inject_stream_adds [of path kvs] unfolding b by blast
  obtain k2 where k2: "fst (rehome_system_role_messages path (Some (JsObj k1))) = Some (JsObj k2)"
    "\<forall>k. obj_get k2 k = obj_get k1 k \<or> k = ''messages'' \<and> occurs ''/v1/messages'' path \<and>
        (\<exists>ms ms'. obj_get k1 k = JsList ms \<and> obj_get k2 k = JsList ms' \<and> length ms' = length ms)"
    using rehome_adds [of path k1] by blast
  have "\<exists>k3. shape_request path w est body = Some (JsObj k3) \<and> (\<forall>k. obj_get k3 k = obj_get k2 k \<or> obj_get k2 k = JsNull)"
  proof (cases "is_completion_path path")
    case True
    with inject_max_adds [of path k2 w est] show ?thesis by (simp add: shape_request_def Let_def k1(1) k2(1))
  qed (simp add: shape_request_def Let_def k1(1) k2(1))
  then obtain k3 where k3: "shape_request path w est body = Some (JsObj k3)"
    "\<forall>k. obj_get k3 k = obj_get k2 k \<or> obj_get k2 k = JsNull" by blast
  show "\<exists>kvs'. shape_request path w est body = Some (JsObj kvs') \<and>
         (\<forall>k v. map_of kvs k = Some v \<and> v \<noteq> JsNull \<longrightarrow>
            obj_get kvs' k = v \<or>
            k = ''messages'' \<and> occurs ''/v1/messages'' path \<and>
              (\<exists>ms ms'. v = JsList ms \<and> obj_get kvs' k = JsList ms' \<and> length ms' = length ms))"
  proof (intro exI [of _ k3] conjI allI impI)
    fix k v assume kv: "map_of kvs k = Some v \<and> v \<noteq> JsNull"
    then have "obj_get k1 k = v" using spec [OF k1(2), of k] by (simp add: obj_get_def)
    with spec [OF k2(2), of k] spec [OF k3(2), of k] kv show "obj_get k3 k = v \<or>
            k = ''messages'' \<and> occurs ''/v1/messages'' path \<and>
              (\<exists>ms ms'. v = JsList ms \<and> obj_get k3 k = JsList ms' \<and> length ms' = length ms)"
      by auto
  qed (rule k3(1))
qed

text \<open>Whether a message is a notice the transform of the gateway would drop: a system message with a text or blocks.\<close>

definition system_notice :: "json \<Rightarrow> bool" where
  "system_notice m \<longleftrightarrow>
     (case m of
        JsObj kvs \<Rightarrow> obj_get kvs ''role'' = JsStr ''system'' \<and>
          (case obj_get kvs ''content'' of JsStr s \<Rightarrow> True | JsList xs \<Rightarrow> True | _ \<Rightarrow> False)
      | _ \<Rightarrow> False)"

lemma obj_get_delete: "obj_get (AList.delete k kvs) k' = (if k' = k then JsNull else obj_get kvs k')"
  by (simp add: obj_get_def delete_conv')

lemma obj_get_as_user:
  "as_user kvs = JsObj kvs' \<Longrightarrow>
   obj_get kvs' k = (if k = ''role'' then JsStr ''user'' else if k = ''cache_control'' then JsNull else obj_get kvs k)"
  by (auto simp: as_user_def obj_get_update obj_get_delete)

lemma rehome_message_iff: "rehome_message m \<noteq> None \<longleftrightarrow> system_notice m"
  by (auto simp: rehome_message_def system_notice_def split: json.splits)

lemma as_user_obj: "\<exists>kvs'. as_user kvs = JsObj kvs'"
  by (simp add: as_user_def)

lemma rehomed_not_notice: "rehome_message m = Some m' \<Longrightarrow> \<not> system_notice m'"
  by (auto simp: rehome_message_def system_notice_def as_user_def obj_get_update obj_get_delete
      split: json.splits if_splits)

text \<open>
  After the shim no system notice is left for the gateway to drop: in the message list of an
  Anthropic request each notice becomes a user message at its place that carries the same text or
  the same blocks, a text keeping its cache breakpoint; every other message is untouched, and doing
  it again changes nothing.
\<close>

theorem notices_become_user_text:
  "(\<forall>m \<in> set (rehome_list ms). \<not> system_notice m) \<and> length (rehome_list ms) = length ms \<and>
   (\<forall>i < length ms. \<not> system_notice (ms ! i) \<longrightarrow> rehome_list ms ! i = ms ! i) \<and>
   (\<forall>i < length ms. \<forall>kvs. ms ! i = JsObj kvs \<and> system_notice (ms ! i) \<longrightarrow>
      (\<exists>kvs'. rehome_list ms ! i = JsObj kvs' \<and> obj_get kvs' ''role'' = JsStr ''user'' \<and>
         obj_get kvs' ''content'' =
           (case obj_get kvs ''content'' of JsStr s \<Rightarrow> JsList [text_block kvs s] | c \<Rightarrow> c))) \<and>
   rehome_list (rehome_list ms) = rehome_list ms"
proof (intro conjI ballI allI impI)
  fix m assume "m \<in> set (rehome_list ms)"
  then show clean: "\<not> system_notice m"
    using rehome_message_iff rehomed_not_notice
    by (force simp: rehome_list_def split: option.splits)
next
  show "length (rehome_list ms) = length ms" by (simp add: rehome_list_def)
next
  fix i assume "i < length ms" "\<not> system_notice (ms ! i)"
  then show "rehome_list ms ! i = ms ! i"
    using rehome_message_iff [of "ms ! i"] by (simp add: rehome_list_def)
next
  fix i kvs assume i: "i < length ms" "ms ! i = JsObj kvs \<and> system_notice (ms ! i)"
  then have n: "rehome_list ms ! i = the (rehome_message (JsObj kvs))"
    using rehome_message_iff [of "ms ! i"] by (auto simp: rehome_list_def)
  show "\<exists>kvs'. rehome_list ms ! i = JsObj kvs' \<and> obj_get kvs' ''role'' = JsStr ''user'' \<and>
      obj_get kvs' ''content'' =
        (case obj_get kvs ''content'' of JsStr s \<Rightarrow> JsList [text_block kvs s] | c \<Rightarrow> c)"
    using i(2) unfolding n
    by (auto simp: rehome_message_def system_notice_def as_user_def obj_get_update obj_get_delete split: json.splits)
next
  have "\<forall>m \<in> set (rehome_list ms). rehome_message m = None"
    using rehome_message_iff rehomed_not_notice by (force simp: rehome_list_def split: option.splits)
  then show "rehome_list (rehome_list ms) = rehome_list ms"
    by (simp add: rehome_list_def [of "rehome_list ms"] map_idI)
qed

section \<open>What a reply costs\<close>

lemma prices_positive: "0 < fst (model_price model)" "0 < snd (model_price model)"
proof -
  have "\<forall>(k, p) \<in> set MODEL_PRICING. 0 < fst p \<and> 0 < snd p" by (simp add: MODEL_PRICING_def)
  then show "0 < fst (model_price model)" "0 < snd (model_price model)"
    by (force simp: model_price_def UNKNOWN_MODEL_PRICE_def dest: map_of_SomeD split: option.split)+
qed

lemma ratio_bounds: "0 < cache_read_ratio model" "cache_read_ratio model < 1"
proof -
  have "\<forall>(k, r) \<in> set MODEL_CACHE_READ_RATIOS. 0 < r \<and> r < 1" by (simp add: MODEL_CACHE_READ_RATIOS_def)
  then show "0 < cache_read_ratio model" "cache_read_ratio model < 1"
    by (auto simp: cache_read_ratio_def MODEL_CACHE_READ_RATIO_def dest: map_of_SomeD split: option.split)
qed

lemma priced_split:
  assumes "0 \<le> i" "0 \<le> c"
  shows "priced i n model c =
    (of_int (i - min c i) + of_int (min c i) * cache_read_ratio model) / 1000000 * fst (model_price model)
      + of_int n / 1000000 * snd (model_price model)"
  using assms by (simp add: priced_def split_beta Let_def algebra_simps max_def min_def add_divide_distrib diff_divide_distrib)

text \<open>
  Cache reads are priced as if they were part of the input. Where a provider reports them beside
  the new tokens, as Anthropic does, a call with at least as many cache reads as new tokens costs
  less than the same call without any cache: every new token is charged at the cache rate, and the
  reads themselves cost nothing however many they are.
\<close>

theorem cache_reads_lower_the_price:
  assumes "0 < i" "i \<le> c"
  shows "priced i n model c < priced i n model 0 \<and> priced i n model (c + extra) \<le> priced i n model 0 \<and>
    (0 \<le> extra \<longrightarrow> priced i n model (c + extra) = priced i n model c)"
proof -
  note p = prices_positive [of model] ratio_bounds [of model]
  have f: "priced i n model c' = of_int i * cache_read_ratio model / 1000000 * fst (model_price model)
      + of_int n / 1000000 * snd (model_price model)" if "i \<le> c'" for c'
    using priced_split [of i c' n model] that assms(1) by simp
  have z: "priced i n model c' = of_int i / 1000000 * fst (model_price model) + of_int n / 1000000 * snd (model_price model)"
    if "c' \<le> 0" for c'
    using that assms(1) by (simp add: priced_def split_beta Let_def)
  have "of_int i * cache_read_ratio model < of_int i * 1" using assms(1) p by (intro mult_strict_left_mono) auto
  then have "priced i n model c < priced i n model 0" using f [OF assms(2)] z [of 0] p
    by (simp add: divide_strict_right_mono mult_strict_right_mono)
  moreover have "priced i n model c' \<le> priced i n model 0" for c'
  proof (cases "c' \<le> 0")
    case False
    have "of_int (i - min c' i) + of_int (min c' i) * cache_read_ratio model \<le> of_int (i - min c' i) + of_int (min c' i) * 1"
      using p assms(1) False by (intro add_left_mono mult_left_mono) auto
    then have "of_int (i - min c' i) + of_int (min c' i) * cache_read_ratio model \<le> of_int i" by simp
    then show ?thesis
      using priced_split [of i c' n model] z [of 0] assms(1) False p
      by (simp add: divide_right_mono)
  qed (simp add: z)
  ultimately show ?thesis using f [OF assms(2)] f [of "c + extra"] assms(2) by auto
qed

section \<open>Examples\<close>

definition chat_body :: "(string \<times> json) list" where
  "chat_body = [(''model'', JsStr ''m''), (''messages'', JsList []), (''stream'', JsBool True)]"

lemma chat_path: "is_completion_path ''/v1/chat/completions''" "cap_fields ''/v1/chat/completions'' = Some [''max_tokens'', ''max_completion_tokens'']"
  by code_simp+

theorem injected_cap_fits_window_witness:
  "snd (inject_max_tokens ''/v1/chat/completions'' (Some (JsObj chat_body)) (Some 262144) 250000) = Some 12144 \<and>
   250000 + 12144 \<le> (262144 :: int)"
proof -
  let ?r = "inject_max_tokens ''/v1/chat/completions'' (Some (JsObj chat_body)) (Some 262144) 250000"
  have v: "snd ?r = Some 12144"
    by (simp add: inject_max_tokens_def chat_path chat_body_def obj_get_def output_cap_def OUTPUT_RESERVE_def MAX_TOKENS_INJECT_FLOOR_def)
  have "?r = (fst ?r, snd ?r)" by simp
  from injected_cap_fits_window [OF this] v show ?thesis by simp
qed

theorem mutations_are_additive_witness:
  "\<exists>kvs'. shape_request ''/v1/chat/completions'' None 10 (Some (JsObj chat_body)) = Some (JsObj kvs') \<and>
     obj_get kvs' ''model'' = JsStr ''m''"
  using mutations_are_additive [of "Some (JsObj chat_body)" "''/v1/chat/completions''" None 10]
  by (fastforce simp: chat_body_def)

theorem notices_become_user_text_witness:
  "\<exists>kvs'. rehome_list [JsObj [(''role'', JsStr ''system''), (''content'', JsStr ''left: 10'')]] ! 0 = JsObj kvs' \<and>
     obj_get kvs' ''role'' = JsStr ''user''"
  using notices_become_user_text [of "[JsObj [(''role'', JsStr ''system''), (''content'', JsStr ''left: 10'')]]"]
  by (fastforce simp: system_notice_def obj_get_def)

theorem cache_reads_lower_the_price_witness:
  "priced 2000 100 ''claude-code-model'' 50000 < priced 2000 100 ''claude-code-model'' 0"
  using cache_reads_lower_the_price [of 2000 50000] by simp

end
