(* ===== verification/Text_Lines.thy ===== *)
theory Text_Lines
  imports Py_Text
begin

text \<open>
  The lines and pieces of a text and the characters of a name: the parts of Python's string library
  and of its regular expressions that the readers of patches, logs and replies share. A text is a list
  of ASCII characters.
\<close>

section \<open>Names\<close>

text \<open>The characters an identifier starts with and goes on with.\<close>

definition name_start :: "char \<Rightarrow> bool" where
  "name_start c = (let n = (of_char c :: nat) in 65 \<le> n \<and> n \<le> 90 \<or> 97 \<le> n \<and> n \<le> 122 \<or> n = 95)"

definition name_char :: "char \<Rightarrow> bool" where
  "name_char c = (name_start c \<or> is_digit c)"

section \<open>Lines and pieces of a text\<close>

text \<open>\<open>str.splitlines\<close>: the line breaks of Python, of which a CR LF pair is one.\<close>

definition is_line_break :: "char \<Rightarrow> bool" where
  "is_line_break c = ((of_char c :: nat) \<in> {10, 11, 12, 13, 28, 29, 30})"

fun splitlines :: "string \<Rightarrow> string list" where
  "splitlines [] = []"
| "splitlines (c # cs) =
     (if c = CHR 0x0D \<and> prefix [CHR 0x0A] cs then [] # splitlines (tl cs)
      else if is_line_break c then [] # splitlines cs
      else (case splitlines cs of [] \<Rightarrow> [[c]] | l # ls \<Rightarrow> (c # l) # ls))"

text \<open>\<open>s.split(sep)\<close> and \<open>s.split(sep, 1)[0]\<close> for a separator that is not empty.\<close>

function split_on :: "string \<Rightarrow> string \<Rightarrow> string list" where
  "split_on sep [] = [[]]"
| "split_on sep (c # cs) =
     (if sep \<noteq> [] \<and> prefix sep (c # cs) then [] # split_on sep (drop (length sep - 1) cs)
      else (case split_on sep cs of [] \<Rightarrow> [[c]] | p # ps \<Rightarrow> (c # p) # ps))"
  by pat_completeness auto
termination by (relation "measure (length \<circ> snd)") auto

fun before :: "string \<Rightarrow> string \<Rightarrow> string" where
  "before sep [] = []"
| "before sep (c # cs) = (if prefix sep (c # cs) then [] else c # before sep cs)"

end
