(* ===== verification/Shim_Calls.thy ===== *)
theory Shim_Calls
  imports Shim_Requests Text_Lines
begin

text \<open>
  The per-instance gateway shim of \<open>gateway/local_proxy.py\<close>, second part: the handler \<open>_proxy\<close>.
  One request runs the ceiling check, the admission of the pacer, the attempts with their two
  kinds of retry, and the end of the stream.

  What the handler cannot determine is its environment: the verdicts of the pacer, the upstream's
  replies, the clock and the random factors. The pacer's own calls are events of a trace. The
  progress callback, the log lines and the bytes of the responses' JSON bodies are left out.
\<close>

section \<open>Scanning a reply\<close>

text \<open>
  The matches of \<open>_JSON_SCALAR\<close>: a quoted name, a colon and a string, number or literal. \<open>None\<close> where
  no match starts at the head of the text.
\<close>

fun string_rest :: "string \<Rightarrow> (string \<times> string) option" where
  "string_rest [] = None"
| "string_rest (c # cs) =
     (if c = CHR 0x22 then Some ([c], cs)
      else if c = CHR 0x5C then
        (case cs of
           [] \<Rightarrow> None
         | d # ds \<Rightarrow> if d = CHR 0x0A then None
                    else map_option (\<lambda>(s, r). (c # d # s, r)) (string_rest ds))
      else map_option (\<lambda>(s, r). (c # s, r)) (string_rest cs))"

definition digits_rest :: "string \<Rightarrow> string \<times> string" where
  "digits_rest t = (takeWhile is_digit t, dropWhile is_digit t)"

definition signed_digits :: "string \<Rightarrow> (string \<times> string) option" where
  "signed_digits t =
     (let (sg, r) = (case t of c # cs \<Rightarrow> if c \<in> {CHR ''-'', CHR ''+''} then ([c], cs) else ([], t) | [] \<Rightarrow> ([], t));
          (ds, r') = digits_rest r
      in if ds = [] then None else Some (sg @ ds, r'))"

definition number_rest :: "string \<Rightarrow> (string \<times> string) option" where
  "number_rest t =
     (case signed_digits t of
        None \<Rightarrow> None
      | Some (ip, r) \<Rightarrow>
          (let (fp, r1) = (case r of
               CHR ''.'' # cs \<Rightarrow> (let (ds, r') = digits_rest cs in if ds = [] then ([], r) else (CHR ''.'' # ds, r'))
             | _ \<Rightarrow> ([], r));
               (ep, r2) = (case r1 of
               c # cs \<Rightarrow> (if c \<in> {CHR ''e'', CHR ''E''} then (case signed_digits cs of Some (ds, r') \<Rightarrow> (c # ds, r') | None \<Rightarrow> ([], r1)) else ([], r1))
             | [] \<Rightarrow> ([], r1))
           in Some (ip @ fp @ ep, r2)))"

definition literal_rest :: "string \<Rightarrow> (string \<times> string) option" where
  "literal_rest t =
     (case find (\<lambda>w. prefix w t) [''true'', ''false'', ''null''] of
        None \<Rightarrow> None | Some w \<Rightarrow> Some (w, drop (length w) t))"

definition scalar_rest :: "string \<Rightarrow> (string \<times> string) option" where
  "scalar_rest t =
     (case t of
        CHR 0x22 # cs \<Rightarrow> map_option (\<lambda>(s, r). (CHR 0x22 # s, r)) (string_rest cs)
      | _ \<Rightarrow> (case number_rest t of Some m \<Rightarrow> Some m | None \<Rightarrow> literal_rest t))"

definition field_rest :: "string \<Rightarrow> (string \<times> string \<times> string) option" where
  "field_rest t =
     (case t of
        CHR 0x22 # c # cs \<Rightarrow>
          (let key = takeWhile name_char (c # cs); r = dropWhile name_char (c # cs)
           in if \<not> name_start c \<or> \<not> prefix [CHR 0x22] r then None
              else (case dropWhile is_space (tl r) of
                      CHR '':'' # r' \<Rightarrow>
                        map_option (\<lambda>(v, rest). (key, v, rest)) (scalar_rest (dropWhile is_space r'))
                    | _ \<Rightarrow> None))
      | _ \<Rightarrow> None)"

text \<open>\<open>finditer\<close>: the matches from left to right; a match is at least one character long.\<close>

function json_scalars :: "string \<Rightarrow> (string \<times> string) list" where
  "json_scalars [] = []"
| "json_scalars (c # cs) =
     (case field_rest (c # cs) of
        Some (key, v, rest) \<Rightarrow> (key, v) # json_scalars (drop (length cs - length rest) cs)
      | None \<Rightarrow> json_scalars cs)"
  by pat_completeness auto
termination by (relation "measure length") auto

text \<open>
  The last and the first scalar under a key. \<open>loads\<close> decodes a JSON text, \<open>None\<close> where it raises; so
  does the scan. A decoded null is the absence of a value.
\<close>

definition scalar_value :: "(string \<Rightarrow> json option) \<Rightarrow> string \<Rightarrow> json option" where
  "scalar_value loads v =
     (if v = ''null'' then Some JsNull else if v = ''true'' then Some (JsBool True)
      else if v = ''false'' then Some (JsBool False) else loads v)"

definition values_of :: "string \<Rightarrow> string \<Rightarrow> string list" where
  "values_of text key = List.map snd (filter (\<lambda>(k, v). k = key) (json_scalars text))"

definition scan_json_scalar :: "(string \<Rightarrow> json option) \<Rightarrow> string \<Rightarrow> string \<Rightarrow> json option" where
  "scan_json_scalar loads text key =
     foldl (\<lambda>r v. case r of None \<Rightarrow> None | Some _ \<Rightarrow> scalar_value loads v) (Some JsNull) (values_of text key)"

definition first_json_scalar :: "(string \<Rightarrow> json option) \<Rightarrow> string \<Rightarrow> string \<Rightarrow> json option" where
  "first_json_scalar loads text key =
     (case values_of text key of [] \<Rightarrow> Some JsNull | v # vs \<Rightarrow> scalar_value loads v)"

text \<open>\<open>_responses_incomplete_reason\<close>: the reason of the last object under its key.\<close>

definition incomplete_key :: string where
  "incomplete_key = [CHR 0x22] @ ''incomplete_details'' @ [CHR 0x22]"

fun responses_incomplete_reason :: "(string \<Rightarrow> json option) \<Rightarrow> string \<Rightarrow> json \<Rightarrow> json" where
  "responses_incomplete_reason loads [] r = r"
| "responses_incomplete_reason loads (c # cs) r =
     responses_incomplete_reason loads cs
       (if prefix incomplete_key (c # cs) then
          (case Option.bind (block_after (drop (length incomplete_key) (c # cs))) loads of
             Some (JsObj kvs) \<Rightarrow> obj_get kvs ''reason''
           | _ \<Rightarrow> r)
        else r)"

section \<open>The session and its ceilings\<close>

definition HOLD_CAPS :: "(string \<times> real) list" where
  "HOLD_CAPS =
     [(''custom_minimal'', 100), (''mini_swe_agent'', 240), (''claude_code'', 100), (''codex'', 240), (''opencode'', 240)]"

text \<open>The hold cap of a harness; \<open>env_cap\<close> is \<open>EVAL_PACER_HOLD_CAP_S\<close> where it is set.\<close>

definition hold_cap :: "string \<Rightarrow> real option \<Rightarrow> real" where
  "hold_cap harness env_cap =
     (let table_cap = (case map_of HOLD_CAPS harness of Some c \<Rightarrow> c | None \<Rightarrow> 45)
      in case env_cap of Some e \<Rightarrow> min table_cap e | None \<Rightarrow> table_cap)"

record shim_conf =
  sc_pacer :: bool
  sc_hold_cap :: real
  sc_window :: "int option"
  sc_max_tokens :: "int option"
  sc_max_cost :: "real option"
  sc_max_turns :: "int option"

text \<open>The identity a reply carries, and the record of one call.\<close>

record reply_identity =
  ri_generation :: json
  ri_model :: json
  ri_provider :: json
  ri_finish :: json
  ri_native_finish :: json
  ri_fingerprint :: json
  ri_tier :: json
  ri_status :: json
  ri_incomplete :: json
  ri_stop :: json

record call_rec =
  cl_index :: int
  cl_model :: string
  cl_path :: string
  cl_request_bytes :: int
  cl_stream :: bool
  cl_cap_requested :: json
  cl_cap_injected :: "int option"
  cl_rehomed :: nat
  cl_http_status :: "int option"
  cl_error :: "string option"
  cl_charge :: "int option"
  cl_paced_wait_ms :: "int option"
  cl_queued :: bool
  cl_queue_len :: int
  cl_deny_axis :: "axis option"
  cl_overload_retries :: nat
  cl_upstream_retries :: nat
  cl_backoff_ms :: "int option"
  cl_retry_ms :: "int option"
  cl_retry_after :: "pyfloat option"
  cl_latency_ms :: int
  cl_response_bytes :: nat
  cl_tokens :: "call_tokens option"
  cl_identity :: "reply_identity option"
  cl_parse_failed :: bool
  cl_scope :: "string option"

datatype shim_event =
  Acquired string | Released string "int option" int "int option" | Overload_noted | Slept real | Sent "json option"

record shim =
  sh_usage :: shim_usage
  sh_turns :: int
  sh_index :: int
  sh_refused :: bool
  sh_paused :: bool
  sh_prior :: int
  sh_log :: "call_rec list"
  sh_trace :: "shim_event list"

definition new_shim :: "shim_usage \<Rightarrow> shim" where
  "new_shim u = \<lparr>sh_usage = u, sh_turns = 0, sh_index = 0, sh_refused = False, sh_paused = False,
     sh_prior = 0, sh_log = [], sh_trace = []\<rparr>"

definition spent_tokens :: "shim \<Rightarrow> int" where
  "spent_tokens s = su_input (sh_usage s) + su_output (sh_usage s)"

definition turns_breached :: "shim_conf \<Rightarrow> shim \<Rightarrow> bool" where
  "turns_breached c s = (case sc_max_turns c of None \<Rightarrow> False | Some n \<Rightarrow> n \<le> sh_turns s)"

definition breached :: "shim_conf \<Rightarrow> shim \<Rightarrow> bool" where
  "breached c s \<longleftrightarrow>
     (case sc_max_tokens c of None \<Rightarrow> False | Some n \<Rightarrow> n \<le> spent_tokens s) \<or>
     (case sc_max_cost c of None \<Rightarrow> False | Some m \<Rightarrow> m \<le> su_cost (sh_usage s)) \<or>
     turns_breached c s"

record shim_request =
  rq_path :: string
  rq_body :: "json option"
  rq_bytes :: int

definition body_fields :: "shim_request \<Rightarrow> (string \<times> json) list" where
  "body_fields r = (case rq_body r of Some (JsObj kvs) \<Rightarrow> kvs | _ \<Rightarrow> [])"

definition begin_call :: "shim_request \<Rightarrow> shim \<Rightarrow> call_rec \<times> shim" where
  "begin_call r s =
     (let n = sh_index s + 1
      in (\<lparr>cl_index = n, cl_model = extract_model (rq_body r), cl_path = rq_path r, cl_request_bytes = rq_bytes r,
           cl_stream = js_truth (obj_get (body_fields r) ''stream''),
           cl_cap_requested = obj_get (body_fields r) ''max_tokens'', cl_cap_injected = None, cl_rehomed = 0,
           cl_http_status = None, cl_error = None, cl_charge = None, cl_paced_wait_ms = None, cl_queued = False,
           cl_queue_len = 0, cl_deny_axis = None, cl_overload_retries = 0, cl_upstream_retries = 0,
           cl_backoff_ms = None, cl_retry_ms = None, cl_retry_after = None, cl_latency_ms = 0,
           cl_response_bytes = 0, cl_tokens = None, cl_identity = None, cl_parse_failed = False, cl_scope = None\<rparr>,
          s\<lparr>sh_index := n\<rparr>))"

definition record_call :: "call_rec \<Rightarrow> shim \<Rightarrow> shim" where
  "record_call k s = s\<lparr>sh_log := sh_log s @ [k]\<rparr>"

definition emit :: "shim_event \<Rightarrow> shim \<Rightarrow> shim" where
  "emit e s = s\<lparr>sh_trace := sh_trace s @ [e]\<rparr>"

text \<open>
  What the client gets: an answer of the shim's own with its status and marker header, the upstream's
  status and chunks, or an exception that left the handler or broke the stream off, or the end of the
  environment.
\<close>

datatype shim_reply = Own int string | Relayed int "string list" | Escaped | Unfinished

definition refuse :: "shim_conf \<Rightarrow> shim_request \<Rightarrow> shim \<Rightarrow> shim_reply \<times> shim" where
  "refuse c r s =
     (let (k, s1) = begin_call r (s\<lparr>sh_refused := True\<rparr>);
          (kind, marker) = (if turns_breached c s then (''max_turns_exceeded'', ''x-eval-turns-exceeded'')
                            else (''budget_exceeded'', ''x-eval-budget-exceeded''))
      in (Own 400 marker, record_call (k\<lparr>cl_http_status := Some 400, cl_error := Some kind\<rparr>) s1))"

section \<open>Admission\<close>

text \<open>
  The verdict of one \<open>acquire\<close>: admitted by the ledger (call id, wait, queued, queue length, denying
  axis), admitted by the local fallback, or a \<open>PacerTimeout\<close> after a wait.
\<close>

datatype pace_verdict =
  Gate_open string int bool int "axis option" | Gate_local string int | Gate_shut int

fun gate_admission :: "int \<Rightarrow> int option \<Rightarrow> pace_verdict \<Rightarrow> admission option" where
  "gate_admission est charge (Gate_open i w q n ax) =
     Some \<lparr>ad_call_id = i, ad_est_tokens = est, ad_paced_wait_ms = w, ad_fallback = False, ad_was_queued = q,
       ad_queue_len_at_admit = n, ad_deny_axis_last = ax,
       ad_charge_tokens = (case charge of Some x \<Rightarrow> x | None \<Rightarrow> est)\<rparr>"
| "gate_admission est charge (Gate_local i w) =
     Some \<lparr>ad_call_id = i, ad_est_tokens = est, ad_paced_wait_ms = w, ad_fallback = True, ad_was_queued = False,
       ad_queue_len_at_admit = 0, ad_deny_axis_last = None, ad_charge_tokens = 0\<rparr>"
| "gate_admission est charge (Gate_shut w) = None"

definition fold_admission :: "admission \<Rightarrow> shim_usage \<Rightarrow> shim_usage" where
  "fold_admission ad u =
     (let u1 = u\<lparr>su_paced_wait_ms := su_paced_wait_ms u + ad_paced_wait_ms ad\<rparr>;
          u2 = (if ad_was_queued ad
                then u1\<lparr>su_paced_calls := su_paced_calls u1 + 1, su_deny_axis := ad_deny_axis_last ad\<rparr> else u1)
      in u2\<lparr>su_queue_len := ad_queue_len_at_admit ad\<rparr>)"

definition diagnostics :: "bool \<Rightarrow> admission \<Rightarrow> call_rec \<Rightarrow> call_rec" where
  "diagnostics accumulate ad k =
     k\<lparr>cl_queued := (ad_was_queued ad \<or> accumulate \<and> cl_queued k),
       cl_queue_len := ad_queue_len_at_admit ad,
       cl_deny_axis := (case ad_deny_axis_last ad of None \<Rightarrow> cl_deny_axis k | Some ax \<Rightarrow> Some ax)\<rparr>"

definition on_usage :: "(shim_usage \<Rightarrow> shim_usage) \<Rightarrow> shim \<Rightarrow> shim" where
  "on_usage f s = s\<lparr>sh_usage := f (sh_usage s)\<rparr>"

text \<open>The three-step fold of a timeout; a call already counted as paced is not counted again.\<close>

definition fold_timeout :: "int \<Rightarrow> bool \<Rightarrow> shim_usage \<Rightarrow> shim_usage" where
  "fold_timeout wait once u =
     u\<lparr>su_pacer_timeouts := su_pacer_timeouts u + 1, su_paced_wait_ms := su_paced_wait_ms u + wait,
       su_paced_calls := su_paced_calls u + (if once then 0 else 1)\<rparr>"

text \<open>What the attempts of one call carry along.\<close>

record attempt_state =
  at_call :: call_rec
  at_adm :: "admission option"
  at_wait :: int
  at_backoff :: int
  at_retry :: int
  at_over :: nat
  at_up :: nat
  at_counted :: bool

definition first_state :: "call_rec \<Rightarrow> admission option \<Rightarrow> attempt_state" where
  "first_state k ad =
     \<lparr>at_call = k, at_adm = ad, at_wait = (case ad of None \<Rightarrow> 0 | Some a \<Rightarrow> ad_paced_wait_ms a),
      at_backoff = 0, at_retry = 0, at_over = 0, at_up = 0,
      at_counted = (case ad of None \<Rightarrow> False | Some a \<Rightarrow> ad_was_queued a)\<rparr>"

definition prompt_estimate :: "shim_conf \<Rightarrow> real \<Rightarrow> shim_request \<Rightarrow> int" where
  "prompt_estimate c kappa r =
     (if \<not> is_completion_path (rq_path r) then 0
      else estimate_tokens (if sc_pacer c then kappa else KAPPA_INITIAL) (rq_bytes r))"

definition admit :: "shim_conf \<Rightarrow> real \<Rightarrow> real \<Rightarrow> pace_verdict \<Rightarrow> shim_request \<Rightarrow> call_rec \<Rightarrow> shim \<Rightarrow>
    (shim_reply \<times> shim) + (attempt_state \<times> shim)" where
  "admit c kappa weight g r k s =
     (if \<not> sc_pacer c \<or> \<not> is_completion_path (rq_path r) then Inr (first_state k None, s)
      else (let est = prompt_estimate c kappa r;
                charge = weighted_charge est (min (sh_prior s) est) weight;
                k1 = k\<lparr>cl_charge := Some charge\<rparr>
            in case gate_admission est (Some charge) g of
                 None \<Rightarrow>
                   (let cap_ms = py_round (sc_hold_cap c * 1000)
                    in Inl (Own 429 ''x-eval-paced'',
                        record_call (k1\<lparr>cl_http_status := Some 429, cl_error := Some ''pacer_hold_cap_exceeded'',
                                       cl_paced_wait_ms := Some cap_ms\<rparr>)
                          (on_usage (fold_timeout cap_ms False) s)))
               | Some ad \<Rightarrow>
                   Inr (first_state (diagnostics False ad (k1\<lparr>cl_paced_wait_ms := Some (ad_paced_wait_ms ad)\<rparr>)) (Some ad),
                        emit (Acquired (ad_call_id ad)) (on_usage (fold_admission ad) s))))"

section \<open>One attempt\<close>

definition MAX_OVERLOAD_RETRIES :: nat where "MAX_OVERLOAD_RETRIES = 6"
definition OVERLOAD_BACKOFF_BASE_S :: real where "OVERLOAD_BACKOFF_BASE_S = 30"
definition MAX_UPSTREAM_ERROR_RETRIES :: nat where "MAX_UPSTREAM_ERROR_RETRIES = 4"
definition UPSTREAM_ERROR_BACKOFF_BASE_S :: real where "UPSTREAM_ERROR_BACKOFF_BASE_S = 5"

definition overload_backoff :: "nat \<Rightarrow> real \<Rightarrow> real" where
  "overload_backoff n u = min (OVERLOAD_BACKOFF_BASE_S * of_nat (n + 1)) (3 * OVERLOAD_BACKOFF_BASE_S) * u"

definition upstream_backoff :: "nat \<Rightarrow> real \<Rightarrow> real" where
  "upstream_backoff n u = min (UPSTREAM_ERROR_BACKOFF_BASE_S * of_nat (n + 1)) (6 * UPSTREAM_ERROR_BACKOFF_BASE_S) * u"

text \<open>
  An upstream answer: the status, the headers with lower-case names, the body's chunks, and whether
  reading it fails after them.
\<close>

record upstream_answer =
  up_status :: int
  up_headers :: "(string \<times> string) list"
  up_chunks :: "string list"
  up_broken :: bool

datatype upstream_reply = Unreachable string | Answered upstream_answer

text \<open>
  One turn of the loop: the reply, the clock at its check, the random factor, the round trip, and
  the verdict of a re-acquire.
\<close>

record attempt =
  sn_reply :: upstream_reply
  sn_now :: real
  sn_jitter :: real
  sn_rtt_ms :: int
  sn_gate :: pace_verdict
  sn_latency_ms :: int

definition release_held :: "attempt_state \<Rightarrow> int option \<Rightarrow> int \<Rightarrow> int option \<Rightarrow> shim \<Rightarrow> shim" where
  "release_held a prompt chars cached s =
     (case at_adm a of None \<Rightarrow> s | Some ad \<Rightarrow> emit (Released (ad_call_id ad) prompt chars cached) s)"

definition retry_after :: "upstream_answer \<Rightarrow> pyfloat option" where
  "retry_after w = Option.bind (map_of (up_headers w) ''retry-after'') py_float"

definition nonzero :: "int \<Rightarrow> int option" where
  "nonzero n = (if n = 0 then None else Some n)"

text \<open>\<open>_release_backoff_reacquire\<close>.\<close>

definition wait_and_reenter :: "string \<Rightarrow> real \<Rightarrow> pace_verdict \<Rightarrow> attempt_state \<Rightarrow> shim \<Rightarrow>
    (shim_reply \<times> shim) + (attempt_state \<times> shim)" where
  "wait_and_reenter exhausted backoff g a s =
     (let s1 = emit (Slept backoff) (release_held a None 0 None s);
          a1 = a\<lparr>at_backoff := at_backoff a + py_round (backoff * 1000)\<rparr>
      in case at_adm a of
           None \<Rightarrow> Inr (a1, s1)
         | Some ad \<Rightarrow>
             (case gate_admission (ad_est_tokens ad) (nonzero (ad_charge_tokens ad)) g of
                None \<Rightarrow>
                  (let w = (case g of Gate_shut w \<Rightarrow> w | _ \<Rightarrow> 0);
                       total = at_wait a1 + w
                   in Inl (Own 429 ''x-eval-paced'',
                       record_call ((at_call a1)\<lparr>cl_http_status := Some 429, cl_error := Some exhausted,
                           cl_latency_ms := 0, cl_response_bytes := 0, cl_paced_wait_ms := Some total,
                           cl_backoff_ms := Some (at_backoff a1), cl_retry_ms := Some (at_retry a1)\<rparr>)
                         (on_usage (fold_timeout w (at_counted a1)) s1)))
              | Some ad' \<Rightarrow>
                  Inr (a1\<lparr>at_adm := Some ad', at_wait := at_wait a1 + ad_paced_wait_ms ad',
                          at_call := diagnostics True ad' (at_call a1),
                          at_counted := (at_counted a1 \<or> ad_was_queued ad')\<rparr>,
                       emit (Acquired (ad_call_id ad')) (on_usage (fold_admission ad') s1))))"

text \<open>
  One turn: it retries, ends the request, raises out of the handler, or leaves the loop with an
  answer and the body read ahead. \<open>content\<close> is the body sent, \<open>deadline\<close> the end of the hold.
\<close>

datatype attempt_result =
  Again attempt_state shim | Ended shim_reply shim | Raised shim
| Deliver attempt_state shim upstream_answer "string option"

definition after_wait :: "(shim_reply \<times> shim) + (attempt_state \<times> shim) \<Rightarrow> attempt_result" where
  "after_wait r = (case r of Inl (rep, s) \<Rightarrow> Ended rep s | Inr (a, s) \<Rightarrow> Again a s)"

definition retry_overload :: "real \<Rightarrow> attempt \<Rightarrow> attempt_state \<Rightarrow> shim \<Rightarrow> attempt_result" where
  "retry_overload backoff t a s =
     after_wait (wait_and_reenter ''engine_overloaded_retries_exhausted'' backoff (sn_gate t)
       (a\<lparr>at_over := at_over a + 1, at_retry := at_retry a + sn_rtt_ms t,
          at_call := (at_call a)\<lparr>cl_overload_retries := at_over a + 1\<rparr>\<rparr>)
       (on_usage (\<lambda>u. u\<lparr>su_overload_retries := su_overload_retries u + 1\<rparr>) (emit Overload_noted s)))"

definition retry_upstream :: "real \<Rightarrow> attempt \<Rightarrow> attempt_state \<Rightarrow> shim \<Rightarrow> attempt_result" where
  "retry_upstream backoff t a s =
     after_wait (wait_and_reenter ''upstream_error_retries_exhausted'' backoff (sn_gate t)
       (a\<lparr>at_up := at_up a + 1, at_retry := at_retry a + sn_rtt_ms t,
          at_call := (at_call a)\<lparr>cl_upstream_retries := at_up a + 1\<rparr>\<rparr>) s)"

definition pool_overload :: "attempt_state \<Rightarrow> upstream_answer \<Rightarrow> bool" where
  "pool_overload a w \<longleftrightarrow>
     at_adm a \<noteq> None \<and> up_status w = 429 \<and> is_real_provider_overload 429 (retry_after w)"

definition read_ahead :: "(string \<Rightarrow> json option) \<Rightarrow> real \<Rightarrow> attempt \<Rightarrow> attempt_state \<Rightarrow> shim \<Rightarrow> upstream_answer \<Rightarrow> attempt_result" where
  "read_ahead loads deadline t a s w =
     (if up_broken w then Raised s
      else let body = List.concat (up_chunks w)
           in case embedded_upstream_error (loads body) of
                None \<Rightarrow> Deliver a s w (Some body)
              | Some e \<Rightarrow>
                  (let backoff = upstream_backoff (at_up a) (sn_jitter t)
                   in if at_up a < MAX_UPSTREAM_ERROR_RETRIES \<and> sn_now t + backoff < deadline
                      then retry_upstream backoff t a s
                      else Deliver (a\<lparr>at_call := (at_call a)\<lparr>cl_error := Some ''upstream_error_embedded''\<rparr>\<rparr>)
                             s w (Some body)))"

definition attempt_once :: "(string \<Rightarrow> json option) \<Rightarrow> json option \<Rightarrow> real \<Rightarrow> attempt \<Rightarrow> attempt_state \<Rightarrow> shim \<Rightarrow> attempt_result" where
  "attempt_once loads content deadline t a s0 =
     (let s = emit (Sent content) s0; k = at_call a
      in case sn_reply t of
           Unreachable kind \<Rightarrow>
             Ended (Own 502 [])
               (release_held a None 0 None
                 (record_call (k\<lparr>cl_http_status := Some 502, cl_error := Some kind,
                                 cl_latency_ms := 0, cl_response_bytes := 0\<rparr>) s))
         | Answered w \<Rightarrow>
             (let backoff = overload_backoff (at_over a) (sn_jitter t)
              in if pool_overload a w \<and> at_over a < MAX_OVERLOAD_RETRIES \<and> sn_now t + backoff < deadline
                 then retry_overload backoff t a s
                 else if up_status w = 200 \<and> is_completion_path (cl_path k) \<and> \<not> cl_stream k
                 then read_ahead loads deadline t a s w
                 else Deliver a s w None))"

section \<open>The end of the stream\<close>

definition TAIL_LIMIT :: nat where "TAIL_LIMIT = 16 * 1024"
definition STREAM_TAIL_LIMIT :: nat where "STREAM_TAIL_LIMIT = 512 * 1024"
definition HEAD_LIMIT :: nat where "HEAD_LIMIT = 8 * 1024"

definition tail_limit :: "bool \<Rightarrow> nat" where
  "tail_limit stream = (if stream then STREAM_TAIL_LIMIT else max TAIL_LIMIT (4 * 1024 * 1024))"

definition chunks_size :: "string list \<Rightarrow> nat" where
  "chunks_size cs = sum_list (List.map length cs)"

fun trim_front :: "nat \<Rightarrow> string list \<Rightarrow> string list" where
  "trim_front n [] = []"
| "trim_front n (c # cs) = (if n < chunks_size (c # cs) then trim_front n cs else c # cs)"

text \<open>The chunks kept as the tail, and those kept as the head.\<close>

definition keep_tail :: "nat \<Rightarrow> string list \<Rightarrow> string list" where
  "keep_tail n cs = foldl (\<lambda>q c. trim_front n (q @ [c])) [] cs"

fun keep_head :: "nat \<Rightarrow> string list \<Rightarrow> string list" where
  "keep_head n [] = []"
| "keep_head n (c # cs) = (if n < HEAD_LIMIT then c # keep_head (n + length c) cs else [])"

text \<open>\<open>is_framework_paused_response\<close> and \<open>is_operator_block_response\<close>.\<close>

definition is_framework_paused_response :: "int \<Rightarrow> string \<Rightarrow> bool" where
  "is_framework_paused_response status body \<longleftrightarrow> status = 503 \<and> occurs ''framework_paused'' body"

definition is_operator_block_response :: "int \<Rightarrow> string \<Rightarrow> bool" where
  "is_operator_block_response status body \<longleftrightarrow>
     status = 401 \<and> occurs ''auth_error'' body \<and> occurs ''Key is blocked'' body"

text \<open>The header of a name where it is a non-empty text, and else what the scan of the body gives.\<close>

definition header_scalar :: "upstream_answer \<Rightarrow> string \<Rightarrow> string option" where
  "header_scalar w name = (case map_of (up_headers w) name of Some v \<Rightarrow> if v = [] then None else Some v | None \<Rightarrow> None)"

definition header_or :: "upstream_answer \<Rightarrow> string \<Rightarrow> json option \<Rightarrow> json option" where
  "header_or w name j = (case header_scalar w name of Some v \<Rightarrow> Some (JsStr v) | None \<Rightarrow> j)"

definition read_identity :: "(string \<Rightarrow> json option) \<Rightarrow> upstream_answer \<Rightarrow> string \<Rightarrow> string \<Rightarrow> reply_identity option" where
  "read_identity loads w hd_text text =
     (case (header_or w ''x-generation-id'' (first_json_scalar loads hd_text ''id''),
            header_or w ''x-litellm-model-name'' (first_json_scalar loads text ''model''),
            first_json_scalar loads text ''provider'', scan_json_scalar loads text ''finish_reason'',
            scan_json_scalar loads text ''native_finish_reason'', scan_json_scalar loads text ''system_fingerprint'',
            scan_json_scalar loads text ''service_tier'', scan_json_scalar loads text ''status'',
            scan_json_scalar loads text ''stop_reason'') of
        (Some g, Some m, Some p, Some f, Some nf, Some sf, Some st, Some rs, Some sr) \<Rightarrow>
          Some \<lparr>ri_generation = g, ri_model = m, ri_provider = p, ri_finish = f, ri_native_finish = nf,
            ri_fingerprint = sf, ri_tier = st, ri_status = rs,
            ri_incomplete = responses_incomplete_reason loads text JsNull, ri_stop = sr\<rparr>
      | _ \<Rightarrow> None)"

text \<open>
  The \<open>finally\<close> of \<open>body_stream\<close>, which runs whether the body ends, breaks or the client leaves. \<open>got\<close>
  are the chunks read until then.
\<close>

definition parse_reply :: "(string \<Rightarrow> json option) \<Rightarrow> upstream_answer \<Rightarrow> string list \<Rightarrow> call_rec \<Rightarrow> shim_usage \<Rightarrow>
    bool \<times> call_rec \<times> shim_usage" where
  "parse_reply loads w got k u =
     (let tl_text = List.concat (keep_tail (tail_limit (cl_stream k)) got);
          hd_text = List.concat (keep_head 0 got);
          (parsed, tokens, u') = accumulate_tail (cl_model k) (usage_blocks loads tl_text) u
      in (parsed,
          (case tokens of
             None \<Rightarrow> k
           | Some ct \<Rightarrow>
               (case read_identity loads w hd_text (hd_text @ tl_text) of
                  None \<Rightarrow> k
                | Some i \<Rightarrow> k\<lparr>cl_tokens := Some ct, cl_identity := Some i\<rparr>)), u'))"

definition embedded_in_stream :: "upstream_answer \<Rightarrow> call_rec \<Rightarrow> bool" where
  "embedded_in_stream w k \<longleftrightarrow>
     up_status w = 200 \<and> cl_error k = None \<and>
     (case cl_identity k of None \<Rightarrow> False | Some i \<Rightarrow> ri_native_finish i = JsStr ''error'')"

definition rate_scope :: "upstream_answer \<Rightarrow> string option" where
  "rate_scope w =
     (if up_status w \<noteq> 429 then None
      else if retry_after w \<noteq> None then Some ''gateway'' else Some ''provider'')"

definition prior_prompt :: "call_tokens \<Rightarrow> int" where
  "prior_prompt ct = (if ct_input ct < ct_cached ct then ct_input ct + ct_cached ct else ct_input ct)"

definition release_final :: "shim_request \<Rightarrow> attempt_state \<Rightarrow> call_tokens option \<Rightarrow> shim \<Rightarrow> shim" where
  "release_final r a tokens s =
     (let real = Option.bind tokens (\<lambda>ct. nonzero (ct_input ct));
          cached = Option.bind tokens (\<lambda>ct. nonzero (ct_cached ct));
          s1 = (case (real, tokens) of (Some _, Some ct) \<Rightarrow> s\<lparr>sh_prior := prior_prompt ct\<rparr> | _ \<Rightarrow> s)
      in release_held a real (rq_bytes r) cached s1)"

definition paused_by :: "upstream_answer \<Rightarrow> string list \<Rightarrow> bool" where
  "paused_by w got =
     (is_framework_paused_response (up_status w) (List.concat (keep_head 0 got)) \<or>
      is_operator_block_response (up_status w) (List.concat (keep_head 0 got)))"

definition finish_stream :: "(string \<Rightarrow> json option) \<Rightarrow> bool \<Rightarrow> shim_request \<Rightarrow> int \<Rightarrow> attempt_state \<Rightarrow> upstream_answer \<Rightarrow>
    string list \<Rightarrow> shim \<Rightarrow> shim" where
  "finish_stream loads pacer r latency a w got s =
     (let k0 = (at_call a)\<lparr>cl_http_status := Some (up_status w), cl_retry_after := retry_after w,
                  cl_response_bytes := chunks_size got, cl_latency_ms := latency\<rparr>;
          (parsed, k1, u) = parse_reply loads w got k0 (sh_usage s);
          k2 = (if embedded_in_stream w k1 then k1\<lparr>cl_error := Some ''upstream_error_embedded''\<rparr> else k1);
          lost = (\<not> parsed \<and> up_status w < 400 \<and> 0 < chunks_size got);
          k3 = k2\<lparr>cl_parse_failed := lost, cl_scope := rate_scope w\<rparr>;
          s1 = s\<lparr>sh_usage := (if lost then u\<lparr>su_parse_failed := su_parse_failed u + 1\<rparr> else u),
                 sh_paused := paused_by w got\<rparr>;
          s2 = (if rate_scope w = Some ''provider'' \<and> pacer then emit Overload_noted s1 else s1)
      in release_final r a (cl_tokens k3) (record_call k3 s2))"

text \<open>After the loop: the totals of a retried call, and the chunks the stream yields.\<close>

definition retried_totals :: "attempt_state \<Rightarrow> attempt_state" where
  "retried_totals a =
     (if at_over a = 0 \<and> at_up a = 0 then a
      else a\<lparr>at_call := (at_call a)\<lparr>cl_paced_wait_ms := Some (at_wait a), cl_backoff_ms := Some (at_backoff a),
               cl_retry_ms := Some (at_retry a)\<rparr>\<rparr>)"

definition yielded :: "upstream_answer \<Rightarrow> string option \<Rightarrow> string list" where
  "yielded w ahead = (case ahead of None \<Rightarrow> up_chunks w | Some b \<Rightarrow> if b = [] then [] else [b])"

text \<open>
  An infinite token count breaks the stream off in its \<open>finally\<close>, after the bytes: no record is written
  and the admission is not released; the pause flag was reset before.
\<close>

definition breaks_off :: "(string \<Rightarrow> json option) \<Rightarrow> attempt_state \<Rightarrow> string list \<Rightarrow> bool" where
  "breaks_off loads a got \<longleftrightarrow>
     usage_overflows (usage_blocks loads (List.concat (keep_tail (tail_limit (cl_stream (at_call a))) got)))"

fun attempts :: "(string \<Rightarrow> json option) \<Rightarrow> bool \<Rightarrow> shim_request \<Rightarrow> json option \<Rightarrow> real \<Rightarrow> attempt_state \<Rightarrow> shim \<Rightarrow>
    attempt list \<Rightarrow> shim_reply \<times> shim" where
  "attempts loads pacer r content deadline a s [] = (Unfinished, s)"
| "attempts loads pacer r content deadline a s (t # ts) =
     (case attempt_once loads content deadline t a s of
        Again a' s' \<Rightarrow> attempts loads pacer r content deadline a' s' ts
      | Ended rep s' \<Rightarrow> (rep, s')
      | Raised s' \<Rightarrow> (Escaped, s')
      | Deliver a' s' w ahead \<Rightarrow>
          if breaks_off loads a' (yielded w ahead) then (Escaped, s'\<lparr>sh_paused := False\<rparr>)
          else (Relayed (up_status w) (yielded w ahead),
                finish_stream loads pacer r (sn_latency_ms t) (retried_totals a') w (yielded w ahead) s'))"

section \<open>The handler\<close>

record call_env =
  ce_kappa :: real
  ce_weight :: real
  ce_gate :: pace_verdict
  ce_clock :: real
  ce_attempts :: "attempt list"

definition shim_call :: "(string \<Rightarrow> json option) \<Rightarrow> shim_conf \<Rightarrow> call_env \<Rightarrow> shim_request \<Rightarrow> shim \<Rightarrow> shim_reply \<times> shim" where
  "shim_call loads c e r s =
     (if breached c s then refuse c r s
      else (let est = prompt_estimate c (ce_kappa e) r;
                (body, rehomed) = rehome_system_role_messages (rq_path r) (inject_stream_options (rq_path r) (rq_body r));
                (content, injected) = inject_max_tokens (rq_path r) body (sc_window c) est;
                (k, s1) = begin_call r s;
                s2 = (if is_completion_path (rq_path r) then s1\<lparr>sh_turns := sh_turns s1 + 1\<rparr> else s1)
            in case admit c (ce_kappa e) (ce_weight e) (ce_gate e) r
                      (k\<lparr>cl_cap_injected := injected, cl_rehomed := rehomed\<rparr>) s2 of
                 Inl done_now \<Rightarrow> done_now
               | Inr (a, s3) \<Rightarrow>
                   attempts loads (sc_pacer c) r content (ce_clock e + sc_hold_cap c) a s3 (ce_attempts e)))"

text \<open>The requests of one instance, one after the other.\<close>

fun shim_session :: "(string \<Rightarrow> json option) \<Rightarrow> shim_conf \<Rightarrow> shim \<Rightarrow> (call_env \<times> shim_request) list \<Rightarrow> shim_reply list \<times> shim" where
  "shim_session loads c s [] = ([], s)"
| "shim_session loads c s ((e, r) # rs) =
     (let (rep, s1) = shim_call loads c e r s; (reps, s2) = shim_session loads c s1 rs in (rep # reps, s2))"

end
