(* ===== verification/Shim_Accounts.thy ===== *)
theory Shim_Accounts
  imports Shim_Calls
begin

text \<open>
  What one request of the shim leaves behind: its record, its admission, its turn and its waits; the
  bound on its retries; and a session of requests under the ceilings.
\<close>

section \<open>What the pacer and the log see of one call\<close>

text \<open>
  The admission held after a trace, from the one held before it; \<open>None\<close> when an admission is acquired
  over another, one is released that is not held, or a paced call is sent without one.
\<close>

fun admission_run :: "bool \<Rightarrow> string option \<Rightarrow> shim_event list \<Rightarrow> string option option" where
  "admission_run paced h [] = Some h"
| "admission_run paced h (Acquired i # es) = (if h = None then admission_run paced (Some i) es else None)"
| "admission_run paced h (Released i p c d # es) = (if h = Some i then admission_run paced None es else None)"
| "admission_run paced h (Sent b # es) = (if paced \<and> h = None then None else admission_run paced h es)"
| "admission_run paced h (Overload_noted # es) = admission_run paced h es"
| "admission_run paced h (Slept x # es) = admission_run paced h es"

lemma admission_run_append:
  "admission_run paced h (es @ fs) = Option.bind (admission_run paced h es) (\<lambda>h'. admission_run paced h' fs)"
  by (induction paced h es rule: admission_run.induct) auto

definition held_id :: "attempt_state \<Rightarrow> string option" where
  "held_id a = map_option ad_call_id (at_adm a)"

definition traced :: "bool \<Rightarrow> shim \<Rightarrow> string option \<Rightarrow> shim \<Rightarrow> bool" where
  "traced paced s0 h s \<longleftrightarrow> (\<exists>es. sh_trace s = sh_trace s0 @ es \<and> admission_run paced None es = Some h)"

lemma traced_same:
  "traced paced s0 h (on_usage f s) = traced paced s0 h s" "traced paced s0 h (record_call k s) = traced paced s0 h s"
  by (simp_all add: traced_def on_usage_def record_call_def)

lemma traced_emit:
  "traced paced s0 h s \<Longrightarrow> admission_run paced h [e] = Some h' \<Longrightarrow> traced paced s0 h' (emit e s)"
  by (fastforce simp: traced_def emit_def admission_run_append)

text \<open>A call in the loop, and one that has been answered.\<close>

definition in_call :: "bool \<Rightarrow> shim \<Rightarrow> attempt_state \<Rightarrow> shim \<Rightarrow> bool" where
  "in_call paced s0 a s \<longleftrightarrow>
     sh_log s = sh_log s0 \<and> sh_index s = sh_index s0 \<and> sh_turns s = sh_turns s0 \<and> sh_prior s = sh_prior s0 \<and>
     cl_index (at_call a) = sh_index s0 \<and> traced paced s0 (held_id a) s \<and> (at_adm a \<noteq> None \<longleftrightarrow> paced)"

fun reply_status :: "shim_reply \<Rightarrow> int option" where
  "reply_status (Own n m) = Some n"
| "reply_status (Relayed n cs) = Some n"
| "reply_status Escaped = None"
| "reply_status Unfinished = None"

definition answered :: "bool \<Rightarrow> shim \<Rightarrow> shim_reply \<Rightarrow> shim \<Rightarrow> bool" where
  "answered paced s0 rep s \<longleftrightarrow>
     (\<exists>k. sh_log s = sh_log s0 @ [k] \<and> cl_index k = sh_index s0 \<and> cl_http_status k = reply_status rep) \<and>
     reply_status rep \<noteq> None \<and> sh_index s = sh_index s0 \<and> sh_turns s = sh_turns s0 \<and> traced paced s0 None s"

named_theorems shim_simps

lemma emit_fields [shim_simps]:
  "sh_usage (emit e s) = sh_usage s" "sh_turns (emit e s) = sh_turns s" "sh_index (emit e s) = sh_index s"
  "sh_prior (emit e s) = sh_prior s" "sh_log (emit e s) = sh_log s" "sh_trace (emit e s) = sh_trace s @ [e]"
  by (simp_all add: emit_def)

lemma on_usage_fields [shim_simps]:
  "sh_usage (on_usage f s) = f (sh_usage s)" "sh_turns (on_usage f s) = sh_turns s" "sh_index (on_usage f s) = sh_index s"
  "sh_prior (on_usage f s) = sh_prior s" "sh_log (on_usage f s) = sh_log s" "sh_trace (on_usage f s) = sh_trace s"
  by (simp_all add: on_usage_def)

lemma record_call_fields [shim_simps]:
  "sh_usage (record_call k s) = sh_usage s" "sh_turns (record_call k s) = sh_turns s"
  "sh_index (record_call k s) = sh_index s" "sh_prior (record_call k s) = sh_prior s"
  "sh_log (record_call k s) = sh_log s @ [k]" "sh_trace (record_call k s) = sh_trace s"
  by (simp_all add: record_call_def)

lemma release_held_fields [shim_simps]:
  "sh_usage (release_held a p c d s) = sh_usage s" "sh_turns (release_held a p c d s) = sh_turns s"
  "sh_index (release_held a p c d s) = sh_index s" "sh_prior (release_held a p c d s) = sh_prior s"
  "sh_log (release_held a p c d s) = sh_log s"
  by (simp_all add: release_held_def shim_simps split: option.splits)

lemma traced_release:
  assumes "traced paced s0 (held_id a) s"
  shows "traced paced s0 None (release_held a p c d s)"
proof (cases "at_adm a")
  case None
  with assms show ?thesis by (simp add: release_held_def held_id_def)
next
  case (Some ad)
  have "traced paced s0 None (emit (Released (ad_call_id ad) p c d) s)"
    by (rule traced_emit [OF assms]) (simp add: held_id_def Some)
  with Some show ?thesis by (simp add: release_held_def)
qed

lemma diagnostics_fields [shim_simps]:
  "cl_index (diagnostics b ad k) = cl_index k" "cl_path (diagnostics b ad k) = cl_path k"
  "cl_stream (diagnostics b ad k) = cl_stream k" "cl_model (diagnostics b ad k) = cl_model k"
  "cl_paced_wait_ms (diagnostics b ad k) = cl_paced_wait_ms k" "cl_backoff_ms (diagnostics b ad k) = cl_backoff_ms k"
  by (simp_all add: diagnostics_def)

lemma wait_and_reenter_call:
  assumes "in_call paced s0 a s"
  shows "case wait_and_reenter x b g a s of
           Inl (rep, s') \<Rightarrow> answered paced s0 rep s'
         | Inr (a', s') \<Rightarrow> in_call paced s0 a' s'"
proof -
  define s1 where "s1 = emit (Slept b) (release_held a None 0 None s)"
  have t: "traced paced s0 None s1"
    unfolding s1_def by (rule traced_emit, rule traced_release) (use assms in \<open>auto simp: in_call_def\<close>)
  have f: "sh_log s1 = sh_log s0" "sh_index s1 = sh_index s0" "sh_turns s1 = sh_turns s0" "sh_prior s1 = sh_prior s0"
    using assms by (simp_all add: s1_def shim_simps in_call_def)
  show ?thesis
  proof (cases "at_adm a")
    case None
    with assms t f show ?thesis
      by (simp add: wait_and_reenter_def Let_def s1_def [symmetric] in_call_def held_id_def)
  next
    case (Some ad)
    show ?thesis
    proof (cases "gate_admission (ad_est_tokens ad) (nonzero (ad_charge_tokens ad)) g")
      case None
      with Some assms t f show ?thesis
        by (simp add: wait_and_reenter_def Let_def s1_def [symmetric] in_call_def answered_def shim_simps traced_same)
    next
      case (Some ad')
      have "traced paced s0 (Some (ad_call_id ad')) (emit (Acquired (ad_call_id ad')) (on_usage (fold_admission ad') s1))"
        by (rule traced_emit [where h = None]) (use t in \<open>simp_all add: traced_same shim_simps\<close>)
      with Some \<open>at_adm a = Some ad\<close> assms f show ?thesis
        by (simp add: wait_and_reenter_def Let_def s1_def [symmetric] in_call_def held_id_def shim_simps)
    qed
  qed
qed

lemma in_call_fields:
  "in_call paced s0 (a\<lparr>at_over := n, at_retry := x, at_call := (at_call a)\<lparr>cl_overload_retries := n\<rparr>\<rparr>) s = in_call paced s0 a s"
  "in_call paced s0 (a\<lparr>at_up := n, at_retry := x, at_call := (at_call a)\<lparr>cl_upstream_retries := n\<rparr>\<rparr>) s = in_call paced s0 a s"
  "in_call paced s0 (a\<lparr>at_call := (at_call a)\<lparr>cl_error := m\<rparr>\<rparr>) s = in_call paced s0 a s"
  "in_call paced s0 a (on_usage f s) = in_call paced s0 a s"
  by (simp_all add: in_call_def held_id_def traced_def shim_simps)

lemma in_call_traced: "in_call paced s0 a s \<Longrightarrow> traced paced s0 (held_id a) s"
  by (simp only: in_call_def)

lemma in_call_emit:
  "in_call paced s0 a s \<Longrightarrow> admission_run paced (held_id a) [e] = Some (held_id a) \<Longrightarrow> in_call paced s0 a (emit e s)"
  by (auto simp: in_call_def shim_simps intro: traced_emit)

lemma in_call_sent: "in_call paced s0 a s \<Longrightarrow> in_call paced s0 a (emit (Sent b) s)"
  by (rule in_call_emit) (auto simp: in_call_def held_id_def)

definition result_ok :: "bool \<Rightarrow> shim \<Rightarrow> attempt_result \<Rightarrow> bool" where
  "result_ok paced s0 r =
     (case r of
        Again a s \<Rightarrow> in_call paced s0 a s
      | Ended rep s \<Rightarrow> answered paced s0 rep s
      | Raised s \<Rightarrow> True
      | Deliver a s w ahead \<Rightarrow> in_call paced s0 a s)"

lemma after_wait_ok: "in_call paced s0 a s \<Longrightarrow> result_ok paced s0 (after_wait (wait_and_reenter x b g a s))"
  using wait_and_reenter_call [of paced s0 a s x b g]
  by (auto simp: after_wait_def result_ok_def split: sum.splits prod.splits)

lemma retry_ok:
  "in_call paced s0 a s \<Longrightarrow> result_ok paced s0 (retry_overload b t a s)"
  "in_call paced s0 a s \<Longrightarrow> result_ok paced s0 (retry_upstream b t a s)"
  unfolding retry_overload_def retry_upstream_def
  by (rule after_wait_ok, simp add: in_call_fields in_call_emit)+

lemma read_ahead_ok: "in_call paced s0 a s \<Longrightarrow> result_ok paced s0 (read_ahead loads d t a s w)"
  by (auto simp: read_ahead_def Let_def retry_ok in_call_fields result_ok_def [of _ _ "Deliver _ _ _ _"]
      result_ok_def [of _ _ "Raised _"] split: option.splits)

lemma unreachable_ok:
  assumes "in_call paced s0 a s" "cl_index k = cl_index (at_call a)" "cl_http_status k = Some 502"
  shows "answered paced s0 (Own 502 []) (release_held a None 0 None (record_call k s))"
  using assms by (auto simp: answered_def in_call_def shim_simps traced_same intro!: traced_release)

lemma attempt_once_ok:
  assumes "in_call paced s0 a s"
  shows "result_ok paced s0 (attempt_once loads content d t a s)"
proof -
  define s1 where "s1 = emit (Sent content) s"
  have i: "in_call paced s0 a s1" unfolding s1_def by (rule in_call_sent [OF assms])
  show ?thesis
  proof (cases "sn_reply t")
    case (Unreachable kind)
    with i show ?thesis
      by (simp add: attempt_once_def Let_def s1_def [symmetric] result_ok_def unreachable_ok)
  next
    case (Answered w)
    with i show ?thesis
      by (simp add: attempt_once_def Let_def s1_def [symmetric] retry_ok read_ahead_ok result_ok_def [of _ _ "Deliver _ _ _ _"])
  qed
qed

lemma parse_reply_fields:
  assumes "parse_reply loads w got k u = (p, k', u')"
  shows "cl_index k' = cl_index k \<and> cl_http_status k' = cl_http_status k \<and> cl_paced_wait_ms k' = cl_paced_wait_ms k \<and>
    cl_backoff_ms k' = cl_backoff_ms k \<and> su_paced_wait_ms u' = su_paced_wait_ms u \<and> su_paced_calls u' = su_paced_calls u"
  using assms
  by (auto simp: parse_reply_def accumulate_tail_def add_call_def Let_def split: option.splits if_splits prod.splits)

lemma release_final_fields [shim_simps]:
  "sh_log (release_final r a tk s) = sh_log s" "sh_index (release_final r a tk s) = sh_index s"
  "sh_turns (release_final r a tk s) = sh_turns s" "sh_usage (release_final r a tk s) = sh_usage s"
  by (simp_all add: release_final_def Let_def shim_simps split: option.splits)

lemma traced_release_final:
  assumes "traced paced s0 (held_id a) s"
  shows "traced paced s0 None (release_final r a tk s)"
proof -
  have "traced paced s0 (held_id a) (s\<lparr>sh_prior := n\<rparr>)" for n using assms by (simp add: traced_def)
  with assms show ?thesis by (simp add: release_final_def Let_def traced_release split: option.splits)
qed

lemma finish_stream_answers:
  assumes "in_call paced s0 a s"
  shows "answered paced s0 (Relayed (up_status w) cs) (finish_stream loads p r l a w got s)"
proof -
  obtain pa k u where pr: "parse_reply loads w got ((at_call a)\<lparr>cl_http_status := Some (up_status w),
      cl_retry_after := retry_after w, cl_response_bytes := chunks_size got, cl_latency_ms := l\<rparr>) (sh_usage s) = (pa, k, u)"
    by (metis prod_cases3)
  have k: "cl_index k = sh_index s0" "cl_http_status k = Some (up_status w)"
    using parse_reply_fields [OF pr] assms by (simp_all add: in_call_def)
  have t: "traced paced s0 (held_id a) (s\<lparr>sh_usage := x, sh_paused := y\<rparr>)" for x y
    using in_call_traced [OF assms] by (simp add: traced_def)
  have t': "traced paced s0 (held_id a) (emit Overload_noted (s\<lparr>sh_usage := x, sh_paused := y\<rparr>))" for x y
    by (rule traced_emit [OF t]) simp
  show ?thesis
    using assms [unfolded in_call_def] k
    by (simp add: finish_stream_def pr Let_def answered_def shim_simps traced_same traced_release_final t t')
qed

lemma in_call_totals: "in_call paced s0 (retried_totals a) s = in_call paced s0 a s"
  by (simp add: retried_totals_def in_call_def held_id_def)

lemma attempts_answer:
  assumes "in_call paced s0 a s" "attempts loads p r content d a s ts = (rep, s')" "rep \<noteq> Escaped" "rep \<noteq> Unfinished"
  shows "answered paced s0 rep s'"
  using assms
proof (induction ts arbitrary: a s)
  case Nil
  then show ?case by simp
next
  case (Cons t ts)
  have "result_ok paced s0 (attempt_once loads content d t a s)" by (rule attempt_once_ok [OF Cons.prems(1)])
  with Cons show ?case
    by (auto simp: result_ok_def finish_stream_answers in_call_totals split: attempt_result.splits if_splits)
qed

definition paced_call :: "shim_conf \<Rightarrow> shim_request \<Rightarrow> bool" where
  "paced_call c r \<longleftrightarrow> sc_pacer c \<and> is_completion_path (rq_path r)"

lemma admit_call:
  assumes "cl_index k = sh_index s"
  shows "case admit c kappa weight g r k s of
           Inl (rep, s') \<Rightarrow> answered (paced_call c r) s rep s'
         | Inr (a, s') \<Rightarrow> in_call (paced_call c r) s a s'"
proof (cases "paced_call c r")
  case False
  then show ?thesis
    using assms by (auto simp: admit_def paced_call_def in_call_def first_state_def held_id_def traced_def)
next
  case True
  have t: "traced True s None s" by (simp add: traced_def)
  have t': "traced True s (Some i) (emit (Acquired i) (on_usage f s))" for i f
    by (rule traced_emit [where h = None]) (use t in \<open>simp_all add: traced_same\<close>)
  show ?thesis
    using True assms t t'
    by (auto simp: admit_def paced_call_def in_call_def answered_def first_state_def held_id_def shim_simps Let_def
        traced_same split: option.splits)
qed

text \<open>The state in which a forwarded request starts its admission.\<close>

definition counted_state :: "shim_request \<Rightarrow> shim \<Rightarrow> shim" where
  "counted_state r s =
     s\<lparr>sh_index := sh_index s + 1, sh_turns := sh_turns s + (if is_completion_path (rq_path r) then 1 else 0)\<rparr>"

definition forwarded_call :: "shim_conf \<Rightarrow> real \<Rightarrow> shim_request \<Rightarrow> shim \<Rightarrow> call_rec" where
  "forwarded_call c kappa r s =
     (let (body, n) = rehome_system_role_messages (rq_path r) (inject_stream_options (rq_path r) (rq_body r));
          (content, v) = inject_max_tokens (rq_path r) body (sc_window c) (prompt_estimate c kappa r)
      in (fst (begin_call r s))\<lparr>cl_cap_injected := v, cl_rehomed := n\<rparr>)"

lemma shim_call_forward:
  assumes "\<not> breached c s"
  shows "shim_call loads c e r s =
    (case admit c (ce_kappa e) (ce_weight e) (ce_gate e) r (forwarded_call c (ce_kappa e) r s) (counted_state r s) of
       Inl done_now \<Rightarrow> done_now
     | Inr (a, s3) \<Rightarrow>
         attempts loads (sc_pacer c) r
           (fst (inject_max_tokens (rq_path r)
              (fst (rehome_system_role_messages (rq_path r) (inject_stream_options (rq_path r) (rq_body r))))
              (sc_window c) (prompt_estimate c (ce_kappa e) r)))
           (ce_clock e + sc_hold_cap c) a s3 (ce_attempts e))"
  using assms
  by (cases "is_completion_path (rq_path r)")
     (simp_all add: shim_call_def begin_call_def forwarded_call_def counted_state_def Let_def case_prod_unfold)

lemma forwarded_index: "cl_index (forwarded_call c kappa r s) = sh_index (counted_state r s)"
  by (simp add: forwarded_call_def begin_call_def counted_state_def Let_def split: prod.splits)

lemma forwarded_answer:
  assumes "\<not> breached c s" "shim_call loads c e r s = (rep, s')" "rep \<noteq> Escaped" "rep \<noteq> Unfinished"
  shows "answered (paced_call c r) (counted_state r s) rep s'"
proof -
  note adm = admit_call [OF forwarded_index [of c "ce_kappa e" r s], where c = c and kappa = "ce_kappa e" and
      weight = "ce_weight e" and g = "ce_gate e" and r = r]
  show ?thesis
  proof (cases "admit c (ce_kappa e) (ce_weight e) (ce_gate e) r (forwarded_call c (ce_kappa e) r s) (counted_state r s)")
    case (Inl x)
    then show ?thesis
      using adm assms
      by (auto simp: shim_call_forward [OF assms(1)])
  next
    case (Inr x)
    obtain a s3 where x: "x = (a, s3)" by (cases x)
    have "in_call (paced_call c r) (counted_state r s) a s3"
      using adm Inr x by simp
    moreover have "attempts loads (sc_pacer c) r
             (fst (inject_max_tokens (rq_path r)
                (fst (rehome_system_role_messages (rq_path r) (inject_stream_options (rq_path r) (rq_body r))))
                (sc_window c) (prompt_estimate c (ce_kappa e) r)))
             (ce_clock e + sc_hold_cap c) a s3 (ce_attempts e) = (rep, s')"
      using assms(2) Inr x by (simp add: shim_call_forward [OF assms(1)])
    ultimately show ?thesis using assms(3,4) by (rule attempts_answer)
  qed
qed

text \<open>
  C3: However a request ends short of an exception, its accounting closes. It adds exactly one record to
  the log, numbered next, with the status the client got; and the pacer's events it adds acquire and
  release admissions alternately, each released exactly once and none left held, with no paced
  completion sent while none is held. A refused request sends nothing and takes no turn.
\<close>

theorem every_request_closes_its_account:
  assumes "shim_call loads c e r s = (rep, s')" "rep \<noteq> Escaped" "rep \<noteq> Unfinished"
  shows "(\<exists>k. sh_log s' = sh_log s @ [k] \<and> cl_index k = sh_index s + 1 \<and> cl_http_status k = reply_status rep) \<and>
    reply_status rep \<noteq> None \<and> sh_index s' = sh_index s + 1 \<and>
    (\<exists>es. sh_trace s' = sh_trace s @ es \<and> admission_run (paced_call c r) None es = Some None) \<and>
    sh_turns s' = sh_turns s + (if \<not> breached c s \<and> is_completion_path (rq_path r) then 1 else 0) \<and>
    (breached c s \<longrightarrow> rep = Own 400 (if turns_breached c s then ''x-eval-turns-exceeded'' else ''x-eval-budget-exceeded'') \<and>
       sh_trace s' = sh_trace s \<and> sh_usage s' = sh_usage s)"
proof (cases "breached c s")
  case True
  with assms(1) show ?thesis
    by (auto simp: shim_call_def refuse_def begin_call_def Let_def shim_simps)
next
  case False
  from forwarded_answer [OF False assms] show ?thesis
    using False by (simp add: answered_def counted_state_def traced_def)
qed

lemma shim_call_refused:
  assumes "breached c s" "shim_call loads c e r s = (rep, s')"
  shows "rep = Own 400 (if turns_breached c s then ''x-eval-turns-exceeded'' else ''x-eval-budget-exceeded'') \<and>
    sh_trace s' = sh_trace s \<and> sh_usage s' = sh_usage s \<and> sh_turns s' = sh_turns s"
  using assms
  by (cases "turns_breached c s") (auto simp: shim_call_def refuse_def begin_call_def Let_def shim_simps)

section \<open>Retries\<close>

definition tries :: "attempt_state \<Rightarrow> nat" where
  "tries a = at_over a + at_up a"

definition within_limits :: "attempt_state \<Rightarrow> bool" where
  "within_limits a \<longleftrightarrow> at_over a \<le> MAX_OVERLOAD_RETRIES \<and> at_up a \<le> MAX_UPSTREAM_ERROR_RETRIES"

fun is_sent :: "shim_event \<Rightarrow> bool" where
  "is_sent (Sent b) = True"
| "is_sent _ = False"

definition sends :: "shim_event list \<Rightarrow> nat" where
  "sends es = length (filter is_sent es)"

lemma sends_simps [simp]:
  "sends (es @ fs) = sends es + sends fs" "sends [] = 0"
  "sends (e # es) = (if is_sent e then 1 else 0) + sends es"
  by (simp_all add: sends_def)

lemma sends_release [simp]: "sends (sh_trace (release_held a p c d s)) = sends (sh_trace s)"
  by (simp add: release_held_def shim_simps split: option.splits)

lemma sends_release_final [simp]: "sends (sh_trace (release_final r a tk s)) = sends (sh_trace s)"
proof -
  have "sends (sh_trace (release_held a p ch d (s\<lparr>sh_prior := n\<rparr>))) = sends (sh_trace s)" for p ch d n by simp
  then show ?thesis by (simp add: release_final_def Let_def split: option.splits)
qed

lemma wait_and_reenter_tries:
  assumes "wait_and_reenter x b g a s = res"
  shows "(\<forall>a' s'. res = Inr (a', s') \<longrightarrow> at_over a' = at_over a \<and> at_up a' = at_up a \<and> sends (sh_trace s') = sends (sh_trace s)) \<and>
    (\<forall>rep s'. res = Inl (rep, s') \<longrightarrow> rep = Own 429 ''x-eval-paced'' \<and> sends (sh_trace s') = sends (sh_trace s))"
  unfolding assms [symmetric]
  by (auto simp: wait_and_reenter_def Let_def shim_simps  split: option.splits)

lemma after_wait_Again:
  "after_wait (wait_and_reenter x b g a s) = Again a' s' \<Longrightarrow>
     at_over a' = at_over a \<and> at_up a' = at_up a \<and> sends (sh_trace s') = sends (sh_trace s)"
  using wait_and_reenter_tries [OF refl, of x b g a s] by (auto simp: after_wait_def split: sum.splits prod.splits)

lemma after_wait_Ended:
  "after_wait (wait_and_reenter x b g a s) = Ended rep s' \<Longrightarrow>
     rep = Own 429 ''x-eval-paced'' \<and> sends (sh_trace s') = sends (sh_trace s)"
  using wait_and_reenter_tries [OF refl, of x b g a s] by (auto simp: after_wait_def split: sum.splits prod.splits)

lemma after_wait_cases: "\<exists>a' s'. after_wait r = Again a' s' \<or> (\<exists>rep. after_wait r = Ended rep s')"
  by (cases r) (auto simp: after_wait_def)

lemma attempt_once_Again:
  assumes "attempt_once loads content d t a s = Again a' s'" "within_limits a"
  shows "within_limits a' \<and> tries a' = tries a + 1 \<and> sends (sh_trace s') = sends (sh_trace s) + 1"
  using assms
  by (auto simp: attempt_once_def read_ahead_def retry_overload_def retry_upstream_def Let_def within_limits_def
      tries_def shim_simps dest!: after_wait_Again split: upstream_reply.splits if_splits option.splits)

lemma attempt_once_stops:
  "attempt_once loads content d t a s = Ended rep s' \<Longrightarrow> rep \<noteq> Unfinished \<and> sends (sh_trace s') = sends (sh_trace s) + 1"
  "attempt_once loads content d t a s = Raised s' \<Longrightarrow> sends (sh_trace s') = sends (sh_trace s) + 1"
  "attempt_once loads content d t a s = Deliver a' s' w ahead \<Longrightarrow> sends (sh_trace s') = sends (sh_trace s) + 1"
  subgoal
    by (auto simp: attempt_once_def read_ahead_def retry_overload_def retry_upstream_def Let_def shim_simps
         dest!: after_wait_Ended split: upstream_reply.splits if_splits option.splits)
  subgoal
    using after_wait_cases
    by (auto simp: attempt_once_def read_ahead_def retry_overload_def retry_upstream_def Let_def shim_simps
         after_wait_def split: upstream_reply.splits if_splits option.splits sum.splits prod.splits)
  subgoal
    by (auto simp: attempt_once_def read_ahead_def retry_overload_def retry_upstream_def Let_def shim_simps
         after_wait_def split: upstream_reply.splits if_splits option.splits sum.splits prod.splits)
  done

lemma finish_stream_sends [simp]:
  "sends (sh_trace (finish_stream loads p r l a w got s)) = sends (sh_trace s)"
  by (simp add: finish_stream_def Let_def shim_simps  split: prod.splits)

lemma attempts_bounded:
  assumes "attempts loads p r content d a s ts = (rep, s')" "within_limits a"
  shows "(11 \<le> tries a + length ts \<longrightarrow> rep \<noteq> Unfinished) \<and>
    sends (sh_trace s') + tries a \<le> sends (sh_trace s) + 11"
  using assms
proof (induction ts arbitrary: a s)
  case Nil
  then show ?case by (simp add: within_limits_def tries_def MAX_OVERLOAD_RETRIES_def MAX_UPSTREAM_ERROR_RETRIES_def)
next
  case (Cons t ts)
  have lim: "tries a \<le> 10"
    using Cons.prems(2) by (simp add: within_limits_def tries_def MAX_OVERLOAD_RETRIES_def MAX_UPSTREAM_ERROR_RETRIES_def)
  show ?case
  proof (cases "attempt_once loads content d t a s")
    case (Again a1 s1)
    note step = attempt_once_Again [OF Again Cons.prems(2)]
    have "tries a1 \<le> 10"
      using step by (simp add: within_limits_def tries_def MAX_OVERLOAD_RETRIES_def MAX_UPSTREAM_ERROR_RETRIES_def)
    with Cons.IH [of a1 s1] Cons.prems(1) Again step show ?thesis by (cases "ts = []") auto
  next
    case (Ended rep1 s1)
    with Cons.prems lim attempt_once_stops(1) [OF Ended] show ?thesis by auto
  next
    case (Raised s1)
    with Cons.prems lim attempt_once_stops(2) [OF Raised] show ?thesis by auto
  next
    case (Deliver a1 s1 w ahead)
    with Cons.prems lim attempt_once_stops(3) [OF Deliver] show ?thesis by (auto split: if_splits)
  qed
qed

text \<open>
  The sleeps of a trace against the attempts that are left: every send takes the next attempt, and a
  sleep has to end before the deadline by the clock of the attempt that was last sent. The result is
  that attempt and those still left; \<open>None\<close> is a sleep that does not.
\<close>

fun sleep_run :: "real \<Rightarrow> attempt option \<Rightarrow> attempt list \<Rightarrow> shim_event list \<Rightarrow> (attempt option \<times> attempt list) option" where
  "sleep_run d c ts [] = Some (c, ts)"
| "sleep_run d c ts (Sent b # es) = (case ts of [] \<Rightarrow> None | t # ts' \<Rightarrow> sleep_run d (Some t) ts' es)"
| "sleep_run d c ts (Slept x # es) =
     (case c of None \<Rightarrow> None | Some t \<Rightarrow> if sn_now t + x < d then sleep_run d c ts es else None)"
| "sleep_run d c ts (Acquired i # es) = sleep_run d c ts es"
| "sleep_run d c ts (Released i p n k # es) = sleep_run d c ts es"
| "sleep_run d c ts (Overload_noted # es) = sleep_run d c ts es"

lemma sleep_run_append:
  "sleep_run d c ts (es @ fs) = Option.bind (sleep_run d c ts es) (\<lambda>(c', ts'). sleep_run d c' ts' fs)"
  by (induction d c ts es rule: sleep_run.induct) (auto split: list.splits option.splits)

lemma sleep_run_state:
  "sleep_run d None ts es = Some (c, ts') \<Longrightarrow>
     sends es \<le> length ts \<and> ts' = drop (sends es) ts \<and> c = (if sends es = 0 then None else Some (ts ! (sends es - 1)))"
proof (induction es arbitrary: c ts' rule: rev_induct)
  case (snoc e es)
  obtain c1 ts1 where run: "sleep_run d None ts es = Some (c1, ts1)" "sleep_run d c1 ts1 [e] = Some (c, ts')"
    using snoc.prems by (cases "sleep_run d None ts es") (auto simp: sleep_run_append)
  show ?case
  proof (cases e)
    case (Sent b)
    with run(2) obtain t where t: "ts1 = t # ts'" "c = Some t" by (auto split: list.splits)
    with snoc.IH [OF run(1)] have "drop (sends es) ts = t # ts'" by simp
    then have "sends es < length ts" "t = ts ! sends es" "ts' = drop (Suc (sends es)) ts"
      by (metis drop_all linorder_not_less list.distinct(1), metis hd_drop_conv_nth drop_all linorder_not_less list.distinct(1) list.sel(1),
          metis drop_Suc list.sel(3) tl_drop)
    then show ?thesis using t by (simp add: Sent sends_simps)
  qed (use run snoc.IH [OF run(1)] in \<open>auto simp: sends_simps split: option.splits if_splits\<close>)
qed simp

lemma sleep_run_sleeps:
  assumes "sleep_run d None ts (pre @ Slept b # post) \<noteq> None"
  shows "0 < sends pre \<and> sends pre \<le> length ts \<and> sn_now (ts ! (sends pre - 1)) + b < d"
proof -
  obtain c ts' where pre: "sleep_run d None ts pre = Some (c, ts')" "sleep_run d c ts' (Slept b # post) \<noteq> None"
    using assms by (cases "sleep_run d None ts pre") (auto simp: sleep_run_append)
  with sleep_run_state [OF pre(1)] show ?thesis by (auto split: if_splits)
qed

definition sleeps_by :: "real \<Rightarrow> attempt option \<Rightarrow> attempt list \<Rightarrow> attempt option \<Rightarrow> attempt list \<Rightarrow> shim \<Rightarrow> shim \<Rightarrow> bool" where
  "sleeps_by d c ts c' ts' s s' \<longleftrightarrow>
     (\<exists>es. sh_trace s' = sh_trace s @ es \<and> sleep_run d c ts es = Some (c', ts'))"

lemma sleeps_by_trans:
  "sleeps_by d c ts c1 ts1 s s1 \<Longrightarrow> sleeps_by d c1 ts1 c2 ts2 s1 s2 \<Longrightarrow> sleeps_by d c ts c2 ts2 s s2"
  by (fastforce simp: sleeps_by_def sleep_run_append)

lemma sleeps_by_same [simp]:
  "sleeps_by d c ts c' ts' s (on_usage f s') = sleeps_by d c ts c' ts' s s'"
  "sleeps_by d c ts c' ts' s (record_call k s') = sleeps_by d c ts c' ts' s s'"
  by (simp_all add: sleeps_by_def shim_simps)

lemma sleeps_by_refl [simp]: "sleeps_by d c ts c ts s s"
  by (simp add: sleeps_by_def)

lemma sleeps_by_emit:
  "sleeps_by d c ts c' ts' s s' \<Longrightarrow> sleep_run d c' ts' [e] = Some (c2, ts2) \<Longrightarrow> sleeps_by d c ts c2 ts2 s (emit e s')"
  by (fastforce simp: sleeps_by_def shim_simps sleep_run_append)

lemma sleeps_by_release: "sleeps_by d c ts c' ts' s s' \<Longrightarrow> sleeps_by d c ts c' ts' s (release_held a p n q s')"
  by (auto simp: release_held_def split: option.splits intro: sleeps_by_emit)

lemma wait_and_reenter_sleeps:
  assumes "sleeps_by d c ts (Some t) ts' s0 s" "sn_now t + b < d"
  shows "case wait_and_reenter x b g a s of
      Inl (rep, s') \<Rightarrow> sleeps_by d c ts (Some t) ts' s0 s' | Inr (a', s') \<Rightarrow> sleeps_by d c ts (Some t) ts' s0 s'"
proof -
  have 1: "sleeps_by d c ts (Some t) ts' s0 (emit (Slept b) (release_held a None 0 None s))"
    using assms by (intro sleeps_by_emit [OF sleeps_by_release]) auto
  then show ?thesis
    by (auto simp: wait_and_reenter_def Let_def split: option.splits intro!: sleeps_by_emit)
qed

fun result_state :: "attempt_result \<Rightarrow> shim" where
  "result_state (Again a s) = s"
| "result_state (Ended rep s) = s"
| "result_state (Raised s) = s"
| "result_state (Deliver a s w ahead) = s"

lemma after_wait_sleeps:
  "sleeps_by d c ts (Some t) ts' s0 s \<Longrightarrow> sn_now t + b < d \<Longrightarrow>
     sleeps_by d c ts (Some t) ts' s0 (result_state (after_wait (wait_and_reenter x b g a s)))"
  using wait_and_reenter_sleeps [of d c ts t ts' s0 s b x g a] by (auto simp: after_wait_def split: sum.splits prod.splits)

lemma attempt_once_sleeps:
  "sleeps_by d c (t # ts) (Some t) ts s (result_state (attempt_once loads content d t a s))"
proof -
  have sent: "sleeps_by d c (t # ts) (Some t) ts s (emit (Sent content) s)"
    by (rule sleeps_by_emit [OF sleeps_by_refl]) simp
  have noted: "sleeps_by d c (t # ts) (Some t) ts s (emit Overload_noted (emit (Sent content) s))"
    by (rule sleeps_by_emit [OF sent]) simp
  show ?thesis
    using sent noted
    by (auto simp: attempt_once_def read_ahead_def retry_overload_def retry_upstream_def Let_def
        split: upstream_reply.splits option.splits intro: after_wait_sleeps sleeps_by_release)
qed

lemma finish_stream_sleeps: "sleeps_by d c ts c ts s (finish_stream loads p r l a w got s)"
proof -
  have 1: "sleeps_by d c ts c ts s (s\<lparr>sh_usage := u, sh_paused := x\<rparr>)" for u x by (simp add: sleeps_by_def)
  have 2: "sleeps_by d c ts c ts s (emit Overload_noted (s\<lparr>sh_usage := u, sh_paused := x\<rparr>))" for u x
    by (rule sleeps_by_emit [OF 1]) simp
  have 3: "sleeps_by d c ts c ts s s1 \<Longrightarrow> sleeps_by d c ts c ts s (release_final r a tk s1)" for s1 tk
    by (auto simp: release_final_def Let_def sleeps_by_def split: option.splits intro!: sleeps_by_release [unfolded sleeps_by_def])
  show ?thesis by (simp add: finish_stream_def Let_def 1 2 3 split: prod.splits)
qed

lemma attempts_sleep:
  "\<exists>c' ts'. sleeps_by d c ts c' ts' s (snd (attempts loads p r content d a s ts))"
proof (induction ts arbitrary: a s c)
  case Nil
  then show ?case by (auto intro: sleeps_by_refl)
next
  case (Cons t ts)
  note 1 = attempt_once_sleeps [of d c t ts s loads content a]
  show ?case
  proof (cases "attempt_once loads content d t a s")
    case (Again a1 s1)
    with 1 have "sleeps_by d c (t # ts) (Some t) ts s s1" by simp
    from sleeps_by_trans [OF this] Cons.IH [of "Some t" s1 a1] Again show ?thesis by fastforce
  next
    case (Deliver a1 s1 w ahead)
    with 1 have "sleeps_by d c (t # ts) (Some t) ts s s1" by simp
    moreover from this have "sleeps_by d c (t # ts) (Some t) ts s (s1\<lparr>sh_paused := False\<rparr>)" by (simp add: sleeps_by_def)
    ultimately show ?thesis using sleeps_by_trans [OF _ finish_stream_sleeps] by (simp add: Deliver) blast
  qed (use 1 in auto)
qed

lemma admit_trace:
  assumes "admit c kappa weight g r k s = res"
  shows "(\<forall>rep s'. res = Inl (rep, s') \<longrightarrow> rep = Own 429 ''x-eval-paced'' \<and> sleeps_by d q ts q ts s s' \<and> sh_trace s' = sh_trace s) \<and>
    (\<forall>a s'. res = Inr (a, s') \<longrightarrow> within_limits a \<and> tries a = 0 \<and> sleeps_by d q ts q ts s s' \<and> sends (sh_trace s') = sends (sh_trace s))"
  unfolding assms [symmetric]
  by (auto simp: admit_def Let_def within_limits_def tries_def first_state_def shim_simps split: option.splits
      intro!: sleeps_by_emit)

text \<open>
  C12: The handler's retry loop ends. Given the replies to eleven attempts a request is answered or
  raises, it is sent at most eleven times, whatever the upstream answers and however the two kinds of
  retry alternate, and every backoff it sleeps ends before its hold deadline by the clock of the very
  attempt that slept it: the one last sent before the sleep.
\<close>

theorem retries_end_within_the_hold:
  assumes "shim_call loads c e r s = (rep, s')"
  shows "(11 \<le> length (ce_attempts e) \<longrightarrow> rep \<noteq> Unfinished) \<and>
    (\<exists>es. sh_trace s' = sh_trace s @ es \<and> sends es \<le> 11 \<and>
      (\<forall>pre b post. es = pre @ Slept b # post \<longrightarrow>
         0 < sends pre \<and> sends pre \<le> length (ce_attempts e) \<and>
         sn_now (ce_attempts e ! (sends pre - 1)) + b < ce_clock e + sc_hold_cap c))"
proof (cases "breached c s")
  case True
  with shim_call_refused [OF True assms] show ?thesis by auto
next
  case False
  define d where "d = ce_clock e + sc_hold_cap c"
  have base: "sh_trace (counted_state r s) = sh_trace s" by (simp add: counted_state_def)
  have goal: ?thesis if ends: "11 \<le> length (ce_attempts e) \<longrightarrow> rep \<noteq> Unfinished"
      and sleeps: "sleeps_by d None (ce_attempts e) q ts (counted_state r s) s'"
      and few: "sends (sh_trace s') \<le> sends (sh_trace s) + 11" for q ts
  proof -
    from sleeps base obtain es where es: "sh_trace s' = sh_trace s @ es" "sleep_run d None (ce_attempts e) es \<noteq> None"
      by (auto simp: sleeps_by_def)
    then have "0 < sends pre \<and> sends pre \<le> length (ce_attempts e) \<and> sn_now (ce_attempts e ! (sends pre - 1)) + b < d"
      if "es = pre @ Slept b # post" for pre b post
      using sleep_run_sleeps that by blast
    with ends es(1) few show ?thesis unfolding d_def by (intro conjI exI [of _ es]) (auto simp: sends_simps)
  qed
  show ?thesis
  proof (cases "admit c (ce_kappa e) (ce_weight e) (ce_gate e) r (forwarded_call c (ce_kappa e) r s) (counted_state r s)")
    case (Inl x)
    with assms admit_trace [OF Inl, of d None "ce_attempts e"] base show ?thesis
      by (intro goal) (auto simp: shim_call_forward [OF False])
  next
    case (Inr x)
    obtain a s3 where x: "x = (a, s3)" by (cases x)
    obtain content where run: "attempts loads (sc_pacer c) r content d a s3 (ce_attempts e) = (rep, s')"
      using assms Inr x by (auto simp: shim_call_forward [OF False] d_def)
    obtain q ts where "sleeps_by d None (ce_attempts e) q ts s3 s'"
      using attempts_sleep [of d None "ce_attempts e" s3 loads "sc_pacer c" r content a] run by auto
    with admit_trace [OF Inr, of d None "ce_attempts e"] attempts_bounded [OF run] base show ?thesis
      by (intro goal [of q ts]) (auto simp: x intro: sleeps_by_trans)
  qed
qed

section \<open>A session under its ceilings\<close>

lemma wait_and_reenter_turns:
  "case wait_and_reenter x b g a s of Inl (rep, s') \<Rightarrow> sh_turns s' = sh_turns s | Inr (a', s') \<Rightarrow> sh_turns s' = sh_turns s"
  by (auto simp: wait_and_reenter_def Let_def shim_simps split: option.splits)

lemma attempt_once_turns: "sh_turns (result_state (attempt_once loads content d t a s)) = sh_turns s"
proof -
  have w: "sh_turns (result_state (after_wait (wait_and_reenter x b g a s))) = sh_turns s" for x b g a s
    using wait_and_reenter_turns [where x = x and b = b and g = g and a = a and s = s] by (auto simp: after_wait_def split: sum.splits prod.splits)
  show ?thesis
    by (auto simp: attempt_once_def read_ahead_def retry_overload_def retry_upstream_def Let_def shim_simps w
        split: upstream_reply.splits option.splits)
qed

lemma attempts_turns: "sh_turns (snd (attempts loads p r content d a s ts)) = sh_turns s"
proof (induction ts arbitrary: a s)
  case (Cons t ts)
  then show ?case
    using attempt_once_turns [of loads content d t a s]
    by (auto simp: finish_stream_def Let_def shim_simps split: attempt_result.splits prod.splits)
qed simp

lemma admit_turns:
  "case admit c kappa weight g r k s of Inl (rep, s') \<Rightarrow> sh_turns s' = sh_turns s | Inr (a, s') \<Rightarrow> sh_turns s' = sh_turns s"
  by (auto simp: admit_def Let_def shim_simps split: option.splits)

lemma shim_call_turns:
  "sh_turns (snd (shim_call loads c e r s)) =
     sh_turns s + (if \<not> breached c s \<and> is_completion_path (rq_path r) then 1 else 0)"
proof (cases "breached c s")
  case True
  then show ?thesis using shim_call_refused [OF True, of loads e r] by (cases "shim_call loads c e r s") auto
next
  case False
  show ?thesis
    using admit_turns [where c = c and kappa = "ce_kappa e" and weight = "ce_weight e" and g = "ce_gate e" and r = r and
        k = "forwarded_call c (ce_kappa e) r s" and s = "counted_state r s"] False
    by (auto simp: shim_call_forward [OF False] attempts_turns counted_state_def split: sum.splits)
qed

lemma session_unfold:
  "shim_session loads c s ((e, r) # rs) =
     (fst (shim_call loads c e r s) # fst (shim_session loads c (snd (shim_call loads c e r s)) rs),
      snd (shim_session loads c (snd (shim_call loads c e r s)) rs))"
  by (simp add: case_prod_unfold Let_def)

declare shim_session.simps(2) [simp del]

definition after_calls :: "(string \<Rightarrow> json option) \<Rightarrow> shim_conf \<Rightarrow> shim \<Rightarrow> (call_env \<times> shim_request) list \<Rightarrow> nat \<Rightarrow> shim" where
  "after_calls loads c s rs n = snd (shim_session loads c s (take n rs))"

lemma breached_stays:
  assumes "breached c s"
  shows "sh_usage (snd (shim_session loads c s rs)) = sh_usage s \<and> sh_turns (snd (shim_session loads c s rs)) = sh_turns s \<and>
    sh_trace (snd (shim_session loads c s rs)) = sh_trace s \<and>
    (\<forall>rep \<in> set (fst (shim_session loads c s rs)). reply_status rep = Some 400)"
  using assms
proof (induction rs arbitrary: s)
  case (Cons x rs)
  obtain e r where x: "x = (e, r)" by (cases x)
  obtain rep s1 where call: "shim_call loads c e r s = (rep, s1)" by fastforce
  note one = shim_call_refused [OF Cons.prems call]
  then have "breached c s1 = breached c s" by (simp add: breached_def spent_tokens_def turns_breached_def split: option.splits)
  with Cons.prems have "breached c s1" by simp
  from Cons.IH [OF this] one show ?case by (auto simp: x session_unfold call)
qed simp

text \<open>
  The turn cap holds through a session: started within it, the shim never counts more completions
  than the cap, however many requests the harness makes and whatever becomes of them.
\<close>

theorem turns_stay_within_the_cap:
  assumes "sc_max_turns c = Some n" "sh_turns s \<le> n"
  shows "sh_turns (snd (shim_session loads c s rs)) \<le> n"
  using assms(2)
proof (induction rs arbitrary: s)
  case (Cons x rs)
  obtain e r where x: "x = (e, r)" by (cases x)
  have "sh_turns (snd (shim_call loads c e r s)) \<le> n"
    using Cons.prems assms(1) by (auto simp: shim_call_turns breached_def turns_breached_def)
  from Cons.IH [OF this] show ?case by (simp add: x session_unfold)
qed simp

text \<open>
  C13: One call crosses a ceiling, and none follows it. When a session that began below its token, cost and
  turn ceilings ends over one of them, there is a request before which every ceiling still had room,
  after which neither the usage nor the turns nor what went upstream changed again, and every later
  request was refused with a 400.
\<close>

theorem one_call_crosses_the_ceiling:
  assumes "\<not> breached c s" "breached c (snd (shim_session loads c s rs))"
  shows "\<exists>i < length rs. \<not> breached c (after_calls loads c s rs i) \<and>
    (let crossed = after_calls loads c s rs (i + 1); final = snd (shim_session loads c s rs)
     in breached c crossed \<and> sh_usage final = sh_usage crossed \<and> sh_turns final = sh_turns crossed \<and>
        sh_trace final = sh_trace crossed) \<and>
    (\<forall>rep \<in> set (drop (i + 1) (fst (shim_session loads c s rs))). reply_status rep = Some 400)"
  using assms
proof (induction rs arbitrary: s)
  case (Cons x rs)
  obtain e r where x: "x = (e, r)" by (cases x)
  obtain rep s1 where call: "shim_call loads c e r s = (rep, s1)" by fastforce
  show ?case
  proof (cases "breached c s1")
    case True
    from breached_stays [OF this, of loads rs] True Cons.prems show ?thesis
      by (intro exI [of _ 0]) (simp add: x session_unfold call after_calls_def)
  next
    case False
    have "breached c (snd (shim_session loads c s1 rs))" using Cons.prems(2) by (simp add: x session_unfold call)
    from Cons.IH [OF False this] obtain i where i: "i < length rs" "\<not> breached c (after_calls loads c s1 rs i)"
        "let crossed = after_calls loads c s1 rs (i + 1); final = snd (shim_session loads c s1 rs)
         in breached c crossed \<and> sh_usage final = sh_usage crossed \<and> sh_turns final = sh_turns crossed \<and>
            sh_trace final = sh_trace crossed"
        "\<forall>rep \<in> set (drop (i + 1) (fst (shim_session loads c s1 rs))). reply_status rep = Some 400"
      by blast
    have "after_calls loads c s (x # rs) (Suc n) = after_calls loads c s1 rs n" for n
      by (simp add: after_calls_def x session_unfold call)
    with i show ?thesis by (intro exI [of _ "Suc i"]) (simp add: x session_unfold call)
  qed
qed simp

section \<open>Waits\<close>

definition waited :: "shim \<Rightarrow> int" where
  "waited s = su_paced_wait_ms (sh_usage s)"

definition waits_match :: "shim \<Rightarrow> attempt_state \<Rightarrow> shim \<Rightarrow> bool" where
  "waits_match s0 a s \<longleftrightarrow>
     at_adm a \<noteq> None \<and> sh_log s = sh_log s0 \<and> waited s = waited s0 + at_wait a \<and>
     (tries a = 0 \<longrightarrow> cl_paced_wait_ms (at_call a) = Some (at_wait a))"

definition waits_logged :: "shim \<Rightarrow> shim \<Rightarrow> bool" where
  "waits_logged s0 s \<longleftrightarrow>
     (\<exists>k. sh_log s = sh_log s0 @ [k] \<and> cl_paced_wait_ms k = Some (waited s - waited s0))"

lemma waited_simps [simp]:
  "waited (emit e s) = waited s" "waited (record_call k s) = waited s" "waited (release_held a p c d s) = waited s"
  "waited (release_final r a tk s) = waited s"
  by (simp_all add: waited_def shim_simps)

lemma wait_and_reenter_waits:
  assumes "at_adm a \<noteq> None" "sh_log s = sh_log s0" "waited s = waited s0 + at_wait a" "0 < tries a"
  shows "case wait_and_reenter x b g a s of
      Inl (rep, s') \<Rightarrow> waits_logged s0 s'
    | Inr (a', s') \<Rightarrow> waits_match s0 a' s' \<and> tries a' = tries a"
  using assms
  by (auto simp: wait_and_reenter_def Let_def waits_logged_def waits_match_def shim_simps waited_def tries_def
      fold_timeout_def fold_admission_def split: option.splits)

lemma after_wait_waits:
  assumes "at_adm a \<noteq> None" "sh_log s = sh_log s0" "waited s = waited s0 + at_wait a" "0 < tries a"
  shows "case after_wait (wait_and_reenter x b g a s) of
      Again a' s' \<Rightarrow> waits_match s0 a' s' | Ended rep s' \<Rightarrow> waits_logged s0 s' | _ \<Rightarrow> False"
  using wait_and_reenter_waits [OF assms, of x b g] by (auto simp: after_wait_def split: sum.splits prod.splits)

definition waits_result :: "shim \<Rightarrow> attempt_result \<Rightarrow> bool" where
  "waits_result s0 r =
     (case r of
        Again a s \<Rightarrow> waits_match s0 a s
      | Ended rep s \<Rightarrow> rep = Own 502 [] \<or> waits_logged s0 s
      | Raised s \<Rightarrow> True
      | Deliver a s w ahead \<Rightarrow> waits_match s0 a s)"

lemma retry_waits:
  assumes "waits_match s0 a s"
  shows "waits_result s0 (retry_overload b t a s)" "waits_result s0 (retry_upstream b t a s)"
proof -
  let ?a1 = "a\<lparr>at_over := at_over a + 1, at_retry := at_retry a + sn_rtt_ms t,
      at_call := (at_call a)\<lparr>cl_overload_retries := at_over a + 1\<rparr>\<rparr>"
  let ?s1 = "on_usage (\<lambda>u. u\<lparr>su_overload_retries := su_overload_retries u + 1\<rparr>) (emit Overload_noted s)"
  let ?a2 = "a\<lparr>at_up := at_up a + 1, at_retry := at_retry a + sn_rtt_ms t,
      at_call := (at_call a)\<lparr>cl_upstream_retries := at_up a + 1\<rparr>\<rparr>"
  have "at_adm ?a1 \<noteq> None" "sh_log ?s1 = sh_log s0" "waited ?s1 = waited s0 + at_wait ?a1" "0 < tries ?a1"
    using assms by (simp_all add: waits_match_def shim_simps waited_def tries_def)
  from after_wait_waits [OF this, of "''engine_overloaded_retries_exhausted''" b "sn_gate t"]
  show "waits_result s0 (retry_overload b t a s)"
    by (auto simp: retry_overload_def waits_result_def split: attempt_result.splits)
  have "at_adm ?a2 \<noteq> None" "sh_log s = sh_log s0" "waited s = waited s0 + at_wait ?a2" "0 < tries ?a2"
    using assms by (simp_all add: waits_match_def tries_def)
  from after_wait_waits [OF this, of "''upstream_error_retries_exhausted''" b "sn_gate t"]
  show "waits_result s0 (retry_upstream b t a s)"
    by (auto simp: retry_upstream_def waits_result_def split: attempt_result.splits)
qed

lemma waits_match_fields [simp]:
  "waits_match s0 a (emit e s) = waits_match s0 a s"
  "waits_match s0 (a\<lparr>at_call := (at_call a)\<lparr>cl_error := m\<rparr>\<rparr>) s = waits_match s0 a s"
  by (simp_all add: waits_match_def shim_simps tries_def)

lemma attempt_once_waits:
  assumes "waits_match s0 a s"
  shows "waits_result s0 (attempt_once loads content d t a s)"
proof -
  have m: "waits_match s0 a (emit (Sent content) s)" using assms by simp
  have r: "waits_result s0 (read_ahead loads d t a (emit (Sent content) s) w)" for w
    using m by (auto simp: read_ahead_def Let_def retry_waits waits_result_def [of _ "Deliver _ _ _ _"]
        waits_result_def [of _ "Raised _"] split: option.splits)
  show ?thesis
    using m r by (auto simp: attempt_once_def Let_def retry_waits waits_result_def [of _ "Deliver _ _ _ _"]
        waits_result_def [of _ "Ended _ _"] split: upstream_reply.splits)
qed

lemma finish_stream_waits:
  assumes "waits_match s0 a s"
  shows "waits_logged s0 (finish_stream loads p r l (retried_totals a) w got s)"
proof -
  obtain pa k u where pr: "parse_reply loads w got ((at_call (retried_totals a))\<lparr>cl_http_status := Some (up_status w),
      cl_retry_after := retry_after w, cl_response_bytes := chunks_size got, cl_latency_ms := l\<rparr>) (sh_usage s) = (pa, k, u)"
    by (metis prod_cases3)
  have "cl_paced_wait_ms (at_call (retried_totals a)) = Some (at_wait a)"
    using assms by (auto simp: retried_totals_def waits_match_def tries_def)
  with parse_reply_fields [OF pr] assms show ?thesis
    by (auto simp: finish_stream_def pr Let_def waits_logged_def waits_match_def shim_simps waited_def)
qed

lemma attempts_waits:
  assumes "waits_match s0 a s" "attempts loads p r content d a s ts = (rep, s')"
    "rep \<noteq> Escaped" "rep \<noteq> Unfinished" "rep \<noteq> Own 502 []"
  shows "waits_logged s0 s'"
  using assms
proof (induction ts arbitrary: a s)
  case (Cons t ts)
  from attempt_once_waits [OF Cons.prems(1), of loads content d t] Cons show ?case
    by (auto simp: waits_result_def finish_stream_waits split: attempt_result.splits if_splits)
qed simp

text \<open>
  The time a completion was held at the pacer is accounted once: whatever waits, timeouts and
  re-admissions it goes through, the wait its record carries is the amount by which the instance's
  total grew. The exception is a call whose upstream could not be reached.
\<close>

theorem waits_are_recorded_as_accumulated:
  assumes "shim_call loads c e r s = (rep, s')" "paced_call c r" "\<not> breached c s"
    "rep \<noteq> Escaped" "rep \<noteq> Unfinished" "rep \<noteq> Own 502 []"
  shows "\<exists>k. sh_log s' = sh_log s @ [k] \<and>
    cl_paced_wait_ms k = Some (su_paced_wait_ms (sh_usage s') - su_paced_wait_ms (sh_usage s))"
proof -
  let ?s = "counted_state r s"
  have "waits_logged ?s s'"
  proof (cases "admit c (ce_kappa e) (ce_weight e) (ce_gate e) r (forwarded_call c (ce_kappa e) r s) ?s")
    case (Inl x)
    with assms show ?thesis
      by (auto simp: shim_call_forward admit_def paced_call_def Let_def waits_logged_def shim_simps waited_def
          fold_timeout_def split: option.splits)
  next
    case (Inr x)
    obtain a s3 where x: "x = (a, s3)" by (cases x)
    have "waits_match ?s a s3"
      using Inr assms(2) by (auto simp: x admit_def paced_call_def Let_def waits_match_def shim_simps waited_def
          fold_admission_def first_state_def split: option.splits)
    with assms Inr show ?thesis by (auto simp: x shim_call_forward intro: attempts_waits)
  qed
  then show ?thesis by (simp add: waits_logged_def waited_def counted_state_def)
qed

section \<open>What goes unaccounted\<close>

lemma admit_open:
  assumes "paced_call c r" "ce_gate e = Gate_open i w q n ax"
  shows "\<exists>ad. admit c (ce_kappa e) (ce_weight e) (ce_gate e) r (forwarded_call c (ce_kappa e) r s) (counted_state r s) =
      Inr (first_state (diagnostics False ad ((forwarded_call c (ce_kappa e) r s)\<lparr>cl_charge := Some (ad_charge_tokens ad),
             cl_paced_wait_ms := Some w\<rparr>)) (Some ad),
           emit (Acquired i) (on_usage (fold_admission ad) (counted_state r s))) \<and>
    ad_call_id ad = i \<and> ad_paced_wait_ms ad = w \<and> ad_was_queued ad = q"
  using assms
  by (intro exI [where x = "the (gate_admission (prompt_estimate c (ce_kappa e) r)
       (Some (weighted_charge (prompt_estimate c (ce_kappa e) r)
          (min (sh_prior (counted_state r s)) (prompt_estimate c (ce_kappa e) r)) (ce_weight e))) (ce_gate e))"])
     (simp add: admit_def paced_call_def Let_def)

lemma forwarded_fields [simp]:
  "cl_path (forwarded_call c kappa r s) = rq_path r"
  "cl_stream (forwarded_call c kappa r s) = js_truth (obj_get (body_fields r) ''stream'')"
  by (simp_all add: forwarded_call_def begin_call_def Let_def split: prod.splits)

text \<open>
  A body that breaks while it is read ahead takes the call out of the books. For a non-streaming
  completion answered 200 whose body cannot be read to its end, the exception leaves the handler: the
  call counts as a turn and takes an index, but no record of it is written, and its admission stays held.
\<close>

theorem broken_body_leaks_the_admission:
  assumes "\<not> breached c s" "paced_call c r" "\<not> js_truth (obj_get (body_fields r) ''stream'')"
    "ce_gate e = Gate_open i w q n ax" "ce_attempts e = t # ts" "sn_reply t = Answered a"
    "up_status a = 200" "up_broken a" "shim_call loads c e r s = (rep, s')"
  shows "rep = Escaped \<and> sh_log s' = sh_log s \<and> sh_index s' = sh_index s + 1 \<and> sh_turns s' = sh_turns s + 1 \<and>
    (\<exists>es. sh_trace s' = sh_trace s @ es \<and> admission_run True None es = Some (Some i))"
proof -
  from admit_open [OF assms(2,4), of s] show ?thesis
    using assms
    by (auto simp: shim_call_forward attempt_once_def read_ahead_def Let_def first_state_def shim_simps pool_overload_def
        counted_state_def paced_call_def)
qed

text \<open>
  An infinite token count does the same to a streamed completion, after its bytes went to the client:
  the meter drops the conversion errors it expects, and this is none of them.
\<close>

theorem infinite_count_leaks_the_admission:
  assumes "\<not> breached c s" "paced_call c r" "js_truth (obj_get (body_fields r) ''stream'')"
    "ce_gate e = Gate_open i w q n ax" "ce_attempts e = t # ts" "sn_reply t = Answered a" "up_status a = 200"
    "usage_overflows (usage_blocks loads (List.concat (keep_tail (tail_limit True) (up_chunks a))))"
    "shim_call loads c e r s = (rep, s')"
  shows "rep = Escaped \<and> sh_log s' = sh_log s \<and> sh_index s' = sh_index s + 1 \<and> sh_turns s' = sh_turns s + 1 \<and>
    (\<exists>es. sh_trace s' = sh_trace s @ es \<and> admission_run True None es = Some (Some i))"
proof -
  from admit_open [OF assms(2,4), of s] show ?thesis
    using assms
    by (auto simp: shim_call_forward attempt_once_def Let_def first_state_def shim_simps pool_overload_def
        counted_state_def paced_call_def breaks_off_def yielded_def)
qed

text \<open>
  A call that is retried and then cannot reach the upstream is misaccounted twice. When it was
  queued at both of its admissions, the count of paced calls, which is of calls, grows by two for it; and
  its record shows the first wait alone and no backoff, while the instance's total grew by both waits.
\<close>

theorem retried_call_is_misaccounted:
  assumes "\<not> breached c s" "paced_call c r" "ce_gate e = Gate_open i w True n ax" "ce_attempts e = [t1, t2]"
    "sn_reply t1 = Answered a" "up_status a = 429" "retry_after a = None"
    "sn_now t1 + overload_backoff 0 (sn_jitter t1) < ce_clock e + sc_hold_cap c"
    "sn_gate t1 = Gate_open i' w' True n' ax'" "sn_reply t2 = Unreachable kind"
    "shim_call loads c e r s = (rep, s')"
  shows "su_paced_calls (sh_usage s') = su_paced_calls (sh_usage s) + 2 \<and>
    su_paced_wait_ms (sh_usage s') = su_paced_wait_ms (sh_usage s) + w + w' \<and>
    (\<exists>k. sh_log s' = sh_log s @ [k] \<and> cl_paced_wait_ms k = Some w \<and> cl_backoff_ms k = None \<and> cl_overload_retries k = 1)"
proof -
  let ?k = "forwarded_call c (ce_kappa e) r s"
  obtain ad where ad: "admit c (ce_kappa e) (ce_weight e) (ce_gate e) r ?k (counted_state r s) =
      Inr (first_state (diagnostics False ad (?k\<lparr>cl_charge := Some (ad_charge_tokens ad), cl_paced_wait_ms := Some w\<rparr>)) (Some ad),
           emit (Acquired i) (on_usage (fold_admission ad) (counted_state r s)))"
      "ad_call_id ad = i" "ad_paced_wait_ms ad = w" "ad_was_queued ad"
    using admit_open [OF assms(2,3), of s] by auto
  have none: "cl_backoff_ms ?k = None" by (simp add: forwarded_call_def begin_call_def Let_def split: prod.splits)
  have over: "is_real_provider_overload 429 None" by (simp add: is_real_provider_overload_def)
  show ?thesis
    using assms ad none over
    by (auto simp: shim_call_forward attempt_once_def retry_overload_def after_wait_def wait_and_reenter_def Let_def
        first_state_def shim_simps pool_overload_def counted_state_def fold_admission_def MAX_OVERLOAD_RETRIES_def diagnostics_def)
qed

text \<open>
  A probe makes the token total look incomplete. A request that is no completion, such as a list of
  models, and is answered below 400 with a body that carries no usage, takes no turn, yet raises the
  count of calls whose usage could not be parsed, and its record is marked so.
\<close>

theorem probes_count_as_unparsed:
  assumes "\<not> breached c s" "\<not> is_completion_path (rq_path r)" "ce_attempts e = t # ts" "sn_reply t = Answered a"
    "up_status a < 400" "0 < chunks_size (up_chunks a)"
    "usage_blocks loads (List.concat (keep_tail (tail_limit (js_truth (obj_get (body_fields r) ''stream''))) (up_chunks a))) = []"
    "shim_call loads c e r s = (rep, s')"
  shows "su_parse_failed (sh_usage s') = su_parse_failed (sh_usage s) + 1 \<and> sh_turns s' = sh_turns s \<and>
    (\<exists>k. sh_log s' = sh_log s @ [k] \<and> cl_parse_failed k)"
  using assms
  by (auto simp: shim_call_forward admit_def attempt_once_def Let_def first_state_def shim_simps pool_overload_def
      counted_state_def finish_stream_def parse_reply_def accumulate_tail_def pick_usage_def retried_totals_def
      yielded_def rate_scope_def breaks_off_def usage_overflows_def pick_overflows_def)

section \<open>The tail\<close>

lemma trim_front_shape:
  "\<exists>pre. q = pre @ trim_front n q \<and> (pre \<noteq> [] \<longrightarrow> n < chunks_size (last pre # trim_front n q))"
proof (induction q)
  case (Cons c q)
  then obtain pre where pre: "q = pre @ trim_front n q" "pre \<noteq> [] \<longrightarrow> n < chunks_size (last pre # trim_front n q)" by blast
  show ?case
  proof (cases "n < chunks_size (c # q)")
    case True
    with pre show ?thesis by (intro exI [of _ "c # pre"]) (cases "pre = []", auto)
  qed simp
qed simp

lemma trim_front_size: "chunks_size (trim_front n q) \<le> n"
  by (induction q) (auto simp: chunks_size_def)

lemma keep_tail_snoc: "keep_tail n (cs @ [c]) = trim_front n (keep_tail n cs @ [c])"
  by (simp add: keep_tail_def)

text \<open>
  What the tail of a reply keeps is the longest run of its last chunks that fits the limit. So a body
  read ahead, which is one chunk, is kept whole or not at all: over four MiB nothing is left to find
  the usage in.
\<close>

theorem tail_is_the_longest_suffix:
  "(\<exists>pre. cs = pre @ keep_tail n cs \<and> (pre \<noteq> [] \<longrightarrow> n < chunks_size (last pre # keep_tail n cs))) \<and>
   chunks_size (keep_tail n cs) \<le> n \<and>
   keep_tail (tail_limit False) [body] = (if length body \<le> 4194304 then [body] else [])"
proof (intro conjI)
  show "\<exists>pre. cs = pre @ keep_tail n cs \<and> (pre \<noteq> [] \<longrightarrow> n < chunks_size (last pre # keep_tail n cs))"
  proof (induction cs rule: rev_induct)
    case (snoc c cs)
    then obtain pre where pre: "cs = pre @ keep_tail n cs" "pre \<noteq> [] \<longrightarrow> n < chunks_size (last pre # keep_tail n cs)" by blast
    obtain pre' where pre': "keep_tail n cs @ [c] = pre' @ keep_tail n (cs @ [c])"
        "pre' \<noteq> [] \<longrightarrow> n < chunks_size (last pre' # keep_tail n (cs @ [c]))"
      using trim_front_shape [of "keep_tail n cs @ [c]" n] by (auto simp: keep_tail_snoc)
    have "cs @ [c] = (pre @ pre') @ keep_tail n (cs @ [c])"
      using pre(1) pre'(1) by (metis append.assoc)
    moreover have "n < chunks_size (last (pre @ pre') # keep_tail n (cs @ [c]))" if "pre @ pre' \<noteq> []"
    proof (cases "pre' = []")
      case True
      with pre'(1) have k: "keep_tail n (cs @ [c]) = keep_tail n cs @ [c]" by simp
      from True that pre(2) show ?thesis by (simp add: k chunks_size_def)
    qed (use pre'(2) in auto)
    ultimately show ?case by blast
  qed (simp add: keep_tail_def)
  show "chunks_size (keep_tail n cs) \<le> n"
    by (cases cs rule: rev_cases) (simp_all add: keep_tail_snoc trim_front_size, simp add: keep_tail_def chunks_size_def)
  show "keep_tail (tail_limit False) [body] = (if length body \<le> 4194304 then [body] else [])"
    by (simp add: keep_tail_def tail_limit_def TAIL_LIMIT_def chunks_size_def)
qed

section \<open>The theorems at concrete inputs\<close>

definition plain_conf :: shim_conf where
  "plain_conf = \<lparr>sc_pacer = True, sc_hold_cap = 100, sc_window = None, sc_max_tokens = Some 100, sc_max_cost = None,
     sc_max_turns = Some 1\<rparr>"

definition chat_request :: shim_request where
  "chat_request = \<lparr>rq_path = ''/v1/chat/completions'', rq_body = None, rq_bytes = 489\<rparr>"

definition probe_request :: shim_request where
  "probe_request = \<lparr>rq_path = ''/v1/models'', rq_body = None, rq_bytes = 0\<rparr>"

definition one_attempt :: "upstream_reply \<Rightarrow> attempt" where
  "one_attempt rep = \<lparr>sn_reply = rep, sn_now = 1, sn_jitter = 1, sn_rtt_ms = 5, sn_gate = Gate_open ''b'' 20 True 1 None,
     sn_latency_ms = 7\<rparr>"

definition call_env_of :: "attempt list \<Rightarrow> call_env" where
  "call_env_of ts = \<lparr>ce_kappa = 4, ce_weight = 1, ce_gate = Gate_open ''a'' 10 True 1 None, ce_clock = 0, ce_attempts = ts\<rparr>"

definition bare_answer :: "int \<Rightarrow> string list \<Rightarrow> bool \<Rightarrow> upstream_answer" where
  "bare_answer n cs broken = \<lparr>up_status = n, up_headers = [], up_chunks = cs, up_broken = broken\<rparr>"

lemmas concrete_call = plain_conf_def chat_request_def probe_request_def one_attempt_def call_env_of_def bare_answer_def
  new_shim_def no_usage_def breached_def turns_breached_def spent_tokens_def paced_call_def body_fields_def chat_path

lemma fresh_room: "\<not> breached plain_conf (new_shim no_usage)"
  by (simp add: concrete_call)

lemma chat_paced: "paced_call plain_conf chat_request"
  by (simp add: concrete_call)

definition lost_env :: call_env where
  "lost_env = call_env_of [one_attempt (Answered (bare_answer 429 [] False)), one_attempt (Unreachable ''ConnectError'')]"

lemma lost_gates:
  "ce_gate lost_env = Gate_open ''a'' 10 True 1 None"
  "ce_attempts lost_env = [one_attempt (Answered (bare_answer 429 [] False)), one_attempt (Unreachable ''ConnectError'')]"
  by (simp_all add: lost_env_def concrete_call)

theorem retried_call_is_misaccounted_witness:
  "su_paced_calls (sh_usage (snd (shim_call (\<lambda>_. None) plain_conf lost_env chat_request (new_shim no_usage)))) = 2"
proof -
  obtain rep s' where run: "shim_call (\<lambda>_. None) plain_conf lost_env chat_request (new_shim no_usage) = (rep, s')" by fastforce
  have "su_paced_calls (sh_usage s') = su_paced_calls (sh_usage (new_shim no_usage)) + 2"
    using retried_call_is_misaccounted [OF fresh_room chat_paced lost_gates _ _ _ _ _ _ run, of "bare_answer 429 [] False" "''b''" 20 1 None
      "''ConnectError''"]
    by (simp add: concrete_call lost_env_def retry_after_def overload_backoff_def OVERLOAD_BACKOFF_BASE_S_def)
  then show ?thesis unfolding run by (simp add: new_shim_def no_usage_def)
qed

lemma lost_run: "fst (shim_call (\<lambda>_. None) plain_conf lost_env chat_request (new_shim no_usage)) = Own 502 []"
  using fresh_room
  by (simp add: shim_call_forward admit_def attempt_once_def retry_overload_def after_wait_def wait_and_reenter_def Let_def
      lost_env_def concrete_call pool_overload_def retry_after_def is_real_provider_overload_def first_state_def
      overload_backoff_def OVERLOAD_BACKOFF_BASE_S_def MAX_OVERLOAD_RETRIES_def diagnostics_def forwarded_call_def begin_call_def
      inject_max_tokens_def rehome_system_role_messages_def inject_stream_options_def)


theorem every_request_closes_its_account_witness:
  "\<exists>es. sh_trace (snd (shim_call (\<lambda>_. None) plain_conf lost_env chat_request (new_shim no_usage))) = es \<and>
     admission_run True None es = Some None"
proof -
  obtain rep s' where run: "shim_call (\<lambda>_. None) plain_conf lost_env chat_request (new_shim no_usage) = (rep, s')" by fastforce
  have rep: "rep = Own 502 []" using lost_run by (simp add: run)
  from every_request_closes_its_account [OF run] show ?thesis
    using chat_paced unfolding run by (auto simp: rep new_shim_def)
qed

definition shut_env :: call_env where
  "shut_env = (call_env_of [])\<lparr>ce_gate := Gate_shut 9\<rparr>"

theorem waits_are_recorded_as_accumulated_witness:
  "\<exists>k. sh_log (snd (shim_call (\<lambda>_. None) plain_conf shut_env chat_request (new_shim no_usage))) = [k] \<and>
     cl_paced_wait_ms k \<noteq> None"
proof -
  obtain rep s' where run: "shim_call (\<lambda>_. None) plain_conf shut_env chat_request (new_shim no_usage) = (rep, s')" by fastforce
  have "fst (shim_call (\<lambda>_. None) plain_conf shut_env chat_request (new_shim no_usage)) = Own 429 ''x-eval-paced''"
    using fresh_room chat_paced by (simp add: shim_call_forward admit_def paced_call_def Let_def shut_env_def call_env_of_def)
  then have rep: "rep = Own 429 ''x-eval-paced''" by (simp add: run)
  from waits_are_recorded_as_accumulated [OF run chat_paced fresh_room] show ?thesis
    unfolding run by (auto simp: rep new_shim_def)
qed

theorem retries_end_within_the_hold_witness:
  "fst (shim_call (\<lambda>_. None) plain_conf (call_env_of (replicate 11 (one_attempt (Answered (bare_answer 429 [] False)))))
     chat_request (new_shim no_usage)) \<noteq> Unfinished"
proof -
  obtain rep s' where run: "shim_call (\<lambda>_. None) plain_conf
      (call_env_of (replicate 11 (one_attempt (Answered (bare_answer 429 [] False))))) chat_request (new_shim no_usage) = (rep, s')"
    by fastforce
  from retries_end_within_the_hold [OF run] show ?thesis unfolding run by (simp add: call_env_of_def)
qed

theorem turns_stay_within_the_cap_witness:
  "sh_turns (snd (shim_session (\<lambda>_. None) plain_conf (new_shim no_usage)
     [(lost_env, chat_request), (lost_env, chat_request)])) \<le> 1"
  by (rule turns_stay_within_the_cap) (simp_all add: plain_conf_def new_shim_def)

theorem one_call_crosses_the_ceiling_witness:
  "\<exists>i < 2. \<not> breached plain_conf (after_calls (\<lambda>_. None) plain_conf (new_shim no_usage)
     [(lost_env, chat_request), (lost_env, chat_request)] i)"
proof -
  let ?s1 = "snd (shim_call (\<lambda>_. None) plain_conf lost_env chat_request (new_shim no_usage))"
  have "sh_turns ?s1 = 1"
    using fresh_room chat_paced by (simp add: shim_call_turns paced_call_def new_shim_def)
  then have b: "breached plain_conf ?s1" by (simp add: breached_def turns_breached_def plain_conf_def)
  have "breached plain_conf (snd (shim_session (\<lambda>_. None) plain_conf (new_shim no_usage)
      [(lost_env, chat_request), (lost_env, chat_request)]))"
    using breached_stays [OF b, of "\<lambda>_. None" "[(lost_env, chat_request)]"] b
    by (simp add: session_unfold breached_def turns_breached_def spent_tokens_def split: option.splits)
  from one_call_crosses_the_ceiling [OF fresh_room this] show ?thesis by (auto simp: numeral_2_eq_2)
qed

theorem broken_body_leaks_the_admission_witness:
  "fst (shim_call (\<lambda>_. None) plain_conf (call_env_of [one_attempt (Answered (bare_answer 200 [] True))]) chat_request
     (new_shim no_usage)) = Escaped"
proof -
  let ?e = "call_env_of [one_attempt (Answered (bare_answer 200 [] True))]"
  obtain rep s' where run: "shim_call (\<lambda>_. None) plain_conf ?e chat_request (new_shim no_usage) = (rep, s')" by fastforce
  have "\<not> js_truth (obj_get (body_fields chat_request) ''stream'')"
    by (simp add: chat_request_def body_fields_def obj_get_def)
  from broken_body_leaks_the_admission [OF fresh_room chat_paced this _ _ _ _ _ run] show ?thesis
    unfolding run by (simp add: call_env_of_def one_attempt_def bare_answer_def)
qed

definition streamed_request :: shim_request where
  "streamed_request = chat_request\<lparr>rq_body := Some (JsObj [(''stream'', JsBool True)])\<rparr>"

definition endless_loads :: "string \<Rightarrow> json option" where
  "endless_loads t = Some (JsObj [(''input_tokens'', JsFloat PosInf)])"

theorem infinite_count_leaks_the_admission_witness:
  "fst (shim_call endless_loads plain_conf (call_env_of [one_attempt (Answered (bare_answer 200 [usage_key @ '':{}''] False))])
     streamed_request (new_shim no_usage)) = Escaped"
proof -
  let ?e = "call_env_of [one_attempt (Answered (bare_answer 200 [usage_key @ '':{}''] False))]"
  obtain rep s' where run: "shim_call endless_loads plain_conf ?e streamed_request (new_shim no_usage) = (rep, s')" by fastforce
  have st: "js_truth (obj_get (body_fields streamed_request) ''stream'')" "paced_call plain_conf streamed_request"
    using chat_paced by (simp_all add: streamed_request_def body_fields_def obj_get_def paced_call_def)
  have "usage_blocks endless_loads (usage_key @ '':{}'') = [[(''input_tokens'', JsFloat PosInf)]]"
    by (simp add: usage_key_def block_after_def endless_loads_def)
  moreover have "List.concat (keep_tail (tail_limit True) [usage_key @ '':{}'']) = usage_key @ '':{}''"
    by (simp add: keep_tail_def tail_limit_def STREAM_TAIL_LIMIT_def chunks_size_def usage_key_def)
  ultimately have "usage_overflows (usage_blocks endless_loads (List.concat (keep_tail (tail_limit True) [usage_key @ '':{}''])))"
    by (simp add: usage_overflows_def pick_overflows_def infinite_count_def block_input_def get_default_def js_or_def)
  with infinite_count_leaks_the_admission [OF fresh_room st(2,1) _ _ _ _ _ run] show ?thesis
    unfolding run by (simp add: call_env_of_def one_attempt_def bare_answer_def)
qed

theorem probes_count_as_unparsed_witness:
  "su_parse_failed (sh_usage (snd (shim_call (\<lambda>_. None) plain_conf
     (call_env_of [one_attempt (Answered (bare_answer 200 [''ok''] False))]) probe_request (new_shim no_usage)))) = 1"
proof -
  let ?e = "call_env_of [one_attempt (Answered (bare_answer 200 [''ok''] False))]"
  obtain rep s' where run: "shim_call (\<lambda>_. None) plain_conf ?e probe_request (new_shim no_usage) = (rep, s')" by fastforce
  have probe: "\<not> is_completion_path (rq_path probe_request)"
    by (simp add: probe_request_def is_completion_path_def)
  have "usage_blocks (\<lambda>_. None) t = []" for t by (induction t) (simp_all split: option.splits)
  with probes_count_as_unparsed [OF fresh_room probe _ _ _ _ _ run, of _ "[]" "bare_answer 200 [''ok''] False"] show ?thesis
    unfolding run by (simp add: call_env_of_def one_attempt_def bare_answer_def chunks_size_def new_shim_def no_usage_def)
qed

end
