(* ===== verification/Leak_Detection.thy ===== *)
theory Leak_Detection
  imports Text_Lines
begin

text \<open>
  \<open>evaluation/leak_detection.py\<close>: which names of hidden tests a patch or a trajectory mentions, and
  which names of a dataset are absent from the repository before the tests are applied.

  A text is a list of ASCII characters. The checked-in artifact and its hash are file access and not
  modelled; JSON decoding is the parameter \<open>loads\<close>.
\<close>

section \<open>Names\<close>

definition strip_parametrized_suffix :: "string \<Rightarrow> string" where
  "strip_parametrized_suffix node_id = strip (before ''['' node_id)"

definition normalize_node_id :: "string \<Rightarrow> string" where
  "normalize_node_id node_id =
     (let s = strip_parametrized_suffix node_id;
          s' = (if prefix ''test_'' s \<and> occurs '' ('' s then before '' ('' s else s)
      in strip (last (split_on ''::'' s')))"

section \<open>The search\<close>

definition word_end :: "string \<Rightarrow> bool" where
  "word_end rest = (rest = [] \<or> \<not> name_char (hd rest))"

text \<open>
  The loop over the occurrences of \<open>name\<close>: \<open>prev\<close> is the character before the rest of the text. After
  an occurrence that is refused the search goes on behind it.
\<close>

function names_from :: "string \<Rightarrow> char option \<Rightarrow> string \<Rightarrow> bool" where
  "names_from name prev [] = False"
| "names_from name prev (c # cs) =
     (if name \<noteq> [] \<and> prefix name (c # cs) then
        (if word_end (drop (length name) (c # cs)) \<and> (case prev of None \<Rightarrow> True | Some p \<Rightarrow> \<not> name_char p) then True
         else names_from name (Some (last name)) (drop (length name) (c # cs)))
      else names_from name (Some c) cs)"
  by pat_completeness auto
termination
  by (relation "measure (\<lambda>(name, prev, text). length text)") (auto simp: neq_Nil_conv)

definition is_hit :: "string \<Rightarrow> string \<Rightarrow> bool" where
  "is_hit text node_id =
     (let name = normalize_node_id node_id in 3 \<le> length name \<and> names_from name None text)"

definition detect_leaked_node_ids :: "string \<Rightarrow> string list option \<Rightarrow> string list" where
  "detect_leaked_node_ids text absent =
     (if text = [] then []
      else sort (remdups (filter (is_hit text) (case absent of None \<Rightarrow> [] | Some ids \<Rightarrow> ids))))"

section \<open>The dataset\<close>

text \<open>\<open>loads\<close> gives the texts of the true elements of a decoded list, \<open>None\<close> where it decodes to none.\<close>

definition parse_fail_to_pass :: "(string \<Rightarrow> string list option) \<Rightarrow> string \<Rightarrow> string list" where
  "parse_fail_to_pass loads fail_to_pass =
     (let s = strip fail_to_pass; ls = filter (\<lambda>l. l \<noteq> []) (List.map strip (splitlines s))
      in if s = [] then []
         else if prefix ''['' s then (case loads s of Some xs \<Rightarrow> List.map strip xs | None \<Rightarrow> ls)
         else ls)"

text \<open>
  The two patterns matched at the head of an added line: \<open>def\<close>, perhaps after \<open>async\<close>, with a name that
  starts with \<open>test_\<close>, or \<open>class\<close> with one that starts with \<open>Test\<close>.
\<close>

definition after_word :: "string \<Rightarrow> string \<Rightarrow> string option" where
  "after_word w t =
     (if prefix w t \<and> drop (length w) t \<noteq> dropWhile is_space (drop (length w) t)
      then Some (dropWhile is_space (drop (length w) t)) else None)"

definition name_after :: "string \<Rightarrow> string \<Rightarrow> string option" where
  "name_after start t =
     (let w = takeWhile name_char (drop (length start) t)
      in if prefix start t \<and> w \<noteq> [] then Some (start @ w) else None)"

definition defined_name :: "string \<Rightarrow> string option" where
  "defined_name body =
     (let t = (case after_word ''async'' body of Some r \<Rightarrow> r | None \<Rightarrow> body)
      in case Option.bind (after_word ''def'' t) (name_after ''test_'') of
           Some n \<Rightarrow> Some n
         | None \<Rightarrow> Option.bind (after_word ''class'' body) (name_after ''Test''))"

definition added_name :: "string \<Rightarrow> string option" where
  "added_name line = (if prefix ''+'' line then defined_name (dropWhile is_space (tl line)) else None)"

definition added_test_node_ids :: "string \<Rightarrow> string set" where
  "added_test_node_ids test_patch = set (List.map_filter added_name (splitlines test_patch))"

text \<open>\<open>None\<close> is the unknown of a format mismatch.\<close>

definition leak_detectable_via_test_patch ::
    "(string \<Rightarrow> string list option) \<Rightarrow> string \<Rightarrow> string \<Rightarrow> string list option" where
  "leak_detectable_via_test_patch loads test_patch fail_to_pass =
     (let ids = parse_fail_to_pass loads fail_to_pass; added = added_test_node_ids test_patch
      in if ids = [] then Some []
         else if added = {} then Some []
         else (let absent = filter (\<lambda>i. normalize_node_id i \<in> added) ids
               in if absent = [] then None else Some (sort absent)))"

text \<open>The offline pass, over instances with their identifier, repository, base commit and test names.\<close>

record leak_instance =
  li_id :: string
  li_repo :: string
  li_base_commit :: string
  li_fail_to_pass :: string

definition compute_leak_detectable ::
    "(string \<Rightarrow> string list option) \<Rightarrow> (string \<Rightarrow> string \<Rightarrow> string set) \<Rightarrow> leak_instance list \<Rightarrow> string \<Rightarrow> string list option" where
  "compute_leak_detectable loads node_ids_at_base insts =
     foldl (\<lambda>out i. out(li_id i \<mapsto>
         sort (filter (\<lambda>n. n \<notin> node_ids_at_base (li_repo i) (li_base_commit i))
                (parse_fail_to_pass loads (li_fail_to_pass i))))) Map.empty insts"

section \<open>A hit is a whole name\<close>

text \<open>The specification: the name stands in the text between characters that are not part of a name.\<close>

definition stands_in :: "string \<Rightarrow> string \<Rightarrow> bool" where
  "stands_in name text \<longleftrightarrow>
     (\<exists>pre post. text = pre @ name @ post \<and> word_end post \<and> (pre = [] \<or> \<not> name_char (last pre)))"

definition stands_after :: "char option \<Rightarrow> string \<Rightarrow> string \<Rightarrow> bool" where
  "stands_after prev name text \<longleftrightarrow>
     (\<exists>pre post. text = pre @ name @ post \<and> word_end post \<and>
        (if pre = [] then (case prev of None \<Rightarrow> True | Some p \<Rightarrow> \<not> name_char p) else \<not> name_char (last pre)))"

lemma names_from_sound: "names_from name prev tx \<Longrightarrow> stands_after prev name tx"
proof (induction name prev tx rule: names_from.induct)
  case (2 name prev c cs)
  show ?case
  proof (cases "name \<noteq> [] \<and> prefix name (c # cs)")
    case True
    then obtain post where post: "c # cs = name @ post" by (auto simp: prefix_def)
    have d: "drop (length name) (c # cs) = post" by (simp add: post)
    show ?thesis
    proof (cases "word_end post \<and> (case prev of None \<Rightarrow> True | Some p \<Rightarrow> \<not> name_char p)")
      case ok: True
      then show ?thesis unfolding post stands_after_def by (intro exI [of _ "[]"] exI [of _ post]) simp
    next
      case False
      with 2(3) True have "names_from name (Some (last name)) post"
        unfolding names_from.simps(2) d by (simp split: if_splits)
      with 2(1) [unfolded d] True False have "stands_after (Some (last name)) name post" by simp
      then obtain pre q where q: "post = pre @ name @ q" "word_end q"
          "if pre = [] then \<not> name_char (last name) else \<not> name_char (last pre)"
        unfolding stands_after_def option.case by blast
      show ?thesis unfolding post stands_after_def
        using q True by (intro exI [of _ "name @ pre"] exI [of _ q]) (auto split: if_splits)
    qed
  next
    case False
    with 2(3) have "names_from name (Some c) cs" by (auto split: if_splits)
    with 2(2) False obtain pre q where q: "cs = pre @ name @ q" "word_end q"
        "if pre = [] then \<not> name_char c else \<not> name_char (last pre)"
      unfolding stands_after_def option.case by auto
    then show ?thesis unfolding stands_after_def
      by (intro exI [of _ "c # pre"] exI [of _ q]) (auto split: if_splits)
  qed
qed simp


lemma names_from_complete:
  assumes "stands_after prev name tx" "name \<noteq> []" "\<forall>c \<in> set name. name_char c"
  shows "names_from name prev tx"
  using assms
proof (induction name prev tx rule: names_from.induct)
  case (1 name prev)
  then show ?case by (simp add: stands_after_def)
next
  case (2 name prev c cs)
  then obtain pre post where occ: "c # cs = pre @ name @ post" "word_end post"
      "if pre = [] then (case prev of None \<Rightarrow> True | Some p \<Rightarrow> \<not> name_char p) else \<not> name_char (last pre)"
    by (auto simp: stands_after_def)
  show ?case
  proof (cases "prefix name (c # cs)")
    case True
    then obtain rest where rest: "c # cs = name @ rest" by (auto simp: prefix_def)
    have d: "drop (length name) (c # cs) = rest" by (simp add: rest)
    show ?thesis
    proof (cases "word_end rest \<and> (case prev of None \<Rightarrow> True | Some p \<Rightarrow> \<not> name_char p)")
      case False
      have "pre \<noteq> []" using False occ rest by auto
      have "length name \<le> length pre"
      proof (rule ccontr)
        assume "\<not> length name \<le> length pre"
        then have "pre = take (length pre) name"
          using occ(1) rest by (metis append_eq_append_conv_if append_take_drop_id linorder_le_cases take_all)
        with \<open>pre \<noteq> []\<close> 2(5) have "name_char (last pre)" by (metis in_set_takeD last_in_set)
        with occ(3) \<open>pre \<noteq> []\<close> show False by simp
      qed
      then obtain pre' where pre': "pre = name @ pre'"
        using occ(1) rest by (metis append_eq_append_conv_if append_take_drop_id)
      have r: "rest = pre' @ name @ post" using occ(1) rest pre' by simp
      have "\<not> name_char (last pre') \<and> pre' \<noteq> []"
        using occ(3) pre' \<open>pre \<noteq> []\<close> 2(4,5) by (auto simp: last_append split: if_splits)
      then have "stands_after (Some (last name)) name rest"
        unfolding stands_after_def r using occ(2) by (intro exI [of _ pre'] exI [of _ post]) simp
      with 2(1) [unfolded d] True False 2(4,5) have "names_from name (Some (last name)) rest" by simp
      with True False 2(4) show ?thesis unfolding names_from.simps(2) d by simp
    qed (use True 2(4) in \<open>simp add: names_from.simps(2) d del: drop_Suc_Cons\<close>)
  next
    case False
    with occ(1) obtain pre' where pre': "pre = c # pre'" by (cases pre) auto
    with occ have "stands_after (Some c) name cs"
      unfolding stands_after_def by (intro exI [of _ pre'] exI [of _ post]) (auto split: if_splits)
    with 2(2) False 2(4,5) show ?thesis by simp
  qed
qed


lemma stands_after_None: "stands_after None name tx = stands_in name tx"
  by (auto simp: stands_after_def stands_in_def)

lemma set_detect:
  "set (detect_leaked_node_ids tx absent) =
     (if tx = [] then {} else {i \<in> set (case absent of None \<Rightarrow> [] | Some ids \<Rightarrow> ids). is_hit tx i})"
  by (auto simp: detect_leaked_node_ids_def)

lemma stands_in_Nil: "stands_in name [] \<longleftrightarrow> name = []"
  by (auto simp: stands_in_def word_end_def)

lemma hit_sound: "is_hit tx i \<Longrightarrow> 3 \<le> length (normalize_node_id i) \<and> stands_in (normalize_node_id i) tx"
  using names_from_sound by (auto simp: is_hit_def Let_def stands_after_None [symmetric])

lemma hit_complete:
  assumes "3 \<le> length (normalize_node_id i)" "\<forall>c \<in> set (normalize_node_id i). name_char c"
    "stands_in (normalize_node_id i) tx"
  shows "is_hit tx i \<and> tx \<noteq> []"
proof -
  have "normalize_node_id i \<noteq> []" using assms(1) by auto
  then show ?thesis
    using assms by (auto simp: is_hit_def Let_def stands_in_Nil stands_after_None intro: names_from_complete)
qed

text \<open>
  Every name the search reports is one of the absent names, is at least three characters long and
  stands in the text as a whole name; conversely an absent name that is made of the characters of a
  name, long enough and standing in the text is reported. The report is sorted and free of repetitions.
\<close>

theorem leaks_are_whole_names:
  "(\<forall>i \<in> set (detect_leaked_node_ids tx (Some ids)).
      i \<in> set ids \<and> 3 \<le> length (normalize_node_id i) \<and> stands_in (normalize_node_id i) tx) \<and>
   (\<forall>i \<in> set ids. 3 \<le> length (normalize_node_id i) \<and> (\<forall>c \<in> set (normalize_node_id i). name_char c) \<and>
      stands_in (normalize_node_id i) tx \<longrightarrow> i \<in> set (detect_leaked_node_ids tx (Some ids))) \<and>
   sorted (detect_leaked_node_ids tx (Some ids)) \<and> distinct (detect_leaked_node_ids tx (Some ids))"
proof (intro conjI)
  show "\<forall>i \<in> set (detect_leaked_node_ids tx (Some ids)).
      i \<in> set ids \<and> 3 \<le> length (normalize_node_id i) \<and> stands_in (normalize_node_id i) tx"
    using hit_sound by (auto simp: set_detect split: if_splits)
  show "\<forall>i \<in> set ids. 3 \<le> length (normalize_node_id i) \<and> (\<forall>c \<in> set (normalize_node_id i). name_char c) \<and>
      stands_in (normalize_node_id i) tx \<longrightarrow> i \<in> set (detect_leaked_node_ids tx (Some ids))"
  proof (intro ballI impI)
    fix i assume "i \<in> set ids" "3 \<le> length (normalize_node_id i) \<and> (\<forall>c \<in> set (normalize_node_id i). name_char c) \<and>
      stands_in (normalize_node_id i) tx"
    with hit_complete [of i tx] show "i \<in> set (detect_leaked_node_ids tx (Some ids))" by (simp add: set_detect)
  qed
qed (simp_all add: detect_leaked_node_ids_def)

lemma name_after_chars:
  assumes "name_after start t = Some n" "\<forall>c \<in> set start. name_char c"
  shows "\<forall>c \<in> set n. name_char c" "length start < length n"
  using assms by (auto simp: name_after_def Let_def split: if_splits dest: set_takeWhileD)

lemma defined_name_chars:
  assumes "defined_name body = Some n"
  shows "(\<forall>c \<in> set n. name_char c) \<and> 3 \<le> length n"
proof -
  have 1: "\<forall>c \<in> set ''test_''. name_char c" "\<forall>c \<in> set ''Test''. name_char c"
    by (simp_all add: name_char_def name_start_def)
  from assms obtain t where "name_after ''test_'' t = Some n \<or> name_after ''Test'' t = Some n"
    by (auto simp: defined_name_def Let_def bind_eq_Some_conv split: option.splits)
  with name_after_chars [OF _ 1(1)] name_after_chars [OF _ 1(2)] show ?thesis by fastforce
qed

lemma added_chars:
  assumes "n \<in> added_test_node_ids tp"
  shows "(\<forall>c \<in> set n. name_char c) \<and> 3 \<le> length n"
  using assms defined_name_chars
  by (auto simp: added_test_node_ids_def added_name_def map_filter_def split: if_splits option.splits)

text \<open>
  C34: On the names the dataset pass finds absent the search is exact: of the names it calls
  leak-detectable for an instance, it reports precisely those that stand in the text as whole names.
\<close>

theorem detectable_leaks_are_found:
  assumes "leak_detectable_via_test_patch loads test_patch fail_to_pass = Some ids"
  shows "set (detect_leaked_node_ids tx (Some ids)) = {i \<in> set ids. stands_in (normalize_node_id i) tx}"
proof -
  have "\<forall>i \<in> set ids. normalize_node_id i \<in> added_test_node_ids test_patch"
    using assms by (auto simp: leak_detectable_via_test_patch_def Let_def split: if_splits)
  with added_chars have "\<forall>i \<in> set ids. is_hit tx i \<and> tx \<noteq> [] \<longleftrightarrow> stands_in (normalize_node_id i) tx"
    using hit_sound hit_complete by (metis (no_types, lifting) is_hit_def names_from.simps(1))
  then show ?thesis by (auto simp: set_detect)
qed

text \<open>
  The dataset pass answers unknown exactly when the instance has test names, the test patch adds
  definitions and none of the names is among them; and what it calls absent is, in order, exactly the
  names whose bare form an added line defines.
\<close>

theorem absent_names_are_added_ones:
  "(leak_detectable_via_test_patch loads tp ftp = None \<longleftrightarrow>
      parse_fail_to_pass loads ftp \<noteq> [] \<and> added_test_node_ids tp \<noteq> {} \<and>
      (\<forall>i \<in> set (parse_fail_to_pass loads ftp). normalize_node_id i \<notin> added_test_node_ids tp)) \<and>
   (\<forall>ids. leak_detectable_via_test_patch loads tp ftp = Some ids \<longrightarrow>
      set ids = {i \<in> set (parse_fail_to_pass loads ftp). normalize_node_id i \<in> added_test_node_ids tp} \<and> sorted ids)"
  by (auto simp: leak_detectable_via_test_patch_def Let_def filter_empty_conv)

definition rewritten_def :: string where
  "rewritten_def = ''-def test_a(x):'' @ [CHR 0x0A] @ ''+def test_a(x, y):''"

text \<open>
  Two blind spots. A name with characters that are not part of a name can be missed, because the
  search continues behind a refused occurrence that overlaps the real one; and a test whose definition
  line the patch only rewrites counts as absent, although the repository has it.
\<close>

theorem leak_blind_spots:
  "detect_leaked_node_ids ''xa b a b a'' (Some [''a b a'']) = [] \<and> stands_in ''a b a'' ''xa b a b a'' \<and>
   leak_detectable_via_test_patch (\<lambda>_. None) rewritten_def ''test_a'' = Some [''test_a'']"
proof (intro conjI)
  show "detect_leaked_node_ids ''xa b a b a'' (Some [''a b a'']) = []" by code_simp
  show "stands_in ''a b a'' ''xa b a b a''"
    unfolding stands_in_def by (intro exI [of _ "''xa b ''"] exI [of _ "[]"]) (simp add: word_end_def name_char_def name_start_def is_digit_def)
  show "leak_detectable_via_test_patch (\<lambda>_. None) rewritten_def ''test_a'' = Some [''test_a'']" by code_simp
qed

theorem leaks_are_whole_names_witness:
  "detect_leaked_node_ids ''see test_b'' (Some [''m.py::test_b[x]'']) = [''m.py::test_b[x]''] \<and> stands_in ''test_b'' ''see test_b''"
proof -
  have d: "detect_leaked_node_ids ''see test_b'' (Some [''m.py::test_b[x]'']) = [''m.py::test_b[x]'']" by code_simp
  have n: "normalize_node_id ''m.py::test_b[x]'' = ''test_b''" by code_simp
  from leaks_are_whole_names [of "''see test_b''" "[''m.py::test_b[x]'']"] show ?thesis by (simp add: d n)
qed

theorem detectable_leaks_are_found_witness:
  "set (detect_leaked_node_ids ''see test_a'' (Some [''test_a''])) = {i \<in> {''test_a''}. stands_in (normalize_node_id i) ''see test_a''}"
proof -
  have "leak_detectable_via_test_patch (\<lambda>_. None) rewritten_def ''test_a'' = Some [''test_a'']" by code_simp
  from detectable_leaks_are_found [OF this, of "''see test_a''"] show ?thesis by simp
qed

theorem absent_names_are_added_ones_witness:
  "leak_detectable_via_test_patch (\<lambda>_. None) rewritten_def ''test_z'' = None"
proof -
  have "parse_fail_to_pass (\<lambda>_. None) ''test_z'' = [''test_z'']" "added_test_node_ids rewritten_def = {''test_a''}"
    "normalize_node_id ''test_z'' = ''test_z''"
    by code_simp+
  with absent_names_are_added_ones [of "\<lambda>_. None" rewritten_def "''test_z''"] show ?thesis by simp
qed

end
