(* ===== verification/Grading.thy ===== *)
theory Grading
  imports Text_Lines Shim_Requests
begin

text \<open>
  Grading: what \<open>evaluation/swebench_runner.py\<close> adds around the official harness. The files of the
  hidden tests are stripped from the patch, the harness runs, and its logs and its report are turned
  into an output; with it the limits of \<open>grade_limits.py\<close> and the progress of \<open>grade_progress.py\<close>.

  The harness, Docker and the file system are arguments: what the run returned, the number of
  out-of-memory events, and the files of the run's log directory. Logging, the image pull, the
  resource sampler and the wall clock are left out.
\<close>

section \<open>Limits of the grading container\<close>

definition DEFAULT_GRADE_MEM_LIMIT_MB :: int where "DEFAULT_GRADE_MEM_LIMIT_MB = 3072"

record grade_limits =
  gl_mem_limit_bytes :: int
  gl_nano_cpus :: "int option"

definition limits_enabled :: "grade_limits \<Rightarrow> bool" where
  "limits_enabled l \<longleftrightarrow> 0 < gl_mem_limit_bytes l \<or> gl_nano_cpus l \<noteq> None"

text \<open>The errors: a \<open>GradeLimitError\<close>, or another exception, which \<open>int\<close> raises on a NaN or an infinity.\<close>

datatype grade_limit_error = Grade_limit_error | Other_error

definition cpus_of :: "string \<Rightarrow> grade_limit_error + int option" where
  "cpus_of raw =
     (if raw = [] then Inr None
      else case py_float raw of
          None \<Rightarrow> Inl Grade_limit_error
        | Some NegInf \<Rightarrow> Inl Grade_limit_error
        | Some (Fin x) \<Rightarrow> if x \<le> 0 then Inl Grade_limit_error else Inr (Some (py_int (x * 1000000000)))
        | Some _ \<Rightarrow> Inl Other_error)"

definition limits_from_env :: "(string \<Rightarrow> string option) \<Rightarrow> grade_limit_error + grade_limits" where
  "limits_from_env env =
     (let raw_mem = strip (case env ''EVAL_GRADE_MEM_LIMIT_MB'' of Some s \<Rightarrow> s | None \<Rightarrow> []);
          raw_cpus = strip (case env ''EVAL_GRADE_CPUS'' of Some s \<Rightarrow> s | None \<Rightarrow> [])
      in case (if raw_mem = [] then Some DEFAULT_GRADE_MEM_LIMIT_MB else py_int_text raw_mem) of
           None \<Rightarrow> Inl Grade_limit_error
         | Some mem_mb \<Rightarrow>
             if mem_mb < 0 then Inl Grade_limit_error
             else (case cpus_of raw_cpus of
                     Inl e \<Rightarrow> Inl e
                   | Inr cpus \<Rightarrow> Inr \<lparr>gl_mem_limit_bytes = mem_mb * 2 ^ 20, gl_nano_cpus = cpus\<rparr>))"

text \<open>The wrapped \<open>create_container\<close>, on the numeric keys of the host configuration.\<close>

definition setdefault :: "string \<Rightarrow> int \<Rightarrow> (string \<times> int) list \<Rightarrow> (string \<times> int) list" where
  "setdefault k v hc = (if map_of hc k = None then hc @ [(k, v)] else hc)"

definition limited_host_config :: "grade_limits \<Rightarrow> (string \<times> int) list \<Rightarrow> (string \<times> int) list" where
  "limited_host_config l hc =
     (let hc1 = (if gl_mem_limit_bytes l \<noteq> 0
                 then setdefault ''MemorySwap'' (gl_mem_limit_bytes l) (setdefault ''Memory'' (gl_mem_limit_bytes l) hc)
                 else hc)
      in case gl_nano_cpus l of None \<Rightarrow> hc1 | Some n \<Rightarrow> setdefault ''NanoCpus'' n hc1)"

text \<open>
  \<open>apply_grade_limits\<close>: what happens to the host configuration of a container created through the
  client. \<open>seam\<close> tells whether the client has the call to wrap.
\<close>

definition apply_grade_limits :: "grade_limit_error + grade_limits \<Rightarrow> bool \<Rightarrow> grade_limit_error + ((string \<times> int) list \<Rightarrow> (string \<times> int) list)" where
  "apply_grade_limits limits seam =
     (case limits of
        Inl e \<Rightarrow> Inl e
      | Inr l \<Rightarrow> if \<not> limits_enabled l then Inr id
                 else if \<not> seam then Inl Grade_limit_error else Inr (limited_host_config l))"

section \<open>The graded patch\<close>

definition header_path :: "string \<Rightarrow> string option" where
  "header_path line =
     (if prefix ''--- a/'' line then Some (drop 6 line)
      else if prefix ''+++ b/'' line then Some (drop 6 line) else None)"

definition parse_patch_paths :: "string \<Rightarrow> string set" where
  "parse_patch_paths patch = set (List.map_filter header_path (splitlines patch))"

definition strip_quotes :: "string \<Rightarrow> string" where
  "strip_quotes s = rev (dropWhile (\<lambda>c. c = CHR 0x22) (rev (dropWhile (\<lambda>c. c = CHR 0x22) s)))"

definition block_paths :: "string \<Rightarrow> string set" where
  "block_paths header =
     (let rest = drop (length ''diff --git '') header; a = before '' b/'' rest; b = drop (length a + 3) rest
      in if \<not> occurs '' b/'' rest then {}
         else ({strip_quotes (strip a)} \<union> (if b = [] then {} else {strip_quotes (strip b)})) - {[], ''/dev/null''})"

definition is_header :: "string \<Rightarrow> bool" where
  "is_header line = prefix ''diff --git '' line"

text \<open>The blocks: what stands before the first header, and from each header to the next.\<close>

fun file_blocks :: "string list \<Rightarrow> string list \<Rightarrow> string list list" where
  "file_blocks cur [] = [cur]"
| "file_blocks cur (l # ls) = (if is_header l then cur # file_blocks [l] ls else file_blocks (cur @ [l]) ls)"

definition blocked_of :: "string set \<Rightarrow> string list \<Rightarrow> string set" where
  "blocked_of blocked block =
     (if block \<noteq> [] \<and> is_header (hd block) then block_paths (hd block) \<inter> blocked else {})"

fun join_lines :: "string list \<Rightarrow> string" where
  "join_lines [] = []"
| "join_lines [l] = l"
| "join_lines (l # ls) = l @ CHR 0x0A # join_lines ls"

definition rstrip_newlines :: "string \<Rightarrow> string" where
  "rstrip_newlines s = rev (dropWhile (\<lambda>c. c = CHR 0x0A) (rev s))"

definition strip_patch_file_blocks :: "string \<Rightarrow> string set \<Rightarrow> string \<times> string set" where
  "strip_patch_file_blocks patch blocked =
     (if patch = [] \<or> blocked = {} \<or> \<not> occurs ''diff --git '' patch then (patch, {})
      else (let blocks = file_blocks [] (splitlines patch);
                kept = List.concat (filter (\<lambda>b. blocked_of blocked b = {}) blocks);
                stripped = \<Union> (blocked_of blocked ` set blocks)
            in (rstrip_newlines (join_lines kept) @ [CHR 0x0A], stripped)))"

section \<open>What a run leaves behind\<close>

text \<open>
  The harness package: the names of its markers and of its output file, and its reader of the test
  command's exit code.
\<close>

record swebench =
  sb_start_mark :: string
  sb_end_mark :: string
  sb_output_file :: string
  sb_exit_code :: "string \<Rightarrow> int option"

text \<open>A run: what it returned (\<open>None\<close> is no result), the events, the log files (\<open>None\<close> is an unreadable one), the report.\<close>

record grade_run =
  gn_returned :: "json option"
  gn_oom_events :: nat
  gn_logs :: "(string \<times> string option) list"
  gn_report :: "string option"

record run_result =
  hr_resolved :: bool
  hr_patch_applied :: bool
  hr_infra_failure :: bool
  hr_infra_reason :: json

text \<open>\<open>_normalise_run_result\<close>; \<open>None\<close> is a run that did not complete.\<close>

definition normalise_run_result :: "json option \<Rightarrow> string \<Rightarrow> run_result option" where
  "normalise_run_result raw instance_id =
     (case raw of
        Some (JsObj report) \<Rightarrow>
          (case obj_get report instance_id of
             JsObj entry \<Rightarrow>
               Some \<lparr>hr_resolved = js_truth (obj_get entry ''resolved''),
                 hr_patch_applied = js_truth (obj_get entry ''patch_successfully_applied''),
                 hr_infra_failure = js_truth (obj_get entry ''infra_failure''),
                 hr_infra_reason = get_default entry ''infra_failure_reason'' (JsStr [])\<rparr>
           | _ \<Rightarrow> None)
      | _ \<Rightarrow> None)"

definition output_text :: "swebench \<Rightarrow> grade_run \<Rightarrow> string option" where
  "output_text sb run = Option.bind (map_of (gn_logs run) (sb_output_file sb)) id"

definition detect_truncated_test_run :: "swebench \<Rightarrow> grade_run \<Rightarrow> bool" where
  "detect_truncated_test_run sb run =
     (case output_text sb run of
        None \<Rightarrow> False
      | Some t \<Rightarrow> occurs (sb_start_mark sb) t \<and> \<not> occurs (sb_end_mark sb) t)"

definition TIMEOUT_MARK :: string where "TIMEOUT_MARK = ''Timeout error:''"

definition detect_timeout :: "swebench \<Rightarrow> grade_run \<Rightarrow> string option" where
  "detect_timeout sb run =
     (case output_text sb run of
        None \<Rightarrow> None
      | Some t \<Rightarrow>
          find (\<lambda>l. prefix TIMEOUT_MARK l)
            (List.map strip (rev (splitlines (drop (length t - 2000) t)))))"

definition gold_error :: "string set \<Rightarrow> string \<Rightarrow> bool" where
  "gold_error test_paths line \<longleftrightarrow>
     prefix ''error: '' line \<and>
     strip_quotes (strip (takeWhile (\<lambda>c. c \<noteq> CHR '':'') (drop (length ''error: '') line))) \<in> test_paths"

definition detect_gold_test_apply_failure :: "grade_run \<Rightarrow> string set \<Rightarrow> (string \<times> string) option" where
  "detect_gold_test_apply_failure run test_paths =
     (if test_paths = {} then None
      else find (\<lambda>(file, line). gold_error test_paths line)
             (List.concat (List.map (\<lambda>file. case map_of (gn_logs run) file of
                  Some (Some t) \<Rightarrow> List.map (Pair file) (splitlines t) | _ \<Rightarrow> [])
                (sort (remdups (List.map fst (gn_logs run)))))))"

section \<open>The output\<close>

datatype grade_error = Out_of_memory nat | Truncated_output | Gold_not_applied string string | Test_timeout string | Environment_fault json

record grading_output =
  go_resolved :: bool
  go_error :: "grade_error option"
  go_report :: string
  go_touches_tests :: bool
  go_stripped :: "string list"
  go_invalid :: bool
  go_timed_out :: bool
  go_oom_killed :: bool
  go_infra_failure :: bool
  go_infra_reason :: json
  go_exit_code :: "int option"

datatype graded = Verdict grading_output | Not_completed "grade_error option" | No_docker | Missing_columns "string list" | Limit_error grade_limit_error

text \<open>The row of the instance: the columns the run needs and the patch of the hidden tests.\<close>

record grade_row =
  gw_columns :: "(string \<times> string) list"
  gw_test_patch :: string

definition NEEDED_COLUMNS :: "string list" where
  "NEEDED_COLUMNS = [''image'', ''eval_script'', ''log_parser'', ''eval_type'']"

definition missing_columns :: "grade_row \<Rightarrow> string list" where
  "missing_columns w = filter (\<lambda>k. case map_of (gw_columns w) k of None \<Rightarrow> True | Some v \<Rightarrow> v = []) NEEDED_COLUMNS"

definition touches_tests :: "string \<Rightarrow> string \<Rightarrow> bool" where
  "touches_tests patch test_patch \<longleftrightarrow>
     test_patch \<noteq> [] \<and> patch \<noteq> [] \<and> parse_patch_paths patch \<inter> parse_patch_paths test_patch \<noteq> {}"

definition plain_output :: "string \<Rightarrow> grade_row \<Rightarrow> grade_run \<Rightarrow> grading_output" where
  "plain_output patch w run =
     \<lparr>go_resolved = False, go_error = None, go_report = (case gn_report run of Some t \<Rightarrow> t | None \<Rightarrow> ''{}''),
      go_touches_tests = touches_tests patch (gw_test_patch w),
      go_stripped = sorted_list_of_set (snd (strip_patch_file_blocks patch (parse_patch_paths (gw_test_patch w)))),
      go_invalid = False, go_timed_out = False, go_oom_killed = False, go_infra_failure = False,
      go_infra_reason = JsStr [], go_exit_code = None\<rparr>"

definition oom_evidence :: "swebench \<Rightarrow> grade_run \<Rightarrow> run_result option \<Rightarrow> grade_error option" where
  "oom_evidence sb run res =
     (if 0 < gn_oom_events run then Some (Out_of_memory (gn_oom_events run))
      else if res \<noteq> None \<and> detect_truncated_test_run sb run then Some Truncated_output else None)"

definition read_test_exit_code :: "swebench \<Rightarrow> grade_run \<Rightarrow> int option" where
  "read_test_exit_code sb run = Option.bind (output_text sb run) (sb_exit_code sb)"

text \<open>From the run to the output, in the order of the code.\<close>

definition judge_run :: "swebench \<Rightarrow> string \<Rightarrow> string \<Rightarrow> grade_row \<Rightarrow> grade_run \<Rightarrow> graded" where
  "judge_run sb instance_id patch w run =
     (let res = normalise_run_result (gn_returned run) instance_id;
          base = plain_output patch w run;
          oom = oom_evidence sb run res
      in if oom \<noteq> None \<and> res \<noteq> None then Verdict (base\<lparr>go_error := oom, go_oom_killed := True\<rparr>)
         else case detect_gold_test_apply_failure run (parse_patch_paths (gw_test_patch w)) of
             Some (file, line) \<Rightarrow> Verdict (base\<lparr>go_error := Some (Gold_not_applied file (strip line)), go_invalid := True\<rparr>)
           | None \<Rightarrow>
               (case res of
                  None \<Rightarrow>
                    (case detect_timeout sb run of
                       Some line \<Rightarrow> Verdict (base\<lparr>go_error := Some (Test_timeout line), go_timed_out := True\<rparr>)
                     | None \<Rightarrow> Not_completed oom)
                | Some r \<Rightarrow>
                    Verdict (base\<lparr>go_resolved := (hr_resolved r \<and> \<not> hr_infra_failure r),
                        go_error := (if hr_infra_failure r then Some (Environment_fault (js_or (hr_infra_reason r) (JsStr []))) else None),
                        go_infra_failure := hr_infra_failure r, go_infra_reason := js_or (hr_infra_reason r) (JsStr []),
                        go_exit_code := read_test_exit_code sb run\<rparr>)))"

text \<open>
  \<open>grade\<close>: the preconditions, then the run on the stripped patch. \<open>harness\<close> runs a patch under the
  limits given.
\<close>

definition grade ::
    "swebench \<Rightarrow> bool \<Rightarrow> (string \<Rightarrow> string option) \<Rightarrow> bool \<Rightarrow> (string \<Rightarrow> ((string \<times> int) list \<Rightarrow> (string \<times> int) list) \<Rightarrow> grade_run) \<Rightarrow>
     string \<Rightarrow> string \<Rightarrow> grade_row \<Rightarrow> graded" where
  "grade sb docker env seam harness instance_id patch w =
     (if \<not> docker then No_docker
      else if missing_columns w \<noteq> [] then Missing_columns (missing_columns w)
      else case apply_grade_limits (limits_from_env env) seam of
          Inl e \<Rightarrow> Limit_error e
        | Inr limits \<Rightarrow>
            judge_run sb instance_id patch w
              (harness (fst (strip_patch_file_blocks patch (parse_patch_paths (gw_test_patch w)))) limits))"


section \<open>Progress of a run\<close>

definition LOG_EVERY_S :: real where "LOG_EVERY_S = 60"
definition LAST_LINE_MAX :: nat where "LAST_LINE_MAX = 200"

record grade_progress =
  pg_bytes :: nat
  pg_lines :: nat
  pg_last_line :: string
  pg_partial :: string
  pg_finished :: bool
  pg_last_output :: real
  pg_last_silence :: real

definition new_progress :: "real \<Rightarrow> grade_progress" where
  "new_progress now = \<lparr>pg_bytes = 0, pg_lines = 0, pg_last_line = [], pg_partial = [], pg_finished = False,
     pg_last_output = now, pg_last_silence = now\<rparr>"

definition rstrip_cr :: "string \<Rightarrow> string" where
  "rstrip_cr s = rev (dropWhile (\<lambda>c. c = CHR 0x0D) (rev s))"

definition shown_line :: "string list \<Rightarrow> string option" where
  "shown_line whole =
     map_option (take LAST_LINE_MAX) (find (\<lambda>l. strip l \<noteq> []) (List.map rstrip_cr (rev whole)))"

definition feed :: "real \<Rightarrow> string \<Rightarrow> grade_progress \<Rightarrow> grade_progress" where
  "feed now chunk p =
     (if chunk = [] then p
      else (let parts = split_on [CHR 0x0A] (pg_partial p @ chunk); whole = butlast parts
            in p\<lparr>pg_last_output := now, pg_bytes := pg_bytes p + length chunk, pg_partial := last parts,
                 pg_lines := pg_lines p + length whole,
                 pg_last_line := (case shown_line whole of Some l \<Rightarrow> l | None \<Rightarrow> pg_last_line p)\<rparr>))"

text \<open>\<open>bytes.strip()\<close>, which knows fewer spaces than \<open>str.strip()\<close>.\<close>

definition is_byte_space :: "char \<Rightarrow> bool" where
  "is_byte_space c \<longleftrightarrow> c \<in> {CHR 0x20, CHR 0x09, CHR 0x0A, CHR 0x0D, CHR 0x0B, CHR 0x0C}"

definition strip_bytes :: "string \<Rightarrow> string" where
  "strip_bytes s = rev (dropWhile is_byte_space (rev (dropWhile is_byte_space s)))"

definition finish_progress :: "grade_progress \<Rightarrow> grade_progress" where
  "finish_progress p =
     (let q = p\<lparr>pg_finished := True\<rparr>
      in if strip_bytes (pg_partial p) = [] then q
         else q\<lparr>pg_lines := pg_lines p + 1, pg_last_line := take LAST_LINE_MAX (pg_partial p), pg_partial := []\<rparr>)"

definition maybe_log_silence :: "real \<Rightarrow> grade_progress \<Rightarrow> bool \<times> grade_progress" where
  "maybe_log_silence now p =
     (if pg_finished p \<or> now - pg_last_output p < LOG_EVERY_S \<or> now - pg_last_silence p < LOG_EVERY_S then (False, p)
      else (True, p\<lparr>pg_last_silence := now\<rparr>))"

section \<open>The patch that is graded\<close>

lemma file_blocks_concat: "List.concat (file_blocks cur ls) = cur @ ls"
  by (induction cur ls rule: file_blocks.induct) auto

lemma file_blocks_headers:
  assumes "b \<in> set (file_blocks cur ls)" "\<forall>l \<in> set (tl cur). \<not> is_header l"
  shows "\<forall>l \<in> set (tl b). \<not> is_header l"
  using assms
proof (induction cur ls rule: file_blocks.induct)
  case (2 cur l ls)
  show ?case
  proof (cases "is_header l")
    case True
    with 2(1,3,4) show ?thesis by auto
  next
    case False
    with 2(4) have "\<forall>x \<in> set (tl (cur @ [l])). \<not> is_header x" by (cases cur) auto
    with 2(2,3) False show ?thesis by simp
  qed
qed simp

lemma header_of_block:
  assumes "b \<in> set (file_blocks [] ls)" "l \<in> set b" "is_header l"
  shows "b \<noteq> [] \<and> hd b = l"
proof -
  have "\<forall>x \<in> set (tl b). \<not> is_header x" by (rule file_blocks_headers [OF assms(1)]) simp
  with assms(2,3) show ?thesis by (cases b) auto
qed

lemma splitlines_clean: "\<forall>l \<in> set (splitlines tx). \<forall>c \<in> set l. \<not> is_line_break c"
proof (induction tx rule: splitlines.induct)
  case (2 c cs)
  show ?case
  proof (cases "c = CHR 0x0D \<and> prefix [CHR 0x0A] cs")
    case True
    with 2(1) show ?thesis by simp
  next
    case no: False
    show ?thesis
    proof (cases "is_line_break c")
      case True
      with 2(2) no show ?thesis by auto
    next
      case False
      with 2(3) no show ?thesis by (cases "splitlines cs") auto
    qed
  qed
qed simp

lemma splitlines_line:
  "\<forall>c \<in> set l. \<not> is_line_break c \<Longrightarrow> splitlines (l @ CHR 0x0A # r) = l # splitlines r"
proof (induction l)
  case (Cons c l)
  then have "c \<noteq> CHR 0x0D" by (auto simp: is_line_break_def)
  with Cons show ?case by simp
qed (simp add: is_line_break_def)

lemma splitlines_join:
  "\<forall>l \<in> set ls. \<forall>c \<in> set l. \<not> is_line_break c \<Longrightarrow> ls \<noteq> [] \<Longrightarrow> splitlines (join_lines ls @ [CHR 0x0A]) = ls"
  by (induction ls rule: join_lines.induct) (simp_all add: splitlines_line)

lemma splitlines_append_newline:
  "splitlines (u @ CHR 0x0A # v) = splitlines (u @ [CHR 0x0A]) @ splitlines v"
proof (induction u rule: splitlines.induct)
  case (2 c cs)
  show ?case
  proof (cases "c = CHR 0x0D \<and> prefix [CHR 0x0A] cs")
    case True
    then obtain cs' where "cs = CHR 0x0A # cs'" by (auto simp: prefix_def)
    with True 2(1) show ?thesis by simp
  next
    case False
    have n: "splitlines (cs @ [CHR 0x0A]) \<noteq> []" by (cases cs) (auto split: list.splits)
    show ?thesis
    proof (cases "c = CHR 0x0D \<and> cs = []")
      case True
      then show ?thesis by (simp add: is_line_break_def)
    next
      case no: False
      with False have h: "\<not> (c = CHR 0x0D \<and> prefix [CHR 0x0A] (cs @ w))" for w by (cases cs) auto
      show ?thesis
        using 2(2) 2(3) False h [of "CHR 0x0A # v"] h [of "[CHR 0x0A]"] n
        by (cases "is_line_break c") (auto split: list.splits simp del: prefix_code)
    qed
  qed
qed (simp add: is_line_break_def)


lemma rstrip_split: "\<exists>n. s = rstrip_newlines s @ replicate n (CHR 0x0A)"
proof -
  have "\<forall>c \<in> set (takeWhile (\<lambda>c. c = CHR 0x0A) (rev s)). c = CHR 0x0A" by (auto dest: set_takeWhileD)
  then have t: "takeWhile (\<lambda>c. c = CHR 0x0A) (rev s) = replicate (length (takeWhile (\<lambda>c. c = CHR 0x0A) (rev s))) (CHR 0x0A)"
    by (metis replicate_eqI)
  have "s = rev (takeWhile (\<lambda>c. c = CHR 0x0A) (rev s) @ dropWhile (\<lambda>c. c = CHR 0x0A) (rev s))" by simp
  then have "s = rstrip_newlines s @ rev (takeWhile (\<lambda>c. c = CHR 0x0A) (rev s))"
    by (simp only: rstrip_newlines_def rev_append)
  with t show ?thesis by (metis rev_replicate)
qed

lemma lines_of_rstrip: "set (splitlines (rstrip_newlines s @ [CHR 0x0A])) \<subseteq> set (splitlines (s @ [CHR 0x0A]))"
proof -
  obtain n where n: "s = rstrip_newlines s @ replicate n (CHR 0x0A)" using rstrip_split by blast
  then have "s @ [CHR 0x0A] = rstrip_newlines s @ CHR 0x0A # replicate n (CHR 0x0A)"
    by (metis append.assoc append_Cons append_Nil replicate_append_same)
  then show ?thesis by (metis Un_upper1 set_append splitlines_append_newline)
qed

text \<open>The rewriting of a patch that is rewritten at all.\<close>

definition reworked :: "string \<Rightarrow> string set \<Rightarrow> bool" where
  "reworked patch blocked \<longleftrightarrow> patch \<noteq> [] \<and> blocked \<noteq> {} \<and> occurs ''diff --git '' patch"

definition kept_lines :: "string \<Rightarrow> string set \<Rightarrow> string list" where
  "kept_lines patch blocked =
     List.concat (filter (\<lambda>b. blocked_of blocked b = {}) (file_blocks [] (splitlines patch)))"

lemma strip_rewrites:
  "reworked patch blocked \<Longrightarrow>
     fst (strip_patch_file_blocks patch blocked) = rstrip_newlines (join_lines (kept_lines patch blocked)) @ [CHR 0x0A]"
  "\<not> reworked patch blocked \<Longrightarrow> strip_patch_file_blocks patch blocked = (patch, {})"
  by (auto simp: strip_patch_file_blocks_def reworked_def kept_lines_def Let_def)

lemma kept_lines_subset: "set (kept_lines patch blocked) \<subseteq> set (splitlines patch)"
proof -
  have "set (kept_lines patch blocked) \<subseteq> set (List.concat (file_blocks [] (splitlines patch)))"
    by (auto simp: kept_lines_def)
  then show ?thesis by (simp add: file_blocks_concat)
qed

lemma kept_lines_clean: "\<forall>l \<in> set (kept_lines patch blocked). \<forall>c \<in> set l. \<not> is_line_break c"
  using kept_lines_subset splitlines_clean by blast

lemma graded_lines:
  assumes "reworked patch blocked"
  shows "set (splitlines (fst (strip_patch_file_blocks patch blocked))) \<subseteq> insert [] (set (kept_lines patch blocked))"
proof (cases "kept_lines patch blocked = []")
  case True
  then show ?thesis by (simp add: strip_rewrites(1) [OF assms] rstrip_newlines_def is_line_break_def)
next
  case False
  have "set (splitlines (rstrip_newlines (join_lines (kept_lines patch blocked)) @ [CHR 0x0A]))
      \<subseteq> set (splitlines (join_lines (kept_lines patch blocked) @ [CHR 0x0A]))"
    by (rule lines_of_rstrip)
  then show ?thesis
    by (auto simp: strip_rewrites(1) [OF assms] splitlines_join [OF kept_lines_clean False])
qed

lemma kept_header:
  assumes "l \<in> set (kept_lines patch blocked)" "is_header l"
  shows "block_paths l \<inter> blocked = {}"
proof -
  obtain b where b: "b \<in> set (file_blocks [] (splitlines patch))" "blocked_of blocked b = {}" "l \<in> set b"
    using assms(1) by (auto simp: kept_lines_def)
  from header_of_block [OF b(1,3) assms(2)] b(2) assms(2) show ?thesis by (auto simp: blocked_of_def)
qed

lemma occurs_iff: "occurs pat tx \<longleftrightarrow> (\<exists>pre post. tx = pre @ pat @ post)"
proof (induction tx)
  case (Cons c cs)
  have "(\<exists>pre post. c # cs = pre @ pat @ post) \<longleftrightarrow> prefix pat (c # cs) \<or> (\<exists>pre post. cs = pre @ pat @ post)"
    unfolding prefix_def by (metis append_Cons append_Nil append_eq_Cons_conv)
  with Cons show ?case by simp
qed auto

lemma first_line_prefix: "splitlines tx = m # ms \<Longrightarrow> prefix m tx"
proof (induction tx arbitrary: m ms rule: splitlines.induct)
  case (2 c cs)
  show ?case
  proof (cases "c = CHR 0x0D \<and> prefix [CHR 0x0A] cs \<or> is_line_break c")
    case True
    with 2(4) show ?thesis by (auto split: if_splits)
  next
    case False
    with 2(3) 2(4) show ?thesis by (cases "splitlines cs") auto
  qed
qed simp

lemma line_occurs: "l \<in> set (splitlines tx) \<Longrightarrow> occurs l tx"
proof (induction tx arbitrary: l rule: splitlines.induct)
  case (2 c cs)
  show ?case
  proof (cases "c = CHR 0x0D \<and> prefix [CHR 0x0A] cs")
    case True
    then obtain cs' where cs: "cs = CHR 0x0A # cs'" by (auto simp: prefix_def)
    from True cs 2(4) have "l = [] \<or> l \<in> set (splitlines cs')" by simp
    with 2(1) [of l] True cs show ?thesis by auto
  next
    case no: False
    show ?thesis
    proof (cases "is_line_break c")
      case True
      with 2(2) [of l] 2(4) no show ?thesis by (auto split: if_splits)
    next
      case False
      show ?thesis
      proof (cases "splitlines cs")
        case Nil
        then have "cs = []" by (cases cs) (auto split: if_splits list.splits)
        with 2(4) no False show ?thesis by auto
      next
        case (Cons m ms)
        with 2(4) no False have "l = c # m \<or> l \<in> set ms" by auto
        moreover have "occurs l cs" if "l \<in> set ms" using 2(3) [of l] no False Cons that by auto
        moreover have "prefix m cs" by (rule first_line_prefix [OF Cons])
        ultimately show ?thesis by auto
      qed
    qed
  qed
qed simp


lemma blocked_union:
  "\<Union> (blocked_of blocked ` set (file_blocks [] ls)) = (\<Union>l \<in> {l \<in> set ls. is_header l}. block_paths l \<inter> blocked)"
proof (intro equalityI subsetI)
  fix p assume "p \<in> \<Union> (blocked_of blocked ` set (file_blocks [] ls))"
  then obtain b where b: "b \<in> set (file_blocks [] ls)" "p \<in> blocked_of blocked b" by blast
  then have "b \<noteq> []" "is_header (hd b)" "p \<in> block_paths (hd b) \<inter> blocked" by (auto simp: blocked_of_def split: if_splits)
  moreover have "hd b \<in> set ls"
    using b(1) \<open>b \<noteq> []\<close> by (metis UN_I append_Nil file_blocks_concat list.set_sel(1) set_concat)
  ultimately show "p \<in> (\<Union>l \<in> {l \<in> set ls. is_header l}. block_paths l \<inter> blocked)" by blast
next
  fix p assume "p \<in> (\<Union>l \<in> {l \<in> set ls. is_header l}. block_paths l \<inter> blocked)"
  then obtain l where l: "l \<in> set ls" "is_header l" "p \<in> block_paths l \<inter> blocked" by blast
  then obtain b where b: "b \<in> set (file_blocks [] ls)" "l \<in> set b"
    by (metis UN_E append_Nil file_blocks_concat set_concat)
  from header_of_block [OF b l(2)] l b(1) show "p \<in> \<Union> (blocked_of blocked ` set (file_blocks [] ls))"
    by (auto simp: blocked_of_def)
qed

lemma graded_patch_stripped:
  "reworked patch blocked \<Longrightarrow> snd (strip_patch_file_blocks patch blocked) =
     (\<Union>l \<in> {l \<in> set (splitlines patch). is_header l}. block_paths l \<inter> blocked)"
  unfolding blocked_union [symmetric] by (auto simp: strip_patch_file_blocks_def reworked_def Let_def)

lemma header_occurs: "l \<in> set (splitlines patch) \<Longrightarrow> is_header l \<Longrightarrow> occurs ''diff --git '' patch"
proof -
  assume "l \<in> set (splitlines patch)" "is_header l"
  then obtain r where "l = ''diff --git '' @ r" "occurs l patch" by (auto simp: is_header_def prefix_def dest: line_occurs)
  then show ?thesis unfolding occurs_iff by (metis append.assoc)
qed

text \<open>A path without spaces and quotes, and the header that renames one into another.\<close>

definition plain_path :: "string \<Rightarrow> bool" where
  "plain_path p \<longleftrightarrow> p \<noteq> [] \<and> (\<forall>c \<in> set p. \<not> is_space c \<and> c \<noteq> CHR 0x22)"

definition rename_header :: "string \<Rightarrow> string \<Rightarrow> string" where
  "rename_header x y = ''diff --git a/'' @ x @ '' b/'' @ y"

lemma before_free: "\<forall>c \<in> set u. c \<noteq> d \<Longrightarrow> before (d # sep) (u @ d # sep @ v) = u"
  by (induction u) (auto simp: prefix_def)

lemma plain_strip: "plain_path p \<Longrightarrow> strip_quotes (strip p) = p"
proof -
  assume p: "plain_path p"
  have d: "dropWhile P q = q" if "q \<noteq> []" "\<not> P (hd q)" for P and q :: string using that by (cases q) auto
  have "p \<noteq> []" "rev p \<noteq> []" "hd p \<in> set p" "hd (rev p) \<in> set p" using p by (auto simp: plain_path_def hd_rev)
  with p show ?thesis by (simp add: strip_quotes_def strip_def d plain_path_def)
qed

lemma break_is_space: "is_line_break c \<Longrightarrow> is_space c"
  by (simp add: is_line_break_def is_space_def) blast

lemma blank_is_space: "is_space (CHR '' '')"
  by (simp add: is_space_def)

lemma literal_chars: "c \<in> set ''diff --git a/'' \<or> c \<in> set '' b/'' \<Longrightarrow> \<not> is_line_break c"
  by (auto simp: is_line_break_def)

lemma prefixed_path: "plain_path x \<Longrightarrow> plain_path (''a/'' @ x)"
  by (simp add: plain_path_def is_space_def)

lemma plain_clean: "plain_path p \<Longrightarrow> \<forall>c \<in> set p. \<not> is_line_break c"
  by (metis break_is_space plain_path_def)

lemma rename_paths:
  assumes "plain_path x" "plain_path y" "y \<noteq> ''/dev/null''"
  shows "block_paths (rename_header x y) = {''a/'' @ x, y}"
proof -
  have x: "\<forall>c \<in> set (''a/'' @ x). c \<noteq> CHR '' ''"
    using prefixed_path [OF assms(1)] blank_is_space unfolding plain_path_def by blast
  have b: "before '' b/'' (''a/'' @ x @ '' b/'' @ y) = ''a/'' @ x"
    using before_free [OF x, of "''b/''" y] by simp
  have o: "occurs '' b/'' (''a/'' @ x @ '' b/'' @ y)"
    unfolding occurs_iff by (intro exI [of _ "''a/'' @ x"] exI [of _ y]) simp
  from prefixed_path [OF assms(1)] assms have p: "strip_quotes (strip (''a/'' @ x)) = ''a/'' @ x" "strip_quotes (strip y) = y" "y \<noteq> []"
    by (simp_all add: plain_strip plain_path_def)
  have r: "drop (length ''diff --git '') (rename_header x y) = ''a/'' @ x @ '' b/'' @ y" by (simp add: rename_header_def)
  have "drop (length u + 3) (u @ '' b/'' @ y) = y" for u by simp
  from this [of "''a/'' @ x"] have d: "drop (length (''a/'' @ x) + 3) (''a/'' @ x @ '' b/'' @ y) = y" by (simp only: append.assoc)
  have "''a/'' @ x \<notin> {[], ''/dev/null''}" by simp
  with assms(3) p(3) show ?thesis
    unfolding block_paths_def Let_def r b d p(1,2) using o by (simp only: if_False not_True_eq_False) auto
qed

text \<open>A file's part of a patch: its header, and the lines that follow it.\<close>

definition file_section :: "string \<times> string \<times> string list \<Rightarrow> string list" where
  "file_section f = (case f of (x, y, body) \<Rightarrow> rename_header x y # body)"

definition plain_section :: "string \<times> string \<times> string list \<Rightarrow> bool" where
  "plain_section f =
     (case f of (x, y, body) \<Rightarrow>
        plain_path x \<and> plain_path y \<and> y \<noteq> ''/dev/null'' \<and>
        (\<forall>l \<in> set body. \<not> is_header l \<and> (\<forall>c \<in> set l. \<not> is_line_break c)))"

lemma rename_header_is_header: "is_header (rename_header x y)"
  by (simp add: is_header_def rename_header_def)

lemma rename_header_clean: "plain_path x \<Longrightarrow> plain_path y \<Longrightarrow> \<forall>c \<in> set (rename_header x y). \<not> is_line_break c"
  unfolding rename_header_def set_append ball_Un using literal_chars plain_clean by blast

lemma section_clean: "plain_section f \<Longrightarrow> l \<in> set (file_section f) \<Longrightarrow> \<forall>c \<in> set l. \<not> is_line_break c"
  using rename_header_clean by (auto simp: plain_section_def file_section_def)

lemma section_blocked:
  "plain_section (x, y, body) \<Longrightarrow> blocked_of blocked (file_section (x, y, body)) = {''a/'' @ x, y} \<inter> blocked"
  by (simp add: plain_section_def file_section_def blocked_of_def rename_header_is_header rename_paths)

lemma file_blocks_body: "\<forall>l \<in> set ls. \<not> is_header l \<Longrightarrow> file_blocks cur (ls @ r) = file_blocks (cur @ ls) r"
  by (induction ls arbitrary: cur) auto

lemma file_blocks_sections:
  "\<forall>f \<in> set files. plain_section f \<Longrightarrow>
     file_blocks cur (List.concat (List.map file_section files)) = cur # List.map file_section files"
proof (induction files arbitrary: cur)
  case (Cons f files)
  obtain x y body where f: "f = (x, y, body)" by (cases f) auto
  from Cons.prems have "\<forall>l \<in> set body. \<not> is_header l" by (auto simp: f plain_section_def)
  with Cons show ?case by (simp add: f file_section_def rename_header_is_header file_blocks_body)
qed simp

text \<open>
  C5: The parts of the hidden tests are cut out of the graded patch, whole and alone. The patch is a
  preamble and the parts of its files, each a \<open>diff --git\<close> header with plain paths and the lines
  under it. What is graded is the preamble and, in order and line for line, exactly the parts whose
  target is no hidden path (nor its source with the \<open>a/\<close> the reader leaves on), with the newlines at
  the end made one; of a hidden target neither the header nor a hunk is left; and the paths reported as stripped are those
  that caused it. A part that renames a hidden test to another path has another target and stays.
\<close>

theorem graded_patch_is_clean:
  assumes "\<forall>l \<in> set pre. \<not> is_header l \<and> (\<forall>c \<in> set l. \<not> is_line_break c)"
    "\<forall>f \<in> set files. plain_section f" "files \<noteq> []" "blocked \<noteq> {}"
  shows "strip_patch_file_blocks (join_lines (pre @ List.concat (List.map file_section files)) @ [CHR 0x0A]) blocked =
    (rstrip_newlines (join_lines (pre @ List.concat (List.map file_section
        (filter (\<lambda>(x, y, body). y \<notin> blocked \<and> ''a/'' @ x \<notin> blocked) files)))) @ [CHR 0x0A],
     {p \<in> blocked. \<exists>(x, y, body) \<in> set files. p = y \<or> p = ''a/'' @ x})"
proof -
  let ?lines = "pre @ List.concat (List.map file_section files)"
  let ?patch = "join_lines ?lines @ [CHR 0x0A]"
  have ne: "?lines \<noteq> []" using assms(3) by (cases files) (auto simp: file_section_def)
  have clean: "\<forall>l \<in> set ?lines. \<forall>c \<in> set l. \<not> is_line_break c"
    using assms(1,2) section_clean by (simp only: set_append set_concat set_map) blast
  note lines = splitlines_join [OF clean ne]
  have blocks: "file_blocks [] (splitlines ?patch) = pre # List.map file_section files"
    unfolding lines using file_blocks_body [of pre "[]"] file_blocks_sections [OF assms(2)] assms(1) by simp
  obtain f fs where "files = f # fs" using assms(3) by (cases files) auto
  then have "hd (file_section f) \<in> set ?lines" "is_header (hd (file_section f))"
    by (cases f; simp add: file_section_def rename_header_is_header)+
  then have r: "reworked ?patch blocked"
    using header_occurs [of _ ?patch] lines assms(4) by (auto simp: reworked_def)
  have pre: "blocked_of blocked pre = {}" using assms(1) by (cases pre) (auto simp: blocked_of_def)
  have part: "blocked_of blocked (file_section f) = {''a/'' @ fst f, fst (snd f)} \<inter> blocked" if "f \<in> set files" for f
    using section_blocked assms(2) that by (cases f) auto
  have "filter (\<lambda>b. blocked_of blocked b = {}) (List.map file_section files) =
      List.map file_section (filter (\<lambda>(x, y, body). y \<notin> blocked \<and> ''a/'' @ x \<notin> blocked) files)"
    unfolding filter_map comp_def using part by (intro arg_cong [of _ _ "List.map file_section"] filter_cong) auto
  then have kept: "kept_lines ?patch blocked = pre @ List.concat (List.map file_section
      (filter (\<lambda>(x, y, body). y \<notin> blocked \<and> ''a/'' @ x \<notin> blocked) files))"
    by (simp only: kept_lines_def blocks filter.simps pre simp_thms if_True list.map concat.simps)
  have "snd (strip_patch_file_blocks ?patch blocked) = \<Union> (blocked_of blocked ` set (file_blocks [] (splitlines ?patch)))"
    unfolding blocked_union by (rule graded_patch_stripped [OF r])
  also have "\<dots> = (\<Union>f \<in> set files. blocked_of blocked (file_section f))"
    unfolding blocks using pre by simp
  also have "\<dots> = (\<Union>f \<in> set files. {''a/'' @ fst f, fst (snd f)} \<inter> blocked)"
    by (rule SUP_cong [OF refl part])
  also have "\<dots> = {p \<in> blocked. \<exists>(x, y, body) \<in> set files. p = y \<or> p = ''a/'' @ x}"
    unfolding case_prod_unfold by blast
  finally show ?thesis using strip_rewrites(1) [OF r] kept by (simp add: prod_eq_iff)
qed

lemma join_lines_chars: "set (join_lines ls) \<subseteq> insert (CHR 0x0A) (\<Union> (set ` set ls))"
  by (induction ls rule: join_lines.induct) auto

lemma rstrip_chars: "set (rstrip_newlines s) \<subseteq> set s"
  by (auto simp: rstrip_newlines_def dest: set_dropWhileD)

text \<open>
  Grading rewrites line endings. For every instance with a hidden test patch the graded patch has no
  line break but the newline: a harness's patch that holds a carriage return or a form feed, in
  whatever file, is never graded as it was written.
\<close>

theorem grading_rewrites_line_breaks:
  assumes "blocked \<noteq> {}" "occurs ''diff --git '' patch"
    "graded_patch = fst (strip_patch_file_blocks patch blocked)"
  shows "(\<forall>c \<in> set graded_patch. is_line_break c \<longrightarrow> c = CHR 0x0A) \<and>
    ((\<exists>c \<in> set patch. is_line_break c \<and> c \<noteq> CHR 0x0A) \<longrightarrow> graded_patch \<noteq> patch)"
proof -
  have r: "reworked patch blocked" using assms by (auto simp: reworked_def)
  have clean: "\<forall>c \<in> set graded_patch. is_line_break c \<longrightarrow> c = CHR 0x0A"
    unfolding assms(3) strip_rewrites(1) [OF r]
    using rstrip_chars join_lines_chars kept_lines_clean [of patch blocked] by fastforce
  then show ?thesis by blast
qed

lemma rstrip_id: "s \<noteq> [] \<Longrightarrow> last s \<noteq> CHR 0x0A \<Longrightarrow> rstrip_newlines s = s"
  by (cases s rule: rev_cases) (simp_all add: rstrip_newlines_def)

lemma last_join_lines: "ls \<noteq> [] \<Longrightarrow> last ls \<noteq> [] \<Longrightarrow> join_lines ls \<noteq> [] \<and> last (join_lines ls) = last (last ls)"
  by (induction ls rule: join_lines.induct) auto

lemma strip_keeps_canonical:
  assumes "\<forall>l \<in> set ls. \<forall>c \<in> set l. \<not> is_line_break c" "ls \<noteq> []" "last ls \<noteq> []"
    "\<forall>l \<in> set ls. is_header l \<longrightarrow> block_paths l \<inter> blocked = {}"
  shows "strip_patch_file_blocks (join_lines ls @ [CHR 0x0A]) blocked = (join_lines ls @ [CHR 0x0A], {})"
proof (cases "reworked (join_lines ls @ [CHR 0x0A]) blocked")
  case True
  have lines: "splitlines (join_lines ls @ [CHR 0x0A]) = ls" by (rule splitlines_join [OF assms(1,2)])
  have free: "blocked_of blocked b = {}" if "b \<in> set (file_blocks [] ls)" for b
  proof (cases "b \<noteq> [] \<and> is_header (hd b)")
    case h: True
    with that have "hd b \<in> set ls"
      by (metis UN_I append_Nil file_blocks_concat list.set_sel(1) set_concat)
    with h assms(4) show ?thesis by (auto simp: blocked_of_def)
  qed (auto simp: blocked_of_def)
  then have kept: "kept_lines (join_lines ls @ [CHR 0x0A]) blocked = ls"
    by (simp add: kept_lines_def lines filter_True file_blocks_concat)
  have "last (join_lines ls) \<noteq> CHR 0x0A"
  proof -
    have "\<not> is_line_break (last (last ls))"
      using assms(1) last_in_set [OF assms(2)] last_in_set [OF assms(3)] by blast
    then show ?thesis using last_join_lines [OF assms(2,3)] by (auto simp: is_line_break_def)
  qed
  then have "rstrip_newlines (join_lines ls) = join_lines ls"
    using last_join_lines [OF assms(2,3)] by (simp add: rstrip_id)
  then have "fst (strip_patch_file_blocks (join_lines ls @ [CHR 0x0A]) blocked) = join_lines ls @ [CHR 0x0A]"
    unfolding strip_rewrites(1) [OF True] kept by simp
  moreover have "snd (strip_patch_file_blocks (join_lines ls @ [CHR 0x0A]) blocked) = {}"
    using graded_patch_stripped [of "join_lines ls @ [CHR 0x0A]" blocked] True assms(4) by (simp add: lines)
  ultimately show ?thesis by (simp add: prod_eq_iff)
qed (simp add: strip_rewrites(2))


text \<open>
  A hidden test that the harness renames away is not stripped. The source of a rename keeps its
  \<open>a/\<close> when the header is read, so of a renaming header only the target counts: a patch of one block
  that moves a hidden test file to another path is graded unchanged, with nothing reported.
\<close>

theorem renamed_test_is_not_stripped:
  assumes "plain_path x" "plain_path y" "y \<noteq> ''/dev/null''" "x \<in> blocked" "y \<notin> blocked" "''a/'' @ x \<notin> blocked"
    "\<forall>l \<in> set body. \<not> is_header l \<and> (\<forall>c \<in> set l. \<not> is_line_break c)" "body \<noteq> []" "last body \<noteq> []"
  shows "strip_patch_file_blocks (join_lines (rename_header x y # body) @ [CHR 0x0A]) blocked =
    (join_lines (rename_header x y # body) @ [CHR 0x0A], {})"
proof (rule strip_keeps_canonical)
  have literal: "\<forall>c \<in> set ''diff --git a/''. \<not> is_line_break c" "\<forall>c \<in> set '' b/''. \<not> is_line_break c"
    using literal_chars by (metis+)
  have path: "\<forall>c \<in> set x. \<not> is_line_break c" "\<forall>c \<in> set y. \<not> is_line_break c"
    using assms(1,2) plain_clean by simp_all
  show "\<forall>l \<in> set (rename_header x y # body). \<forall>c \<in> set l. \<not> is_line_break c"
  proof -
    have "\<forall>c \<in> set (rename_header x y). \<not> is_line_break c"
      unfolding rename_header_def set_append ball_Un using literal path by blast
    with assms(7) show ?thesis by (simp only: list.set ball_simps) blast
  qed
  show "\<forall>l \<in> set (rename_header x y # body). is_header l \<longrightarrow> block_paths l \<inter> blocked = {}"
    using assms by (auto simp: rename_paths)
qed (use assms in auto)

section \<open>What a verdict stands for\<close>

definition voids :: "grading_output \<Rightarrow> bool list" where
  "voids g = [go_oom_killed g, go_invalid g, go_timed_out g, go_infra_failure g]"

text \<open>
  A resolved verdict is earned. The output says resolved exactly when the run completed, its report
  resolves the instance without an environment fault, the kernel killed nothing, the test output is not
  truncated and no log line says that a hidden test file failed to apply. And at most one of the four
  ways to void a grade is reported, none of them together with resolved.
\<close>

theorem resolved_is_earned:
  assumes "judge_run sb instance_id patch w run = Verdict g"
  shows "(go_resolved g \<longleftrightarrow>
      (\<exists>r. normalise_run_result (gn_returned run) instance_id = Some r \<and> hr_resolved r \<and> \<not> hr_infra_failure r) \<and>
      gn_oom_events run = 0 \<and> \<not> detect_truncated_test_run sb run \<and>
      detect_gold_test_apply_failure run (parse_patch_paths (gw_test_patch w)) = None) \<and>
    length (filter id (voids g)) \<le> 1 \<and> (go_resolved g \<longrightarrow> filter id (voids g) = []) \<and>
    (go_error g = None \<longleftrightarrow> filter id (voids g) = [])"
proof -
  define gold where "gold = detect_gold_test_apply_failure run (parse_patch_paths (gw_test_patch w))"
  define res where "res = normalise_run_result (gn_returned run) instance_id"
  note fields = assms [unfolded judge_run_def Let_def gold_def [symmetric] res_def [symmetric]]
  have "(go_resolved g \<longleftrightarrow>
      (\<exists>r. res = Some r \<and> hr_resolved r \<and> \<not> hr_infra_failure r) \<and>
      gn_oom_events run = 0 \<and> \<not> detect_truncated_test_run sb run \<and> gold = None) \<and>
    length (filter id (voids g)) \<le> 1 \<and> (go_resolved g \<longrightarrow> filter id (voids g) = []) \<and>
    (go_error g = None \<longleftrightarrow> filter id (voids g) = [])" (is ?claim)
  proof (cases "oom_evidence sb run res \<noteq> None \<and> res \<noteq> None")
    case True
    with fields show ?claim by (auto simp: oom_evidence_def plain_output_def voids_def split: if_splits)
  next
    case False
    show ?claim
    proof (cases gold)
      case (Some e)
      with fields False show ?claim by (cases e) (auto simp: plain_output_def voids_def)
    next
      case None
      show ?claim
      proof (cases res)
        case no: None
        with fields False None show ?claim
          by (cases "detect_timeout sb run") (auto simp: plain_output_def voids_def)
      next
        case (Some r)
        with False have "gn_oom_events run = 0" "\<not> detect_truncated_test_run sb run"
          by (auto simp: oom_evidence_def split: if_splits)
        with fields False None Some show ?claim
          by (cases "hr_infra_failure r") (auto simp: plain_output_def voids_def)
      qed
    qed
  qed
  then show ?thesis unfolding gold_def res_def .
qed

text \<open>
  The patch's own failure to apply is not reported. Two reports that differ only in whether the
  model's patch applied lead to the same output.
\<close>

theorem patch_applied_is_ignored:
  assumes "normalise_run_result (gn_returned run) i = Some r"
    "normalise_run_result (gn_returned run') i = Some (r\<lparr>hr_patch_applied := b\<rparr>)"
    "gn_oom_events run' = gn_oom_events run" "gn_logs run' = gn_logs run" "gn_report run' = gn_report run"
  shows "judge_run sb i patch w run' = judge_run sb i patch w run"
  using assms
  by (simp add: judge_run_def Let_def oom_evidence_def plain_output_def detect_truncated_test_run_def output_text_def
      detect_gold_test_apply_failure_def read_test_exit_code_def split: option.splits)


section \<open>Limits and progress\<close>

lemma map_of_setdefault:
  "map_of (setdefault k v hc) k' =
     (if k' = k then (case map_of hc k of Some u \<Rightarrow> Some u | None \<Rightarrow> Some v) else map_of hc k')"
  by (auto simp: setdefault_def map_add_def split: option.splits)

text \<open>
  A grade that starts has its memory limit. If the limits can be applied and the memory limit is
  positive, every container gets the limit for memory and for swap unless its configuration already
  has a value of its own, and nothing else of its configuration changes but the CPU key. It is
  positive unless the operator wrote a zero.
\<close>

theorem started_grades_are_limited:
  assumes "apply_grade_limits (limits_from_env env) seam = Inr f"
  shows "\<exists>l. limits_from_env env = Inr l \<and> 0 \<le> gl_mem_limit_bytes l \<and>
    (gl_mem_limit_bytes l = 0 \<longrightarrow> (\<exists>raw. env ''EVAL_GRADE_MEM_LIMIT_MB'' = Some raw \<and> py_int_text (strip raw) = Some 0)) \<and>
    (0 < gl_mem_limit_bytes l \<longrightarrow> (\<forall>hc k. map_of (f hc) k =
       (if k \<in> {''Memory'', ''MemorySwap''} \<and> map_of hc k = None then Some (gl_mem_limit_bytes l)
        else if k = ''NanoCpus'' \<and> map_of hc k = None then gl_nano_cpus l else map_of hc k)))"
proof -
  obtain l where l: "limits_from_env env = Inr l" using assms by (auto simp: apply_grade_limits_def split: sum.splits)
  have nonneg: "0 \<le> gl_mem_limit_bytes l"
    using l by (auto simp: limits_from_env_def Let_def split: option.splits if_splits sum.splits)
  have zero: "\<exists>raw. env ''EVAL_GRADE_MEM_LIMIT_MB'' = Some raw \<and> py_int_text (strip raw) = Some 0" if "gl_mem_limit_bytes l = 0"
    using l that
    by (auto simp: limits_from_env_def Let_def DEFAULT_GRADE_MEM_LIMIT_MB_def strip_def split: option.splits if_splits sum.splits)
  have f: "f = limited_host_config l" if "0 < gl_mem_limit_bytes l"
    using assms that l by (auto simp: apply_grade_limits_def limits_enabled_def split: if_splits)
  show ?thesis
    using l nonneg zero
    by (auto simp: f limited_host_config_def map_of_setdefault Let_def split: option.splits)
qed

text \<open>
  Two CPU limits escape the check. A positive one below a billionth of a CPU passes and becomes the
  zero that Docker takes as no limit; an infinity or a NaN leaves with another exception than the error
  the module promises.
\<close>

theorem cpu_limit_blind_spots:
  "(py_float (strip raw) = Some (Fin x) \<and> 0 < x \<and> x < 1 / 1000000000 \<longrightarrow> cpus_of (strip raw) = Inr (Some 0)) \<and>
   cpus_of ''nan'' = Inl Other_error \<and> cpus_of ''inf'' = Inl Other_error"
proof (intro conjI)
  show "py_float (strip raw) = Some (Fin x) \<and> 0 < x \<and> x < 1 / 1000000000 \<longrightarrow> cpus_of (strip raw) = Inr (Some 0)"
  proof -
    have "py_float [] = None" by code_simp
    then show ?thesis by (auto simp: cpus_of_def py_int_def floor_eq_iff)
  qed
qed (code_simp, code_simp)

lemma split_newline:
  "split_on [CHR 0x0A] (c # cs) =
     (if c = CHR 0x0A then [] # split_on [CHR 0x0A] cs
      else (c # hd (split_on [CHR 0x0A] cs)) # tl (split_on [CHR 0x0A] cs))"
  "split_on [CHR 0x0A] cs \<noteq> []"
proof -
  show ne: "split_on [CHR 0x0A] cs \<noteq> []" for cs by (cases cs) (auto split: list.splits)
  show "split_on [CHR 0x0A] (c # cs) =
     (if c = CHR 0x0A then [] # split_on [CHR 0x0A] cs
      else (c # hd (split_on [CHR 0x0A] cs)) # tl (split_on [CHR 0x0A] cs))"
    using ne [of cs] by (auto split: list.splits)
qed

lemma split_newline_append:
  "split_on [CHR 0x0A] (u @ v) =
     butlast (split_on [CHR 0x0A] u) @ split_on [CHR 0x0A] (last (split_on [CHR 0x0A] u) @ v)"
proof (induction u)
  case (Cons c u)
  show ?case
  proof (cases "tl (split_on [CHR 0x0A] u)")
    case Nil
    then obtain l where l: "split_on [CHR 0x0A] u = [l]" using split_newline(2) [of u] by (cases "split_on [CHR 0x0A] u") auto
    with Cons show ?thesis by (simp add: split_newline(1) del: split_on.simps)
  next
    case (Cons m ms)
    then obtain l where l: "split_on [CHR 0x0A] u = l # m # ms" by (cases "split_on [CHR 0x0A] u") auto
    with Cons.IH show ?thesis by (simp add: split_newline(1) del: split_on.simps)
  qed
qed simp

text \<open>What a reader sees of the progress.\<close>

definition progress_view :: "grade_progress \<Rightarrow> nat \<times> nat \<times> string \<times> string" where
  "progress_view p = (pg_bytes p, pg_lines p, pg_last_line p, pg_partial p)"

lemma shown_line_append:
  "shown_line (xs @ ys) = (case shown_line ys of Some l \<Rightarrow> Some l | None \<Rightarrow> shown_line xs)"
proof -
  have "find P (us @ vs) = (case find P us of Some u \<Rightarrow> Some u | None \<Rightarrow> find P vs)" for P and us vs :: "string list"
    by (induction us) auto
  then show ?thesis by (simp add: shown_line_def split: option.splits)
qed

lemma feed_append: "progress_view (feed t2 b (feed t1 a p)) = progress_view (feed t (a @ b) p)"
proof (cases "a = [] \<or> b = []")
  case True
  then show ?thesis by (auto simp: feed_def progress_view_def Let_def)
next
  case False
  let ?s = "split_on [CHR 0x0A]"
  let ?m = "?s (pg_partial p @ a)"
  have whole: "?s (pg_partial p @ a @ b) = butlast ?m @ ?s (last ?m @ b)"
    using split_newline_append [of "pg_partial p @ a" b] by simp
  have ne: "?s (last ?m @ b) \<noteq> []" by (rule split_newline(2))
  obtain n where n: "length (?s (last ?m @ b)) = Suc n" using ne by (metis length_0_conv not0_implies_Suc)
  show ?thesis
    using False ne n
    by (simp add: feed_def progress_view_def Let_def whole butlast_append shown_line_append split: option.splits del: split_on.simps)
qed

text \<open>
  C33: The progress does not depend on how the stream is cut. However the bytes arrive in chunks, the
  byte and line counts, the last line shown and the pending partial line are those of the bytes fed at
  once.
\<close>

theorem progress_ignores_chunking:
  "progress_view (foldl (\<lambda>p (t, c). feed t c p) p chunks) = progress_view (feed now (List.concat (List.map snd chunks)) p)"
proof (induction chunks arbitrary: p)
  case Nil
  then show ?case by (simp add: feed_def)
next
  case (Cons x chunks)
  obtain t c where x: "x = (t, c)" by (cases x)
  show ?case using Cons.IH [of "feed t c p"] feed_append [of now "List.concat (List.map snd chunks)" t c p now] by (simp add: x)
qed


section \<open>The theorems at concrete inputs\<close>

definition plain_harness :: swebench where
  "plain_harness = \<lparr>sb_start_mark = ''>START'', sb_end_mark = ''>END'', sb_output_file = ''out'', sb_exit_code = (\<lambda>_. Some 0)\<rparr>"

definition resolved_run :: grade_run where
  "resolved_run = \<lparr>gn_returned = Some (JsObj [(''i'', JsObj [(''resolved'', JsBool True)])]), gn_oom_events = 0,
     gn_logs = [], gn_report = None\<rparr>"

definition gold_row :: grade_row where
  "gold_row = \<lparr>gw_columns = [], gw_test_patch = ''+++ b/tests/t.py''\<rparr>"

theorem graded_patch_is_clean_witness:
  "strip_patch_file_blocks (join_lines [rename_header ''u'' ''u'', ''+x'', rename_header ''t'' ''t'', ''+y''] @ [CHR 0x0A]) {''t''} =
     (join_lines [rename_header ''u'' ''u'', ''+x''] @ [CHR 0x0A], {''t''})"
proof -
  have plain: "plain_path ''u''" "plain_path ''t''" by (simp_all add: plain_path_def is_space_def)
  have "strip_patch_file_blocks (join_lines ([] @ List.concat (List.map file_section [(''u'', ''u'', [''+x'']), (''t'', ''t'', [''+y''])])) @ [CHR 0x0A]) {''t''} =
     (rstrip_newlines (join_lines ([] @ List.concat (List.map file_section
        (filter (\<lambda>(x, y, body). y \<notin> {''t''} \<and> ''a/'' @ x \<notin> {''t''}) [(''u'', ''u'', [''+x'']), (''t'', ''t'', [''+y''])])))) @ [CHR 0x0A],
      {p \<in> {''t''}. \<exists>(x, y, body) \<in> set [(''u'', ''u'', [''+x'']), (''t'', ''t'', [''+y''])]. p = y \<or> p = ''a/'' @ x})"
    by (rule graded_patch_is_clean) (use plain in \<open>simp_all add: plain_section_def is_header_def is_line_break_def\<close>)
  moreover have "rstrip_newlines (join_lines [rename_header ''u'' ''u'', ''+x'']) = join_lines [rename_header ''u'' ''u'', ''+x'']"
    by (rule rstrip_id) simp_all
  moreover have "{p \<in> {''t''}. \<exists>(x, y, body) \<in> set [(''u'', ''u'', [''+x'']), (''t'', ''t'', [''+y''])]. p = y \<or> p = ''a/'' @ x} = {''t''}"
    by auto
  ultimately show ?thesis by (simp add: file_section_def)
qed

theorem grading_rewrites_line_breaks_witness:
  "fst (strip_patch_file_blocks (''diff --git a/x b/x'' @ [CHR 0x0D, CHR 0x0A]) {''y''}) \<noteq> ''diff --git a/x b/x'' @ [CHR 0x0D, CHR 0x0A]"
proof -
  have o: "occurs ''diff --git '' (''diff --git a/x b/x'' @ [CHR 0x0D, CHR 0x0A])" by simp
  have "\<exists>c \<in> set (''diff --git a/x b/x'' @ [CHR 0x0D, CHR 0x0A]). is_line_break c \<and> c \<noteq> CHR 0x0A"
    by (intro bexI [of _ "CHR 0x0D"]) (simp_all add: is_line_break_def)
  with grading_rewrites_line_breaks [OF _ o refl, of "{''y''}"] show ?thesis by blast
qed

theorem renamed_test_is_not_stripped_witness:
  "snd (strip_patch_file_blocks (join_lines (rename_header ''t.py'' ''u.py'' # [''similarity index 100%'']) @ [CHR 0x0A]) {''t.py''}) = {}"
proof -
  have "plain_path ''t.py''" "plain_path ''u.py''" by (simp_all add: plain_path_def is_space_def)
  from renamed_test_is_not_stripped [OF this, of "{''t.py''}" "[''similarity index 100%'']"]
  show ?thesis by (simp add: is_header_def is_line_break_def)
qed

theorem resolved_is_earned_witness:
  "case judge_run plain_harness ''i'' ''p'' gold_row resolved_run of Verdict g \<Rightarrow> go_resolved g | _ \<Rightarrow> False"
proof -
  have n: "normalise_run_result (gn_returned resolved_run) ''i'' =
      Some \<lparr>hr_resolved = True, hr_patch_applied = False, hr_infra_failure = False, hr_infra_reason = JsStr []\<rparr>"
    by (simp add: normalise_run_result_def resolved_run_def obj_get_def get_default_def)
  have o: "gn_oom_events resolved_run = 0 \<and> \<not> detect_truncated_test_run plain_harness resolved_run \<and>
      detect_gold_test_apply_failure resolved_run (parse_patch_paths (gw_test_patch gold_row)) = None"
    by (simp add: resolved_run_def detect_truncated_test_run_def output_text_def detect_gold_test_apply_failure_def)
  obtain g where run: "judge_run plain_harness ''i'' ''p'' gold_row resolved_run = Verdict g"
    using o n by (auto simp: judge_run_def Let_def oom_evidence_def)
  from resolved_is_earned [OF run] n o show ?thesis by (simp add: run)
qed

theorem patch_applied_is_ignored_witness:
  "judge_run plain_harness ''i'' ''p'' gold_row
     (resolved_run\<lparr>gn_returned := Some (JsObj [(''i'', JsObj [(''resolved'', JsBool True), (''patch_successfully_applied'', JsBool True)])])\<rparr>) =
   judge_run plain_harness ''i'' ''p'' gold_row resolved_run"
proof -
  let ?run = "resolved_run\<lparr>gn_returned := Some (JsObj [(''i'', JsObj [(''resolved'', JsBool True), (''patch_successfully_applied'', JsBool True)])])\<rparr>"
  let ?r = "\<lparr>hr_resolved = True, hr_patch_applied = False, hr_infra_failure = False, hr_infra_reason = JsStr []\<rparr>"
  have "normalise_run_result (gn_returned resolved_run) ''i'' = Some ?r"
    "normalise_run_result (gn_returned ?run) ''i'' = Some (?r\<lparr>hr_patch_applied := True\<rparr>)"
    by (simp_all add: normalise_run_result_def resolved_run_def obj_get_def get_default_def)
  from patch_applied_is_ignored [OF this] show ?thesis by (simp add: resolved_run_def)
qed

theorem started_grades_are_limited_witness:
  "\<exists>f. apply_grade_limits (limits_from_env (\<lambda>_. None)) True = Inr f \<and> map_of (f []) ''Memory'' = Some (3072 * 2 ^ 20)"
proof -
  have env: "limits_from_env (\<lambda>_. None) = Inr \<lparr>gl_mem_limit_bytes = 3072 * 2 ^ 20, gl_nano_cpus = None\<rparr>"
    by (simp add: limits_from_env_def strip_def DEFAULT_GRADE_MEM_LIMIT_MB_def cpus_of_def)
  then obtain f where f: "apply_grade_limits (limits_from_env (\<lambda>_. None)) True = Inr f"
    by (simp add: apply_grade_limits_def limits_enabled_def)
  from started_grades_are_limited [OF this] env f show ?thesis by auto
qed

theorem cpu_limit_blind_spots_witness:
  "cpus_of (strip ''.0000000001'') = Inr (Some 0)"
proof -
  have "strip ''.0000000001'' = ''.0000000001''" by code_simp
  moreover have "py_float ''.0000000001'' = Some (Fin (1 / 10000000000))" by code_simp
  ultimately show ?thesis using cpu_limit_blind_spots [of "''.0000000001''" "1 / 10000000000"] by simp
qed

end
