(* ===== verification/Eval_Worker.thy ===== *)
theory Eval_Worker
  imports Grading Taxonomy Results_Ledger Job_Messages
begin

text \<open>
  The eval worker of \<open>workers/eval_worker.py\<close>: one job from the queue to its result message, one turn
  of the polling loop, and the heartbeat thread.

  The dataset, the artifact store, the queue, ECS and the clock are arguments, with what is measured of
  a job. Log lines, the sweep of orphaned containers and the upload of the resource sample are left out.
\<close>

section \<open>The shape of the row\<close>

fun category_name :: "error_category \<Rightarrow> string" where
  "category_name RESOLVED = ''RESOLVED''"
| "category_name UNRESOLVED = ''UNRESOLVED''"
| "category_name HARNESS_TIMEOUT = ''HARNESS_TIMEOUT''"
| "category_name HARNESS_STUCK = ''HARNESS_STUCK''"
| "category_name HARNESS_BUDGET_EXCEEDED = ''HARNESS_BUDGET_EXCEEDED''"
| "category_name HARNESS_MAX_TURNS_EXCEEDED = ''HARNESS_MAX_TURNS_EXCEEDED''"
| "category_name HARNESS_MAX_TOKENS_TRUNCATED = ''HARNESS_MAX_TOKENS_TRUNCATED''"
| "category_name HARNESS_MODEL_REFUSED = ''HARNESS_MODEL_REFUSED''"
| "category_name HARNESS_CRASH = ''HARNESS_CRASH''"
| "category_name MODEL_API_ERROR = ''MODEL_API_ERROR''"
| "category_name EMPTY_PATCH = ''EMPTY_PATCH''"
| "category_name PATCH_APPLY_FAILED = ''PATCH_APPLY_FAILED''"
| "category_name EVAL_INFRA_ERROR = ''EVAL_INFRA_ERROR''"
| "category_name ORCHESTRATOR_INFRA_ERROR = ''ORCHESTRATOR_INFRA_ERROR''"
| "category_name EVAL_GRADE_INVALID = ''EVAL_GRADE_INVALID''"
| "category_name PAUSED_BY_OPERATOR = ''PAUSED_BY_OPERATOR''"
| "category_name HARNESS_PATCH_EXTRACT_TIMEOUT = ''HARNESS_PATCH_EXTRACT_TIMEOUT''"
| "category_name HARNESS_MALFORMED_TOOL_CALLS = ''HARNESS_MALFORMED_TOOL_CALLS''"
| "category_name HARNESS_ZERO_MODEL_CALLS = ''HARNESS_ZERO_MODEL_CALLS''"
| "category_name HARNESS_EMPTY_RESPONSE = ''HARNESS_EMPTY_RESPONSE''"
| "category_name HARNESS_CONTEXT_EXHAUSTED = ''HARNESS_CONTEXT_EXHAUSTED''"
| "category_name EVAL_OOM_KILLED = ''EVAL_OOM_KILLED''"
| "category_name EVAL_TIMEOUT = ''EVAL_TIMEOUT''"

definition eval_category :: "grading_output \<Rightarrow> error_category" where
  "eval_category g =
     map_eval_outcome_to_error_category (go_resolved g)
       (default_eval_flags\<lparr>grade_invalid := go_invalid g, oom_killed := go_oom_killed g,
          infra_failure := go_infra_failure g, timed_out := go_timed_out g\<rparr>)"

text \<open>\<open>_eval_row_shape\<close>: state, verdict and whether the evidence goes into the detail.\<close>

definition eval_row_shape :: "grading_output \<Rightarrow> error_category \<Rightarrow> string \<times> string \<times> bool" where
  "eval_row_shape g cat =
     (if go_invalid g \<or> go_oom_killed g \<or> go_infra_failure g
      then (''FAILED_EVAL'', if go_invalid g then ''invalid'' else [], True)
      else if go_timed_out g then (''UNRESOLVED'', ''unresolved'', True)
      else (category_name cat, if go_resolved g then ''resolved'' else ''unresolved'', False))"

section \<open>One job\<close>

definition DEFAULT_GRADE_TIMEOUT_S :: int where "DEFAULT_GRADE_TIMEOUT_S = 1800"

definition grade_timeout_s :: "string option \<Rightarrow> int" where
  "grade_timeout_s env =
     (case env of
        None \<Rightarrow> DEFAULT_GRADE_TIMEOUT_S
      | Some raw \<Rightarrow>
          if raw = [] then DEFAULT_GRADE_TIMEOUT_S
          else (case py_int_text raw of
                  None \<Rightarrow> DEFAULT_GRADE_TIMEOUT_S
                | Some v \<Rightarrow> if v \<le> 0 then DEFAULT_GRADE_TIMEOUT_S else v))"

text \<open>The namespace of the grading image; \<open>None\<close> is the image the host prepares itself.\<close>

definition eval_image_namespace :: "string option \<Rightarrow> string option" where
  "eval_image_namespace env =
     (case env of
        None \<Rightarrow> Some ''swebench''
      | Some raw \<Rightarrow> if strip raw \<in> {[], ''none'', ''build''} then None else Some (strip raw))"

text \<open>\<open>_parse_eval_job\<close>; \<open>str_of\<close> is Python's \<open>str\<close> on a JSON value, \<open>None\<close> an exception.\<close>

definition parse_eval_job :: "(json \<Rightarrow> string) \<Rightarrow> (string \<times> json) list \<Rightarrow> eval_job option" where
  "parse_eval_job str_of body =
     (case (map_of body ''run_id'', map_of body ''instance_id'', Option.bind (map_of body ''attempt_number'') js_int,
            map_of body ''patch_s3_key'') of
        (Some r, Some i, Some n, Some k) \<Rightarrow>
          Some \<lparr>ej_run_id = str_of r, ej_instance_id = str_of i, ej_attempt = n, ej_patch_s3_key = str_of k,
            ej_use_gold = js_truth (get_default body ''use_gold_patch'' (JsBool False))\<rparr>
      | _ \<Rightarrow> None)"

record eval_instance =
  ei_gold :: string
  ei_row :: grade_row

text \<open>What the worker measures of one job.\<close>

record eval_times =
  et_queue_wait :: "real option"
  et_patch_fetch :: real
  et_test :: real
  et_log_upload :: real
  et_wall :: real

text \<open>
  The surroundings of a job: the dataset, the artifacts (\<open>None\<close> is a failed read), the grading of a
  patch, whether the report can be uploaded, the log files that were, the similarity of two patches and the
  text of an error.
\<close>

record eval_env =
  ee_load :: "string \<Rightarrow> eval_instance option"
  ee_fetch :: "string \<Rightarrow> string option"
  ee_grade :: "string \<Rightarrow> string \<Rightarrow> grade_row \<Rightarrow> graded"
  ee_upload_ok :: bool
  ee_uploaded :: "string list"
  ee_similarity :: "string \<Rightarrow> string \<Rightarrow> pyfloat"
  ee_text :: "grade_error option \<Rightarrow> string"
  ee_times :: eval_times

definition patch_to_grade :: "eval_env \<Rightarrow> eval_job \<Rightarrow> eval_instance \<Rightarrow> string option" where
  "patch_to_grade e j i =
     (if ej_use_gold j then (if strip (ei_gold i) = [] then None else Some (ei_gold i))
      else ee_fetch e (ej_patch_s3_key j))"

definition eval_prefix :: "eval_job \<Rightarrow> string" where
  "eval_prefix j = ''runs/'' @ ej_run_id j @ ''/eval/'' @ ej_instance_id j @ ''/'' @ int_text (ej_attempt j)"

definition log_key :: "eval_env \<Rightarrow> eval_job \<Rightarrow> string \<Rightarrow> string" where
  "log_key e j name = (if name \<in> set (ee_uploaded e) then eval_prefix j @ ''/'' @ name else [])"

definition eval_message :: "eval_env \<Rightarrow> eval_job \<Rightarrow> eval_instance \<Rightarrow> string \<Rightarrow> grading_output \<Rightarrow> result_message" where
  "eval_message e j i patch g =
     (let (state, verdict, evident) = eval_row_shape g (eval_category g); t = ee_times e
      in (bare_result (ej_run_id j) (ej_instance_id j) (ej_attempt j) ''eval'' state
            (if evident then ee_text e (go_error g) else []))
         \<lparr>rm_error_category := category_name (eval_category g), rm_verdict := verdict, rm_wall_clock_s := Fin (et_wall t),
          rm_report_json_s3_key := eval_prefix j @ ''/eval_report.json'', rm_touches_test_files := go_touches_tests g,
          rm_extra := extra_default
            (''test_output_s3_key'' := Some (C_text (log_key e j ''test_output.txt'')),
             ''run_log_s3_key'' := Some (C_text (log_key e j ''run_instance.log'')),
             ''eval_queue_wait_s'' := map_option (\<lambda>x. C_float (Fin x)) (et_queue_wait t),
             ''eval_patch_fetch_s'' := Some (C_float (Fin (et_patch_fetch t))),
             ''eval_test_s'' := Some (C_float (Fin (et_test t))),
             ''eval_log_upload_s'' := Some (C_float (Fin (et_log_upload t))),
             ''stripped_test_paths'' := Some (C_texts (go_stripped g)),
             ''grade_invalid'' := Some (C_bool (go_invalid g)),
             ''gold_patch_similarity'' :=
               (if ei_gold i = [] then None else Some (C_float (ee_similarity e patch (ei_gold i)))))\<rparr>)"

text \<open>\<open>_run_eval\<close>; \<open>None\<close> is an exception.\<close>

definition run_eval :: "eval_env \<Rightarrow> eval_job \<Rightarrow> result_message option" where
  "run_eval e j =
     (case ee_load e (ej_instance_id j) of
        None \<Rightarrow> None
      | Some i \<Rightarrow>
          (case patch_to_grade e j i of
             None \<Rightarrow> None
           | Some patch \<Rightarrow>
               (case ee_grade e (ej_instance_id j) patch (ei_row i) of
                  Verdict g \<Rightarrow> if ee_upload_ok e then Some (eval_message e j i patch g) else None
                | _ \<Rightarrow> None)))"

section \<open>One turn of the loop\<close>

record eval_turn_env =
  tv_shutdown :: bool
  tv_paused :: bool
  tv_message :: "(string \<times> json) list option"
  tv_protected :: bool
  tv_notice_ok :: bool
  tv_send_ok :: bool
  tv_delete_ok :: bool
  tv_shutdown_after :: bool

datatype eval_effect = Receive | Protect bool | Emit result_message | Delete

datatype turn_end = Stops | Crashes | Goes_on

definition running_notice :: "eval_job \<Rightarrow> result_message" where
  "running_notice j = bare_result (ej_run_id j) (ej_instance_id j) (ej_attempt j) ''eval'' ''EVAL_RUNNING'' []"

definition work_on :: "(eval_job \<Rightarrow> result_message option) \<Rightarrow> eval_turn_env \<Rightarrow> eval_job \<Rightarrow> eval_effect list" where
  "work_on run t j =
     (if tv_notice_ok t then [Emit (running_notice j)] else []) @
     (case run j of
        None \<Rightarrow> []
      | Some result \<Rightarrow> if tv_send_ok t then Emit result # (if tv_delete_ok t then [Delete] else []) else [])"

definition eval_turn :: "(json \<Rightarrow> string) \<Rightarrow> (eval_job \<Rightarrow> result_message option) \<Rightarrow> eval_turn_env \<Rightarrow> turn_end \<times> eval_effect list" where
  "eval_turn str_of run t =
     (if tv_shutdown t then (Stops, [])
      else if tv_paused t then (Goes_on, [])
      else case tv_message t of
          None \<Rightarrow> (Goes_on, [Receive])
        | Some body \<Rightarrow>
            (case parse_eval_job str_of body of
               None \<Rightarrow> (Crashes, [Receive])
             | Some j \<Rightarrow>
                 (Goes_on, [Receive, Protect True] @ work_on run t j @
                    (if tv_protected t \<and> \<not> tv_shutdown_after t then [Protect False] else []))))"

fun eval_loop :: "(json \<Rightarrow> string) \<Rightarrow> (eval_job \<Rightarrow> result_message option) \<Rightarrow> eval_turn_env list \<Rightarrow> turn_end \<times> eval_effect list" where
  "eval_loop str_of run [] = (Goes_on, [])"
| "eval_loop str_of run (t # ts) =
     (case eval_turn str_of run t of
        (Goes_on, es) \<Rightarrow> (let (r, fs) = eval_loop str_of run ts in (r, es @ fs))
      | (r, es) \<Rightarrow> (r, es))"

section \<open>The heartbeat\<close>

definition HEARTBEAT_SECONDS :: real where "HEARTBEAT_SECONDS = 34"
definition BASE_VISIBILITY_SECONDS :: real where "BASE_VISIBILITY_SECONDS = 300"
definition PROTECTION_REFRESH_SECONDS :: real where "PROTECTION_REFRESH_SECONDS = 300"
definition PROTECTION_MINUTES :: real where "PROTECTION_MINUTES = 15"

datatype beat = Extend real | Hand_back | Remove_container | Publish | Refresh real

record beat_state =
  bs_visibility :: real
  bs_protection :: real

text \<open>One wake-up of the thread: the effects, and the state unless the thread ends.\<close>

definition heartbeat_tick :: "bool \<Rightarrow> bool \<Rightarrow> beat_state \<Rightarrow> real \<times> bool \<Rightarrow> beat list \<times> beat_state option" where
  "heartbeat_tick protected with_job b wake =
     (let (now, shutdown) = wake
      in if shutdown then ([Hand_back, Remove_container], None)
         else (let due_beat = HEARTBEAT_SECONDS \<le> now - bs_visibility b;
                   refresh = protected \<and> PROTECTION_REFRESH_SECONDS \<le> now - bs_protection b
               in ((if due_beat then Extend now # (if with_job then [Publish] else []) else []) @ (if refresh then [Refresh now] else []),
                   Some \<lparr>bs_visibility = (if due_beat then now else bs_visibility b),
                     bs_protection = (if refresh then now else bs_protection b)\<rparr>)))"

fun job_heartbeat :: "bool \<Rightarrow> bool \<Rightarrow> beat_state \<Rightarrow> (real \<times> bool) list \<Rightarrow> beat list" where
  "job_heartbeat protected with_job b [] = []"
| "job_heartbeat protected with_job b (wake # ticks) =
     (case heartbeat_tick protected with_job b wake of
        (es, None) \<Rightarrow> es
      | (es, Some b') \<Rightarrow> es @ job_heartbeat protected with_job b' ticks)"

section \<open>From the grade to the row\<close>

lemma row_shape_cases:
  assumes "length (filter id (voids g)) \<le> 1" "go_resolved g \<longrightarrow> filter id (voids g) = []"
    "eval_row_shape g (eval_category g) = (state, verdict, evident)"
  shows "(state = ''RESOLVED'' \<longleftrightarrow> go_resolved g) \<and>
    (state = ''FAILED_EVAL'' \<longleftrightarrow> go_oom_killed g \<or> go_infra_failure g \<or> go_invalid g) \<and>
    state \<in> {''RESOLVED'', ''UNRESOLVED'', ''FAILED_EVAL''} \<and>
    verdict = (if state = ''FAILED_EVAL'' then (if go_invalid g then ''invalid'' else [])
               else if go_resolved g then ''resolved'' else ''unresolved'') \<and>
    (is_retryable (eval_category g) \<longleftrightarrow> go_oom_killed g \<or> go_infra_failure g) \<and>
    eval_category g \<noteq> PATCH_APPLY_FAILED"
  using assms
  by (cases "go_resolved g"; cases "go_invalid g"; cases "go_oom_killed g"; cases "go_infra_failure g"; cases "go_timed_out g")
     (auto simp: voids_def eval_row_shape_def eval_category_def map_eval_outcome_to_error_category_def
       default_eval_flags_def taxonomy_sets)

text \<open>
  How a run ended: the kernel killed something in a run that came back, the hidden tests did not apply,
  or the report blames the environment.
\<close>

definition was_killed :: "swebench \<Rightarrow> string \<Rightarrow> grade_run \<Rightarrow> bool" where
  "was_killed sb i run \<longleftrightarrow>
     normalise_run_result (gn_returned run) i \<noteq> None \<and> (0 < gn_oom_events run \<or> detect_truncated_test_run sb run)"

definition tests_not_applied :: "grade_row \<Rightarrow> grade_run \<Rightarrow> bool" where
  "tests_not_applied w run \<longleftrightarrow> detect_gold_test_apply_failure run (parse_patch_paths (gw_test_patch w)) \<noteq> None"

definition environment_blamed :: "string \<Rightarrow> grade_run \<Rightarrow> bool" where
  "environment_blamed i run \<longleftrightarrow> (\<exists>r. normalise_run_result (gn_returned run) i = Some r \<and> hr_infra_failure r)"

lemma judged_voids:
  assumes "judge_run sb i patch w run = Verdict g"
  shows "(go_oom_killed g \<longleftrightarrow> was_killed sb i run) \<and>
    (go_invalid g \<longleftrightarrow> \<not> was_killed sb i run \<and> tests_not_applied w run) \<and>
    (go_infra_failure g \<longleftrightarrow> \<not> was_killed sb i run \<and> \<not> tests_not_applied w run \<and> environment_blamed i run)"
proof -
  define gold where "gold = detect_gold_test_apply_failure run (parse_patch_paths (gw_test_patch w))"
  define res where "res = normalise_run_result (gn_returned run) i"
  note fields = assms [unfolded judge_run_def Let_def gold_def [symmetric] res_def [symmetric]]
  have killed: "was_killed sb i run \<longleftrightarrow> oom_evidence sb run res \<noteq> None \<and> res \<noteq> None"
    by (auto simp: was_killed_def res_def [symmetric] oom_evidence_def)
  have rest: "tests_not_applied w run \<longleftrightarrow> gold \<noteq> None"
    "environment_blamed i run \<longleftrightarrow> (\<exists>r. res = Some r \<and> hr_infra_failure r)"
    by (simp_all add: tests_not_applied_def environment_blamed_def gold_def res_def)
  show ?thesis
  proof (cases "oom_evidence sb run res \<noteq> None \<and> res \<noteq> None")
    case True
    with fields show ?thesis unfolding killed rest by (auto simp: plain_output_def)
  next
    case False
    show ?thesis
    proof (cases gold)
      case (Some e)
      with fields False show ?thesis unfolding killed rest by (cases e) (auto simp: plain_output_def)
    next
      case None
      with fields False show ?thesis
        unfolding killed rest
        by (cases res; cases "detect_timeout sb run") (auto simp: plain_output_def)
    qed
  qed
qed

text \<open>
  C11: The row tells a verdict from a void, exactly as the run ended. For every graded run the state is
  RESOLVED exactly when the run completed with a report that resolves the instance and blames no
  environment, the kernel killed nothing, the output is not truncated and the hidden tests applied; it
  is FAILED_EVAL exactly when a run that came back was killed or truncated, the hidden tests did not apply or the report blames
  the environment; and it is UNRESOLVED otherwise. A voided grade has no verdict text, except
  \<open>invalid\<close> when the hidden tests did not apply to a run that was not killed. The category is retryable
  exactly when the kernel killed the run or, with the hidden tests applied, the environment is to
  blame. No row says that the patch failed to apply.
\<close>

theorem row_tells_verdict_from_void:
  assumes "judge_run sb i patch w run = Verdict g" "eval_row_shape g (eval_category g) = (state, verdict, evident)"
  shows "(state = ''RESOLVED'' \<longleftrightarrow>
      (\<exists>r. normalise_run_result (gn_returned run) i = Some r \<and> hr_resolved r \<and> \<not> hr_infra_failure r) \<and>
      gn_oom_events run = 0 \<and> \<not> detect_truncated_test_run sb run \<and>
      detect_gold_test_apply_failure run (parse_patch_paths (gw_test_patch w)) = None) \<and>
    (state = ''FAILED_EVAL'' \<longleftrightarrow> was_killed sb i run \<or> tests_not_applied w run \<or> environment_blamed i run) \<and>
    state \<in> {''RESOLVED'', ''UNRESOLVED'', ''FAILED_EVAL''} \<and>
    verdict = (if state = ''FAILED_EVAL''
                 then (if tests_not_applied w run \<and> \<not> was_killed sb i run then ''invalid'' else [])
               else if state = ''RESOLVED'' then ''resolved'' else ''unresolved'') \<and>
    (is_retryable (eval_category g) \<longleftrightarrow>
       was_killed sb i run \<or> \<not> tests_not_applied w run \<and> environment_blamed i run) \<and>
    eval_category g \<noteq> PATCH_APPLY_FAILED"
proof -
  note earned = resolved_is_earned [OF assms(1)]
  note row = row_shape_cases [OF conjunct1 [OF conjunct2 [OF earned]] conjunct1 [OF conjunct2 [OF conjunct2 [OF earned]]] assms(2)]
  have resolved: "go_resolved g \<longleftrightarrow> state = ''RESOLVED''" using row by blast
  note state = trans [OF resolved [symmetric] conjunct1 [OF earned]]
  note voids = conjunct1 [OF judged_voids [OF assms(1)]] conjunct1 [OF conjunct2 [OF judged_voids [OF assms(1)]]]
    conjunct2 [OF conjunct2 [OF judged_voids [OF assms(1)]]]
  note rows = conjunct1 [OF conjunct2 [OF row]] conjunct1 [OF conjunct2 [OF conjunct2 [OF row]]]
    conjunct1 [OF conjunct2 [OF conjunct2 [OF conjunct2 [OF row]]]]
    conjunct1 [OF conjunct2 [OF conjunct2 [OF conjunct2 [OF conjunct2 [OF row]]]]]
    conjunct2 [OF conjunct2 [OF conjunct2 [OF conjunct2 [OF conjunct2 [OF row]]]]]
  have failed: "state = ''FAILED_EVAL'' \<longleftrightarrow> was_killed sb i run \<or> tests_not_applied w run \<or> environment_blamed i run"
    unfolding rows(1) voids by blast
  have invalid: "go_invalid g \<longleftrightarrow> tests_not_applied w run \<and> \<not> was_killed sb i run"
    unfolding voids by blast
  note verdict = rows(3) [unfolded invalid resolved]
  have retry: "is_retryable (eval_category g) \<longleftrightarrow> was_killed sb i run \<or> \<not> tests_not_applied w run \<and> environment_blamed i run"
    unfolding rows(4) voids by blast
  show ?thesis by (intro conjI state failed rows(2) verdict retry rows(5))
qed

section \<open>What the loop deletes\<close>

lemma work_on_shape:
  "Delete \<in> set (work_on run t j) \<Longrightarrow>
     \<exists>m es. run j = Some m \<and> work_on run t j = es @ [Emit m, Delete] \<and> Delete \<notin> set es"
  by (cases "run j") (auto simp: work_on_def split: if_splits)

text \<open>
  C32: A message leaves the queue only behind its result. In every turn a job's message is deleted only
  when its result was computed and sent just before, at most once and as the last thing done for it;
  a grade that raises, or a result that cannot be sent, leaves the message for another delivery; and
  the scale-in protection taken for a job is given back in the same turn unless the task is stopping.
\<close>

theorem deleted_only_behind_its_result:
  assumes "eval_turn str_of run t = (Goes_on, es)" "tv_message t = Some body" "\<not> tv_paused t"
    "parse_eval_job str_of body = Some j"
  shows "(Delete \<in> set es \<longleftrightarrow> run j \<noteq> None \<and> tv_send_ok t \<and> tv_delete_ok t) \<and>
    (Delete \<in> set es \<longrightarrow> (\<exists>m pre post. run j = Some m \<and> es = pre @ [Emit m, Delete] @ post \<and> Delete \<notin> set pre \<and> Delete \<notin> set post)) \<and>
    (run j = None \<longrightarrow> (\<forall>m. Emit m \<in> set es \<longrightarrow> m = running_notice j)) \<and>
    (Protect False \<in> set es \<longleftrightarrow> tv_protected t \<and> \<not> tv_shutdown_after t)"
proof -
  have es: "es = [Receive, Protect True] @ work_on run t j @ (if tv_protected t \<and> \<not> tv_shutdown_after t then [Protect False] else [])"
    using assms by (auto simp: eval_turn_def split: if_splits)
  have d: "Delete \<in> set es \<longleftrightarrow> Delete \<in> set (work_on run t j)" by (auto simp: es)
  have "\<exists>m pre post. run j = Some m \<and> es = pre @ [Emit m, Delete] @ post \<and> Delete \<notin> set pre \<and> Delete \<notin> set post" if "Delete \<in> set es"
  proof -
    from that d work_on_shape obtain m xs where m: "run j = Some m" "work_on run t j = xs @ [Emit m, Delete]" "Delete \<notin> set xs" by blast
    then show ?thesis
      by (intro exI [of _ m] exI [of _ "[Receive, Protect True] @ xs"]
          exI [of _ "if tv_protected t \<and> \<not> tv_shutdown_after t then [Protect False] else []"]) (simp add: es)
  qed
  moreover have "Delete \<in> set (work_on run t j) \<longleftrightarrow> run j \<noteq> None \<and> tv_send_ok t \<and> tv_delete_ok t"
    by (cases "run j") (auto simp: work_on_def)
  moreover have "Protect False \<in> set es \<longleftrightarrow> tv_protected t \<and> \<not> tv_shutdown_after t"
    by (cases "run j") (auto simp: es work_on_def)
  moreover have "m = running_notice j" if "run j = None" "Emit m \<in> set es" for m
    using that by (auto simp: es work_on_def split: if_splits)
  ultimately show ?thesis unfolding d by blast
qed

text \<open>
  One malformed job stops the worker. A message that lacks a field of the job, or whose attempt is
  no number, ends the loop with an exception: it is neither deleted nor answered, and no later job of
  the loop is received.
\<close>

theorem malformed_job_stops_the_worker:
  assumes "\<not> tv_shutdown t" "\<not> tv_paused t" "tv_message t = Some body"
    "map_of body ''run_id'' = None \<or> map_of body ''instance_id'' = None \<or> map_of body ''patch_s3_key'' = None \<or>
     Option.bind (map_of body ''attempt_number'') js_int = None"
  shows "eval_loop str_of run (t # ts) = (Crashes, [Receive])"
proof -
  have "parse_eval_job str_of body = None" using assms(4) by (auto simp: parse_eval_job_def split: option.splits)
  with assms show ?thesis by (simp add: eval_turn_def)
qed

section \<open>The heartbeat\<close>

text \<open>The ticks come in order and at most \<open>g\<close> apart, from a start.\<close>

fun paced_ticks :: "real \<Rightarrow> real \<Rightarrow> (real \<times> bool) list \<Rightarrow> bool" where
  "paced_ticks g t0 [] = True"
| "paced_ticks g t0 ((t, s) # ticks) = (t0 \<le> t \<and> t \<le> t0 + g \<and> paced_ticks g t ticks)"

text \<open>The times of the extensions, and the longest stretch without one up to the last wake.\<close>

definition extensions :: "beat list \<Rightarrow> real list" where
  "extensions es = List.map_filter (\<lambda>e. case e of Extend t \<Rightarrow> Some t | _ \<Rightarrow> None) es"

fun gaps_below :: "real \<Rightarrow> real \<Rightarrow> real list \<Rightarrow> real \<Rightarrow> bool" where
  "gaps_below d t0 [] stop = (stop - t0 < d)"
| "gaps_below d t0 (t # ts) stop = (t - t0 < d \<and> gaps_below d t ts stop)"

lemma extensions_append [simp]: "extensions (es @ fs) = extensions es @ extensions fs"
  by (simp add: extensions_def map_filter_def)

lemma extensions_simps [simp]:
  "extensions [] = []" "extensions (Extend t # es) = t # extensions es" "extensions (Publish # es) = extensions es"
  "extensions (Refresh t # es) = extensions es" "extensions (Hand_back # es) = extensions es"
  "extensions (Remove_container # es) = extensions es"
  by (simp_all add: extensions_def map_filter_def)

lemma gaps_mono: "gaps_below d t0 ts stop \<Longrightarrow> stop' \<le> stop \<Longrightarrow> gaps_below d t0 ts stop'"
  by (induction ts arbitrary: t0) auto

lemma heartbeat_gaps:
  assumes "paced_ticks g t0 ticks" "0 \<le> g" "\<forall>(t, s) \<in> set ticks. \<not> s" "t0 - bs_visibility b < 34"
  shows "gaps_below (34 + g) (bs_visibility b) (extensions (job_heartbeat p w b ticks)) (if ticks = [] then t0 else fst (last ticks))"
  using assms
proof (induction ticks arbitrary: t0 b)
  case Nil
  then show ?case by simp
next
  case (Cons x ticks)
  obtain t s where x: "x = (t, s)" by (cases x)
  with Cons.prems have t: "t0 \<le> t" "t \<le> t0 + g" "paced_ticks g t ticks" "\<not> s" by auto
  obtain es b' where step: "heartbeat_tick p w b (t, s) = (es, Some b')"
    using t(4) by (simp add: heartbeat_tick_def Let_def)
  have new: "t - bs_visibility b' < 34" "bs_visibility b' = (if 34 \<le> t - bs_visibility b then t else bs_visibility b)"
      "extensions es = (if 34 \<le> t - bs_visibility b then [t] else [])"
    using step t(4) by (auto simp: heartbeat_tick_def Let_def HEARTBEAT_SECONDS_def split: if_splits)
  have "gaps_below (34 + g) (bs_visibility b') (extensions (job_heartbeat p w b' ticks)) (if ticks = [] then t else fst (last ticks))"
    using Cons.IH [OF t(3) Cons.prems(2) _ new(1)] Cons.prems(3) by simp
  with step new t Cons.prems(4) show ?case
    by (cases "34 \<le> t - bs_visibility b") (auto simp: x)
qed

text \<open>
  A job in work stays invisible. While the thread wakes at most \<open>g\<close> seconds apart, any two extensions
  of the message's visibility, the receipt included, and the last of them and the last wake-up, lie
  less than 34 + g seconds apart: with a delay below 266 seconds the 300 seconds never run out.
\<close>

theorem job_stays_invisible:
  assumes "paced_ticks g t0 ticks" "0 \<le> g" "g \<le> 266" "\<forall>(t, s) \<in> set ticks. \<not> s"
  shows "gaps_below BASE_VISIBILITY_SECONDS t0
    (extensions (job_heartbeat p w \<lparr>bs_visibility = t0, bs_protection = t0\<rparr> ticks)) (if ticks = [] then t0 else fst (last ticks))"
proof -
  have mono: "gaps_below d u ts v \<Longrightarrow> d \<le> d' \<Longrightarrow> gaps_below d' u ts v" for d d' u ts v
    by (induction ts arbitrary: u) auto
  have h: "gaps_below (34 + g) t0 (extensions (job_heartbeat p w \<lparr>bs_visibility = t0, bs_protection = t0\<rparr> ticks))
      (if ticks = [] then t0 else fst (last ticks))"
    using heartbeat_gaps [OF assms(1,2,4), of "\<lparr>bs_visibility = t0, bs_protection = t0\<rparr>" p w] by simp
  have "34 + g \<le> BASE_VISIBILITY_SECONDS" using assms(3) by (simp add: BASE_VISIBILITY_SECONDS_def)
  with h show ?thesis by (rule mono)
qed

section \<open>The theorems at concrete inputs\<close>

theorem row_tells_verdict_from_void_witness:
  "\<exists>g. judge_run plain_harness ''i'' ''p'' gold_row resolved_run = Verdict g \<and>
     fst (eval_row_shape g (eval_category g)) = ''RESOLVED''"
proof -
  have n: "normalise_run_result (gn_returned resolved_run) ''i'' =
      Some \<lparr>hr_resolved = True, hr_patch_applied = False, hr_infra_failure = False, hr_infra_reason = JsStr []\<rparr>"
    by (simp add: normalise_run_result_def resolved_run_def obj_get_def get_default_def)
  have o: "gn_oom_events resolved_run = 0 \<and> \<not> detect_truncated_test_run plain_harness resolved_run \<and>
      detect_gold_test_apply_failure resolved_run (parse_patch_paths (gw_test_patch gold_row)) = None"
    by (simp add: resolved_run_def detect_truncated_test_run_def output_text_def detect_gold_test_apply_failure_def)
  obtain g where run: "judge_run plain_harness ''i'' ''p'' gold_row resolved_run = Verdict g"
    using o n by (auto simp: judge_run_def Let_def oom_evidence_def)
  obtain st v ev where row: "eval_row_shape g (eval_category g) = (st, v, ev)" by (metis prod_cases3)
  from row_tells_verdict_from_void [OF run row] n o run row show ?thesis by auto
qed

definition one_job :: "(string \<times> json) list" where
  "one_job = [(''run_id'', JsStr ''r''), (''instance_id'', JsStr ''i''), (''attempt_number'', JsInt 1), (''patch_s3_key'', JsStr ''k'')]"

definition busy_turn :: "(string \<times> json) list \<Rightarrow> eval_turn_env" where
  "busy_turn body = \<lparr>tv_shutdown = False, tv_paused = False, tv_message = Some body, tv_protected = True, tv_notice_ok = True,
     tv_send_ok = True, tv_delete_ok = True, tv_shutdown_after = False\<rparr>"

theorem deleted_only_behind_its_result_witness:
  "Delete \<notin> set (snd (eval_turn (\<lambda>_. []) (\<lambda>_. None) (busy_turn one_job)))"
proof -
  obtain j where j: "parse_eval_job (\<lambda>_. []) one_job = Some j" by (simp add: parse_eval_job_def one_job_def)
  obtain es where run: "eval_turn (\<lambda>_. []) (\<lambda>_. None) (busy_turn one_job) = (Goes_on, es)"
    by (simp add: eval_turn_def busy_turn_def j)
  have "tv_message (busy_turn one_job) = Some one_job" "\<not> tv_paused (busy_turn one_job)" by (simp_all add: busy_turn_def)
  from deleted_only_behind_its_result [OF run this j] show ?thesis by (simp add: run)
qed

theorem malformed_job_stops_the_worker_witness:
  "eval_loop (\<lambda>_. []) (\<lambda>_. None) [busy_turn [], busy_turn one_job] = (Crashes, [Receive])"
  by (rule malformed_job_stops_the_worker [of _ "[]"]) (simp_all add: busy_turn_def)

theorem job_stays_invisible_witness:
  "gaps_below BASE_VISIBILITY_SECONDS 0
     (extensions (job_heartbeat True True \<lparr>bs_visibility = 0, bs_protection = 0\<rparr> [(20, False), (40, False)])) 40"
  using job_stays_invisible [of 20 0 "[(20, False), (40, False)]" True True] by simp

end
