(* ===== verification/Run_Launch.thy ===== *)
theory Run_Launch
  imports Results_Ledger Gateway_Pause Job_Messages Shim_Requests
begin

text \<open>
  The launch of a run, \<open>orchestrator/control_plane/run_launch.py\<close> with the dispatch of
  \<open>dispatcher.py\<close>: claim the pair of harness and model, provision keys, seed the rows, dispatch the
  jobs, mark the run running; and what frees it again, \<open>revoke_run_keys\<close>, \<open>release_active_key\<close> and
  \<open>finalise_run\<close>. The database takes every statement but the seeding, which has a flag; the
  gateway, the key provider, the cache and the queue are arguments. The publication of
  the overrides is in \<open>Operator_Limits\<close>, that of the control state in \<open>Control_State\<close>; the snapshot of
  the configuration is left out but for the window and its source.
\<close>

section \<open>State\<close>

record run_entry =
  re_run :: string
  re_status :: string
  re_active_key :: "string option"
  re_litellm_key :: "string option"
  re_openrouter_hash :: "string option"
  re_blocked_by :: "string option"
  re_window :: "(int option \<times> string) option"

text \<open>
  The rows of \<open>runs\<close>, \<open>run_targets\<close>, \<open>instance_results\<close> and \<open>run_summary\<close>; the jobs sent; the live
  virtual keys as pairs of alias and id; the enabled provider keys; the provider key that serves
  each alias; the runs whose raw key is cached; the calls of the gateway pause.
\<close>

record launch_state =
  ls_runs :: "run_entry list"
  ls_targets :: "(string \<times> string \<times> string) list"
  ls_table :: ledger_table
  ls_jobs :: "harness_job list"
  ls_expected :: "(string \<times> nat) list"
  ls_virtual :: "(string \<times> string) list"
  ls_provider :: "string list"
  ls_served :: "(string \<times> string) list"
  ls_cached :: "string list"
  ls_calls :: "gw_call list"

definition update_run :: "string \<Rightarrow> (run_entry \<Rightarrow> run_entry) \<Rightarrow> launch_state \<Rightarrow> launch_state" where
  "update_run run f s = s\<lparr>ls_runs := map (\<lambda>r. if re_run r = run then f r else r) (ls_runs s)\<rparr>"

definition entry_of :: "string \<Rightarrow> launch_state \<Rightarrow> run_entry option" where
  "entry_of run s = find (\<lambda>r. re_run r = run) (ls_runs s)"

definition put_status :: "string \<Rightarrow> string \<Rightarrow> launch_state \<Rightarrow> launch_state" where
  "put_status run status = update_run run (\<lambda>r. r\<lparr>re_status := status\<rparr>)"

text \<open>The fields of \<open>RunConfig\<close> and of \<open>Instance\<close> that a launch reads.\<close>

record run_config =
  rc_attempts :: int
  rc_harness :: string
  rc_model_alias :: string
  rc_timeout_seconds :: int
  rc_max_tokens :: "int option"
  rc_max_cost_usd :: pyfloat
  rc_max_turns :: "int option"
  rc_context_window :: "int option"

record instance_row =
  in_id :: string
  in_repo :: string
  in_base_commit :: string
  in_problem :: string

text \<open>The cache manifest: the images with their recorded fields, and whether it lists environment images.\<close>

record manifest =
  mf_images :: "(string \<times> (string \<times> string) list) list"
  mf_has_env_images :: bool

record launch_env =
  le_paused :: bool
  le_provisioning_key :: "string option"
  le_generate :: "string option"
  le_store_ok :: bool
  le_mint :: "string option"
  le_rotatable :: "string \<Rightarrow> bool"
  le_rotate_ok :: bool
  le_served_ok :: bool
  le_paused_again :: bool
  le_block_ok :: "string \<Rightarrow> bool"
  le_seed_ok :: bool
  le_now :: real
  le_gate :: bool
  le_manifest :: "manifest option"
  le_digests :: "(string \<times> string) list option"
  le_live_info :: "string \<Rightarrow> (string \<times> json) list option"
  le_baked :: "(string \<times> (string \<times> json) list) list"
  le_send_ok :: "harness_job \<Rightarrow> bool"
  le_expected_ok :: bool

datatype launch_error =
    Launch_paused | Duplicate_run string | No_provisioning_key | Key_call_failed | Block_call_failed | Seeding_failed
  | Cache_not_built | Cache_empty | Instance_refused string | Bad_window | Queue_failed

section \<open>Claim\<close>

definition pair_key :: "string \<Rightarrow> string \<Rightarrow> string" where
  "pair_key harness alias = harness @ '':'' @ alias"

definition new_entry :: "string \<Rightarrow> string \<Rightarrow> string option \<Rightarrow> run_entry" where
  "new_entry run status key = \<lparr>re_run = run, re_status = status, re_active_key = key, re_litellm_key = None,
     re_openrouter_hash = None, re_blocked_by = None, re_window = None\<rparr>"

text \<open>The insert fails on the primary key or on the unique index of \<open>active_key\<close>.\<close>

definition claim :: "string \<Rightarrow> string \<Rightarrow> string \<Rightarrow> launch_state \<Rightarrow> launch_error + launch_state" where
  "claim run harness alias s =
     (let key = pair_key harness alias
      in if (\<exists>r \<in> set (ls_runs s). re_run r = run \<or> re_active_key r = Some key)
         then Inl (Duplicate_run (case find (\<lambda>r. re_active_key r = Some key) (ls_runs s) of
                     Some r \<Rightarrow> re_run r | None \<Rightarrow> ''unknown''))
         else Inr (s\<lparr>ls_runs := ls_runs s @ [new_entry run ''claimed'' (Some key)]\<rparr>))"

section \<open>Provision\<close>

text \<open>
  The provisioning key: the environment variable, or the secret (\<open>None\<close> is a failed read) as a bare
  text or as an object with the key under one of four names. \<open>loads\<close> parses JSON, \<open>str_of\<close> is \<open>str\<close>.
\<close>

definition SECRET_FIELDS :: "string list" where
  "SECRET_FIELDS = [''api_key'', ''key'', ''provisioning_key'', ''accessToken'']"

definition secret_key :: "(string \<Rightarrow> json option) \<Rightarrow> (json \<Rightarrow> string) \<Rightarrow> string \<Rightarrow> string" where
  "secret_key loads str_of text =
     (case loads text of
        Some (JsObj kvs) \<Rightarrow>
          (case List.map_filter (map_of kvs) SECRET_FIELDS of [] \<Rightarrow> text | v # vs \<Rightarrow> str_of v)
      | _ \<Rightarrow> text)"

definition fetch_provisioning_key ::
    "(string \<Rightarrow> json option) \<Rightarrow> (json \<Rightarrow> string) \<Rightarrow> string option \<Rightarrow> string option \<Rightarrow> string option \<Rightarrow> string option" where
  "fetch_provisioning_key loads str_of direct arn secret =
     (case or_str direct [] of
        c # cs \<Rightarrow> Some (c # cs)
      | [] \<Rightarrow>
          (case or_str arn [] of
             [] \<Rightarrow> None
           | _ \<Rightarrow> (case secret of None \<Rightarrow> None | Some text \<Rightarrow> if text = [] then None else Some (secret_key loads str_of text))))"

definition mint_both :: "launch_env \<Rightarrow> string \<Rightarrow> string \<Rightarrow> launch_state \<Rightarrow> (launch_error + string \<times> string) \<times> launch_state" where
  "mint_both e run kid s =
     (let s1 = s\<lparr>ls_virtual := ls_virtual s @ [(run, kid)]\<rparr>
      in if \<not> le_store_ok e then (Inl Key_call_failed, s1)
         else (let s2 = s1\<lparr>ls_cached := ls_cached s1 @ [run]\<rparr>
               in case le_mint e of
                    None \<Rightarrow> (Inl Key_call_failed, s2)
                  | Some h \<Rightarrow> (Inr (kid, h), s2\<lparr>ls_provider := ls_provider s2 @ [h]\<rparr>)))"

definition provision_keys :: "launch_env \<Rightarrow> string \<Rightarrow> string \<Rightarrow> launch_state \<Rightarrow> (launch_error + string \<times> string) \<times> launch_state" where
  "provision_keys e run alias s =
     (case le_provisioning_key e of
        None \<Rightarrow> (Inl No_provisioning_key, s)
      | Some _ \<Rightarrow>
          (case le_generate e of
             None \<Rightarrow> (Inl Key_call_failed, s)
           | Some kid \<Rightarrow>
               (case mint_both e run kid s of
                  (Inl err, s1) \<Rightarrow> (Inl err, s1)
                | (Inr (k, h), s1) \<Rightarrow>
                    if \<not> le_rotatable e alias then (Inr (k, h), s1)
                    else if \<not> le_rotate_ok e then (Inl Key_call_failed, s1)
                    else (let s2 = s1\<lparr>ls_served := AList.update alias h (ls_served s1)\<rparr>
                          in if le_served_ok e then (Inr (k, h), s2) else (Inl Key_call_failed, s2)))))"

definition record_key_ids :: "string \<Rightarrow> string \<Rightarrow> string \<Rightarrow> launch_state \<Rightarrow> launch_state" where
  "record_key_ids run kid h = update_run run (\<lambda>r. r\<lparr>re_litellm_key := Some kid, re_openrouter_hash := Some h\<rparr>)"

text \<open>The check of the gateway pause on the columns that it reads, and its marker put back.\<close>

definition gw_view :: "launch_state \<Rightarrow> gw_state" where
  "gw_view s = \<lparr>gs_runs = map (\<lambda>r. \<lparr>gr_run = re_run r, gr_status = re_status r, gr_key = re_litellm_key r,
     gr_marker = re_blocked_by r\<rparr>) (ls_runs s), gs_calls = ls_calls s\<rparr>"

definition gw_back :: "gw_state \<Rightarrow> launch_state \<Rightarrow> launch_state" where
  "gw_back g s = s\<lparr>ls_runs := map (\<lambda>(r, w). r\<lparr>re_blocked_by := gr_marker w\<rparr>) (zip (ls_runs s) (gs_runs g)), ls_calls := gs_calls g\<rparr>"

definition check_pause :: "launch_env \<Rightarrow> string \<Rightarrow> string \<Rightarrow> launch_state \<Rightarrow> bool \<times> launch_state" where
  "check_pause e run kid s =
     (case block_if_globally_paused (le_block_ok e) (le_paused_again e) run (Some kid) (gw_view s) of
        (res, g) \<Rightarrow> (res \<noteq> None, gw_back g s))"

section \<open>Seed\<close>

definition attempt_keys :: "string \<Rightarrow> int \<Rightarrow> instance_row list \<Rightarrow> row_key list" where
  "attempt_keys run n insts =
     List.concat (map (\<lambda>i. map (\<lambda>a. (run, in_id i, a, ''harness'')) [1..n]) insts)"

definition seed_row_once :: "real \<Rightarrow> row_key \<Rightarrow> ledger_table \<Rightarrow> ledger_table" where
  "seed_row_once now k t = (case map_of t k of Some r \<Rightarrow> t | None \<Rightarrow> AList.update k (seeded_row now None) t)"

definition seed_instance_rows :: "launch_env \<Rightarrow> string \<Rightarrow> instance_row list \<Rightarrow> int \<Rightarrow> launch_state \<Rightarrow> nat option \<times> launch_state" where
  "seed_instance_rows e run insts n s =
     (let keys = attempt_keys run n insts
      in if keys = [] then (Some 0, s)
         else if \<not> le_seed_ok e then (None, s)
         else (Some (length keys), s\<lparr>ls_table := fold (seed_row_once (le_now e)) keys (ls_table s)\<rparr>))"

section \<open>Dispatch\<close>

definition cache_precondition :: "launch_env \<Rightarrow> launch_error + manifest option" where
  "cache_precondition e =
     (if \<not> le_gate e then Inr None
      else case le_manifest e of
          None \<Rightarrow> Inl Cache_not_built
        | Some m \<Rightarrow> if mf_images m = [] \<and> \<not> mf_has_env_images m then Inl Cache_empty else Inr (Some m))"

definition field_or :: "string \<Rightarrow> (string \<times> string) list \<Rightarrow> string" where
  "field_or k kvs = (case map_of kvs k of Some v \<Rightarrow> v | None \<Rightarrow> [])"

definition image_admitted :: "string \<Rightarrow> manifest \<Rightarrow> (string \<times> string) list option \<Rightarrow> bool" where
  "image_admitted inst m digests =
     (case map_of (mf_images m) inst of
        None \<Rightarrow> False
      | Some entry \<Rightarrow>
          (let built_from = field_or ''base_image_digest'' entry;
               pinned = field_or inst (case digests of Some d \<Rightarrow> d | None \<Rightarrow> [])
           in built_from \<noteq> [] \<and> pinned \<noteq> [] \<longrightarrow> built_from = pinned))"

text \<open>The window and its source; \<open>None\<close> where the value found is no number.\<close>

definition window_field :: "(string \<times> json) list \<Rightarrow> json" where
  "window_field info = get_default info ''max_input_tokens'' JsNull"

definition resolve_context_window ::
    "run_config \<Rightarrow> (string \<times> (string \<times> json) list) list \<Rightarrow> (string \<Rightarrow> (string \<times> json) list option) \<Rightarrow> (int option \<times> string) option" where
  "resolve_context_window c baked live =
     (case rc_context_window c of
        Some w \<Rightarrow> Some (Some w, ''run_config'')
      | None \<Rightarrow>
          (let info = (case live (rc_model_alias c) of Some i \<Rightarrow> i | None \<Rightarrow> []);
               entry = (case map_of baked (rc_model_alias c) of Some i \<Rightarrow> i | None \<Rightarrow> [])
           in if js_truth (window_field info) then map_option (\<lambda>w. (Some w, ''gateway'')) (js_int (window_field info))
              else if js_truth (window_field entry) then map_option (\<lambda>w. (Some w, ''baked_config'')) (js_int (window_field entry))
              else (case DEFAULT_CONTEXT_WINDOW_TOKENS of
                      Some w \<Rightarrow> Some (Some w, ''default'') | None \<Rightarrow> Some (None, ''none''))))"

text \<open>The insert of \<open>register_run\<close> overwrites the snapshot of a row that exists and nothing else of it.\<close>

definition register_run :: "string \<Rightarrow> run_config \<Rightarrow> int option \<times> string \<Rightarrow> launch_state \<Rightarrow> launch_state" where
  "register_run run c w s =
     (let target = (run, rc_harness c, rc_model_alias c);
          s1 = (if entry_of run s \<noteq> None then update_run run (\<lambda>r. r\<lparr>re_window := Some w\<rparr>) s
                else s\<lparr>ls_runs := ls_runs s @ [(new_entry run ''running'' None)\<lparr>re_window := Some w\<rparr>]\<rparr>)
      in if target \<in> set (ls_targets s1) then s1 else s1\<lparr>ls_targets := ls_targets s1 @ [target]\<rparr>)"

definition job_for :: "string \<Rightarrow> run_config \<Rightarrow> int option \<Rightarrow> instance_row \<Rightarrow> int \<Rightarrow> harness_job" where
  "job_for run c window i attempt =
     \<lparr>hj_run_id = run, hj_instance_id = in_id i, hj_repo_url = ''https://github.com/'' @ in_repo i,
      hj_base_commit = in_base_commit i, hj_problem_statement = in_problem i, hj_attempt = attempt,
      hj_harness_name = rc_harness c, hj_model_alias = rc_model_alias c, hj_env_image_key = [],
      hj_timeout_seconds = rc_timeout_seconds c, hj_max_tokens = rc_max_tokens c, hj_max_cost_usd = rc_max_cost_usd c,
      hj_max_turns = rc_max_turns c, hj_dispatched_at = None, hj_queue_wait_s = None, hj_context_window = window\<rparr>"

definition jobs_of :: "string \<Rightarrow> run_config \<Rightarrow> int option \<Rightarrow> instance_row \<Rightarrow> harness_job list" where
  "jobs_of run c window i = map (job_for run c window i) [1..rc_attempts c]"

text \<open>The loop: the jobs sent, and the error that ended it.\<close>

fun dispatch_instances ::
    "launch_env \<Rightarrow> string \<Rightarrow> run_config \<Rightarrow> int option \<Rightarrow> manifest option \<Rightarrow> instance_row list \<Rightarrow> harness_job list \<times> launch_error option" where
  "dispatch_instances e run c window m [] = ([], None)"
| "dispatch_instances e run c window m (i # is) =
     (if (case m of None \<Rightarrow> False | Some mf \<Rightarrow> \<not> image_admitted (in_id i) mf (le_digests e))
      then ([], Some (Instance_refused (in_id i)))
      else (let jobs = jobs_of run c window i; sent = takeWhile (le_send_ok e) jobs
            in if length sent < length jobs then (sent, Some Queue_failed)
               else (let (rest, err) = dispatch_instances e run c window m is in (sent @ rest, err))))"

definition seed_expected :: "launch_env \<Rightarrow> string \<Rightarrow> nat \<Rightarrow> launch_state \<Rightarrow> launch_state" where
  "seed_expected e run n s =
     (if le_expected_ok e \<and> run \<notin> fst ` set (ls_expected s) then s\<lparr>ls_expected := ls_expected s @ [(run, n)]\<rparr> else s)"

definition dispatch_run :: "launch_env \<Rightarrow> string \<Rightarrow> run_config \<Rightarrow> instance_row list \<Rightarrow> launch_state \<Rightarrow> (launch_error + nat) \<times> launch_state" where
  "dispatch_run e run c insts s =
     (case cache_precondition e of
        Inl err \<Rightarrow> (Inl err, s)
      | Inr m \<Rightarrow>
          (case resolve_context_window c (le_baked e) (le_live_info e) of
             None \<Rightarrow> (Inl Bad_window, s)
           | Some w \<Rightarrow>
               (let (sent, err) = dispatch_instances e run c (fst w) m insts;
                    s1 = register_run run c w s;
                    s2 = s1\<lparr>ls_jobs := ls_jobs s1 @ sent\<rparr>
                in case err of
                     Some x \<Rightarrow> (Inl x, s2)
                   | None \<Rightarrow> (Inr (length sent), seed_expected e run (length sent) s2))))"

section \<open>The sequence\<close>

definition launch_tail :: "launch_env \<Rightarrow> string \<Rightarrow> run_config \<Rightarrow> instance_row list \<Rightarrow> launch_state \<Rightarrow> (launch_error + nat \<times> nat) \<times> launch_state" where
  "launch_tail e run c insts s =
     (case seed_instance_rows e run insts (rc_attempts c) (put_status run ''seeding'' s) of
        (None, s1) \<Rightarrow> (Inl Seeding_failed, s1)
      | (Some seeded, s1) \<Rightarrow>
          (case dispatch_run e run c insts (put_status run ''dispatching'' s1) of
             (Inl err, s2) \<Rightarrow> (Inl err, s2)
           | (Inr sent, s2) \<Rightarrow> (Inr (sent, seeded), put_status run ''running'' s2)))"

definition launch_run :: "launch_env \<Rightarrow> string \<Rightarrow> run_config \<Rightarrow> instance_row list \<Rightarrow> launch_state \<Rightarrow> (launch_error + nat \<times> nat) \<times> launch_state" where
  "launch_run e run c insts s =
     (if le_paused e then (Inl Launch_paused, s)
      else case claim run (rc_harness c) (rc_model_alias c) s of
          Inl err \<Rightarrow> (Inl err, s)
        | Inr s1 \<Rightarrow>
            (case provision_keys e run (rc_model_alias c) (put_status run ''provisioning'' s1) of
               (Inl err, s2) \<Rightarrow> (Inl err, s2)
             | (Inr (kid, h), s2) \<Rightarrow>
                 (case check_pause e run kid (record_key_ids run kid h s2) of
                    (False, s3) \<Rightarrow> (Inl Block_call_failed, s3)
                  | (True, s3) \<Rightarrow> launch_tail e run c insts s3)))"

section \<open>What frees a run\<close>

text \<open>
  The gateway's refusal to delete a key counts as \<open>already gone\<close>; the provider's refusal to disable one
  raises, and a missing provisioning key is only logged.
\<close>

record release_env =
  ro_gateway_ok :: bool
  ro_provisioning :: bool
  ro_disable_ok :: bool
  ro_stop_ok :: bool

definition revoke_run_keys :: "release_env \<Rightarrow> string \<Rightarrow> launch_state \<Rightarrow> bool \<times> launch_state" where
  "revoke_run_keys e run s =
     (let kid = or_str (Option.bind (entry_of run s) re_litellm_key) [];
          h = or_str (Option.bind (entry_of run s) re_openrouter_hash) [];
          s1 = (if kid \<noteq> [] \<and> ro_gateway_ok e then s\<lparr>ls_virtual := filter (\<lambda>v. fst v \<noteq> run) (ls_virtual s)\<rparr> else s)
      in if h \<noteq> [] \<and> ro_provisioning e \<and> \<not> ro_disable_ok e then (False, s1)
         else (let s2 = (if h \<noteq> [] \<and> ro_provisioning e then s1\<lparr>ls_provider := filter (\<lambda>x. x \<noteq> h) (ls_provider s1)\<rparr> else s1)
               in (True, s2\<lparr>ls_cached := filter (\<lambda>x. x \<noteq> run) (ls_cached s2)\<rparr>)))"

definition release_active_key :: "string \<Rightarrow> launch_state \<Rightarrow> launch_state" where
  "release_active_key run = update_run run (\<lambda>r. r\<lparr>re_active_key := None\<rparr>)"

text \<open>The end of an abort, which logs an exception of either call; and the end of a close.\<close>

definition abort_release :: "release_env \<Rightarrow> string \<Rightarrow> launch_state \<Rightarrow> launch_state" where
  "abort_release e run s =
     (let (ok, s1) = revoke_run_keys e run (put_status run ''aborted'' s)
      in if ok then release_active_key run s1 else s1)"

definition finalise_launched :: "release_env \<Rightarrow> string \<Rightarrow> launch_state \<Rightarrow> bool \<times> launch_state" where
  "finalise_launched e run s =
     (if \<not> ro_stop_ok e then (False, s)
      else (case revoke_run_keys e run s of
              (False, s1) \<Rightarrow> (False, s1)
            | (True, s1) \<Rightarrow> (True, update_run run (\<lambda>r. r\<lparr>re_active_key := None, re_status := ''completed''\<rparr>) s1)))"

datatype launch_action =
    Launch launch_env string run_config "instance_row list" | Abort_end release_env string | Close_end release_env string

fun launch_step :: "launch_action \<Rightarrow> launch_state \<Rightarrow> launch_state" where
  "launch_step (Launch e run c insts) s = snd (launch_run e run c insts s)"
| "launch_step (Abort_end e run) s = abort_release e run s"
| "launch_step (Close_end e run) s = snd (finalise_launched e run s)"

end
