(* ===== verification/Launch_Facts.thy ===== *)
theory Launch_Facts
  imports Run_Launch
begin

text \<open>
  What holds of a launch: one active run per pair, what a run's status tells, what a launch that returns has
  done, and where the sequence leaves something behind.
\<close>

section \<open>What a step leaves of the other rows\<close>

definition tracks :: "string \<Rightarrow> launch_state \<Rightarrow> launch_state \<Rightarrow> bool" where
  "tracks run s s' \<longleftrightarrow> (\<exists>f. ls_runs s' = map (\<lambda>r. if re_run r = run then f r else r) (ls_runs s) \<and>
     (\<forall>r. re_run (f r) = re_run r \<and> re_active_key (f r) \<in> {re_active_key r, None}))"

lemma tracks_refl [simp]: "tracks run s s"
  unfolding tracks_def by (rule exI [of _ "\<lambda>r. r"]) simp

lemma tracks_same_runs: "ls_runs s' = ls_runs s \<Longrightarrow> tracks run s s'"
  unfolding tracks_def by (rule exI [of _ "\<lambda>r. r"]) simp

lemma tracks_by_runs: "tracks run s s1 \<Longrightarrow> ls_runs s' = ls_runs s1 \<Longrightarrow> tracks run s s'"
  by (simp add: tracks_def)

lemma tracks_trans:
  assumes "tracks run s s1" "tracks run s1 s2"
  shows "tracks run s s2"
proof -
  from assms(1) obtain f where f: "ls_runs s1 = map (\<lambda>r. if re_run r = run then f r else r) (ls_runs s)"
    "\<forall>r. re_run (f r) = re_run r \<and> re_active_key (f r) \<in> {re_active_key r, None}" unfolding tracks_def by blast
  from assms(2) obtain g where g: "ls_runs s2 = map (\<lambda>r. if re_run r = run then g r else r) (ls_runs s1)"
    "\<forall>r. re_run (g r) = re_run r \<and> re_active_key (g r) \<in> {re_active_key r, None}" unfolding tracks_def by blast
  have "ls_runs s2 = map (\<lambda>r. if re_run r = run then g (f r) else r) (ls_runs s)"
    using f g(1) by simp
  moreover have "\<forall>r. re_run (g (f r)) = re_run r \<and> re_active_key (g (f r)) \<in> {re_active_key r, None}"
    using f(2) g(2) by (metis insert_iff singletonD)
  ultimately show ?thesis unfolding tracks_def by (intro exI [of _ "\<lambda>r. g (f r)"]) blast
qed

lemma tracks_update:
  assumes "\<And>r. re_run (f r) = re_run r" "\<And>r. re_active_key (f r) = re_active_key r \<or> re_active_key (f r) = None"
  shows "tracks run s (update_run run f s)"
  unfolding tracks_def update_run_def using assms by (intro exI [of _ f]) auto

lemma tracks_put_status [simp]: "tracks run s (put_status run x s)"
  unfolding put_status_def by (rule tracks_update) simp_all

lemma tracks_record [simp]: "tracks run s (record_key_ids run kid h s)"
  unfolding record_key_ids_def by (rule tracks_update) simp_all

lemma check_pause_runs:
  "check_pause e run kid s = (ok, s') \<Longrightarrow>
     \<exists>f. ls_runs s' = map (\<lambda>r. if re_run r = run then r\<lparr>re_blocked_by := f r\<rparr> else r) (ls_runs s) \<and>
       ls_table s' = ls_table s \<and> ls_jobs s' = ls_jobs s \<and> ls_virtual s' = ls_virtual s \<and> ls_provider s' = ls_provider s \<and>
       ls_served s' = ls_served s \<and> ls_cached s' = ls_cached s"
  by (rule exI [of _ "\<lambda>r. if ok \<and> kid \<noteq> [] \<and> le_paused_again e \<and> re_blocked_by r = None then Some ''global'' else re_blocked_by r"])
     (auto simp: check_pause_def block_if_globally_paused_def gw_view_def gw_back_def zip_map2 zip_same_conv_map
       split: if_splits)

lemma tracks_check_pause: "check_pause e run kid s = (ok, s') \<Longrightarrow> tracks run s s'"
  unfolding tracks_def by (drule check_pause_runs, elim exE, rule exI) auto

lemma mint_both_frame:
  "mint_both e run kid s = (res, s') \<Longrightarrow>
     ls_runs s' = ls_runs s \<and> ls_table s' = ls_table s \<and> ls_jobs s' = ls_jobs s \<and> ls_served s' = ls_served s \<and>
     ls_virtual s' = ls_virtual s @ [(run, kid)]"
  by (cases "le_store_ok e"; cases "le_mint e") (auto simp: mint_both_def)

lemma provision_frame:
  assumes "provision_keys e run alias s = (res, s')"
  shows "ls_runs s' = ls_runs s \<and> ls_table s' = ls_table s \<and> ls_jobs s' = ls_jobs s"
proof -
  have minted: "ls_runs s' = ls_runs s \<and> ls_table s' = ls_table s \<and> ls_jobs s' = ls_jobs s"
    if "le_provisioning_key e = Some p" "le_generate e = Some kid" for p kid
  proof -
    obtain r s1 where m: "mint_both e run kid s = (r, s1)" by fastforce
    note f = mint_both_frame [OF m]
    show ?thesis
    proof (cases r)
      case (Inl x)
      with assms that m f show ?thesis by (simp add: provision_keys_def)
    next
      case (Inr kh)
      with assms that m f show ?thesis
        by (cases kh) (auto simp: provision_keys_def Let_def split: if_split_asm)
    qed
  qed
  show ?thesis
  proof (cases "le_provisioning_key e = None \<or> le_generate e = None")
    case True
    with assms show ?thesis by (cases "le_provisioning_key e") (simp_all add: provision_keys_def)
  next
    case False
    then obtain p kid where "le_provisioning_key e = Some p" "le_generate e = Some kid" by auto
    then show ?thesis by (rule minted)
  qed
qed

lemma tracks_provision: "provision_keys e run alias s = (res, s') \<Longrightarrow> tracks run s s'"
  by (rule tracks_same_runs) (simp add: provision_frame)

lemma entry_of_tracks:
  assumes "tracks run s s'"
  shows "entry_of x s' = None \<longleftrightarrow> entry_of x s = None"
proof -
  from assms obtain f where f: "ls_runs s' = map (\<lambda>r. if re_run r = run then f r else r) (ls_runs s)"
    "\<And>r. re_run (f r) = re_run r" unfolding tracks_def by blast
  have "map re_run (ls_runs s') = map re_run (ls_runs s)" using f(2) by (simp add: f(1))
  then have "re_run ` set (ls_runs s') = re_run ` set (ls_runs s)" by (metis list.set_map)
  moreover have "entry_of x u = None \<longleftrightarrow> x \<notin> re_run ` set (ls_runs u)" for u
    by (auto simp: entry_of_def find_None_iff)
  ultimately show ?thesis by simp
qed

lemma tracks_seed: "seed_instance_rows e run insts n s = (res, s') \<Longrightarrow> tracks run s s'"
  by (rule tracks_same_runs) (auto simp: seed_instance_rows_def Let_def split: if_splits)

lemma tracks_register: "entry_of run s \<noteq> None \<Longrightarrow> tracks run s (register_run run c w s)"
proof -
  assume e: "entry_of run s \<noteq> None"
  have "tracks run s (update_run run (\<lambda>r. r\<lparr>re_window := Some w\<rparr>) s)" by (rule tracks_update) simp_all
  then show ?thesis using e by (simp add: register_run_def Let_def tracks_def update_run_def)
qed

lemma tracks_dispatch:
  assumes "dispatch_run e run c insts s = (res, s')" "entry_of run s \<noteq> None"
  shows "tracks run s s'"
proof -
  show ?thesis
  proof (cases "cache_precondition e")
    case (Inl x)
    with assms(1) show ?thesis by (simp add: dispatch_run_def)
  next
    case m: (Inr m)
    show ?thesis
    proof (cases "resolve_context_window c (le_baked e) (le_live_info e)")
      case None
      with m assms(1) show ?thesis by (simp add: dispatch_run_def)
    next
      case (Some w)
      then have "ls_runs s' = ls_runs (register_run run c w s)"
        using m assms(1)
        by (auto simp: dispatch_run_def seed_expected_def Let_def split: option.split_asm prod.split_asm)
      with tracks_register [OF assms(2)] show ?thesis by (rule tracks_by_runs)
    qed
  qed
qed

lemma tracks_tail:
  assumes "launch_tail e run c insts s = (res, s')" "entry_of run s \<noteq> None"
  shows "tracks run s s'"
proof -
  obtain seeded s1 where seed: "seed_instance_rows e run insts (rc_attempts c) (put_status run ''seeding'' s) = (seeded, s1)"
    by fastforce
  obtain r2 s2 where disp: "dispatch_run e run c insts (put_status run ''dispatching'' s1) = (r2, s2)" by fastforce
  have t1: "tracks run s s1" by (rule tracks_trans [OF tracks_put_status tracks_seed [OF seed]])
  have t2: "tracks run s (put_status run ''dispatching'' s1)" by (rule tracks_trans [OF t1 tracks_put_status])
  have "entry_of run (put_status run ''dispatching'' s1) \<noteq> None" using entry_of_tracks [OF t2] assms(2) by simp
  from tracks_trans [OF t2 tracks_dispatch [OF disp this]] have t3: "tracks run s s2" .
  have t4: "tracks run s (put_status run ''running'' s2)" by (rule tracks_trans [OF t3 tracks_put_status])
  from assms(1) show ?thesis
    using t1 t3 t4 by (auto simp: launch_tail_def seed disp split: option.splits sum.splits)
qed

section \<open>One run per pair\<close>

definition pairs_exclusive :: "launch_state \<Rightarrow> bool" where
  "pairs_exclusive s \<longleftrightarrow> distinct (map re_run (ls_runs s)) \<and>
     (\<forall>r \<in> set (ls_runs s). \<forall>r' \<in> set (ls_runs s). re_active_key r \<noteq> None \<longrightarrow> re_active_key r = re_active_key r' \<longrightarrow> r = r')"

lemma tracks_exclusive:
  assumes "tracks run s s'" "pairs_exclusive s"
  shows "pairs_exclusive s'"
proof -
  from assms(1) obtain f where f: "ls_runs s' = map (\<lambda>r. if re_run r = run then f r else r) (ls_runs s)"
    "\<And>r. re_run (f r) = re_run r" "\<And>r. re_active_key (f r) \<in> {re_active_key r, None}" unfolding tracks_def by blast
  define g where "g = (\<lambda>r. if re_run r = run then f r else r)"
  have runs: "map re_run (ls_runs s') = map re_run (ls_runs s)" using f(2) by (simp add: f(1))
  have g: "re_active_key (g r) = re_active_key r \<or> re_active_key (g r) = None" for r using f(3) [of r] by (simp add: g_def)
  have "g r = g r'" if "r \<in> set (ls_runs s)" "r' \<in> set (ls_runs s)" "re_active_key (g r) \<noteq> None"
    "re_active_key (g r) = re_active_key (g r')" for r r'
  proof -
    have "re_active_key r \<noteq> None" "re_active_key r = re_active_key r'" using g [of r] g [of r'] that(3,4) by auto
    with assms(2) that(1,2) have "r = r'" unfolding pairs_exclusive_def by blast
    then show ?thesis by simp
  qed
  moreover have "set (ls_runs s') = g ` set (ls_runs s)" by (simp add: f(1) g_def)
  ultimately show ?thesis using assms(2) unfolding pairs_exclusive_def runs by auto
qed

lemma new_entry_simps [simp]:
  "re_run (new_entry run st k) = run" "re_status (new_entry run st k) = st" "re_active_key (new_entry run st k) = k"
  "re_litellm_key (new_entry run st k) = None" "re_openrouter_hash (new_entry run st k) = None" "re_window (new_entry run st k) = None"
  by (simp_all add: new_entry_def)

lemma claim_cases:
  assumes "claim run h a s = Inr s'"
  shows "\<forall>r \<in> set (ls_runs s). re_run r \<noteq> run \<and> re_active_key r \<noteq> Some (pair_key h a)"
    "s' = s\<lparr>ls_runs := ls_runs s @ [new_entry run ''claimed'' (Some (pair_key h a))]\<rparr>"
  using assms by (simp_all add: claim_def Let_def split: if_split_asm)

lemma claim_exclusive:
  assumes "claim run h a s = Inr s'" "pairs_exclusive s"
  shows "pairs_exclusive s'"
proof -
  define n where "n = new_entry run ''claimed'' (Some (pair_key h a))"
  have n: "re_run n = run" "re_active_key n = Some (pair_key h a)" by (simp_all add: n_def)
  note fresh = claim_cases(1) [OF assms(1)]
  have runs: "ls_runs s' = ls_runs s @ [n]" using claim_cases(2) [OF assms(1)] by (simp add: n_def)
  from assms(2) have old: "distinct (map re_run (ls_runs s))"
    "r \<in> set (ls_runs s) \<Longrightarrow> r' \<in> set (ls_runs s) \<Longrightarrow> re_active_key r \<noteq> None \<Longrightarrow> re_active_key r = re_active_key r' \<Longrightarrow> r = r'" for r r'
    unfolding pairs_exclusive_def by blast+
  have "run \<notin> re_run ` set (ls_runs s)" using fresh by blast
  with old(1) have "distinct (map re_run (ls_runs s'))" by (simp add: runs n)
  moreover have "r = r'" if "r \<in> set (ls_runs s')" "r' \<in> set (ls_runs s')" "re_active_key r \<noteq> None"
    "re_active_key r = re_active_key r'" for r r'
  proof (cases "r \<in> set (ls_runs s) \<and> r' \<in> set (ls_runs s)")
    case True
    with old(2) that(3,4) show ?thesis by blast
  next
    case False
    with that(1,2) have "r = n \<or> r' = n" unfolding runs by simp blast
    moreover have "x = n" if "x \<in> set (ls_runs s')" "re_active_key x = re_active_key n" for x
      using that fresh unfolding runs n by simp blast
    ultimately show ?thesis using that by metis
  qed
  ultimately show ?thesis unfolding pairs_exclusive_def by blast
qed

lemma claimed_entry:
  assumes "claim run h a s = Inr s'"
  shows "entry_of run s' \<noteq> None"
  by (simp add: claim_cases(2) [OF assms] entry_of_def find_None_iff) (metis new_entry_simps(1))

text \<open>A launch past its claim leaves the rows of other runs alone.\<close>

lemma launch_tracks:
  assumes "launch_run e run c insts s = (res, s')" "\<not> le_paused e" "claim run (rc_harness c) (rc_model_alias c) s = Inr s1"
  shows "tracks run s1 s'"
proof -
  let ?s2 = "put_status run ''provisioning'' s1"
  obtain kh s3 where prov: "provision_keys e run (rc_model_alias c) ?s2 = (kh, s3)" by fastforce
  have t3: "tracks run s1 s3" by (rule tracks_trans [OF tracks_put_status tracks_provision [OF prov]])
  show ?thesis
  proof (cases kh)
    case (Inl x)
    with assms prov t3 show ?thesis by (simp add: launch_run_def)
  next
    case (Inr p)
    obtain kid h where p: "p = (kid, h)" by fastforce
    obtain ok s4 where pause: "check_pause e run kid (record_key_ids run kid h s3) = (ok, s4)" by fastforce
    have t4: "tracks run s1 s4" by (rule tracks_trans [OF tracks_trans [OF t3 tracks_record] tracks_check_pause [OF pause]])
    show ?thesis
    proof (cases ok)
      case False
      with assms prov Inr p pause t4 show ?thesis by (simp add: launch_run_def)
    next
      case True
      obtain r s5 where tail: "launch_tail e run c insts s4 = (r, s5)" by fastforce
      have "entry_of run s4 \<noteq> None" using entry_of_tracks [OF t4] claimed_entry [OF assms(3)] by simp
      from tracks_trans [OF t4 tracks_tail [OF tail this]] show ?thesis
        using assms prov Inr p pause tail True by (simp add: launch_run_def)
    qed
  qed
qed

lemma launch_exclusive:
  assumes "pairs_exclusive s"
  shows "pairs_exclusive (snd (launch_run e run c insts s))"
proof (cases "le_paused e")
  case True
  with assms show ?thesis by (simp add: launch_run_def)
next
  case False
  show ?thesis
  proof (cases "claim run (rc_harness c) (rc_model_alias c) s")
    case (Inl x)
    with False assms show ?thesis by (simp add: launch_run_def)
  next
    case (Inr s1)
    obtain res s' where run: "launch_run e run c insts s = (res, s')" by fastforce
    from tracks_exclusive [OF launch_tracks [OF run False Inr] claim_exclusive [OF Inr assms]] show ?thesis by (simp add: run)
  qed
qed

lemma revoke_frame:
  "revoke_run_keys e run s = (ok, s') \<Longrightarrow>
     ls_runs s' = ls_runs s \<and> ls_table s' = ls_table s \<and> ls_jobs s' = ls_jobs s \<and> ls_served s' = ls_served s"
  by (auto simp: revoke_run_keys_def Let_def split: if_split_asm)

lemma step_exclusive: "pairs_exclusive s \<Longrightarrow> pairs_exclusive (launch_step a s)"
proof (cases a)
  case (Launch e run c insts)
  moreover assume "pairs_exclusive s"
  ultimately show ?thesis by (simp add: launch_exclusive)
next
  case (Abort_end e run)
  assume ex: "pairs_exclusive s"
  obtain ok s1 where r: "revoke_run_keys e run (put_status run ''aborted'' s) = (ok, s1)" by fastforce
  have t1: "tracks run s s1" using tracks_by_runs [OF tracks_put_status] revoke_frame [OF r] by blast
  have "tracks run s (release_active_key run s1)"
    by (rule tracks_trans [OF t1]) (simp add: release_active_key_def tracks_update)
  with t1 ex show ?thesis by (simp add: Abort_end abort_release_def r tracks_exclusive)
next
  case (Close_end e run)
  assume ex: "pairs_exclusive s"
  obtain ok s1 where r: "revoke_run_keys e run s = (ok, s1)" by fastforce
  have t1: "tracks run s s1" by (rule tracks_same_runs) (simp add: revoke_frame [OF r])
  have "tracks run s (update_run run (\<lambda>r. r\<lparr>re_active_key := None, re_status := ''completed''\<rparr>) s1)"
    by (rule tracks_trans [OF t1]) (simp add: tracks_update)
  with t1 ex show ?thesis by (cases ok) (simp_all add: Close_end finalise_launched_def r tracks_exclusive)
qed

lemma taken_pair_refused:
  assumes "pairs_exclusive s" "r \<in> set (ls_runs s)" "re_active_key r = Some (pair_key (rc_harness c) (rc_model_alias c))"
    "\<not> le_paused e"
  shows "launch_run e run c insts s = (Inl (Duplicate_run (re_run r)), s)"
proof -
  let ?key = "pair_key (rc_harness c) (rc_model_alias c)"
  have uniq: "r' = r" if "r' \<in> set (ls_runs s)" "re_active_key r' = Some ?key" for r'
    using assms(1-3) that unfolding pairs_exclusive_def by (metis option.distinct(1))
  have "find (\<lambda>x. re_active_key x = Some ?key) (ls_runs s) = Some r"
  proof (cases "find (\<lambda>x. re_active_key x = Some ?key) (ls_runs s)")
    case None
    with assms(2,3) show ?thesis by (auto simp: find_None_iff)
  next
    case (Some x)
    then have "x \<in> set (ls_runs s)" "re_active_key x = Some ?key" by (auto simp: find_Some_iff)
    with uniq Some show ?thesis by simp
  qed
  with assms(2-4) show ?thesis by (auto simp: launch_run_def claim_def Let_def)
qed

text \<open>
  C4: A pair of harness and model has at most one active run. Whatever launches, aborts and closes
  follow one another, no two rows ever hold the same pair; and a launch on a pair that a run holds is
  refused with the name of that run and changes nothing.
\<close>

theorem pairs_stay_exclusive:
  assumes "pairs_exclusive s"
  shows "pairs_exclusive (fold launch_step actions s) \<and>
    (\<forall>r \<in> set (ls_runs s). re_active_key r = Some (pair_key (rc_harness c) (rc_model_alias c)) \<and> \<not> le_paused e \<longrightarrow>
       launch_run e run c insts s = (Inl (Duplicate_run (re_run r)), s))"
proof
  show "pairs_exclusive (fold launch_step actions s)"
    using assms by (induction actions arbitrary: s) (simp_all add: step_exclusive)
  show "\<forall>r \<in> set (ls_runs s). re_active_key r = Some (pair_key (rc_harness c) (rc_model_alias c)) \<and> \<not> le_paused e \<longrightarrow>
       launch_run e run c insts s = (Inl (Duplicate_run (re_run r)), s)"
    using taken_pair_refused [OF assms] by blast
qed

section \<open>What a launch leaves\<close>

text \<open>The status a launch ends with, by its result.\<close>

fun stopped_at :: "launch_error + nat \<times> nat \<Rightarrow> string" where
  "stopped_at (Inr n) = ''running''"
| "stopped_at (Inl Seeding_failed) = ''seeding''"
| "stopped_at (Inl No_provisioning_key) = ''provisioning''"
| "stopped_at (Inl Key_call_failed) = ''provisioning''"
| "stopped_at (Inl Block_call_failed) = ''provisioning''"
| "stopped_at (Inl x) = ''dispatching''"

definition job_row :: "harness_job \<Rightarrow> row_key" where
  "job_row j = (hj_run_id j, hj_instance_id j, hj_attempt j, ''harness'')"

lemma entry_update [simp]:
  assumes "\<And>r. re_run (f r) = re_run r"
  shows "entry_of run (update_run run f s) = map_option f (entry_of run s)"
proof -
  have "find (\<lambda>r. re_run r = run) (map (\<lambda>r. if re_run r = run then f r else r) rs) = map_option f (find (\<lambda>r. re_run r = run) rs)" for rs
    by (induction rs) (simp_all add: assms)
  then show ?thesis by (simp add: entry_of_def update_run_def)
qed

lemma entry_same_runs: "ls_runs s' = ls_runs s \<Longrightarrow> entry_of run s' = entry_of run s"
  by (simp add: entry_of_def)

lemma update_frame [simp]:
  "ls_table (update_run run f s) = ls_table s" "ls_jobs (update_run run f s) = ls_jobs s"
  "ls_virtual (update_run run f s) = ls_virtual s" "ls_provider (update_run run f s) = ls_provider s"
  "ls_served (update_run run f s) = ls_served s" "ls_cached (update_run run f s) = ls_cached s"
  by (simp_all add: update_run_def)

lemma put_status_entry [simp]:
  "entry_of run (put_status run x s) = map_option (\<lambda>r. r\<lparr>re_status := x\<rparr>) (entry_of run s)"
  by (simp add: put_status_def)

lemma put_status_frame [simp]:
  "ls_table (put_status run x s) = ls_table s" "ls_jobs (put_status run x s) = ls_jobs s"
  "ls_virtual (put_status run x s) = ls_virtual s" "ls_provider (put_status run x s) = ls_provider s"
  "ls_served (put_status run x s) = ls_served s" "ls_cached (put_status run x s) = ls_cached s"
  by (simp_all add: put_status_def)

lemma record_key_entry [simp]:
  "entry_of run (record_key_ids run kid h s) =
     map_option (\<lambda>r. r\<lparr>re_litellm_key := Some kid, re_openrouter_hash := Some h\<rparr>) (entry_of run s)"
  by (simp add: record_key_ids_def)

lemma record_key_frame [simp]:
  "ls_table (record_key_ids run kid h s) = ls_table s" "ls_jobs (record_key_ids run kid h s) = ls_jobs s"
  "ls_virtual (record_key_ids run kid h s) = ls_virtual s" "ls_provider (record_key_ids run kid h s) = ls_provider s"
  "ls_served (record_key_ids run kid h s) = ls_served s" "ls_cached (record_key_ids run kid h s) = ls_cached s"
  by (simp_all add: record_key_ids_def)

lemma check_pause_entry:
  assumes "check_pause e run kid s = (ok, s')" "entry_of run s = Some r"
  shows "\<exists>b. entry_of run s' = Some (r\<lparr>re_blocked_by := b\<rparr>)"
proof -
  from check_pause_runs [OF assms(1)] obtain f where
    f: "ls_runs s' = map (\<lambda>r. if re_run r = run then r\<lparr>re_blocked_by := f r\<rparr> else r) (ls_runs s)" by blast
  have "entry_of run s' = entry_of run (update_run run (\<lambda>r. r\<lparr>re_blocked_by := f r\<rparr>) s)"
    by (rule entry_same_runs) (simp add: f update_run_def)
  then show ?thesis using assms(2) by auto
qed

lemma check_pause_frame:
  assumes "check_pause e run kid s = (ok, s')"
  shows "ls_table s' = ls_table s \<and> ls_jobs s' = ls_jobs s \<and> ls_virtual s' = ls_virtual s \<and> ls_provider s' = ls_provider s \<and>
    ls_served s' = ls_served s \<and> ls_cached s' = ls_cached s"
  using check_pause_runs [OF assms] by blast

subsection \<open>Seeding\<close>

lemma seed_fold_rows: "map_of (fold (seed_row_once now) ks t) k = None \<longleftrightarrow> map_of t k = None \<and> k \<notin> set ks"
  by (induction ks arbitrary: t)
     (auto simp: seed_row_once_def update_conv' split: option.split)

lemma seed_keeps_rows: "map_of t k = Some r \<Longrightarrow> map_of (fold (seed_row_once now) ks t) k = Some r"
proof (induction ks arbitrary: t)
  case (Cons a ks)
  have "map_of (seed_row_once now a t) k = Some r"
    using Cons.prems by (auto simp: seed_row_once_def update_conv' split: option.split)
  with Cons.IH show ?case by simp
qed simp

lemma seeded_result:
  assumes "seed_instance_rows e run insts n s = (Some k, s')"
  shows "k = length (attempt_keys run n insts) \<and> ls_table s' = fold (seed_row_once (le_now e)) (attempt_keys run n insts) (ls_table s) \<and>
    ls_runs s' = ls_runs s \<and> ls_jobs s' = ls_jobs s \<and> ls_virtual s' = ls_virtual s \<and> ls_provider s' = ls_provider s \<and>
    ls_served s' = ls_served s \<and> ls_cached s' = ls_cached s"
  using assms by (auto simp: seed_instance_rows_def Let_def split: if_split_asm)

lemma seeding_failed:
  assumes "seed_instance_rows e run insts n s = (None, s')"
  shows "s' = s"
  using assms by (auto simp: seed_instance_rows_def Let_def split: if_split_asm)

subsection \<open>Dispatch\<close>

lemma job_row_for [simp]: "job_row (job_for run c w i a) = (run, in_id i, a, ''harness'')"
  by (simp add: job_row_def job_for_def)

lemma rows_of_jobs: "map job_row (List.concat (map (jobs_of run c w) insts)) = attempt_keys run (rc_attempts c) insts"
  by (simp add: map_concat attempt_keys_def jobs_of_def comp_def)

text \<open>The jobs sent are a first part of all the jobs, and how the loop ends.\<close>

lemma dispatch_instances_result:
  assumes "dispatch_instances e run c w m insts = (sent, err)"
  shows "prefix sent (List.concat (map (jobs_of run c w) insts)) \<and>
    (err = None \<longrightarrow> sent = List.concat (map (jobs_of run c w) insts)) \<and>
    (\<forall>x. err = Some (Instance_refused x) \<longrightarrow>
       (\<exists>a i b. insts = a @ i # b \<and> in_id i = x \<and> sent = List.concat (map (jobs_of run c w) a))) \<and>
    (err = None \<or> err = Some Queue_failed \<or> (\<exists>x. err = Some (Instance_refused x)))"
  using assms
proof (induction insts arbitrary: sent err)
  case (Cons i insts)
  let ?refused = "case m of None \<Rightarrow> False | Some mf \<Rightarrow> \<not> image_admitted (in_id i) mf (le_digests e)"
  let ?jobs = "jobs_of run c w i" and ?sent = "takeWhile (le_send_ok e) (jobs_of run c w i)"
  show ?case
  proof (cases ?refused)
    case True
    with Cons.prems show ?thesis by (auto intro: exI [of _ "[]"])
  next
    case kept: False
    show ?thesis
    proof (cases "length ?sent < length ?jobs")
      case True
      have "prefix ?sent (?jobs @ List.concat (map (jobs_of run c w) insts))"
        using prefix_prefix [OF takeWhile_is_prefix] by blast
      with True kept Cons.prems show ?thesis by auto
    next
      case False
      obtain zs where "?jobs = ?sent @ zs" using takeWhile_is_prefix [of "le_send_ok e" ?jobs] by (auto simp: prefix_def)
      with False have all: "?sent = ?jobs" by (metis append_Nil2 length_append length_0_conv less_add_same_cancel1 linorder_neqE_nat not_less_zero)
      obtain rest err' where rest: "dispatch_instances e run c w m insts = (rest, err')" by fastforce
      have sent: "sent = ?jobs @ rest" "err = err'" using Cons.prems False kept rest all by auto
      note ih = Cons.IH [OF rest]
      have "\<exists>a j b. i # insts = a @ j # b \<and> in_id j = x \<and> sent = List.concat (map (jobs_of run c w) a)"
        if "err' = Some (Instance_refused x)" for x
      proof -
        from ih that obtain a j b where "insts = a @ j # b" "in_id j = x" "rest = List.concat (map (jobs_of run c w) a)" by blast
        then have "i # insts = (i # a) @ j # b \<and> in_id j = x \<and> sent = List.concat (map (jobs_of run c w) (i # a))"
          using sent(1) by simp
        then show ?thesis by blast
      qed
      then show ?thesis using ih sent by auto
    qed
  qed
qed simp

lemma register_frame:
  "ls_table (register_run run c w s) = ls_table s \<and> ls_jobs (register_run run c w s) = ls_jobs s \<and>
   ls_virtual (register_run run c w s) = ls_virtual s \<and> ls_provider (register_run run c w s) = ls_provider s \<and>
   ls_served (register_run run c w s) = ls_served s \<and> ls_cached (register_run run c w s) = ls_cached s"
  by (auto simp: register_run_def Let_def)

lemma register_entry:
  assumes "entry_of run s = Some r"
  shows "entry_of run (register_run run c w s) = Some (r\<lparr>re_window := Some w\<rparr>)"
proof -
  have "entry_of run (register_run run c w s) = entry_of run (update_run run (\<lambda>r. r\<lparr>re_window := Some w\<rparr>) s)"
    by (rule entry_same_runs) (simp add: register_run_def Let_def assms)
  with assms show ?thesis by simp
qed

definition dispatch_errors :: "launch_error set" where
  "dispatch_errors = {Cache_not_built, Cache_empty, Bad_window, Queue_failed} \<union> range Instance_refused"

lemma precondition_errors: "cache_precondition e = Inl x \<Longrightarrow> x \<in> dispatch_errors"
  by (auto simp: cache_precondition_def dispatch_errors_def split: if_split_asm option.split_asm)

text \<open>What a dispatch leaves: the jobs it sends, and the window it records before.\<close>

lemma dispatch_result:
  assumes "dispatch_run e run c insts s = (res, s')" "entry_of run s = Some r"
  shows "\<exists>sent win. ls_jobs s' = ls_jobs s @ sent \<and> entry_of run s' = Some (r\<lparr>re_window := win\<rparr>) \<and>
    ls_table s' = ls_table s \<and> ls_virtual s' = ls_virtual s \<and> ls_provider s' = ls_provider s \<and> ls_served s' = ls_served s \<and>
    ls_cached s' = ls_cached s \<and> set (map job_row sent) \<subseteq> set (attempt_keys run (rc_attempts c) insts) \<and>
    (\<forall>x. res = Inl x \<longrightarrow> x \<in> dispatch_errors) \<and>
    (\<forall>n. res = Inr n \<longrightarrow> (\<exists>w. resolve_context_window c (le_baked e) (le_live_info e) = Some w \<and> win = Some w \<and>
       sent = List.concat (map (jobs_of run c (fst w)) insts) \<and> n = length sent)) \<and>
    (\<forall>x. res = Inl (Instance_refused x) \<longrightarrow>
       (\<exists>w a i b. resolve_context_window c (le_baked e) (le_live_info e) = Some w \<and> insts = a @ i # b \<and> in_id i = x \<and>
          sent = List.concat (map (jobs_of run c (fst w)) a)))"
proof -
  have stay: ?thesis if "s' = s" "res = Inl x" "x \<in> dispatch_errors" "\<And>y. x \<noteq> Instance_refused y" for x
    using that assms(2) by (intro exI [of _ "[]"] exI [of _ "re_window r"]) auto
  show ?thesis
  proof (cases "cache_precondition e")
    case (Inl x)
    then have "\<And>y. x \<noteq> Instance_refused y" by (auto simp: cache_precondition_def split: if_split_asm option.split_asm)
    with Inl assms(1) show ?thesis by (intro stay [OF _ _ precondition_errors [OF Inl]]) (simp_all add: dispatch_run_def)
  next
    case m: (Inr m)
    show ?thesis
    proof (cases "resolve_context_window c (le_baked e) (le_live_info e)")
      case None
      with m assms(1) show ?thesis by (intro stay [of Bad_window]) (simp_all add: dispatch_run_def dispatch_errors_def)
    next
      case (Some w)
      obtain sent err where d: "dispatch_instances e run c (fst w) m insts = (sent, err)" by fastforce
      note dr = dispatch_instances_result [OF d]
      have jobs: "ls_jobs s' = ls_jobs s @ sent" and runs: "ls_runs s' = ls_runs (register_run run c w s)"
        and res: "res = (case err of None \<Rightarrow> Inr (length sent) | Some x \<Rightarrow> Inl x)"
        and rest: "ls_table s' = ls_table s" "ls_virtual s' = ls_virtual s" "ls_provider s' = ls_provider s"
          "ls_served s' = ls_served s" "ls_cached s' = ls_cached s"
        using assms(1) m Some register_frame [of run c w s]
        by (auto simp: dispatch_run_def d Let_def seed_expected_def split: option.split_asm)
      have entry: "entry_of run s' = Some (r\<lparr>re_window := Some w\<rparr>)"
        using entry_same_runs [OF runs] register_entry [OF assms(2)] by simp
      have "set (map job_row sent) \<subseteq> set (map job_row (List.concat (map (jobs_of run c (fst w)) insts)))"
        unfolding set_map by (rule image_mono [OF set_mono_prefix [OF conjunct1 [OF dr]]])
      then have rows: "set (map job_row sent) \<subseteq> set (attempt_keys run (rc_attempts c) insts)" by (simp only: rows_of_jobs)
      have errs: "err = None \<or> err = Some Queue_failed \<or> (\<exists>x. err = Some (Instance_refused x))" using dr by blast
      have fine: "err = None \<longrightarrow> sent = List.concat (map (jobs_of run c (fst w)) insts)" using dr by blast
      have part: "\<forall>x. err = Some (Instance_refused x) \<longrightarrow>
          (\<exists>a i b. insts = a @ i # b \<and> in_id i = x \<and> sent = List.concat (map (jobs_of run c (fst w)) a))" using dr by blast
      show ?thesis
      proof (intro exI [of _ sent] exI [of _ "Some w"] conjI allI impI)
        fix x assume "res = Inl x"
        then show "x \<in> dispatch_errors" using errs res by (auto simp: dispatch_errors_def split: option.split_asm)
      next
        fix n assume "res = Inr n"
        then have "err = None" "n = length sent" using res by (auto split: option.split_asm)
        with fine Some show "\<exists>wa. resolve_context_window c (le_baked e) (le_live_info e) = Some wa \<and> Some w = Some wa \<and>
          sent = List.concat (map (jobs_of run c (fst wa)) insts) \<and> n = length sent" by simp
      next
        fix x assume "res = Inl (Instance_refused x)"
        then have "err = Some (Instance_refused x)" using res by (auto split: option.split_asm)
        with part Some show "\<exists>wa a i b. resolve_context_window c (le_baked e) (le_live_info e) = Some wa \<and> insts = a @ i # b \<and>
          in_id i = x \<and> sent = List.concat (map (jobs_of run c (fst wa)) a)" by blast
      qed (use jobs entry rest rows in auto)
    qed
  qed
qed

text \<open>The end of the sequence, from a run whose keys are recorded.\<close>

lemma tail_result:
  assumes "launch_tail e run c insts s = (res, s')" "entry_of run s = Some r"
  shows "\<exists>sent win. ls_jobs s' = ls_jobs s @ sent \<and> entry_of run s' = Some (r\<lparr>re_status := stopped_at res, re_window := win\<rparr>) \<and>
    ls_virtual s' = ls_virtual s \<and> ls_provider s' = ls_provider s \<and> ls_served s' = ls_served s \<and> ls_cached s' = ls_cached s \<and>
    (\<forall>k rw. map_of (ls_table s) k = Some rw \<longrightarrow> map_of (ls_table s') k = Some rw) \<and>
    (\<forall>j \<in> set sent. map_of (ls_table s') (job_row j) \<noteq> None) \<and>
    (\<forall>x. res = Inl x \<longrightarrow> x \<in> insert Seeding_failed dispatch_errors) \<and>
    (res = Inl Seeding_failed \<longrightarrow> sent = [] \<and> ls_table s' = ls_table s) \<and>
    (\<forall>n k. res = Inr (n, k) \<longrightarrow> (\<exists>w. resolve_context_window c (le_baked e) (le_live_info e) = Some w \<and> win = Some w \<and>
       sent = List.concat (map (jobs_of run c (fst w)) insts) \<and> n = length sent \<and> k = length sent)) \<and>
    (\<forall>x. res = Inl (Instance_refused x) \<longrightarrow>
       (\<exists>w a i b. resolve_context_window c (le_baked e) (le_live_info e) = Some w \<and> insts = a @ i # b \<and> in_id i = x \<and>
          sent = List.concat (map (jobs_of run c (fst w)) a)))"
proof -
  obtain seeded s1 where seed: "seed_instance_rows e run insts (rc_attempts c) (put_status run ''seeding'' s) = (seeded, s1)"
    by fastforce
  show ?thesis
  proof (cases seeded)
    case None
    with seeding_failed [of e run insts "rc_attempts c"] seed have s1: "s1 = put_status run ''seeding'' s" by blast
    with None seed assms(1) have r: "res = Inl Seeding_failed" "s' = s1" by (simp_all add: launch_tail_def)
    have "entry_of run s' = Some (r\<lparr>re_status := ''seeding'', re_window := re_window r\<rparr>)" using assms(2) by (simp add: r s1)
    then show ?thesis
      by (intro exI [of _ "[]"] exI [of _ "re_window r"]) (simp add: r s1)
  next
    case (Some k)
    note sr = seeded_result [OF seed [unfolded Some]]
    let ?s2 = "put_status run ''dispatching'' s1"
    obtain r2 s3 where disp: "dispatch_run e run c insts ?s2 = (r2, s3)" by fastforce
    have e1: "entry_of run s1 = Some (r\<lparr>re_status := ''seeding''\<rparr>)"
      using assms(2) sr by (subst entry_same_runs [of s1 "put_status run ''seeding'' s"]) simp_all
    then have e2: "entry_of run ?s2 = Some (r\<lparr>re_status := ''dispatching''\<rparr>)" by simp
    from dispatch_result [OF disp e2] obtain sent win where
      d: "ls_jobs s3 = ls_jobs ?s2 @ sent" "entry_of run s3 = Some (r\<lparr>re_status := ''dispatching'', re_window := win\<rparr>)"
        "ls_table s3 = ls_table ?s2" "ls_virtual s3 = ls_virtual ?s2" "ls_provider s3 = ls_provider ?s2"
        "ls_served s3 = ls_served ?s2" "ls_cached s3 = ls_cached ?s2"
        "set (map job_row sent) \<subseteq> set (attempt_keys run (rc_attempts c) insts)"
        "\<forall>x. r2 = Inl x \<longrightarrow> x \<in> dispatch_errors"
        "\<forall>n. r2 = Inr n \<longrightarrow> (\<exists>w. resolve_context_window c (le_baked e) (le_live_info e) = Some w \<and> win = Some w \<and>
           sent = List.concat (map (jobs_of run c (fst w)) insts) \<and> n = length sent)"
        "\<forall>x. r2 = Inl (Instance_refused x) \<longrightarrow>
           (\<exists>w a i b. resolve_context_window c (le_baked e) (le_live_info e) = Some w \<and> insts = a @ i # b \<and> in_id i = x \<and>
              sent = List.concat (map (jobs_of run c (fst w)) a))"
      by auto
    have table: "ls_table s3 = fold (seed_row_once (le_now e)) (attempt_keys run (rc_attempts c) insts) (ls_table s)"
      using d(3) sr by simp
    have old: "\<forall>k rw. map_of (ls_table s) k = Some rw \<longrightarrow> map_of (ls_table s3) k = Some rw"
      by (simp add: table seed_keeps_rows)
    have have_rows: "\<forall>j \<in> set sent. map_of (ls_table s3) (job_row j) \<noteq> None"
      using d(8) by (auto simp: table seed_fold_rows)
    show ?thesis
    proof (cases r2)
      case (Inl x)
      have r: "res = Inl x" "s' = s3" using assms(1) seed Some disp Inl by (simp_all add: launch_tail_def)
      have x: "x \<in> dispatch_errors" using d(9) Inl by blast
      then have st: "stopped_at res = ''dispatching''" "x \<noteq> Seeding_failed" by (auto simp: r dispatch_errors_def)
      show ?thesis
        by (rule exI [of _ sent], rule exI [of _ win])
           (use d sr old have_rows x st Inl in \<open>simp add: r\<close>)
    next
      case (Inr n)
      have r: "res = Inr (n, k)" "s' = put_status run ''running'' s3" using assms(1) seed Some disp Inr by (simp_all add: launch_tail_def)
      from d(10) Inr obtain w where w: "resolve_context_window c (le_baked e) (le_live_info e) = Some w" "win = Some w"
        "sent = List.concat (map (jobs_of run c (fst w)) insts)" "n = length sent" by blast
      have k: "k = length sent" using conjunct1 [OF sr] rows_of_jobs [of run c "fst w" insts] w(3) by (metis length_map)
      show ?thesis
        by (rule exI [of _ sent], rule exI [of _ win])
           (use d sr old have_rows w k in \<open>simp add: r\<close>)
    qed
  qed
qed

subsection \<open>The whole sequence\<close>

lemma entry_mem: "entry_of run s = Some r \<Longrightarrow> r \<in> set (ls_runs s) \<and> re_run r = run"
  by (auto simp: entry_of_def find_Some_iff)

lemma claim_entry:
  assumes "claim run h a s = Inr s1"
  shows "entry_of run s1 = Some (new_entry run ''claimed'' (Some (pair_key h a)))"
proof -
  have "\<forall>r \<in> set (ls_runs s). re_run r \<noteq> run" using claim_cases(1) [OF assms] by blast
  then have "find (\<lambda>r. re_run r = run) (ls_runs s) = None" by (simp add: find_None_iff)
  moreover have "find P (xs @ ys) = (case find P xs of None \<Rightarrow> find P ys | Some x \<Rightarrow> Some x)" for P :: "run_entry \<Rightarrow> bool" and xs ys
    by (induction xs) simp_all
  ultimately show ?thesis by (simp add: claim_cases(2) [OF assms] entry_of_def)
qed

lemma claim_frame:
  assumes "claim run h a s = Inr s1"
  shows "ls_table s1 = ls_table s \<and> ls_jobs s1 = ls_jobs s \<and> ls_virtual s1 = ls_virtual s \<and> ls_provider s1 = ls_provider s \<and>
    ls_served s1 = ls_served s \<and> ls_cached s1 = ls_cached s"
  by (simp add: claim_cases(2) [OF assms])

lemma provision_errors:
  assumes "provision_keys e run alias s = (Inl x, s')"
  shows "x = No_provisioning_key \<or> x = Key_call_failed"
proof (cases "le_provisioning_key e = None \<or> le_generate e = None")
  case True
  with assms show ?thesis by (cases "le_provisioning_key e") (auto simp: provision_keys_def)
next
  case False
  then obtain p kid where "le_provisioning_key e = Some p" "le_generate e = Some kid" by auto
  with assms show ?thesis
    by (auto simp: provision_keys_def mint_both_def Let_def split: sum.split_asm prod.split_asm if_split_asm option.split_asm)
qed

lemma provision_done:
  assumes "provision_keys e run alias s = (Inr (kid, h), s')"
  shows "le_generate e = Some kid \<and> le_mint e = Some h \<and> ls_virtual s' = ls_virtual s @ [(run, kid)] \<and>
    ls_provider s' = ls_provider s @ [h] \<and> ls_cached s' = ls_cached s @ [run] \<and>
    ls_served s' = (if le_rotatable e alias then AList.update alias h (ls_served s) else ls_served s)"
  using assms
  by (auto simp: provision_keys_def mint_both_def Let_def split: sum.split_asm prod.split_asm if_split_asm option.split_asm)

text \<open>A launch past its claim: it fails while keys are provisioned or at the pause check, or it reaches its end.\<close>

lemma launch_parts:
  assumes "launch_run e run c insts s = (res, s')" "res \<noteq> Inl Launch_paused" "\<And>x. res \<noteq> Inl (Duplicate_run x)"
  obtains (provision) err where "res = Inl err" "err = No_provisioning_key \<or> err = Key_call_failed"
      "entry_of run s' = Some (new_entry run ''provisioning'' (Some (pair_key (rc_harness c) (rc_model_alias c))))"
      "ls_table s' = ls_table s" "ls_jobs s' = ls_jobs s"
    | (pause) r where "res = Inl Block_call_failed"
      "entry_of run s' = Some r" "re_status r = ''provisioning''" "re_active_key r = Some (pair_key (rc_harness c) (rc_model_alias c))"
      "re_litellm_key r \<noteq> None" "ls_table s' = ls_table s" "ls_jobs s' = ls_jobs s"
    | (tail) s3 r kid h where "launch_tail e run c insts s3 = (res, s')" "entry_of run s3 = Some r" "re_run r = run"
      "re_active_key r = Some (pair_key (rc_harness c) (rc_model_alias c))" "re_litellm_key r = Some kid" "re_openrouter_hash r = Some h"
      "ls_table s3 = ls_table s" "ls_jobs s3 = ls_jobs s" "le_generate e = Some kid" "le_mint e = Some h"
      "ls_virtual s3 = ls_virtual s @ [(run, kid)]" "ls_provider s3 = ls_provider s @ [h]" "ls_cached s3 = ls_cached s @ [run]"
      "ls_served s3 = (if le_rotatable e (rc_model_alias c) then AList.update (rc_model_alias c) h (ls_served s) else ls_served s)"
proof -
  have open_gate: "\<not> le_paused e" using assms(1,2) by (auto simp: launch_run_def split: if_split_asm)
  obtain s1 where cl: "claim run (rc_harness c) (rc_model_alias c) s = Inr s1"
  proof (cases "claim run (rc_harness c) (rc_model_alias c) s")
    case (Inl x)
    then have "\<exists>d. x = Duplicate_run d" by (auto simp: claim_def Let_def split: if_split_asm)
    with Inl assms open_gate show ?thesis by (auto simp: launch_run_def)
  qed (rule that)
  let ?s2 = "put_status run ''provisioning'' s1"
  let ?r2 = "new_entry run ''provisioning'' (Some (pair_key (rc_harness c) (rc_model_alias c)))"
  have e2: "entry_of run ?s2 = Some ?r2" using claim_entry [OF cl] by (simp add: new_entry_def)
  note cf = claim_frame [OF cl]
  obtain kh s3 where prov: "provision_keys e run (rc_model_alias c) ?s2 = (kh, s3)" by fastforce
  note pf = provision_frame [OF prov]
  have e3: "entry_of run s3 = Some ?r2" using e2 pf entry_same_runs [of s3 ?s2 run] by simp
  show ?thesis
  proof (cases kh)
    case (Inl x)
    with assms(1) open_gate cl prov have r: "res = Inl x" "s' = s3" by (simp_all add: launch_run_def)
    show ?thesis
      by (rule provision [OF r(1) provision_errors [OF prov [unfolded Inl]]]) (use r e3 pf cf in simp_all)
  next
    case (Inr p)
    obtain kid h where p: "p = (kid, h)" by fastforce
    note pd = provision_done [OF prov [unfolded Inr p]]
    let ?s4 = "record_key_ids run kid h s3"
    obtain ok s5 where chk: "check_pause e run kid ?s4 = (ok, s5)" by fastforce
    note kf = check_pause_frame [OF chk]
    have "entry_of run ?s4 = Some (?r2\<lparr>re_litellm_key := Some kid, re_openrouter_hash := Some h\<rparr>)" using e3 by simp
    from check_pause_entry [OF chk this] obtain r5 where e5: "entry_of run s5 = Some r5"
      and r5: "re_run r5 = run" "re_status r5 = ''provisioning''" "re_active_key r5 = Some (pair_key (rc_harness c) (rc_model_alias c))"
        "re_litellm_key r5 = Some kid" "re_openrouter_hash r5 = Some h" by fastforce
    show ?thesis
    proof (cases ok)
      case False
      with assms(1) open_gate cl prov Inr p chk have r: "res = Inl Block_call_failed" "s' = s5" by (simp_all add: launch_run_def)
      show ?thesis by (rule pause [OF r(1), of r5]) (use r e5 r5 kf pf cf in simp_all)
    next
      case True
      with assms(1) open_gate cl prov Inr p chk have t: "launch_tail e run c insts s5 = (res, s')" by (simp add: launch_run_def)
      show ?thesis by (rule tail [OF t e5]) (use r5 kf pf cf pd in \<open>auto split: if_splits\<close>)
    qed
  qed
qed

text \<open>
  The status of a run tells how far its launch came. Whatever call fails, the run keeps its pair, and
  its status names the step that failed: no job is sent and no row is seeded before dispatching, a
  key id is recorded exactly when the provisioning calls succeeded, every job that was sent has its
  row, rows that existed stay as they were, and it is running exactly when the launch returned.
\<close>

theorem status_tells_how_far:
  assumes "launch_run e run c insts s = (res, s')" "res \<noteq> Inl Launch_paused" "\<And>x. res \<noteq> Inl (Duplicate_run x)"
  shows "\<exists>r sent. entry_of run s' = Some r \<and> re_active_key r = Some (pair_key (rc_harness c) (rc_model_alias c)) \<and>
    re_status r = stopped_at res \<and> (re_status r = ''running'' \<longleftrightarrow> (\<exists>n. res = Inr n)) \<and>
    (re_litellm_key r = None \<longleftrightarrow> res \<in> {Inl No_provisioning_key, Inl Key_call_failed}) \<and>
    ls_jobs s' = ls_jobs s @ sent \<and>
    (re_status r \<in> {''provisioning'', ''seeding''} \<longrightarrow> sent = [] \<and> ls_table s' = ls_table s) \<and>
    (\<forall>j \<in> set sent. map_of (ls_table s') (job_row j) \<noteq> None) \<and>
    (\<forall>k rw. map_of (ls_table s) k = Some rw \<longrightarrow> map_of (ls_table s') k = Some rw)"
  using assms
proof (cases rule: launch_parts)
  case (provision err)
  then show ?thesis by (intro exI [of _ "new_entry run ''provisioning'' (Some (pair_key (rc_harness c) (rc_model_alias c)))"] exI [of _ "[]"]) auto
next
  case (pause r)
  then show ?thesis by (intro exI [of _ r] exI [of _ "[]"]) auto
next
  case (tail s3 r kid h)
  from tail_result [OF tail(1,2)] obtain sent win where
    t: "ls_jobs s' = ls_jobs s3 @ sent" "entry_of run s' = Some (r\<lparr>re_status := stopped_at res, re_window := win\<rparr>)"
      "\<forall>k rw. map_of (ls_table s3) k = Some rw \<longrightarrow> map_of (ls_table s') k = Some rw"
      "\<forall>j \<in> set sent. map_of (ls_table s') (job_row j) \<noteq> None"
      "\<forall>x. res = Inl x \<longrightarrow> x \<in> insert Seeding_failed dispatch_errors"
      "res = Inl Seeding_failed \<longrightarrow> sent = [] \<and> ls_table s' = ls_table s3"
    by auto
  have st: "stopped_at res = (case res of Inr n \<Rightarrow> ''running'' | Inl x \<Rightarrow> if x = Seeding_failed then ''seeding'' else ''dispatching'')"
    using t(5) by (cases res) (auto simp: dispatch_errors_def)
  have "res \<notin> {Inl No_provisioning_key, Inl Key_call_failed}" using t(5) by (auto simp: dispatch_errors_def)
  with t st tail show ?thesis
    by (intro exI [of _ "r\<lparr>re_status := stopped_at res, re_window := win\<rparr>"] exI [of _ sent])
       (cases res; auto split: if_split_asm)
qed

text \<open>
  C14: A launch that returns has sent exactly one job for each instance and attempt, in order, all with the
  window that the snapshot records; both counts are their number, the run is running and both its keys
  are live.
\<close>

theorem launch_sends_every_job:
  assumes "launch_run e run c insts s = (Inr (n, k), s')"
  shows "\<exists>r w. resolve_context_window c (le_baked e) (le_live_info e) = Some w \<and>
    ls_jobs s' = ls_jobs s @ List.concat (map (jobs_of run c (fst w)) insts) \<and>
    n = length insts * nat (rc_attempts c) \<and> k = n \<and>
    entry_of run s' = Some r \<and> re_status r = ''running'' \<and> re_window r = Some w \<and>
    (\<exists>kid h. re_litellm_key r = Some kid \<and> re_openrouter_hash r = Some h \<and> (run, kid) \<in> set (ls_virtual s') \<and> h \<in> set (ls_provider s')) \<and>
    (\<forall>i \<in> set insts. \<forall>a \<in> {1..rc_attempts c}. map_of (ls_table s') (run, in_id i, a, ''harness'') \<noteq> None)"
proof -
  from assms obtain s3 r kid h where t: "launch_tail e run c insts s3 = (Inr (n, k), s')" "entry_of run s3 = Some r"
    "re_litellm_key r = Some kid" "re_openrouter_hash r = Some h" "ls_jobs s3 = ls_jobs s"
    "ls_virtual s3 = ls_virtual s @ [(run, kid)]" "ls_provider s3 = ls_provider s @ [h]"
    by (cases rule: launch_parts) auto
  from tail_result [OF t(1,2)] obtain sent win where u: "ls_jobs s' = ls_jobs s3 @ sent"
    "entry_of run s' = Some (r\<lparr>re_status := stopped_at (Inr (n, k)), re_window := win\<rparr>)"
    "ls_virtual s' = ls_virtual s3" "ls_provider s' = ls_provider s3"
    "\<forall>j \<in> set sent. map_of (ls_table s') (job_row j) \<noteq> None"
    "\<exists>w. resolve_context_window c (le_baked e) (le_live_info e) = Some w \<and> win = Some w \<and>
       sent = List.concat (map (jobs_of run c (fst w)) insts) \<and> n = length sent \<and> k = length sent"
    by auto
  from u(6) obtain w where w: "resolve_context_window c (le_baked e) (le_live_info e) = Some w" "win = Some w"
    "sent = List.concat (map (jobs_of run c (fst w)) insts)" "n = length sent" "k = length sent" by blast
  have "length sent = length insts * nat (rc_attempts c)"
    unfolding w(3) by (induction insts) (simp_all add: jobs_of_def)
  moreover have "map_of (ls_table s') (run, in_id i, a, ''harness'') \<noteq> None" if "i \<in> set insts" "a \<in> {1..rc_attempts c}" for i a
  proof -
    have "job_for run c (fst w) i a \<in> set sent" using that unfolding w(3) jobs_of_def by fastforce
    with u(5) show ?thesis by (metis job_row_for)
  qed
  ultimately show ?thesis using t u w by auto
qed

text \<open>
  The dispatch is not all or nothing. When an instance is refused for its image, the jobs of every
  instance before it are on the queue already: the launch fails, its run stays at dispatching with its
  keys and its pair, and the next launch of the pair is refused because of it.
\<close>

theorem refusal_comes_too_late:
  assumes "launch_run e run c insts s = (Inl (Instance_refused x), s')" "pairs_exclusive s"
  shows "\<exists>w a i b. resolve_context_window c (le_baked e) (le_live_info e) = Some w \<and> insts = a @ i # b \<and> in_id i = x \<and>
    ls_jobs s' = ls_jobs s @ List.concat (map (jobs_of run c (fst w)) a) \<and>
    (\<exists>r. entry_of run s' = Some r \<and> re_status r = ''dispatching'' \<and>
       re_active_key r = Some (pair_key (rc_harness c) (rc_model_alias c)) \<and> re_litellm_key r \<noteq> None) \<and>
    (\<forall>e' run' insts'. le_paused e' \<or> launch_run e' run' c insts' s' = (Inl (Duplicate_run run), s'))"
proof -
  from assms(1) obtain s3 r kid where t: "launch_tail e run c insts s3 = (Inl (Instance_refused x), s')" "entry_of run s3 = Some r"
    "re_active_key r = Some (pair_key (rc_harness c) (rc_model_alias c))" "re_litellm_key r = Some kid" "ls_jobs s3 = ls_jobs s"
    by (cases rule: launch_parts) auto
  from tail_result [OF t(1,2)] obtain sent win where u: "ls_jobs s' = ls_jobs s3 @ sent"
    "entry_of run s' = Some (r\<lparr>re_status := stopped_at (Inl (Instance_refused x)), re_window := win\<rparr>)"
    "\<forall>y. (Inl (Instance_refused x) :: launch_error + nat \<times> nat) = Inl (Instance_refused y) \<longrightarrow>
       (\<exists>w a i b. resolve_context_window c (le_baked e) (le_live_info e) = Some w \<and> insts = a @ i # b \<and> in_id i = y \<and>
          sent = List.concat (map (jobs_of run c (fst w)) a))"
    by (elim exE conjE) (rule that, assumption+)
  let ?r = "r\<lparr>re_status := ''dispatching'', re_window := win\<rparr>"
  have entry: "entry_of run s' = Some ?r" using u(2) by simp
  have mem: "?r \<in> set (ls_runs s')" and name: "re_run ?r = run" using entry_mem [OF entry] by blast+
  have ex: "pairs_exclusive s'" using launch_exclusive [OF assms(2), of e run c insts] by (simp add: assms(1))
  have refused: "le_paused e' \<or> launch_run e' run' c insts' s' = (Inl (Duplicate_run run), s')" for e' run' insts'
    using taken_pair_refused [OF ex mem, of c e' run' insts'] t(3) name by auto
  from u(3) obtain w a i b where w: "resolve_context_window c (le_baked e) (le_live_info e) = Some w" "insts = a @ i # b"
    "in_id i = x" "sent = List.concat (map (jobs_of run c (fst w)) a)" by blast
  have "\<exists>r. entry_of run s' = Some r \<and> re_status r = ''dispatching'' \<and>
       re_active_key r = Some (pair_key (rc_harness c) (rc_model_alias c)) \<and> re_litellm_key r \<noteq> None"
    using entry t(3,4) by auto
  with u(1) t(5) w refused show ?thesis
    by (intro exI [of _ w] exI [of _ a] exI [of _ i] exI [of _ b]) simp
qed

text \<open>
  C39: A failed mint strands a key. When the provider refuses a key after the gateway has minted the
  run's virtual one, the row knows nothing of it: an abort whose every call succeeds frees the pair
  and leaves the virtual key alive.
\<close>

theorem failed_mint_strands_a_key:
  assumes "\<not> le_paused e" "claim run (rc_harness c) (rc_model_alias c) s = Inr s1" "le_provisioning_key e = Some p"
    "le_generate e = Some kid" "le_store_ok e" "le_mint e = None"
  shows "\<exists>s' r. launch_run e run c insts s = (Inl Key_call_failed, s') \<and>
    entry_of run (abort_release \<lparr>ro_gateway_ok = True, ro_provisioning = True, ro_disable_ok = True, ro_stop_ok = True\<rparr> run s') = Some r \<and>
    re_status r = ''aborted'' \<and> re_active_key r = None \<and>
    (run, kid) \<in> set (ls_virtual (abort_release \<lparr>ro_gateway_ok = True, ro_provisioning = True, ro_disable_ok = True, ro_stop_ok = True\<rparr> run s'))"
proof -
  let ?s2 = "put_status run ''provisioning'' s1"
  obtain s' where launch: "launch_run e run c insts s = (Inl Key_call_failed, s')" and s':
    "ls_runs s' = ls_runs ?s2" "ls_virtual s' = ls_virtual ?s2 @ [(run, kid)]"
    using assms by (simp add: launch_run_def provision_keys_def mint_both_def Let_def)
  have "entry_of run s' = entry_of run ?s2" by (rule entry_same_runs) (simp add: s')
  then have entry: "entry_of run s' = Some (new_entry run ''provisioning'' (Some (pair_key (rc_harness c) (rc_model_alias c))))"
    using claim_entry [OF assms(2)] by (simp add: new_entry_def)
  let ?u = "\<lparr>ro_gateway_ok = True, ro_provisioning = True, ro_disable_ok = True, ro_stop_ok = True\<rparr>"
  obtain ok s3 where rev: "revoke_run_keys ?u run (put_status run ''aborted'' s') = (ok, s3)" by fastforce
  have keys: "ok \<and> ls_runs s3 = ls_runs (put_status run ''aborted'' s') \<and> ls_virtual s3 = ls_virtual s'"
    using rev entry by (auto simp: revoke_run_keys_def Let_def or_str_def split: if_split_asm)
  have "entry_of run s3 = map_option (\<lambda>r. r\<lparr>re_status := ''aborted''\<rparr>) (entry_of run s')"
    using keys entry_same_runs [of s3 "put_status run ''aborted'' s'" run] by simp
  then have "entry_of run (release_active_key run s3) = Some ((new_entry run ''aborted'' None))"
    by (simp add: release_active_key_def entry new_entry_def)
  moreover have "ls_virtual (release_active_key run s3) = ls_virtual s'" using keys by (simp add: release_active_key_def)
  ultimately show ?thesis using launch keys s'(2) by (simp add: abort_release_def rev)
qed

text \<open>
  Two harnesses on one alias share a key. The mutex is on the pair and the rotation on the alias:
  while a run of one harness is active, a run of another harness on the same rotatable alias launches,
  and from then on the alias is served with its key, not with the key recorded for the first run.
\<close>

theorem shared_alias_swaps_the_key:
  assumes "launch_run e run c insts s = (Inr n, s')" "launch_run e' run' c' insts' s' = (Inr n', s'')"
    "rc_model_alias c' = rc_model_alias c" "rc_harness c' \<noteq> rc_harness c"
    "le_rotatable e (rc_model_alias c)" "le_rotatable e' (rc_model_alias c)" "le_mint e \<noteq> le_mint e'"
  shows "\<exists>r h. entry_of run s'' = Some r \<and> re_status r = ''running'' \<and> re_openrouter_hash r = Some h \<and>
    map_of (ls_served s') (rc_model_alias c) = Some h \<and> map_of (ls_served s'') (rc_model_alias c) \<noteq> Some h"
proof -
  from assms(1) obtain s3 r kid h where t: "launch_tail e run c insts s3 = (Inr n, s')" "entry_of run s3 = Some r" "re_run r = run"
    "re_openrouter_hash r = Some h" "le_mint e = Some h"
    "ls_served s3 = (if le_rotatable e (rc_model_alias c) then AList.update (rc_model_alias c) h (ls_served s) else ls_served s)"
    by (cases rule: launch_parts) auto
  from tail_result [OF t(1,2)] obtain win where u: "entry_of run s' = Some (r\<lparr>re_status := ''running'', re_window := win\<rparr>)"
    "ls_served s' = ls_served s3" by auto
  from assms(2) obtain s3' r' kid' h' where t': "launch_tail e' run' c' insts' s3' = (Inr n', s'')" "entry_of run' s3' = Some r'"
    "le_mint e' = Some h'"
    "ls_served s3' = (if le_rotatable e' (rc_model_alias c') then AList.update (rc_model_alias c') h' (ls_served s') else ls_served s')"
    by (cases rule: launch_parts) auto
  from tail_result [OF t'(1,2)] have served: "ls_served s'' = ls_served s3'" by auto
  have open_gate: "\<not> le_paused e'" using assms(2) by (auto simp: launch_run_def split: if_split_asm)
  obtain s1' where cl: "claim run' (rc_harness c') (rc_model_alias c') s' = Inr s1'"
    using assms(2) open_gate by (cases "claim run' (rc_harness c') (rc_model_alias c') s'") (auto simp: launch_run_def)
  have other: "run \<noteq> run'" using claim_cases(1) [OF cl] u(1) by (auto simp: entry_of_def find_Some_iff)
  from launch_tracks [OF assms(2) open_gate cl] obtain f where
    f: "ls_runs s'' = map (\<lambda>r. if re_run r = run' then f r else r) (ls_runs s1')" "\<forall>r. re_run (f r) = re_run r" unfolding tracks_def by blast
  have "find (\<lambda>r. re_run r = run) (map (\<lambda>r. if re_run r = run' then f r else r) rs) = find (\<lambda>r. re_run r = run) rs" for rs
    using other f(2) by (induction rs) auto
  moreover have "find P (xs @ ys) = (case find P xs of None \<Rightarrow> find P ys | Some x \<Rightarrow> Some x)" for P :: "run_entry \<Rightarrow> bool" and xs ys
    by (induction xs) simp_all
  ultimately have "entry_of run s'' = Some (r\<lparr>re_status := ''running'', re_window := win\<rparr>)"
    using u(1) by (simp add: entry_of_def f(1) claim_cases(2) [OF cl])
  moreover have "map_of (ls_served s') (rc_model_alias c) = Some h" using u(2) t(6) assms(5) by (simp add: update_conv')
  moreover have "map_of (ls_served s'') (rc_model_alias c) = Some h'" using served t'(4) assms(3,6) by (simp add: update_conv')
  ultimately show ?thesis using t(4,5) t'(3) assms(7) by auto
qed

text \<open>
  A close leaves nothing alive. When a launch has returned and every call of the close succeeds, no
  virtual key of the run, nor the provider key recorded for it, nor its cached raw key is left, the run is
  completed and its pair is free.
\<close>

theorem close_leaves_no_key:
  assumes "launch_run e run c insts s = (Inr n, s')" "le_generate e = Some kid" "kid \<noteq> []" "le_mint e = Some h" "h \<noteq> []"
    "finalise_launched \<lparr>ro_gateway_ok = True, ro_provisioning = True, ro_disable_ok = True, ro_stop_ok = True\<rparr> run s' = (ok, s'')"
  shows "ok \<and> (\<forall>k. (run, k) \<notin> set (ls_virtual s'')) \<and> h \<notin> set (ls_provider s'') \<and> run \<notin> set (ls_cached s'') \<and>
    (\<exists>r. entry_of run s'' = Some r \<and> re_status r = ''completed'' \<and> re_active_key r = None)"
proof -
  from assms(1) obtain s3 r where t: "launch_tail e run c insts s3 = (Inr n, s')" "entry_of run s3 = Some r"
    "re_litellm_key r = Some kid" "re_openrouter_hash r = Some h"
    by (cases rule: launch_parts) (use assms(2,4) in auto)
  from tail_result [OF t(1,2)] obtain win where u: "entry_of run s' = Some (r\<lparr>re_status := ''running'', re_window := win\<rparr>)" by auto
  let ?u = "\<lparr>ro_gateway_ok = True, ro_provisioning = True, ro_disable_ok = True, ro_stop_ok = True\<rparr>"
  obtain fine s4 where rev: "revoke_run_keys ?u run s' = (fine, s4)" by fastforce
  have keys: "fine \<and> (\<forall>k. (run, k) \<notin> set (ls_virtual s4)) \<and> h \<notin> set (ls_provider s4) \<and> run \<notin> set (ls_cached s4)"
  proof -
    from u t(3,4) have "or_str (Option.bind (entry_of run s') re_litellm_key) [] = kid"
      "or_str (Option.bind (entry_of run s') re_openrouter_hash) [] = h"
      using assms(3,5) by (simp_all add: or_str_def)
    with rev assms(3,5) have "fine" "s4 = s'\<lparr>ls_virtual := filter (\<lambda>v. fst v \<noteq> run) (ls_virtual s'),
        ls_provider := filter (\<lambda>x. x \<noteq> h) (ls_provider s'), ls_cached := filter (\<lambda>x. x \<noteq> run) (ls_cached s')\<rparr>"
      by (simp_all add: revoke_run_keys_def)
    then show ?thesis by simp
  qed
  have "entry_of run s4 = entry_of run s'" by (rule entry_same_runs) (simp add: revoke_frame [OF rev])
  then have e4: "entry_of run s4 = Some (r\<lparr>re_status := ''running'', re_window := win\<rparr>)" using u by simp
  from keys assms(6) have "ok" "s'' = update_run run (\<lambda>r. r\<lparr>re_active_key := None, re_status := ''completed''\<rparr>) s4"
    by (simp_all add: finalise_launched_def rev)
  with keys e4 show ?thesis by simp
qed


section \<open>Concrete launches\<close>

definition empty_launches :: launch_state where
  "empty_launches = \<lparr>ls_runs = [], ls_targets = [], ls_table = [], ls_jobs = [], ls_expected = [], ls_virtual = [],
     ls_provider = [], ls_served = [], ls_cached = [], ls_calls = []\<rparr>"

definition demo_launch_env :: launch_env where
  "demo_launch_env = \<lparr>le_paused = False, le_provisioning_key = Some ''p'', le_generate = Some ''k1'', le_store_ok = True,
     le_mint = Some ''h1'', le_rotatable = (\<lambda>a. True), le_rotate_ok = True, le_served_ok = True, le_paused_again = False,
     le_block_ok = (\<lambda>k. True), le_seed_ok = True, le_now = 0, le_gate = True,
     le_manifest = Some \<lparr>mf_images = [(''i1'', []), (''i2'', [])], mf_has_env_images = False\<rparr>, le_digests = None,
     le_live_info = (\<lambda>a. None), le_baked = [], le_send_ok = (\<lambda>j. True), le_expected_ok = True\<rparr>"

definition demo_run_config :: "string \<Rightarrow> run_config" where
  "demo_run_config harness = \<lparr>rc_attempts = 2, rc_harness = harness, rc_model_alias = ''m'', rc_timeout_seconds = 60,
     rc_max_tokens = None, rc_max_cost_usd = Fin 5, rc_max_turns = None, rc_context_window = None\<rparr>"

definition demo_instance :: "string \<Rightarrow> instance_row" where
  "demo_instance i = \<lparr>in_id = i, in_repo = ''r'', in_base_commit = ''c'', in_problem = ''p''\<rparr>"

lemmas launch_run_simps =
  launch_run_def claim_def pair_key_def put_status_def update_run_def provision_keys_def mint_both_def record_key_ids_def
  launch_tail_def seed_instance_rows_def attempt_keys_def
  seed_row_once_def dispatch_run_def cache_precondition_def resolve_context_window_def window_field_def get_default_def
  DEFAULT_CONTEXT_WINDOW_TOKENS_def image_admitted_def field_or_def jobs_of_def register_run_def entry_of_def seed_expected_def
  new_entry_def empty_launches_def demo_launch_env_def demo_run_config_def demo_instance_def 

lemma open_gate_check: "\<not> le_paused_again e \<Longrightarrow> check_pause e run kid s = (True, s)"
proof -
  assume "\<not> le_paused_again e"
  then have "block_if_globally_paused (le_block_ok e) (le_paused_again e) run (Some kid) (gw_view s) = (Some False, gw_view s)"
    by (simp add: block_if_globally_paused_def)
  moreover have "gw_back (gw_view s) s = s"
    by (simp add: gw_view_def gw_back_def zip_map2 zip_same_conv_map comp_def)
  ultimately show ?thesis by (auto simp: check_pause_def)
qed

lemma two_attempts: "[1..2::int] = [1, 2]" by (simp add: upto.simps)

lemma demo_launch:
  "fst (launch_run demo_launch_env ''r1'' (demo_run_config ''a'') [demo_instance ''i1'', demo_instance ''i2''] empty_launches) = Inr (4, 4)"
  by (simp add: launch_run_simps open_gate_check two_attempts)

lemma demo_refused:
  "fst (launch_run demo_launch_env ''r1'' (demo_run_config ''a'') [demo_instance ''i1'', demo_instance ''i3''] empty_launches) =
     Inl (Instance_refused ''i3'')"
  by (simp add: launch_run_simps open_gate_check two_attempts)

lemma empty_exclusive: "pairs_exclusive empty_launches"
  by (simp add: pairs_exclusive_def empty_launches_def)

text \<open>The state after the demonstration launch of a harness, and after one more on the same alias.\<close>

definition after_demo :: "string \<Rightarrow> launch_state" where
  "after_demo harness = snd (launch_run demo_launch_env ''r1'' (demo_run_config harness) [demo_instance ''i1'', demo_instance ''i2''] empty_launches)"

lemma demo_launch_run: "launch_run demo_launch_env ''r1'' (demo_run_config ''a'') [demo_instance ''i1'', demo_instance ''i2''] empty_launches =
    (Inr (4, 4), after_demo ''a'')"
  by (simp add: prod_eq_iff demo_launch after_demo_def)

lemma demo_second:
  "fst (launch_run (demo_launch_env\<lparr>le_mint := Some ''h2''\<rparr>) ''r2'' (demo_run_config ''b'') [demo_instance ''i1''] (after_demo ''a'')) =
     Inr (2, 2)"
  by (simp add: after_demo_def launch_run_simps open_gate_check two_attempts)

theorem pairs_stay_exclusive_witness:
  "pairs_exclusive (fold launch_step [Launch demo_launch_env ''r1'' (demo_run_config ''a'') [demo_instance ''i1''],
     Launch demo_launch_env ''r2'' (demo_run_config ''a'') []] empty_launches)"
  by (rule conjunct1 [OF pairs_stay_exclusive [OF empty_exclusive]])

theorem status_tells_how_far_witness:
  "\<exists>r. entry_of ''r1'' (after_demo ''a'') = Some r \<and> re_status r = ''running''"
  using status_tells_how_far [OF demo_launch_run] by auto

theorem launch_sends_every_job_witness:
  "\<exists>w. ls_jobs (after_demo ''a'') =
     ls_jobs empty_launches @ List.concat (map (jobs_of ''r1'' (demo_run_config ''a'') w) [demo_instance ''i1'', demo_instance ''i2''])"
  using launch_sends_every_job [OF demo_launch_run] by (elim exE conjE) (rule exI, assumption)

theorem refusal_comes_too_late_witness:
  "\<exists>w a. ls_jobs (snd (launch_run demo_launch_env ''r1'' (demo_run_config ''a'') [demo_instance ''i1'', demo_instance ''i3''] empty_launches)) =
     ls_jobs empty_launches @ List.concat (map (jobs_of ''r1'' (demo_run_config ''a'') w) a)"
proof -
  obtain s' where "launch_run demo_launch_env ''r1'' (demo_run_config ''a'') [demo_instance ''i1'', demo_instance ''i3''] empty_launches =
      (Inl (Instance_refused ''i3''), s')"
    using demo_refused by (metis prod.collapse)
  from refusal_comes_too_late [OF this empty_exclusive] this show ?thesis by (metis snd_conv)
qed

theorem failed_mint_strands_a_key_witness:
  "\<exists>s'. launch_run (demo_launch_env\<lparr>le_mint := None\<rparr>) ''r1'' (demo_run_config ''a'') [] empty_launches = (Inl Key_call_failed, s') \<and>
     (''r1'', ''k1'') \<in> set (ls_virtual (abort_release \<lparr>ro_gateway_ok = True, ro_provisioning = True, ro_disable_ok = True, ro_stop_ok = True\<rparr> ''r1'' s'))"
proof -
  have "claim ''r1'' (rc_harness (demo_run_config ''a'')) (rc_model_alias (demo_run_config ''a'')) empty_launches =
      Inr (empty_launches\<lparr>ls_runs := [new_entry ''r1'' ''claimed'' (Some ''a:m'')]\<rparr>)"
    by (simp add: claim_def empty_launches_def demo_run_config_def pair_key_def)
  from failed_mint_strands_a_key [OF _ this, of "demo_launch_env\<lparr>le_mint := None\<rparr>" "''p''" "''k1''"] show ?thesis
    by (auto simp: demo_launch_env_def)
qed

theorem shared_alias_swaps_the_key_witness:
  "\<exists>s'' h. launch_run (demo_launch_env\<lparr>le_mint := Some ''h2''\<rparr>) ''r2'' (demo_run_config ''b'') [demo_instance ''i1''] (after_demo ''a'') =
     (Inr (2, 2), s'') \<and> map_of (ls_served (after_demo ''a'')) ''m'' = Some h \<and> map_of (ls_served s'') ''m'' \<noteq> Some h"
proof -
  obtain s'' where run: "launch_run (demo_launch_env\<lparr>le_mint := Some ''h2''\<rparr>) ''r2'' (demo_run_config ''b'') [demo_instance ''i1''] (after_demo ''a'') =
      (Inr (2, 2), s'')"
    using demo_second by (metis prod.collapse)
  have facts: "rc_model_alias (demo_run_config x) = ''m''" "rc_harness (demo_run_config x) = x" "le_rotatable demo_launch_env = (\<lambda>a. True)"
      "le_mint demo_launch_env = Some ''h1''" for x
    by (simp_all add: demo_launch_env_def demo_run_config_def)
  have "le_rotatable (demo_launch_env\<lparr>le_mint := Some ''h2''\<rparr>) ''m''" by (simp add: facts)
  with shared_alias_swaps_the_key [OF demo_launch_run run] run show ?thesis by (auto simp: facts)
qed

theorem close_leaves_no_key_witness:
  "\<exists>ok s''. finalise_launched \<lparr>ro_gateway_ok = True, ro_provisioning = True, ro_disable_ok = True, ro_stop_ok = True\<rparr> ''r1'' (after_demo ''a'') = (ok, s'') \<and>
     ok \<and> ''h1'' \<notin> set (ls_provider s'')"
proof -
  obtain ok s'' where f: "finalise_launched \<lparr>ro_gateway_ok = True, ro_provisioning = True, ro_disable_ok = True, ro_stop_ok = True\<rparr> ''r1'' (after_demo ''a'') =
      (ok, s'')" by fastforce
  from close_leaves_no_key [OF demo_launch_run _ _ _ _ f, of "''k1''" "''h1''"] show ?thesis
    by (auto simp: f demo_launch_env_def)
qed

end
