(* ===== verification/Agent_Tools.thy ===== *)
theory Agent_Tools
  imports Shim_Requests Compaction Text_Lines Job_Messages
begin

text \<open>
  The tools of the custom minimal harness, \<open>harnesses/custom_minimal/tools.py\<close>: the shell and the
  editor with its history of edits. A file tree maps resolved paths to what stands there; a text
  holds ASCII characters. \<open>Path.resolve\<close>, the shell, the failures of the file system and the text of
  an exception are arguments; a reply is \<open>Inr\<close>, an exception that leaves \<open>execute_tool\<close> is \<open>Inl\<close>.
\<close>

section \<open>The tree and its reader\<close>

datatype node = Text_file string | Binary_file | Folder

type_synonym tree = "string \<Rightarrow> node option"

text \<open>\<open>_EDIT_HISTORY\<close>, the contents before each edit of a path, the last edit last.\<close>

record tool_state =
  ts_tree :: tree
  ts_history :: "string \<Rightarrow> string list option"

datatype shell_end = Exited string string int | Timed_out | Not_started string

record os_env =
  os_repo :: string
  os_resolve :: "tree \<Rightarrow> string \<Rightarrow> string option"
  os_shell :: "string \<Rightarrow> tree \<Rightarrow> shell_end \<times> tree"
  os_read_fault :: "node \<Rightarrow> string"
  os_repr :: "json \<Rightarrow> string"
  os_write_fault :: "tree \<Rightarrow> string \<Rightarrow> string option"

text \<open>Reading as text makes every line end a newline.\<close>

fun newlines :: "string \<Rightarrow> string" where
  "newlines [] = []"
| "newlines (c # cs) =
     (if c = CHR 0x0D then CHR 0x0A # newlines (if prefix [CHR 0x0A] cs then tl cs else cs)
      else c # newlines cs)"

definition read_text :: "os_env \<Rightarrow> tree \<Rightarrow> string \<Rightarrow> string + string" where
  "read_text os tree path =
     (case tree path of
        Some (Text_file t) \<Rightarrow> Inr (newlines t)
      | Some n \<Rightarrow> Inl (os_read_fault os n)
      | None \<Rightarrow> Inl [])"

text \<open>\<open>splitlines(keepends=True)\<close>\<close>

fun lines_kept :: "string \<Rightarrow> string list" where
  "lines_kept [] = []"
| "lines_kept (c # cs) =
     (if c = CHR 0x0D \<and> prefix [CHR 0x0A] cs then [CHR 0x0D, CHR 0x0A] # lines_kept (tl cs)
      else if is_line_break c then [c] # lines_kept cs
      else (case lines_kept cs of [] \<Rightarrow> [[c]] | l # ls \<Rightarrow> (c # l) # ls))"

text \<open>\<open>s.replace(old, new, 1)\<close>\<close>

fun replace_once :: "string \<Rightarrow> string \<Rightarrow> string \<Rightarrow> string" where
  "replace_once old new [] = (if old = [] then new else [])"
| "replace_once old new (c # cs) =
     (if prefix old (c # cs) then new @ drop (length old) (c # cs) else c # replace_once old new cs)"

section \<open>Replies\<close>

definition MAX_OUTPUT_CHARS :: nat where "MAX_OUTPUT_CHARS = 8000"

definition line_feed :: string where "line_feed = [CHR 0x0A]"

definition shell_output :: "string \<Rightarrow> string \<Rightarrow> int \<Rightarrow> string" where
  "shell_output out err code =
     (let o1 = (if err = [] then out else out @ line_feed @ ''[stderr]'' @ line_feed @ err);
          o2 = (if code = 0 then o1 else o1 @ line_feed @ ''[exit code: '' @ int_text code @ '']'');
          o3 = (if MAX_OUTPUT_CHARS < length o2
                then take MAX_OUTPUT_CHARS o2 @ line_feed @ ''... [truncated]'' else o2)
      in if o3 = [] then ''(no output)'' else o3)"

definition run_bash :: "os_env \<Rightarrow> string \<Rightarrow> tool_state \<Rightarrow> string \<times> tool_state" where
  "run_bash os command s =
     (if strip command = [] then (''Error: empty command'', s)
      else let (e, tree) = os_shell os command (ts_tree s); s' = s\<lparr>ts_tree := tree\<rparr>
           in case e of
                Exited out err code \<Rightarrow> (shell_output out err code, s')
              | Timed_out \<Rightarrow> (''Error: command timed out (60s)'', s')
              | Not_started x \<Rightarrow> (''Error: '' @ x, s'))"

text \<open>A number right-aligned in six columns.\<close>

definition padded :: "nat \<Rightarrow> string" where
  "padded n = replicate (6 - length (nat_text n)) (CHR '' '') @ nat_text n"

definition glued :: "string \<Rightarrow> string list \<Rightarrow> string" where
  "glued sep ls = (case ls of [] \<Rightarrow> [] | l # rest \<Rightarrow> l @ List.concat (map (\<lambda>x. sep @ x) rest))"


section \<open>The editor\<close>

text \<open>
  \<open>max(1, v)\<close> and \<open>min(total, v)\<close> on values of JSON; \<open>None\<close> is an exception. A float stays one
  where it is chosen.
\<close>

fun over :: "int \<Rightarrow> pyfloat \<Rightarrow> bool" where
  "over n (Fin x) = (of_int n < x)"
| "over n PosInf = True"
| "over n v = False"

fun under :: "int \<Rightarrow> pyfloat \<Rightarrow> bool" where
  "under n (Fin x) = (x < of_int n)"
| "under n NegInf = True"
| "under n v = False"

fun at_least_one :: "json \<Rightarrow> json option" where
  "at_least_one (JsInt n) = Some (JsInt (max 1 n))"
| "at_least_one (JsBool b) = Some (JsInt 1)"
| "at_least_one (JsFloat x) = Some (if over 1 x then JsFloat x else JsInt 1)"
| "at_least_one v = None"

fun at_most :: "int \<Rightarrow> json \<Rightarrow> json option" where
  "at_most n (JsInt m) = Some (JsInt (min n m))"
| "at_most n (JsBool b) = Some (JsInt (min n (if b then 1 else 0)))"
| "at_most n (JsFloat x) = Some (if under n x then JsFloat x else JsInt n)"
| "at_most n v = None"

text \<open>
  The ends of a view: the whole file when the range is missing, empty or has not two entries.
  \<open>None\<close> is an exception: a truthy value without a length, a pair of keys or of no numbers.
\<close>

definition view_ends :: "json \<Rightarrow> int \<Rightarrow> (json \<times> json) option" where
  "view_ends v n =
     (case v of
        JsList [a, b] \<Rightarrow>
          (case (at_least_one a, at_most n b) of (Some x, Some y) \<Rightarrow> Some (x, y) | _ \<Rightarrow> None)
      | JsList vs \<Rightarrow> Some (JsInt 1, JsInt n)
      | JsObj kvs \<Rightarrow> if length kvs = 2 then None else Some (JsInt 1, JsInt n)
      | JsStr t \<Rightarrow> if length t = 2 then None else Some (JsInt 1, JsInt n)
      | _ \<Rightarrow> if js_truth v then None else Some (JsInt 1, JsInt n))"

definition numbered :: "string list \<Rightarrow> int \<Rightarrow> int \<Rightarrow> string list" where
  "numbered ls start end_line =
     map (\<lambda>i. padded (i + 1) @ ''|'' @ ls ! i) [nat (start - 1) ..< nat end_line]"

definition past_end :: "string \<Rightarrow> int \<Rightarrow> string" where
  "past_end start n = ''Error: view_range start '' @ start @ '' exceeds file length '' @ int_text n"

definition editor_view :: "os_env \<Rightarrow> string \<Rightarrow> json \<Rightarrow> tree \<Rightarrow> string + string" where
  "editor_view os path rng tree =
     (if tree path = None then Inr (''Error: file not found: '' @ path)
      else case read_text os tree path of
          Inl x \<Rightarrow> Inr (''Error reading file: '' @ x)
        | Inr t \<Rightarrow>
            (let ls = splitlines t; n = int (length ls)
             in case view_ends rng n of
                  None \<Rightarrow> Inl ''TypeError''
                | Some (JsFloat x, y) \<Rightarrow>
                    if over n x then Inr (past_end (os_repr os (JsFloat x)) n) else Inl ''TypeError''
                | Some (JsInt a, JsInt b) \<Rightarrow>
                    if n < a then Inr (past_end (int_text a) n)
                    else Inr (glued line_feed (numbered ls a b))
                | Some (JsInt a, y) \<Rightarrow>
                    if n < a then Inr (past_end (int_text a) n) else Inl ''TypeError''
                | Some (x, y) \<Rightarrow> Inl ''TypeError''))"

text \<open>Missing parents become folders; a path that cannot be written raises.\<close>

definition parents :: "string \<Rightarrow> string list" where
  "parents path = map (\<lambda>i. take i path) (filter (\<lambda>i. path ! i = CHR ''/'') [1 ..< length path])"

definition make_parents :: "string \<Rightarrow> tree \<Rightarrow> tree" where
  "make_parents path tree =
     foldl (\<lambda>t p. if t p = None then t(p \<mapsto> Folder) else t) tree (parents path)"

definition write_text :: "os_env \<Rightarrow> string \<Rightarrow> string \<Rightarrow> string \<Rightarrow> tool_state \<Rightarrow> (string + string) \<times> tool_state" where
  "write_text os path t reply s =
     (case os_write_fault os (ts_tree s) path of
        Some x \<Rightarrow> (Inl x, s)
      | None \<Rightarrow> (Inr reply, s\<lparr>ts_tree := (ts_tree s)(path \<mapsto> Text_file t)\<rparr>))"

definition editor_create :: "os_env \<Rightarrow> string \<Rightarrow> json \<Rightarrow> tool_state \<Rightarrow> (string + string) \<times> tool_state" where
  "editor_create os path content s =
     (if ts_tree s path \<noteq> None then (Inr (''Error: file already exists: '' @ path), s)
      else let s1 = s\<lparr>ts_tree := make_parents path (ts_tree s)\<rparr>
           in case content of
                JsStr t \<Rightarrow> write_text os path t (''File created: '' @ path) s1
              | _ \<Rightarrow> (Inl ''TypeError'', s1))"

definition remember :: "string \<Rightarrow> string \<Rightarrow> tool_state \<Rightarrow> tool_state" where
  "remember path t s =
     s\<lparr>ts_history := (ts_history s)(path \<mapsto> (case ts_history s path of Some h \<Rightarrow> h | None \<Rightarrow> []) @ [t])\<rparr>"

definition editor_str_replace ::
    "os_env \<Rightarrow> string \<Rightarrow> json \<Rightarrow> json \<Rightarrow> tool_state \<Rightarrow> (string + string) \<times> tool_state" where
  "editor_str_replace os path old new s =
     (if ts_tree s path = None then (Inr (''Error: file not found: '' @ path), s)
      else case read_text os (ts_tree s) path of
          Inl x \<Rightarrow> (Inr (''Error reading file: '' @ x), s)
        | Inr t \<Rightarrow>
            (case old of
               JsStr o1 \<Rightarrow>
                 (let n = count_text o1 t
                  in if n = 0 then (Inr (''Error: old_str not found in '' @ path), s)
                     else if 1 < n then
                       (Inr (''Error: old_str found '' @ nat_text n @ '' times in '' @ path @
                          ''. Make the search string more specific.''), s)
                     else case new of
                         JsStr n1 \<Rightarrow> write_text os path (replace_once o1 n1 t)
                           (''Replaced 1 occurrence in '' @ path) (remember path t s)
                       | _ \<Rightarrow> (Inl ''TypeError'', remember path t s))
             | _ \<Rightarrow> (Inl ''TypeError'', s)))"

definition out_of_range :: "os_env \<Rightarrow> json \<Rightarrow> nat \<Rightarrow> string" where
  "out_of_range os line n =
     ''Error: insert_line '' @ (case line of JsInt k \<Rightarrow> int_text k | _ \<Rightarrow> os_repr os line) @
     '' out of range (1-'' @ nat_text (n + 1) @ '')''"

definition editor_insert ::
    "os_env \<Rightarrow> string \<Rightarrow> json \<Rightarrow> json \<Rightarrow> tool_state \<Rightarrow> (string + string) \<times> tool_state" where
  "editor_insert os path line new s =
     (if ts_tree s path = None then (Inr (''Error: file not found: '' @ path), s)
      else case read_text os (ts_tree s) path of
          Inl x \<Rightarrow> (Inr (''Error reading file: '' @ x), s)
        | Inr t \<Rightarrow>
            (let ls = lines_kept t; n = length ls; bad = (Inr (out_of_range os line n), s);
                 put = (\<lambda>k. case new of
                     JsStr n1 \<Rightarrow> write_text os path
                       (List.concat (take (nat (k - 1)) ls @ [n1 @ line_feed] @ drop (nat (k - 1)) ls))
                       (''Inserted at line '' @ (case line of JsInt j \<Rightarrow> int_text j | _ \<Rightarrow> os_repr os line) @
                          '' in '' @ path) (remember path t s)
                   | _ \<Rightarrow> (Inl ''TypeError'', remember path t s))
             in case line of
                  JsInt k \<Rightarrow> if k < 1 \<or> int n + 1 < k then bad else put k
                | JsBool b \<Rightarrow> if b then put 1 else bad
                | JsFloat x \<Rightarrow>
                    if under 1 x \<or> over (int n + 1) x then bad else (Inl ''TypeError'', remember path t s)
                | _ \<Rightarrow> (Inl ''TypeError'', s)))"

definition editor_undo :: "os_env \<Rightarrow> string \<Rightarrow> tool_state \<Rightarrow> (string + string) \<times> tool_state" where
  "editor_undo os path s =
     (case ts_history s path of
        Some (x # xs) \<Rightarrow>
          write_text os path (List.last (x # xs)) (''Undo applied to '' @ path)
            (s\<lparr>ts_history := (ts_history s)(path \<mapsto> butlast (x # xs))\<rparr>)
      | _ \<Rightarrow> (Inr (''Error: nothing to undo for '' @ path), s))"

text \<open>\<open>args.get(k, d)\<close>\<close>

definition arg_or :: "(string \<times> json) list \<Rightarrow> string \<Rightarrow> json \<Rightarrow> json" where
  "arg_or kvs k d = (case map_of kvs k of Some v \<Rightarrow> v | None \<Rightarrow> d)"

text \<open>A path as given is joined to the repository unless it is absolute, then resolved.\<close>

definition resolved :: "os_env \<Rightarrow> tree \<Rightarrow> string \<Rightarrow> string option" where
  "resolved os tree p =
     os_resolve os tree (if prefix ''/'' p then p else os_repo os @ ''/'' @ p)"

definition inside :: "string \<Rightarrow> string \<Rightarrow> bool" where
  "inside base path = (path = base \<or> prefix (if base = ''/'' then base else base @ ''/'') path)"

definition run_editor :: "os_env \<Rightarrow> (string \<times> json) list \<Rightarrow> tool_state \<Rightarrow> (string + string) \<times> tool_state" where
  "run_editor os args s =
     (case arg_or args ''path'' (JsStr []) of
        JsStr p \<Rightarrow>
          (case (resolved os (ts_tree s) p, os_resolve os (ts_tree s) (os_repo os)) of
             (Some path, Some base) \<Rightarrow>
           (let command = arg_or args ''command'' (JsStr [])
           in if \<not> inside base path
              then (Inr ''Error: path is outside the repository'', s)
              else if command = JsStr ''view''
              then (editor_view os path (arg_or args ''view_range'' JsNull) (ts_tree s), s)
              else if command = JsStr ''create''
              then editor_create os path (arg_or args ''file_text'' (JsStr [])) s
              else if command = JsStr ''str_replace''
              then editor_str_replace os path (arg_or args ''old_str'' (JsStr [])) (arg_or args ''new_str'' (JsStr [])) s
              else if command = JsStr ''insert''
              then editor_insert os path (arg_or args ''insert_line'' (JsInt 1)) (arg_or args ''new_str'' (JsStr [])) s
              else if command = JsStr ''undo_edit'' then editor_undo os path s
              else (Inr (''Error: unknown editor command '' @ [CHR 0x27] @
                     (case command of JsStr c \<Rightarrow> c | _ \<Rightarrow> os_repr os command) @ [CHR 0x27]), s))
           | _ \<Rightarrow> (Inl ''ValueError'', s))
      | _ \<Rightarrow> (Inl ''TypeError'', s))"

text \<open>Arguments that are no dictionary have no \<open>get\<close>; a command that is no text no \<open>strip\<close>.\<close>

definition execute_tool :: "os_env \<Rightarrow> string \<Rightarrow> json \<Rightarrow> tool_state \<Rightarrow> (string + string) \<times> tool_state" where
  "execute_tool os name args s =
     (if name = ''bash'' then
        (case args of
           JsObj kvs \<Rightarrow>
             (case arg_or kvs ''command'' (JsStr []) of
                JsStr c \<Rightarrow> (let (reply, s') = run_bash os c s in (Inr reply, s'))
              | _ \<Rightarrow> (Inl ''AttributeError'', s))
         | _ \<Rightarrow> (Inl ''AttributeError'', s))
      else if name = ''str_replace_editor'' then
        (case args of JsObj kvs \<Rightarrow> run_editor os kvs s | _ \<Rightarrow> (Inl ''AttributeError'', s))
      else (Inr (''Error: unknown tool '' @ [CHR 0x27] @ name @ [CHR 0x27]), s))"

section \<open>One edit and its undo\<close>

lemmas editor_defs = editor_create_def editor_str_replace_def editor_insert_def editor_undo_def
  write_text_def remember_def Let_def

lemma newlines_simps [simp]:
  "newlines (CHR 0x0A # cs) = CHR 0x0A # newlines cs"
  by simp

lemma newlines_no_cr: "CHR 0x0D \<notin> set (newlines t)"
  by (induction t rule: newlines.induct) auto

lemma newlines_id: "CHR 0x0D \<notin> set t \<Longrightarrow> newlines t = t"
  by (induction t rule: newlines.induct) auto

text \<open>The edits of one path that can be undone.\<close>

datatype file_edit = Replace string string | Insert_at int string

primrec edit_file :: "os_env \<Rightarrow> string \<Rightarrow> file_edit \<Rightarrow> tool_state \<Rightarrow> tool_state" where
  "edit_file os path (Replace old new) s = snd (editor_str_replace os path (JsStr old) (JsStr new) s)"
| "edit_file os path (Insert_at k new) s = snd (editor_insert os path (JsInt k) (JsStr new) s)"

primrec edit_all :: "os_env \<Rightarrow> string \<Rightarrow> file_edit list \<Rightarrow> tool_state \<Rightarrow> tool_state" where
  "edit_all os path [] s = s"
| "edit_all os path (e # es) s = edit_all os path es (edit_file os path e s)"

primrec undo_times :: "os_env \<Rightarrow> string \<Rightarrow> nat \<Rightarrow> tool_state \<Rightarrow> tool_state" where
  "undo_times os path 0 s = s"
| "undo_times os path (Suc n) s = undo_times os path n (snd (editor_undo os path s))"

definition past :: "string \<Rightarrow> tool_state \<Rightarrow> string list" where
  "past path s = (case ts_history s path of Some h \<Rightarrow> h | None \<Rightarrow> [])"

definition writable :: "os_env \<Rightarrow> string \<Rightarrow> bool" where
  "writable os path = (\<forall>tree. os_write_fault os tree path = None)"

lemma write_ok [simp]:
  "writable os path \<Longrightarrow> write_text os path t r s = (Inr r, s\<lparr>ts_tree := (ts_tree s)(path \<mapsto> Text_file t)\<rparr>)"
  by (simp add: write_text_def writable_def)

lemma remember_simps [simp]:
  "ts_tree (remember path t s) = ts_tree s"
  "ts_history (remember path t s) = (ts_history s)(path \<mapsto> past path s @ [t])"
  by (simp_all add: remember_def past_def)

text \<open>An edit either changes nothing or puts a text in place of the file and remembers the one it read.\<close>

lemma edit_file_cases:
  assumes "ts_tree s path = Some (Text_file t)" "writable os path"
  obtains "edit_file os path e s = s"
  | t' where "ts_tree (edit_file os path e s) = (ts_tree s)(path \<mapsto> Text_file t')"
      "ts_history (edit_file os path e s) = (ts_history s)(path \<mapsto> past path s @ [newlines t])"
proof -
  have r: "read_text os (ts_tree s) path = Inr (newlines t)" using assms(1) by (simp add: read_text_def)
  show ?thesis
  proof (cases e)
    case (Replace old new)
    show ?thesis
    proof (cases "count_text old (newlines t) = 1")
      case True
      show ?thesis using True assms r by (intro that(2)) (simp_all add: Replace editor_str_replace_def)
    next
      case False
      show ?thesis using False assms r by (intro that(1)) (simp add: Replace editor_str_replace_def Let_def)
    qed
  next
    case (Insert_at k new)
    show ?thesis
    proof (cases "k < 1 \<or> int (length (lines_kept (newlines t))) + 1 < k")
      case True
      show ?thesis using True assms r by (intro that(1)) (auto simp: Insert_at editor_insert_def Let_def)
    next
      case False
      show ?thesis using False assms r by (intro that(2)) (simp_all add: Insert_at editor_insert_def Let_def)
    qed
  qed
qed

lemma undo_step:
  assumes "past path s = h @ [t]" "writable os path"
  shows "ts_tree (snd (editor_undo os path s)) = (ts_tree s)(path \<mapsto> Text_file t)"
    "ts_history (snd (editor_undo os path s)) = (ts_history s)(path \<mapsto> h)"
proof -
  obtain x xs where h: "ts_history s path = Some (x # xs)" "x # xs = h @ [t]"
    using assms(1) by (cases "ts_history s path"; cases h) (auto simp: past_def)
  then have "last (x # xs) = t" "butlast (x # xs) = h" by simp_all
  then show "ts_tree (snd (editor_undo os path s)) = (ts_tree s)(path \<mapsto> Text_file t)"
    "ts_history (snd (editor_undo os path s)) = (ts_history s)(path \<mapsto> h)"
    using h(1) assms(2) by (simp_all add: editor_undo_def write_text_def writable_def)
qed

text \<open>The texts that the undos put back, the one before the oldest edit last.\<close>

lemma undo_all:
  "writable os path \<Longrightarrow> past path s = h @ ts \<Longrightarrow>
   past path (undo_times os path (length ts) s) = h \<and>
   ts_tree (undo_times os path (length ts) s) =
     (if ts = [] then ts_tree s else (ts_tree s)(path \<mapsto> Text_file (hd ts)))"
proof (induction ts arbitrary: s rule: rev_induct)
  case (snoc t ts)
  let ?s = "snd (editor_undo os path s)"
  have e: "ts_tree ?s = (ts_tree s)(path \<mapsto> Text_file t)" "ts_history ?s = (ts_history s)(path \<mapsto> h @ ts)"
    using undo_step [of path s "h @ ts" t os] snoc.prems by simp_all
  then have "past path ?s = h @ ts" by (simp add: past_def)
  from snoc.IH [OF snoc.prems(1) this] show ?case by (cases ts) (simp_all add: e fun_eq_iff)
qed simp

lemma edits_past:
  assumes "writable os path" "ts_tree s path = Some (Text_file t)"
  shows "\<exists>ts t'. past path (edit_all os path es s) = past path s @ ts \<and>
    ts_tree (edit_all os path es s) = (ts_tree s)(path \<mapsto> Text_file t') \<and>
    (if ts = [] then t' = t else hd ts = newlines t)"
  using assms
proof (induction es arbitrary: s t)
  case Nil
  then show ?case by (intro exI [of _ "[]"] exI [of _ t]) (auto simp: fun_upd_idem)
next
  case (Cons e es)
  from Cons.prems(2,1) show ?case
  proof (cases rule: edit_file_cases [where e = e])
    case 1
    with Cons.IH [OF Cons.prems] show ?thesis by simp
  next
    case (2 t1)
    then have p: "past path (edit_file os path e s) = past path s @ [newlines t]" by (simp add: past_def)
    have "ts_tree (edit_file os path e s) path = Some (Text_file t1)" using 2(1) by simp
    from Cons.IH [OF Cons.prems(1) this] obtain ts t' where
      i: "past path (edit_all os path es (edit_file os path e s)) = past path s @ [newlines t] @ ts"
      "ts_tree (edit_all os path es (edit_file os path e s)) = (ts_tree s)(path \<mapsto> Text_file t')"
      unfolding p 2(1) fun_upd_upd append_assoc by blast
    then show ?thesis
      by (intro exI [of _ "newlines t # ts"] exI [of _ t']) simp
  qed
qed

text \<open>
  C22: Undoing restores what was edited: after any replacements and insertions of a text file that can
  be written, as many undos as there were remembered edits bring back the tree as it was, but for
  the line ends of the file, which the first edit that took made newlines, and the history of the path.
\<close>

theorem undo_restores_the_file:
  assumes "writable os path" "ts_tree s path = Some (Text_file t)"
    and "s1 = edit_all os path es s"
    and "s2 = undo_times os path (length (past path s1) - length (past path s)) s1"
  shows "past path s2 = past path s \<and>
    ts_tree s2 = (if past path s1 = past path s then ts_tree s else (ts_tree s)(path \<mapsto> Text_file (newlines t)))"
proof -
  obtain ts t' where e: "past path s1 = past path s @ ts"
    "ts_tree s1 = (ts_tree s)(path \<mapsto> Text_file t')" "if ts = [] then t' = t else hd ts = newlines t"
    using edits_past [OF assms(1,2)] unfolding assms(3) by blast
  have "s2 = undo_times os path (length ts) s1" using assms(4) e(1) by simp
  with undo_all [OF assms(1) e(1)] e assms(2) show ?thesis
    by (cases "ts = []") (simp_all add: fun_upd_idem)
qed

section \<open>Where an edit can reach\<close>

lemma parents_made:
  "foldl (\<lambda>t p. if t p = None then t(p \<mapsto> Folder) else t) tree ps q =
     (if tree q = None \<and> q \<in> set ps then Some Folder else tree q)"
  by (induction ps arbitrary: tree) auto

lemma write_elsewhere: "ts_tree (snd (write_text os path t r s)) q = ts_tree s q \<or> q = path"
  by (simp add: write_text_def split: option.split)

lemma create_elsewhere:
  "ts_tree (snd (editor_create os path c s)) q = ts_tree s q \<or> q = path \<or>
     q \<in> set (parents path) \<and> ts_tree s q = None \<and> ts_tree (snd (editor_create os path c s)) q = Some Folder"
  by (auto simp: editor_create_def make_parents_def parents_made write_text_def Let_def
      split: json.splits option.splits if_splits)

lemma str_replace_elsewhere: "ts_tree (snd (editor_str_replace os path old new s)) q = ts_tree s q \<or> q = path"
  by (auto simp: editor_str_replace_def Let_def write_text_def split: json.splits option.splits sum.splits)

lemma insert_elsewhere: "ts_tree (snd (editor_insert os path line new s)) q = ts_tree s q \<or> q = path"
  by (auto simp: editor_insert_def Let_def write_text_def split: json.splits option.splits sum.splits)

lemma undo_elsewhere: "ts_tree (snd (editor_undo os path s)) q = ts_tree s q \<or> q = path"
  by (auto simp: editor_undo_def write_text_def split: list.splits option.splits)

lemma editor_elsewhere:
  assumes "ts_tree (snd (run_editor os args s)) q \<noteq> ts_tree s q"
  shows "\<exists>p path base. arg_or args ''path'' (JsStr []) = JsStr p \<and> resolved os (ts_tree s) p = Some path \<and>
    os_resolve os (ts_tree s) (os_repo os) = Some base \<and> inside base path \<and>
    (q = path \<or> q \<in> set (parents path) \<and> ts_tree s q = None \<and> ts_tree (snd (run_editor os args s)) q = Some Folder)"
proof -
  obtain p path base where p: "arg_or args ''path'' (JsStr []) = JsStr p" "resolved os (ts_tree s) p = Some path"
    "os_resolve os (ts_tree s) (os_repo os) = Some base" "inside base path"
    using assms by (auto simp: run_editor_def Let_def split: json.splits option.splits if_splits)
  define c where "c = arg_or args ''command'' (JsStr [])"
  define s' where "s' = snd (run_editor os args s)"
  have "q = path \<or> q \<in> set (parents path) \<and> ts_tree s q = None \<and> ts_tree s' q = Some Folder"
  proof -
    consider "c = JsStr ''create''" "s' = snd (editor_create os path (arg_or args ''file_text'' (JsStr [])) s)"
      | "s' = snd (editor_str_replace os path (arg_or args ''old_str'' (JsStr [])) (arg_or args ''new_str'' (JsStr [])) s)"
      | "s' = snd (editor_insert os path (arg_or args ''insert_line'' (JsInt 1)) (arg_or args ''new_str'' (JsStr [])) s)"
      | "s' = snd (editor_undo os path s)" | "s' = s"
      by (cases "c \<in> {JsStr ''view'', JsStr ''create'', JsStr ''str_replace'', JsStr ''insert'', JsStr ''undo_edit''}")
        (auto simp: s'_def run_editor_def p Let_def c_def [symmetric])
    then show ?thesis
      using assms [folded s'_def]
        create_elsewhere str_replace_elsewhere insert_elsewhere undo_elsewhere by cases (metis+)
  qed
  then have "q = path \<or> q \<in> set (parents path) \<and> ts_tree s q = None \<and> ts_tree (snd (run_editor os args s)) q = Some Folder"
    by (simp only: s'_def)
  with p show ?thesis by blast
qed

text \<open>
  C23: Whatever arguments the model sends, a call of the editor that changes the tree changes it at one
  place: the path that its own \<open>path\<close> argument resolves to, which lies inside the repository, and missing
  parents of that path, which become folders.
\<close>

theorem edits_stay_inside:
  assumes "execute_tool os ''str_replace_editor'' args s = (r, s')" "ts_tree s' \<noteq> ts_tree s"
  shows "\<exists>kvs p path base. args = JsObj kvs \<and> arg_or kvs ''path'' (JsStr []) = JsStr p \<and>
    resolved os (ts_tree s) p = Some path \<and>
    os_resolve os (ts_tree s) (os_repo os) = Some base \<and> inside base path \<and>
    (\<forall>q. ts_tree s' q \<noteq> ts_tree s q \<longrightarrow>
       q = path \<or> q \<in> set (parents path) \<and> ts_tree s q = None \<and> ts_tree s' q = Some Folder)"
proof (cases args)
  case (JsObj kvs)
  then have s': "s' = snd (run_editor os kvs s)" using assms(1) by (simp add: execute_tool_def)
  obtain q where q: "ts_tree (snd (run_editor os kvs s)) q \<noteq> ts_tree s q" using assms(2) s' by auto
  from editor_elsewhere [OF this] obtain p path base
    where p: "arg_or kvs ''path'' (JsStr []) = JsStr p" "resolved os (ts_tree s) p = Some path"
      "os_resolve os (ts_tree s) (os_repo os) = Some base" "inside base path" by blast
  have "q = path \<or> q \<in> set (parents path) \<and> ts_tree s q = None \<and> ts_tree s' q = Some Folder"
    if "ts_tree s' q \<noteq> ts_tree s q" for q
    using editor_elsewhere [of os kvs s q] that p(1,2) unfolding s' by auto
  with JsObj p show ?thesis by blast
qed (use assms in \<open>auto simp: execute_tool_def\<close>)

section \<open>What an edit does beyond its text\<close>

lemma set_concat_lines: "List.concat (lines_kept t) = t"
proof (induction t rule: lines_kept.induct)
  case (2 c cs)
  show ?case
  proof (cases "c = CHR 0x0D \<and> prefix [CHR 0x0A] cs")
    case True
    then obtain ds where "cs = CHR 0x0A # ds" by (auto simp: prefix_def)
    with True 2(1) show ?thesis by simp
  next
    case False
    then show ?thesis using 2(2,3) by (auto split: list.splits)
  qed
qed simp

lemma set_replace_once: "set (replace_once old new t) \<subseteq> set new \<union> set t"
  by (induction t) (auto dest: in_set_dropD)

text \<open>
  A successful edit makes newlines of all line ends of the file: when the new text has no carriage
  return, the file has none afterwards, wherever it had them before; a file edited with CR LF line
  ends differs in every line, and no undo brings them back.
\<close>

theorem edits_rewrite_line_ends:
  assumes "writable os path" "ts_tree s path = Some (Text_file t)" "edit_file os path e s \<noteq> s"
    and "CHR 0x0D \<notin> set (case e of Replace old new \<Rightarrow> new | Insert_at k new \<Rightarrow> new)"
  shows "\<exists>t'. ts_tree (edit_file os path e s) path = Some (Text_file t') \<and> CHR 0x0D \<notin> set t' \<and>
    ts_tree (snd (editor_undo os path (edit_file os path e s))) path = Some (Text_file (newlines t))"
proof -
  have r: "read_text os (ts_tree s) path = Inr (newlines t)" using assms(2) by (simp add: read_text_def)
  let ?ls = "lines_kept (newlines t)"
  have t: "set (newlines t) = set (List.concat (take k ?ls)) \<union> set (List.concat (drop k ?ls))" for k
    by (metis append_take_drop_id concat_append set_append set_concat_lines)
  have u: "ts_tree (snd (editor_undo os path (edit_file os path e s))) path = Some (Text_file (newlines t))"
    using assms(2,1)
  proof (cases rule: edit_file_cases [where e = e])
    case (2 t')
    then have "past path (edit_file os path e s) = past path s @ [newlines t]" by (simp add: past_def)
    from undo_step(1) [OF this assms(1)] show ?thesis by simp
  qed (use assms(3) in simp)
  show ?thesis
  proof (cases e)
    case (Replace old new)
    have "count_text old (newlines t) = 1"
    proof (rule ccontr)
      assume "count_text old (newlines t) \<noteq> 1"
      then show False using assms(2,3) r by (simp add: Replace editor_str_replace_def Let_def)
    qed
    moreover have "CHR 0x0D \<notin> set (replace_once old new (newlines t))"
      using set_replace_once assms(4) newlines_no_cr Replace by fastforce
    ultimately show ?thesis using assms(1,2) r u by (simp add: Replace editor_str_replace_def)
  next
    case (Insert_at k new)
    have "\<not> (k < 1 \<or> int (length ?ls) + 1 < k)"
    proof
      assume "k < 1 \<or> int (length ?ls) + 1 < k"
      then show False using assms(2,3) r by (auto simp: Insert_at editor_insert_def Let_def)
    qed
    moreover have "CHR 0x0D \<notin> set (List.concat (take (nat (k - 1)) ?ls @ [new @ line_feed] @ drop (nat (k - 1)) ?ls))"
      using t [of "nat (k - 1)"] newlines_no_cr [of t] assms(4) by (simp add: Insert_at line_feed_def)
    ultimately show ?thesis using assms(1,2) r u by (simp add: Insert_at editor_insert_def Let_def)
  qed
qed

text \<open>
  Inserting behind the last line of a file that does not end in a newline joins the text to that line.
\<close>

theorem insert_joins_the_last_line:
  assumes "writable os path" "ts_tree s path = Some (Text_file t)"
    and "k = int (length (lines_kept (newlines t))) + 1"
  shows "ts_tree (snd (editor_insert os path (JsInt k) (JsStr new) s)) path =
    Some (Text_file (newlines t @ new @ line_feed))"
  using assms by (simp add: editor_insert_def read_text_def Let_def set_concat_lines)

text \<open>The shell's reply is bounded; the command's output is cut, its end is lost.\<close>

theorem shell_reply_bounded: "length (shell_output out err code) \<le> MAX_OUTPUT_CHARS + 16"
  by (simp add: shell_output_def MAX_OUTPUT_CHARS_def line_feed_def Let_def)

section \<open>Instances\<close>

definition demo_os :: os_env where
  "demo_os = \<lparr>os_repo = ''/r'', os_resolve = (\<lambda>tree p. Some p), os_shell = (\<lambda>c tree. (Exited c [] 0, tree)),
     os_read_fault = (\<lambda>n. ''denied''), os_repr = (\<lambda>v. ''?''), os_write_fault = (\<lambda>tree p. None)\<rparr>"

definition demo_files :: tool_state where
  "demo_files = \<lparr>ts_tree = [''/r'' \<mapsto> Folder, ''/r/f'' \<mapsto> Text_file (''ab'' @ [CHR 0x0D, CHR 0x0A] @ ''c'')],
     ts_history = Map.empty\<rparr>"

lemma demo_writable: "writable demo_os p"
  by (simp add: writable_def demo_os_def)

lemma demo_file: "ts_tree demo_files ''/r/f'' = Some (Text_file (''ab'' @ [CHR 0x0D, CHR 0x0A] @ ''c''))"
  by (simp add: demo_files_def)

lemma demo_replace:
  "edit_file demo_os ''/r/f'' (Replace ''b'' ''x'') demo_files =
     \<lparr>ts_tree = (ts_tree demo_files)(''/r/f'' \<mapsto> Text_file (''ax'' @ [CHR 0x0A] @ ''c'')),
      ts_history = [''/r/f'' \<mapsto> [''ab'' @ [CHR 0x0A] @ ''c'']]\<rparr>"
  by (simp add: editor_str_replace_def demo_files_def read_text_def count_text.simps demo_writable
      remember_def)

theorem undo_restores_the_file_witness:
  "ts_tree (undo_times demo_os ''/r/f'' 1 (edit_all demo_os ''/r/f'' [Replace ''b'' ''x''] demo_files)) =
     (ts_tree demo_files)(''/r/f'' \<mapsto> Text_file (''ab'' @ [CHR 0x0A] @ ''c''))"
  using undo_restores_the_file [OF demo_writable demo_file, of "edit_all demo_os ''/r/f'' [Replace ''b'' ''x''] demo_files"
      "[Replace ''b'' ''x'']", OF refl refl]
  by (simp del: edit_file.simps add: demo_replace past_def) (simp add: demo_files_def)

theorem edits_stay_inside_witness:
  "\<exists>r s'. execute_tool demo_os ''str_replace_editor''
     (JsObj [(''command'', JsStr ''str_replace''), (''path'', JsStr ''f''), (''old_str'', JsStr ''b''),
       (''new_str'', JsStr ''x'')]) demo_files = (r, s') \<and> ts_tree s' \<noteq> ts_tree demo_files \<and>
     inside ''/r'' ''/r/f'' \<and>
     (\<forall>q. ts_tree s' q \<noteq> ts_tree demo_files q \<longrightarrow> q = ''/r/f'' \<or> q \<in> set (parents ''/r/f''))"
proof -
  let ?a = "JsObj [(''command'', JsStr ''str_replace''), (''path'', JsStr ''f''), (''old_str'', JsStr ''b''),
       (''new_str'', JsStr ''x'')]"
  obtain r s' where e: "execute_tool demo_os ''str_replace_editor'' ?a demo_files = (r, s')" by fastforce
  have "s' = edit_file demo_os ''/r/f'' (Replace ''b'' ''x'') demo_files"
    using e by (simp add: execute_tool_def run_editor_def arg_or_def resolved_def inside_def demo_os_def)
  then have "ts_tree s' ''/r/f'' \<noteq> ts_tree demo_files ''/r/f''" by (simp del: edit_file.simps add: demo_replace demo_file)
  then have d: "ts_tree s' \<noteq> ts_tree demo_files" by auto
  have b: "os_resolve demo_os (ts_tree demo_files) (os_repo demo_os) = Some ''/r''"
    "resolved demo_os (ts_tree demo_files) ''f'' = Some ''/r/f''" by (simp_all add: demo_os_def resolved_def)
  from edits_stay_inside [OF e d] b have "inside ''/r'' ''/r/f'' \<and>
      (\<forall>q. ts_tree s' q \<noteq> ts_tree demo_files q \<longrightarrow> q = ''/r/f'' \<or> q \<in> set (parents ''/r/f''))"
    by (fastforce simp: arg_or_def)
  with e d show ?thesis by blast
qed

theorem edits_rewrite_line_ends_witness:
  "ts_tree (snd (editor_undo demo_os ''/r/f'' (edit_file demo_os ''/r/f'' (Replace ''b'' ''x'') demo_files))) ''/r/f'' =
     Some (Text_file (''ab'' @ [CHR 0x0A] @ ''c''))"
  using edits_rewrite_line_ends [OF demo_writable demo_file, of "Replace ''b'' ''x''"]
  by (simp del: edit_file.simps add: demo_replace) (simp add: demo_files_def)

theorem insert_joins_the_last_line_witness:
  "ts_tree (snd (editor_insert demo_os ''/r/f'' (JsInt 3) (JsStr ''d'') demo_files)) ''/r/f'' =
     Some (Text_file (''ab'' @ [CHR 0x0A] @ ''cd'' @ [CHR 0x0A]))"
  using insert_joins_the_last_line [OF demo_writable demo_file, of 3 "''d''"]
  by (simp add: is_line_break_def line_feed_def)

end
