(* ===== verification/Agent_Loop.thy ===== *)
theory Agent_Loop
  imports Agent_Tools Taxonomy
begin

text \<open>
  The loop of the custom minimal harness, \<open>harnesses/custom_minimal/harness.py\<close>: the call of the
  model with its retries, the classification of a reply, the tool calls, the compaction trigger and
  the record of the run. The model is a script: for every turn the outcome, the duration and the
  jitter of every attempt, and the time the turn takes besides; any behaviour of the provider is one. The
  parser of JSON and the file system are arguments. Costs are reals; the texts of the logs, of the
  trajectory and of the error field are left out; a dash in a message is written with a hyphen.
\<close>

section \<open>Calling the model\<close>

datatype call_fault =
    Connection_fault string | Status_fault nat string | Httpx_timeout string | Builtin_timeout string
  | Other_fault string

fun fault_text :: "call_fault \<Rightarrow> string" where
  "fault_text (Connection_fault x) = x"
| "fault_text (Status_fault n x) = x"
| "fault_text (Httpx_timeout x) = x"
| "fault_text (Builtin_timeout x) = x"
| "fault_text (Other_fault x) = x"

definition per_call_read_timeout :: "int \<Rightarrow> int" where
  "per_call_read_timeout timeout_seconds =
     (let read = min 120 (max 30 (timeout_seconds div 3))
      in if timeout_seconds \<le> read then max 1 (timeout_seconds - 1) else read)"

definition retriable_status :: "nat \<Rightarrow> bool" where
  "retriable_status n = (n = 408 \<or> n = 429 \<or> 500 \<le> n \<and> n < 600)"

fun is_retriable :: "call_fault \<Rightarrow> bool" where
  "is_retriable (Connection_fault x) = True"
| "is_retriable (Status_fault n x) = retriable_status n"
| "is_retriable (Httpx_timeout x) = True"
| "is_retriable (Builtin_timeout x) = True"
| "is_retriable (Other_fault x) = False"

fun is_api_error :: "call_fault \<Rightarrow> bool" where
  "is_api_error (Status_fault n x) = True"
| "is_api_error e = False"

definition fault_reason :: "call_fault \<Rightarrow> string" where
  "fault_reason e =
     (if (case e of Httpx_timeout x \<Rightarrow> True | Builtin_timeout x \<Rightarrow> True
          | _ \<Rightarrow> is_api_error e \<and> occurs ''timeout'' (lower (fault_text e))) then ''timeout''
      else if is_api_error e then ''model_api_error'' else ''crash'')"

record tool_request =
  tr_id :: string
  tr_name :: string
  tr_args :: string

text \<open>
  The counts of a reply, a missing one as 0, the reported cost, and whether the usage has every
  attribute the loop reads: the client's own usage has neither \<open>cost\<close> nor
  \<open>cache_write_tokens\<close>, which are there when the reply carried them.
\<close>

record reply_usage =
  ru_prompt :: int
  ru_completion :: int
  ru_cached :: int
  ru_cache_write :: int
  ru_reasoning :: int
  ru_cost :: "real option"
  ru_whole :: bool

record model_reply =
  rp_content :: "string option"
  rp_reasoning_content :: "string option"
  rp_reasoning :: "string option"
  rp_refusal :: "string option"
  rp_finish :: "string option"
  rp_calls :: "tool_request list"

text \<open>The choices and the usage of a response.\<close>

type_synonym response = "model_reply list \<times> reply_usage option"

record call_attempt =
  ca_outcome :: "call_fault + response"
  ca_seconds :: real
  ca_jitter :: real

record retry_params =
  rt_retries :: nat
  rt_base :: real
  rt_max :: real
  rt_read :: real
  rt_deadline :: real

definition retry_delay :: "retry_params \<Rightarrow> nat \<Rightarrow> real \<Rightarrow> real" where
  "retry_delay p k jitter = min (rt_max p) (rt_base p * 2 ^ (k - 1) * jitter)"

text \<open>
  The outcome, the clock and the retries made, from an attempt on with so many retries left. A retry
  is made when the pause and one read end before the deadline.
\<close>

fun call_with_retry ::
    "retry_params \<Rightarrow> (nat \<Rightarrow> call_attempt) \<Rightarrow> nat \<Rightarrow> nat \<Rightarrow> real \<Rightarrow> (call_fault + response) \<times> real \<times> nat" where
  "call_with_retry p as left k clock =
     (let a = as k; now = clock + ca_seconds a
      in case ca_outcome a of
           Inr r \<Rightarrow> (Inr r, now, k)
         | Inl e \<Rightarrow>
             (if \<not> is_retriable e then (Inl e, now, k)
              else case left of
                  0 \<Rightarrow> (Inl e, now, k)
                | Suc l \<Rightarrow>
                    (let delay = retry_delay p (Suc k) (ca_jitter a)
                     in if rt_deadline p - now \<le> delay + rt_read p then (Inl e, now, k)
                        else call_with_retry p as l (Suc k) (now + delay))))"

declare call_with_retry.simps [simp del]

section \<open>The state of a run\<close>

record compaction_event =
  ce_turn :: nat
  ce_pre :: int
  ce_post :: nat

record compaction_state =
  cp_fired :: nat
  cp_exhausted :: bool
  cp_last_prompt :: int
  cp_chars :: nat
  cp_before :: "nat option"
  cp_after :: "nat option"
  cp_events :: "compaction_event list"

record agent =
  ag_messages :: "message list"
  ag_files :: tool_state
  ag_input :: int
  ag_output :: int
  ag_cached :: int
  ag_cache_write :: int
  ag_reasoning :: int
  ag_cost :: real
  ag_gateway :: bool
  ag_tokens :: int
  ag_retries :: nat
  ag_retry_count :: nat
  ag_malformed :: nat
  ag_empty :: nat
  ag_reason :: string
  ag_exit :: int
  ag_compact :: compaction_state
  ag_clock :: real

record agent_input =
  ai_repo_dir :: string
  ai_problem :: string
  ai_prompt :: string
  ai_model :: string
  ai_timeout :: int
  ai_max_tokens :: "int option"
  ai_max_cost :: real
  ai_window :: "int option"
  ai_max_turns :: nat
  ai_retries :: nat
  ai_base_delay :: real
  ai_max_delay :: real
  ai_start :: real

definition plain_message :: "string \<Rightarrow> string \<Rightarrow> message" where
  "plain_message role content = \<lparr>m_role = role, m_content = Some content, m_reasoning = None,
     m_tool_calls = [], m_tool_call_id = None, m_extra = None\<rparr>"

definition checkout_note :: "string \<Rightarrow> string" where
  "checkout_note dir = ''The repository for this task is checked out at '' @ dir @
     '' - your shell'' @ [CHR 0x27] @ ''s current working directory is already that path. Use it directly; do not guess or `cd` to a path like /repo.''"

definition initial_messages :: "agent_input \<Rightarrow> message list" where
  "initial_messages i =
     [plain_message ''system'' (ai_prompt i), plain_message ''system'' (checkout_note (ai_repo_dir i)),
      plain_message ''user'' (ai_problem i)]"

definition initial_agent :: "agent_input \<Rightarrow> tool_state \<Rightarrow> agent" where
  "initial_agent i files =
     \<lparr>ag_messages = initial_messages i, ag_files = files, ag_input = 0, ag_output = 0, ag_cached = 0,
      ag_cache_write = 0, ag_reasoning = 0, ag_cost = 0, ag_gateway = False, ag_tokens = 0,
      ag_retries = 0, ag_retry_count = 0, ag_malformed = 0, ag_empty = 0, ag_reason = ''completed'',
      ag_exit = 0, ag_compact = \<lparr>cp_fired = 0, cp_exhausted = False, cp_last_prompt = 0, cp_chars = 0,
        cp_before = None, cp_after = None, cp_events = []\<rparr>, ag_clock = ai_start i\<rparr>"

datatype run_fault = Compaction_fault compact_error | No_choice | Missing_attribute

text \<open>A stop of the loop with a reason and an exit code.\<close>

definition stop :: "string \<Rightarrow> int \<Rightarrow> agent \<Rightarrow> agent" where
  "stop reason code ag = ag\<lparr>ag_reason := reason, ag_exit := code\<rparr>"

section \<open>Compaction\<close>

definition maybe_compact ::
    "int \<Rightarrow> nat \<Rightarrow> message list \<Rightarrow> compaction_state \<Rightarrow> compact_error + message list \<times> compaction_state" where
  "maybe_compact threshold turn ms c =
     (let applied = cp_last_prompt c + int (cp_chars c div 4)
      in if threshold \<le> 0 \<or> cp_exhausted c \<or> applied < threshold \<or> length ms \<le> 8 then Inr (ms, c)
         else case compact_messages default_params ms of
             Inl e \<Rightarrow> Inl e
           | Inr (out, st) \<Rightarrow>
               Inr (out, c\<lparr>cp_fired := Suc (cp_fired c), cp_before := Some (cs_before_chars st),
                 cp_after := Some (cs_after_chars st),
                 cp_events := cp_events c @ [\<lparr>ce_turn = turn, ce_pre = applied, ce_post = cs_after_chars st div 4\<rparr>],
                 cp_exhausted := (cs_made_progress st \<noteq> Some True)\<rparr>))"

section \<open>One reply\<close>

definition reasoning_of :: "model_reply \<Rightarrow> string" where
  "reasoning_of r =
     (case rp_reasoning_content r of
        Some x \<Rightarrow> x
      | None \<Rightarrow> (case rp_reasoning r of Some x \<Rightarrow> x | None \<Rightarrow> []))"

definition declines :: "model_reply \<Rightarrow> bool" where
  "declines r = (case rp_refusal r of Some x \<Rightarrow> strip x \<noteq> [] | None \<Rightarrow> False)"

definition is_empty_reply :: "model_reply \<Rightarrow> bool" where
  "is_empty_reply r = (rp_calls r = [] \<and> strip (or_str (rp_content r) []) = [] \<and> reasoning_of r = [])"

definition account_usage :: "string \<Rightarrow> reply_usage option \<Rightarrow> agent \<Rightarrow> agent" where
  "account_usage model u ag =
     (case u of
        None \<Rightarrow> ag
      | Some r \<Rightarrow>
          (let inp = ag_input ag + ru_prompt r; outp = ag_output ag + ru_completion r;
               reported = (case ru_cost r of Some c \<Rightarrow> if 0 < c then Some c else None | None \<Rightarrow> None);
               cost = ag_cost ag + cost_for reported (ru_prompt r) (ru_completion r) model (ru_cached r);
               c = ag_compact ag
           in ag\<lparr>ag_input := inp, ag_output := outp, ag_tokens := inp + outp,
                 ag_compact := (if ru_prompt r = 0 then c else c\<lparr>cp_last_prompt := ru_prompt r, cp_chars := 0\<rparr>),
                 ag_cached := ag_cached ag + ru_cached r,
                 ag_cache_write := ag_cache_write ag + ru_cache_write r,
                 ag_reasoning := ag_reasoning ag + ru_reasoning r,
                 ag_cost := cost, ag_gateway := (ag_gateway ag \<or> reported \<noteq> None),
                 ag_retry_count := ag_retries ag\<rparr>))"

definition assistant_message :: "model_reply \<Rightarrow> message" where
  "assistant_message r =
     \<lparr>m_role = ''assistant'', m_content = (if truthy (rp_content r) then rp_content r else None),
      m_reasoning = (if reasoning_of r = [] then None else Some (reasoning_of r)),
      m_tool_calls = map (\<lambda>t. \<lparr>tc_id = Some (tr_id t), tc_arguments = tr_args t\<rparr>) (rp_calls r),
      m_tool_call_id = None, m_extra = None\<rparr>"

text \<open>A message joins the conversation and its characters the estimate.\<close>

definition add_message :: "message \<Rightarrow> nat \<Rightarrow> agent \<Rightarrow> agent" where
  "add_message m chars ag =
     ag\<lparr>ag_messages := ag_messages ag @ [m],
        ag_compact := (ag_compact ag)\<lparr>cp_chars := cp_chars (ag_compact ag) + chars\<rparr>\<rparr>"

definition tool_message :: "string \<Rightarrow> string \<Rightarrow> message" where
  "tool_message i content = \<lparr>m_role = ''tool'', m_content = Some content, m_reasoning = None,
     m_tool_calls = [], m_tool_call_id = Some i, m_extra = None\<rparr>"

section \<open>The tool calls of a reply\<close>

definition bad_json :: "string \<Rightarrow> string" where
  "bad_json x = ''ERROR: tool arguments were not valid JSON ('' @ x @ ''). Re-issue this tool call with complete, valid JSON.''"

definition failed_tool :: "string \<Rightarrow> string" where
  "failed_tool x = ''ERROR: tool execution failed ('' @ x @ ''). Re-issue this tool call or try a different command.''"

text \<open>The third malformed call leaves the calls of this reply.\<close>

fun run_tools :: "os_env \<Rightarrow> (string \<Rightarrow> string + json) \<Rightarrow> tool_request list \<Rightarrow> agent \<Rightarrow> agent" where
  "run_tools os parse [] ag = ag"
| "run_tools os parse (t # ts) ag =
     (case parse (tr_args t) of
        Inl x \<Rightarrow>
          (let ag1 = ag\<lparr>ag_malformed := Suc (ag_malformed ag)\<rparr>
           in if 3 \<le> ag_malformed ag1 then stop ''malformed_tool_calls'' 2 ag1
              else run_tools os parse ts (add_message (tool_message (tr_id t) (bad_json x)) (length (bad_json x)) ag1))
      | Inr args \<Rightarrow>
          (case execute_tool os (tr_name t) args (ag_files ag) of
             (Inr out, files) \<Rightarrow>
               run_tools os parse ts (add_message (tool_message (tr_id t) out) (length out) (ag\<lparr>ag_files := files\<rparr>))
           | (Inl x, files) \<Rightarrow>
               (let ag1 = ag\<lparr>ag_files := files, ag_malformed := Suc (ag_malformed ag)\<rparr>
                in if 3 \<le> ag_malformed ag1 then stop ''malformed_tool_calls'' 2 ag1
                   else run_tools os parse ts
                     (add_message (tool_message (tr_id t) (failed_tool x)) (length (failed_tool x)) ag1))))"

section \<open>One turn\<close>

datatype turn_outcome = Go agent | Stop agent | Raised run_fault

definition over_budget :: "agent_input \<Rightarrow> agent \<Rightarrow> bool" where
  "over_budget i ag =
     ((case ai_max_tokens i of Some n \<Rightarrow> n \<noteq> 0 \<and> n \<le> ag_tokens ag | None \<Rightarrow> False) \<or>
      ai_max_cost i \<noteq> 0 \<and> ai_max_cost i \<le> ag_cost ag)"

definition empty_nudge :: message where
  "empty_nudge = plain_message ''user'' (''Your previous response was empty (no text, no tool call). '' @
     ''Continue working on the issue and make a productive next step - either edit a file or '' @
     ''report your final result in text.'')"

definition take_reply ::
    "os_env \<Rightarrow> (string \<Rightarrow> string + json) \<Rightarrow> string \<Rightarrow> response \<Rightarrow> agent \<Rightarrow> turn_outcome" where
  "take_reply os parse model resp ag =
     (case fst resp of
        [] \<Rightarrow> Raised No_choice
      | r # rs \<Rightarrow>
          (let ag1 = account_usage model (snd resp) ag;
               ag2 = add_message (assistant_message r) (length (or_str (rp_content r) []) + length (reasoning_of r)) ag1
           in if rp_finish r = Some ''length'' then Stop (stop ''max_tokens_truncated'' 2 ag2)
              else if declines r then Stop (stop ''refused'' 2 ag2)
              else if is_empty_reply r then
                (let ag3 = ag2\<lparr>ag_empty := Suc (ag_empty ag2)\<rparr>
                 in if 3 \<le> ag_empty ag3 then Stop (stop ''empty_response'' 2 ag3)
                    else Go (add_message empty_nudge 0 ag3))
              else let ag3 = ag2\<lparr>ag_empty := 0\<rparr>
                   in if rp_calls r = [] then Stop ag3 else Go (run_tools os parse (rp_calls r) ag3)))"

definition retry_of :: "agent_input \<Rightarrow> retry_params" where
  "retry_of i = \<lparr>rt_retries = ai_retries i, rt_base = ai_base_delay i, rt_max = ai_max_delay i,
     rt_read = of_int (per_call_read_timeout (ai_timeout i)), rt_deadline = ai_start i + of_int (ai_timeout i)\<rparr>"

text \<open>A reply whose usage lacks an attribute that is read raises before it is recorded.\<close>

definition usage_breaks :: "response \<Rightarrow> bool" where
  "usage_breaks r = (fst r \<noteq> [] \<and> (case snd r of Some u \<Rightarrow> \<not> ru_whole u | None \<Rightarrow> False))"

text \<open>The script of a turn: its attempts and the seconds it takes besides.\<close>

type_synonym script = "nat \<Rightarrow> (nat \<Rightarrow> call_attempt) \<times> real"

definition agent_turn ::
    "os_env \<Rightarrow> (string \<Rightarrow> string + json) \<Rightarrow> agent_input \<Rightarrow> script \<Rightarrow> nat \<Rightarrow> agent \<Rightarrow> turn_outcome" where
  "agent_turn os parse i sc turn ag =
     (if of_int (ai_timeout i) < ag_clock ag - ai_start i then Stop (ag\<lparr>ag_reason := ''timeout''\<rparr>)
      else if over_budget i ag then Stop (ag\<lparr>ag_reason := ''budget_exceeded''\<rparr>)
      else case maybe_compact (compute_threshold (ai_window i) OUTPUT_RESERVE) turn (ag_messages ag) (ag_compact ag) of
          Inl e \<Rightarrow> Raised (Compaction_fault e)
        | Inr (ms, c) \<Rightarrow>
            (let (res, now, k) = call_with_retry (retry_of i) (fst (sc turn)) (ai_retries i) 0 (ag_clock ag);
                 ag1 = ag\<lparr>ag_messages := ms, ag_compact := c, ag_clock := now + snd (sc turn),
                   ag_retries := (if k = 0 then ag_retries ag else k)\<rparr>
             in case res of
                  Inl e \<Rightarrow> Stop (stop (fault_reason e) 2 ag1)
                | Inr r \<Rightarrow> if usage_breaks r then Raised Missing_attribute else take_reply os parse (ai_model i) r ag1))"

section \<open>The run\<close>

primrec run_turns ::
    "os_env \<Rightarrow> (string \<Rightarrow> string + json) \<Rightarrow> agent_input \<Rightarrow> script \<Rightarrow> nat \<Rightarrow> nat \<Rightarrow> agent \<Rightarrow> run_fault + agent" where
  "run_turns os parse i sc 0 turn ag = Inr (stop ''max_turns_exceeded'' 2 ag)"
| "run_turns os parse i sc (Suc n) turn ag =
     (case agent_turn os parse i sc turn ag of
        Raised e \<Rightarrow> Inl e
      | Stop ag' \<Rightarrow> Inr ag'
      | Go ag' \<Rightarrow> run_turns os parse i sc n (Suc turn) ag')"

record harness_output =
  ho_patch :: "string option"
  ho_success :: bool
  ho_exit :: int
  ho_reason :: string
  ho_category :: "error_category option"
  ho_agent :: "agent option"
  ho_window :: "int option"

text \<open>
  The run with the diff at its end, a patch and whether git timed out. A repository that is not
  prepared ends it before the first turn.
\<close>

definition run_agent ::
    "os_env \<Rightarrow> (string \<Rightarrow> string + json) \<Rightarrow> agent_input \<Rightarrow> bool \<Rightarrow> script \<Rightarrow> (tree \<Rightarrow> string option \<times> bool) \<Rightarrow>
     tool_state \<Rightarrow> run_fault + harness_output" where
  "run_agent os parse i prepared sc diff files =
     (if \<not> prepared then
        Inr \<lparr>ho_patch = None, ho_success = False, ho_exit = 1, ho_reason = ''crash'',
          ho_category = Some HARNESS_CRASH, ho_agent = None, ho_window = None\<rparr>
      else case run_turns os parse i sc (ai_max_turns i) 1 (initial_agent i files) of
          Inl e \<Rightarrow> Inl e
        | Inr ag \<Rightarrow>
            (let (patch, timed_out) = diff (ts_tree (ag_files ag));
                 reason = (if timed_out then ''patch_extract_timeout'' else ag_reason ag)
             in Inr \<lparr>ho_patch = patch, ho_success = truthy patch, ho_exit = ag_exit ag, ho_reason = reason,
                  ho_category = map_terminated_reason_to_error_category reason patch,
                  ho_agent = Some ag, ho_window = ai_window i\<rparr>))"

end
