(* ===== verification/Agent_Facts.thy ===== *)
theory Agent_Facts
  imports Agent_Loop
begin

text \<open>
  What the agent loop keeps: the bounds of its retries and of its budget, the conversation that the
  compaction relies on, what a clean finish proves, and where the record of a run misleads.
\<close>

section \<open>The retries\<close>

lemma call_starts:
  "call_with_retry p as left k t = (res, t', n) \<Longrightarrow> k \<le> n \<and> (n = k \<longrightarrow> t' = t + ca_seconds (as k))"
proof (induction left arbitrary: k t)
  case 0
  then show ?case
    by (subst (asm) call_with_retry.simps) (auto simp: Let_def split: sum.splits if_splits)
next
  case (Suc l)
  show ?case
  proof (cases "\<exists>t''. call_with_retry p as l (Suc k) t'' = (res, t', n)")
    case True
    then show ?thesis using Suc.IH by (metis Suc_n_not_le_n Suc_leD)
  next
    case False
    then show ?thesis using Suc.prems
      by (subst (asm) (2) call_with_retry.simps) (auto simp: Let_def split: sum.splits if_splits)
  qed
qed

lemma retries_spec:
  assumes "call_with_retry p as left k t = (res, t', n)"
  shows "k \<le> n \<and> n \<le> k + left \<and> res = ca_outcome (as n) \<and>
    (k < n \<longrightarrow> t' - ca_seconds (as n) + rt_read p < rt_deadline p) \<and>
    (\<forall>j. k \<le> j \<and> j < n \<longrightarrow> (\<exists>e. ca_outcome (as j) = Inl e \<and> is_retriable e))"
  using assms
proof (induction left arbitrary: k t)
  case 0
  then show ?case
    by (subst (asm) call_with_retry.simps) (auto simp: Let_def split: sum.splits if_splits)
next
  case (Suc l)
  show ?case
  proof (cases "\<exists>e. ca_outcome (as k) = Inl e \<and> is_retriable e \<and>
      \<not> rt_deadline p - (t + ca_seconds (as k)) \<le> retry_delay p (Suc k) (ca_jitter (as k)) + rt_read p")
    case True
    then obtain e where e: "ca_outcome (as k) = Inl e" "is_retriable e"
      "retry_delay p (Suc k) (ca_jitter (as k)) + rt_read p < rt_deadline p - (t + ca_seconds (as k))" by auto
    let ?t = "t + ca_seconds (as k) + retry_delay p (Suc k) (ca_jitter (as k))"
    have r: "call_with_retry p as l (Suc k) ?t = (res, t', n)"
      using Suc.prems e by (subst (asm) call_with_retry.simps) (simp add: Let_def)
    have i: "Suc k \<le> n" "n \<le> Suc k + l" "res = ca_outcome (as n)"
      "Suc k < n \<Longrightarrow> t' - ca_seconds (as n) + rt_read p < rt_deadline p"
      "\<And>j. Suc k \<le> j \<Longrightarrow> j < n \<Longrightarrow> \<exists>e. ca_outcome (as j) = Inl e \<and> is_retriable e"
      using Suc.IH [OF r] by blast+
    have "t' - ca_seconds (as n) + rt_read p < rt_deadline p"
      using i(1,4) e(3) call_starts [OF r] by (cases "n = Suc k") auto
    moreover have "\<exists>e. ca_outcome (as j) = Inl e \<and> is_retriable e" if "k \<le> j" "j < n" for j
      using that i(5) e(1,2) by (cases "j = k") auto
    ultimately show ?thesis using i(1,2,3) by auto
  next
    case False
    then have "res = ca_outcome (as k) \<and> n = k"
      using Suc.prems by (subst (asm) call_with_retry.simps) (auto simp: Let_def split: sum.splits if_splits)
    then show ?thesis by (metis le_add1 le_refl less_irrefl order_le_less_trans)
  qed
qed

text \<open>
  A call makes at most the configured retries, no attempt behind the first is started later than
  one read before the deadline, and only faults worth a retry were retried.
\<close>

theorem retries_fit_the_deadline:
  assumes "call_with_retry p as left k t = (res, t', n)"
  shows "k \<le> n \<and> n \<le> k + left \<and> res = ca_outcome (as n) \<and>
    (k < n \<longrightarrow> t' - ca_seconds (as n) + rt_read p < rt_deadline p) \<and>
    (\<forall>j. k \<le> j \<and> j < n \<longrightarrow> (\<exists>e. ca_outcome (as j) = Inl e \<and> is_retriable e))"
  by (rule retries_spec [OF assms])

text \<open>
  The read timeout lies between one second and two minutes, and below the time limit of the run exactly
  when that is more than a second.
\<close>

theorem read_timeout_bounds:
  "1 \<le> per_call_read_timeout n \<and> per_call_read_timeout n \<le> 120 \<and> (per_call_read_timeout n < n \<longleftrightarrow> 1 < n)"
  by (auto simp: per_call_read_timeout_def Let_def min_def max_def)

section \<open>What the parts of a turn keep\<close>

lemma stop_simps [simp]:
  "ag_reason (stop x n ag) = x" "ag_exit (stop x n ag) = n" "ag_messages (stop x n ag) = ag_messages ag"
  "ag_tokens (stop x n ag) = ag_tokens ag" "ag_malformed (stop x n ag) = ag_malformed ag"
  "ag_empty (stop x n ag) = ag_empty ag" "ag_input (stop x n ag) = ag_input ag" "ag_output (stop x n ag) = ag_output ag"
  by (simp_all add: stop_def)

lemma add_message_simps [simp]:
  "ag_messages (add_message m n ag) = ag_messages ag @ [m]" "ag_tokens (add_message m n ag) = ag_tokens ag"
  "ag_malformed (add_message m n ag) = ag_malformed ag" "ag_empty (add_message m n ag) = ag_empty ag"
  "ag_reason (add_message m n ag) = ag_reason ag" "ag_exit (add_message m n ag) = ag_exit ag"
  "ag_files (add_message m n ag) = ag_files ag"
  "ag_input (add_message m n ag) = ag_input ag" "ag_output (add_message m n ag) = ag_output ag"
  by (simp_all add: add_message_def)

lemma account_simps [simp]:
  "ag_messages (account_usage model u ag) = ag_messages ag" "ag_malformed (account_usage model u ag) = ag_malformed ag"
  "ag_empty (account_usage model u ag) = ag_empty ag" "ag_reason (account_usage model u ag) = ag_reason ag"
  "ag_exit (account_usage model u ag) = ag_exit ag" "ag_files (account_usage model u ag) = ag_files ag"
  by (simp_all add: account_usage_def Let_def split: option.split)

lemma run_tools_numbers:
  "ag_tokens (run_tools os parse ts ag) = ag_tokens ag \<and> ag_input (run_tools os parse ts ag) = ag_input ag \<and>
   ag_output (run_tools os parse ts ag) = ag_output ag \<and> ag_empty (run_tools os parse ts ag) = ag_empty ag"
  by (induction os parse ts ag rule: run_tools.induct)
    (auto simp: Let_def split: sum.splits prod.splits)

text \<open>The reason and the exit code agree with the count of malformed calls.\<close>

definition reason_ok :: "agent \<Rightarrow> bool" where
  "reason_ok ag = (if ag_malformed ag < 3 then ag_reason ag = ''completed'' \<and> ag_exit ag = 0
     else ag_reason ag = ''malformed_tool_calls'' \<and> ag_exit ag = 2)"

lemma run_tools_reason: "reason_ok ag \<Longrightarrow> reason_ok (run_tools os parse ts ag)"
proof (induction os parse ts ag rule: run_tools.induct)
  case (2 os parse t ts ag)
  show ?case
  proof (cases "\<exists>x. parse (tr_args t) = Inl x")
    case True
    then show ?thesis using 2 by (auto simp: Let_def reason_ok_def split: if_splits)
  next
    case False
    then obtain args where a: "parse (tr_args t) = Inr args" by (metis sum.exhaust)
    obtain out files where e: "execute_tool os (tr_name t) args (ag_files ag) = (out, files)" by fastforce
    show ?thesis using 2 a e by (cases out) (auto simp: Let_def reason_ok_def split: if_splits)
  qed
qed simp

lemma run_tools_malformed: "ag_malformed ag \<le> ag_malformed (run_tools os parse ts ag)"
  by (induction os parse ts ag rule: run_tools.induct)
    (auto simp: Let_def intro: Suc_leD split: sum.splits prod.splits)

section \<open>The conversation\<close>

lemma answers_snoc:
  "answers_ok ids (ms @ [m]) \<longleftrightarrow> answers_ok ids ms \<and> (is_tool m \<longrightarrow> answer_of m \<subseteq> last_ids ids ms)"
  by (simp add: answers_ok_append)

lemma last_ids_append: "last_ids ids (xs @ ys) = last_ids (last_ids ids xs) ys"
  by (induction xs arbitrary: ids) auto

lemma message_parts [simp]:
  "is_tool (tool_message i x)" "answer_of (tool_message i x) = (if i = [] then {} else {i})"
  "\<not> is_tool (assistant_message r)" "\<not> is_tool empty_nudge" "\<not> is_tool (plain_message ''user'' x)"
  "\<not> is_tool (plain_message ''system'' x)"
  by (simp_all add: is_tool_def tool_message_def assistant_message_def empty_nudge_def plain_message_def answer_of_def)

lemma assistant_calls:
  "caller_ids (assistant_message r) = {tr_id t | t. t \<in> set (rp_calls r) \<and> tr_id t \<noteq> []}"
  by (auto simp: caller_ids_def ids_of_def assistant_message_def)

lemma run_tools_answers:
  "answers_ok {} (ag_messages ag) \<Longrightarrow> \<forall>t \<in> set ts. tr_id t = [] \<or> tr_id t \<in> last_ids {} (ag_messages ag) \<Longrightarrow>
   answers_ok {} (ag_messages (run_tools os parse ts ag))"
proof (induction os parse ts ag rule: run_tools.induct)
  case (2 os parse t ts ag)
  have ok: "answers_ok {} (ag_messages ag @ [tool_message (tr_id t) x])" for x
    using 2(4,5) by (auto simp: answers_snoc)
  have ids: "last_ids {} (ag_messages ag @ [tool_message (tr_id t) x]) = last_ids {} (ag_messages ag)" for x
    by (simp add: last_ids_append)
  show ?case
  proof (cases "\<exists>x. parse (tr_args t) = Inl x")
    case True
    then show ?thesis using 2(1,4,5) ok ids by (auto simp: Let_def)
  next
    case False
    then obtain args where a: "parse (tr_args t) = Inr args" by (metis sum.exhaust)
    obtain out files where e: "execute_tool os (tr_name t) args (ag_files ag) = (out, files)" by fastforce
    show ?thesis using 2(2,3,4,5) a e ok ids by (cases out) (auto simp: Let_def)
  qed
qed simp

text \<open>The pass with its default parameters only shortens tool results.\<close>

lemma default_pass:
  assumes "answers_ok {} ms" "8 < length ms"
  shows "\<exists>out st. compact_messages default_params ms = Inr (out, st) \<and> list_all2 kept ms out"
proof -
  let ?p = default_params
  have long: "keep_head ?p + keep_tail ?p < length ms" and tl: "0 < keep_tail ?p"
    using assms(2) by (simp_all add: default_params_def)
  obtain out start pruned tail' n where o: "pass_output ?p ms = (out, start, pruned, tail', n)" by (metis prod_cases5)
  note pass = compact_pass [OF long tl o]
  have n: "n = 0" using o by (auto simp: pass_output_def Let_def default_params_def split: prod.splits)
  have b: "keep_head ?p \<le> start" "start \<le> length ms" and t: "list_all2 kept (drop start ms) tail'"
    and out: "out = take (keep_head ?p) ms @ map (fst \<circ> stub1 (keep_tool_head_chars ?p)) (drop (keep_head ?p) (take start ms)) @ tail'"
    using pass(1) n by (auto simp: pass_shape_def boundary_ok_def)
  have "list_all2 kept (take (keep_head ?p) ms @ drop (keep_head ?p) (take start ms) @ drop start ms) out"
    unfolding out by (intro list_all2_appendI t list_all2_map_kept stub1_kept) (simp_all add: list.rel_refl_strong stub1_kept)
  then have "list_all2 kept ms out" by (metis cut_twice [OF b(1)])
  moreover obtain st where "compact_messages ?p ms = Inr (out, st)"
    using pass(2) pass_pieces(1) [OF pass(1) assms(1)] by blast
  ultimately show ?thesis by blast
qed

lemma maybe_compact_ok:
  assumes "answers_ok {} ms"
  shows "\<exists>out c'. maybe_compact threshold turn ms c = Inr (out, c') \<and> answers_ok {} out"
proof (cases "threshold \<le> 0 \<or> cp_exhausted c \<or> cp_last_prompt c + int (cp_chars c div 4) < threshold \<or> length ms \<le> 8")
  case True
  then show ?thesis using assms by (simp add: maybe_compact_def Let_def)
next
  case False
  then obtain out st where o: "compact_messages default_params ms = Inr (out, st)" "list_all2 kept ms out"
    using default_pass [OF assms] by auto
  have "answers_ok {} out" using kept_lists(1) [OF o(2)] assms by simp
  then show ?thesis using False o(1) by (simp add: maybe_compact_def Let_def)
qed

lemma take_reply_answers:
  assumes "answers_ok {} (ag_messages ag)" "take_reply os parse model resp ag = Go ag'"
  shows "answers_ok {} (ag_messages ag')"
proof -
  obtain r rs where r: "fst resp = r # rs" using assms(2) by (cases "fst resp") (auto simp: take_reply_def)
  let ?ms = "ag_messages ag @ [assistant_message r]"
  have ok: "answers_ok {} ?ms" using assms(1) by (simp add: answers_snoc)
  have last: "last_ids {} ?ms = {tr_id t | t. t \<in> set (rp_calls r) \<and> tr_id t \<noteq> []}"
    by (simp add: last_ids_append assistant_calls)
  show ?thesis
  proof (cases "is_empty_reply r")
    case True
    then show ?thesis using assms(2) ok
      by (auto simp: take_reply_def r Let_def answers_ok_append split: if_splits)
  next
    case False
    then obtain ag3 where a: "ag' = run_tools os parse (rp_calls r) ag3" "ag_messages ag3 = ?ms"
      using assms(2) by (auto simp: take_reply_def r Let_def split: if_splits)
    show ?thesis unfolding a(1) by (rule run_tools_answers) (use ok last a(2) in auto)
  qed
qed

lemma turn_answers:
  assumes "answers_ok {} (ag_messages ag)"
  shows "agent_turn os parse i sc turn ag \<noteq> Raised (Compaction_fault e)"
    "agent_turn os parse i sc turn ag = Go ag' \<Longrightarrow> answers_ok {} (ag_messages ag')"
proof -
  obtain out c' where m: "maybe_compact (compute_threshold (ai_window i) OUTPUT_RESERVE) turn (ag_messages ag) (ag_compact ag)
      = Inr (out, c')" "answers_ok {} out"
    using maybe_compact_ok [OF assms] by blast
  obtain res now k where c: "call_with_retry (retry_of i) (fst (sc turn)) (ai_retries i) 0 (ag_clock ag) = (res, now, k)"
    by (metis prod_cases3)
  show "agent_turn os parse i sc turn ag \<noteq> Raised (Compaction_fault e)"
    by (auto simp: agent_turn_def m(1) c Let_def take_reply_def split: sum.splits list.splits if_splits)
  show "answers_ok {} (ag_messages ag')" if g: "agent_turn os parse i sc turn ag = Go ag'"
  proof -
    obtain r where t: "take_reply os parse (ai_model i) r (ag\<lparr>ag_messages := out, ag_compact := c',
        ag_clock := now + snd (sc turn), ag_retries := (if k = 0 then ag_retries ag else k)\<rparr>) = Go ag'"
      using g by (auto simp: agent_turn_def m(1) c Let_def split: sum.splits if_splits)
    show ?thesis by (rule take_reply_answers [OF _ t]) (simp add: m(2))
  qed
qed

lemma runs_answer:
  "answers_ok {} (ag_messages ag) \<Longrightarrow> run_turns os parse i sc n turn ag \<noteq> Inl (Compaction_fault e)"
proof (induction n arbitrary: turn ag)
  case (Suc n)
  then show ?case using turn_answers [OF Suc.prems, of os parse i sc turn]
    by (cases "agent_turn os parse i sc turn ag") auto
qed simp

text \<open>
  Whatever the model and the tools answer, the compaction never breaks a run: every conversation
  the loop hands to it has a call before each result, so the assertion at the end of the
  pass holds. What the loop raises is a response without a choice or a usage without an attribute it
  reads, and nothing else.
\<close>

theorem runs_end_or_lack_a_choice:
  "run_agent os parse i prepared sc diff files = Inl e \<longleftrightarrow>
     prepared \<and> e \<in> {No_choice, Missing_attribute} \<and>
     run_turns os parse i sc (ai_max_turns i) 1 (initial_agent i files) = Inl e"
proof -
  have "answers_ok {} (ag_messages (initial_agent i files))"
    by (simp add: initial_agent_def initial_messages_def)
  then have "run_turns os parse i sc (ai_max_turns i) 1 (initial_agent i files) \<noteq> Inl (Compaction_fault x)" for x
    by (rule runs_answer)
  then show ?thesis
    by (cases e) (auto simp: run_agent_def Let_def split: sum.splits prod.splits)
qed

section \<open>What ends a run\<close>

text \<open>A reply that a clean finish rests on.\<close>

definition finishing :: "model_reply \<Rightarrow> bool" where
  "finishing r = (rp_calls r = [] \<and> rp_finish r \<noteq> Some ''length'' \<and> \<not> declines r \<and> \<not> is_empty_reply r)"

lemma take_reply_reason:
  assumes "reason_ok ag"
  shows "take_reply os parse model resp ag = Go ag' \<Longrightarrow> reason_ok ag'"
    "take_reply os parse model resp ag = Stop ag' \<Longrightarrow>
       (\<exists>r rs. fst resp = r # rs \<and> finishing r) \<and> reason_ok ag' \<or>
       ag_reason ag' \<in> {''max_tokens_truncated'', ''refused'', ''empty_response''} \<and> ag_exit ag' = 2"
proof -
  show "reason_ok ag'" if t: "take_reply os parse model resp ag = Go ag'"
  proof -
    obtain r rs where r: "fst resp = r # rs" using t by (cases "fst resp") (auto simp: take_reply_def)
    consider "reason_ok ag'" | ag3 where "ag' = run_tools os parse (rp_calls r) ag3" "reason_ok ag3"
      using t assms by (auto simp: take_reply_def r Let_def reason_ok_def split: if_splits)
    then show ?thesis by cases (auto intro: run_tools_reason)
  qed
  show "(\<exists>r rs. fst resp = r # rs \<and> finishing r) \<and> reason_ok ag' \<or>
      ag_reason ag' \<in> {''max_tokens_truncated'', ''refused'', ''empty_response''} \<and> ag_exit ag' = 2"
    if t: "take_reply os parse model resp ag = Stop ag'"
  proof -
    obtain r rs where r: "fst resp = r # rs" using t by (cases "fst resp") (auto simp: take_reply_def)
    show ?thesis using t assms
      by (auto simp: take_reply_def r Let_def reason_ok_def finishing_def split: if_splits)
  qed
qed

text \<open>The outcome of the last attempt of a turn and what is done with it.\<close>

lemma turn_cases:
  obtains "agent_turn os parse i sc turn ag = Stop (ag\<lparr>ag_reason := ''timeout''\<rparr>)"
      "of_int (ai_timeout i) < ag_clock ag - ai_start i"
  | "agent_turn os parse i sc turn ag = Stop (ag\<lparr>ag_reason := ''budget_exceeded''\<rparr>)" "over_budget i ag"
  | e where "agent_turn os parse i sc turn ag = Raised e" "e \<noteq> No_choice"
  | ms c now k n e where "agent_turn os parse i sc turn ag = Stop (stop (fault_reason e) 2
        (ag\<lparr>ag_messages := ms, ag_compact := c, ag_clock := now, ag_retries := k\<rparr>))"
      "ca_outcome (fst (sc turn) n) = Inl e" "\<not> over_budget i ag"
  | ms c now k n r where "agent_turn os parse i sc turn ag = take_reply os parse (ai_model i) r
        (ag\<lparr>ag_messages := ms, ag_compact := c, ag_clock := now, ag_retries := k\<rparr>)"
      "ca_outcome (fst (sc turn) n) = Inr r" "n \<le> ai_retries i" "\<not> over_budget i ag"
proof -
  obtain res now k where c: "call_with_retry (retry_of i) (fst (sc turn)) (ai_retries i) 0 (ag_clock ag) = (res, now, k)"
    by (metis prod_cases3)
  have k: "k \<le> ai_retries i" "res = ca_outcome (fst (sc turn) k)"
    using retries_spec [OF c] by simp_all
  let ?m = "maybe_compact (compute_threshold (ai_window i) OUTPUT_RESERVE) turn (ag_messages ag) (ag_compact ag)"
  show ?thesis
  proof (cases "of_int (ai_timeout i) < ag_clock ag - ai_start i \<or> over_budget i ag")
    case True
    show ?thesis
    proof (cases "of_int (ai_timeout i) < ag_clock ag - ai_start i")
      case True
      then show ?thesis by (intro that(1)) (simp_all add: agent_turn_def)
    next
      case False
      then show ?thesis using True by (intro that(2)) (simp_all add: agent_turn_def)
    qed
  next
    case False
    show ?thesis
    proof (cases ?m)
      case (Inl e)
      then show ?thesis using False by (intro that(3) [of "Compaction_fault e"]) (simp_all add: agent_turn_def)
    next
      case (Inr p)
      obtain ms c' where p: "?m = Inr (ms, c')" using Inr by (cases p) simp
      show ?thesis
      proof (cases res)
        case (Inl e)
        then show ?thesis using False p c k by (intro that(4) [where n = k and e = e]) (simp_all add: agent_turn_def Let_def)
      next
        case (Inr r)
        have o: "ca_outcome (fst (sc turn) k) = Inr r" using Inr k(2) by simp
        show ?thesis
        proof (cases "usage_breaks r")
          case True
          then show ?thesis using False p c Inr by (intro that(3) [of Missing_attribute]) (simp_all add: agent_turn_def Let_def)
        next
          case nb: False
          then show ?thesis using False p c k(1) Inr o by (intro that(5) [where n = k]) (simp_all add: agent_turn_def Let_def)
        qed
      qed
    qed
  qed
qed

lemma fault_reason_values: "fault_reason e \<in> {''timeout'', ''model_api_error'', ''crash''}"
  by (simp add: fault_reason_def)

text \<open>A reply of the script, at a turn and an attempt that the loop can make.\<close>

definition answered :: "agent_input \<Rightarrow> script \<Rightarrow> nat \<Rightarrow> model_reply \<Rightarrow> bool" where
  "answered i sc turn r = (\<exists>n rs u. n \<le> ai_retries i \<and> ca_outcome (fst (sc turn) n) = Inr (r # rs, u))"

lemma turn_reason:
  assumes "reason_ok ag"
  shows "agent_turn os parse i sc turn ag = Go ag' \<Longrightarrow> reason_ok ag'"
    "agent_turn os parse i sc turn ag = Stop ag' \<Longrightarrow> ag_reason ag' = ''completed'' \<Longrightarrow>
       ag_exit ag' = 0 \<and> ag_malformed ag' < 3 \<and> (\<exists>r. answered i sc turn r \<and> finishing r)"
proof -
  have r: "reason_ok (ag\<lparr>ag_messages := ms, ag_compact := c, ag_clock := now, ag_retries := k\<rparr>)" for ms c now k
    using assms by (simp add: reason_ok_def)
  show "reason_ok ag'" if g: "agent_turn os parse i sc turn ag = Go ag'"
  proof (cases rule: turn_cases [of os parse i sc turn ag])
    case (5 ms c now k n resp)
    show ?thesis by (rule take_reply_reason(1) [OF r g [unfolded 5(1)]])
  qed (use g in simp_all)
  show "ag_exit ag' = 0 \<and> ag_malformed ag' < 3 \<and> (\<exists>r. answered i sc turn r \<and> finishing r)"
    if s: "agent_turn os parse i sc turn ag = Stop ag'" "ag_reason ag' = ''completed''"
  proof (cases rule: turn_cases [of os parse i sc turn ag])
    case (4 ms c now k n e)
    then show ?thesis using s fault_reason_values [of e] by auto
  next
    case (5 ms c now k n resp)
    from take_reply_reason(2) [OF r s(1) [unfolded 5(1)]] s(2) obtain r rs where
      f: "fst resp = r # rs" "finishing r" "reason_ok ag'" by auto
    then have "ca_outcome (fst (sc turn) n) = Inr (r # rs, snd resp)" using 5(2) by (metis prod.collapse)
    then have "answered i sc turn r" using 5(3) by (auto simp: answered_def)
    moreover have "ag_exit ag' = 0 \<and> ag_malformed ag' < 3" using f(3) s(2) by (auto simp: reason_ok_def split: if_splits)
    ultimately show ?thesis using f(2) by blast
  qed (use s in auto)
qed

lemma runs_finish:
  assumes "run_turns os parse i sc n turn ag = Inr ag'" "reason_ok ag" "ag_reason ag' = ''completed''"
  shows "ag_exit ag' = 0 \<and> ag_malformed ag' < 3 \<and>
    (\<exists>t r. turn \<le> t \<and> t < turn + n \<and> answered i sc t r \<and> finishing r)"
  using assms
proof (induction n arbitrary: turn ag)
  case (Suc n)
  show ?case
  proof (cases "agent_turn os parse i sc turn ag")
    case (Go ag1)
    have "ag_exit ag' = 0 \<and> ag_malformed ag' < 3 \<and>
        (\<exists>t r. Suc turn \<le> t \<and> t < Suc turn + n \<and> answered i sc t r \<and> finishing r)"
      by (rule Suc.IH [of "Suc turn" ag1]) (use Suc.prems Go turn_reason(1) in auto)
    then show ?thesis by (metis Suc_leD add_Suc_shift)
  next
    case (Stop ag1)
    then have "ag1 = ag'" using Suc.prems(1) by simp
    then have t: "agent_turn os parse i sc turn ag = Stop ag'" using Stop by simp
    from turn_reason(2) [OF Suc.prems(2) t Suc.prems(3)] show ?thesis by (fastforce intro: exI [of _ turn])
  qed (use Suc.prems in simp)
qed auto

lemma completed_run:
  assumes "run_agent os parse i prepared sc diff files = Inr out" "ho_reason out = ''completed''"
  shows "ho_exit out = 0 \<and> (\<exists>t r ag. 1 \<le> t \<and> t \<le> ai_max_turns i \<and> answered i sc t r \<and> finishing r \<and>
    ho_agent out = Some ag \<and> ag_malformed ag < 3)"
proof -
  have p: prepared using assms by (auto simp: run_agent_def split: if_splits)
  obtain ag where ag: "run_turns os parse i sc (ai_max_turns i) 1 (initial_agent i files) = Inr ag"
    using assms(1) p by (auto simp: run_agent_def split: sum.splits)
  obtain patch late where d: "diff (ts_tree (ag_files ag)) = (patch, late)" by fastforce
  have o: "ho_exit out = ag_exit ag" "ho_agent out = Some ag" "ag_reason ag = ''completed''"
    using assms p ag d by (auto simp: run_agent_def Let_def split: if_splits)
  moreover have "reason_ok (initial_agent i files)" by (simp add: reason_ok_def initial_agent_def)
  ultimately show ?thesis using runs_finish [OF ag] by fastforce
qed

lemma run_agent_category:
  "run_agent os parse i prepared sc diff files = Inr out \<Longrightarrow>
     ho_category out = map_terminated_reason_to_error_category (ho_reason out) (ho_patch out)"
proof -
  assume r: "run_agent os parse i prepared sc diff files = Inr out"
  have c: "map_terminated_reason_to_error_category ''crash'' None = Some HARNESS_CRASH"
    by (simp add: map_terminated_reason_to_error_category_def)
  show ?thesis
  proof (cases prepared)
    case False
    then have "out = \<lparr>ho_patch = None, ho_success = False, ho_exit = 1, ho_reason = ''crash'',
        ho_category = Some HARNESS_CRASH, ho_agent = None, ho_window = None\<rparr>" using r by (simp add: run_agent_def)
    then show ?thesis by (simp only: harness_output.simps c)
  next
    case True
    obtain ag where ag: "run_turns os parse i sc (ai_max_turns i) 1 (initial_agent i files) = Inr ag"
      using r True by (cases "run_turns os parse i sc (ai_max_turns i) 1 (initial_agent i files)")
        (simp_all add: run_agent_def)
    obtain patch late where d: "diff (ts_tree (ag_files ag)) = (patch, late)" by fastforce
    from r True ag d have "out = \<lparr>ho_patch = patch, ho_success = truthy patch, ho_exit = ag_exit ag,
        ho_reason = (if late then ''patch_extract_timeout'' else ag_reason ag),
        ho_category = map_terminated_reason_to_error_category
          (if late then ''patch_extract_timeout'' else ag_reason ag) patch,
        ho_agent = Some ag, ho_window = ai_window i\<rparr>"
      by (simp only: run_agent_def Let_def if_False if_True simp_thms prod.case sum.case sum.inject)
    then show ?thesis by (simp only: harness_output.simps)
  qed
qed

text \<open>
  Only a run that the model finished counts as one: when the category of a run is empty or blames
  an empty patch, its exit code is 0, it took fewer than three malformed calls, and the loop got a
  reply that ends a run, one without tool calls that says something, is not cut and is no refusal.
\<close>

theorem completed_means_finished:
  assumes "run_agent os parse i prepared sc diff files = Inr out"
    and "ho_category out = None \<or> ho_category out = Some EMPTY_PATCH"
  shows "ho_exit out = 0 \<and> (\<exists>t r ag. 1 \<le> t \<and> t \<le> ai_max_turns i \<and> answered i sc t r \<and> finishing r \<and>
    ho_agent out = Some ag \<and> ag_malformed ag < 3)"
proof (rule completed_run [OF assms(1)])
  show "ho_reason out = ''completed''"
  proof (rule ccontr)
    assume "ho_reason out \<noteq> ''completed''"
    from category_cases_not_completed [OF this, of "ho_patch out"] assms(2) run_agent_category [OF assms(1)]
    show False by auto
  qed
qed

section \<open>The token budget\<close>

definition usage_within :: "int \<Rightarrow> script \<Rightarrow> bool" where
  "usage_within m sc = (\<forall>turn n rs u. ca_outcome (fst (sc turn) n) = Inr (rs, Some u) \<longrightarrow>
     ru_prompt u + ru_completion u \<le> m)"

definition tokens_sum :: "agent \<Rightarrow> bool" where
  "tokens_sum ag = (ag_tokens ag = ag_input ag + ag_output ag)"

lemma account_tokens:
  assumes "tokens_sum ag" "\<And>u. x = Some u \<Longrightarrow> ru_prompt u + ru_completion u \<le> m" "0 \<le> m"
  shows "tokens_sum (account_usage model x ag) \<and> ag_tokens (account_usage model x ag) \<le> ag_tokens ag + m"
  using assms by (cases x) (auto simp: account_usage_def Let_def tokens_sum_def)

lemma take_reply_tokens:
  assumes "take_reply os parse model resp ag \<in> {Go ag', Stop ag'}"
  shows "ag_tokens ag' = ag_tokens (account_usage model (snd resp) ag) \<and>
    ag_input ag' = ag_input (account_usage model (snd resp) ag) \<and> ag_output ag' = ag_output (account_usage model (snd resp) ag)"
proof -
  obtain r rs where r: "fst resp = r # rs" using assms by (cases "fst resp") (auto simp: take_reply_def)
  show ?thesis using assms by (auto simp: take_reply_def r Let_def run_tools_numbers split: if_splits)
qed

lemma turn_tokens:
  assumes "tokens_sum ag" "usage_within m sc" "0 \<le> m" "ai_max_tokens i = Some b" "b \<noteq> 0"
    and "agent_turn os parse i sc turn ag \<in> {Go ag', Stop ag'}"
  shows "tokens_sum ag' \<and> (ag_tokens ag' = ag_tokens ag \<or> ag_tokens ag' < b + m)"
proof (cases rule: turn_cases [of os parse i sc turn ag])
  case (5 ms c now k n r)
  let ?ag = "ag\<lparr>ag_messages := ms, ag_compact := c, ag_clock := now, ag_retries := k\<rparr>"
  have "tokens_sum ?ag" using assms(1) by (simp add: tokens_sum_def)
  moreover have "ru_prompt u + ru_completion u \<le> m" if "snd r = Some u" for u
    using assms(2) 5(2) that unfolding usage_within_def by (metis prod.collapse)
  ultimately have a: "tokens_sum (account_usage (ai_model i) (snd r) ?ag) \<and>
      ag_tokens (account_usage (ai_model i) (snd r) ?ag) \<le> ag_tokens ?ag + m"
    using account_tokens assms(3) by blast
  have "ag_tokens ag < b" using 5(4) assms(4,5) by (simp add: over_budget_def)
  with a take_reply_tokens [of os parse "ai_model i" r ?ag ag'] assms(6) 5(1) show ?thesis
    by (auto simp: tokens_sum_def)
qed (use assms in \<open>auto simp: tokens_sum_def\<close>)

text \<open>
  The token budget is overdrawn by one reply at most: a run with a budget ends with fewer tokens
  than the budget and the largest reply together, however its calls and tools go.
\<close>

theorem tokens_stay_near_the_budget:
  assumes "run_agent os parse i True sc diff files = Inr out" "ho_agent out = Some ag"
    and "ai_max_tokens i = Some b" "0 < b" "usage_within m sc" "0 \<le> m"
  shows "ag_tokens ag < b + m \<and> ag_tokens ag = ag_input ag + ag_output ag"
proof -
  have "run_turns os parse i sc n turn ag0 = Inr ag \<Longrightarrow> tokens_sum ag0 \<Longrightarrow> ag_tokens ag0 < b + m \<Longrightarrow>
      tokens_sum ag \<and> ag_tokens ag < b + m" for n turn ag0
  proof (induction n arbitrary: turn ag0)
    case 0
    then show ?case by (auto simp: tokens_sum_def)
  next
    case (Suc n)
    have t: "tokens_sum ag1 \<and> ag_tokens ag1 < b + m" if "agent_turn os parse i sc turn ag0 \<in> {Go ag1, Stop ag1}" for ag1
      using turn_tokens [OF Suc.prems(2) assms(5,6,3) _ that] assms(4) Suc.prems(3) by auto
    show ?case
    proof (cases "agent_turn os parse i sc turn ag0")
      case (Go ag1)
      then show ?thesis using Suc.IH [of "Suc turn" ag1] Suc.prems(1) t by simp
    next
      case (Stop ag1)
      then show ?thesis using Suc.prems(1) t by simp
    qed (use Suc.prems in simp)
  qed
  moreover have "run_turns os parse i sc (ai_max_turns i) 1 (initial_agent i files) = Inr ag"
    using assms(1,2) by (auto simp: run_agent_def Let_def split: sum.splits prod.splits)
  moreover have "tokens_sum (initial_agent i files)" "ag_tokens (initial_agent i files) = 0"
    by (simp_all add: tokens_sum_def initial_agent_def)
  ultimately have "tokens_sum ag \<and> ag_tokens ag < b + m" using assms(4,6) by fastforce
  then show ?thesis by (simp add: tokens_sum_def)
qed

section \<open>Where the record of a run misleads\<close>

text \<open>
  C40: The third malformed tool call does not end the run: it leaves the remaining calls of the reply
  without a result and the loop goes on; the reason stays, so that a later reply which
  finishes the work is recorded as malformed tool calls with exit code 2. The count never falls,
  however many good calls lie between.
\<close>

theorem malformed_calls_do_not_stop:
  assumes "reason_ok ag" "2 \<le> ag_malformed ag" "rp_calls r = t # ts" "parse (tr_args t) = Inl x"
    and "rp_finish r \<noteq> Some ''length''" "\<not> declines r" "finishing r'"
  shows "\<exists>ag1 ag2. take_reply os parse model (r # rs, u) ag = Go ag1 \<and>
    ag_messages ag1 = ag_messages ag @ [assistant_message r] \<and>
    take_reply os parse model (r' # rs', u') ag1 = Stop ag2 \<and>
    ag_reason ag2 = ''malformed_tool_calls'' \<and> ag_exit ag2 = 2 \<and> ag_malformed ag \<le> ag_malformed ag2"
proof -
  have ne: "\<not> is_empty_reply r" using assms(3) by (simp add: is_empty_reply_def)
  obtain ag1 where g: "take_reply os parse model (r # rs, u) ag = Go ag1"
    "ag_messages ag1 = ag_messages ag @ [assistant_message r]"
    "ag_reason ag1 = ''malformed_tool_calls''" "ag_exit ag1 = 2" "ag_malformed ag1 = Suc (ag_malformed ag)"
    using assms(2-6) ne by (simp add: take_reply_def Let_def)
  obtain ag2 where "take_reply os parse model (r' # rs', u') ag1 = Stop ag2" "ag_reason ag2 = ag_reason ag1"
    "ag_exit ag2 = ag_exit ag1" "ag_malformed ag2 = ag_malformed ag1"
    using assms(7) by (simp add: take_reply_def Let_def finishing_def)
  with g show ?thesis by auto
qed

text \<open>
  A model that cannot be reached, or whose reply stalls in the client's own timeout, which is a
  connection error too, is no model error and no timeout: the run is a crash of the harness.
\<close>

theorem unreachable_model_is_a_crash:
  assumes "\<And>n. \<exists>x. ca_outcome (fst (sc 1) n) = Inl (Connection_fault x)"
    and "0 < ai_max_turns i" "0 \<le> ai_timeout i" "0 \<le> ai_max_cost i"
    and "case ai_max_tokens i of Some b \<Rightarrow> 0 \<le> b | None \<Rightarrow> True"
    and "\<not> snd (diff (ts_tree files))"
  shows "\<exists>out. run_agent os parse i True sc diff files = Inr out \<and> ho_reason out = ''crash'' \<and>
    ho_category out = Some HARNESS_CRASH \<and> ho_exit out = 2"
proof -
  let ?ag = "initial_agent i files"
  obtain m where m: "ai_max_turns i = Suc m" using assms(2) by (cases "ai_max_turns i") auto
  have b: "\<not> over_budget i ?ag" and c: "\<not> of_int (ai_timeout i) < ag_clock ?ag - ai_start i"
    using assms(3,4,5) by (auto simp: over_budget_def initial_agent_def split: option.splits)
  have short: "maybe_compact th t (ag_messages ?ag) (ag_compact ?ag) = Inr (ag_messages ?ag, ag_compact ?ag)" for th t
    by (simp add: maybe_compact_def initial_agent_def initial_messages_def)
  obtain res now k where w: "call_with_retry (retry_of i) (fst (sc 1)) (ai_retries i) 0 (ag_clock ?ag) = (res, now, k)"
    by (metis prod_cases3)
  obtain x where x: "res = Inl (Connection_fault x)" using assms(1) retries_spec [OF w] by metis
  obtain ag' where "agent_turn os parse i sc 1 ?ag = Stop ag'" "ag_reason ag' = ''crash''" "ag_exit ag' = 2"
    "ag_files ag' = files"
    using b c short w x by (simp add: agent_turn_def Let_def fault_reason_def stop_def initial_agent_def)
  then show ?thesis
    using assms(6) by (simp add: run_agent_def m Let_def split_beta map_terminated_reason_to_error_category_def)
qed

text \<open>
  A response without a choice leaves the run by an exception: no patch, no trajectory and no usage is
  recorded, whatever the agent did before.
\<close>

theorem lost_without_a_choice:
  assumes "agent_turn os parse i sc 1 (initial_agent i files) = Go ag"
    and "\<And>n. ca_outcome (fst (sc 2) n) = Inr ([], u n)"
    and "of_int (ai_timeout i) \<ge> ag_clock ag - ai_start i" "\<not> over_budget i ag" "2 \<le> ai_max_turns i"
  shows "run_agent os parse i True sc diff files = Inl No_choice"
proof -
  obtain m where m: "ai_max_turns i = Suc (Suc m)" using assms(5) by (metis Suc_le_D numeral_2_eq_2 Suc_le_mono)
  have "answers_ok {} (ag_messages ag)"
    using turn_answers(2) [OF _ assms(1)] by (simp add: initial_agent_def initial_messages_def)
  from maybe_compact_ok [OF this] obtain out c where
    "maybe_compact (compute_threshold (ai_window i) OUTPUT_RESERVE) 2 (ag_messages ag) (ag_compact ag) = Inr (out, c)"
    by blast
  moreover obtain res now k where w: "call_with_retry (retry_of i) (fst (sc 2)) (ai_retries i) 0 (ag_clock ag) = (res, now, k)"
    by (metis prod_cases3)
  moreover have "res = Inr ([], u k)" using retries_spec [OF w] assms(2) by simp
  ultimately have "agent_turn os parse i sc 2 ag = Raised No_choice"
    using assms(3,4) by (simp add: agent_turn_def usage_breaks_def take_reply_def)
  then show ?thesis using assms(1) by (simp add: run_agent_def m numeral_2_eq_2)
qed

text \<open>
  So does a usage without an attribute that is read, a plain one without a cost for one: the local
  prices are never reached.
\<close>

theorem lost_without_an_attribute:
  assumes "\<And>n. \<exists>r. ca_outcome (fst (sc 1) n) = Inr r \<and> usage_breaks r"
    and "0 < ai_max_turns i" "0 \<le> ai_timeout i" "0 \<le> ai_max_cost i"
    and "case ai_max_tokens i of Some b \<Rightarrow> 0 \<le> b | None \<Rightarrow> True"
  shows "run_agent os parse i True sc diff files = Inl Missing_attribute"
proof -
  let ?ag = "initial_agent i files"
  obtain m where m: "ai_max_turns i = Suc m" using assms(2) by (cases "ai_max_turns i") auto
  have b: "\<not> over_budget i ?ag" and c: "\<not> of_int (ai_timeout i) < ag_clock ?ag - ai_start i"
    using assms(3-5) by (auto simp: over_budget_def initial_agent_def split: option.splits)
  have short: "maybe_compact th t (ag_messages ?ag) (ag_compact ?ag) = Inr (ag_messages ?ag, ag_compact ?ag)" for th t
    by (simp add: maybe_compact_def initial_agent_def initial_messages_def)
  obtain res now k where w: "call_with_retry (retry_of i) (fst (sc 1)) (ai_retries i) 0 (ag_clock ?ag) = (res, now, k)"
    by (metis prod_cases3)
  obtain r where "res = Inr r" "usage_breaks r" using assms(1) retries_spec [OF w] by metis
  then have "agent_turn os parse i sc 1 ?ag = Raised Missing_attribute"
    using b c short w by (simp add: agent_turn_def)
  then show ?thesis by (simp add: run_agent_def m)
qed

section \<open>Instances\<close>

definition demo_input :: agent_input where
  "demo_input = \<lparr>ai_repo_dir = ''/testbed'', ai_problem = ''p'', ai_prompt = ''s'', ai_model = ''m'', ai_timeout = 300,
     ai_max_tokens = Some 10, ai_max_cost = 0, ai_window = None, ai_max_turns = 2, ai_retries = 1,
     ai_base_delay = 1, ai_max_delay = 12, ai_start = 0\<rparr>"

definition said :: "string \<Rightarrow> tool_request list \<Rightarrow> model_reply" where
  "said x calls = \<lparr>rp_content = Some x, rp_reasoning_content = None, rp_reasoning = None, rp_refusal = None,
     rp_finish = Some ''stop'', rp_calls = calls\<rparr>"

definition demo_usage :: reply_usage where
  "demo_usage = \<lparr>ru_prompt = 12, ru_completion = 3, ru_cached = 0, ru_cache_write = 0, ru_reasoning = 0, ru_cost = Some 1,
     ru_whole = True\<rparr>"

definition always :: "call_fault + response \<Rightarrow> script" where
  "always x = (\<lambda>turn. (\<lambda>n. \<lparr>ca_outcome = x, ca_seconds = 1, ca_jitter = 1\<rparr>, 0))"

definition demo_parse :: "string \<Rightarrow> string + json" where
  "demo_parse x = (if x = ''{}'' then Inr (JsObj []) else Inl ''cut'')"

lemma demo_no_compaction:
  "maybe_compact (compute_threshold (ai_window demo_input) r) t ms c = Inr (ms, c)"
  by (simp add: maybe_compact_def compute_threshold_def demo_input_def)

lemma always_answers:
  "call_with_retry p (fst (always (Inr r) t)) left k now = (Inr r, now + 1, k)"
  by (subst call_with_retry.simps) (simp add: always_def Let_def)

lemma demo_finish:
  "run_agent demo_os demo_parse demo_input True (always (Inr ([said ''done'' []], Some demo_usage))) (\<lambda>tr. (Some ''d'', False)) demo_files =
     Inr \<lparr>ho_patch = Some ''d'', ho_success = True, ho_exit = 0, ho_reason = ''completed'', ho_category = None,
       ho_agent = Some (case take_reply demo_os demo_parse ''m'' ([said ''done'' []], Some demo_usage)
         ((initial_agent demo_input demo_files)\<lparr>ag_clock := 1\<rparr>) of Stop ag \<Rightarrow> ag | _ \<Rightarrow> initial_agent demo_input demo_files),
       ho_window = None\<rparr>"
proof -
  have t: "agent_turn demo_os demo_parse demo_input (always (Inr ([said ''done'' []], Some demo_usage))) 1 (initial_agent demo_input demo_files)
     = take_reply demo_os demo_parse ''m'' ([said ''done'' []], Some demo_usage) ((initial_agent demo_input demo_files)\<lparr>ag_clock := 1\<rparr>)"
    by (simp add: agent_turn_def demo_no_compaction always_answers over_budget_def initial_agent_def)
      (simp add: demo_input_def always_def usage_breaks_def demo_usage_def)
  have "\<exists>ag. take_reply demo_os demo_parse ''m'' ([said ''done'' []], Some demo_usage) ((initial_agent demo_input demo_files)\<lparr>ag_clock := 1\<rparr>)
     = Stop ag \<and> ag_reason ag = ''completed'' \<and> ag_exit ag = 0"
    by (simp add: take_reply_def said_def declines_def is_empty_reply_def reasoning_of_def strip_def is_space_def
        or_str_def initial_agent_def)
  then obtain ag where ag: "take_reply demo_os demo_parse ''m'' ([said ''done'' []], Some demo_usage)
      ((initial_agent demo_input demo_files)\<lparr>ag_clock := 1\<rparr>) = Stop ag" "ag_reason ag = ''completed''" "ag_exit ag = 0"
    by blast
  have n: "ai_max_turns demo_input = Suc 1" "ai_window demo_input = None" by (simp_all add: demo_input_def)
  show ?thesis
    by (simp add: run_agent_def n t [simplified] ag [simplified] map_terminated_reason_to_error_category_def)
qed

theorem retries_fit_the_deadline_witness:
  "\<exists>t. call_with_retry (retry_of demo_input)
      (\<lambda>n. \<lparr>ca_outcome = (if n = 0 then Inl (Status_fault 504 ''busy'') else Inr ([], None)), ca_seconds = 1, ca_jitter = 1\<rparr>)
      1 0 0 = (Inr ([], None), t, 1) \<and> t - 1 + 100 < 300"
proof -
  let ?as = "\<lambda>n::nat. \<lparr>ca_outcome = (if n = 0 then Inl (Status_fault 504 ''busy'') else Inr ([], None)), ca_seconds = 1, ca_jitter = 1\<rparr>
    :: call_attempt"
  have p: "rt_read (retry_of demo_input) = 100" "rt_deadline (retry_of demo_input) = 300"
    "rt_base (retry_of demo_input) = 1" "rt_max (retry_of demo_input) = 12"
    by (simp_all add: retry_of_def demo_input_def per_call_read_timeout_def)
  have c: "call_with_retry (retry_of demo_input) ?as 1 0 0 = (Inr ([], None), 3, 1)"
    by (subst call_with_retry.simps, simp add: retriable_status_def p retry_delay_def Let_def)
      (subst call_with_retry.simps, simp add: Let_def)
  from retries_fit_the_deadline [OF c] p c show ?thesis by simp
qed

theorem completed_means_finished_witness:
  "\<exists>t r. 1 \<le> t \<and> t \<le> 2 \<and> answered demo_input (always (Inr ([said ''done'' []], Some demo_usage))) t r \<and> finishing r"
proof -
  from completed_means_finished [OF demo_finish] show ?thesis by (auto simp: demo_input_def)
qed

lemma demo_within: "usage_within 15 (always (Inr ([said ''done'' []], Some demo_usage)))"
  by (simp add: usage_within_def always_def demo_usage_def)

theorem tokens_stay_near_the_budget_witness:
  "\<exists>out ag. run_agent demo_os demo_parse demo_input True (always (Inr ([said ''done'' []], Some demo_usage)))
     (\<lambda>tr. (Some ''d'', False)) demo_files = Inr out \<and> ho_agent out = Some ag \<and> ag_tokens ag < 25"
proof -
  have b: "ai_max_tokens demo_input = Some 10" by (simp add: demo_input_def)
  obtain out ag where o: "run_agent demo_os demo_parse demo_input True (always (Inr ([said ''done'' []], Some demo_usage)))
     (\<lambda>tr. (Some ''d'', False)) demo_files = Inr out" "ho_agent out = Some ag"
    using demo_finish by (metis harness_output.select_convs(6))
  from tokens_stay_near_the_budget [OF o b _ demo_within] o show ?thesis by auto
qed

definition cut_call :: tool_request where
  "cut_call = \<lparr>tr_id = ''a'', tr_name = ''bash'', tr_args = ''{''\<rparr>"

theorem malformed_calls_do_not_stop_witness:
  "\<exists>ag1 ag2. take_reply demo_os demo_parse ''m'' ([said ''x'' [cut_call]], None)
      ((initial_agent demo_input demo_files)\<lparr>ag_malformed := 2\<rparr>) = Go ag1 \<and>
    take_reply demo_os demo_parse ''m'' ([said ''done'' []], None) ag1 = Stop ag2 \<and>
    ag_reason ag2 = ''malformed_tool_calls'' \<and> ag_exit ag2 = 2"
proof -
  have s: "reason_ok ((initial_agent demo_input demo_files)\<lparr>ag_malformed := 2\<rparr>)"
    by (simp add: reason_ok_def initial_agent_def)
  have c: "rp_calls (said ''x'' [cut_call]) = [cut_call]" by (simp add: said_def)
  have p: "demo_parse (tr_args cut_call) = Inl ''cut''" by (simp add: demo_parse_def cut_call_def)
  have f: "finishing (said ''done'' [])"
    by (simp add: finishing_def said_def declines_def is_empty_reply_def reasoning_of_def strip_def is_space_def or_str_def)
  have g: "rp_finish (said ''x'' [cut_call]) \<noteq> Some ''length''" "\<not> declines (said ''x'' [cut_call])"
    by (simp_all add: said_def declines_def)
  have two: "2 \<le> ag_malformed ((initial_agent demo_input demo_files)\<lparr>ag_malformed := 2\<rparr>)" by simp
  show ?thesis
    using malformed_calls_do_not_stop [where parse = demo_parse and t = cut_call and os = demo_os and model = "''m''" and u = None and u' = None and rs = "[]"
      and rs' = "[]", OF s two c p g f] by blast
qed

theorem unreachable_model_is_a_crash_witness:
  "\<exists>out. run_agent demo_os demo_parse demo_input True (always (Inl (Connection_fault ''Request timed out.'')))
     (\<lambda>tr. (None, False)) demo_files = Inr out \<and> ho_category out = Some HARNESS_CRASH"
proof -
  let ?sc = "always (Inl (Connection_fault ''Request timed out.''))"
  have "\<exists>x. ca_outcome (fst (?sc 1) n) = Inl (Connection_fault x)" for n by (simp add: always_def)
  from unreachable_model_is_a_crash [of ?sc demo_input "\<lambda>tr. (None, False)" demo_files demo_os demo_parse, OF this] show ?thesis
    by (auto simp: demo_input_def)
qed

theorem lost_without_a_choice_witness:
  "run_agent demo_os demo_parse (demo_input\<lparr>ai_max_tokens := None\<rparr>) True
     (\<lambda>t. always (if t = 1 then Inr ([said ''x'' [cut_call]], None) else Inr ([], None)) t) (\<lambda>tr. (None, False)) demo_files =
     Inl No_choice"
proof -
  let ?i = "demo_input\<lparr>ai_max_tokens := None\<rparr>"
  let ?sc = "\<lambda>t. always (if t = 1 then Inr ([said ''x'' [cut_call]], None) else Inr ([], None)) t"
  have m: "maybe_compact (compute_threshold (ai_window ?i) r) t ms c = Inr (ms, c)" for r t ms c
    using demo_no_compaction by (simp add: demo_input_def)
  have "\<exists>ag. agent_turn demo_os demo_parse ?i ?sc 1 (initial_agent ?i demo_files) = Go ag \<and> ag_clock ag = 1 \<and> ag_cost ag = 0"
    using m by (simp add: agent_turn_def always_answers over_budget_def initial_agent_def usage_breaks_def)
      (simp add: take_reply_def demo_input_def always_def said_def cut_call_def declines_def is_empty_reply_def reasoning_of_def
        demo_parse_def account_usage_def add_message_def Let_def)
  then obtain ag where ag: "agent_turn demo_os demo_parse ?i ?sc 1 (initial_agent ?i demo_files) = Go ag" "ag_clock ag = 1"
    by blast
  show ?thesis
    by (rule lost_without_a_choice [OF ag(1), where u = "\<lambda>n. None"])
      (use ag(2) in \<open>simp_all add: always_def demo_input_def over_budget_def\<close>)
qed

end
