(* ===== verification/Judge_Scores.thy ===== *)
theory Judge_Scores
  imports Shim_Requests Text_Lines
begin

text \<open>
  The scores of the offline judge, \<open>analysis/score_parsing.py\<close>, and the review of its verdicts by an
  operator, \<open>analysis/calibration.py\<close>. The reply of the judge is a JSON value of which nothing is
  known; the text of a value that is no string is an argument. Scores that the code passes on unread
  stay JSON values.
\<close>

section \<open>Causes\<close>

record dimension =
  dm_id :: string
  dm_scale :: string
  dm_evidence :: bool

record cause =
  cz_cause :: string
  cz_label :: "string option"
  cz_share :: "pyfloat option"
  cz_recommendation :: "string option"

record dimension_score =
  ds_id :: string
  ds_scale :: string
  ds_numeric :: json
  ds_secondary :: json
  ds_flag :: "bool option"
  ds_first :: json
  ds_last :: json
  ds_reasoning :: "string option"
  ds_evidence :: "json list"
  ds_evidence_missing :: bool
  ds_missing_reasoning :: bool
  ds_causes :: "cause list"

definition EFFICIENCY_CAUSES :: "string list" where
  "EFFICIENCY_CAUSES = [''unbounded_file_reads'', ''repeated_reads'', ''redundant_test_runs'',
     ''unbounded_command_output'', ''probing_without_search'', ''verbose_reasoning'', ''looping'', ''other'']"

text \<open>A number of JSON, a truth value included, as a float; what is too large for one is not told apart.\<close>

fun number :: "json \<Rightarrow> pyfloat option" where
  "number (JsInt n) = Some (Fin (of_int n))"
| "number (JsFloat x) = Some x"
| "number (JsBool b) = Some (Fin (if b then 1 else 0))"
| "number v = None"

fun over_zero :: "pyfloat \<Rightarrow> bool" where
  "over_zero (Fin x) = (0 < x)"
| "over_zero PosInf = True"
| "over_zero v = False"

definition positive :: "json \<Rightarrow> bool" where
  "positive v = (case number v of Some x \<Rightarrow> over_zero x | None \<Rightarrow> False)"

text \<open>\<open>min(1.0, max(0.0, x))\<close>; what compares with nothing gives way.\<close>

fun unit_share :: "pyfloat \<Rightarrow> pyfloat" where
  "unit_share (Fin x) = Fin (min 1 (max 0 x))"
| "unit_share PosInf = Fin 1"
| "unit_share NegInf = Fin 0"
| "unit_share NaN = Fin 0"

definition share_of :: "json \<Rightarrow> pyfloat option" where
  "share_of v = map_option unit_share (number v)"

fun text_of_json :: "(json \<Rightarrow> string) \<Rightarrow> json \<Rightarrow> string" where
  "text_of_json render (JsStr s) = s"
| "text_of_json render v = render v"

definition norm_cause :: "string \<Rightarrow> string" where
  "norm_cause s = map (\<lambda>c. if c = CHR ''-'' \<or> c = CHR '' '' then CHR ''_'' else c) (lower s)"

definition cause_key :: "cause \<Rightarrow> string \<times> string option" where
  "cause_key c = (cz_cause c, if cz_cause c = ''other'' then cz_label c else None)"

text \<open>One entry, \<open>None\<close> where it names no cause; an unknown name becomes the label of \<open>other\<close>.\<close>

definition cause_named :: "string \<Rightarrow> (string \<times> json) list \<Rightarrow> cause" where
  "cause_named name kvs =
     (let known = norm_cause name \<in> set EFFICIENCY_CAUSES
      in \<lparr>cz_cause = (if known then norm_cause name else ''other''), cz_label = (if known then None else Some name),
           cz_share = share_of (obj_get kvs ''share''),
           cz_recommendation = (case obj_get kvs ''recommendation'' of
               JsStr r \<Rightarrow> if strip r = [] then None else Some (strip r) | _ \<Rightarrow> None)\<rparr>)"

fun cause_fields :: "json \<Rightarrow> (string \<times> json) list option" where
  "cause_fields (JsStr s) = Some [(''cause'', JsStr s)]"
| "cause_fields (JsObj kvs) = Some kvs"
| "cause_fields v = None"

definition parse_cause :: "(json \<Rightarrow> string) \<Rightarrow> json \<Rightarrow> cause option" where
  "parse_cause render item =
     (case cause_fields item of
        Some kvs \<Rightarrow>
          (let name = strip (text_of_json render (js_or (obj_get kvs ''cause'') (js_or (obj_get kvs ''id'') (JsStr []))))
           in if name = [] then None else Some (cause_named name kvs))
      | None \<Rightarrow> None)"

definition add_cause :: "cause list \<Rightarrow> cause \<Rightarrow> cause list" where
  "add_cause cs c = (if cause_key c \<in> cause_key ` set cs then cs else cs @ [c])"

definition parse_causes :: "(json \<Rightarrow> string) \<Rightarrow> (string \<times> json) list \<Rightarrow> cause list" where
  "parse_causes render entry =
     (case obj_get entry ''causes'' of
        JsList items \<Rightarrow> foldl add_cause [] (List.map_filter (parse_cause render) items)
      | _ \<Rightarrow> [])"

section \<open>One dimension\<close>

definition is_above_baseline :: "(json \<Rightarrow> string) \<Rightarrow> dimension \<Rightarrow> (string \<times> json) list \<Rightarrow> bool" where
  "is_above_baseline render d entry =
     (if dm_scale d = ''likert'' then positive (obj_get entry ''score'')
      else if dm_scale d = ''count_and_severity'' then positive (obj_get entry ''count'')
      else if dm_scale d = ''ratio'' then positive (obj_get entry ''redundant'')
      else if dm_scale d = ''boolean_with_span'' then js_truth (obj_get entry ''present'')
      else if dm_scale d = ''causes'' then
        positive (obj_get entry ''severity'') \<or> positive (obj_get entry ''avoidable_share'') \<or>
        parse_causes render entry \<noteq> []
      else False)"

definition usable_evidence :: "json \<Rightarrow> bool" where
  "usable_evidence e =
     (case e of JsObj kvs \<Rightarrow> map_of kvs ''turn'' \<noteq> None \<and> map_of kvs ''quote'' \<noteq> None | _ \<Rightarrow> False)"

text \<open>
  \<open>list(entry.get("evidence") or [])\<close>: a number other than zero cannot be iterated, which raises; of the
  other values only a list has usable entries.
\<close>

definition not_iterable :: "json \<Rightarrow> bool" where
  "not_iterable v = (number v \<noteq> None \<and> js_truth v)"

definition evidence_of :: "dimension \<Rightarrow> (string \<times> json) list \<Rightarrow> json list" where
  "evidence_of d entry =
     filter usable_evidence
       ((case obj_get entry ''evidence'' of JsList es \<Rightarrow> es | _ \<Rightarrow> []) @
        (if dm_scale d = ''causes'' then
           List.concat (map (\<lambda>item. case item of
               JsObj kvs \<Rightarrow> (case obj_get kvs ''evidence'' of JsList es \<Rightarrow> es | _ \<Rightarrow> [])
             | _ \<Rightarrow> []) (case obj_get entry ''causes'' of JsList items \<Rightarrow> items | _ \<Rightarrow> []))
         else []))"

definition no_score :: "dimension \<Rightarrow> dimension_score" where
  "no_score d = \<lparr>ds_id = dm_id d, ds_scale = dm_scale d, ds_numeric = JsNull, ds_secondary = JsNull,
     ds_flag = None, ds_first = JsNull, ds_last = JsNull, ds_reasoning = None, ds_evidence = [],
     ds_evidence_missing = dm_evidence d, ds_missing_reasoning = True, ds_causes = []\<rparr>"

definition float_json :: "pyfloat option \<Rightarrow> json" where
  "float_json x = (case x of Some v \<Rightarrow> JsFloat v | None \<Rightarrow> JsNull)"

definition keep_score :: "(json \<Rightarrow> string) \<Rightarrow> dimension \<Rightarrow> (string \<times> json) list \<Rightarrow> dimension_score \<Rightarrow> dimension_score" where
  "keep_score render d entry s =
     (if dm_scale d = ''likert'' then s\<lparr>ds_numeric := obj_get entry ''score''\<rparr>
      else if dm_scale d = ''count_and_severity'' then
        s\<lparr>ds_numeric := obj_get entry ''count'', ds_secondary := obj_get entry ''severity''\<rparr>
      else if dm_scale d = ''ratio'' then
        s\<lparr>ds_numeric := obj_get entry ''redundant'', ds_secondary := obj_get entry ''total''\<rparr>
      else if dm_scale d = ''boolean_with_span'' then
        s\<lparr>ds_flag := Some (js_truth (obj_get entry ''present'')), ds_first := obj_get entry ''first_turn'',
          ds_last := obj_get entry ''last_turn''\<rparr>
      else if dm_scale d = ''causes'' then
        s\<lparr>ds_numeric := float_json (share_of (obj_get entry ''avoidable_share'')),
          ds_secondary := float_json (number (obj_get entry ''severity'')),
          ds_causes := parse_causes render entry\<rparr>
      else s)"

definition parse_dimension :: "(json \<Rightarrow> string) \<Rightarrow> dimension \<Rightarrow> json \<Rightarrow> dimension_score option" where
  "parse_dimension render d v =
     (case v of
        JsObj entry \<Rightarrow>
          (if not_iterable (obj_get entry ''evidence'') then None else
           let reasoning = (case obj_get entry ''reasoning'' of JsStr r \<Rightarrow> Some r | _ \<Rightarrow> None);
               evidence = evidence_of d entry;
               missing = (dm_evidence d \<and> is_above_baseline render d entry \<and> evidence = []);
               s = (no_score d)\<lparr>ds_reasoning := reasoning, ds_evidence := evidence, ds_evidence_missing := missing,
                 ds_missing_reasoning := (case reasoning of Some r \<Rightarrow> strip r = [] | None \<Rightarrow> True)\<rparr>
           in Some (if missing then s else keep_score render d entry s))
      | _ \<Rightarrow> Some (no_score d))"

text \<open>\<open>None\<close> is the exception of one dimension.\<close>

definition parse_all_dimensions ::
    "(json \<Rightarrow> string) \<Rightarrow> dimension list \<Rightarrow> (string \<times> json) list \<Rightarrow> dimension_score list option" where
  "parse_all_dimensions render ds reply =
     those (map (\<lambda>d. parse_dimension render d (obj_get (js_fields (obj_get reply ''dimensions'')) (dm_id d))) ds)"

definition count_scored_dimensions :: "dimension_score list \<Rightarrow> nat" where
  "count_scored_dimensions ss = length (filter (\<lambda>s. \<not> ds_missing_reasoning s) ss)"

section \<open>Calibration\<close>

text \<open>A verdict is named by run, instance, attempt, the time of the judgment and the dimension.\<close>

record review =
  rv_run :: string
  rv_instance :: string
  rv_attempt :: int
  rv_judged_at :: string
  rv_dimension :: string
  rv_decision :: string
  rv_reasoning :: string
  rv_by :: string
  rv_at :: nat

definition verdict_key :: "review \<Rightarrow> string \<times> string \<times> int \<times> string \<times> string" where
  "verdict_key r = (rv_run r, rv_instance r, rv_attempt r, rv_judged_at r, rv_dimension r)"

datatype review_error = Bad_decision | No_reasoning | No_target

definition record_review ::
    "(string \<times> string \<times> int \<times> string \<times> string) set \<Rightarrow> review list \<Rightarrow> review \<Rightarrow> review_error + review list" where
  "record_review scores table r =
     (if rv_decision r \<notin> {''approve'', ''deny''} then Inl Bad_decision
      else if strip (rv_reasoning r) = [] then Inl No_reasoning
      else if verdict_key r \<notin> scores then Inl No_target
      else Inr (table @ [r]))"

definition MIN_DISTINCT_REVIEWED_INSTANCES :: nat where "MIN_DISTINCT_REVIEWED_INSTANCES = 20"

text \<open>The newest review of every verdict.\<close>

definition latest_reviews :: "review list \<Rightarrow> review list" where
  "latest_reviews table =
     List.map_filter (\<lambda>k. top_row (\<lambda>a b. rv_at b < rv_at a) (filter (\<lambda>r. verdict_key r = k) table))
       (remdups (map verdict_key table))"

record dimension_calibration =
  dc_id :: string
  dc_reviewed :: nat
  dc_distinct :: nat
  dc_approved :: nat
  dc_denied :: nat
  dc_rate :: "real option"
  dc_cleared :: bool

definition calibrate :: "review list \<Rightarrow> string \<Rightarrow> dimension_calibration" where
  "calibrate table dm =
     (let rows = filter (\<lambda>r. rv_dimension r = dm) (latest_reviews table);
          approved = length (filter (\<lambda>r. rv_decision r = ''approve'') rows);
          distinct_ids = card ((\<lambda>r. (rv_run r, rv_instance r, rv_attempt r)) ` set rows)
      in \<lparr>dc_id = dm, dc_reviewed = length rows, dc_distinct = distinct_ids, dc_approved = approved,
           dc_denied = length rows - approved,
           dc_rate = (if rows = [] then None else Some (real approved / real (length rows))),
           dc_cleared = (MIN_DISTINCT_REVIEWED_INSTANCES \<le> distinct_ids)\<rparr>)"

definition calibration_summary :: "review list \<Rightarrow> string list \<Rightarrow> dimension_calibration list" where
  "calibration_summary table dims = map (calibrate table) dims"

section \<open>What the scores promise\<close>

lemma no_score_simps [simp]:
  "ds_id (no_score d) = dm_id d" "ds_scale (no_score d) = dm_scale d" "ds_numeric (no_score d) = JsNull"
  "ds_secondary (no_score d) = JsNull" "ds_flag (no_score d) = None" "ds_causes (no_score d) = []"
  "ds_missing_reasoning (no_score d)" "ds_evidence (no_score d) = []" "ds_evidence_missing (no_score d) = dm_evidence d"
  "ds_reasoning (no_score d) = None"
  by (simp_all add: no_score_def)

lemma keep_score_simps [simp]:
  "ds_id (keep_score render d e s) = ds_id s" "ds_scale (keep_score render d e s) = ds_scale s"
  "ds_reasoning (keep_score render d e s) = ds_reasoning s" "ds_evidence (keep_score render d e s) = ds_evidence s"
  "ds_evidence_missing (keep_score render d e s) = ds_evidence_missing s"
  "ds_missing_reasoning (keep_score render d e s) = ds_missing_reasoning s"
  by (simp_all add: keep_score_def)

lemma parse_dimension_id: "parse_dimension render d v = Some s \<Longrightarrow> ds_id s = dm_id d \<and> ds_scale s = dm_scale d"
  by (auto simp: parse_dimension_def Let_def split: json.splits if_splits)

lemma those_map_Some: "those (map f xs) = Some ys \<Longrightarrow> length ys = length xs \<and> (\<forall>i < length xs. f (xs ! i) = Some (ys ! i))"
proof (induction xs arbitrary: ys)
  case (Cons x xs)
  then obtain y zs where y: "f x = Some y" "those (map f xs) = Some zs" "ys = y # zs"
    by (auto split: option.splits)
  from Cons.IH [OF y(2)] y show ?case by (auto simp: less_Suc_eq_0_disj)
qed simp

text \<open>A parsed dimension either has nothing or is a kept score that passed the rule.\<close>

lemma parse_parts:
  assumes "parse_dimension render d v = Some s"
  shows "ds_numeric s = JsNull \<and> ds_flag s = None \<and> ds_causes s = [] \<or>
    (\<exists>entry s0. s = keep_score render d entry s0 \<and> ds_numeric s0 = JsNull \<and> ds_flag s0 = None \<and> ds_causes s0 = [] \<and>
      \<not> (dm_evidence d \<and> is_above_baseline render d entry \<and> ds_evidence s0 = []))"
proof (cases v)
  case (JsObj entry)
  define s0 where "s0 = (no_score d)\<lparr>ds_reasoning := (case obj_get entry ''reasoning'' of JsStr r \<Rightarrow> Some r | _ \<Rightarrow> None),
    ds_evidence := evidence_of d entry,
    ds_evidence_missing := (dm_evidence d \<and> is_above_baseline render d entry \<and> evidence_of d entry = []),
    ds_missing_reasoning := (case (case obj_get entry ''reasoning'' of JsStr r \<Rightarrow> Some r | _ \<Rightarrow> None) of
      Some r \<Rightarrow> strip r = [] | None \<Rightarrow> True)\<rparr>"
  have s0: "ds_numeric s0 = JsNull" "ds_flag s0 = None" "ds_causes s0 = []" "ds_evidence s0 = evidence_of d entry"
    by (simp_all add: s0_def)
  have s: "s = (if dm_evidence d \<and> is_above_baseline render d entry \<and> evidence_of d entry = [] then s0
      else keep_score render d entry s0)"
    using assms by (auto simp: parse_dimension_def JsObj Let_def s0_def split: if_split_asm)
  show ?thesis
  proof (cases "dm_evidence d \<and> is_above_baseline render d entry \<and> evidence_of d entry = []")
    case True
    then show ?thesis using s s0 by simp
  next
    case False
    then have "s = keep_score render d entry s0" using s by (simp only: if_False)
    with False s0 show ?thesis by (intro disjI2 exI [of _ entry] exI [of _ s0]) simp
  qed
qed (use assms in \<open>auto simp: parse_dimension_def\<close>)

lemma not_positive_share: "\<not> positive w \<Longrightarrow> \<not> positive (float_json (share_of w))"
proof (cases "number w")
  case (Some x)
  then show "\<not> positive w \<Longrightarrow> ?thesis" by (cases x) (simp_all add: positive_def share_of_def float_json_def)
qed (simp add: positive_def share_of_def float_json_def)

lemma keep_baseline:
  assumes "\<not> is_above_baseline render d entry" "ds_numeric s0 = JsNull" "ds_flag s0 = None" "ds_causes s0 = []"
  shows "\<not> positive (ds_numeric (keep_score render d entry s0)) \<and> ds_flag (keep_score render d entry s0) \<noteq> Some True \<and>
    ds_causes (keep_score render d entry s0) = []"
proof -
  consider "dm_scale d = ''likert''" | "dm_scale d = ''count_and_severity''" | "dm_scale d = ''ratio''"
    | "dm_scale d = ''boolean_with_span''" | "dm_scale d = ''causes''"
    | "dm_scale d \<notin> {''likert'', ''count_and_severity'', ''ratio'', ''boolean_with_span'', ''causes''}" by blast
  then show ?thesis
    by cases (use assms not_positive_share in \<open>simp_all add: is_above_baseline_def keep_score_def positive_def [of JsNull]\<close>)
qed

text \<open>
  C35: No numeric finding without evidence: of a dimension that requires evidence, a published score
  that no usable evidence backs is no finding, a flag that is not set, no causes, and a number that is not
  above zero or a value that is no number at all; whatever the judge answers, every
  dimension of the rubric gets one score, in its order.
\<close>

theorem findings_need_evidence:
  assumes "parse_all_dimensions render ds reply = Some ss"
  shows "map ds_id ss = map dm_id ds \<and>
    (\<forall>i < length ds. dm_evidence (ds ! i) \<and> ds_evidence (ss ! i) = [] \<longrightarrow>
       \<not> positive (ds_numeric (ss ! i)) \<and> ds_flag (ss ! i) \<noteq> Some True \<and> ds_causes (ss ! i) = [])"
proof -
  let ?v = "\<lambda>d. obj_get (js_fields (obj_get reply ''dimensions'')) (dm_id d)"
  have t: "length ss = length ds" "\<And>i. i < length ds \<Longrightarrow> parse_dimension render (ds ! i) (?v (ds ! i)) = Some (ss ! i)"
    using those_map_Some [of "\<lambda>d. parse_dimension render d (?v d)" ds ss] assms by (auto simp: parse_all_dimensions_def)
  have "map ds_id ss = map dm_id ds"
    by (rule nth_equalityI) (simp_all add: t(1) parse_dimension_id [OF t(2)])
  moreover have "\<not> positive (ds_numeric s) \<and> ds_flag s \<noteq> Some True \<and> ds_causes s = []"
    if p: "parse_dimension render d v = Some s" and e: "dm_evidence d" "ds_evidence s = []" for d v s
    using parse_parts [OF p]
  proof (elim disjE exE conjE)
    fix entry s0
    assume k: "s = keep_score render d entry s0" "ds_numeric s0 = JsNull" "ds_flag s0 = None" "ds_causes s0 = []"
      "\<not> (dm_evidence d \<and> is_above_baseline render d entry \<and> ds_evidence s0 = [])"
    then have "\<not> is_above_baseline render d entry" using e by simp
    then show ?thesis using keep_baseline k by blast
  qed (simp_all add: positive_def)
  ultimately show ?thesis using t(2) by blast
qed

text \<open>
  The rule reads numbers only: a likert score that the judge sends as a text is not above the
  baseline, so it is published with neither evidence nor a mark that it is missing.
\<close>

theorem text_score_needs_no_evidence:
  assumes "dm_scale d = ''likert''" "obj_get entry ''score'' = JsStr x" "obj_get entry ''evidence'' = JsNull"
  shows "\<exists>s. parse_dimension render d (JsObj entry) = Some s \<and> ds_numeric s = JsStr x \<and> ds_evidence s = [] \<and>
    \<not> ds_evidence_missing s"
  using assms
  by (simp add: parse_dimension_def not_iterable_def evidence_of_def is_above_baseline_def positive_def keep_score_def Let_def)

lemma map_filter_mem: "x \<in> set (List.map_filter f xs) \<Longrightarrow> \<exists>k \<in> set xs. f k = Some x"
  by (auto simp: List.map_filter_def)

lemma foldl_causes:
  "distinct (map cause_key cs) \<Longrightarrow> distinct (map cause_key (foldl add_cause cs xs)) \<and>
   set (foldl add_cause cs xs) \<subseteq> set cs \<union> set xs"
proof (induction xs arbitrary: cs)
  case (Cons x xs)
  have "distinct (map cause_key (add_cause cs x))" "set (add_cause cs x) \<subseteq> insert x (set cs)"
    using Cons.prems by (auto simp: add_cause_def)
  with Cons.IH [of "add_cause cs x"] show ?case by auto
qed simp

lemma cause_ok:
  assumes "parse_cause render item = Some c"
  shows "cz_cause c \<in> set EFFICIENCY_CAUSES \<and> (case cz_share c of Some (Fin x) \<Rightarrow> 0 \<le> x \<and> x \<le> 1 | Some _ \<Rightarrow> False | None \<Rightarrow> True)"
proof -
  have sh: "share_of v = None \<or> (\<exists>x. share_of v = Some (Fin x) \<and> 0 \<le> x \<and> x \<le> 1)" for v
    by (cases "number v"; simp add: share_of_def; rename_tac y; case_tac y) auto
  obtain name kvs where "c = cause_named name kvs"
    using assms by (auto simp: parse_cause_def Let_def split: option.splits if_splits)
  moreover have "''other'' \<in> set EFFICIENCY_CAUSES" by (simp add: EFFICIENCY_CAUSES_def)
  ultimately show ?thesis using sh [of "obj_get kvs ''share''"] by (auto simp: cause_named_def Let_def)
qed

text \<open>
  Whatever the judge lists as causes, the recorded ones are known causes, each with a share between
  0 and 1 or none, and no cause is recorded twice; an unknown one is kept by its name.
\<close>

theorem causes_are_normal:
  "distinct (map cause_key (parse_causes render entry)) \<and>
   list_all (\<lambda>c. cz_cause c \<in> set EFFICIENCY_CAUSES \<and>
     (case cz_share c of Some (Fin x) \<Rightarrow> 0 \<le> x \<and> x \<le> 1 | Some _ \<Rightarrow> False | None \<Rightarrow> True)) (parse_causes render entry)"
proof (cases "obj_get entry ''causes''")
  case (JsList items)
  let ?cs = "List.map_filter (parse_cause render) items"
  have p: "parse_causes render entry = foldl add_cause [] ?cs" by (simp add: parse_causes_def JsList)
  have f: "distinct (map cause_key (foldl add_cause [] ?cs))" "set (foldl add_cause [] ?cs) \<subseteq> set ?cs"
    using foldl_causes [of "[]" ?cs] by simp_all
  show ?thesis
    unfolding p list_all_iff
  proof (intro conjI ballI f(1))
    fix c assume "c \<in> set (foldl add_cause [] ?cs)"
    from map_filter_mem [OF subsetD [OF f(2) this]] obtain item where "parse_cause render item = Some c"
      by (elim bexE)
    note ok = cause_ok [OF this]
    show "cz_cause c \<in> set EFFICIENCY_CAUSES" by (rule conjunct1 [OF ok])
    show "case cz_share c of Some (Fin x) \<Rightarrow> 0 \<le> x \<and> x \<le> 1 | Some _ \<Rightarrow> False | None \<Rightarrow> True"
      by (rule conjunct2 [OF ok])
  qed
qed (simp_all add: parse_causes_def)

section \<open>What the review promises\<close>

lemma latest_mem:
  "r \<in> set (latest_reviews table) \<Longrightarrow> r \<in> set table \<and> (\<forall>r' \<in> set table. verdict_key r' = verdict_key r \<longrightarrow> rv_at r' \<le> rv_at r)"
proof -
  assume "r \<in> set (latest_reviews table)"
  then have "\<exists>k \<in> set (remdups (map verdict_key table)).
      top_row (\<lambda>a b. rv_at b < rv_at a) (filter (\<lambda>r. verdict_key r = k) table) = Some r"
    unfolding latest_reviews_def by (rule map_filter_mem)
  then obtain k where k: "top_row (\<lambda>a b. rv_at b < rv_at a) (filter (\<lambda>r. verdict_key r = k) table) = Some r"
    by (elim bexE)
  have m: "r \<in> set (filter (\<lambda>r. verdict_key r = k) table)" by (rule top_row_mem [OF k])
  have "int (rv_at r') \<le> int (rv_at r)" if "r' \<in> set (filter (\<lambda>r. verdict_key r = k) table)" for r'
    by (rule top_row_max [OF _ _ k that]) auto
  with m show ?thesis by auto
qed

lemma latest_keys: "map verdict_key (latest_reviews table) = remdups (map verdict_key table)"
proof -
  have "map verdict_key (List.map_filter (\<lambda>k. top_row (\<lambda>a b. rv_at b < rv_at a) (filter (\<lambda>r. verdict_key r = k) table)) ks) = ks"
    if "set ks \<subseteq> verdict_key ` set table" for ks
    using that
  proof (induction ks)
    case (Cons k ks)
    then have "filter (\<lambda>r. verdict_key r = k) table \<noteq> []" by (auto simp: filter_empty_conv)
    then obtain r where r: "top_row (\<lambda>a b. rv_at b < rv_at a) (filter (\<lambda>r. verdict_key r = k) table) = Some r"
      by (cases "filter (\<lambda>r. verdict_key r = k) table") auto
    have "verdict_key r = k" using top_row_mem [OF r] by simp
    with Cons r show ?case by (simp add: List.map_filter_simps)
  qed (simp add: List.map_filter_simps)
  then show ?thesis by (simp add: latest_reviews_def)
qed

text \<open>
  A second review of a verdict replaces the first in the aggregate and adds nothing to it: every
  reviewed verdict counts once, by its newest review, so the reviewed count of a dimension is the number
  of its verdicts with a review, approvals and denials add up to it and the rate lies between 0 and 1.
\<close>

theorem reviews_count_once:
  assumes "\<And>r. r \<in> set table \<Longrightarrow> rv_decision r \<in> {''approve'', ''deny''}"
  shows "dc_reviewed (calibrate table dm) = card (verdict_key ` {r \<in> set table. rv_dimension r = dm}) \<and>
    dc_approved (calibrate table dm) + dc_denied (calibrate table dm) = dc_reviewed (calibrate table dm) \<and>
    dc_distinct (calibrate table dm) \<le> dc_reviewed (calibrate table dm) \<and>
    (case dc_rate (calibrate table dm) of Some x \<Rightarrow> 0 \<le> x \<and> x \<le> 1 | None \<Rightarrow> dc_reviewed (calibrate table dm) = 0)"
proof -
  define rows where "rows = filter (\<lambda>r. rv_dimension r = dm) (latest_reviews table)"
  have d: "distinct (map verdict_key rows)"
    using latest_keys [of table] unfolding rows_def by (metis distinct_map_filter distinct_remdups)
  have s: "verdict_key ` set rows = verdict_key ` {r \<in> set table. rv_dimension r = dm}"
  proof
    show "verdict_key ` set rows \<subseteq> verdict_key ` {r \<in> set table. rv_dimension r = dm}"
      using latest_mem by (auto simp: rows_def)
    show "verdict_key ` {r \<in> set table. rv_dimension r = dm} \<subseteq> verdict_key ` set rows"
    proof
      fix k assume "k \<in> verdict_key ` {r \<in> set table. rv_dimension r = dm}"
      then obtain r where r: "r \<in> set table" "rv_dimension r = dm" "k = verdict_key r" by auto
      have "k \<in> set (map verdict_key (latest_reviews table))" unfolding latest_keys using r by simp
      then obtain r' where r': "r' \<in> set (latest_reviews table)" "verdict_key r' = k" by auto
      then have "rv_dimension r' = dm" using r by (simp add: verdict_key_def)
      with r' show "k \<in> verdict_key ` set rows" by (auto simp: rows_def)
    qed
  qed
  have len: "length rows = card (verdict_key ` set rows)"
    by (metis d distinct_card length_map set_map)
  have le: "length (filter P rows) \<le> length rows" for P by (rule length_filter_le)
  have "card ((\<lambda>r. (rv_run r, rv_instance r, rv_attempt r)) ` set rows) \<le> length rows"
    using card_image_le [of "set rows"] card_length [of rows] by (meson List.finite_set le_trans)
  then show ?thesis
    using len s le [of "\<lambda>r. rv_decision r = ''approve''"]
    by (simp add: calibrate_def Let_def rows_def [symmetric] divide_le_eq)
qed

lemma those_map_None: "x \<in> set xs \<Longrightarrow> f x = None \<Longrightarrow> those (map f xs) = None"
  by (induction xs) (auto split: option.splits)

text \<open>
  One answer can end the whole pass: where the judge gives a number other than zero as the evidence of a
  dimension, the parser raises instead of recording a score for any dimension.
\<close>

theorem number_as_evidence_raises:
  assumes "d \<in> set ds" "obj_get (js_fields (obj_get reply ''dimensions'')) (dm_id d) = JsObj entry"
    and "obj_get entry ''evidence'' = JsInt n" "n \<noteq> 0"
  shows "parse_all_dimensions render ds reply = None"
proof -
  have "parse_dimension render d (obj_get (js_fields (obj_get reply ''dimensions'')) (dm_id d)) = None"
    using assms by (simp add: parse_dimension_def not_iterable_def)
  then show ?thesis unfolding parse_all_dimensions_def by (rule those_map_None [OF assms(1)])
qed

section \<open>Instances\<close>

definition demo_dimension :: dimension where
  "demo_dimension = \<lparr>dm_id = ''scope'', dm_scale = ''likert'', dm_evidence = True\<rparr>"

definition demo_judgment :: "json \<Rightarrow> (string \<times> json) list" where
  "demo_judgment score = [(''dimensions'', JsObj [(''scope'', JsObj [(''score'', score), (''reasoning'', JsStr ''r'')])])]"

lemmas demo_parse_defs = parse_all_dimensions_def demo_judgment_def demo_dimension_def parse_dimension_def obj_get_def
  not_iterable_def evidence_of_def is_above_baseline_def positive_def keep_score_def Let_def

theorem findings_need_evidence_witness:
  "\<exists>s. parse_all_dimensions (\<lambda>v. []) [demo_dimension] (demo_judgment (JsInt 3)) = Some [s] \<and> \<not> positive (ds_numeric s)"
proof -
  obtain s where s: "parse_all_dimensions (\<lambda>v. []) [demo_dimension] (demo_judgment (JsInt 3)) = Some [s]"
    "ds_evidence s = []"
    by (simp add: demo_parse_defs)
  from findings_need_evidence [OF s(1)] s show ?thesis by (auto simp: demo_dimension_def)
qed

theorem text_score_needs_no_evidence_witness:
  "\<exists>s. parse_dimension (\<lambda>v. []) demo_dimension (JsObj [(''score'', JsStr ''3'')]) = Some s \<and>
     ds_numeric s = JsStr ''3'' \<and> \<not> ds_evidence_missing s"
  using text_score_needs_no_evidence [of demo_dimension "[(''score'', JsStr ''3'')]" "''3''" "\<lambda>v. []"]
  by (auto simp: demo_dimension_def obj_get_def)

definition demo_review :: "string \<Rightarrow> nat \<Rightarrow> review" where
  "demo_review d t = \<lparr>rv_run = ''r'', rv_instance = ''i'', rv_attempt = 1, rv_judged_at = ''t'',
     rv_dimension = ''scope'', rv_decision = d, rv_reasoning = ''x'', rv_by = ''o'', rv_at = t\<rparr>"

theorem reviews_count_once_witness:
  "dc_reviewed (calibrate [demo_review ''approve'' 1, demo_review ''deny'' 2] ''scope'') = 1"
proof -
  let ?t = "[demo_review ''approve'' 1, demo_review ''deny'' 2]"
  have d: "rv_decision r \<in> {''approve'', ''deny''}" if "r \<in> set ?t" for r using that by (auto simp: demo_review_def)
  have "{r \<in> set ?t. rv_dimension r = ''scope''} = set ?t" by (auto simp: demo_review_def)
  then have "verdict_key ` {r \<in> set ?t. rv_dimension r = ''scope''} = {(''r'', ''i'', 1, ''t'', ''scope'')}"
    by (simp add: demo_review_def verdict_key_def)
  then show ?thesis using conjunct1 [OF reviews_count_once [of ?t "''scope''", OF d]] by simp
qed

theorem number_as_evidence_raises_witness:
  "parse_all_dimensions (\<lambda>v. []) [demo_dimension]
     [(''dimensions'', JsObj [(''scope'', JsObj [(''evidence'', JsInt 5)])])] = None"
  by (rule number_as_evidence_raises [where entry = "[(''evidence'', JsInt 5)]" and n = 5 and d = demo_dimension])
    (simp_all add: demo_dimension_def obj_get_def)

end
