(* ===== verification/Judge_Pass.thy ===== *)
theory Judge_Pass
  imports Judge_Scores Taxonomy
begin

text \<open>
  One pass of the offline judge, \<open>analysis/judge.py\<close> with the keys and the lock of
  \<open>analysis/judge_keys.py\<close>: the candidates of a run, the stratified sample, the recovery cascade of
  one candidate, and the pass, in which worker threads judge while one thread submits, records and
  counts. The answers of the judge, the artifacts, the order in which workers come back, the moment of a
  stop, the shuffle and the report at the end are arguments; the texts of rows, logs and the live
  snapshot are left out, and so are the efficiency profile and a database that refuses a write.
\<close>

section \<open>Candidates\<close>

record candidate =
  cd_instance :: string
  cd_attempt :: int
  cd_harness :: string
  cd_outcome :: string
  cd_patch :: "string option"
  cd_trajectory :: "string option"
  cd_leaked :: "string list option"
  cd_always :: bool

definition cd_key :: "candidate \<Rightarrow> string \<times> int" where
  "cd_key c = (cd_instance c, cd_attempt c)"

text \<open>A harness row joined with the verdict and the invalid mark of its eval row.\<close>

record attempt_row =
  ar_run :: string
  ar_instance :: string
  ar_attempt :: int
  ar_patch :: "string option"
  ar_trajectory :: "string option"
  ar_leaked :: "string list option"
  ar_category :: "string option"
  ar_state :: "string option"
  ar_verdict :: "string option"
  ar_invalid :: "bool option"

definition derive_outcome :: "attempt_row \<Rightarrow> string" where
  "derive_outcome r =
     (if ar_invalid r = Some True then ''invalid''
      else if truthy (ar_verdict r) then or_str (ar_verdict r) []
      else if truthy (ar_category r) then or_str (ar_category r) []
      else or_str (ar_state r) ''unknown'')"

definition always_judged :: "attempt_row \<Rightarrow> bool" where
  "always_judged r =
     ((case ar_leaked r of Some xs \<Rightarrow> xs \<noteq> [] | None \<Rightarrow> False) \<or> ar_invalid r = Some True \<or>
      ar_category r \<in> {Some ''HARNESS_STUCK'', Some ''HARNESS_PATCH_EXTRACT_TIMEOUT''})"

definition candidate_of :: "string \<Rightarrow> attempt_row \<Rightarrow> candidate" where
  "candidate_of harness r =
     \<lparr>cd_instance = ar_instance r, cd_attempt = ar_attempt r, cd_harness = harness, cd_outcome = derive_outcome r,
      cd_patch = ar_patch r, cd_trajectory = ar_trajectory r, cd_leaked = ar_leaked r, cd_always = always_judged r\<rparr>"

text \<open>The rows stand in the order of the query; an empty list of instances asks for all.\<close>

definition fetch_candidates :: "attempt_row list \<Rightarrow> string option \<Rightarrow> string \<Rightarrow> string list \<Rightarrow> candidate list" where
  "fetch_candidates rows harness run instances =
     map (candidate_of (case harness of Some h \<Rightarrow> h | None \<Rightarrow> ''unknown''))
       (filter (\<lambda>r. ar_run r = run \<and> ar_trajectory r \<noteq> None \<and> (instances = [] \<or> ar_instance r \<in> set instances)) rows)"

section \<open>Resuming\<close>

record judge_row =
  jr_run :: string
  jr_instance :: string
  jr_attempt :: int
  jr_method :: string
  jr_parse_failed :: bool
  jr_cost :: real
  jr_attempts :: nat
  jr_dims :: "dimension_score list"

definition jr_key :: "judge_row \<Rightarrow> string \<times> int" where
  "jr_key r = (jr_instance r, jr_attempt r)"

definition JUDGE_TIMEOUT_METHOD :: string where "JUDGE_TIMEOUT_METHOD = ''timeout''"

text \<open>How the latest row of a key ended; the rows stand in the order they were judged.\<close>

definition latest_judgment :: "judge_row list \<Rightarrow> string \<Rightarrow> string \<times> int \<Rightarrow> string option" where
  "latest_judgment table run k =
     (case rev (filter (\<lambda>r. jr_run r = run \<and> jr_key r = k) table) of
        [] \<Rightarrow> None
      | r # rs \<Rightarrow> Some (if jr_method r = JUDGE_TIMEOUT_METHOD then ''timeout''
          else if jr_parse_failed r then ''parse_failed'' else ''judged''))"

definition drop_already_judged :: "judge_row list \<Rightarrow> string \<Rightarrow> bool \<Rightarrow> candidate list \<Rightarrow> candidate list" where
  "drop_already_judged table run retry cs =
     filter (\<lambda>c. case latest_judgment table run (cd_key c) of
         None \<Rightarrow> True
       | Some x \<Rightarrow> retry \<and> x \<in> {''timeout'', ''parse_failed''}) cs"

section \<open>The sample\<close>

definition stratum_of :: "candidate \<Rightarrow> string \<times> string" where
  "stratum_of c = (cd_harness c, cd_outcome c)"

text \<open>The strata in the order in which they first occur.\<close>

definition strata_of :: "candidate list \<Rightarrow> (string \<times> string) list" where
  "strata_of cs = rev (remdups (rev (map stratum_of cs)))"

definition sample_target :: "real \<Rightarrow> nat \<Rightarrow> nat \<Rightarrow> nat \<Rightarrow> nat \<Rightarrow> nat" where
  "sample_target share least n already left =
     nat (max 0 (min (max (int (min least n)) (py_round (real n * share)) - int already) (int left)))"

text \<open>One stratum: the shuffled rest of it is taken up to the target.\<close>

definition sample_stratum ::
    "(candidate list \<Rightarrow> candidate list) \<Rightarrow> real \<Rightarrow> nat \<Rightarrow> candidate list \<Rightarrow> string \<times> string \<Rightarrow>
     candidate list \<times> ((string \<times> string) \<times> nat \<times> nat) list \<Rightarrow> candidate list \<times> ((string \<times> string) \<times> nat \<times> nat) list" where
  "sample_stratum shuffle share least cs s acc =
     (let (chosen, counts) = acc;
          members = filter (\<lambda>c. stratum_of c = s) cs;
          already = length (filter (\<lambda>c. cd_key c \<in> cd_key ` set chosen) members);
          remaining = shuffle (filter (\<lambda>c. cd_key c \<notin> cd_key ` set chosen) members);
          picked = take (sample_target share least (length members) already (length remaining)) remaining
      in (chosen @ picked, counts @ [(s, length members, already + length picked)]))"

definition stratify ::
    "(candidate list \<Rightarrow> candidate list) \<Rightarrow> real \<Rightarrow> nat \<Rightarrow> candidate list \<Rightarrow>
     candidate list \<times> ((string \<times> string) \<times> nat \<times> nat) list" where
  "stratify shuffle share least cs =
     fold (sample_stratum shuffle share least cs) (strata_of cs) (filter cd_always cs, [])"

section \<open>The cascade of one candidate\<close>

datatype judge_fault = Timed_out_after nat | No_answer nat | Other_exception

record judge_answer =
  cr_parsed :: "(string \<times> json) list option"
  cr_reasoning :: string
  cr_cost :: real

record cascade =
  cc_attempts :: "(string \<times> judge_answer) list"
  cc_cost :: real

record cascade_outcome =
  co_method :: string
  co_attempts :: nat
  co_dims :: "dimension_score list"
  co_parse_failed :: bool
  co_cost :: real

definition JUDGE_MAX_ATTEMPTS :: nat where "JUDGE_MAX_ATTEMPTS = 4"

text \<open>The scores of an answer; \<open>None\<close> where the parser raises.\<close>

definition answer_scores :: "(json \<Rightarrow> string) \<Rightarrow> dimension list \<Rightarrow> judge_answer \<Rightarrow> dimension_score list option" where
  "answer_scores render ds r =
     (case cr_parsed r of None \<Rightarrow> Some [] | Some kvs \<Rightarrow> parse_all_dimensions render ds kvs)"

text \<open>
  One call where it may be made, and what follows where its answer scores nothing. An exception comes
  with what the cascade had spent.
\<close>

definition stage ::
    "(json \<Rightarrow> string) \<Rightarrow> dimension list \<Rightarrow> (string \<Rightarrow> judge_fault + judge_answer) \<Rightarrow> (cascade \<Rightarrow> bool) \<Rightarrow> string \<Rightarrow>
     (cascade \<Rightarrow> (judge_fault \<times> cascade) + cascade_outcome) \<Rightarrow> cascade \<Rightarrow> (judge_fault \<times> cascade) + cascade_outcome" where
  "stage render ds call may method rest c =
     (if \<not> may c then rest c
      else case call method of
          Inl f \<Rightarrow> Inl (f, c)
        | Inr r \<Rightarrow>
            (let c' = \<lparr>cc_attempts = cc_attempts c @ [(method, r)], cc_cost = cc_cost c + cr_cost r\<rparr>
             in case answer_scores render ds r of
                  None \<Rightarrow> Inl (Other_exception, c')
                | Some dims \<Rightarrow>
                    if 0 < count_scored_dimensions dims then
                      Inr \<lparr>co_method = method, co_attempts = length (cc_attempts c'), co_dims = dims,
                        co_parse_failed = False, co_cost = cc_cost c'\<rparr>
                    else rest c'))"

definition budget_left :: "real \<Rightarrow> cascade \<Rightarrow> bool" where
  "budget_left budget c = (length (cc_attempts c) < JUDGE_MAX_ATTEMPTS \<and> cc_cost c < budget)"

definition some_reasoning :: "cascade \<Rightarrow> bool" where
  "some_reasoning c = (\<exists>p \<in> set (cc_attempts c). strip (cr_reasoning (snd p)) \<noteq> [])"

definition all_failed :: "cascade \<Rightarrow> (judge_fault \<times> cascade) + cascade_outcome" where
  "all_failed c = Inr \<lparr>co_method = ''failed'', co_attempts = length (cc_attempts c), co_dims = [],
     co_parse_failed = True, co_cost = cc_cost c\<rparr>"

definition judge_with_cascade ::
    "(json \<Rightarrow> string) \<Rightarrow> dimension list \<Rightarrow> (string \<Rightarrow> judge_fault + judge_answer) \<Rightarrow> real \<Rightarrow>
     (judge_fault \<times> cascade) + cascade_outcome" where
  "judge_with_cascade render ds call budget =
     stage render ds call (\<lambda>c. True) ''primary''
       (stage render ds call (budget_left budget) ''retry''
         (stage render ds call (\<lambda>c. some_reasoning c \<and> budget_left budget c) ''transcribe''
           (stage render ds call (budget_left budget) ''plain'' all_failed)))
       \<lparr>cc_attempts = [], cc_cost = 0\<rparr>"

section \<open>The pass\<close>

datatype worker_end = No_artifacts | Judged cascade_outcome | Call_timed_out nat | Call_unanswered | Worker_raised

record pass_env =
  pe_run :: string
  pe_render :: "json \<Rightarrow> string"
  pe_dims :: "dimension list"
  pe_max :: real
  pe_workers :: nat
  pe_fetched :: "candidate \<Rightarrow> bool"
  pe_call :: "candidate \<Rightarrow> string \<Rightarrow> judge_fault + judge_answer"
  pe_back :: "nat \<Rightarrow> candidate list \<Rightarrow> candidate list"
  pe_stop_at :: "nat option"

definition JUDGE_MAX_WORKERS :: int where "JUDGE_MAX_WORKERS = 100"

definition clamp_workers :: "int \<Rightarrow> nat" where
  "clamp_workers n = nat (max 1 (min n JUDGE_MAX_WORKERS))"

definition JUDGE_MAX_CONSECUTIVE_CALL_FAILURES :: nat where "JUDGE_MAX_CONSECUTIVE_CALL_FAILURES = 8"

definition judge_candidate :: "pass_env \<Rightarrow> candidate \<Rightarrow> real \<Rightarrow> worker_end" where
  "judge_candidate e c budget =
     (if \<not> pe_fetched e c then No_artifacts
      else case judge_with_cascade (pe_render e) (pe_dims e) (pe_call e c) budget of
          Inr out \<Rightarrow> Judged out
        | Inl (Timed_out_after n, x) \<Rightarrow> Call_timed_out n
        | Inl (No_answer n, x) \<Rightarrow> Call_unanswered
        | Inl (Other_exception, x) \<Rightarrow> Worker_raised)"

datatype pass_failure = Provider_down | Raised_by_worker

text \<open>\<open>ps_checks\<close> counts how often the stop event was looked at.\<close>

record pass_state =
  ps_queue :: "candidate list"
  ps_pending :: "(candidate \<times> real) list"
  ps_rows :: "judge_row list"
  ps_spend :: real
  ps_judged :: nat
  ps_over_budget :: nat
  ps_parse_failed :: nat
  ps_call_failed :: nat
  ps_timed_out :: nat
  ps_no_artifacts :: nat
  ps_failure :: "pass_failure option"
  ps_streak :: nat
  ps_stopped :: bool
  ps_checks :: nat

definition initial_pass :: "candidate list \<Rightarrow> pass_state" where
  "initial_pass selected = \<lparr>ps_queue = selected, ps_pending = [], ps_rows = [], ps_spend = 0, ps_judged = 0,
     ps_over_budget = 0, ps_parse_failed = 0, ps_call_failed = 0, ps_timed_out = 0, ps_no_artifacts = 0,
     ps_failure = None, ps_streak = 0, ps_stopped = False, ps_checks = 0\<rparr>"

definition stop_requested :: "pass_env \<Rightarrow> pass_state \<Rightarrow> bool" where
  "stop_requested e st = (case pe_stop_at e of None \<Rightarrow> False | Some k \<Rightarrow> k \<le> ps_checks st)"

definition looked :: "pass_state \<Rightarrow> pass_state" where
  "looked st = st\<lparr>ps_checks := Suc (ps_checks st)\<rparr>"

function submit_more :: "pass_env \<Rightarrow> pass_state \<Rightarrow> pass_state" where
  "submit_more e st =
     (case ps_queue st of
        [] \<Rightarrow> st
      | c # q \<Rightarrow>
          (if pe_workers e \<le> length (ps_pending st) \<or> ps_failure st \<noteq> None then st
           else if stop_requested e st then looked st
           else if pe_max e \<le> ps_spend st then
             submit_more e ((looked st)\<lparr>ps_queue := q, ps_over_budget := Suc (ps_over_budget st)\<rparr>)
           else submit_more e ((looked st)\<lparr>ps_queue := q,
             ps_pending := ps_pending st @ [(c, pe_max e - ps_spend st)]\<rparr>)))"
  by pat_completeness auto
termination by (relation "measure (\<lambda>(e, st). length (ps_queue st))") auto

declare submit_more.simps [simp del]

text \<open>The row of a candidate that ran into the ceiling has no score and no cost.\<close>

definition timeout_row :: "pass_env \<Rightarrow> candidate \<Rightarrow> nat \<Rightarrow> judge_row" where
  "timeout_row e c n = \<lparr>jr_run = pe_run e, jr_instance = cd_instance c, jr_attempt = cd_attempt c,
     jr_method = JUDGE_TIMEOUT_METHOD, jr_parse_failed = False, jr_cost = 0, jr_attempts = n,
     jr_dims = map (\<lambda>d. (no_score d)\<lparr>ds_evidence_missing := False\<rparr>) (pe_dims e)\<rparr>"

definition judged_row :: "pass_env \<Rightarrow> candidate \<Rightarrow> cascade_outcome \<Rightarrow> judge_row" where
  "judged_row e c out = \<lparr>jr_run = pe_run e, jr_instance = cd_instance c, jr_attempt = cd_attempt c,
     jr_method = co_method out, jr_parse_failed = co_parse_failed out, jr_cost = co_cost out,
     jr_attempts = co_attempts out, jr_dims = co_dims out\<rparr>"

definition record_end :: "pass_env \<Rightarrow> candidate \<Rightarrow> worker_end \<Rightarrow> pass_state \<Rightarrow> pass_state" where
  "record_end e c w st =
     (case w of
        Call_timed_out n \<Rightarrow>
          st\<lparr>ps_rows := ps_rows st @ [timeout_row e c n], ps_timed_out := Suc (ps_timed_out st)\<rparr>
      | Call_unanswered \<Rightarrow>
          (let n = Suc (ps_streak st)
           in st\<lparr>ps_call_failed := Suc (ps_call_failed st), ps_streak := n,
                ps_failure := (if JUDGE_MAX_CONSECUTIVE_CALL_FAILURES \<le> n \<and> ps_failure st = None
                  then Some Provider_down else ps_failure st)\<rparr>)
      | Worker_raised \<Rightarrow> st\<lparr>ps_failure := (if ps_failure st = None then Some Raised_by_worker else ps_failure st)\<rparr>
      | No_artifacts \<Rightarrow> st\<lparr>ps_streak := 0, ps_no_artifacts := Suc (ps_no_artifacts st)\<rparr>
      | Judged out \<Rightarrow>
          st\<lparr>ps_streak := 0, ps_rows := ps_rows st @ [judged_row e c out], ps_judged := Suc (ps_judged st),
            ps_spend := ps_spend st + co_cost out,
            ps_parse_failed := ps_parse_failed st + (if co_parse_failed out then 1 else 0)\<rparr>)"

text \<open>A worker that came back; what is not pending is no worker of the pass.\<close>

definition come_back :: "pass_env \<Rightarrow> candidate \<Rightarrow> pass_state \<Rightarrow> pass_state" where
  "come_back e c st =
     (case find (\<lambda>p. fst p = c) (ps_pending st) of
        None \<Rightarrow> st
      | Some p \<Rightarrow> record_end e c (judge_candidate e c (snd p)) (st\<lparr>ps_pending := remove1 p (ps_pending st)\<rparr>))"

primrec pass_loop :: "pass_env \<Rightarrow> nat \<Rightarrow> pass_state \<Rightarrow> pass_state option" where
  "pass_loop e 0 st = None"
| "pass_loop e (Suc n) st =
     (if ps_pending st = [] then Some st
      else if stop_requested e st then Some ((looked st)\<lparr>ps_pending := [], ps_stopped := True\<rparr>)
      else pass_loop e n (submit_more e
             (fold (come_back e) (pe_back e n (map fst (ps_pending st))) (looked st))))"

text \<open>A stop seen only at the end, with candidates left, is a stop.\<close>

definition end_of_loop :: "pass_env \<Rightarrow> pass_state \<Rightarrow> pass_state" where
  "end_of_loop e st = (if stop_requested e st \<and> ps_queue st \<noteq> [] then st\<lparr>ps_stopped := True\<rparr> else st)"

definition judge_all :: "pass_env \<Rightarrow> nat \<Rightarrow> candidate list \<Rightarrow> pass_state option" where
  "judge_all e n selected = map_option (end_of_loop e) (pass_loop e n (submit_more e (initial_pass selected)))"

text \<open>What was never submitted counts as skipped over budget.\<close>

definition close_counts :: "pass_state \<Rightarrow> pass_state" where
  "close_counts st = st\<lparr>ps_over_budget := ps_over_budget st + length (ps_queue st), ps_queue := []\<rparr>"

section \<open>The lock, the keys and the whole pass\<close>

record sampling_row =
  sg_pass :: string
  sg_eligible :: nat
  sg_judged :: nat
  sg_over_budget :: nat
  sg_parse_failed :: nat
  sg_synthesis_cost :: real
  sg_only :: bool

text \<open>The lock of the judge model, the live keys of the gateway and of the provider by their pass, and the two tables.\<close>

record judge_world =
  jw_lock :: "string option"
  jw_virtual :: "string list"
  jw_provider :: "string list"
  jw_table :: "judge_row list"
  jw_ledger :: "sampling_row list"

text \<open>Where the minting ends; only a pass that got through knows the names of its keys.\<close>

datatype minting = No_key_source | Mint_failed | Rotation_failed | Minted

definition provision_pass_keys :: "minting \<Rightarrow> string \<Rightarrow> judge_world \<Rightarrow> bool \<times> judge_world" where
  "provision_pass_keys how pass w =
     (case how of
        No_key_source \<Rightarrow> (False, w)
      | Mint_failed \<Rightarrow> (False, w\<lparr>jw_virtual := pass # jw_virtual w\<rparr>)
      | Rotation_failed \<Rightarrow> (False, w\<lparr>jw_virtual := pass # jw_virtual w, jw_provider := pass # jw_provider w\<rparr>)
      | Minted \<Rightarrow> (True, w\<lparr>jw_virtual := pass # jw_virtual w, jw_provider := pass # jw_provider w\<rparr>))"

definition claim_pass_lock :: "string \<Rightarrow> judge_world \<Rightarrow> judge_world option" where
  "claim_pass_lock pass w = (if jw_lock w = None then Some (w\<lparr>jw_lock := Some pass\<rparr>) else None)"

definition release_pass_lock :: "string \<Rightarrow> judge_world \<Rightarrow> judge_world" where
  "release_pass_lock pass w = (if jw_lock w = Some pass then w\<lparr>jw_lock := None\<rparr> else w)"

definition finalize_pass_keys :: "bool \<Rightarrow> bool \<Rightarrow> string \<Rightarrow> judge_world \<Rightarrow> judge_world" where
  "finalize_pass_keys known provisioning pass w =
     (if \<not> known then w
      else w\<lparr>jw_virtual := filter (\<lambda>k. k \<noteq> pass) (jw_virtual w),
        jw_provider := (if provisioning then filter (\<lambda>k. k \<noteq> pass) (jw_provider w) else jw_provider w)\<rparr>)"

definition end_pass :: "bool \<Rightarrow> bool \<Rightarrow> string \<Rightarrow> judge_world \<Rightarrow> judge_world" where
  "end_pass known provisioning pass w = release_pass_lock pass (finalize_pass_keys known provisioning pass w)"

record pass_request =
  pq_pass :: string
  pq_rejudge :: bool
  pq_retry :: bool
  pq_only :: bool
  pq_share :: real
  pq_least :: nat

datatype pass_result = Locked | Provision_failed | Aborted pass_failure | Finished pass_state

definition selection :: "pass_request \<Rightarrow> string \<Rightarrow> judge_row list \<Rightarrow> candidate list \<Rightarrow> candidate list" where
  "selection q run table cs =
     (if pq_only q then [] else if pq_rejudge q then cs else drop_already_judged table run (pq_retry q) cs)"

text \<open>The report is one more call, made when there is money left and something was judged; 0 where it fails.\<close>

definition synthesis_cost :: "pass_env \<Rightarrow> judge_row list \<Rightarrow> real \<Rightarrow> pass_state \<Rightarrow> real" where
  "synthesis_cost e table cost st =
     (if ps_stopped st \<or> pe_max e \<le> ps_spend st \<or> (\<forall>r \<in> set table. jr_run r \<noteq> pe_run e) then 0 else cost)"

definition run_pass ::
    "pass_env \<Rightarrow> nat \<Rightarrow> pass_request \<Rightarrow> minting \<Rightarrow> bool \<Rightarrow> (candidate list \<Rightarrow> candidate list) \<Rightarrow> real \<Rightarrow>
     candidate list \<Rightarrow> judge_world \<Rightarrow> (pass_result \<times> judge_world) option" where
  "run_pass e n q how provisioning shuffle report cs w =
     (case claim_pass_lock (pq_pass q) w of
        None \<Rightarrow> Some (Locked, w)
      | Some w1 \<Rightarrow>
          (let (known, w2) = provision_pass_keys how (pq_pass q) w1
           in if \<not> known then Some (Provision_failed, end_pass False provisioning (pq_pass q) w2)
              else let fresh = selection q (pe_run e) (jw_table w2) cs;
                       selected = fst (stratify shuffle (pq_share q) (pq_least q) fresh)
                   in case judge_all e n selected of
                        None \<Rightarrow> None
                      | Some st \<Rightarrow>
                          (let w3 = w2\<lparr>jw_table := jw_table w2 @ ps_rows st\<rparr>
                           in case ps_failure st of
                                Some f \<Rightarrow> Some (Aborted f, end_pass True provisioning (pq_pass q) w3)
                              | None \<Rightarrow>
                                  (let st1 = close_counts st; cost = synthesis_cost e (jw_table w3) report st;
                                       row = \<lparr>sg_pass = pq_pass q, sg_eligible = length fresh, sg_judged = ps_judged st1,
                                         sg_over_budget = ps_over_budget st1, sg_parse_failed = ps_parse_failed st1,
                                         sg_synthesis_cost = cost, sg_only = pq_only q\<rparr>
                                   in Some (Finished (st1\<lparr>ps_spend := ps_spend st1 + cost\<rparr>),
                                        end_pass True provisioning (pq_pass q) (w3\<lparr>jw_ledger := jw_ledger w3 @ [row]\<rparr>))))))"


end
