(* ===== verification/Judge_Facts.thy ===== *)
theory Judge_Facts
  imports Judge_Pass "HOL-Library.Multiset"
begin

text \<open>
  What a judge pass promises: the bound of a cascade, the counts and the spend of a pass under any
  interleaving of its workers, its end, the sample, and what it gives back and adds to the tables. The
  invariants of the main thread are instances of one locale.
\<close>

section \<open>The cascade\<close>

definition costs_within :: "real \<Rightarrow> (string \<Rightarrow> judge_fault + judge_answer) \<Rightarrow> bool" where
  "costs_within m call = (\<forall>k r. call k = Inr r \<longrightarrow> 0 \<le> cr_cost r \<and> cr_cost r \<le> m)"

text \<open>What a cascade has spent: no more than its calls, and below its budget before the last one.\<close>

definition spent_ok :: "real \<Rightarrow> real \<Rightarrow> nat \<Rightarrow> real \<Rightarrow> bool" where
  "spent_ok m budget n x = (0 \<le> x \<and> x \<le> real n * m \<and> (1 < n \<longrightarrow> x < budget + m))"

definition good_end :: "real \<Rightarrow> real \<Rightarrow> nat \<Rightarrow> (judge_fault \<times> cascade) + cascade_outcome \<Rightarrow> bool" where
  "good_end m budget n res =
     (case res of Inl (f, c) \<Rightarrow> length (cc_attempts c) \<le> n \<and> spent_ok m budget (length (cc_attempts c)) (cc_cost c)
      | Inr out \<Rightarrow> 1 \<le> co_attempts out \<and> co_attempts out \<le> n \<and> spent_ok m budget (co_attempts out) (co_cost out) \<and>
          (co_parse_failed out \<longleftrightarrow> count_scored_dimensions (co_dims out) = 0))"

lemma stage_good:
  assumes "costs_within m call" "spent_ok m budget (length (cc_attempts c)) (cc_cost c)" "length (cc_attempts c) < n" "n \<le> k"
    and may: "may c \<Longrightarrow> cc_attempts c \<noteq> [] \<Longrightarrow> cc_cost c < budget"
    and first: "cc_attempts c = [] \<Longrightarrow> may c"
    and rest: "\<And>c'. spent_ok m budget (length (cc_attempts c')) (cc_cost c') \<Longrightarrow> 1 \<le> length (cc_attempts c') \<Longrightarrow>
      length (cc_attempts c') \<le> n \<Longrightarrow> good_end m budget k (rest c')"
  shows "good_end m budget k (stage render ds call may method rest c)"
proof (cases "may c")
  case False
  then have "1 \<le> length (cc_attempts c)" using first by (cases "cc_attempts c") auto
  then show ?thesis using False rest assms(2,3) by (simp add: stage_def)
next
  case True
  show ?thesis
  proof (cases "call method")
    case (Inl f)
    then show ?thesis using True assms(2,3,4) by (simp add: stage_def good_end_def)
  next
    case (Inr r)
    define c' where "c' = \<lparr>cc_attempts = cc_attempts c @ [(method, r)], cc_cost = cc_cost c + cr_cost r\<rparr>"
    have r: "0 \<le> cr_cost r" "cr_cost r \<le> m" using assms(1) Inr by (auto simp: costs_within_def)
    have ok: "spent_ok m budget (length (cc_attempts c')) (cc_cost c')"
      using assms(2) r may [OF True] by (auto simp: spent_ok_def c'_def algebra_simps)
    have len: "1 \<le> length (cc_attempts c')" "length (cc_attempts c') \<le> n" "length (cc_attempts c') \<le> k"
      using assms(3,4) by (simp_all add: c'_def)
    show ?thesis
      using True Inr ok len rest [OF ok len(1,2)]
      by (auto simp: stage_def good_end_def c'_def [symmetric] Let_def split: option.split)
  qed
qed

lemma cascade_good:
  assumes "costs_within m call" "0 \<le> m"
  shows "good_end m budget 4 (judge_with_cascade render ds call budget)"
proof -
  have z: "spent_ok m budget 0 0" by (simp add: spent_ok_def)
  have f: "good_end m budget 4 (all_failed c)"
    if "spent_ok m budget (length (cc_attempts c)) (cc_cost c)" "1 \<le> length (cc_attempts c)" "length (cc_attempts c) \<le> 4" for c
    using that by (simp add: all_failed_def good_end_def count_scored_dimensions_def)
  let ?ok = "\<lambda>c k. spent_ok m budget (length (cc_attempts c)) (cc_cost c) \<and> 1 \<le> length (cc_attempts c) \<and> length (cc_attempts c) \<le> k"
  let ?plain = "stage render ds call (budget_left budget) ''plain'' all_failed"
  let ?trans = "stage render ds call (\<lambda>c. some_reasoning c \<and> budget_left budget c) ''transcribe'' ?plain"
  let ?retry = "stage render ds call (budget_left budget) ''retry'' ?trans"
  have plain: "good_end m budget 4 (?plain c)" if "?ok c 3" for c
    by (rule stage_good [OF assms(1), where n = 4]) (use that f in \<open>auto simp: budget_left_def\<close>)
  have trans: "good_end m budget 4 (?trans c)" if "?ok c 2" for c
    by (rule stage_good [OF assms(1), where n = 3]) (use that plain in \<open>auto simp: budget_left_def\<close>)
  have retry: "good_end m budget 4 (?retry c)" if "?ok c 1" for c
    by (rule stage_good [OF assms(1), where n = 2]) (use that trans in \<open>auto simp: budget_left_def\<close>)
  show ?thesis
    unfolding judge_with_cascade_def
    by (rule stage_good [OF assms(1), where n = 1]) (use z retry in auto)
qed

text \<open>
  A candidate costs at most four calls, and no further call starts once the candidate has used up what was left of the budget
  when it was submitted; it counts as a parse failure exactly when no dimension of the rubric
  was scored, and then all the calls that were made are counted.
\<close>

theorem cascade_is_bounded:
  assumes "costs_within m call" "0 \<le> m" "judge_with_cascade render ds call budget = Inr out"
  shows "1 \<le> co_attempts out \<and> co_attempts out \<le> JUDGE_MAX_ATTEMPTS \<and> 0 \<le> co_cost out \<and>
    co_cost out \<le> real (co_attempts out) * m \<and> (1 < co_attempts out \<longrightarrow> co_cost out < budget + m) \<and>
    (co_parse_failed out \<longleftrightarrow> count_scored_dimensions (co_dims out) = 0)"
  using cascade_good [OF assms(1,2), of budget render ds] assms(3)
  by (simp add: good_end_def spent_ok_def JUDGE_MAX_ATTEMPTS_def)

text \<open>
  What a candidate's row costs: the answered calls of its cascade, one for each method that was tried.
\<close>

definition answered_calls :: "(string \<Rightarrow> judge_fault + judge_answer) \<Rightarrow> (string \<times> judge_answer) list \<Rightarrow> bool" where
  "answered_calls call as \<longleftrightarrow> distinct (map fst as) \<and> (\<forall>(k, a) \<in> set as. call k = Inr a)"

definition calls_cost :: "(string \<times> judge_answer) list \<Rightarrow> real" where
  "calls_cost as = sum_list (map (\<lambda>(k, a). cr_cost a) as)"

definition priced_so_far :: "(string \<Rightarrow> judge_fault + judge_answer) \<Rightarrow> string set \<Rightarrow> cascade \<Rightarrow> bool" where
  "priced_so_far call ks c \<longleftrightarrow> answered_calls call (cc_attempts c) \<and> fst ` set (cc_attempts c) \<subseteq> ks \<and>
     cc_cost c = calls_cost (cc_attempts c)"

definition priced_end :: "(string \<Rightarrow> judge_fault + judge_answer) \<Rightarrow> (judge_fault \<times> cascade) + cascade_outcome \<Rightarrow> bool" where
  "priced_end call res \<longleftrightarrow>
     (\<forall>out. res = Inr out \<longrightarrow>
        (\<exists>as. answered_calls call as \<and> co_attempts out = length as \<and> co_cost out = calls_cost as))"

lemma stage_priced:
  assumes "priced_so_far call ks c" "method \<notin> ks"
    and rest: "\<And>c'. priced_so_far call (insert method ks) c' \<Longrightarrow> priced_end call (rest c')"
  shows "priced_end call (stage render ds call may method rest c)"
proof (cases "may c")
  case False
  with assms(1) rest show ?thesis by (auto simp: stage_def priced_so_far_def)
next
  case True
  show ?thesis
  proof (cases "call method")
    case (Inl f)
    with True show ?thesis by (simp add: stage_def priced_end_def)
  next
    case (Inr r)
    define c' where "c' = \<lparr>cc_attempts = cc_attempts c @ [(method, r)], cc_cost = cc_cost c + cr_cost r\<rparr>"
    have ok: "priced_so_far call (insert method ks) c'"
      using assms(1,2) Inr by (auto simp: priced_so_far_def c'_def answered_calls_def calls_cost_def)
    then have "answered_calls call (cc_attempts c')" "cc_cost c' = calls_cost (cc_attempts c')"
      by (simp_all add: priced_so_far_def)
    with True Inr rest [OF ok] show ?thesis
      by (auto simp: stage_def priced_end_def c'_def [symmetric] Let_def split: option.split)
  qed
qed

lemma cascade_priced: "priced_end call (judge_with_cascade render ds call budget)"
proof -
  let ?plain = "stage render ds call (budget_left budget) ''plain'' all_failed"
  let ?trans = "stage render ds call (\<lambda>c. some_reasoning c \<and> budget_left budget c) ''transcribe'' ?plain"
  let ?retry = "stage render ds call (budget_left budget) ''retry'' ?trans"
  have failed: "priced_end call (all_failed c)" if "priced_so_far call ks c" for ks c
    using that by (auto simp: all_failed_def priced_end_def priced_so_far_def)
  have plain: "priced_end call (?plain c)" if "priced_so_far call {''transcribe'', ''retry'', ''primary''} c" for c
    by (rule stage_priced [OF that _ failed]) simp_all
  have trans: "priced_end call (?trans c)" if "priced_so_far call {''retry'', ''primary''} c" for c
    by (rule stage_priced [OF that _ plain]) simp_all
  have retry: "priced_end call (?retry c)" if "priced_so_far call {''primary''} c" for c
    by (rule stage_priced [OF that _ trans]) simp_all
  have start: "priced_so_far call {} \<lparr>cc_attempts = [], cc_cost = 0\<rparr>"
    by (simp add: priced_so_far_def answered_calls_def calls_cost_def)
  show ?thesis
    unfolding judge_with_cascade_def by (rule stage_priced [OF start _ retry]) simp_all
qed

section \<open>What every step of the pass keeps\<close>

definition price_within :: "real \<Rightarrow> pass_env \<Rightarrow> bool" where
  "price_within m e = (0 \<le> m \<and> (\<forall>c. costs_within m (pe_call e c)))"

lemma judged_cost:
  assumes "price_within m e" "judge_candidate e c budget = Judged out"
  shows "0 \<le> co_cost out \<and> co_cost out \<le> 4 * m"
proof -
  have j: "judge_with_cascade (pe_render e) (pe_dims e) (pe_call e c) budget = Inr out"
    using assms(2) by (auto simp: judge_candidate_def split: sum.splits prod.splits judge_fault.splits if_splits)
  have "good_end m budget 4 (Inr out :: (judge_fault \<times> cascade) + cascade_outcome)"
    using cascade_good [of m "pe_call e c" budget "pe_render e" "pe_dims e"] assms(1) j by (simp add: price_within_def)
  then have "real (co_attempts out) * m \<le> 4 * m" "0 \<le> co_cost out" "co_cost out \<le> real (co_attempts out) * m"
    using assms(1) by (auto simp: good_end_def spent_ok_def price_within_def intro: mult_right_mono)
  then show ?thesis by linarith
qed

text \<open>The measures of a state: where its candidates are, and what may still be spent.\<close>

definition accounted :: "nat \<Rightarrow> pass_state \<Rightarrow> bool" where
  "accounted n st = (ps_failure st \<noteq> None \<or> ps_stopped st \<or>
     n = length (ps_queue st) + length (ps_pending st) + ps_judged st + ps_over_budget st +
       ps_call_failed st + ps_timed_out st + ps_no_artifacts st)"

definition affordable :: "real \<Rightarrow> pass_env \<Rightarrow> pass_state \<Rightarrow> bool" where
  "affordable m e st = (price_within m e \<longrightarrow>
     ps_spend st + real (length (ps_pending st)) * (4 * m) < pe_max e + real (pe_workers e) * (4 * m))"

definition keys_of :: "pass_state \<Rightarrow> (string \<times> int) list" where
  "keys_of st = map jr_key (ps_rows st) @ map (cd_key \<circ> fst) (ps_pending st) @ map cd_key (ps_queue st)"

definition keys_once :: "(string \<times> int) set \<Rightarrow> pass_state \<Rightarrow> bool" where
  "keys_once ks st = (distinct (keys_of st) \<and> set (keys_of st) \<subseteq> ks)"

lemma looked_simps [simp]:
  "ps_queue (looked st) = ps_queue st" "ps_pending (looked st) = ps_pending st" "ps_rows (looked st) = ps_rows st"
  "ps_spend (looked st) = ps_spend st" "ps_failure (looked st) = ps_failure st" "ps_judged (looked st) = ps_judged st"
  "ps_over_budget (looked st) = ps_over_budget st" "ps_call_failed (looked st) = ps_call_failed st"
  "ps_timed_out (looked st) = ps_timed_out st" "ps_no_artifacts (looked st) = ps_no_artifacts st"
  "ps_stopped (looked st) = ps_stopped st" "ps_streak (looked st) = ps_streak st"
  by (simp_all add: looked_def)

lemma submit_keeps:
  assumes "P st"
    and "\<And>s. P s \<Longrightarrow> P (looked s)"
    and "\<And>s c q. P s \<Longrightarrow> ps_queue s = c # q \<Longrightarrow> pe_max e \<le> ps_spend s \<Longrightarrow>
      P ((looked s)\<lparr>ps_queue := q, ps_over_budget := Suc (ps_over_budget s)\<rparr>)"
    and "\<And>s c q. P s \<Longrightarrow> ps_queue s = c # q \<Longrightarrow> ps_spend s < pe_max e \<Longrightarrow> length (ps_pending s) < pe_workers e \<Longrightarrow>
      P ((looked s)\<lparr>ps_queue := q, ps_pending := ps_pending s @ [(c, pe_max e - ps_spend s)]\<rparr>)"
  shows "P (submit_more e st)"
  using assms(1)
proof (induction "length (ps_queue st)" arbitrary: st rule: less_induct)
  case less
  show ?case
  proof (cases "ps_queue st")
    case Nil
    then show ?thesis using less.prems by (simp add: submit_more.simps)
  next
    case (Cons c q)
    have s: "P (submit_more e ((looked st)\<lparr>ps_queue := q, ps_over_budget := Suc (ps_over_budget st)\<rparr>))"
      if "pe_max e \<le> ps_spend st"
      by (rule less.hyps) (use Cons assms(3) [OF less.prems Cons that] in simp_all)
    have t: "P (submit_more e ((looked st)\<lparr>ps_queue := q, ps_pending := ps_pending st @ [(c, pe_max e - ps_spend st)]\<rparr>))"
      if "ps_spend st < pe_max e" "length (ps_pending st) < pe_workers e"
      by (rule less.hyps) (use Cons assms(4) [OF less.prems Cons that] in simp_all)
    show ?thesis
      using Cons less.prems assms(2) s t by (subst submit_more.simps) (auto simp: not_le)
  qed
qed

lemma fold_keeps:
  "P st \<Longrightarrow> (\<And>s c p. P s \<Longrightarrow> p \<in> set (ps_pending s) \<Longrightarrow> fst p = c \<Longrightarrow>
      P (record_end e c (judge_candidate e c (snd p)) (s\<lparr>ps_pending := remove1 p (ps_pending s)\<rparr>))) \<Longrightarrow>
   P (fold (come_back e) cs st)"
proof (induction cs arbitrary: st)
  case (Cons c cs)
  have "P (come_back e c st)"
  proof (cases "find (\<lambda>p. fst p = c) (ps_pending st)")
    case None
    then show ?thesis using Cons.prems(1) by (simp add: come_back_def)
  next
    case (Some p)
    then have "p \<in> set (ps_pending st)" "fst p = c" by (auto simp: find_Some_iff)
    with Some Cons.prems show ?thesis by (simp add: come_back_def)
  qed
  then show ?case using Cons.IH Cons.prems(2) by simp
qed simp

lemma loop_keeps:
  assumes "pass_loop e n st = Some st'" "P st"
    and "\<And>s. P s \<Longrightarrow> P (looked s)"
    and "\<And>s c q. P s \<Longrightarrow> ps_queue s = c # q \<Longrightarrow> pe_max e \<le> ps_spend s \<Longrightarrow>
      P ((looked s)\<lparr>ps_queue := q, ps_over_budget := Suc (ps_over_budget s)\<rparr>)"
    and "\<And>s c q. P s \<Longrightarrow> ps_queue s = c # q \<Longrightarrow> ps_spend s < pe_max e \<Longrightarrow> length (ps_pending s) < pe_workers e \<Longrightarrow>
      P ((looked s)\<lparr>ps_queue := q, ps_pending := ps_pending s @ [(c, pe_max e - ps_spend s)]\<rparr>)"
    and "\<And>s c p. P s \<Longrightarrow> p \<in> set (ps_pending s) \<Longrightarrow> fst p = c \<Longrightarrow>
      P (record_end e c (judge_candidate e c (snd p)) (s\<lparr>ps_pending := remove1 p (ps_pending s)\<rparr>))"
    and "\<And>s. P s \<Longrightarrow> P (s\<lparr>ps_pending := [], ps_stopped := True\<rparr>)"
  shows "P st'"
  using assms(1,2)
proof (induction n arbitrary: st)
  case (Suc n)
  show ?case
  proof (cases "ps_pending st = [] \<or> stop_requested e st")
    case True
    then show ?thesis using Suc.prems assms(3,7) by (auto split: if_splits)
  next
    case False
    let ?st = "submit_more e (fold (come_back e) (pe_back e n (map fst (ps_pending st))) (looked st))"
    have "P ?st"
      by (rule submit_keeps [of P, OF fold_keeps [of P, OF assms(3) [OF Suc.prems(2)] assms(6)] assms(3,4,5)]) simp_all
    with Suc.IH [of ?st] Suc.prems(1) False show ?thesis by simp
  qed
qed simp

text \<open>
  What the steps of the main thread keep: a look at the stop event, a candidate skipped over
  budget, one submitted, one that came back, and the stop.
\<close>

locale pass_invariant =
  fixes e :: pass_env and P :: "pass_state \<Rightarrow> bool"
  assumes looks: "P s \<Longrightarrow> P (looked s)"
    and skips: "P s \<Longrightarrow> ps_queue s = c # q \<Longrightarrow> pe_max e \<le> ps_spend s \<Longrightarrow>
      P ((looked s)\<lparr>ps_queue := q, ps_over_budget := Suc (ps_over_budget s)\<rparr>)"
    and submits: "P s \<Longrightarrow> ps_queue s = c # q \<Longrightarrow> ps_spend s < pe_max e \<Longrightarrow> length (ps_pending s) < pe_workers e \<Longrightarrow>
      P ((looked s)\<lparr>ps_queue := q, ps_pending := ps_pending s @ [(c, pe_max e - ps_spend s)]\<rparr>)"
    and records: "P s \<Longrightarrow> p \<in> set (ps_pending s) \<Longrightarrow>
      P (record_end e (fst p) (judge_candidate e (fst p) (snd p)) (s\<lparr>ps_pending := remove1 p (ps_pending s)\<rparr>))"
    and stops: "P s \<Longrightarrow> P (s\<lparr>ps_pending := [], ps_stopped := True\<rparr>)"
    and ends: "P s \<Longrightarrow> P (s\<lparr>ps_stopped := True\<rparr>)"
begin

lemma holds_after: 
  assumes "judge_all e n selected = Some st" "P (initial_pass selected)"
  shows "P st"
proof -
  obtain st1 where st1: "pass_loop e n (submit_more e (initial_pass selected)) = Some st1" "st = end_of_loop e st1"
    using assms(1) by (auto simp: judge_all_def)
  have "P (submit_more e (initial_pass selected))"
    by (rule submit_keeps [of P, OF assms(2) looks skips submits]) assumption+
  then have "P st1"
    by (rule loop_keeps [of e n "submit_more e (initial_pass selected)" st1 P, OF st1(1) _ looks skips submits _ stops])
      (use records in blast)+
  then show ?thesis using ends by (simp add: st1(2) end_of_loop_def)
qed

end

lemma record_simps [simp]:
  "ps_queue (record_end e c w s) = ps_queue s" "ps_pending (record_end e c w s) = ps_pending s"
  "ps_stopped (record_end e c w s) = ps_stopped s"
  by (simp_all add: record_end_def Let_def split: worker_end.split)

lemma record_failure: "ps_failure s \<noteq> None \<Longrightarrow> ps_failure (record_end e c w s) \<noteq> None"
  by (auto simp: record_end_def Let_def split: worker_end.split)

interpretation counts: pass_invariant e "accounted n" for e n
proof
  fix s p assume a: "accounted n s" "p \<in> set (ps_pending s)"
  then have "length (ps_pending s) = Suc (length (remove1 p (ps_pending s)))"
    by (simp add: length_remove1) (metis Suc_pred length_pos_if_in_set)
  with a(1) show "accounted n (record_end e (fst p) (judge_candidate e (fst p) (snd p)) (s\<lparr>ps_pending := remove1 p (ps_pending s)\<rparr>))"
    by (auto simp: accounted_def record_end_def Let_def split: worker_end.split)
qed (auto simp: accounted_def)

interpretation money: pass_invariant e "affordable m e" for e m
proof
  fix s p assume a: "affordable m e s" "p \<in> set (ps_pending s)"
  let ?w = "judge_candidate e (fst p) (snd p)"
  have l: "length (ps_pending s) = Suc (length (remove1 p (ps_pending s)))"
    using a(2) by (simp add: length_remove1) (metis Suc_pred length_pos_if_in_set)
  have c: "ps_spend (record_end e (fst p) ?w (s\<lparr>ps_pending := remove1 p (ps_pending s)\<rparr>)) \<le> ps_spend s + 4 * m"
    if "price_within m e"
    using that judged_cost [OF that] by (auto simp: record_end_def Let_def price_within_def split: worker_end.split)
  show "affordable m e (record_end e (fst p) ?w (s\<lparr>ps_pending := remove1 p (ps_pending s)\<rparr>))"
    using a(1) c l by (auto simp: affordable_def algebra_simps)
next
  fix s c q
  assume "affordable m e s" "ps_queue s = c # q" "ps_spend s < pe_max e" "length (ps_pending s) < pe_workers e"
  then have "ps_spend s + real (Suc (length (ps_pending s))) * (4 * m) < pe_max e + real (pe_workers e) * (4 * m)"
    if "price_within m e"
    using that by (intro add_less_le_mono mult_right_mono) (auto simp: price_within_def)
  then show "affordable m e ((looked s)\<lparr>ps_queue := q, ps_pending := ps_pending s @ [(c, pe_max e - ps_spend s)]\<rparr>)"
    by (simp add: affordable_def)
next
  fix s assume a: "affordable m e s"
  have "ps_spend s < pe_max e + real (pe_workers e) * (4 * m)" if p: "price_within m e"
  proof -
    have "0 \<le> real (length (ps_pending s)) * (4 * m)" using p by (intro mult_nonneg_nonneg) (auto simp: price_within_def)
    with a p show ?thesis unfolding affordable_def by linarith
  qed
  then show "affordable m e (s\<lparr>ps_pending := [], ps_stopped := True\<rparr>)"
    by (simp add: affordable_def)
qed (auto simp: affordable_def)

text \<open>A row costs the answered calls of its candidate, and one that ran into the time limit nothing.\<close>

definition row_priced :: "pass_env \<Rightarrow> judge_row \<Rightarrow> bool" where
  "row_priced e r \<longleftrightarrow>
     (if jr_method r = JUDGE_TIMEOUT_METHOD then jr_cost r = 0
      else \<exists>c as. cd_key c = jr_key r \<and> answered_calls (pe_call e c) as \<and> length as \<le> JUDGE_MAX_ATTEMPTS \<and>
             jr_attempts r = length as \<and> jr_cost r = calls_cost as)"

definition rows_cost :: "judge_row list \<Rightarrow> real" where
  "rows_cost rs = sum_list (map jr_cost rs)"

definition booked :: "pass_env \<Rightarrow> pass_state \<Rightarrow> bool" where
  "booked e st \<longleftrightarrow> ps_spend st = rows_cost (ps_rows st) \<and>
     (\<forall>m. price_within m e \<longrightarrow> (\<forall>r \<in> set (ps_rows st). row_priced e r))"

lemma cascade_method:
  "judge_with_cascade render ds call budget = Inr out \<Longrightarrow> co_method out \<noteq> JUDGE_TIMEOUT_METHOD"
  by (auto simp: judge_with_cascade_def stage_def all_failed_def JUDGE_TIMEOUT_METHOD_def Let_def
      split: if_splits sum.splits option.splits)

lemma judged_row_priced:
  assumes "price_within m e" "judge_candidate e c budget = Judged out"
  shows "row_priced e (judged_row e c out)"
proof -
  have j: "judge_with_cascade (pe_render e) (pe_dims e) (pe_call e c) budget = Inr out"
    using assms(2) by (auto simp: judge_candidate_def split: sum.splits prod.splits judge_fault.splits if_splits)
  from cascade_priced [of "pe_call e c" "pe_render e" "pe_dims e" budget] j
  obtain as where as: "answered_calls (pe_call e c) as" "co_attempts out = length as" "co_cost out = calls_cost as"
    by (auto simp: priced_end_def)
  have "good_end m budget 4 (Inr out :: (judge_fault \<times> cascade) + cascade_outcome)"
    using cascade_good [of m "pe_call e c" budget "pe_render e" "pe_dims e"] assms(1) j by (simp add: price_within_def)
  then have "length as \<le> JUDGE_MAX_ATTEMPTS" using as(2) by (simp add: good_end_def JUDGE_MAX_ATTEMPTS_def)
  then show ?thesis
    using as cascade_method [OF j]
    by (auto simp: row_priced_def judged_row_def jr_key_def cd_key_def intro!: exI [of _ c] exI [of _ as])
qed

interpretation books: pass_invariant e "booked e" for e
proof
  fix s p assume a: "booked e s" "p \<in> set (ps_pending s)"
  have t: "row_priced e (timeout_row e c k)" for c k by (simp add: row_priced_def timeout_row_def)
  have "jr_cost (timeout_row e c k) = 0" "jr_cost (judged_row e c out) = co_cost out" for c k out
    by (simp_all add: timeout_row_def judged_row_def)
  with a t judged_row_priced [of _ e "fst p" "snd p"]
  show "booked e (record_end e (fst p) (judge_candidate e (fst p) (snd p)) (s\<lparr>ps_pending := remove1 p (ps_pending s)\<rparr>))"
    by (auto simp: booked_def rows_cost_def record_end_def Let_def split: worker_end.split)
qed (auto simp: booked_def)

lemma distinct_moved:
  "distinct (as @ (xs @ x # ys) @ bs) \<Longrightarrow> distinct (as @ (xs @ ys) @ bs)"
  "distinct (as @ (xs @ x # ys) @ bs) \<Longrightarrow> distinct ((as @ [x]) @ (xs @ ys) @ bs)"
  by auto

interpretation keys: pass_invariant e "keys_once ks" for e ks
proof
  fix s p assume a: "keys_once ks s" "p \<in> set (ps_pending s)"
  let ?s = "s\<lparr>ps_pending := remove1 p (ps_pending s)\<rparr>"
  obtain xs ys where p: "ps_pending s = xs @ p # ys" "remove1 p (ps_pending s) = xs @ ys"
    by (metis a(2) remove1_split)
  have k: "ps_rows (record_end e (fst p) w ?s) = ps_rows s \<or>
      (\<exists>r. ps_rows (record_end e (fst p) w ?s) = ps_rows s @ [r] \<and> jr_key r = cd_key (fst p))" for w
    by (auto simp: record_end_def Let_def jr_key_def cd_key_def timeout_row_def judged_row_def split: worker_end.split)
  define w where "w = judge_candidate e (fst p) (snd p)"
  let ?f = "cd_key \<circ> fst" let ?q = "map cd_key (ps_queue s)" let ?r = "map jr_key (ps_rows s)"
  have d: "distinct (?r @ (map ?f xs @ cd_key (fst p) # map ?f ys) @ ?q)"
    "set (?r @ (map ?f xs @ cd_key (fst p) # map ?f ys) @ ?q) \<subseteq> ks"
    using a(1) by (simp_all only: keys_once_def keys_of_def p(1) map_append list.map comp_def)
  have "keys_of (record_end e (fst p) w ?s) = ?r @ (map ?f xs @ map ?f ys) @ ?q \<or>
      keys_of (record_end e (fst p) w ?s) = (?r @ [cd_key (fst p)]) @ (map ?f xs @ map ?f ys) @ ?q"
    using k [of w] by (auto simp: keys_of_def p(2))
  then show "keys_once ks (record_end e (fst p) (judge_candidate e (fst p) (snd p)) ?s)"
    unfolding w_def [symmetric] keys_once_def
  proof
    assume q: "keys_of (record_end e (fst p) w ?s) = ?r @ (map ?f xs @ map ?f ys) @ ?q"
    show "distinct (keys_of (record_end e (fst p) w ?s)) \<and> set (keys_of (record_end e (fst p) w ?s)) \<subseteq> ks"
      unfolding q using distinct_moved(1) [OF d(1)] d(2) by simp
  next
    assume q: "keys_of (record_end e (fst p) w ?s) = (?r @ [cd_key (fst p)]) @ (map ?f xs @ map ?f ys) @ ?q"
    show "distinct (keys_of (record_end e (fst p) w ?s)) \<and> set (keys_of (record_end e (fst p) w ?s)) \<subseteq> ks"
      unfolding q using distinct_moved(2) [OF d(1)] d(2) by simp
  qed
qed (auto simp: keys_once_def keys_of_def)

section \<open>The end of a pass\<close>

text \<open>Why the main thread submits no more.\<close>

definition settled :: "pass_env \<Rightarrow> pass_state \<Rightarrow> bool" where
  "settled e st = (ps_queue st = [] \<or> pe_workers e \<le> length (ps_pending st) \<or> ps_failure st \<noteq> None \<or> stop_requested e st)"

lemma stop_looked: "stop_requested e st \<Longrightarrow> stop_requested e (looked st)"
  by (auto simp: stop_requested_def looked_def split: option.splits)

lemma submit_settles: "settled e (submit_more e st)"
proof (induction "length (ps_queue st)" arbitrary: st rule: less_induct)
  case less
  show ?case
    using less stop_looked by (subst submit_more.simps) (auto simp: settled_def split: list.split)
qed

lemma loop_settles:
  "pass_loop e n st = Some st' \<Longrightarrow> settled e st \<Longrightarrow> ps_pending st' = [] \<and> (settled e st' \<or> ps_stopped st')"
proof (induction n arbitrary: st)
  case (Suc n)
  show ?case
  proof (cases "ps_pending st = [] \<or> stop_requested e st")
    case True
    then show ?thesis using Suc.prems by (auto split: if_splits)
  next
    case False
    then show ?thesis using Suc.IH [OF _ submit_settles] Suc.prems(1) by simp
  qed
qed simp

lemma pass_settles:
  assumes "judge_all e n selected = Some st" "0 < pe_workers e"
  shows "ps_pending st = []" "ps_queue st \<noteq> [] \<Longrightarrow> ps_failure st \<noteq> None \<or> ps_stopped st"
proof -
  obtain st1 where s: "pass_loop e n (submit_more e (initial_pass selected)) = Some st1" "st = end_of_loop e st1"
    using assms(1) by (auto simp: judge_all_def)
  note l = loop_settles [OF s(1) submit_settles]
  then show "ps_pending st = []" by (simp add: s(2) end_of_loop_def)
  show "ps_failure st \<noteq> None \<or> ps_stopped st" if "ps_queue st \<noteq> []"
    using l that assms(2) by (auto simp: s(2) end_of_loop_def settled_def split: if_splits)
qed

text \<open>
  C19: Every candidate of a pass is accounted for: in a pass that is neither aborted nor
  stopped, nothing is left in the queue or in flight, and the judged, the timed out, the failed calls, those without
  artifacts and those skipped over budget add up to the sample, whatever the order in which the
  workers come back.
\<close>

theorem pass_counts_every_candidate:
  assumes "judge_all e n selected = Some st" "0 < pe_workers e" "ps_failure st = None" "\<not> ps_stopped st"
  shows "ps_queue st = [] \<and> ps_pending st = [] \<and>
    length selected = ps_judged st + ps_over_budget st + ps_call_failed st + ps_timed_out st + ps_no_artifacts st"
proof -
  have "accounted (length selected) (initial_pass selected)" by (simp add: accounted_def initial_pass_def)
  from counts.holds_after [OF assms(1) this] pass_settles [OF assms(1,2)] assms(3,4) show ?thesis
    by (auto simp: accounted_def)
qed

lemma judged_spend_bounded:
  assumes "judge_all e n selected = Some st" "price_within m e" "0 < pe_max e"
  shows "ps_spend st < pe_max e + real (pe_workers e) * (4 * m)"
proof -
  have "0 \<le> real (pe_workers e) * (4 * m)" using assms(2) by (simp add: price_within_def)
  then have "0 < pe_max e + real (pe_workers e) * (4 * m)" using assms(3) by linarith
  then have "affordable m e (initial_pass selected)" unfolding affordable_def initial_pass_def by simp
  from money.holds_after [OF assms(1) this] have "ps_spend st + real (length (ps_pending st)) * (4 * m)
      < pe_max e + real (pe_workers e) * (4 * m)" using assms(2) by (simp add: affordable_def)
  moreover have "0 \<le> real (length (ps_pending st)) * (4 * m)" using assms(2) by (simp add: price_within_def)
  ultimately show ?thesis by linarith
qed

lemma end_pass_tables: "jw_table (end_pass k pr p w) = jw_table w" "jw_ledger (end_pass k pr p w) = jw_ledger w"
  by (simp_all add: end_pass_def release_pass_lock_def finalize_pass_keys_def)

lemma claim_tables: "claim_pass_lock p w = Some w1 \<Longrightarrow> jw_table w1 = jw_table w \<and> jw_ledger w1 = jw_ledger w"
  by (auto simp: claim_pass_lock_def split: if_splits)

lemma provision_tables: "jw_table (snd (provision_pass_keys how p w)) = jw_table w"
  "jw_ledger (snd (provision_pass_keys how p w)) = jw_ledger w"
  by (cases how; simp add: provision_pass_keys_def)+

text \<open>
  C20: A pass books what its judgments cost, and the bookings stay within the ceiling and four calls for
  every worker, however the workers interleave. Each row that a pass adds to the table costs the sum of
  the answered calls of its candidate, of which there are at most four, or nothing if it timed out; the rows
  together cost less than the ceiling and the price of four calls for each worker. A pass that finishes
  reports as its spend these rows and the synthesis, which its ledger row shows and which is only
  paid for while the rows are below the ceiling. (The calls of a candidate that ends without a
  judgment are in no row: \<open>broken_cascade_is_not_counted\<close> below.)
\<close>

theorem pass_spend_is_bounded:
  assumes "run_pass e n q how provisioning shuffle report cs w = Some (res, w')" "price_within m e" "0 < pe_max e"
  shows "\<exists>rows. jw_table w' = jw_table w @ rows \<and> (\<forall>r \<in> set rows. row_priced e r) \<and>
    rows_cost rows < pe_max e + real (pe_workers e) * (4 * m) \<and>
    (\<forall>st. res = Finished st \<longrightarrow>
       (\<exists>row. jw_ledger w' = jw_ledger w @ [row] \<and> ps_spend st = rows_cost rows + sg_synthesis_cost row \<and>
          (sg_synthesis_cost row \<noteq> 0 \<longrightarrow> sg_synthesis_cost row = report \<and> rows_cost rows < pe_max e)))"
proof -
  have none: ?thesis if "jw_table w' = jw_table w" "\<forall>st. res \<noteq> Finished st"
  proof -
    have "0 \<le> real (pe_workers e) * (4 * m)" using assms(2) by (simp add: price_within_def)
    then have "rows_cost [] < pe_max e + real (pe_workers e) * (4 * m)" using assms(3) by (simp only: rows_cost_def list.map sum_list.Nil)
    with that show ?thesis by (intro exI [of _ "[]"]) simp
  qed
  show ?thesis
  proof (cases "claim_pass_lock (pq_pass q) w")
    case None
    with assms(1) show ?thesis by (intro none) (auto simp: run_pass_def)
  next
    case (Some w1)
    obtain known w2 where w2: "provision_pass_keys how (pq_pass q) w1 = (known, w2)" by fastforce
    have tables: "jw_table w2 = jw_table w" "jw_ledger w2 = jw_ledger w"
      using claim_tables [OF Some] provision_tables [of how "pq_pass q" w1] by (simp_all add: w2)
    show ?thesis
    proof (cases known)
      case False
      with assms(1) tables show ?thesis by (intro none) (auto simp: run_pass_def Some w2 Let_def end_pass_tables)
    next
      case True
      define selected where "selected = fst (stratify shuffle (pq_share q) (pq_least q) (selection q (pe_run e) (jw_table w2) cs))"
      note run = assms(1) [unfolded run_pass_def Some w2 option.case Let_def case_prod_conv, folded selected_def]
      obtain st where st: "judge_all e n selected = Some st"
        using run True by (cases "judge_all e n selected") auto
      have "booked e (initial_pass selected)" by (simp add: booked_def initial_pass_def rows_cost_def)
      from books.holds_after [OF st this]
      have spend: "ps_spend st = rows_cost (ps_rows st)" and rows: "\<forall>r \<in> set (ps_rows st). row_priced e r"
        using assms(2) by (auto simp: booked_def)
      note bound = judged_spend_bounded [OF st assms(2,3), unfolded spend]
      show ?thesis
      proof (cases "ps_failure st")
        case (Some f)
        with run True st tables have "jw_table w' = jw_table w @ ps_rows st" "res = Aborted f"
          by (auto simp: end_pass_tables)
        with rows bound show ?thesis by auto
      next
        case None
        define c where "c = synthesis_cost e (jw_table w @ ps_rows st) report st"
        have c: "c \<noteq> 0 \<longrightarrow> c = report \<and> rows_cost (ps_rows st) < pe_max e"
          by (simp add: c_def synthesis_cost_def spend not_le)
        from None run True st tables
        have "jw_table w' = jw_table w @ ps_rows st"
          "\<exists>row. jw_ledger w' = jw_ledger w @ [row] \<and> sg_synthesis_cost row = c"
          "\<exists>st1. res = Finished st1 \<and> ps_spend st1 = ps_spend st + c"
          by (auto simp: end_pass_tables c_def close_counts_def)
        with rows bound c spend show ?thesis by (intro exI [of _ "ps_rows st"]) auto
      qed
    qed
  qed
qed

text \<open>
  What the pass reports as skipped over budget includes what an operator's stop left behind: the
  candidates that were never submitted are added to that count at the end, and without an abort there
  are any only after a stop, never because the ceiling was reached.
\<close>

theorem stop_counts_as_over_budget:
  assumes "judge_all e n selected = Some st" "0 < pe_workers e" "ps_failure st = None"
  shows "ps_over_budget (close_counts st) = ps_over_budget st + length (ps_queue st) \<and>
    (ps_queue st \<noteq> [] \<longrightarrow> ps_stopped st)"
  using pass_settles(2) [OF assms(1,2)] assms(3) by (auto simp: close_counts_def)

section \<open>A pass comes to an end\<close>

lemma come_back_length:
  "length (ps_pending (come_back e c st)) \<le> length (ps_pending st) \<and> ps_queue (come_back e c st) = ps_queue st \<and>
   (c \<in> fst ` set (ps_pending st) \<longrightarrow> length (ps_pending (come_back e c st)) < length (ps_pending st))"
proof (cases "find (\<lambda>p. fst p = c) (ps_pending st)")
  case None
  then have "c \<notin> fst ` set (ps_pending st)" by (auto simp: find_None_iff)
  with None show ?thesis by (simp add: come_back_def)
next
  case (Some p)
  then have "p \<in> set (ps_pending st)" by (auto simp: find_Some_iff)
  then have "length (remove1 p (ps_pending st)) < length (ps_pending st)"
    using length_pos_if_in_set [of p "ps_pending st"] by (simp add: length_remove1)
  with Some show ?thesis by (simp add: come_back_def)
qed

lemma fold_length:
  "length (ps_pending (fold (come_back e) cs st)) \<le> length (ps_pending st) \<and>
   ps_queue (fold (come_back e) cs st) = ps_queue st"
proof (induction cs arbitrary: st)
  case (Cons c cs)
  from Cons.IH [of "come_back e c st"] come_back_length [of e c st] show ?case by auto
qed simp

lemma fold_progress:
  assumes "set cs \<inter> fst ` set (ps_pending st) \<noteq> {}"
  shows "length (ps_pending (fold (come_back e) cs st)) < length (ps_pending st)"
  using assms
proof (induction cs arbitrary: st)
  case (Cons c cs)
  show ?case
  proof (cases "c \<in> fst ` set (ps_pending st)")
    case True
    then show ?thesis using come_back_length [of e c st] fold_length [of e cs "come_back e c st"] by auto
  next
    case False
    then have "find (\<lambda>p. fst p = c) (ps_pending st) = None" by (force simp: find_None_iff)
    then have "come_back e c st = st" by (simp add: come_back_def)
    then show ?thesis using Cons False by auto
  qed
qed simp

lemma submit_length:
  "length (ps_queue (submit_more e st)) + length (ps_pending (submit_more e st)) \<le> length (ps_queue st) + length (ps_pending st)"
  by (rule submit_keeps [of "\<lambda>s. length (ps_queue s) + length (ps_pending s) \<le> length (ps_queue st) + length (ps_pending st)"])
    auto

text \<open>
  C36: A pass ends: when of the workers in flight one comes back at every turn of the loop, as the time
  limit of the calls sees to, the loop ends within as many turns as there are candidates.
\<close>

theorem pass_comes_to_an_end:
  assumes "\<And>k cs. cs \<noteq> [] \<Longrightarrow> set (pe_back e k cs) \<inter> set cs \<noteq> {}"
  shows "\<exists>st. judge_all e (Suc (length selected)) selected = Some st"
proof -
  have "length (ps_queue st) + length (ps_pending st) < n \<Longrightarrow> \<exists>st'. pass_loop e n st = Some st'" for n st
  proof (induction n arbitrary: st)
    case (Suc n)
    show ?case
    proof (cases "ps_pending st = [] \<or> stop_requested e st")
      case False
      let ?f = "fold (come_back e) (pe_back e n (map fst (ps_pending st))) (looked st)"
      have "length (ps_pending ?f) < length (ps_pending st)"
        using fold_progress [of "pe_back e n (map fst (ps_pending st))" "looked st" e] assms [of "map fst (ps_pending st)" n] False
        by simp
      then have "length (ps_queue ?f) + length (ps_pending ?f) < n"
        using Suc.prems fold_length [of e "pe_back e n (map fst (ps_pending st))" "looked st"] by simp
      then have "length (ps_queue (submit_more e ?f)) + length (ps_pending (submit_more e ?f)) < n"
        using submit_length [of e ?f] by linarith
      from Suc.IH [OF this] False show ?thesis by simp
    qed auto
  qed simp
  moreover have "length (ps_queue (submit_more e (initial_pass selected))) +
      length (ps_pending (submit_more e (initial_pass selected))) < Suc (length selected)"
    using submit_length [of e "initial_pass selected"] by (auto simp: initial_pass_def)
  ultimately show ?thesis by (fastforce simp: judge_all_def)
qed

section \<open>The sample\<close>

definition stratum_members :: "candidate list \<Rightarrow> string \<times> string \<Rightarrow> candidate list" where
  "stratum_members cs s = filter (\<lambda>c. stratum_of c = s) cs"

text \<open>What the sample of the strata so far keeps.\<close>

definition sample_ok ::
    "nat \<Rightarrow> candidate list \<Rightarrow> (string \<times> string) list \<Rightarrow> candidate list \<times> ((string \<times> string) \<times> nat \<times> nat) list \<Rightarrow> bool" where
  "sample_ok least cs seen acc =
     (distinct (map cd_key (fst acc)) \<and> set (fst acc) \<subseteq> set cs \<and> set (filter cd_always cs) \<subseteq> set (fst acc) \<and>
      map fst (snd acc) = seen \<and>
      (\<forall>(s, n, k) \<in> set (snd acc). n = length (stratum_members cs s) \<and> k = length (stratum_members (fst acc) s) \<and> min least n \<le> k))"

lemma key_inj:
  assumes "distinct (map cd_key cs)" "c \<in> set cs" "d \<in> set cs" "cd_key c = cd_key d"
  shows "c = d"
  using assms by (metis distinct_map inj_onD)

lemma sample_target_bounds:
  "sample_target share least n already left \<le> left"
  "n \<le> already + left \<Longrightarrow> min least n \<le> already + sample_target share least n already left"
  by (auto simp: sample_target_def)

lemma sample_step:
  assumes "\<And>xs. mset (shuffle xs) = mset xs" "distinct (map cd_key cs)" "sample_ok least cs seen acc" "s \<notin> set seen"
  shows "sample_ok least cs (seen @ [s]) (sample_stratum shuffle share least cs s acc)"
proof -
  obtain chosen counts where acc: "acc = (chosen, counts)" by fastforce
  have ok: "distinct (map cd_key chosen)" "set chosen \<subseteq> set cs" "set (filter cd_always cs) \<subseteq> set chosen"
    "map fst counts = seen"
    "\<And>s n k. (s, n, k) \<in> set counts \<Longrightarrow> n = length (stratum_members cs s) \<and> k = length (stratum_members chosen s) \<and> min least n \<le> k"
    using assms(3) unfolding sample_ok_def acc by auto
  define members where "members = stratum_members cs s"
  define old where "old = filter (\<lambda>c. cd_key c \<in> cd_key ` set chosen) members"
  define new where "new = filter (\<lambda>c. cd_key c \<notin> cd_key ` set chosen) members"
  define picked where "picked = take (sample_target share least (length members) (length old) (length (shuffle new))) (shuffle new)"
  have r: "sample_stratum shuffle share least cs s acc =
      (chosen @ picked, counts @ [(s, length members, length old + length picked)])"
    by (simp add: sample_stratum_def acc Let_def picked_def new_def old_def members_def stratum_members_def)
  have sh: "set (shuffle xs) = set xs" "length (shuffle xs) = length xs" for xs
    using assms(1) [of xs] by (metis mset_eq_setD, metis mset_eq_length)
  have sd: "distinct (map cd_key (shuffle xs))" if "distinct (map cd_key xs)" for xs
    using that assms(1) [of xs] by (metis mset_eq_imp_distinct_iff mset_map)
  have dm: "distinct (map cd_key members)" "set members \<subseteq> set cs" "\<And>c. c \<in> set members \<Longrightarrow> stratum_of c = s"
    using assms(2) by (auto simp: members_def stratum_members_def intro: distinct_map_filter)
  have pk: "set picked \<subseteq> set new" "distinct (map cd_key picked)"
    using sh(1) [of new] sd [of new] dm(1) set_take_subset [of _ "shuffle new"]
    by (auto simp: picked_def new_def take_map [symmetric] intro!: distinct_take intro: distinct_map_filter)
  have d: "distinct (map cd_key (chosen @ picked))" using ok(1) pk by (auto simp: new_def)
  have lens: "length (shuffle new) = length new" "length old + length new = length members"
    using sh(2) sum_length_filter_compl [of "\<lambda>c. cd_key c \<in> cd_key ` set chosen" members]
    by (auto simp: old_def new_def)
  have "c \<in> set chosen" if c: "c \<in> set cs" "cd_key c \<in> cd_key ` set chosen" for c
  proof -
    obtain d where "d \<in> set chosen" "cd_key c = cd_key d" using c(2) by blast
    with key_inj [OF assms(2) c(1)] ok(2) show ?thesis by blast
  qed
  then have same: "set (stratum_members chosen s) = set old"
    using ok(2) by (auto simp: stratum_members_def old_def members_def)
  have "distinct old" "distinct (stratum_members chosen s)"
    using dm(1) ok(1) by (auto simp: old_def stratum_members_def distinct_map)
  then have "length old = length (stratum_members chosen s)" using same by (metis distinct_card)
  moreover have "stratum_members picked s = picked" "\<And>s'. s' \<noteq> s \<Longrightarrow> stratum_members picked s' = []"
    using pk(1) dm(3) by (auto simp: stratum_members_def new_def filter_id_conv filter_empty_conv)
  moreover have "min least (length members) \<le> length old + length picked"
    using sample_target_bounds(2) [of "length members" "length old" "length new" least share]
      sample_target_bounds(1) [of share least "length members" "length old" "length new"] lens
    by (simp add: picked_def)
  moreover have "s' \<noteq> s" if "(s', n, k) \<in> set counts" for s' n k
    using that ok(4) assms(4) by force
  ultimately have "\<forall>(s', n, k) \<in> set (counts @ [(s, length members, length old + length picked)]).
      n = length (stratum_members cs s') \<and> k = length (stratum_members (chosen @ picked) s') \<and> min least n \<le> k"
    using ok(5) by (auto simp: stratum_members_def members_def)
  then show ?thesis
    unfolding r sample_ok_def using d ok(2,3,4) pk(1) dm(2) by (auto simp: new_def)
qed

lemma stratify_ok:
  assumes "\<And>xs. mset (shuffle xs) = mset xs" "distinct (map cd_key cs)"
  shows "sample_ok least cs (strata_of cs) (stratify shuffle share least cs)"
proof -
  have "sample_ok least cs (seen @ ss) (fold (sample_stratum shuffle share least cs) ss acc)"
    if "distinct (seen @ ss)" "sample_ok least cs seen acc" for seen ss acc
    using that
  proof (induction ss arbitrary: seen acc)
    case (Cons s ss)
    have n: "s \<notin> set seen" using Cons.prems(1) by simp
    have "sample_ok least cs (seen @ [s]) (sample_stratum shuffle share least cs s acc)"
      by (rule sample_step [where shuffle = shuffle, OF assms Cons.prems(2) n])
    from Cons.IH [OF _ this] Cons.prems(1) show ?case by simp
  qed simp
  moreover have "distinct ([] @ strata_of cs)" by (simp add: strata_of_def)
  moreover have "sample_ok least cs [] (filter cd_always cs, [])"
    using assms(2) by (auto simp: sample_ok_def intro: distinct_map_filter)
  ultimately have "sample_ok least cs ([] @ strata_of cs) (stratify shuffle share least cs)"
    unfolding stratify_def by blast
  then show ?thesis by simp
qed

text \<open>
  The sample is what the design asks for: with candidates of distinct keys and any shuffle, nobody is
  drawn twice, everybody marked for judgment is drawn, and every stratum that occurs is reported once with its
  size and with the number drawn from it, which reaches the floor unless the stratum is smaller.
\<close>

theorem sample_covers_every_stratum:
  assumes "\<And>xs. mset (shuffle xs) = mset xs" "distinct (map cd_key cs)" "stratify shuffle share least cs = (chosen, counts)"
  shows "distinct (map cd_key chosen) \<and> set chosen \<subseteq> set cs \<and> set (filter cd_always cs) \<subseteq> set chosen \<and>
    map fst counts = strata_of cs \<and>
    (\<forall>(s, n, k) \<in> set counts. n = length (stratum_members cs s) \<and> k = length (stratum_members chosen s) \<and> min least n \<le> k)"
  using stratify_ok [where shuffle = shuffle, OF assms(1,2), of least share] unfolding assms(3) sample_ok_def by simp

section \<open>The lock, the keys and what is recorded\<close>

lemmas world_defs = claim_pass_lock_def release_pass_lock_def provision_pass_keys_def finalize_pass_keys_def end_pass_def

text \<open>
  However a pass ends, by its last candidate, a stop, an abort or keys that could not be minted, it
  gives the lock back; a pass that got its keys leaves none of them alive when the provider
  can be reached at the end, and a pass that finds the lock taken changes nothing.
\<close>

theorem pass_gives_everything_back:
  assumes "run_pass e n q how provisioning shuffle report cs w = Some (res, w')"
  shows "(case jw_lock w of Some p \<Rightarrow> res = Locked \<and> w' = w
    | None \<Rightarrow> jw_lock w' = None \<and>
        (res \<noteq> Provision_failed \<and> provisioning \<longrightarrow> pq_pass q \<notin> set (jw_virtual w') \<and> pq_pass q \<notin> set (jw_provider w')))"
proof (cases "jw_lock w")
  case None
  then show ?thesis
  proof (cases how)
    case Minted
    show ?thesis
      using assms None Minted
      by (auto simp: run_pass_def world_defs Let_def split: option.splits)
  qed (use assms in \<open>auto simp: run_pass_def world_defs Let_def\<close>)
qed (use assms in \<open>auto simp: run_pass_def claim_pass_lock_def\<close>)

text \<open>
  A mint that fails after the first key strands it: the pass ends without the names of its keys, so
  the key of the gateway stays alive, and only a clean-up by hand finds it.
\<close>

theorem failed_judge_mint_strands_a_key:
  assumes "jw_lock w = None" "how \<in> {Mint_failed, Rotation_failed}"
  shows "\<exists>w'. run_pass e n q how provisioning shuffle report cs w = Some (Provision_failed, w') \<and>
    pq_pass q \<in> set (jw_virtual w')"
  using assms by (auto simp: run_pass_def world_defs)

text \<open>
  C21: A resumed pass judges nobody twice: with candidates of distinct keys and any shuffle, the rows a
  pass adds name every candidate at most once, and none that had a row before; what was recorded stays.
\<close>

theorem resumed_pass_judges_once:
  assumes "run_pass e n q how provisioning shuffle report cs w = Some (res, w')" "\<not> pq_rejudge q" "\<not> pq_retry q"
    and "distinct (map cd_key cs)" "\<And>xs. mset (shuffle xs) = mset xs"
  shows "\<exists>rows. jw_table w' = jw_table w @ rows \<and> distinct (map jr_key rows) \<and>
    (\<forall>r \<in> set rows. latest_judgment (jw_table w) (pe_run e) (jr_key r) = None \<and> jr_key r \<in> cd_key ` set cs)"
proof (cases "jw_lock w = None \<and> how = Minted")
  case True
  define fresh where "fresh = selection q (pe_run e) (jw_table w) cs"
  define selected where "selected = fst (stratify shuffle (pq_share q) (pq_least q) fresh)"
  obtain st where st: "judge_all e n selected = Some st" "jw_table w' = jw_table w @ ps_rows st"
    using assms(1) True
    by (auto simp: run_pass_def world_defs Let_def fresh_def selected_def split: option.splits)
  have "fresh = [] \<or> fresh = drop_already_judged (jw_table w) (pe_run e) False cs"
    using assms(2,3) by (auto simp: fresh_def selection_def)
  then have f: "distinct (map cd_key fresh)" "\<And>c. c \<in> set fresh \<Longrightarrow> c \<in> set cs \<and> latest_judgment (jw_table w) (pe_run e) (cd_key c) = None"
    using assms(4) by (auto simp: drop_already_judged_def intro: distinct_map_filter split: option.splits)
  have s: "distinct (map cd_key selected)" "set selected \<subseteq> set fresh"
    using stratify_ok [where shuffle = shuffle, OF assms(5) f(1), of "pq_least q" "pq_share q"] by (simp_all add: sample_ok_def selected_def)
  have "keys_once (cd_key ` set selected) (initial_pass selected)"
    using s(1) by (simp add: keys_once_def keys_of_def initial_pass_def)
  from keys.holds_after [OF st(1) this] have "distinct (map jr_key (ps_rows st))" "jr_key ` set (ps_rows st) \<subseteq> cd_key ` set selected"
    by (auto simp: keys_once_def keys_of_def)
  note rows = this
  show ?thesis
  proof (intro exI conjI ballI)
    show "jw_table w' = jw_table w @ ps_rows st" by (rule st(2))
    show "distinct (map jr_key (ps_rows st))" by (rule rows(1))
  next
    fix r assume "r \<in> set (ps_rows st)"
    then obtain c where c: "c \<in> set selected" "jr_key r = cd_key c" using rows(2) by blast
    with s(2) f(2) [of c] show "latest_judgment (jw_table w) (pe_run e) (jr_key r) = None" "jr_key r \<in> cd_key ` set cs"
      by auto
  qed
next
  case False
  then have "jw_table w' = jw_table w"
    using assms(1) by (cases how) (auto simp: run_pass_def world_defs Let_def split: option.splits if_splits)
  then show ?thesis by simp
qed

text \<open>
  Money spent on a cascade that breaks is not seen: where the first call was answered and paid for but
  scored nothing and the next one gets no answer, the candidate leaves no row and no cost, and the ceiling
  of the pass does not count it.
\<close>

theorem broken_cascade_is_not_counted:
  assumes "pe_fetched e c" "pe_call e c ''primary'' = Inr r" "cr_parsed r = None" "pe_call e c ''retry'' = Inl (No_answer k)"
    and "cr_cost r < budget"
  shows "ps_spend (record_end e c (judge_candidate e c budget) st) = ps_spend st \<and>
    ps_rows (record_end e c (judge_candidate e c budget) st) = ps_rows st"
proof -
  have "judge_candidate e c budget = Call_unanswered"
    using assms
    by (simp add: judge_candidate_def judge_with_cascade_def stage_def answer_scores_def count_scored_dimensions_def
        budget_left_def JUDGE_MAX_ATTEMPTS_def Let_def)
  then show ?thesis by (simp add: record_end_def Let_def)
qed

section \<open>Instances\<close>

definition demo_candidate :: "string \<Rightarrow> candidate" where
  "demo_candidate i = \<lparr>cd_instance = i, cd_attempt = 1, cd_harness = ''h'', cd_outcome = ''resolved'', cd_patch = None,
     cd_trajectory = Some ''t'', cd_leaked = None, cd_always = False\<rparr>"

definition demo_answer :: "string \<Rightarrow> judge_fault + judge_answer" where
  "demo_answer k = Inr \<lparr>cr_parsed = Some (demo_judgment (JsInt 0)), cr_reasoning = [], cr_cost = 1\<rparr>"

definition demo_pass :: "nat option \<Rightarrow> pass_env" where
  "demo_pass stop = \<lparr>pe_run = ''r'', pe_render = (\<lambda>v. []), pe_dims = [demo_dimension], pe_max = 10, pe_workers = 1,
     pe_fetched = (\<lambda>c. True), pe_call = (\<lambda>c. demo_answer), pe_back = (\<lambda>k cs. cs), pe_stop_at = stop\<rparr>"

definition demo_request :: pass_request where
  "demo_request = \<lparr>pq_pass = ''p'', pq_rejudge = False, pq_retry = False, pq_only = False, pq_share = 1, pq_least = 5\<rparr>"

definition demo_world :: judge_world where
  "demo_world = \<lparr>jw_lock = None, jw_virtual = [], jw_provider = [], jw_table = [], jw_ledger = []\<rparr>"

lemma demo_costs: "costs_within 1 demo_answer"
  by (simp add: costs_within_def demo_answer_def)

lemma demo_price: "price_within 1 (demo_pass stop)"
  by (simp add: price_within_def demo_pass_def demo_costs)

lemma demo_scores: "\<exists>s. parse_all_dimensions (\<lambda>v. []) [demo_dimension] (demo_judgment (JsInt 0)) = Some [s] \<and> \<not> ds_missing_reasoning s"
  by (simp add: demo_parse_defs strip_def is_space_def)

lemma demo_cascade: "\<exists>out. judge_with_cascade (\<lambda>v. []) [demo_dimension] demo_answer b = Inr out \<and> co_cost out = 1 \<and>
   co_attempts out = 1 \<and> \<not> co_parse_failed out"
  using demo_scores
  by (auto simp: judge_with_cascade_def stage_def demo_answer_def answer_scores_def count_scored_dimensions_def Let_def)

lemma demo_judged: "\<exists>out. judge_candidate (demo_pass stop) c b = Judged out \<and> co_cost out = 1 \<and> \<not> co_parse_failed out"
  using demo_cascade [of b] by (auto simp: judge_candidate_def demo_pass_def)

lemma demo_one:
  "\<exists>st. judge_all (demo_pass None) 2 [demo_candidate ''i''] = Some st \<and> ps_failure st = None \<and> \<not> ps_stopped st \<and>
     ps_judged st = 1 \<and> ps_queue st = [] \<and> ps_spend st = 1 \<and> ps_rows st \<noteq> []"
proof -
  let ?e = "demo_pass None"
  have s: "stop_requested ?e st = False" for st by (simp add: stop_requested_def demo_pass_def)
  have p: "pe_workers ?e = 1" "pe_max ?e = 10" "pe_back ?e = (\<lambda>k cs. cs)" by (simp_all add: demo_pass_def)
  define st1 where "st1 = (looked (initial_pass [demo_candidate ''i'']))\<lparr>ps_queue := [], ps_pending := [(demo_candidate ''i'', 10)]\<rparr>"
  have s1: "submit_more ?e (initial_pass [demo_candidate ''i'']) = st1"
    by (subst submit_more.simps, simp add: initial_pass_def s p, subst submit_more.simps)
      (simp add: st1_def initial_pass_def looked_def)
  obtain out where j: "judge_candidate ?e (demo_candidate ''i'') 10 = Judged out" "co_cost out = 1" "\<not> co_parse_failed out"
    using demo_judged by blast
  have q: "ps_queue st = [] \<Longrightarrow> submit_more ?e st = st" for st by (subst submit_more.simps) simp
  show ?thesis
    unfolding judge_all_def s1
    by (simp add: numeral_2_eq_2 s p q come_back_def st1_def j record_end_def end_of_loop_def Let_def looked_def
        initial_pass_def judged_row_def)
qed

theorem cascade_is_bounded_witness:
  "\<exists>out. judge_with_cascade (\<lambda>v. []) [demo_dimension] demo_answer 5 = Inr out \<and> co_attempts out \<le> JUDGE_MAX_ATTEMPTS"
proof -
  obtain out where o: "judge_with_cascade (\<lambda>v. []) [demo_dimension] demo_answer 5 = Inr out" using demo_cascade by blast
  from cascade_is_bounded [OF demo_costs _ o] o show ?thesis by auto
qed

theorem pass_counts_every_candidate_witness:
  "\<exists>st. judge_all (demo_pass None) 2 [demo_candidate ''i''] = Some st \<and> ps_judged st = 1 \<and> ps_over_budget st = 0"
proof -
  obtain st where st: "judge_all (demo_pass None) 2 [demo_candidate ''i''] = Some st" "ps_failure st = None" "\<not> ps_stopped st"
    "ps_judged st = 1" using demo_one by blast
  have "0 < pe_workers (demo_pass None)" by (simp add: demo_pass_def)
  from pass_counts_every_candidate [OF st(1) this st(2,3)] st show ?thesis by auto
qed

theorem stop_counts_as_over_budget_witness:
  "\<exists>st. judge_all (demo_pass (Some 0)) 1 [demo_candidate ''i''] = Some st \<and> ps_stopped st \<and> ps_over_budget (close_counts st) = 1"
proof -
  let ?e = "demo_pass (Some 0)"
  have st: "judge_all ?e 1 [demo_candidate ''i''] = Some (end_of_loop ?e (looked (initial_pass [demo_candidate ''i''])))"
    by (subst (1) judge_all_def, subst submit_more.simps) (simp add: initial_pass_def demo_pass_def stop_requested_def looked_def)
  have f: "0 < pe_workers ?e" "ps_failure (end_of_loop ?e (looked (initial_pass [demo_candidate ''i'']))) = None"
    "ps_queue (end_of_loop ?e (looked (initial_pass [demo_candidate ''i'']))) = [demo_candidate ''i'']"
    "ps_over_budget (end_of_loop ?e (looked (initial_pass [demo_candidate ''i'']))) = 0"
    by (simp_all add: demo_pass_def end_of_loop_def initial_pass_def looked_def)
  from stop_counts_as_over_budget [OF st f(1,2)] st f(3,4) show ?thesis by auto
qed

theorem pass_comes_to_an_end_witness:
  "\<exists>st. judge_all (demo_pass None) 3 [demo_candidate ''i'', demo_candidate ''j''] = Some st"
proof -
  have "set (pe_back (demo_pass None) k cs) \<inter> set cs \<noteq> {}" if "cs \<noteq> []" for k cs using that by (simp add: demo_pass_def)
  from pass_comes_to_an_end [of "demo_pass None" "[demo_candidate ''i'', demo_candidate ''j'']", OF this]
  show ?thesis by (simp add: numeral_3_eq_3 numeral_2_eq_2)
qed

theorem sample_covers_every_stratum_witness:
  "\<exists>chosen counts. stratify (\<lambda>xs. xs) 1 5 [demo_candidate ''i''] = (chosen, counts) \<and> distinct (map cd_key chosen) \<and>
     map fst counts = [(''h'', ''resolved'')]"
proof -
  obtain chosen counts where s: "stratify (\<lambda>xs. xs) 1 5 [demo_candidate ''i''] = (chosen, counts)" by fastforce
  have d: "distinct (map cd_key [demo_candidate ''i''])" by simp
  have "strata_of [demo_candidate ''i''] = [(''h'', ''resolved'')]"
    by (simp add: strata_of_def stratum_of_def demo_candidate_def)
  with sample_covers_every_stratum [where shuffle = "\<lambda>xs. xs", OF refl d s] s show ?thesis by auto
qed

lemma demo_judge_run:
  "\<exists>res w'. run_pass (demo_pass None) 2 demo_request Minted True (\<lambda>xs. xs) 0 [demo_candidate ''i''] demo_world = Some (res, w') \<and>
     res \<noteq> Provision_failed \<and> jw_table w' \<noteq> []"
proof -
  have f: "fst (stratify (\<lambda>xs. xs) 1 5 [demo_candidate ''i'']) = [demo_candidate ''i'']"
    by (simp add: stratify_def strata_of_def sample_stratum_def sample_target_def stratum_of_def demo_candidate_def cd_key_def)
  obtain st where st: "judge_all (demo_pass None) 2 [demo_candidate ''i''] = Some st" "ps_failure st = None" "ps_rows st \<noteq> []"
    using demo_one by blast
  have s: "selection demo_request x [] [demo_candidate ''i''] = [demo_candidate ''i'']" for x
    by (simp add: selection_def demo_request_def drop_already_judged_def latest_judgment_def)
  have q: "pq_share demo_request = 1" "pq_least demo_request = 5" by (simp_all add: demo_request_def)
  show ?thesis
    by (simp add: run_pass_def world_defs demo_world_def Let_def s q f st)
qed

theorem pass_spend_is_bounded_witness:
  "\<exists>res w'. run_pass (demo_pass None) 2 demo_request Minted True (\<lambda>xs. xs) 0 [demo_candidate ''i''] demo_world = Some (res, w') \<and>
     jw_table w' \<noteq> [] \<and> rows_cost (jw_table w') < 14"
proof -
  obtain res w' where r: "run_pass (demo_pass None) 2 demo_request Minted True (\<lambda>xs. xs) 0 [demo_candidate ''i''] demo_world = Some (res, w')"
    "jw_table w' \<noteq> []" using demo_judge_run by blast
  have "0 < pe_max (demo_pass None)" by (simp add: demo_pass_def)
  from pass_spend_is_bounded [OF r(1) demo_price this] r show ?thesis by (auto simp: demo_pass_def demo_world_def)
qed

theorem pass_gives_everything_back_witness:
  "\<exists>res w'. run_pass (demo_pass None) 2 demo_request Minted True (\<lambda>xs. xs) 0 [demo_candidate ''i''] demo_world = Some (res, w') \<and>
     jw_lock w' = None \<and> ''p'' \<notin> set (jw_virtual w')"
proof -
  obtain res w' where r: "run_pass (demo_pass None) 2 demo_request Minted True (\<lambda>xs. xs) 0 [demo_candidate ''i''] demo_world = Some (res, w')"
    "res \<noteq> Provision_failed" using demo_judge_run by blast
  from pass_gives_everything_back [OF r(1)] r show ?thesis by (auto simp: demo_world_def demo_request_def)
qed

theorem failed_judge_mint_strands_a_key_witness:
  "\<exists>w'. run_pass (demo_pass None) 2 demo_request Mint_failed True (\<lambda>xs. xs) 0 [] demo_world = Some (Provision_failed, w') \<and>
     ''p'' \<in> set (jw_virtual w')"
  using failed_judge_mint_strands_a_key [of demo_world Mint_failed "demo_pass None" 2 demo_request True "\<lambda>xs. xs" 0 "[]"]
  by (auto simp: demo_world_def demo_request_def)

theorem resumed_pass_judges_once_witness:
  "\<exists>res w'. run_pass (demo_pass None) 2 demo_request Minted True (\<lambda>xs. xs) 0 [demo_candidate ''i''] demo_world = Some (res, w') \<and>
     jw_table w' \<noteq> [] \<and> distinct (map jr_key (jw_table w'))"
proof -
  obtain res w' where r: "run_pass (demo_pass None) 2 demo_request Minted True (\<lambda>xs. xs) 0 [demo_candidate ''i''] demo_world = Some (res, w')"
    "jw_table w' \<noteq> []" using demo_judge_run by blast
  have d: "distinct (map cd_key [demo_candidate ''i''])" by simp
  have "\<not> pq_rejudge demo_request" "\<not> pq_retry demo_request" by (simp_all add: demo_request_def)
  from resumed_pass_judges_once [where shuffle = "\<lambda>xs. xs", OF r(1) this d refl] r show ?thesis by (auto simp: demo_world_def)
qed

theorem broken_cascade_is_not_counted_witness:
  "\<exists>e. ps_spend (record_end e (demo_candidate ''i'') (judge_candidate e (demo_candidate ''i'') 5) (initial_pass [])) = 0"
proof -
  define e where "e = (demo_pass None)\<lparr>pe_call := (\<lambda>c k. if k = ''primary'' then
    Inr \<lparr>cr_parsed = None, cr_reasoning = [], cr_cost = 1\<rparr> else Inl (No_answer 6))\<rparr>"
  from broken_cascade_is_not_counted [of e "demo_candidate ''i''" "\<lparr>cr_parsed = None, cr_reasoning = [], cr_cost = 1\<rparr>" 6 5 "initial_pass []"]
  show ?thesis by (intro exI [of _ e]) (simp add: e_def demo_pass_def initial_pass_def)
qed

end
