(* ===== verification/Worker_Timing.thy ===== *)
theory Worker_Timing
  imports Shim_Requests Job_Messages
begin

text \<open>
  The phase times of \<open>workers/timing.py\<close>: time stamps as numbers, as texts of digits and as dates, the span
  between two of them, the attributes of a queue message and the metadata of an ECS task. The date
  parser is an argument; a text of digits too long for a float is not told apart. What could not be
  measured is \<open>None\<close>.
\<close>

section \<open>Time stamps\<close>

text \<open>Milliseconds become seconds.\<close>

fun as_seconds :: "pyfloat \<Rightarrow> pyfloat" where
  "as_seconds (Fin x) = Fin (if 10 ^ 12 \<le> x then x / 1000 else x)"
| "as_seconds v = v"

fun epoch :: "(string \<Rightarrow> real option) \<Rightarrow> json \<Rightarrow> pyfloat option" where
  "epoch from_date (JsInt n) = Some (as_seconds (Fin (of_int n)))"
| "epoch from_date (JsFloat x) = Some (as_seconds x)"
| "epoch from_date (JsBool b) = Some (Fin (if b then 1 else 0))"
| "epoch from_date (JsStr t) =
     (let s = strip t
      in if s = [] then None
         else if list_all is_digit s then Some (as_seconds (Fin (real (digits_val s))))
         else map_option Fin (from_date s))"
| "epoch from_date v = None"

fun float_minus :: "pyfloat \<Rightarrow> pyfloat \<Rightarrow> pyfloat" where
  "float_minus (Fin x) (Fin y) = Fin (x - y)"
| "float_minus (Fin x) PosInf = NegInf"
| "float_minus (Fin x) NegInf = PosInf"
| "float_minus PosInf (Fin y) = PosInf"
| "float_minus PosInf NegInf = PosInf"
| "float_minus NegInf (Fin y) = NegInf"
| "float_minus NegInf PosInf = NegInf"
| "float_minus x y = NaN"

fun not_negative :: "pyfloat \<Rightarrow> bool" where
  "not_negative (Fin x) = (0 \<le> x)"
| "not_negative PosInf = True"
| "not_negative v = False"

definition seconds_between :: "(string \<Rightarrow> real option) \<Rightarrow> json \<Rightarrow> json \<Rightarrow> pyfloat option" where
  "seconds_between from_date start stop =
     (case (epoch from_date start, epoch from_date stop) of
        (Some a, Some b) \<Rightarrow> (let d = float_minus b a in if not_negative d then Some d else None)
      | _ \<Rightarrow> None)"

definition opt_stamp :: "pyfloat option \<Rightarrow> json" where
  "opt_stamp x = (case x of None \<Rightarrow> JsNull | Some v \<Rightarrow> JsFloat v)"

text \<open>When a message was sent and first received.\<close>

definition parse_sqs_attributes ::
    "(string \<Rightarrow> real option) \<Rightarrow> (string \<times> string) list \<Rightarrow> pyfloat option \<times> pyfloat option" where
  "parse_sqs_attributes from_date attributes =
     (let stamp = (\<lambda>k. epoch from_date (case map_of attributes k of None \<Rightarrow> JsNull | Some t \<Rightarrow> JsStr t))
      in (stamp ''SentTimestamp'', stamp ''ApproximateFirstReceiveTimestamp''))"

definition queue_wait :: "(string \<Rightarrow> real option) \<Rightarrow> (string \<times> string) list \<Rightarrow> pyfloat option" where
  "queue_wait from_date attributes =
     (let (sent, received) = parse_sqs_attributes from_date attributes
      in seconds_between from_date (opt_stamp sent) (opt_stamp received))"

section \<open>The metadata of a task\<close>

record task_timing =
  tt_pull_started :: "pyfloat option"
  tt_pull_stopped :: "pyfloat option"
  tt_created :: "pyfloat option"
  tt_started :: "pyfloat option"

definition image_pull_cold :: "task_timing \<Rightarrow> bool option" where
  "image_pull_cold t = (if tt_pull_started t = None then None else Some True)"

definition image_pull_s :: "(string \<Rightarrow> real option) \<Rightarrow> task_timing \<Rightarrow> pyfloat option" where
  "image_pull_s from_date t = seconds_between from_date (opt_stamp (tt_pull_started t)) (opt_stamp (tt_pull_stopped t))"

text \<open>The first container of a task; \<open>None\<close> is an exception.\<close>

definition first_container :: "json \<Rightarrow> (string \<times> json) list option" where
  "first_container v =
     (if \<not> js_truth v then Some []
      else case v of JsList (JsObj kvs # _) \<Rightarrow> Some kvs | _ \<Rightarrow> None)"

definition parse_task_metadata :: "(string \<Rightarrow> real option) \<Rightarrow> (string \<times> json) list \<Rightarrow> task_timing option" where
  "parse_task_metadata from_date kvs =
     (case first_container (obj_get kvs ''containers'') of
        None \<Rightarrow> None
      | Some c \<Rightarrow>
          (let stamp = (\<lambda>o1 a b. epoch from_date (js_or (obj_get o1 a) (obj_get o1 b)))
           in Some \<lparr>tt_pull_started = stamp kvs ''pullStartedAt'' ''PullStartedAt'',
                tt_pull_stopped = stamp kvs ''pullStoppedAt'' ''PullStoppedAt'',
                tt_created = stamp c ''createdAt'' ''CreatedAt'',
                tt_started = stamp c ''startedAt'' ''StartedAt''\<rparr>))"

text \<open>The endpoint's address is set under ECS only; a failed request and a reply that does not parse give nothing.\<close>

definition fetch_task_metadata ::
    "(string \<Rightarrow> real option) \<Rightarrow> (string \<Rightarrow> json option) \<Rightarrow> (string \<Rightarrow> string option) \<Rightarrow> string option \<Rightarrow> task_timing option" where
  "fetch_task_metadata from_date loads get uri =
     (case uri of
        None \<Rightarrow> None
      | Some u \<Rightarrow>
          (if u = [] then None
           else case get u of
               None \<Rightarrow> None
             | Some text1 \<Rightarrow> parse_task_metadata from_date (case loads text1 of Some (JsObj kvs) \<Rightarrow> kvs | _ \<Rightarrow> [])))"

section \<open>Facts\<close>

lemma seconds_between_measured:
  "seconds_between from_date a b = Some d \<Longrightarrow>
     not_negative d \<and> (\<exists>x y. epoch from_date a = Some x \<and> epoch from_date b = Some y \<and> d = float_minus y x)"
  by (auto simp: seconds_between_def Let_def split: option.splits if_splits)

lemma digits_val_strip:
  "list_all is_digit s \<Longrightarrow> s \<noteq> [] \<Longrightarrow> epoch from_date (JsStr s) = Some (as_seconds (Fin (real (digits_val s))))"
  using strip_id [OF digits_not_space [of s]] by simp

lemma millis_text:
  assumes "10 ^ 12 \<le> n" "n < 10 ^ 15"
  shows "epoch from_date (JsStr (nat_text n)) = Some (Fin (real n / 1000))"
    and "as_seconds (Fin (real n / 1000)) = Fin (real n / 1000)"
proof -
  have "10 ^ 12 \<le> real n" "real n < 10 ^ 15"
    using assms of_nat_le_iff [of "10 ^ 12" n, where 'a = real] of_nat_less_iff [of n "10 ^ 15", where 'a = real] by simp_all
  then show "epoch from_date (JsStr (nat_text n)) = Some (Fin (real n / 1000))"
      "as_seconds (Fin (real n / 1000)) = Fin (real n / 1000)"
    using nat_text_digits [of n] by (simp_all add: digits_val_strip digits_val_nat_text del: epoch.simps)
qed

text \<open>
  The wait in the queue is measured or absent, never invented: for a message with both stamps in
  milliseconds it is their difference in seconds, absent where the second stamp is the earlier one, and
  absent where a stamp is missing; and no span is ever negative, whatever the stamps are.
\<close>

theorem queue_wait_is_the_difference:
  assumes "map_of attributes ''SentTimestamp'' = Some (nat_text n)"
    and "map_of attributes ''ApproximateFirstReceiveTimestamp'' = map_option nat_text received"
    and "10 ^ 12 \<le> n \<and> n < 10 ^ 15" "\<And>m. received = Some m \<Longrightarrow> 10 ^ 12 \<le> m \<and> m < 10 ^ 15"
  shows "queue_wait from_date attributes =
      (case received of None \<Rightarrow> None | Some m \<Rightarrow> if n \<le> m then Some (Fin ((real m - real n) / 1000)) else None) \<and>
    (case seconds_between from_date a b of None \<Rightarrow> True | Some d \<Rightarrow> not_negative d)"
proof
  show "queue_wait from_date attributes =
      (case received of None \<Rightarrow> None | Some m \<Rightarrow> if n \<le> m then Some (Fin ((real m - real n) / 1000)) else None)"
  proof (cases received)
    case None
    with assms(1-3) show ?thesis
      by (simp add: queue_wait_def parse_sqs_attributes_def Let_def millis_text seconds_between_def opt_stamp_def
          del: epoch.simps(4))
  next
    case (Some m)
    then have m: "10 ^ 12 \<le> m" "m < 10 ^ 15" using assms(4) by auto
    have "queue_wait from_date attributes =
        seconds_between from_date (JsFloat (Fin (real n / 1000))) (JsFloat (Fin (real m / 1000)))"
      using assms(1-3) m by (simp add: Some queue_wait_def parse_sqs_attributes_def Let_def millis_text opt_stamp_def del: epoch.simps(4))
    also have "\<dots> = (if n \<le> m then Some (Fin ((real m - real n) / 1000)) else None)"
      using millis_text(2) [of n] millis_text(2) [OF m] assms(3)
      by (simp add: seconds_between_def Let_def diff_divide_distrib del: as_seconds.simps)
    finally show ?thesis by (simp add: Some)
  qed
  show "case seconds_between from_date a b of None \<Rightarrow> True | Some d \<Rightarrow> not_negative d"
    using seconds_between_measured by (auto split: option.split)
qed

theorem queue_wait_is_the_difference_witness:
  "queue_wait (\<lambda>_. None) [(''SentTimestamp'', nat_text 1700000000000), (''ApproximateFirstReceiveTimestamp'', nat_text 1700000002500)] =
     Some (Fin (5 / 2))"
  using queue_wait_is_the_difference [of "[(''SentTimestamp'', nat_text 1700000000000), (''ApproximateFirstReceiveTimestamp'', nat_text 1700000002500)]"
      1700000000000 "Some 1700000002500" "\<lambda>_. None"] by simp

end
