(* ===== verification/Harness_Worker.thy ===== *)
theory Harness_Worker
  imports Worker_Timing Shim_Calls Eval_Worker Stuck_Detector Dispatch_Gate
begin

text \<open>
  The harness worker of \<open>workers/harness_worker.py\<close> with the instructions of
  \<open>harnesses/task_framing.py\<close>: one job from its message or its reference to its result, with what is
  stored and sent on the way, the polling loop, and the heartbeat.

  The adapter of a harness is an argument: from its input it makes requests, which the modelled shim
  serves, and returns an output or raises. So are the dataset mirror, the sentinel of the image, the artifact store, the queues,
  the files of the work directory, the clocks, the reading of a trajectory file and the rendering of a
  cost. The stub that only a test registers, the ownership of the files and the logs are left out.
\<close>

section \<open>Inputs and outputs\<close>

text \<open>\<open>HarnessInput\<close> as the worker fills it.\<close>

record worker_input =
  wi_instance :: string
  wi_repo_url :: string
  wi_base_commit :: string
  wi_problem :: string
  wi_attempt :: int
  wi_checkout :: string
  wi_output_dir :: string
  wi_base_url :: string
  wi_model :: string
  wi_timeout :: int
  wi_max_tokens :: "int option"
  wi_max_cost :: pyfloat
  wi_max_turns :: "int option"
  wi_window :: "int option"

text \<open>\<open>HarnessOutput\<close> as the worker reads it; the events are their rendered list.\<close>

record adapter_output =
  ao_patch :: "string option"
  ao_trajectory :: string
  ao_raw_log :: string
  ao_native :: string
  ao_reported :: "(int \<times> int \<times> real) option"
  ao_extract_s :: "pyfloat option"
  ao_wall :: pyfloat
  ao_error :: string
  ao_reason :: string
  ao_category :: string
  ao_compactions :: "int option"
  ao_before :: "int option"
  ao_after :: "int option"
  ao_window :: "int option"
  ao_events :: "string option"

text \<open>What is measured of a job, and the metadata of its task.\<close>

record worker_times =
  wt_queue_wait :: "pyfloat option"
  wt_dispatched :: "pyfloat option"
  wt_task :: "task_timing option"
  wt_boot :: real
  wt_crash :: real
  wt_prep :: real
  wt_upload :: real
  wt_exit :: real

record mirror_row =
  mi_repo :: string
  mi_commit :: string
  mi_statement :: string

text \<open>
  The surroundings of a job. \<open>we_adapter\<close> is the registry with the harnesses in it; its function
  gives the requests that the run makes and how it ends.
\<close>

record worker_env =
  we_mirror :: "string \<Rightarrow> mirror_row option"
  we_sentinel :: "string option"
  we_published :: "string option"
  we_gateway :: string
  we_workdir :: string
  we_adapter :: "string \<Rightarrow> (worker_input \<Rightarrow> (call_env \<times> shim_request) list \<times> (string + adapter_output)) option"
  we_loads :: "string \<Rightarrow> json option"
  we_pacer :: bool
  we_hold_cap :: real
  we_local_url :: string
  we_files :: "string \<Rightarrow> string option"
  we_events :: "string \<Rightarrow> event list"
  we_evidence :: "stuck_reason \<Rightarrow> string"
  we_kill :: bool
  we_cost_text :: "real \<Rightarrow> string"
  we_stored :: "string \<Rightarrow> bool"
  we_calls_sent :: bool
  we_progress_ok :: bool
  we_from_date :: "string \<Rightarrow> real option"
  we_times :: worker_times

datatype worker_effect =
    Fetched | Stored string "string option" | Calls_sent string nat | Progress int
  | Shim_stopped | Told result_message | Removed

section \<open>The job of a task\<close>

definition verify_testbed_prebaked :: "worker_env \<Rightarrow> string \<Rightarrow> bool" where
  "verify_testbed_prebaked e inst = (we_sentinel e = Some inst)"

definition job_from_reference :: "job_reference \<Rightarrow> mirror_row \<Rightarrow> harness_job" where
  "job_from_reference r i =
     \<lparr>hj_run_id = jr_run_id r, hj_instance_id = jr_instance_id r, hj_repo_url = ''https://github.com/'' @ mi_repo i,
      hj_base_commit = mi_commit i, hj_problem_statement = mi_statement i, hj_attempt = jr_attempt r,
      hj_harness_name = jr_harness_name r, hj_model_alias = jr_model_alias r, hj_env_image_key = [],
      hj_timeout_seconds = jr_timeout_seconds r, hj_max_tokens = jr_max_tokens r, hj_max_cost_usd = jr_max_cost_usd r,
      hj_max_turns = jr_max_turns r, hj_dispatched_at = jr_dispatched_at r, hj_queue_wait_s = jr_queue_wait_s r,
      hj_context_window = jr_context_window r\<rparr>"

definition INSTRUCTIONS_HEADING :: string where
  "INSTRUCTIONS_HEADING = ''## Working rules (framework-provided)''"

definition rstrip :: "string \<Rightarrow> string" where
  "rstrip s = rev (dropWhile is_space (rev s))"

definition newline :: string where "newline = [CHR 0x0A]"

definition with_harness_instructions :: "string \<Rightarrow> string option \<Rightarrow> string" where
  "with_harness_instructions statement instructions =
     (let t = strip (or_str instructions [])
      in if t = [] then statement
         else rstrip statement @ newline @ newline @ INSTRUCTIONS_HEADING @ newline @ t @ newline)"

definition read_harness_instructions :: "string option \<Rightarrow> string option" where
  "read_harness_instructions raw =
     (case raw of None \<Rightarrow> None | Some t \<Rightarrow> if strip t = [] then None else Some (strip t))"

definition with_run_instructions :: "worker_env \<Rightarrow> harness_job \<Rightarrow> string" where
  "with_run_instructions e j =
     with_harness_instructions (hj_problem_statement j) (read_harness_instructions (we_published e))"

section \<open>The verdict on a run\<close>

definition SHIM_ROUTED_HARNESSES :: "string list" where
  "SHIM_ROUTED_HARNESSES = [''custom_minimal'', ''aider'', ''mini_swe_agent'', ''claude_code'', ''codex'', ''opencode'']"

text \<open>The ceilings that the shim gets; a cost that is no finite number is none.\<close>

fun cost_ceiling :: "pyfloat \<Rightarrow> real option" where
  "cost_ceiling (Fin x) = Some x"
| "cost_ceiling v = None"

definition shim_conf_of :: "worker_env \<Rightarrow> harness_job \<Rightarrow> shim_conf" where
  "shim_conf_of e j =
     \<lparr>sc_pacer = we_pacer e, sc_hold_cap = we_hold_cap e, sc_window = hj_context_window j,
      sc_max_tokens = hj_max_tokens j, sc_max_cost = cost_ceiling (hj_max_cost_usd j), sc_max_turns = hj_max_turns j\<rparr>"

definition worker_usage :: "shim option \<Rightarrow> shim_usage" where
  "worker_usage sh = (case sh of None \<Rightarrow> no_usage | Some s \<Rightarrow> sh_usage s)"

definition crash_output :: "worker_env \<Rightarrow> string \<Rightarrow> adapter_output" where
  "crash_output e x =
     \<lparr>ao_patch = Some [], ao_trajectory = we_workdir e @ ''/trajectory.jsonl'', ao_raw_log = we_workdir e @ ''/harness_stdout.log'',
      ao_native = [], ao_reported = None, ao_extract_s = None, ao_wall = Fin (wt_crash (we_times e)),
      ao_error = ''harness.run raised: '' @ x, ao_reason = ''crash'', ao_category = [], ao_compactions = None,
      ao_before = None, ao_after = None, ao_window = None, ao_events = None\<rparr>"

definition classify_pause :: "shim option \<Rightarrow> adapter_output \<Rightarrow> adapter_output" where
  "classify_pause sh out =
     (case sh of
        Some s \<Rightarrow>
          if sh_paused s then out\<lparr>ao_reason := ''model_api_error'', ao_category := ''PAUSED_BY_OPERATOR'',
            ao_error := ''gateway paused by operator (framework_paused 503)''\<rparr> else out
      | None \<Rightarrow> out)"

definition classify_zero_model_calls :: "shim option \<Rightarrow> adapter_output \<Rightarrow> adapter_output" where
  "classify_zero_model_calls sh out =
     (case sh of
        Some s \<Rightarrow>
          if sh_index s = 0 \<and> ao_reason out = ''completed'' then
            out\<lparr>ao_reason := ''zero_model_calls'', ao_category := ''HARNESS_ZERO_MODEL_CALLS'',
              ao_error := ''harness terminated without any model call reaching the shim''\<rparr>
          else out
      | None \<Rightarrow> out)"

fun reaches :: "real \<Rightarrow> pyfloat \<Rightarrow> bool" where
  "reaches c (Fin m) = (m \<le> c)"
| "reaches c NegInf = True"
| "reaches c v = False"

definition over_ceiling :: "harness_job \<Rightarrow> shim \<Rightarrow> bool" where
  "over_ceiling j s =
     (sh_refused s \<or> (case hj_max_tokens j of None \<Rightarrow> False | Some n \<Rightarrow> n \<le> spent_tokens s) \<or>
      reaches (su_cost (sh_usage s)) (hj_max_cost_usd j))"

definition classify_budget_breach :: "worker_env \<Rightarrow> harness_job \<Rightarrow> shim option \<Rightarrow> adapter_output \<Rightarrow> adapter_output" where
  "classify_budget_breach e j sh out =
     (case sh of
        None \<Rightarrow> out
      | Some s \<Rightarrow>
          if over_ceiling j s \<and> ao_reason out \<in> {''budget_exceeded'', ''completed'', ''crash''} then
            out\<lparr>ao_reason := ''budget_exceeded'', ao_category := ''HARNESS_BUDGET_EXCEEDED'',
              ao_error := ''budget exceeded: '' @ int_text (spent_tokens s) @ '' tokens / $'' @ we_cost_text e (su_cost (sh_usage s))\<rparr>
          else out)"

text \<open>The detector reads the trajectory file; it kills only under the switch of a test.\<close>

definition detect_stuck :: "worker_env \<Rightarrow> adapter_output \<Rightarrow> (stuck_state \<times> stuck_reason) option" where
  "detect_stuck e out =
     (if ao_trajectory out = [] then None
      else case we_files e (ao_trajectory out) of
          None \<Rightarrow> None
        | Some t \<Rightarrow> Some (evaluate (we_events e t) 1 None))"

definition kill_stuck :: "worker_env \<Rightarrow> adapter_output \<Rightarrow> adapter_output" where
  "kill_stuck e out =
     (case detect_stuck e out of
        Some (Stuck, why) \<Rightarrow>
          if we_kill e then out\<lparr>ao_reason := ''stuck'', ao_category := ''HARNESS_STUCK'', ao_error := we_evidence e why\<rparr> else out
      | _ \<Rightarrow> out)"

definition settle_run :: "worker_env \<Rightarrow> harness_job \<Rightarrow> shim option \<Rightarrow> adapter_output \<Rightarrow> adapter_output" where
  "settle_run e j sh out =
     kill_stuck e (classify_budget_breach e j sh (classify_zero_model_calls sh (classify_pause sh out)))"

section \<open>What is stored\<close>

definition harness_prefix :: "harness_job \<Rightarrow> string" where
  "harness_prefix j = ''runs/'' @ hj_run_id j @ ''/'' @ hj_harness_name j @ ''/'' @ hj_model_alias j @ ''/'' @
     hj_instance_id j @ ''/'' @ int_text (hj_attempt j)"

definition patch_tag :: "adapter_output \<Rightarrow> string option" where
  "patch_tag out = (if ao_reason out = ''completed'' then None else Some (ao_reason out))"

definition file_there :: "worker_env \<Rightarrow> string \<Rightarrow> bool" where
  "file_there e path = (path \<noteq> [] \<and> we_files e path \<noteq> None)"

text \<open>The artifacts of a run in their order: the key and the tag.\<close>

definition artifacts :: "worker_env \<Rightarrow> harness_job \<Rightarrow> adapter_output \<Rightarrow> (string \<times> string option) list" where
  "artifacts e j out =
     (if truthy (ao_patch out) then [(harness_prefix j @ ''/patch.diff'', patch_tag out)] else []) @
     (if file_there e (ao_trajectory out) then [(harness_prefix j @ ''/trajectory.jsonl'', None)] else []) @
     (if file_there e (ao_raw_log out) then [(harness_prefix j @ ''/harness_stdout.log'', None)] else []) @
     (if file_there e (ao_native out) then [(harness_prefix j @ ''/native_trajectory.json'', None)] else []) @
     (if truthy (ao_events out) then [(harness_prefix j @ ''/compaction_events.json'', None)] else [])"

text \<open>The uploads up to the first that fails, and whether all went through.\<close>

fun store_all :: "worker_env \<Rightarrow> (string \<times> string option) list \<Rightarrow> worker_effect list \<times> bool" where
  "store_all e [] = ([], True)"
| "store_all e ((k, t) # ks) =
     (if we_stored e k then (let (es, ok) = store_all e ks in (Stored k t # es, ok)) else ([], False))"

text \<open>The file of the calls has one line for each record of the shim.\<close>

definition ship_calls :: "worker_env \<Rightarrow> harness_job \<Rightarrow> shim option \<Rightarrow> worker_effect list" where
  "ship_calls e j sh =
     (let n = (case sh of None \<Rightarrow> 0 | Some s \<Rightarrow> length (sh_log s)); k = harness_prefix j @ ''/llm_calls.jsonl''
      in if n = 0 \<or> \<not> we_stored e k then []
         else Stored k None # (if we_calls_sent e then [Calls_sent k n] else []))"

section \<open>The row\<close>

fun state_text :: "row_state \<Rightarrow> string" where
  "state_text S_PENDING = ''PENDING''"
| "state_text S_DISPATCHED = ''DISPATCHED''"
| "state_text S_HARNESS_RUNNING = ''HARNESS_RUNNING''"
| "state_text S_PATCH_READY = ''PATCH_READY''"
| "state_text S_FAILED_HARNESS = ''FAILED_HARNESS''"
| "state_text S_STUCK = ''STUCK''"
| "state_text S_BUDGET_EXCEEDED = ''BUDGET_EXCEEDED''"
| "state_text S_EMPTY_PATCH = ''EMPTY_PATCH''"
| "state_text S_ABORTED_IN_FLIGHT = ''ABORTED_IN_FLIGHT''"
| "state_text S_NEVER_DISPATCHED = ''NEVER_DISPATCHED''"
| "state_text S_ABANDONED = ''ABANDONED''"
| "state_text S_EVAL_RUNNING = ''EVAL_RUNNING''"
| "state_text S_RESOLVED = ''RESOLVED''"
| "state_text S_UNRESOLVED = ''UNRESOLVED''"
| "state_text S_FAILED_EVAL = ''FAILED_EVAL''"
| "state_text S_PATCH_APPLY_FAILED = ''PATCH_APPLY_FAILED''"

definition final_category :: "adapter_output \<Rightarrow> string" where
  "final_category out =
     (if ao_category out \<noteq> [] then ao_category out
      else case map_terminated_reason_to_error_category (ao_reason out) (ao_patch out) of
          None \<Rightarrow> [] | Some c \<Rightarrow> category_name c)"

text \<open>The columns that come from the metadata of the task, at the exit of the worker.\<close>

definition task_column :: "worker_env \<Rightarrow> (task_timing \<Rightarrow> pyfloat option) \<Rightarrow> colval option" where
  "task_column e f = map_option C_float (Option.bind (wt_task (we_times e)) f)"

definition since :: "worker_env \<Rightarrow> (task_timing \<Rightarrow> pyfloat option) \<Rightarrow> task_timing \<Rightarrow> pyfloat option" where
  "since e start t =
     seconds_between (we_from_date e) (opt_stamp (start t)) (JsFloat (Fin (wt_exit (we_times e))))"

definition provision_s :: "worker_env \<Rightarrow> task_timing \<Rightarrow> pyfloat option" where
  "provision_s e t = seconds_between (we_from_date e) (opt_stamp (wt_dispatched (we_times e))) (opt_stamp (tt_created t))"

definition key_if :: "bool \<Rightarrow> string \<Rightarrow> string" where
  "key_if b k = (if b then k else [])"

definition harness_result :: "worker_env \<Rightarrow> harness_job \<Rightarrow> shim option \<Rightarrow> adapter_output \<Rightarrow> result_message" where
  "harness_result e j sh out =
     (let u = worker_usage sh; t = we_times e; opt_int = map_option C_int; opt_float1 = map_option C_float
      in (bare_result (hj_run_id j) (hj_instance_id j) (hj_attempt j) ''harness''
            (state_text (map_terminated_reason_to_state (ao_reason out) (ao_patch out))) (ao_error out))
         \<lparr>rm_error_category := final_category out, rm_wall_clock_s := ao_wall out,
          rm_patch_s3_key := key_if (truthy (ao_patch out)) (harness_prefix j @ ''/patch.diff''),
          rm_trajectory_s3_key := key_if (file_there e (ao_trajectory out)) (harness_prefix j @ ''/trajectory.jsonl''),
          rm_raw_log_s3_key := key_if (file_there e (ao_raw_log out)) (harness_prefix j @ ''/harness_stdout.log''),
          rm_extra := extra_default
            (''native_trajectory_s3_key'' :=
               Some (C_text (key_if (file_there e (ao_native out)) (harness_prefix j @ ''/native_trajectory.json''))),
             ''input_tokens'' := Some (C_int (su_input u)), ''output_tokens'' := Some (C_int (su_output u)),
             ''cached_tokens'' := Some (C_int (su_cached u)), ''cache_write_tokens'' := Some (C_int (su_cache_write u)),
             ''reasoning_tokens'' := Some (C_int (su_reasoning u)),
             ''cost_source'' := Some (C_text (if su_gateway u then ''provider'' else ''local_pricing'')),
             ''usage_parse_failed_calls'' := Some (C_int (int (su_parse_failed u))),
             ''paced_wait_ms_total'' := Some (C_int (su_paced_wait_ms u)), ''paced_calls'' := Some (C_int (int (su_paced_calls u))),
             ''pacer_timeouts'' := Some (C_int (int (su_pacer_timeouts u))),
             ''overload_retries_total'' := Some (C_int (int (su_overload_retries u))),
             ''turns_used'' := map_option (\<lambda>s. C_int (sh_turns s)) sh, ''cost_usd'' := Some (C_float (Fin (su_cost u))),
             ''adapter_input_tokens'' := opt_int (map_option fst (ao_reported out)),
             ''adapter_output_tokens'' := opt_int (map_option (fst \<circ> snd) (ao_reported out)),
             ''adapter_cost_usd'' := opt_float1 (map_option (Fin \<circ> snd \<circ> snd) (ao_reported out)),
             ''queue_wait_s'' := opt_float1 (wt_queue_wait t), ''worker_boot_s'' := Some (C_float (Fin (wt_boot t))),
             ''provision_s'' := task_column e (provision_s e),
             ''image_pull_s'' := task_column e (image_pull_s (we_from_date e)),
             ''image_pull_cold'' := map_option C_bool (Option.bind (wt_task t) image_pull_cold),
             ''task_observed_s'' := task_column e (since e tt_started),
             ''task_billed_s'' := task_column e (since e tt_pull_started),
             ''repo_prep_s'' := Some (C_float (Fin (wt_prep t))), ''agent_s'' := Some (C_float (ao_wall out)),
             ''patch_extract_s'' := opt_float1 (ao_extract_s out), ''artifact_upload_s'' := Some (C_float (Fin (wt_upload t))),
             ''compactions_fired'' := opt_int (ao_compactions out), ''compaction_tokens_before'' := opt_int (ao_before out),
             ''compaction_tokens_after'' := opt_int (ao_after out), ''context_window_tokens'' := opt_int (ao_window out))\<rparr>)"

section \<open>One run\<close>

definition input_for :: "worker_env \<Rightarrow> harness_job \<Rightarrow> worker_input" where
  "input_for e j =
     \<lparr>wi_instance = hj_instance_id j, wi_repo_url = hj_repo_url j, wi_base_commit = hj_base_commit j,
      wi_problem = with_run_instructions e j, wi_attempt = hj_attempt j, wi_checkout = ''/testbed'',
      wi_output_dir = we_workdir e,
      wi_base_url = (if hj_harness_name j \<in> set SHIM_ROUTED_HARNESSES then we_local_url e else we_gateway e),
      wi_model = hj_model_alias j, wi_timeout = hj_timeout_seconds j, wi_max_tokens = hj_max_tokens j,
      wi_max_cost = hj_max_cost_usd j, wi_max_turns = hj_max_turns j, wi_window = hj_context_window j\<rparr>"

text \<open>The shim as the run leaves it.\<close>

definition shim_after :: "worker_env \<Rightarrow> harness_job \<Rightarrow> (call_env \<times> shim_request) list \<Rightarrow> shim option" where
  "shim_after e j calls =
     (if hj_harness_name j \<in> set SHIM_ROUTED_HARNESSES
      then Some (snd (shim_session (we_loads e) (shim_conf_of e j) (new_shim no_usage) calls)) else None)"

definition output_of :: "worker_env \<Rightarrow> string + adapter_output \<Rightarrow> adapter_output" where
  "output_of e r = (case r of Inl x \<Rightarrow> crash_output e x | Inr out \<Rightarrow> out)"

text \<open>From the output to the result; \<open>None\<close> is an upload that raises.\<close>

definition collect :: "worker_env \<Rightarrow> harness_job \<Rightarrow> shim option \<Rightarrow> adapter_output \<Rightarrow> result_message option \<times> worker_effect list" where
  "collect e j sh out =
     (let (es, ok) = store_all e (artifacts e j out)
      in if \<not> ok then (None, es)
         else (Some (harness_result e j sh out),
           es @ ship_calls e j sh @ (if we_progress_ok e then [Progress (case sh of None \<Rightarrow> 0 | Some s \<Rightarrow> sh_turns s)] else [])))"

definition run_and_collect ::
    "worker_env \<Rightarrow> harness_job \<Rightarrow> (worker_input \<Rightarrow> (call_env \<times> shim_request) list \<times> (string + adapter_output)) \<Rightarrow>
     result_message option \<times> worker_effect list" where
  "run_and_collect e j adapter =
     (if we_mirror e (hj_instance_id j) = None \<or> \<not> verify_testbed_prebaked e (hj_instance_id j) then (None, [])
      else let (calls, r) = adapter (input_for e j); sh = shim_after e j calls
           in collect e j sh (settle_run e j sh (output_of e r)))"

definition run_harness :: "worker_env \<Rightarrow> harness_job \<Rightarrow> result_message option \<times> worker_effect list" where
  "run_harness e j =
     (case we_adapter e (hj_harness_name j) of
        None \<Rightarrow> (None, [])
      | Some adapter \<Rightarrow>
          (let (r, es) = run_and_collect e j adapter
           in (r, es @ (if hj_harness_name j \<in> set SHIM_ROUTED_HARNESSES then [Shim_stopped] else []))))"

section \<open>One job and the loop\<close>

definition apply_resolved_window :: "harness_job \<Rightarrow> result_message \<Rightarrow> result_message" where
  "apply_resolved_window j m =
     (case hj_context_window j of
        None \<Rightarrow> m
      | Some n \<Rightarrow> m\<lparr>rm_extra := (rm_extra m)(''context_window_tokens'' := Some (C_int n))\<rparr>)"

definition reclassify_aborted :: "result_message \<Rightarrow> result_message" where
  "reclassify_aborted m =
     (if rm_state m = ''ABORTED_IN_FLIGHT'' then m
      else m\<lparr>rm_phase := ''harness'', rm_state := ''ABORTED_IN_FLIGHT'',
        rm_error_detail := (if rm_error_detail m = [] then ''aborted by operator mid-run'' else rm_error_detail m)\<rparr>)"

definition harness_running :: "harness_job \<Rightarrow> result_message" where
  "harness_running j = bare_result (hj_run_id j) (hj_instance_id j) (hj_attempt j) ''harness'' ''HARNESS_RUNNING'' []"

text \<open>The queue calls of a job that succeed, and whether a stop signal came before the result was sent.\<close>

record job_calls =
  jc_notice :: bool
  jc_stopped :: bool
  jc_result :: bool
  jc_delete :: bool

definition final_result :: "harness_job \<Rightarrow> bool \<Rightarrow> result_message \<Rightarrow> result_message" where
  "final_result j stopped m =
     (let m1 = apply_resolved_window j m in if stopped then reclassify_aborted m1 else m1)"

definition process_job :: "worker_env \<Rightarrow> job_calls \<Rightarrow> harness_job \<Rightarrow> worker_effect list" where
  "process_job e c j =
     (let (r, es) = run_harness e j
      in (if jc_notice c then [Told (harness_running j)] else []) @ es @
         (case r of
            None \<Rightarrow> []
          | Some m \<Rightarrow>
              if jc_result c then Told (final_result j (jc_stopped c) m) # (if jc_delete c then [Removed] else []) else []))"

datatype worker_turn = Worker_goes_on | Worker_fails

definition timed :: "pyfloat option \<Rightarrow> pyfloat option \<Rightarrow> worker_env \<Rightarrow> worker_env" where
  "timed q d e = e\<lparr>we_times := (we_times e)\<lparr>wt_queue_wait := q, wt_dispatched := d\<rparr>\<rparr>"

text \<open>One turn of the polling loop: the pool is paused, the queue is empty, or a message with its attributes comes.\<close>

definition poll_turn ::
    "worker_env \<Rightarrow> job_calls \<Rightarrow> bool \<Rightarrow> (body \<times> (string \<times> string) list) option \<Rightarrow> worker_turn \<times> worker_effect list" where
  "poll_turn e c pool_paused message1 =
     (if pool_paused then (Worker_goes_on, [])
      else case message1 of
          None \<Rightarrow> (Worker_goes_on, [Fetched])
        | Some (b, attributes) \<Rightarrow>
            (case parse_job b of
               Inl x \<Rightarrow> (Worker_fails, [Fetched])
             | Inr j \<Rightarrow>
                 (Worker_goes_on, Fetched # process_job (timed (queue_wait (we_from_date e) attributes) (hj_dispatched_at j) e) c j)))"

fun poll_loop :: "(worker_env \<times> job_calls \<times> bool \<times> (body \<times> (string \<times> string) list) option) list \<Rightarrow> worker_turn \<times> worker_effect list" where
  "poll_loop [] = (Worker_goes_on, [])"
| "poll_loop ((e, c, p, b) # ts) =
     (case poll_turn e c p b of
        (Worker_fails, es) \<Rightarrow> (Worker_fails, es)
      | (Worker_goes_on, es) \<Rightarrow> (let (r, fs) = poll_loop ts in (r, es @ fs)))"

text \<open>The task of one reference; the environment has been read, or the task ends.\<close>

definition run_harness_worker_job :: "worker_env \<Rightarrow> job_calls \<Rightarrow> (string \<times> string) list \<Rightarrow> worker_turn \<times> worker_effect list" where
  "run_harness_worker_job e c environ =
     (case from_env environ of
        Inl x \<Rightarrow> (Worker_fails, [])
      | Inr r \<Rightarrow>
          if \<not> verify_testbed_prebaked e (jr_instance_id r) then (Worker_fails, [])
          else case we_mirror e (jr_instance_id r) of
              None \<Rightarrow> (Worker_fails, [])
            | Some i \<Rightarrow> (Worker_goes_on,
                process_job (timed (jr_queue_wait_s r) (jr_dispatched_at r) e) c (job_from_reference r i)))"

section \<open>The heartbeat\<close>

definition HARNESS_HEARTBEAT_SECONDS :: real where "HARNESS_HEARTBEAT_SECONDS = 34"
definition HARNESS_VISIBILITY_SECONDS :: real where "HARNESS_VISIBILITY_SECONDS = 235"

text \<open>From one wait to the next: how long the call took beyond the wait, and whether it went through.\<close>

fun harness_heartbeat :: "real \<Rightarrow> (real \<times> bool) list \<Rightarrow> real list" where
  "harness_heartbeat now [] = []"
| "harness_heartbeat now ((late, ok) # beats) =
     (let t = now + HARNESS_HEARTBEAT_SECONDS + late
      in (if ok then [t] else []) @ harness_heartbeat t beats)"

end
