(* ===== verification/Worker_Facts.thy ===== *)
theory Worker_Facts
  imports Harness_Worker Shim_Accounts Ledger_Facts
begin

text \<open>The theorems on the harness worker, alone and together with the shim, the ledger and the dispatcher's reference.\<close>

section \<open>The verdict\<close>

definition killed :: "worker_env \<Rightarrow> adapter_output \<Rightarrow> bool" where
  "killed e out = (we_kill e \<and> (\<exists>why. detect_stuck e out = Some (Stuck, why)))"

definition pause_seen :: "shim option \<Rightarrow> bool" where
  "pause_seen sh = (case sh of None \<Rightarrow> False | Some s \<Rightarrow> sh_paused s)"

lemma same_trajectory [simp]:
  "ao_trajectory (classify_pause sh out) = ao_trajectory out"
  "ao_trajectory (classify_zero_model_calls sh out) = ao_trajectory out"
  "ao_trajectory (classify_budget_breach e j sh out) = ao_trajectory out"
  by (simp_all add: classify_pause_def classify_zero_model_calls_def classify_budget_breach_def split: option.split)

lemma same_patch [simp]:
  "ao_patch (classify_pause sh out) = ao_patch out"
  "ao_patch (classify_zero_model_calls sh out) = ao_patch out"
  "ao_patch (classify_budget_breach e j sh out) = ao_patch out"
  by (simp_all add: classify_pause_def classify_zero_model_calls_def classify_budget_breach_def split: option.split)

lemma settled_patch [simp]: "ao_patch (settle_run e j sh out) = ao_patch out"
proof -
  have "ao_patch (kill_stuck e x) = ao_patch x" for x
    by (cases "detect_stuck e x") (auto simp: kill_stuck_def split: stuck_state.split)
  then show ?thesis by (simp add: settle_run_def)
qed

lemma killed_again [simp]:
  "killed e (classify_budget_breach e j sh (classify_zero_model_calls sh (classify_pause sh out))) = killed e out"
  by (simp add: killed_def detect_stuck_def)

lemma kill_cases:
  "ao_reason (kill_stuck e out) = (if killed e out then ''stuck'' else ao_reason out)"
  "ao_category (kill_stuck e out) = (if killed e out then ''HARNESS_STUCK'' else ao_category out)"
  by (auto simp: kill_stuck_def killed_def split: option.split stuck_state.split)

text \<open>The reason and the category that a run ends with, in the order in which they are decided.\<close>

definition decided :: "harness_job \<Rightarrow> shim option \<Rightarrow> adapter_output \<Rightarrow> string \<times> string" where
  "decided j sh out =
     (case sh of
        None \<Rightarrow> (ao_reason out, ao_category out)
      | Some s \<Rightarrow>
          if sh_paused s then (''model_api_error'', ''PAUSED_BY_OPERATOR'')
          else if sh_index s = 0 \<and> ao_reason out = ''completed'' then (''zero_model_calls'', ''HARNESS_ZERO_MODEL_CALLS'')
          else if over_ceiling j s \<and> ao_reason out \<in> {''budget_exceeded'', ''completed'', ''crash''}
               then (''budget_exceeded'', ''HARNESS_BUDGET_EXCEEDED'')
          else (ao_reason out, ao_category out))"

lemma settled_run:
  "(ao_reason (settle_run e j sh out), ao_category (settle_run e j sh out)) =
     (if killed e out then (''stuck'', ''HARNESS_STUCK'') else decided j sh out)"
proof (cases sh)
  case None
  show ?thesis
    unfolding settle_run_def kill_cases killed_again
    by (simp add: None decided_def classify_budget_breach_def classify_zero_model_calls_def classify_pause_def)
next
  case (Some s)
  show ?thesis
    unfolding settle_run_def kill_cases killed_again
    by (auto simp: Some decided_def classify_budget_breach_def classify_zero_model_calls_def classify_pause_def)
qed

lemma settled_reason: "ao_reason (settle_run e j sh out) = (if killed e out then ''stuck'' else fst (decided j sh out))"
  using arg_cong [where f = fst, OF settled_run [of e j sh out]] by simp

lemma settled_category: "ao_category (settle_run e j sh out) = (if killed e out then ''HARNESS_STUCK'' else snd (decided j sh out))"
  using arg_cong [where f = snd, OF settled_run [of e j sh out]] by simp

lemma completed_settled:
  "ao_reason (settle_run e j sh out) = ''completed'' \<Longrightarrow>
     ao_reason out = ''completed'' \<and> \<not> killed e out \<and> ao_category (settle_run e j sh out) = ao_category out \<and>
     (\<forall>s. sh = Some s \<longrightarrow> 0 \<noteq> sh_index s \<and> \<not> sh_paused s \<and> \<not> over_ceiling j s)"
  unfolding settled_reason settled_category
  by (cases sh) (auto simp: decided_def split: if_splits)

section \<open>From the run to the row\<close>

lemma state_text_ready: "state_text s = ''PATCH_READY'' \<longleftrightarrow> s = S_PATCH_READY"
  by (cases s) simp_all

lemma ready_state:
  "map_terminated_reason_to_state reason patch = S_PATCH_READY \<longleftrightarrow> reason = ''completed'' \<and> truthy patch"
  "map_terminated_reason_to_state reason patch = S_EMPTY_PATCH \<longleftrightarrow> reason = ''completed'' \<and> \<not> truthy patch"
  by (simp_all add: map_terminated_reason_to_state_def)

lemma collect_result:
  "collect e j sh out = (Some m, es) \<Longrightarrow>
     m = harness_result e j sh out \<and> (\<exists>fs. es = fst (store_all e (artifacts e j out)) @ fs) \<and> snd (store_all e (artifacts e j out))"
  by (auto simp: collect_def split: prod.splits if_splits)

lemma stored_all: "snd (store_all e ks) \<Longrightarrow> (k, t) \<in> set ks \<Longrightarrow> Stored k t \<in> set (fst (store_all e ks)) \<and> we_stored e k"
  by (induction ks) (auto simp: Let_def split: prod.splits if_splits)

text \<open>What stands behind a result.\<close>

lemma run_harness_result:
  assumes "run_harness e j = (Some m, es)"
  shows "\<exists>adapter calls r. we_adapter e (hj_harness_name j) = Some adapter \<and> adapter (input_for e j) = (calls, r) \<and>
    verify_testbed_prebaked e (hj_instance_id j) \<and>
    (let sh = shim_after e j calls; out = settle_run e j sh (output_of e r)
     in m = harness_result e j sh out \<and> (\<forall>(k, t) \<in> set (artifacts e j out). Stored k t \<in> set es))"
proof -
  obtain adapter where a: "we_adapter e (hj_harness_name j) = Some adapter"
    using assms by (cases "we_adapter e (hj_harness_name j)") (auto simp: run_harness_def)
  obtain calls r where c: "adapter (input_for e j) = (calls, r)" by fastforce
  let ?sh = "shim_after e j calls"
  let ?out = "settle_run e j ?sh (output_of e r)"
  have v: "we_mirror e (hj_instance_id j) \<noteq> None \<and> verify_testbed_prebaked e (hj_instance_id j)"
    using assms a by (auto simp: run_harness_def run_and_collect_def Let_def split: prod.splits if_splits)
  obtain m1 fs where k: "collect e j ?sh ?out = (m1, fs)" by fastforce
  have m: "m1 = Some m" "set fs \<subseteq> set es"
    using assms a c v k by (auto simp: run_harness_def run_and_collect_def Let_def split: if_splits)
  with k collect_result [of e j ?sh ?out m fs] have "m = harness_result e j ?sh ?out" "snd (store_all e (artifacts e j ?out))"
      "set (fst (store_all e (artifacts e j ?out))) \<subseteq> set es" by auto
  with stored_all show ?thesis by (intro exI [of _ adapter] exI [of _ calls] exI [of _ r]) (use a c v in \<open>auto simp: Let_def\<close>)
qed

lemma result_fields [simp]:
  "rm_state (harness_result e j sh out) = state_text (map_terminated_reason_to_state (ao_reason out) (ao_patch out))"
  "rm_phase (harness_result e j sh out) = ''harness''" "rm_run_id (harness_result e j sh out) = hj_run_id j"
  "rm_instance_id (harness_result e j sh out) = hj_instance_id j" "rm_attempt (harness_result e j sh out) = hj_attempt j"
  "rm_error_category (harness_result e j sh out) = final_category out"
  "rm_patch_s3_key (harness_result e j sh out) = key_if (truthy (ao_patch out)) (harness_prefix j @ ''/patch.diff'')"
  by (simp_all add: harness_result_def Let_def bare_result_def)

text \<open>
  C26: Only a metered, finished run goes on to grading. When the row of a run says that its patch is
  ready, the harness itself said that it completed, with a patch; the shim serviced at least one call and
  refused none, its last answer was no operator pause, and the tokens and the cost stand below the
  ceilings of the job; and the patch was stored, untagged, under the key that the row carries.
\<close>

theorem ready_patch_was_metered:
  assumes "run_harness e j = (Some m, es)" "rm_state m = ''PATCH_READY''" "hj_harness_name j \<in> set SHIM_ROUTED_HARNESSES"
  shows "\<exists>adapter calls out s. we_adapter e (hj_harness_name j) = Some adapter \<and> adapter (input_for e j) = (calls, Inr out) \<and>
    ao_reason out = ''completed'' \<and> truthy (ao_patch out) \<and> shim_after e j calls = Some s \<and>
    sh_index s \<noteq> 0 \<and> \<not> sh_refused s \<and> \<not> sh_paused s \<and> (\<forall>n. hj_max_tokens j = Some n \<longrightarrow> spent_tokens s < n) \<and>
    (\<forall>x. hj_max_cost_usd j = Fin x \<longrightarrow> su_cost (sh_usage s) < x) \<and>
    rm_patch_s3_key m = harness_prefix j @ ''/patch.diff'' \<and> Stored (rm_patch_s3_key m) None \<in> set es"
proof -
  obtain adapter calls r where a: "we_adapter e (hj_harness_name j) = Some adapter" "adapter (input_for e j) = (calls, r)"
    and b: "let sh = shim_after e j calls; out = settle_run e j sh (output_of e r)
      in m = harness_result e j sh out \<and> (\<forall>(k, t) \<in> set (artifacts e j out). Stored k t \<in> set es)"
    using run_harness_result [OF assms(1)] by blast
  obtain s where s: "shim_after e j calls = Some s" using assms(3) by (auto simp: shim_after_def)
  let ?out = "settle_run e j (Some s) (output_of e r)"
  have m: "m = harness_result e j (Some s) ?out" "\<forall>(k, t) \<in> set (artifacts e j ?out). Stored k t \<in> set es"
    using b by (simp_all add: s Let_def)
  have f: "ao_reason ?out = ''completed''" "truthy (ao_patch (output_of e r))"
    using assms(2) by (simp_all add: m(1) state_text_ready ready_state)
  have o: "ao_reason (output_of e r) = ''completed''" "sh_index s \<noteq> 0" "\<not> sh_paused s" "\<not> over_ceiling j s"
    using completed_settled [OF f(1)] by auto
  then obtain out where r: "r = Inr out" by (cases r) (auto simp: output_of_def crash_output_def)
  have p: "rm_patch_s3_key m = harness_prefix j @ ''/patch.diff''" using f(2) by (simp add: m(1) key_if_def)
  moreover have "Stored (harness_prefix j @ ''/patch.diff'') None \<in> set es"
    using m(2) f by (auto simp: artifacts_def patch_tag_def)
  ultimately show ?thesis
    using a s o f(2) by (intro exI [of _ adapter] exI [of _ calls] exI [of _ out] exI [of _ s])
      (auto simp: r output_of_def over_ceiling_def)
qed

lemma category_names [simp]:
  "category_name c \<noteq> []" "category_name c = ''EMPTY_PATCH'' \<longleftrightarrow> c = EMPTY_PATCH"
  "category_name c = ''PAUSED_BY_OPERATOR'' \<longleftrightarrow> c = PAUSED_BY_OPERATOR"
  by (cases c; simp)+

lemma reason_never_pauses: "map_terminated_reason_to_error_category reason patch \<noteq> Some PAUSED_BY_OPERATOR"
  by (simp add: map_terminated_reason_to_error_category_def)

text \<open>An output whose category is absent or the one of its reason.\<close>

definition categorised :: "adapter_output \<Rightarrow> bool" where
  "categorised out = (ao_category out = [] \<or>
     (\<exists>c. map_terminated_reason_to_error_category (ao_reason out) (ao_patch out) = Some c \<and> ao_category out = category_name c))"

lemma final_of_reason:
  "categorised out \<Longrightarrow> final_category out =
     (case map_terminated_reason_to_error_category (ao_reason out) (ao_patch out) of None \<Rightarrow> [] | Some c \<Rightarrow> category_name c)"
  by (auto simp: categorised_def final_category_def)

lemma agreement:
  assumes "categorised out"
  shows "(final_category out = [] \<longleftrightarrow> map_terminated_reason_to_state (ao_reason out) (ao_patch out) = S_PATCH_READY) \<and>
    (final_category out = ''EMPTY_PATCH'' \<longleftrightarrow> map_terminated_reason_to_state (ao_reason out) (ao_patch out) = S_EMPTY_PATCH) \<and>
    final_category out \<noteq> ''PAUSED_BY_OPERATOR''"
  using harness_outcome_consistent [of "ao_reason out" "ao_patch out"] reason_never_pauses [of "ao_reason out" "ao_patch out"]
  unfolding final_of_reason [OF assms]
  by (cases "map_terminated_reason_to_error_category (ao_reason out) (ao_patch out)") auto

lemma settled_row:
  assumes "categorised out" "r = settle_run e j sh out"
  shows "(final_category r = [] \<longleftrightarrow> map_terminated_reason_to_state (ao_reason r) (ao_patch r) = S_PATCH_READY) \<and>
    (final_category r = ''EMPTY_PATCH'' \<longleftrightarrow> map_terminated_reason_to_state (ao_reason r) (ao_patch r) = S_EMPTY_PATCH) \<and>
    (final_category r = ''PAUSED_BY_OPERATOR'' \<longleftrightarrow> pause_seen sh \<and> \<not> killed e out) \<and>
    (ao_reason out = ''timeout'' \<and> \<not> pause_seen sh \<and> \<not> killed e out \<longrightarrow> ao_reason r = ''timeout'')"
proof (cases "\<not> killed e out \<and> decided j sh out = (ao_reason out, ao_category out) \<and> \<not> pause_seen sh")
  case True
  then have r: "ao_reason r = ao_reason out" "ao_category r = ao_category out" "ao_patch r = ao_patch out"
    by (simp_all add: assms(2) settled_reason settled_category)
  with assms(1) have "categorised r" by (simp add: categorised_def)
  from agreement [OF this] True r show ?thesis by simp
next
  case False
  have v: "ao_reason r \<noteq> ''completed'' \<and> ao_category r \<noteq> [] \<and> ao_category r \<noteq> ''EMPTY_PATCH'' \<and>
      (ao_category r = ''PAUSED_BY_OPERATOR'' \<longleftrightarrow> pause_seen sh \<and> \<not> killed e out) \<and>
      (ao_reason out = ''timeout'' \<longrightarrow> pause_seen sh \<or> killed e out)"
  proof (cases "killed e out")
    case True
    then show ?thesis by (simp add: assms(2) settled_reason settled_category)
  next
    case alive: False
    with False obtain s where s: "sh = Some s" by (cases sh) (auto simp: decided_def pause_seen_def)
    show ?thesis using False alive unfolding assms(2) settled_reason settled_category s
      by (auto simp: decided_def pause_seen_def)
  qed
  then have "final_category r = ao_category r" by (simp add: final_category_def)
  with v show ?thesis by (simp add: ready_state) blast
qed

lemmas settled_agreement = conjunct1 [OF settled_row [OF _ refl]]

text \<open>
  The row and its category agree. For an output whose category is absent or the one of its reason, the
  settled run has no category exactly when its patch is ready, and the category of an empty patch
  exactly when it finished without one; the operator's pause is blamed exactly when the last answer that the shim relayed
  was one; and a wall-clock timeout is never overwritten by a ceiling.
\<close>

theorem row_agrees_with_its_category:
  assumes "categorised out" "r = settle_run e j sh out"
  shows "(final_category r = [] \<longleftrightarrow> map_terminated_reason_to_state (ao_reason r) (ao_patch r) = S_PATCH_READY) \<and>
    (final_category r = ''EMPTY_PATCH'' \<longleftrightarrow> map_terminated_reason_to_state (ao_reason r) (ao_patch r) = S_EMPTY_PATCH) \<and>
    (final_category r = ''PAUSED_BY_OPERATOR'' \<longleftrightarrow> pause_seen sh \<and> \<not> killed e out) \<and>
    (ao_reason out = ''timeout'' \<and> \<not> pause_seen sh \<and> \<not> killed e out \<longrightarrow> ao_reason r = ''timeout'')"
  by (rule settled_row [OF assms])

section \<open>The turn cap\<close>

lemma wait_and_reenter_index:
  "case wait_and_reenter x b g a s of Inl (rep, s') \<Rightarrow> sh_index s' = sh_index s | Inr (a', s') \<Rightarrow> sh_index s' = sh_index s"
  by (auto simp: wait_and_reenter_def Let_def shim_simps split: option.splits)

lemma attempt_once_index: "sh_index (result_state (attempt_once loads content d t a s)) = sh_index s"
proof -
  have w: "sh_index (result_state (after_wait (wait_and_reenter x b g a s))) = sh_index s" for x b g a s
    using wait_and_reenter_index [where x = x and b = b and g = g and a = a and s = s] by (auto simp: after_wait_def split: sum.splits prod.splits)
  show ?thesis
    by (auto simp: attempt_once_def read_ahead_def retry_overload_def retry_upstream_def Let_def shim_simps w
        split: upstream_reply.splits option.splits)
qed

lemma attempts_index: "sh_index (snd (attempts loads p r content d a s ts)) = sh_index s"
proof (induction ts arbitrary: a s)
  case (Cons t ts)
  then show ?case
    using attempt_once_index [of loads content d t a s]
    by (auto simp: finish_stream_def Let_def shim_simps split: attempt_result.splits prod.splits)
qed simp

lemma shim_call_index: "sh_index (snd (shim_call loads c e r s)) = sh_index s + 1"
proof (cases "breached c s")
  case True
  then show ?thesis by (simp add: shim_call_def refuse_def begin_call_def record_call_def Let_def)
next
  case False
  have "case admit c kappa weight g r k s of Inl (rep, s') \<Rightarrow> sh_index s' = sh_index s | Inr (a, s') \<Rightarrow> sh_index s' = sh_index s"
      for kappa weight g k s
    by (auto simp: admit_def Let_def shim_simps split: option.splits)
  note ad = this [where kappa = "ce_kappa e" and weight = "ce_weight e" and g = "ce_gate e" and
      k = "forwarded_call c (ce_kappa e) r s" and s = "counted_state r s"]
  show ?thesis
    using ad by (auto simp: shim_call_forward [OF False] attempts_index counted_state_def split: sum.splits)
qed

lemma session_index: "sh_index s \<le> sh_index (snd (shim_session loads c s rs))"
proof (induction rs arbitrary: s)
  case (Cons x rs)
  from Cons.IH [of "snd (shim_call loads c (fst x) (snd x) s)"] show ?case
    by (cases x) (simp add: session_unfold shim_call_index case_prod_unfold Let_def)
qed simp

lemma session_append:
  "shim_session loads c s (xs @ ys) =
     (let (a, s1) = shim_session loads c s xs; (b, s2) = shim_session loads c s1 ys in (a @ b, s2))"
proof (induction xs arbitrary: s)
  case Nil
  show ?case by (simp add: case_prod_unfold Let_def)
next
  case (Cons x xs)
  obtain e r where x: "x = (e, r)" by (cases x)
  show ?case by (simp only: x append_Cons session_unfold Cons.IH) (simp add: case_prod_unfold Let_def)
qed

text \<open>
  C37: What a run that the turn cap stops is recorded as depends on the word of its harness. When the calls
  of a run have used up its turns, its next request is refused with the marker of the turn cap. If the
  harness calls the run completed, crashed or over budget, it is recorded as over its budget, in category and
  state, and not as over its turns; any other reason, such as the exceeded turns that the base adapter
  recognises or the API error that the custom harness makes of the refusal, keeps itself and its
  category.
\<close>

theorem turn_cap_reads_as_budget:
  assumes "shim_after e j calls = Some s" "hj_max_turns j = Some n" "n \<le> sh_turns s" "\<not> sh_paused s" "\<not> we_kill e"
  shows "last (fst (shim_session (we_loads e) (shim_conf_of e j) (new_shim no_usage) (calls @ [(ce, rq)]))) =
      Own 400 ''x-eval-turns-exceeded'' \<and>
    (let r = settle_run e j (shim_after e j (calls @ [(ce, rq)])) out
     in (ao_reason out \<in> {''completed'', ''crash'', ''budget_exceeded''} \<longrightarrow>
           final_category r = ''HARNESS_BUDGET_EXCEEDED'' \<and>
           map_terminated_reason_to_state (ao_reason r) (ao_patch r) = S_BUDGET_EXCEEDED) \<and>
        (ao_reason out \<notin> {''completed'', ''crash'', ''budget_exceeded''} \<longrightarrow>
           ao_reason r = ao_reason out \<and> ao_category r = ao_category out))"
proof -
  let ?c = "shim_conf_of e j"
  obtain reps where r: "shim_session (we_loads e) ?c (new_shim no_usage) calls = (reps, s)"
    using assms(1) by (cases "shim_session (we_loads e) ?c (new_shim no_usage) calls") (auto simp: shim_after_def split: if_splits)
  have t: "turns_breached ?c s" using assms(2,3) by (simp add: turns_breached_def shim_conf_of_def)
  then have one: "shim_call (we_loads e) ?c ce rq s = refuse ?c rq s" by (simp add: shim_call_def breached_def)
  obtain s1 where s1: "refuse ?c rq s = (Own 400 ''x-eval-turns-exceeded'', s1)" "sh_refused s1" "\<not> sh_paused s1" "sh_index s1 = sh_index s + 1"
    using t assms(4) by (simp add: refuse_def begin_call_def record_call_def Let_def)
  have run: "shim_session (we_loads e) ?c (new_shim no_usage) (calls @ [(ce, rq)]) = (reps @ [Own 400 ''x-eval-turns-exceeded''], s1)"
    by (simp add: session_append r session_unfold one s1(1) case_prod_unfold)
  then have after: "shim_after e j (calls @ [(ce, rq)]) = Some s1" using assms(1) by (auto simp: shim_after_def split: if_splits)
  have "sh_index s1 \<noteq> 0" using session_index [of "new_shim no_usage" "we_loads e" ?c calls] r s1(4) by (simp add: new_shim_def)
  have "decided j (Some s1) out =
      (if ao_reason out \<in> {''completed'', ''crash'', ''budget_exceeded''} then (''budget_exceeded'', ''HARNESS_BUDGET_EXCEEDED'')
       else (ao_reason out, ao_category out))"
    using s1 \<open>sh_index s1 \<noteq> 0\<close> by (auto simp: decided_def over_ceiling_def)
  moreover have "\<not> killed e out" using assms(5) by (simp add: killed_def)
  ultimately show ?thesis
    by (simp add: run after Let_def final_category_def settled_reason settled_category map_terminated_reason_to_state_def)
qed

section \<open>The queue\<close>

lemma store_all_only: "x \<in> set (fst (store_all e ks)) \<Longrightarrow> \<exists>k t. x = Stored k t"
  by (induction ks) (auto simp: Let_def split: prod.splits if_splits)

lemma run_tells_nothing:
  assumes "run_harness e j = (r, fs)"
  shows "Removed \<notin> set fs \<and> (\<forall>m. Told m \<notin> set fs)"
proof -
  have s: "Removed \<notin> set (fst (store_all e ks))" "Told m \<notin> set (fst (store_all e ks))" for ks m
    using store_all_only by fastforce+
  have c: "Removed \<notin> set (snd (collect e j sh out)) \<and> (\<forall>m. Told m \<notin> set (snd (collect e j sh out)))" for sh out
    by (simp add: collect_def ship_calls_def Let_def case_prod_unfold s)
  then have "Removed \<notin> set (snd (run_and_collect e j a)) \<and> (\<forall>m. Told m \<notin> set (snd (run_and_collect e j a)))" for a
    by (simp add: run_and_collect_def Let_def case_prod_unfold)
  then show ?thesis using assms
    by (cases "we_adapter e (hj_harness_name j)") (auto simp: run_harness_def Let_def case_prod_unfold)
qed

text \<open>
  C38: A harness job leaves the queue only behind its result. Its message is removed exactly when the run
  gave a result that was sent and the removal went through; then it is the last effect, right behind
  the result, and everything the run stored stands before both; a run without a result sends nothing
  but the notice that it started; and a shim that was started is stopped.
\<close>

theorem job_leaves_behind_its_result:
  assumes "process_job e c j = es" "run_harness e j = (r, fs)"
  shows "(Removed \<in> set es \<longleftrightarrow> r \<noteq> None \<and> jc_result c \<and> jc_delete c) \<and>
    (\<forall>m. r = Some m \<and> jc_result c \<longrightarrow>
       (\<exists>pre. es = pre @ Told (final_result j (jc_stopped c) m) # (if jc_delete c then [Removed] else []) \<and>
          set fs \<subseteq> set pre \<and> Removed \<notin> set pre)) \<and>
    (r = None \<longrightarrow> (\<forall>m. Told m \<in> set es \<longrightarrow> m = harness_running j)) \<and>
    (hj_harness_name j \<in> set SHIM_ROUTED_HARNESSES \<and> we_adapter e (hj_harness_name j) \<noteq> None \<longrightarrow> Shim_stopped \<in> set fs)"
proof -
  let ?notice = "if jc_notice c then [Told (harness_running j)] else []"
  note none = run_tells_nothing [OF assms(2)]
  have es: "es = ?notice @ fs @ (case r of None \<Rightarrow> [] | Some m \<Rightarrow>
      if jc_result c then Told (final_result j (jc_stopped c) m) # (if jc_delete c then [Removed] else []) else [])"
    using assms by (simp add: process_job_def)
  have "Removed \<in> set es \<longleftrightarrow> r \<noteq> None \<and> jc_result c \<and> jc_delete c" using none by (auto simp: es split: option.splits)
  moreover have "\<exists>pre. es = pre @ Told (final_result j (jc_stopped c) m) # (if jc_delete c then [Removed] else []) \<and>
      set fs \<subseteq> set pre \<and> Removed \<notin> set pre" if "r = Some m \<and> jc_result c" for m
    by (rule exI [of _ "?notice @ fs"]) (use that none in \<open>auto simp: es\<close>)
  moreover have "m = harness_running j" if "r = None" "Told m \<in> set es" for m
    using that none by (auto simp: es split: if_splits)
  moreover have "Shim_stopped \<in> set fs"
    if "hj_harness_name j \<in> set SHIM_ROUTED_HARNESSES \<and> we_adapter e (hj_harness_name j) \<noteq> None"
    using that assms(2) by (auto simp: run_harness_def Let_def case_prod_unfold)
  ultimately show ?thesis by blast
qed

section \<open>On to grading\<close>

lemma final_fields [simp]:
  "rm_patch_s3_key (final_result j b m) = rm_patch_s3_key m" "rm_run_id (final_result j b m) = rm_run_id m"
  "rm_instance_id (final_result j b m) = rm_instance_id m" "rm_attempt (final_result j b m) = rm_attempt m"
  by (simp_all add: final_result_def reclassify_aborted_def apply_resolved_window_def Let_def split: option.split)

lemma final_state:
  "rm_state (final_result j b m) = (if b then ''ABORTED_IN_FLIGHT'' else rm_state m)"
  by (simp add: final_result_def reclassify_aborted_def apply_resolved_window_def Let_def split: option.split)

lemma final_phase: "rm_phase m = ''harness'' \<Longrightarrow> rm_phase (final_result j b m) = ''harness''"
  by (simp add: final_result_def reclassify_aborted_def apply_resolved_window_def Let_def split: option.split)

lemma healthy_enqueue:
  assumes "rm_phase m = ''harness''" "rm_state m = ''PATCH_READY''" "map_of (lg_runs lg) (rm_run_id m) \<noteq> None"
    and "case map_of (lg_table lg) (row_key m) of None \<Rightarrow> True | Some row \<Rightarrow> state_rank (lr_state row) < 4"
  shows "lg_eval_jobs (snd (process_result healthy now m lg)) = lg_eval_jobs lg @ [eval_job_for m]"
proof -
  have "state_rank (rm_state m) = 4" using assms(2) by (simp add: state_rank_def)
  then have "fst (upsert now m (lg_table lg))" using assms(4) by (auto simp: upsert_def split: option.splits)
  then show ?thesis using assms(1-3)
    by (auto simp: process_result_def healthy_def enqueue_eval_job_def maintain_run_summary_def Let_def split: prod.splits)
qed

lemma no_enqueue:
  "rm_state m \<noteq> ''PATCH_READY'' \<Longrightarrow> lg_eval_jobs (snd (process_result h now m lg)) = lg_eval_jobs lg"
  by (auto simp: process_result_def maintain_run_summary_def Let_def split: prod.splits)

text \<open>
  From the harness to the grader. A run whose row is ready and that was not stopped makes the ledger send
  exactly one eval job, for its attempt, with a key under which the worker stored a patch; a run that a
  stop reached first, whatever it produced, is never graded, though its patch stays under the key of its row.
\<close>

theorem ready_patch_reaches_grading:
  assumes "run_harness e j = (Some m, es)" "rm_state m = ''PATCH_READY''" "map_of (lg_runs lg) (hj_run_id j) \<noteq> None"
    and "case map_of (lg_table lg) (hj_run_id j, hj_instance_id j, hj_attempt j, ''harness'') of
      None \<Rightarrow> True | Some row \<Rightarrow> state_rank (lr_state row) < 4"
  shows "lg_eval_jobs (snd (process_result healthy now (final_result j stopped m) lg)) = lg_eval_jobs lg @
      (if stopped then [] else [\<lparr>ej_run_id = hj_run_id j, ej_instance_id = hj_instance_id j, ej_attempt = hj_attempt j,
         ej_patch_s3_key = harness_prefix j @ ''/patch.diff'', ej_use_gold = False\<rparr>]) \<and>
    Stored (harness_prefix j @ ''/patch.diff'') None \<in> set es \<and>
    rm_patch_s3_key (final_result j stopped m) = harness_prefix j @ ''/patch.diff''"
proof -
  obtain calls r where "let sh = shim_after e j calls; out = settle_run e j sh (output_of e r)
      in m = harness_result e j sh out \<and> (\<forall>(k, t) \<in> set (artifacts e j out). Stored k t \<in> set es)"
    using run_harness_result [OF assms(1)] by blast
  then obtain sh out where m: "m = harness_result e j sh out" "\<forall>(k, t) \<in> set (artifacts e j out). Stored k t \<in> set es"
    by (auto simp: Let_def)
  have f: "ao_reason out = ''completed''" "truthy (ao_patch out)"
    using assms(2) by (simp_all add: m(1) state_text_ready ready_state)
  have k: "rm_patch_s3_key m = harness_prefix j @ ''/patch.diff''" "Stored (harness_prefix j @ ''/patch.diff'') None \<in> set es"
    using m(2) f by (auto simp: m(1) key_if_def artifacts_def patch_tag_def)
  have key: "row_key (final_result j False m) = (hj_run_id j, hj_instance_id j, hj_attempt j, ''harness'')"
    using final_phase [of m] by (simp add: row_key_def m(1))
  have "lg_eval_jobs (snd (process_result healthy now (final_result j False m) lg)) =
      lg_eval_jobs lg @ [eval_job_for (final_result j False m)]"
    by (rule healthy_enqueue) (use assms(2-4) key final_phase [of m] in \<open>simp_all add: final_state m(1)\<close>)
  moreover have "lg_eval_jobs (snd (process_result healthy now (final_result j True m) lg)) = lg_eval_jobs lg"
    by (rule no_enqueue) (simp add: final_state)
  ultimately show ?thesis using k by (cases stopped) (simp_all add: eval_job_for_def m(1) key_if_def)
qed

section \<open>From the dispatcher to the task\<close>

text \<open>The job as its task rebuilds it.\<close>

definition rebuilt_job :: "harness_job \<Rightarrow> real \<Rightarrow> harness_job" where
  "rebuilt_job j now = j\<lparr>hj_env_image_key := [], hj_max_cost_usd := fixed3 (hj_max_cost_usd j),
     hj_dispatched_at := Some (fixed3 (Fin now)), hj_queue_wait_s := map_option fixed3 (hj_queue_wait_s j)\<rparr>"

text \<open>
  C28: A task runs the job that it was launched for. For a job whose repository, commit and statement are
  those of the mirror, in an image that was baked for its instance, the task that gets the dispatcher's reference
  through its environment processes that very job, with its three times and costs rounded to
  three decimals; in any other image nothing runs.
\<close>

theorem task_runs_its_job:
  assumes "hj_run_id j \<noteq> []" "hj_instance_id j \<noteq> []" "handle \<noteq> []" "hj_harness_name j \<noteq> []" "hj_model_alias j \<noteq> []"
    and "key \<noteq> Some []" "we_mirror e (hj_instance_id j) = Some i"
    and "hj_repo_url j = ''https://github.com/'' @ mi_repo i" "hj_base_commit j = mi_commit i" "hj_problem_statement j = mi_statement i"
  shows "run_harness_worker_job e c (to_env (reference_for j handle now key)) =
    (if we_sentinel e = Some (hj_instance_id j)
     then (Worker_goes_on, process_job (timed (map_option fixed3 (hj_queue_wait_s j)) (Some (fixed3 (Fin now))) e) c (rebuilt_job j now))
     else (Worker_fails, []))"
proof -
  let ?r = "reference_for j handle now key"
  have env: "from_env (to_env ?r) = Inr (?r\<lparr>jr_max_cost_usd := fixed3 (jr_max_cost_usd ?r),
      jr_dispatched_at := map_option fixed3 (jr_dispatched_at ?r), jr_queue_wait_s := map_option fixed3 (jr_queue_wait_s ?r)\<rparr>)"
    by (rule reference_roundtrip) (use assms in \<open>simp_all add: reference_for_def\<close>)
  have "job_from_reference (?r\<lparr>jr_max_cost_usd := fixed3 (jr_max_cost_usd ?r),
      jr_dispatched_at := map_option fixed3 (jr_dispatched_at ?r), jr_queue_wait_s := map_option fixed3 (jr_queue_wait_s ?r)\<rparr>) i =
      rebuilt_job j now"
    by (rule harness_job.equality) (use assms(8-10) in \<open>simp_all add: reference_for_def job_from_reference_def rebuilt_job_def\<close>)
  then show ?thesis unfolding run_harness_worker_job_def env
    using assms(7) by (simp add: verify_testbed_prebaked_def reference_for_def)
qed

text \<open>
  A small ceiling becomes none at all. A cost ceiling below half a thousandth of a dollar reaches the task
  as zero, and under a ceiling of zero the shim refuses every call of the run, so that its first
  request already ends it.
\<close>

theorem small_ceiling_refuses_every_call:
  assumes "hj_max_cost_usd j = Fin x" "0 \<le> x" "x < 1 / 2000"
  shows "hj_max_cost_usd (rebuilt_job j now) = Fin 0 \<and>
    (\<forall>rep \<in> set (fst (shim_session loads (shim_conf_of e (rebuilt_job j now)) (new_shim no_usage) calls)). reply_status rep = Some 400)"
proof -
  have "\<lfloor>1000 * x\<rfloor> = 0" using assms(2,3) by (simp add: floor_eq_iff)
  then have z: "hj_max_cost_usd (rebuilt_job j now) = Fin 0"
    using assms by (simp add: rebuilt_job_def fixed3_def py_round_def Let_def)
  then have "breached (shim_conf_of e (rebuilt_job j now)) (new_shim no_usage)"
    by (simp add: breached_def shim_conf_of_def new_shim_def no_usage_def)
  from breached_stays [OF this] z show ?thesis by blast
qed

section \<open>The visibility of a message\<close>

text \<open>At most \<open>m\<close> beats in a row are lost.\<close>

fun losses_within :: "nat \<Rightarrow> nat \<Rightarrow> (real \<times> bool) list \<Rightarrow> bool" where
  "losses_within m k [] = True"
| "losses_within m k ((late, ok) # beats) =
     (if ok then losses_within m m beats else k \<noteq> 0 \<and> losses_within m (k - 1) beats)"

definition last_beat :: "real \<Rightarrow> (real \<times> bool) list \<Rightarrow> real" where
  "last_beat now beats = now + (\<Sum>b \<leftarrow> beats. 34 + fst b)"

lemma heartbeat_within:
  assumes "losses_within m k beats" "k \<le> m" "\<forall>(late, ok) \<in> set beats. 0 \<le> late \<and> late \<le> g" "0 \<le> g"
    and "now - t0 \<le> real (m - k) * (34 + g)" "real (Suc m) * (34 + g) < d"
  shows "gaps_below d t0 (harness_heartbeat now beats) (last_beat now beats)"
  using assms(1-5)
proof (induction beats arbitrary: k now t0)
  case Nil
  have "real (m - k) * (34 + g) \<le> real (Suc m) * (34 + g)" using assms(4) by (intro mult_right_mono) simp_all
  with Nil.prems(5) assms(6) have "now - t0 < d" by linarith
  then show ?case by (simp add: last_beat_def)
next
  case (Cons b beats)
  obtain late ok where b: "b = (late, ok)" by (cases b)
  let ?t = "now + 34 + late"
  have l: "0 \<le> late" "late \<le> g" "last_beat now (b # beats) = last_beat ?t beats" using Cons.prems(3) by (auto simp: b last_beat_def)
  show ?case
  proof (cases ok)
    case True
    have "real (m - k) * (34 + g) + (34 + g) \<le> real (Suc m) * (34 + g)"
      using assms(4) mult_right_mono [of "real (m - k) + 1" "real (Suc m)" "34 + g"] by (simp add: algebra_simps)
    then have "?t - t0 < d" using Cons.prems(5) l assms(6) by simp
    moreover have "gaps_below d ?t (harness_heartbeat ?t beats) (last_beat ?t beats)"
      by (rule Cons.IH [of m]) (use Cons.prems True assms(4) in \<open>auto simp: b\<close>)
    ultimately show ?thesis using True l by (simp add: b HARNESS_HEARTBEAT_SECONDS_def Let_def)
  next
    case False
    obtain k' where k: "k = Suc k'" using Cons.prems(1) False by (cases k) (auto simp: b)
    have "real (m - k') = real (m - k) + 1" using Cons.prems(2) by (simp add: k)
    then have t: "?t - t0 \<le> real (m - k') * (34 + g)" using Cons.prems(5) l by (simp add: algebra_simps)
    have "gaps_below d t0 (harness_heartbeat ?t beats) (last_beat ?t beats)"
      by (rule Cons.IH [of k', OF _ _ _ _ t]) (use Cons.prems False in \<open>auto simp: b k\<close>)
    then show ?thesis using False l by (simp add: b HARNESS_HEARTBEAT_SECONDS_def Let_def)
  qed
qed

text \<open>
  Five lost beats do not lose a job. While no more than five extensions in a row fail and none takes longer
  than five seconds, the message in work is extended before its 235 seconds run out, from its receipt to the last
  beat.
\<close>

theorem lost_beats_keep_the_job:
  assumes "losses_within 5 5 beats" "\<forall>(late, ok) \<in> set beats. 0 \<le> late \<and> late \<le> 5"
  shows "gaps_below HARNESS_VISIBILITY_SECONDS t0 (harness_heartbeat t0 beats) (last_beat t0 beats)"
  unfolding HARNESS_VISIBILITY_SECONDS_def
  by (rule heartbeat_within [of 5 5 _ 5]) (use assms in auto)

section \<open>The theorems at concrete inputs\<close>

definition demo_work :: harness_job where
  "demo_work = \<lparr>hj_run_id = ''r'', hj_instance_id = ''i'', hj_repo_url = ''https://github.com/a'', hj_base_commit = ''c'',
     hj_problem_statement = ''p'', hj_attempt = 1, hj_harness_name = ''codex'', hj_model_alias = ''m'', hj_env_image_key = [],
     hj_timeout_seconds = 5400, hj_max_tokens = Some 100, hj_max_cost_usd = Fin 5, hj_max_turns = Some 1,
     hj_dispatched_at = None, hj_queue_wait_s = None, hj_context_window = None\<rparr>"

definition demo_output :: adapter_output where
  "demo_output = \<lparr>ao_patch = Some ''d'', ao_trajectory = [], ao_raw_log = [], ao_native = [], ao_reported = None,
     ao_extract_s = None, ao_wall = Fin 9, ao_error = [], ao_reason = ''completed'', ao_category = [], ao_compactions = None,
     ao_before = None, ao_after = None, ao_window = None, ao_events = None\<rparr>"

definition demo_calls :: "(call_env \<times> shim_request) list" where
  "demo_calls = [(\<lparr>ce_kappa = 4, ce_weight = 1, ce_gate = Gate_shut 5, ce_clock = 0, ce_attempts = []\<rparr>, chat_request)]"

definition demo_worker :: worker_env where
  "demo_worker = \<lparr>we_mirror = (\<lambda>i. Some \<lparr>mi_repo = ''a'', mi_commit = ''c'', mi_statement = ''p''\<rparr>), we_sentinel = Some ''i'',
     we_published = None, we_gateway = ''g'', we_workdir = ''w'', we_adapter = (\<lambda>name. Some (\<lambda>x. (demo_calls, Inr demo_output))),
     we_loads = (\<lambda>t. None), we_pacer = True, we_hold_cap = 100, we_local_url = ''l'', we_files = (\<lambda>p. None),
     we_events = (\<lambda>t. []), we_evidence = (\<lambda>why. []), we_kill = False, we_cost_text = (\<lambda>x. []), we_stored = (\<lambda>k. True),
     we_calls_sent = True, we_progress_ok = True, we_from_date = (\<lambda>t. None),
     we_times = \<lparr>wt_queue_wait = None, wt_dispatched = None, wt_task = None, wt_boot = 1, wt_crash = 5, wt_prep = 1, wt_upload = 1, wt_exit = 9\<rparr>\<rparr>"

definition demo_job_calls :: job_calls where
  "demo_job_calls = \<lparr>jc_notice = True, jc_stopped = False, jc_result = True, jc_delete = True\<rparr>"

lemma demo_shim:
  assumes "h \<in> set SHIM_ROUTED_HARNESSES"
  shows "\<exists>s. shim_after demo_worker (demo_work\<lparr>hj_harness_name := h\<rparr>) demo_calls = Some s \<and> sh_index s = 1 \<and> sh_turns s = 1 \<and> \<not> sh_refused s \<and> \<not> sh_paused s \<and>
     spent_tokens s = 0 \<and> su_cost (sh_usage s) = 0"
proof -
  let ?c = "shim_conf_of demo_worker (demo_work\<lparr>hj_harness_name := h\<rparr>)" and ?s = "counted_state chat_request (new_shim no_usage)"
  have room: "\<not> breached ?c (new_shim no_usage)"
    by (simp add: breached_def turns_breached_def spent_tokens_def shim_conf_of_def demo_work_def new_shim_def no_usage_def)
  have path: "is_completion_path (rq_path chat_request)" using chat_paced by (simp add: paced_call_def)
  have "\<exists>k x rep. admit ?c 4 1 (Gate_shut 5) chat_request (forwarded_call ?c 4 chat_request (new_shim no_usage)) ?s =
      Inl (rep, record_call k (on_usage (fold_timeout x False) ?s))"
    using path by (simp add: admit_def Let_def shim_conf_of_def demo_worker_def) blast
  then obtain k x rep where a: "admit ?c 4 1 (Gate_shut 5) chat_request (forwarded_call ?c 4 chat_request (new_shim no_usage)) ?s =
      Inl (rep, record_call k (on_usage (fold_timeout x False) ?s))" by blast
  have "shim_after demo_worker (demo_work\<lparr>hj_harness_name := h\<rparr>) demo_calls = Some (record_call k (on_usage (fold_timeout x False) ?s))"
    using assms by (simp add: shim_after_def demo_calls_def session_unfold shim_call_forward [OF room] a)
  moreover have "sh_turns ?s = 1" "sh_index ?s = 1" "\<not> sh_refused ?s" "\<not> sh_paused ?s" "sh_usage ?s = no_usage"
    using path by (simp_all add: counted_state_def new_shim_def)
  ultimately show ?thesis
    by (simp add: record_call_def on_usage_def fold_timeout_def Let_def spent_tokens_def no_usage_def)
qed

lemma demo_routed_run:
  assumes "h \<in> set SHIM_ROUTED_HARNESSES"
  shows "\<exists>m es. run_harness demo_worker (demo_work\<lparr>hj_harness_name := h\<rparr>) = (Some m, es) \<and> rm_state m = ''PATCH_READY''"
proof -
  let ?j = "demo_work\<lparr>hj_harness_name := h\<rparr>"
  obtain s where s: "shim_after demo_worker ?j demo_calls = Some s" "sh_index s = 1" "\<not> sh_refused s" "\<not> sh_paused s"
    "spent_tokens s = 0" "su_cost (sh_usage s) = 0" using demo_shim [OF assms] by blast
  then have "\<not> over_ceiling ?j s" by (simp add: over_ceiling_def demo_work_def)
  then have o: "settle_run demo_worker ?j (Some s) demo_output = demo_output"
    using s by (simp add: settle_run_def classify_pause_def classify_zero_model_calls_def classify_budget_breach_def kill_stuck_def
        detect_stuck_def demo_output_def)
  have c: "fst (collect demo_worker ?j (Some s) demo_output) = Some (harness_result demo_worker ?j (Some s) demo_output)"
    by (simp add: collect_def artifacts_def demo_output_def file_there_def demo_worker_def)
  have w: "we_adapter demo_worker n = Some (\<lambda>x. (demo_calls, Inr demo_output))" "we_mirror demo_worker k \<noteq> None"
    "verify_testbed_prebaked demo_worker (hj_instance_id ?j)" for n k
    by (simp_all add: demo_worker_def demo_work_def verify_testbed_prebaked_def)
  have "fst (run_harness demo_worker ?j) = Some (harness_result demo_worker ?j (Some s) demo_output)"
    using s(1) o c w by (simp add: run_harness_def run_and_collect_def Let_def case_prod_unfold output_of_def)
  moreover have "rm_state (harness_result demo_worker ?j (Some s) demo_output) = ''PATCH_READY''"
    by (simp add: demo_output_def map_terminated_reason_to_state_def truthy_def)
  ultimately show ?thesis
    by (cases "run_harness demo_worker ?j") simp
qed

lemma demo_worker_run:
  "\<exists>m es. run_harness demo_worker demo_work = (Some m, es) \<and> rm_state m = ''PATCH_READY'' \<and>
     hj_harness_name demo_work \<in> set SHIM_ROUTED_HARNESSES"
proof -
  have "demo_work\<lparr>hj_harness_name := hj_harness_name demo_work\<rparr> = demo_work" by simp
  moreover have routed: "hj_harness_name demo_work \<in> set SHIM_ROUTED_HARNESSES"
    by (simp add: demo_work_def SHIM_ROUTED_HARNESSES_def)
  ultimately show ?thesis using demo_routed_run [OF routed] by metis
qed

theorem ready_patch_was_metered_witness:
  "\<exists>m es. run_harness demo_worker demo_work = (Some m, es) \<and> Stored (rm_patch_s3_key m) None \<in> set es"
  using demo_worker_run ready_patch_was_metered by blast

theorem row_agrees_with_its_category_witness:
  "final_category (settle_run demo_worker demo_work None demo_output) = []"
  using row_agrees_with_its_category [of demo_output "settle_run demo_worker demo_work None demo_output" demo_worker demo_work None]
  by (simp add: categorised_def demo_output_def settle_run_def classify_pause_def classify_zero_model_calls_def
      classify_budget_breach_def kill_stuck_def detect_stuck_def map_terminated_reason_to_state_def truthy_def)

theorem turn_cap_reads_as_budget_witness:
  "final_category (settle_run demo_worker demo_work (shim_after demo_worker demo_work (demo_calls @ demo_calls))
     (demo_output\<lparr>ao_reason := ''crash''\<rparr>)) = ''HARNESS_BUDGET_EXCEEDED''"
proof -
  have codex: "demo_work\<lparr>hj_harness_name := ''codex''\<rparr> = demo_work" by (simp add: demo_work_def)
  obtain s where s: "shim_after demo_worker demo_work demo_calls = Some s" "sh_turns s = 1" "\<not> sh_paused s"
    using demo_shim [of "''codex''"] by (auto simp: SHIM_ROUTED_HARNESSES_def codex)
  have "hj_max_turns demo_work = Some 1" "\<not> we_kill demo_worker" by (simp_all add: demo_work_def demo_worker_def)
  from turn_cap_reads_as_budget [OF s(1) this(1) _ s(3) this(2), of "fst (hd demo_calls)" "snd (hd demo_calls)" "demo_output\<lparr>ao_reason := ''crash''\<rparr>"]
  show ?thesis using s(2) by (simp add: Let_def demo_calls_def)
qed

theorem job_leaves_behind_its_result_witness: "Removed \<in> set (process_job demo_worker demo_job_calls demo_work)"
proof -
  obtain m es where "run_harness demo_worker demo_work = (Some m, es)" using demo_worker_run by blast
  from job_leaves_behind_its_result [OF refl this, of demo_job_calls] show ?thesis by (simp add: demo_job_calls_def)
qed

theorem ready_patch_reaches_grading_witness:
  "\<exists>m es. run_harness demo_worker demo_work = (Some m, es) \<and>
     length (lg_eval_jobs (snd (process_result healthy 1 (final_result demo_work False m) demo_ledger))) = 1"
proof -
  obtain m es where run: "run_harness demo_worker demo_work = (Some m, es)" "rm_state m = ''PATCH_READY''" using demo_worker_run by blast
  have "map_of (lg_runs demo_ledger) (hj_run_id demo_work) \<noteq> None" "map_of (lg_table demo_ledger) k = None" for k
    by (simp_all add: demo_ledger_def demo_work_def)
  with ready_patch_reaches_grading [OF run, of demo_ledger 1 False] run show ?thesis
    by (simp add: demo_ledger_def)
qed

theorem task_runs_its_job_witness:
  "fst (run_harness_worker_job demo_worker demo_job_calls (to_env (reference_for demo_work ''h'' 0 None))) = Worker_goes_on"
  using task_runs_its_job [of demo_work "''h''" None demo_worker "\<lparr>mi_repo = ''a'', mi_commit = ''c'', mi_statement = ''p''\<rparr>" demo_job_calls 0]
  by (simp add: demo_work_def demo_worker_def)

theorem small_ceiling_refuses_every_call_witness:
  "hj_max_cost_usd (rebuilt_job (demo_work\<lparr>hj_max_cost_usd := Fin (1 / 4096)\<rparr>) 0) = Fin 0"
  using small_ceiling_refuses_every_call [of "demo_work\<lparr>hj_max_cost_usd := Fin (1 / 4096)\<rparr>" "1 / 4096" 0] by simp

theorem lost_beats_keep_the_job_witness:
  "gaps_below HARNESS_VISIBILITY_SECONDS 0 (harness_heartbeat 0 [(1, False), (2, True)]) (last_beat 0 [(1, False), (2, True)])"
  by (rule lost_beats_keep_the_job) simp_all

end
