(* ===== verification/Agent_Worker.thy ===== *)
theory Agent_Worker
  imports Worker_Facts Agent_Facts
begin

text \<open>The custom minimal harness under the harness worker: what a graded run of it stands for.\<close>

text \<open>The output of the agent as the worker reads it; what the agent's model leaves out is given.\<close>

definition custom_output :: "adapter_output \<Rightarrow> harness_output \<Rightarrow> adapter_output" where
  "custom_output rest out = rest\<lparr>ao_patch := ho_patch out, ao_reason := ho_reason out,
     ao_category := (case ho_category out of None \<Rightarrow> [] | Some c \<Rightarrow> category_name c), ao_window := ho_window out\<rparr>"

lemma custom_categorised:
  assumes "run_agent os parse i prepared sc diff files = Inr out"
  shows "categorised (custom_output rest out)"
  using run_agent_category [OF assms] by (cases "ho_category out") (auto simp: categorised_def custom_output_def)

text \<open>
  C15: A graded run of the custom harness was finished by its model and metered by the shim. When the worker's
  row of such a run says that the patch is ready, the patch is the one that git saw at the end, some turn was
  answered by a text without a tool call, uncut and no refusal, the loop ended with exit code 0 and
  fewer than three malformed calls, and the shim of the worker serviced a call and refused none; in every
  case the category of the row is empty exactly when its patch is ready.
\<close>

theorem graded_custom_run_was_finished:
  assumes "run_agent os parse i prepared sc diff files = Inr out"
    and "we_adapter e ''custom_minimal'' = Some (\<lambda>x. (calls, Inr (custom_output rest out)))" "hj_harness_name j = ''custom_minimal''"
    and "run_harness e j = (Some m, es)"
  shows "(rm_state m = ''PATCH_READY'' \<longrightarrow>
      ho_exit out = 0 \<and> truthy (ho_patch out) \<and>
      (\<exists>t r ag. 1 \<le> t \<and> t \<le> ai_max_turns i \<and> answered i sc t r \<and> finishing r \<and> ho_agent out = Some ag \<and> ag_malformed ag < 3) \<and>
      (\<exists>s. shim_after e j calls = Some s \<and> sh_index s \<noteq> 0 \<and> \<not> sh_refused s \<and> \<not> sh_paused s)) \<and>
    (rm_error_category m = [] \<longleftrightarrow> rm_state m = ''PATCH_READY'')"
proof -
  let ?out = "custom_output rest out"
  obtain s where s: "shim_after e j calls = Some s" using assms(3) by (auto simp: shim_after_def SHIM_ROUTED_HARNESSES_def)
  let ?r = "settle_run e j (Some s) ?out"
  have m: "m = harness_result e j (Some s) ?r"
    using run_harness_result [OF assms(4)] assms(2,3) s by (auto simp: Let_def output_of_def)
  have agree: "rm_error_category m = [] \<longleftrightarrow> rm_state m = ''PATCH_READY''"
    using settled_agreement [OF custom_categorised [OF assms(1)], of e j "Some s" rest] by (simp add: m state_text_ready)
  have "ho_exit out = 0 \<and> truthy (ho_patch out) \<and>
      (\<exists>t r ag. 1 \<le> t \<and> t \<le> ai_max_turns i \<and> answered i sc t r \<and> finishing r \<and> ho_agent out = Some ag \<and> ag_malformed ag < 3) \<and>
      (\<exists>s. shim_after e j calls = Some s \<and> sh_index s \<noteq> 0 \<and> \<not> sh_refused s \<and> \<not> sh_paused s)"
    if ready: "rm_state m = ''PATCH_READY''"
  proof -
    have f: "ao_reason ?r = ''completed''" "truthy (ho_patch out)"
      using ready by (simp_all add: m state_text_ready ready_state custom_output_def)
    from completed_settled [OF f(1)] have g: "ho_reason out = ''completed''" "sh_index s \<noteq> 0" "\<not> sh_paused s" "\<not> sh_refused s"
      by (auto simp: custom_output_def over_ceiling_def)
    from completed_run [OF assms(1) g(1)] f(2) g s show ?thesis by blast
  qed
  with agree show ?thesis by blast
qed

theorem graded_custom_run_was_finished_witness:
  "\<exists>out m es. run_agent demo_os demo_parse demo_input True (always (Inr ([said ''done'' []], Some demo_usage))) (\<lambda>tr. (Some ''d'', False))
      demo_files = Inr out \<and> run_harness demo_worker (demo_work\<lparr>hj_harness_name := ''custom_minimal''\<rparr>) = (Some m, es) \<and>
      ho_exit out = 0 \<and> rm_error_category m = []"
proof -
  let ?j = "demo_work\<lparr>hj_harness_name := ''custom_minimal''\<rparr>"
  obtain out where out: "run_agent demo_os demo_parse demo_input True (always (Inr ([said ''done'' []], Some demo_usage))) (\<lambda>tr. (Some ''d'', False))
      demo_files = Inr out" "ho_patch out = Some ''d''" "ho_reason out = ''completed''" "ho_category out = None" "ho_window out = None"
    using demo_finish by simp
  then have "custom_output demo_output out = demo_output" by (simp add: custom_output_def demo_output_def)
  then have a: "we_adapter demo_worker ''custom_minimal'' = Some (\<lambda>x. (demo_calls, Inr (custom_output demo_output out)))"
    by (simp add: demo_worker_def)
  obtain m es where run: "run_harness demo_worker ?j = (Some m, es)" "rm_state m = ''PATCH_READY''"
    using demo_routed_run [of "''custom_minimal''"] by (auto simp: SHIM_ROUTED_HARNESSES_def)
  from graded_custom_run_was_finished [OF out(1) a _ run(1)] run(2) have "ho_exit out = 0 \<and> rm_error_category m = []" by simp
  with out(1) run(1) show ?thesis by blast
qed

end
