(* ===== verification/Spec2Isabelle.thy ===== *)
theory Spec2Isabelle
  imports Taxonomy Pacer_Examples Pacer_Client Control_State Eval_Autoscaler Ceiling_Probe Compaction Stuck_Detector Ledger_Facts Run_Reaper Run_Abort Run_Restart Gateway_Pause Job_Messages Dispatch_Gate Demand_Model Fleet_Planner Planner_Facts Shim_Requests Shim_Calls Shim_Accounts Leak_Detection Grading Eval_Worker Launch_Facts Agent_Tools Agent_Loop Agent_Facts Judge_Scores Judge_Pass Judge_Facts Worker_Timing Harness_Worker Worker_Facts Agent_Worker
begin

text \<open>
  A verification development of the agent-evaluation service under \<open>src/swebench_eval\<close>. The
  service runs coding agents (harness tasks) against a model gateway and grades their patches
  (eval tasks). What is modelled here is the logic that decides, not the I/O around it: how a
  model call is admitted, how operators stop and limit a run, how the eval fleet is sized, how a
  provider's capacity is measured, how a conversation is compacted, what an outcome means, how
  results reach the ledger, how runs are reaped, aborted, restarted and closed, how the dispatcher
  gates its launches and plans its fleet, how the gateway shim forwards and accounts a model call,
  how a run is launched, how the service's own agent works on a task, how a harness worker turns a job into
  a row, how a patch is graded, and how trajectories are judged afterwards.

  Parts of the program and where they are modelled.

  \<^item> Outcome taxonomy, \<open>database/state_machine.py\<close>: theory \<open>Taxonomy\<close>. The error categories, the
    retryable and terminal sets, and the mappings from harness reasons and eval flags.
  \<^item> Adaptive pacer, \<open>gateway/pacer.py\<close>: theories \<open>Pacer_Script\<close> (the Lua admission script on the
    five Redis keys of an alias), \<open>Token_Bucket\<close> (the law of a refilled bucket as a locale,
    interpreted on the script's refill), \<open>Pacer_Trace\<close> and \<open>Pacer_Safety\<close> (runs of admissions,
    releases and dequeues, their invariant and ledgers), \<open>Pacer_Fair\<close> (what a bypass and a denial
    leave, liveness of a quiet head), \<open>Pacer_Client\<close> (charges, key names, the acquire loop, the
    local fallback, release and statistics), \<open>Pacer_Examples\<close> (instances).
  \<^item> Control state, \<open>control/state.py\<close>: theory \<open>Control_State\<close>. Pause and abort flags in Valkey with
    Aurora as the truth; \<open>Redis_Hash\<close> states the hash operations as a locale and interprets it.
  \<^item> Pacer seeds, \<open>orchestrator/control_plane/pacer_seeds.py\<close>: theory \<open>Pacer_Seeds\<close>.
  \<^item> Operator limits, \<open>orchestrator/control_plane/operator_limits.py\<close>, with the publication of a
    launch's overrides from \<open>run_launch.py\<close>: theory \<open>Operator_Limits\<close>.
  \<^item> Eval autoscaler, \<open>orchestrator/control_plane/eval_autoscaler.py\<close>: theory \<open>Eval_Autoscaler\<close>.
  \<^item> Ceiling probe, \<open>gateway/ceiling_discovery.py\<close> and the overload classifier of
    \<open>harnesses/routing.py\<close>: theory \<open>Ceiling_Probe\<close>.
  \<^item> Context compaction, \<open>harnesses/compaction.py\<close>: theory \<open>Compaction\<close>.
  \<^item> Stuck detector, \<open>harnesses/stuck_detector.py\<close>: theory \<open>Stuck_Detector\<close>.
  \<^item> Results ledger, \<open>orchestrator/control_plane/results_writer.py\<close>, \<open>state_rank\<close> of \<open>init.sql\<close>
    and \<open>ResultMessage\<close> of \<open>queue/schemas.py\<close>: theories \<open>Result_Message\<close> (the message, its parser),
    \<open>Results_Ledger\<close> (guarded upsert, evidence fill, eval jobs, run summary, dead letters),
    \<open>Ledger_Runs\<close> (sequences of deliveries) and \<open>Ledger_Facts\<close> (order, the column types that \<open>init.sql\<close>
    declares, the summary).
  \<^item> Run lifecycle: \<open>Run_Reaper\<close> (rules 2 and 3 of \<open>run_supervisor.py\<close>), \<open>Run_Abort\<close> (\<open>abort.py\<close>),
    \<open>Run_Restart\<close> (\<open>restart.py\<close>, \<open>finalise_run\<close>, the derived denominator of \<open>queries.py\<close>) and
    \<open>Gateway_Pause\<close> (\<open>gateway_pause.py\<close>).
  \<^item> Harness dispatcher, \<open>orchestrator/control_plane/harness_dispatcher.py\<close>: \<open>Job_Messages\<close>
    (\<open>HarnessJob\<close> and \<open>JobReference\<close> of \<open>queue/schemas.py\<close>), \<open>Dispatch_Gate\<close> (isolation, admission,
    launch failures, the loop), \<open>Demand_Model\<close> (\<open>DemandModel\<close> and \<open>demand_curves.py\<close>), \<open>Fleet_Planner\<close>
    (the class \<open>Autoscaler\<close>) and \<open>Planner_Facts\<close> (its theorems).
  \<^item> Gateway shim, \<open>gateway/local_proxy.py\<close> with \<open>gateway/pricing.py\<close>: \<open>Shim_Requests\<close> (what is added
    to a request, prices, the usage of a reply), \<open>Shim_Calls\<close> (ceilings, admission, the retry loop, the
    end of the stream, sequences of calls) and \<open>Shim_Accounts\<close> (its theorems). \<open>Text_Lines\<close> holds the
    text operations of Python that the shim and the evaluation share.
  \<^item> Evaluation: \<open>Leak_Detection\<close> (\<open>evaluation/leak_detection.py\<close>), \<open>Grading\<close> (\<open>swebench_runner.py\<close>,
    \<open>grade_limits.py\<close>, \<open>grade_progress.py\<close>, \<open>grading_adapter.py\<close>) and \<open>Eval_Worker\<close>
    (\<open>workers/eval_worker.py\<close>).

  \<^item> Run launch, \<open>run_launch.py\<close> and \<open>dispatcher.py\<close> of \<open>orchestrator/control_plane\<close>: \<open>Run_Launch\<close> (the
    claim of a pair of harness and model, the keys of a run, the seeded rows, the dispatch with its
    admission checks, the release) and \<open>Launch_Facts\<close> (its theorems).
  \<^item> The custom agent, \<open>harnesses/custom_minimal\<close>: \<open>Agent_Tools\<close> (\<open>tools.py\<close>, the shell's result and the
    editor with its history), \<open>Agent_Loop\<close> (\<open>harness.py\<close>: retries, turns, budgets, the output) and
    \<open>Agent_Facts\<close>.
  \<^item> Harness worker, \<open>workers/harness_worker.py\<close> with \<open>workers/timing.py\<close> and \<open>harnesses/task_framing.py\<close>:
    \<open>Worker_Timing\<close> (time stamps and task metadata), \<open>Harness_Worker\<close> (one job from its message or
    reference to its row, its artifacts and its removal, the loop, the heartbeat), \<open>Worker_Facts\<close>, and
    \<open>Agent_Worker\<close> (the custom agent under the worker).
  \<^item> Offline judge, \<open>analysis\<close>: \<open>Judge_Scores\<close> (\<open>score_parsing.py\<close>, \<open>calibration.py\<close>), \<open>Judge_Pass\<close>
    (\<open>judge.py\<close>, \<open>judge_keys.py\<close>: candidates, the sample, the cascade of one candidate, the concurrent pass
    with its counts and its money, the lock and the keys) and \<open>Judge_Facts\<close>.

  The parts interact through Redis, Aurora and the queues. The pacer reads the configuration hash that the seeds, the
  operator limits and a launch write (all through \<open>pacer_cfg_key\<close>); the autoscaler reads the global
  operator limits (\<open>pyfloat hash\<close>) and the pause flag (a boolean of \<open>tick_reads\<close>); the eval
  flags and the harness reasons end in one error category. Every result, a worker's, the reaper's,
  the abort's or the dispatcher's notice, is a \<open>result_message\<close> that \<open>process_result\<close> brings into the
  one table \<open>lg_table\<close>, which the reaper, the abort, the restart and the close read. The planner
  reads the pacer's configuration and writes growth and recovery back into it. The shim calls the
  pacer's \<open>acquire\<close> and \<open>release\<close> (events of its trace) and classifies overloads as the ceiling probe
  does; the eval worker takes the \<open>eval_job\<close> that the ledger sends, turns a grade into an error category
  and sends a \<open>result_message\<close> back. A launch hands its jobs to the queue as \<open>harness_job\<close>; the
  dispatcher sends a \<open>job_reference\<close>, from whose environment the worker rebuilds the job; the worker runs
  an adapter against the modelled shim, \<open>shim_session\<close>, and sends the row that \<open>process_result\<close> takes. The
  agent compacts its conversation with the modelled compaction, and an abort revokes what a launch recorded.

  Conventions. Python integers are \<open>int\<close> or \<open>nat\<close>; floats are \<open>real\<close> (no rounding), with \<open>pyfloat\<close>
  where the code meets infinities or NaN; a Redis hash is an association list, a field text is
  \<open>stored\<close> (\<open>Py_Text\<close> models \<open>float()\<close>, \<open>strip\<close> and \<open>lower\<close> on ASCII). A call to Redis, Aurora or AWS
  that the code guards with an exception handler takes a flag (or an option) saying whether it
  succeeded; clocks, replies and random factors are arguments. Errors are values of a sum or an
  option.

  What the lemmas show. The pacer: over any run of events the tokens and the call starts stay
  within burst plus refill, live calls within the in-flight cap; a bypass leaves the head what it
  needs; hints suffice; the acquire loop ends and cleans up; release settles. Control: reads fail
  closed, a pause is read back, the reconcile is a compare-and-set. Limits and seeds: edits are
  validated, read back, shown truthfully, and survive a wipe. Autoscaler: bounds, safe actions on
  hosts, damping over any run of ticks. Ceiling: the answer is measured and the search ends.
  Compaction: no orphans, messages verbatim, sizes shrink. Detector: the search finds a longest block of equal calls. Theorems of kind error state where
  the code departs from its comments: a failed read that resumes pools, aborts forgotten in an outage,
  a launch that keeps old marks, damping spent by host ticks or skipped by a pause, a tail cap that grows a
  message, an in-flight reservation in the wrong unit, a search that does not end for a tolerance of zero, and a loop of parallel calls the detector misses.

  Ledger: a row's rank never falls and its evidence stays, the order and the repetition of
  deliveries do not matter, a patch is graded at most once, columns hold the types of the SQL schema,
  messages with the fields of their dataclass survive the wire. Lifecycle: a reap needs evidence, a drain takes only its own run's messages, an
  abort closes every dead row with its state and leaves the live ones, a restart adds one next attempt for each
  instance whose deciding row is done, close and restart exclude each other,
  an operator's pause stands. Dispatcher: the isolation gate is exact and launches stay below the
  ceiling and the run cap last read, up to the launches that \<open>ListTasks\<close> does not show yet. Planner: survival is a probability, the ceiling is the largest fleet that fits, it
  never widens another limit, an overload freezes launches, the arrival budget stays by its seed.
  Here too the theorems of kind error say where the code departs: an eval job that is lost when its
  enqueue fails, rows no rule reaps, a pause that bridges the reaper's window, a restart that fails
  on duplicates, keys stranded by a failed sweep, overrides that drop a cap, messages that end the
  dispatcher, an in-flight budget without bound.

  Shim: what is added to a request fits the window and takes nothing away, every answered request
  closes its account with the pacer and is recorded once, retries end and every sleep within its hold, one
  call at most crosses a ceiling. Evaluation: exactly the parts with a hidden target are cut from a graded patch, a
  resolved verdict is earned, the row is a void exactly as the run ended, a job leaves the queue only behind its result, progress does not
  depend on chunks, detectable leaks are found. The errors found here: a broken body or an infinite token count that leaks an
  admission, calls counted twice, cached reads that lower a price, line breaks that grading rewrites, a
  renamed test that stays, a malformed job that stops the worker.

  Launch: at most one run holds a pair, the status tells how far a launch came, every job is sent once.
  Agent: undoing restores a file, edits stay inside the repository, retries fit the deadline, tokens stay
  near the budget, a finished run was finished by its model. Worker: a ready patch was metered, the
  row agrees with its category, a job leaves the queue only behind its result, a task runs the job of its
  reference, a ready patch reaches grading, the turn cap reads as a budget unless the harness gave another reason. Judge: findings need evidence, the sample covers every
  stratum, each candidate is counted once, the rows of a pass cost what its answered
  calls cost and stay near its ceiling, a resumed pass judges once, the pass
  ends. The errors: a failed mint that strands a key, an image refused after jobs were sent, a third
  malformed call that does not stop the run, an unreachable model told as a crash, a usage without a cost that loses the run, the turn cap told as a
  budget breach, a small cost ceiling that becomes zero, evidence that ends a pass, a broken cascade whose cost is not
  counted.

  Bounds and fuel. The head scan of the admission script has the script's own bound of sixteen.
  The acquire loop runs over the list of its polls; twenty polls a second of the hold cap are
  enough, because each sleep lasts at least 50 milliseconds. The bisection takes fuel; the width of
  the interval is enough when the tolerance is at least one, and nothing is enough for zero.

  The drain of an abort has the code's own bound of five hundred messages, the ceiling search its
  bound of four hundred additions; the survival loop ends because a window lasts at least forty
  seconds.

  The retry loop of the shim runs over the replies of the upstream; eleven are enough, five retries
  for each of two reasons and the first attempt. The agent's turns and the retries of one call run down the
  code's own bounds. The judge's pass runs over its waits; one wait for each candidate is enough. The worker's loop
  runs over the turns given to it.

  Not modelled: network and AWS clients, logging, SQL text, the HTTP API and the exports, the adapters of
  third-party agents (an argument of the worker), the shell and the file system below the agent's tools,
  the prompts, the transport and the live snapshot of the judge, the preflight of a model, the recovery of open runs, the capacity
  observer, the live capacity discovery and the operators' scripts. Threads appear only as the order in
  which their results arrive.
\<close>

end
